(* ===== verification/Prelude.thy ===== *)
theory Prelude
  imports Main "HOL-Library.Word" "HOL-Library.Monad_Syntax" "HOL-Library.Sublist"
begin

text \<open>
  Shared vocabulary of the development.

  A Rust computation that can panic (an index out of range, an \<open>unwrap\<close> of \<open>None\<close>) or that
  may loop forever is modelled in the option monad: \<open>None\<close> is "does not return a value".
  Theorems that a computation returns are stated as \<open>\<exists>r. f x = Some r\<close> and proved.
  Failures the code itself reports are values of a sum type, \<open>Inl\<close> the error.

  \<^item> \<open>nth_opt\<close>: \<open>v.get(i)\<close>, and the panicking read \<open>v[i]\<close> inside the monad;
  \<^item> \<open>upd_opt\<close>: the panicking write \<open>v[i] = x\<close>;
  \<^item> \<open>fold_opt\<close>: a \<open>for\<close> loop whose body updates a state and may panic;
  \<^item> \<open>map_opt\<close>: \<open>iter().map(..).collect()\<close> with a body that may panic;
  \<^item> \<open>zip_update\<close>: \<open>for (x, y) in xs.iter_mut().zip(ys)\<close>;
  \<^item> \<open>bsearch\<close>: the documented result of \<open>slice::binary_search\<close> on a sorted slice.
\<close>

named_theorems opt_simps

subsection \<open>Indexing\<close>

definition nth_opt :: "'a list \<Rightarrow> nat \<Rightarrow> 'a option" where
  "nth_opt xs i = (if i < length xs then Some (xs ! i) else None)"

definition upd_opt :: "'a list \<Rightarrow> nat \<Rightarrow> 'a \<Rightarrow> 'a list option" where
  "upd_opt xs i v = (if i < length xs then Some (xs[i := v]) else None)"

lemma nth_opt_in [simp]: "i < length xs \<Longrightarrow> nth_opt xs i = Some (xs ! i)"
  by (simp add: nth_opt_def)

lemma nth_opt_out [simp]: "length xs \<le> i \<Longrightarrow> nth_opt xs i = None"
  by (simp add: nth_opt_def)

lemma nth_opt_Some_iff [opt_simps]: "nth_opt xs i = Some v \<longleftrightarrow> i < length xs \<and> xs ! i = v"
  by (auto simp: nth_opt_def)

lemma nth_opt_None_iff [opt_simps]: "nth_opt xs i = None \<longleftrightarrow> length xs \<le> i"
  by (auto simp: nth_opt_def)

lemma upd_opt_in [simp]: "i < length xs \<Longrightarrow> upd_opt xs i v = Some (xs[i := v])"
  by (simp add: upd_opt_def)

lemma upd_opt_out [simp]: "length xs \<le> i \<Longrightarrow> upd_opt xs i v = None"
  by (simp add: upd_opt_def)

lemma upd_opt_Some_iff [opt_simps]: "upd_opt xs i v = Some ys \<longleftrightarrow> i < length xs \<and> ys = xs[i := v]"
  by (auto simp: upd_opt_def)

lemma bind_Some_iff [opt_simps]:
  "Option.bind m f = Some y \<longleftrightarrow> (\<exists>x. m = Some x \<and> f x = Some y)"
  by (cases m) auto

subsection \<open>Loops over a list\<close>

primrec fold_opt :: "('a \<Rightarrow> 's \<Rightarrow> 's option) \<Rightarrow> 'a list \<Rightarrow> 's \<Rightarrow> 's option" where
  "fold_opt f [] s = Some s"
| "fold_opt f (x # xs) s = Option.bind (f x s) (fold_opt f xs)"

primrec map_opt :: "('a \<Rightarrow> 'b option) \<Rightarrow> 'a list \<Rightarrow> 'b list option" where
  "map_opt f [] = Some []"
| "map_opt f (x # xs) = do { y \<leftarrow> f x; ys \<leftarrow> map_opt f xs; Some (y # ys) }"

lemma fold_opt_append: "fold_opt f (xs @ ys) s = Option.bind (fold_opt f xs s) (fold_opt f ys)"
  by (induction xs arbitrary: s) (auto split: bind_split)

lemma fold_opt_cong [fundef_cong]:
  assumes "xs = ys" "s = t" and "\<And>x u. x \<in> set ys \<Longrightarrow> f x u = g x u"
  shows "fold_opt f xs s = fold_opt g ys t"
proof -
  have "(\<And>x u. x \<in> set ys \<Longrightarrow> f x u = g x u) \<Longrightarrow> fold_opt f ys t = fold_opt g ys t" for t
    by (induction ys arbitrary: t) (auto intro: Option.bind_cong)
  with assms show ?thesis by simp
qed

text \<open>A loop whose every step succeeds and keeps an invariant succeeds and keeps it.\<close>

lemma fold_opt_inv:
  assumes "I s"
    and "\<And>x s. x \<in> set xs \<Longrightarrow> I s \<Longrightarrow> \<exists>s'. f x s = Some s' \<and> I s'"
  shows "\<exists>s'. fold_opt f xs s = Some s' \<and> I s'"
  using assms
proof (induction xs arbitrary: s)
  case Nil
  then show ?case by simp
next
  case (Cons x xs)
  then obtain s1 where "f x s = Some s1" "I s1" by fastforce
  then show ?case using Cons.IH [of s1] Cons.prems(2) by auto
qed

text \<open>A loop whose every step is a total function of the state is the ordinary fold.\<close>

lemma fold_opt_total:
  assumes "I s" and "\<And>x s. x \<in> set xs \<Longrightarrow> I s \<Longrightarrow> f x s = Some (g x s) \<and> I (g x s)"
  shows "fold_opt f xs s = Some (fold g xs s) \<and> I (fold g xs s)"
  using assms
proof (induction xs arbitrary: s)
  case Nil
  then show ?case by simp
next
  case (Cons x xs)
  then show ?case by simp
qed

lemma map_opt_total:
  "(\<And>x. x \<in> set xs \<Longrightarrow> f x = Some (g x)) \<Longrightarrow> map_opt f xs = Some (map g xs)"
  by (induction xs) auto

lemma map_opt_length: "map_opt f xs = Some ys \<Longrightarrow> length ys = length xs"
  by (induction xs arbitrary: ys) (auto simp: opt_simps)

text \<open>\<open>iter().all(..)\<close> with a body that may panic: it stops at the first \<open>false\<close>.\<close>

primrec all_opt :: "('a \<Rightarrow> bool option) \<Rightarrow> 'a list \<Rightarrow> bool option" where
  "all_opt f [] = Some True"
| "all_opt f (x # xs) = do { b \<leftarrow> f x; if b then all_opt f xs else Some False }"

lemma all_opt_total:
  "(\<And>x. x \<in> set xs \<Longrightarrow> f x = Some (g x)) \<Longrightarrow> all_opt f xs = Some (\<forall>x \<in> set xs. g x)"
  by (induction xs) auto

text \<open>\<open>iter().any(..)\<close> with a body that may panic: it stops at the first \<open>true\<close>.\<close>

primrec any_opt :: "('a \<Rightarrow> bool option) \<Rightarrow> 'a list \<Rightarrow> bool option" where
  "any_opt f [] = Some False"
| "any_opt f (x # xs) = do { b \<leftarrow> f x; if b then Some True else any_opt f xs }"

lemma any_opt_total:
  "(\<And>x. x \<in> set xs \<Longrightarrow> f x = Some (g x)) \<Longrightarrow> any_opt f xs = Some (\<exists>x \<in> set xs. g x)"
  by (induction xs) auto

subsection \<open>Element-wise update\<close>

fun zip_update :: "('a \<Rightarrow> 'b \<Rightarrow> 'a) \<Rightarrow> 'a list \<Rightarrow> 'b list \<Rightarrow> 'a list" where
  "zip_update f (x # xs) (y # ys) = f x y # zip_update f xs ys"
| "zip_update f xs ys = xs"

lemma length_zip_update [simp]: "length (zip_update f xs ys) = length xs"
  by (induction f xs ys rule: zip_update.induct) auto

lemma nth_zip_update:
  "i < length xs \<Longrightarrow>
   zip_update f xs ys ! i = (if i < length ys then f (xs ! i) (ys ! i) else xs ! i)"
proof (induction f xs ys arbitrary: i rule: zip_update.induct)
  case (1 f x xs y ys)
  then show ?case by (cases i) auto
qed auto

subsection \<open>Binary search in a sorted vector\<close>

text \<open>\<open>Inr i\<close> is \<open>Ok(i)\<close>, a matching index; \<open>Inl i\<close> is \<open>Err(i)\<close>, where to insert.\<close>

definition bsearch :: "'a::linorder list \<Rightarrow> 'a \<Rightarrow> nat + nat" where
  "bsearch xs v =
     (let i = length (takeWhile (\<lambda>x. x < v) xs)
      in if i < length xs \<and> xs ! i = v then Inr i else Inl i)"

lemma bsearch_found:
  assumes "sorted xs"
  shows "(\<exists>i. bsearch xs v = Inr i) \<longleftrightarrow> v \<in> set xs"
proof -
  have "v \<in> set xs \<Longrightarrow>
      length (takeWhile (\<lambda>x. x < v) xs) < length xs \<and> xs ! length (takeWhile (\<lambda>x. x < v) xs) = v"
    using assms by (induction xs) auto
  then show ?thesis by (auto simp: bsearch_def Let_def dest: nth_mem)
qed

lemma bsearch_InrD: "bsearch xs v = Inr i \<Longrightarrow> i < length xs \<and> xs ! i = v"
  by (auto simp: bsearch_def Let_def split: if_splits)

definition insert_at :: "nat \<Rightarrow> 'a \<Rightarrow> 'a list \<Rightarrow> 'a list" where
  "insert_at i v xs = take i xs @ v # drop i xs"

lemma set_insert_at [simp]: "set (insert_at i v xs) = insert v (set xs)"
  unfolding insert_at_def using append_take_drop_id [of i xs]
  by (metis Un_insert_right list.simps(15) set_append)

lemma insert_at_sorted:
  assumes "sorted xs" and "bsearch xs v = Inl i"
  shows "insert_at i v xs = insort v xs"
proof -
  have "i = length (takeWhile (\<lambda>x. x < v) xs)"
    using assms(2) by (auto simp: bsearch_def Let_def split: if_splits)
  moreover have "take (length (takeWhile (\<lambda>x. x < v) xs)) xs @
      v # drop (length (takeWhile (\<lambda>x. x < v) xs)) xs = insort v xs"
    using assms(1) by (induction xs) (auto simp: insort_is_Cons)
  ultimately show ?thesis by (simp add: insert_at_def)
qed

subsection \<open>Recursion through loops\<close>

lemma fold_opt_mono [partial_function_mono]:
  assumes "\<And>x s. mono_option (\<lambda>f. B x s f)"
  shows "mono_option (\<lambda>f. fold_opt (\<lambda>x s. B x s f) xs s)"
proof (induction xs arbitrary: s)
  case Nil
  then show ?case by (simp add: option.const_mono)
next
  case (Cons x xs)
  then show ?case using assms by (simp add: bind_mono)
qed

lemma map_opt_mono [partial_function_mono]:
  assumes "\<And>x. mono_option (\<lambda>f. B x f)"
  shows "mono_option (\<lambda>f. map_opt (\<lambda>x. B x f) xs)"
proof (induction xs)
  case Nil
  then show ?case by (simp add: option.const_mono)
next
  case (Cons x xs)
  then show ?case using assms by (simp add: bind_mono option.const_mono)
qed

lemma any_opt_mono [partial_function_mono]:
  assumes "\<And>x. mono_option (\<lambda>f. B x f)"
  shows "mono_option (\<lambda>f. any_opt (\<lambda>x. B x f) xs)"
proof (induction xs)
  case Nil
  then show ?case by (simp add: option.const_mono)
next
  case (Cons x xs)
  have "mono_option (\<lambda>f. if b then Some True else any_opt (\<lambda>x. B x f) xs)" for b
    using Cons by (cases b) (simp_all add: option.const_mono)
  then show ?case using assms by (simp add: bind_mono)
qed

lemma all_opt_mono [partial_function_mono]:
  assumes "\<And>x. mono_option (\<lambda>f. B x f)"
  shows "mono_option (\<lambda>f. all_opt (\<lambda>x. B x f) xs)"
proof (induction xs)
  case Nil
  then show ?case by (simp add: option.const_mono)
next
  case (Cons x xs)
  have "mono_option (\<lambda>f. if b then all_opt (\<lambda>x. B x f) xs else Some False)" for b
    using Cons by (cases b) (simp_all add: option.const_mono)
  then show ?case using assms by (simp add: bind_mono)
qed

end
