(* ===== verification/Cleanup_Data.thy ===== *)
theory Cleanup_Data
  imports Prelude
begin

text \<open>
  The data of \<open>compiler/src/cleanup.rs\<close>: scopes, locals, places, move paths, cleanup
  operations, control-flow edges, basic blocks and the cleanup plan.  The typed ids
  (\<open>ScopeId\<close>, \<open>LocalId\<close>, \<open>MovePathId\<close>, \<open>BasicBlockId\<close>, \<open>DropFlagId\<close>) wrap a \<open>usize\<close> and are
  natural numbers here; \<open>u32\<close> and \<open>u64\<close> payloads keep their width.
\<close>

type_synonym u32 = "32 word"
type_synonym u64 = "64 word"

type_synonym scope_id = nat
type_synonym local_id = nat
type_synonym move_path_id = nat
type_synonym basic_block_id = nat
type_synonym drop_flag_id = nat

subsection \<open>Scopes and locals\<close>

datatype scope_kind = RootScope | FunctionBody | Lexical | LoopScope | MatchArm | TemporaryScope

record scope_data =
  scope_id :: scope_id
  scope_parent :: "scope_id option"
  scope_kind :: scope_kind
  scope_locals :: "local_id list"

datatype local_kind = Argument | User | Pattern | Temporary | ReturnPlace

datatype local_ownership = Owned | SharedBorrow | MutableBorrow

record local_decl =
  local_id :: local_id
  source_local :: "nat option"
  debug_name :: "string option"
  local_scope :: scope_id
  local_kind :: local_kind
  ownership :: local_ownership
  is_mutable :: bool
  declaration_order :: nat

subsection \<open>Places and move paths\<close>

datatype projection =
    Deref
  | Field u32
  | TupleIndex u32
  | ConstantIndex u64
  | Index local_id
  | Downcast u32
  | Capture u32

record place =
  place_local :: local_id
  projections :: "projection list"

definition place_local_root :: "local_id \<Rightarrow> place" where
  "place_local_root l = \<lparr>place_local = l, projections = []\<rparr>"

definition place_project :: "place \<Rightarrow> projection \<Rightarrow> place" where
  "place_project p j = p\<lparr>projections := projections p @ [j]\<rparr>"

record move_path =
  path_id :: move_path_id
  path_place :: place
  path_parent :: "move_path_id option"
  needs_drop :: bool

text \<open>\<open>projections.last()\<close>.\<close>

definition last_projection :: "move_path \<Rightarrow> projection option" where
  "last_projection p =
     (case projections (path_place p) of [] \<Rightarrow> None | js \<Rightarrow> Some (last js))"

subsection \<open>Operations, edges and blocks\<close>

datatype transfer_kind = Initialize | OverwriteTarget | MaybeOverwrite

datatype cleanup_op =
    StorageLive local_id
  | Init move_path_id
  | MoveOut move_path_id
  | Overwrite move_path_id
  | Transfer move_path_id move_path_id transfer_kind
  | SetDiscriminant move_path_id u32
  | AssumeDiscriminant move_path_id u32
  | StorageDead local_id

record cleanup_edge =
  edge_target :: basic_block_id
  exited_scopes :: "scope_id list"

datatype terminator =
    Goto cleanup_edge
  | Branch local_id cleanup_edge cleanup_edge
  | Return "scope_id list"
  | Abort
  | Unreachable

record basic_block =
  block_id :: basic_block_id
  block_scope :: scope_id
  operations :: "cleanup_op list"
  block_terminator :: "terminator option"

subsection \<open>Answers of the analyses\<close>

datatype path_initialization = Uninitialized | MaybeOrPartial | Initialized

datatype storage_liveness = Dead | MaybeLive | Live

datatype drop_condition = Static | Flag drop_flag_id

datatype drop_obligation =
  DropObligation (ob_path: move_path_id) (ob_condition: drop_condition)
    (ob_children_when_clear: "drop_obligation list")

record drop_site =
  site_block :: basic_block_id
  site_operation_index :: nat
  site_local :: local_id
  site_obligations :: "drop_obligation list"

record drop_flag =
  flag_id :: drop_flag_id
  flag_path :: move_path_id

datatype drop_flag_value = FlagClear | FlagSet

record drop_flag_action =
  action_block :: basic_block_id
  action_operation_index :: nat
  action_flag :: drop_flag_id
  action_value :: drop_flag_value

record drop_flag_analysis =
  flags_computed :: bool
  da_flags :: "drop_flag list"
  da_actions :: "drop_flag_action list"
  da_sites :: "drop_site list"

definition drop_flag_analysis_uncomputed :: drop_flag_analysis where
  "drop_flag_analysis_uncomputed =
     \<lparr>flags_computed = False, da_flags = [], da_actions = [], da_sites = []\<rparr>"

definition flag_for_path :: "drop_flag_analysis \<Rightarrow> move_path_id \<Rightarrow> drop_flag_id option" where
  "flag_for_path a p =
     (if flags_computed a
      then map_option flag_id (List.find (\<lambda>f. flag_path f = p) (da_flags a))
      else None)"

end
