(* ===== verification/Cleanup_BitSet.thy ===== *)
theory Cleanup_BitSet
  imports Cleanup_Data
begin

text \<open>
  \<open>BitSet\<close> of \<open>compiler/src/cleanup.rs\<close>: a set of small numbers as a vector of 64-bit words.
  \<open>insert\<close> and \<open>remove\<close> index the vector and panic (\<open>None\<close>) past its end, \<open>contains\<close>
  answers \<open>false\<close> there.  \<open>bits\<close> is the abstraction to a set; the locale \<open>bit_store\<close> is the
  contract the move-state analysis relies on, and the interpretation \<open>bs\<close> proves it for the
  words.
\<close>

unbundle bit_operations_syntax

record bit_set =
  bit_words :: "u64 list"

definition bit_mask :: "nat \<Rightarrow> u64" where
  "bit_mask i = push_bit (i mod 64) 1"

definition bitset_new :: "nat \<Rightarrow> bit_set" where
  "bitset_new n = \<lparr>bit_words = replicate ((n + 63) div 64) 0\<rparr>"

definition bitset_contains :: "bit_set \<Rightarrow> nat \<Rightarrow> bool" where
  "bitset_contains b i =
     (case nth_opt (bit_words b) (i div 64) of
        None \<Rightarrow> False
      | Some w \<Rightarrow> w AND bit_mask i \<noteq> 0)"

definition bitset_insert :: "bit_set \<Rightarrow> nat \<Rightarrow> bit_set option" where
  "bitset_insert b i = do {
     w \<leftarrow> nth_opt (bit_words b) (i div 64);
     Some (b\<lparr>bit_words := (bit_words b)[i div 64 := w OR bit_mask i]\<rparr>) }"

definition bitset_remove :: "bit_set \<Rightarrow> nat \<Rightarrow> bit_set option" where
  "bitset_remove b i = do {
     w \<leftarrow> nth_opt (bit_words b) (i div 64);
     Some (b\<lparr>bit_words := (bit_words b)[i div 64 := w AND NOT (bit_mask i)]\<rparr>) }"

definition bitset_union_with :: "bit_set \<Rightarrow> bit_set \<Rightarrow> bit_set" where
  "bitset_union_with b c = b\<lparr>bit_words := zip_update (OR) (bit_words b) (bit_words c)\<rparr>"

definition bitset_intersect_with :: "bit_set \<Rightarrow> bit_set \<Rightarrow> bit_set" where
  "bitset_intersect_with b c = b\<lparr>bit_words := zip_update (AND) (bit_words b) (bit_words c)\<rparr>"

subsection \<open>The abstraction to sets\<close>

definition bits :: "bit_set \<Rightarrow> nat set" where
  "bits b = {i. bitset_contains b i}"

text \<open>How many words the vector has: a bit below \<open>64 * bit_capacity b\<close> can be stored.\<close>

definition bit_capacity :: "bit_set \<Rightarrow> nat" where
  "bit_capacity b = length (bit_words b)"

definition capacity_for :: "nat \<Rightarrow> nat" where
  "capacity_for n = (n + 63) div 64"

lemma bit_bit_mask: "bit (bit_mask i) n \<longleftrightarrow> n = i mod 64"
proof -
  have "bit_mask i = 2 ^ (i mod 64)"
    by (simp add: bit_mask_def push_bit_eq_mult)
  then show ?thesis by (auto simp: bit_exp_iff)
qed

lemma mask_nonzero_iff: "(w :: u64) AND bit_mask i \<noteq> 0 \<longleftrightarrow> bit w (i mod 64)"
proof -
  have "bit (w AND bit_mask i) n \<longleftrightarrow> n = i mod 64 \<and> bit w n" for n
    by (auto simp: bit_and_iff bit_bit_mask)
  then show ?thesis
    by (metis bit_0_eq bot_apply bot_bool_def bit_eqI)
qed

lemma contains_alt:
  "bitset_contains b i \<longleftrightarrow>
     i div 64 < length (bit_words b) \<and> bit (bit_words b ! (i div 64)) (i mod 64)"
  by (auto simp: bitset_contains_def nth_opt_def mask_nonzero_iff)

lemma same_bit_iff: "i div 64 = j div 64 \<and> i mod 64 = j mod 64 \<longleftrightarrow> i = (j :: nat)"
  by (metis div_mult_mod_eq)

lemma div64_less_iff: "(i :: nat) div 64 < n \<longleftrightarrow> i < 64 * n"
  by (simp add: div_less_iff_less_mult mult.commute)

lemma mem_bits: "i \<in> bits b \<longleftrightarrow> bitset_contains b i"
  by (simp add: bits_def)

lemma bits_new [simp]: "bits (bitset_new n) = {}"
  by (auto simp: bits_def contains_alt bitset_new_def)

lemma capacity_new [simp]: "bit_capacity (bitset_new n) = capacity_for n"
  by (simp add: bit_capacity_def bitset_new_def capacity_for_def)

lemma fits_capacity: "i < n \<Longrightarrow> i div 64 < capacity_for n"
  unfolding capacity_for_def by linarith

lemma bitset_insert_spec:
  assumes "i div 64 < bit_capacity b"
  shows "\<exists>b'. bitset_insert b i = Some b' \<and> bits b' = insert i (bits b) \<and>
    bit_capacity b' = bit_capacity b"
proof -
  have "j \<in> bits (b\<lparr>bit_words := (bit_words b)[i div 64 := bit_words b ! (i div 64) OR bit_mask i]\<rparr>)
      \<longleftrightarrow> j = i \<or> j \<in> bits b" for j
    using assms same_bit_iff [of i j]
    by (auto simp: mem_bits contains_alt nth_list_update bit_or_iff bit_bit_mask bit_capacity_def)
  then show ?thesis
    using assms by (auto simp: bitset_insert_def bit_capacity_def)
qed

lemma bitset_remove_spec:
  assumes "i div 64 < bit_capacity b"
  shows "\<exists>b'. bitset_remove b i = Some b' \<and> bits b' = bits b - {i} \<and>
    bit_capacity b' = bit_capacity b"
proof -
  have "j \<in> bits (b\<lparr>bit_words := (bit_words b)[i div 64 := bit_words b ! (i div 64) AND NOT (bit_mask i)]\<rparr>)
      \<longleftrightarrow> j \<noteq> i \<and> j \<in> bits b" for j
    using assms same_bit_iff [of i j]
    by (auto simp: mem_bits contains_alt nth_list_update bit_and_iff bit_not_iff bit_bit_mask
        bit_capacity_def possible_bit_word dest: bit_imp_le_length)
  then show ?thesis
    using assms by (auto simp: bitset_remove_def bit_capacity_def)
qed

lemma bits_union_with:
  "bit_capacity b = bit_capacity c \<Longrightarrow> bits (bitset_union_with b c) = bits b \<union> bits c"
  by (auto simp: bits_def contains_alt bitset_union_with_def nth_zip_update bit_or_iff
      bit_capacity_def)

lemma bits_intersect_with:
  "bit_capacity b = bit_capacity c \<Longrightarrow> bits (bitset_intersect_with b c) = bits b \<inter> bits c"
  by (auto simp: bits_def contains_alt bitset_intersect_with_def nth_zip_update bit_and_iff
      bit_capacity_def)

lemma capacity_union_with [simp]: "bit_capacity (bitset_union_with b c) = bit_capacity b"
  by (simp add: bit_capacity_def bitset_union_with_def)

lemma capacity_intersect_with [simp]: "bit_capacity (bitset_intersect_with b c) = bit_capacity b"
  by (simp add: bit_capacity_def bitset_intersect_with_def)

text \<open>Equal words, the test \<open>==\<close> of the code, and equal sets agree at one capacity.\<close>

lemma bits_eqI:
  assumes "bit_capacity b = bit_capacity c" and "bits b = bits c"
  shows "b = c"
proof -
  have "bit (bit_words b ! k) n \<longleftrightarrow> bit (bit_words c ! k) n"
    if "k < length (bit_words b)" "n < 64" for k n
  proof -
    have "64 * k + n \<in> bits b \<longleftrightarrow> 64 * k + n \<in> bits c" using assms(2) by simp
    with that assms(1) show ?thesis by (simp add: mem_bits contains_alt bit_capacity_def)
  qed
  then have "bit_words b = bit_words c"
    using assms(1) by (auto simp: bit_capacity_def intro!: nth_equalityI bit_word_eqI)
  then show ?thesis by simp
qed

subsection \<open>The contract of a bit store\<close>

locale bit_store =
  fixes empty :: "nat \<Rightarrow> 'b"
    and has :: "'b \<Rightarrow> nat \<Rightarrow> bool"
    and ins :: "'b \<Rightarrow> nat \<Rightarrow> 'b option"
    and del :: "'b \<Rightarrow> nat \<Rightarrow> 'b option"
    and elems :: "'b \<Rightarrow> nat set"
    and fits :: "'b \<Rightarrow> nat \<Rightarrow> bool"
  assumes has_iff: "has b i \<longleftrightarrow> i \<in> elems b"
    and elems_empty: "elems (empty n) = {}"
    and fits_empty: "i < n \<Longrightarrow> fits (empty n) i"
    and ins_elems: "fits b i \<Longrightarrow> \<exists>b'. ins b i = Some b' \<and> elems b' = insert i (elems b) \<and> fits b' = fits b"
    and del_elems: "fits b i \<Longrightarrow> \<exists>b'. del b i = Some b' \<and> elems b' = elems b - {i} \<and> fits b' = fits b"
begin

text \<open>Loops of insertions and removals: the set changes by exactly the visited elements.\<close>

lemma del_loop:
  "\<forall>i \<in> set is. fits b i \<Longrightarrow>
   \<exists>b'. fold_opt (\<lambda>i b. del b i) is b = Some b' \<and> elems b' = elems b - set is \<and> fits b' = fits b"
proof (induction "is" arbitrary: b)
  case Nil
  then show ?case by simp
next
  case (Cons i "is")
  then obtain c where c: "del b i = Some c" "elems c = elems b - {i}" "fits c = fits b"
    using del_elems [of b i] by auto
  moreover have "\<forall>j \<in> set is. fits c j" using Cons.prems c(3) by simp
  ultimately show ?case using Cons.IH [of c] by auto
qed

lemma ins_loop:
  "\<forall>i \<in> set is. fits b i \<Longrightarrow>
   \<exists>b'. fold_opt (\<lambda>i b. ins b i) is b = Some b' \<and> elems b' = elems b \<union> set is \<and> fits b' = fits b"
proof (induction "is" arbitrary: b)
  case Nil
  then show ?case by simp
next
  case (Cons i "is")
  then obtain c where c: "ins b i = Some c" "elems c = insert i (elems b)" "fits c = fits b"
    using ins_elems [of b i] by auto
  moreover have "\<forall>j \<in> set is. fits c j" using Cons.prems c(3) by simp
  ultimately show ?case using Cons.IH [of c] by auto
qed

text \<open>What was inserted is found, what was removed is not, and nothing else changes.\<close>

lemma has_after_ins: "fits b i \<Longrightarrow> ins b i = Some b' \<Longrightarrow> has b' j \<longleftrightarrow> j = i \<or> has b j"
  using ins_elems [of b i] by (auto simp: has_iff)

lemma has_after_del: "fits b i \<Longrightarrow> del b i = Some b' \<Longrightarrow> has b' j \<longleftrightarrow> j \<noteq> i \<and> has b j"
  using del_elems [of b i] by (auto simp: has_iff)

end

definition bit_fits :: "bit_set \<Rightarrow> nat \<Rightarrow> bool" where
  "bit_fits b i \<longleftrightarrow> i div 64 < bit_capacity b"

lemma bit_fits_eqI: "bit_capacity b = bit_capacity c \<Longrightarrow> bit_fits b = bit_fits c"
  by (simp add: bit_fits_def fun_eq_iff)

interpretation bs: bit_store bitset_new bitset_contains bitset_insert bitset_remove bits bit_fits
proof unfold_locales
  fix b i
  assume "bit_fits b i"
  then have h: "i div 64 < bit_capacity b" by (simp add: bit_fits_def)
  show "\<exists>b'. bitset_insert b i = Some b' \<and> bits b' = insert i (bits b) \<and> bit_fits b' = bit_fits b"
    using bitset_insert_spec [OF h] bit_fits_eqI by blast
  show "\<exists>b'. bitset_remove b i = Some b' \<and> bits b' = bits b - {i} \<and> bit_fits b' = bit_fits b"
    using bitset_remove_spec [OF h] bit_fits_eqI by blast
qed (auto simp: mem_bits bit_fits_def intro: fits_capacity)

end
