(* ===== verification/Cleanup_Plan.thy ===== *)
theory Cleanup_Plan
  imports Cleanup_BitSet
begin

text \<open>
  The records that tie the cleanup analysis together: the abstract move state of one program
  point, the move-path topology, the cached analysis and the plan itself
  (\<open>compiler/src/cleanup.rs\<close>).
\<close>

subsection \<open>Discriminants\<close>

record discriminant_state =
  may_be_unset :: bool
  possible_variants :: "u32 list"

definition ds_unset :: discriminant_state where
  "ds_unset = \<lparr>may_be_unset = True, possible_variants = []\<rparr>"

definition ds_set_known :: "discriminant_state \<Rightarrow> u32 \<Rightarrow> discriminant_state" where
  "ds_set_known d v = d\<lparr>may_be_unset := False, possible_variants := [v]\<rparr>"

definition ds_include_variant :: "discriminant_state \<Rightarrow> u32 \<Rightarrow> discriminant_state" where
  "ds_include_variant d v =
     (case bsearch (possible_variants d) v of
        Inr _ \<Rightarrow> d
      | Inl i \<Rightarrow> d\<lparr>possible_variants := insert_at i v (possible_variants d)\<rparr>)"

definition ds_join_with :: "discriminant_state \<Rightarrow> discriminant_state \<Rightarrow> discriminant_state" where
  "ds_join_with d e =
     fold (\<lambda>v d. ds_include_variant d v) (possible_variants e)
       (d\<lparr>may_be_unset := may_be_unset d \<or> may_be_unset e\<rparr>)"

text \<open>The vector of variants is kept sorted and free of duplicates.\<close>

definition ds_ok :: "discriminant_state \<Rightarrow> bool" where
  "ds_ok d \<longleftrightarrow> sorted (possible_variants d) \<and> distinct (possible_variants d)"

lemma ds_ok_unset [simp]: "ds_ok ds_unset"
  by (simp add: ds_ok_def ds_unset_def)

lemma ds_ok_set_known [simp]: "ds_ok (ds_set_known d v)"
  by (simp add: ds_ok_def ds_set_known_def)

lemma may_be_unset_include [simp]: "may_be_unset (ds_include_variant d v) = may_be_unset d"
  by (simp add: ds_include_variant_def split: sum.splits)

lemma ds_include_variant_spec:
  assumes "ds_ok d"
  shows "ds_ok (ds_include_variant d v) \<and>
    set (possible_variants (ds_include_variant d v)) = insert v (set (possible_variants d))"
proof (cases "bsearch (possible_variants d) v")
  case (Inl i)
  have "v \<notin> set (possible_variants d)"
    using Inl assms bsearch_found [of "possible_variants d" v] by (auto simp: ds_ok_def)
  with assms Inl show ?thesis
    by (simp add: ds_include_variant_def ds_ok_def insert_at_sorted sorted_insort distinct_insort
        set_insort_key)
next
  case (Inr i)
  then show ?thesis
    using assms bsearch_InrD [OF Inr] by (auto simp: ds_include_variant_def)
qed

lemma ds_include_all:
  assumes "ds_ok d"
  shows "ds_ok (fold (\<lambda>v d. ds_include_variant d v) vs d) \<and>
    set (possible_variants (fold (\<lambda>v d. ds_include_variant d v) vs d)) =
      set vs \<union> set (possible_variants d) \<and>
    may_be_unset (fold (\<lambda>v d. ds_include_variant d v) vs d) = may_be_unset d"
  using assms
proof (induction vs arbitrary: d)
  case Nil
  then show ?case by simp
next
  case (Cons v vs)
  show ?case
    using Cons.IH [of "ds_include_variant d v"] ds_include_variant_spec [OF Cons.prems, of v]
    by auto
qed

lemma ds_join_with_spec:
  assumes "ds_ok d"
  shows "ds_ok (ds_join_with d e) \<and>
    set (possible_variants (ds_join_with d e)) =
      set (possible_variants d) \<union> set (possible_variants e) \<and>
    may_be_unset (ds_join_with d e) = (may_be_unset d \<or> may_be_unset e)"
proof -
  have "ds_ok (d\<lparr>may_be_unset := may_be_unset d \<or> may_be_unset e\<rparr>)"
    using assms by (simp add: ds_ok_def)
  from ds_include_all [OF this, of "possible_variants e"] show ?thesis
    by (auto simp: ds_join_with_def)
qed

subsection \<open>Move states, topology, analysis, plan\<close>

record move_state =
  reachable :: bool
  may_live :: bit_set
  must_live :: bit_set
  may_init :: bit_set
  must_init :: bit_set
  discriminants :: "discriminant_state list"

datatype completion_rule =
    Explicit
  | AllChildren
  | EnumRoot "(u32 \<times> move_path_id) list"

record move_path_topology =
  topo_children :: "move_path_id list list"
  completion :: "completion_rule list"
  discriminant_index :: "nat option list"
  discriminant_count :: nat
  roots_by_local :: "move_path_id option list"
  preorder_paths :: "move_path_id list"
  preorder_index :: "nat list"
  subtree_end :: "nat list"

definition topology_empty :: move_path_topology where
  "topology_empty =
     \<lparr>topo_children = [], completion = [], discriminant_index = [], discriminant_count = 0,
      roots_by_local = [], preorder_paths = [], preorder_index = [], subtree_end = []\<rparr>"

record move_state_analysis =
  ms_computed :: bool
  topology :: move_path_topology
  ms_block_entry :: "move_state list"
  ms_block_exit :: "move_state list"

definition move_state_analysis_uncomputed :: move_state_analysis where
  "move_state_analysis_uncomputed =
     \<lparr>ms_computed = False, topology = topology_empty, ms_block_entry = [], ms_block_exit = []\<rparr>"

definition analysis_block_entry :: "move_state_analysis \<Rightarrow> basic_block_id \<Rightarrow> move_state option" where
  "analysis_block_entry a b = (if ms_computed a then nth_opt (ms_block_entry a) b else None)"

definition analysis_block_exit :: "move_state_analysis \<Rightarrow> basic_block_id \<Rightarrow> move_state option" where
  "analysis_block_exit a b = (if ms_computed a then nth_opt (ms_block_exit a) b else None)"

record cleanup_plan =
  root_scope :: scope_id
  plan_entry :: basic_block_id
  scopes :: "scope_data list"
  plan_locals :: "local_decl list"
  move_paths :: "move_path list"
  blocks :: "basic_block list"
  move_state_cache :: move_state_analysis
  drop_flags_cache :: drop_flag_analysis

end
