(* ===== verification/Cleanup_Topology.thy ===== *)
theory Cleanup_Topology
  imports Cleanup_Plan
begin

text \<open>
  \<open>MovePathTopology\<close> of \<open>compiler/src/cleanup.rs\<close>: the move paths of a plan as a forest.
  \<open>topology_new\<close> collects children and roots, classifies every path by what completes it,
  numbers the enum roots and lays the forest out in preorder, so that the subtree of a path is
  the interval \<open>preorder_index .. subtree_end\<close>.  The theorems show that for the paths of a
  well-formed plan the construction returns and that interval containment is exactly "the
  place of the one is a prefix of the place of the other".
\<close>

subsection \<open>Construction\<close>

definition topology_link ::
    "move_path \<Rightarrow> move_path_id list list \<times> move_path_id option list \<Rightarrow>
     (move_path_id list list \<times> move_path_id option list) option" where
  "topology_link path st =
     (case path_parent path of
        Some parent \<Rightarrow> do {
          cs \<leftarrow> nth_opt (fst st) parent;
          children \<leftarrow> upd_opt (fst st) parent (cs @ [path_id path]);
          Some (children, snd st) }
      | None \<Rightarrow> do {
          roots \<leftarrow> upd_opt (snd st) (place_local (path_place path)) (Some (path_id path));
          Some (fst st, roots) })"

definition topology_links ::
    "cleanup_plan \<Rightarrow> (move_path_id list list \<times> move_path_id option list) option" where
  "topology_links plan = do {
     st \<leftarrow> fold_opt topology_link (move_paths plan)
       (replicate (length (move_paths plan)) [], replicate (length (plan_locals plan)) None);
     Some (map sort (fst st), snd st) }"

definition downcast_variant :: "move_path \<Rightarrow> u32 option" where
  "downcast_variant p =
     (case last_projection p of Some (Downcast v) \<Rightarrow> Some v | _ \<Rightarrow> None)"

definition completion_variants ::
    "cleanup_plan \<Rightarrow> move_path_id list \<Rightarrow> (u32 \<times> move_path_id) list option" where
  "completion_variants plan child_ids =
     fold_opt (\<lambda>child variants. do {
         p \<leftarrow> nth_opt (move_paths plan) child;
         Some (case downcast_variant p of
                 Some v \<Rightarrow> variants @ [(v, child)]
               | None \<Rightarrow> variants) }) child_ids []"

definition completion_of :: "cleanup_plan \<Rightarrow> move_path_id list \<Rightarrow> completion_rule option" where
  "completion_of plan child_ids =
     (if child_ids = [] then Some Explicit
      else do {
        variants \<leftarrow> completion_variants plan child_ids;
        Some (if length variants = length child_ids
              then EnumRoot (sort_key fst variants)
              else AllChildren) })"

fun number_enum_roots :: "nat \<Rightarrow> completion_rule list \<Rightarrow> nat option list \<times> nat" where
  "number_enum_roots n [] = ([], n)"
| "number_enum_roots n (EnumRoot vs # rules) =
     (case number_enum_roots (Suc n) rules of (is, m) \<Rightarrow> (Some n # is, m))"
| "number_enum_roots n (rule # rules) =
     (case number_enum_roots n rules of (is, m) \<Rightarrow> (None # is, m))"

type_synonym preorder_state = "move_path_id list \<times> nat list \<times> nat list"

text \<open>
  The explicit stack of the layout: the head of the list is the top.  An entry is a path and
  whether its subtree is being left.
\<close>

partial_function (option) preorder_loop ::
    "move_path_id list list \<Rightarrow> (move_path_id \<times> bool) list \<Rightarrow> preorder_state \<Rightarrow>
     preorder_state option" where
  [code]: "preorder_loop children stack st =
     (case stack of
        [] \<Rightarrow> Some st
      | e # stack' \<Rightarrow>
          if snd e then do {
            ends \<leftarrow> upd_opt (snd (snd st)) (fst e) (length (fst st));
            preorder_loop children stack' (fst st, fst (snd st), ends) }
          else do {
            index \<leftarrow> upd_opt (fst (snd st)) (fst e) (length (fst st));
            cs \<leftarrow> nth_opt children (fst e);
            preorder_loop children (map (\<lambda>c. (c, False)) cs @ (fst e, True) # stack')
              (fst st @ [fst e], index, snd (snd st)) })"

definition preorder_layout ::
    "cleanup_plan \<Rightarrow> move_path_id list list \<Rightarrow> move_path_id option list \<Rightarrow> preorder_state option" where
  "preorder_layout plan children roots =
     fold_opt (\<lambda>root st. preorder_loop children [(root, False)] st)
       (List.map_filter id roots)
       ([], replicate (length (move_paths plan)) 0, replicate (length (move_paths plan)) 0)"

definition topology_new :: "cleanup_plan \<Rightarrow> move_path_topology option" where
  "topology_new plan = do {
     links \<leftarrow> topology_links plan;
     rules \<leftarrow> map_opt (completion_of plan) (fst links);
     layout \<leftarrow> preorder_layout plan (fst links) (snd links);
     Some \<lparr>topo_children = fst links,
           completion = rules,
           discriminant_index = fst (number_enum_roots 0 rules),
           discriminant_count = snd (number_enum_roots 0 rules),
           roots_by_local = snd links,
           preorder_paths = fst layout,
           preorder_index = fst (snd layout),
           subtree_end = snd (snd layout)\<rparr> }"

subsection \<open>Queries\<close>

definition subtree :: "move_path_topology \<Rightarrow> move_path_id \<Rightarrow> move_path_id list option" where
  "subtree t path = do {
     start \<leftarrow> nth_opt (preorder_index t) path;
     end \<leftarrow> nth_opt (subtree_end t) path;
     if start \<le> end \<and> end \<le> length (preorder_paths t)
     then Some (take (end - start) (drop start (preorder_paths t)))
     else None }"

definition contains_path :: "move_path_topology \<Rightarrow> move_path_id \<Rightarrow> move_path_id \<Rightarrow> bool option" where
  "contains_path t ancestor descendant = do {
     start \<leftarrow> nth_opt (preorder_index t) ancestor;
     d \<leftarrow> nth_opt (preorder_index t) descendant;
     if start \<le> d then do { end \<leftarrow> nth_opt (subtree_end t) ancestor; Some (d < end) }
     else Some False }"

definition enum_variants ::
    "move_path_topology \<Rightarrow> move_path_id \<Rightarrow> (u32 \<times> move_path_id) list option option" where
  "enum_variants t path = do {
     rule \<leftarrow> nth_opt (completion t) path;
     Some (case rule of EnumRoot variants \<Rightarrow> Some variants | _ \<Rightarrow> None) }"

definition is_callable_environment :: "cleanup_plan \<Rightarrow> move_path_id list \<Rightarrow> bool option" where
  "is_callable_environment plan children =
     (if children = [] then Some False
      else all_opt (\<lambda>child. do {
             p \<leftarrow> nth_opt (move_paths plan) child;
             Some (case last_projection p of Some (Capture _) \<Rightarrow> True | _ \<Rightarrow> False) }) children)"

definition child_projection :: "cleanup_plan \<Rightarrow> move_path_id \<Rightarrow> projection option" where
  "child_projection plan child = do {
     p \<leftarrow> nth_opt (move_paths plan) child;
     last_projection p }"

text \<open>
  The pairs one iteration pushes: \<open>Some None\<close> is \<open>return false\<close>.  Collecting into a
  \<open>HashMap\<close> keeps the last value of a repeated key, hence the \<open>rev\<close>.
\<close>

definition shape_pairs ::
    "cleanup_plan \<Rightarrow> move_path_id list \<Rightarrow> move_path_id list \<Rightarrow>
     (move_path_id \<times> move_path_id) list option option" where
  "shape_pairs plan source_children destination_children =
     (if length source_children \<noteq> length destination_children then Some None
      else do {
        by_projection \<leftarrow> map_opt (\<lambda>child. do {
            j \<leftarrow> child_projection plan child; Some (j, child) }) destination_children;
        fold_opt (\<lambda>child pairs.
          (case pairs of
             None \<Rightarrow> Some None
           | Some ps \<Rightarrow> do {
               j \<leftarrow> child_projection plan child;
               Some (case map_of (rev by_projection) j of
                       None \<Rightarrow> None
                     | Some d \<Rightarrow> Some ((child, d) # ps)) })) source_children (Some []) })"

partial_function (option) shapes_loop ::
    "move_path_topology \<Rightarrow> cleanup_plan \<Rightarrow> (move_path_id \<times> move_path_id) list \<Rightarrow> bool option" where
  [code]: "shapes_loop t plan stack =
     (case stack of
        [] \<Rightarrow> Some True
      | pair # stack' \<Rightarrow> do {
          sc \<leftarrow> nth_opt (topo_children t) (fst pair);
          dc \<leftarrow> nth_opt (topo_children t) (snd pair);
          s_env \<leftarrow> is_callable_environment plan sc;
          env \<leftarrow> (if s_env then Some True else is_callable_environment plan dc);
          if env then shapes_loop t plan stack'
          else do {
            pairs \<leftarrow> shape_pairs plan sc dc;
            (case pairs of
               None \<Rightarrow> Some False
             | Some ps \<Rightarrow> shapes_loop t plan (ps @ stack')) } })"

definition transfer_shapes_match ::
    "move_path_topology \<Rightarrow> cleanup_plan \<Rightarrow> move_path_id \<Rightarrow> move_path_id \<Rightarrow> bool option" where
  "transfer_shapes_match t plan source destination = shapes_loop t plan [(source, destination)]"

subsection \<open>Forests and their preorder listing\<close>

definition child_rel :: "move_path_id list list \<Rightarrow> (move_path_id \<times> move_path_id) set" where
  "child_rel ch = {(p, c). p < length ch \<and> c \<in> set (ch ! p)}"

text \<open>\<open>preord ch ps xs\<close>: \<open>xs\<close> lists the trees with the roots \<open>ps\<close> in preorder.\<close>

inductive preord :: "move_path_id list list \<Rightarrow> move_path_id list \<Rightarrow> move_path_id list \<Rightarrow> bool"
  for ch where
  Nil: "preord ch [] []"
| Cons: "p < length ch \<Longrightarrow> preord ch (ch ! p) xs \<Longrightarrow> preord ch ps ys \<Longrightarrow>
    preord ch (p # ps) (p # xs @ ys)"

inductive_cases preord_NilE [elim!]: "preord ch [] xs"
inductive_cases preord_ConsE: "preord ch (p # ps) xs"

lemma preord_append: "preord ch ps xs \<Longrightarrow> preord ch qs ys \<Longrightarrow> preord ch (ps @ qs) (xs @ ys)"
  by (induction rule: preord.induct) (auto intro: preord.Cons)

lemma preord_unique: "preord ch ps xs \<Longrightarrow> preord ch ps ys \<Longrightarrow> xs = ys"
proof (induction arbitrary: ys rule: preord.induct)
  case Nil
  then show ?case by auto
next
  case (Cons p xs ps zs)
  from Cons.prems show ?case by (rule preord_ConsE) (use Cons.IH in auto)
qed

lemma preord_bound: "preord ch ps xs \<Longrightarrow> \<forall>x \<in> set xs. x < length ch"
  by (induction rule: preord.induct) auto

lemma preord_reach:
  "preord ch ps xs \<Longrightarrow> x \<in> set xs \<longleftrightarrow> (\<exists>p \<in> set ps. (p, x) \<in> (child_rel ch)\<^sup>*)"
proof (induction arbitrary: x rule: preord.induct)
  case Nil
  then show ?case by simp
next
  case (Cons p xs ps ys)
  have "(p, x) \<in> (child_rel ch)\<^sup>* \<longleftrightarrow> x = p \<or> (\<exists>c \<in> set (ch ! p). (c, x) \<in> (child_rel ch)\<^sup>*)"
    using Cons.hyps(1) by (auto simp: child_rel_def elim: converse_rtranclE
        intro: converse_rtrancl_into_rtrancl)
  with Cons.IH show ?case by auto
qed

lemma preord_exists:
  assumes wf: "wf ((child_rel ch)\<inverse>)" and dom: "\<And>p c. (p, c) \<in> child_rel ch \<Longrightarrow> c < length ch"
    and roots: "\<forall>p \<in> set ps. p < length ch"
  shows "\<exists>xs. preord ch ps xs"
proof -
  have lists: "(\<forall>p \<in> set ps. \<exists>xs. preord ch [p] xs) \<Longrightarrow> \<exists>xs. preord ch ps xs" for ps
  proof (induction ps)
    case Nil
    show ?case by (auto intro: preord.Nil)
  next
    case (Cons p ps)
    then obtain xs ys where "preord ch [p] xs" "preord ch ps ys" by auto
    then show ?case using preord_append [of ch "[p]" xs ps ys] by auto
  qed
  have "p < length ch \<Longrightarrow> \<exists>xs. preord ch [p] xs" for p
  proof (induction p rule: wf_induct_rule [OF wf])
    case (1 p)
    have "\<exists>xs. preord ch [c] xs" if "c \<in> set (ch ! p)" for c
      using 1 that dom [of p c] by (auto simp: child_rel_def)
    with lists [of "ch ! p"] obtain xs where "preord ch (ch ! p) xs" by blast
    with 1(2) show ?case using preord.Cons [of p ch xs "[]" "[]"] preord.Nil by auto
  qed
  with roots lists show ?thesis by blast
qed

text \<open>Each path of a listing heads a contiguous listing of its own subtree.\<close>

definition laid_out :: "move_path_id list list \<Rightarrow> preorder_state \<Rightarrow> move_path_id \<Rightarrow> bool" where
  "laid_out ch st x \<longleftrightarrow>
     (\<exists>ys. preord ch [x] ys \<and> snd (snd st) ! x = fst (snd st) ! x + length ys \<and>
       fst (snd st) ! x + length ys \<le> length (fst st) \<and>
       take (length ys) (drop (fst (snd st) ! x) (fst st)) = ys)"

lemma laid_out_extend:
  assumes "laid_out ch (paths, index, ends) x" and "index' ! x = index ! x" "ends' ! x = ends ! x"
  shows "laid_out ch (paths @ zs, index', ends') x"
  using assms by (auto simp: laid_out_def)

definition same_off :: "nat set \<Rightarrow> preorder_state \<Rightarrow> preorder_state \<Rightarrow> bool" where
  "same_off A st st' \<longleftrightarrow>
     length (fst (snd st')) = length (fst (snd st)) \<and> length (snd (snd st')) = length (snd (snd st)) \<and>
     (\<forall>x. x \<notin> A \<longrightarrow> fst (snd st') ! x = fst (snd st) ! x \<and> snd (snd st') ! x = snd (snd st) ! x)"

lemma preorder_loop_forest:
  assumes "preord ch ps xs" and "distinct xs"
    and "length index = length ch" "length ends = length ch"
  shows "\<exists>index' ends'.
    (\<forall>stk. preorder_loop ch (map (\<lambda>p. (p, False)) ps @ stk) (paths, index, ends) =
      preorder_loop ch stk (paths @ xs, index', ends')) \<and>
    same_off (set xs) (paths, index, ends) (paths @ xs, index', ends') \<and>
    (\<forall>i < length xs. index' ! (xs ! i) = length paths + i) \<and>
    (\<forall>x \<in> set xs. laid_out ch (paths @ xs, index', ends') x)"
  using assms
proof (induction arbitrary: paths index ends rule: preord.induct)
  case Nil
  show ?case by (auto simp: same_off_def)
next
  case (Cons p xs ps ys)
  let ?n = "length paths"
  have p: "p < length index" "p < length ends" using Cons.hyps Cons.prems by auto
  have d: "distinct xs" "distinct ys" "p \<notin> set xs" "p \<notin> set ys" "set xs \<inter> set ys = {}"
    using Cons.prems by auto
  have step1: "preorder_loop ch (map (\<lambda>p. (p, False)) (p # ps) @ stk) (paths, index, ends) =
      preorder_loop ch (map (\<lambda>c. (c, False)) (ch ! p) @ ((p, True) # map (\<lambda>p. (p, False)) ps @ stk))
        (paths @ [p], index[p := ?n], ends)" for stk
    by (subst preorder_loop.simps) (use p Cons.hyps in simp)
  obtain i1 e1 where r1:
    "\<And>stk. preorder_loop ch (map (\<lambda>c. (c, False)) (ch ! p) @ stk)
        (paths @ [p], index[p := ?n], ends) =
      preorder_loop ch stk ((paths @ [p]) @ xs, i1, e1)"
    and s1: "same_off (set xs) (paths @ [p], index[p := ?n], ends) ((paths @ [p]) @ xs, i1, e1)"
    and n1: "\<forall>i < length xs. i1 ! (xs ! i) = length (paths @ [p]) + i"
    and l1: "\<forall>x \<in> set xs. laid_out ch ((paths @ [p]) @ xs, i1, e1) x"
    using Cons.IH(1) [of "index[p := ?n]" ends "paths @ [p]"] d Cons.prems by auto
  have i1p: "i1 ! p = ?n" and len1: "length i1 = length ch" "length e1 = length ch"
    using s1 d(3) p Cons.prems by (auto simp: same_off_def)
  let ?e = "e1[p := ?n + 1 + length xs]"
  have step2: "preorder_loop ch ((p, True) # map (\<lambda>p. (p, False)) ps @ stk) ((paths @ [p]) @ xs, i1, e1) =
      preorder_loop ch (map (\<lambda>p. (p, False)) ps @ stk) ((paths @ [p]) @ xs, i1, ?e)" for stk
    by (subst preorder_loop.simps) (use len1 Cons.hyps in simp)
  obtain i2 e2 where r2:
    "\<And>stk. preorder_loop ch (map (\<lambda>p. (p, False)) ps @ stk) ((paths @ [p]) @ xs, i1, ?e) =
      preorder_loop ch stk (((paths @ [p]) @ xs) @ ys, i2, e2)"
    and s2: "same_off (set ys) ((paths @ [p]) @ xs, i1, ?e) (((paths @ [p]) @ xs) @ ys, i2, e2)"
    and n2: "\<forall>i < length ys. i2 ! (ys ! i) = length ((paths @ [p]) @ xs) + i"
    and l2: "\<forall>x \<in> set ys. laid_out ch (((paths @ [p]) @ xs) @ ys, i2, e2) x"
    using Cons.IH(2) [of i1 ?e "(paths @ [p]) @ xs"] d len1 by auto
  have pre: "preord ch [p] (p # xs)"
    using preord.Cons [OF Cons.hyps(1,2) preord.Nil] by simp
  have lp: "laid_out ch (((paths @ [p]) @ xs) @ ys, i2, e2) p"
    unfolding laid_out_def
    by (rule exI [of _ "p # xs"]) (use pre s2 d i1p len1 Cons.hyps(1) in \<open>auto simp: same_off_def\<close>)
  have lx: "laid_out ch (((paths @ [p]) @ xs) @ ys, i2, e2) x" if "x \<in> set xs" for x
  proof -
    have "x \<noteq> p" "x \<notin> set ys" using that d by auto
    then show ?thesis
      using laid_out_extend [of ch "(paths @ [p]) @ xs" i1 e1 x i2 e2 ys] l1 that s2
      by (auto simp: same_off_def)
  qed
  have num: "i2 ! ((p # xs @ ys) ! i) = ?n + i" if "i < length (p # xs @ ys)" for i
  proof (cases i)
    case 0
    then show ?thesis using s2 d i1p by (auto simp: same_off_def)
  next
    case (Suc j)
    show ?thesis
    proof (cases "j < length xs")
      case True
      then have "xs ! j \<notin> set ys" using d by (meson disjoint_iff nth_mem)
      then show ?thesis using True Suc n1 s2 by (auto simp: same_off_def nth_append)
    next
      case False
      then show ?thesis using Suc that n2 by (auto simp: nth_append)
    qed
  qed
  show ?case
  proof (intro exI conjI)
    show "\<forall>stk. preorder_loop ch (map (\<lambda>p. (p, False)) (p # ps) @ stk) (paths, index, ends) =
        preorder_loop ch stk (paths @ (p # xs @ ys), i2, e2)"
      using step1 r1 step2 r2 by simp
    show "same_off (set (p # xs @ ys)) (paths, index, ends) (paths @ (p # xs @ ys), i2, e2)"
      using s1 s2 Cons.prems len1 by (auto simp: same_off_def)
    show "\<forall>i<length (p # xs @ ys). i2 ! ((p # xs @ ys) ! i) = ?n + i" using num by blast
    show "\<forall>x\<in>set (p # xs @ ys). laid_out ch (paths @ (p # xs @ ys), i2, e2) x"
      using lp lx l2 by auto
  qed
qed

lemma forest_linear:
  assumes "single_valued ((child_rel ch)\<inverse>)"
    and "(p, d) \<in> (child_rel ch)\<^sup>*" "(q, d) \<in> (child_rel ch)\<^sup>*"
  shows "(p, q) \<in> (child_rel ch)\<^sup>* \<or> (q, p) \<in> (child_rel ch)\<^sup>*"
  using single_valued_confluent [OF assms(1), of d p q] assms(2,3)
  by (auto simp: rtrancl_converse)

lemma preord_distinct:
  assumes "preord ch ps xs"
    and sv: "single_valued ((child_rel ch)\<inverse>)" and acyc: "acyclic (child_rel ch)"
    and chd: "\<And>p. p < length ch \<Longrightarrow> distinct (ch ! p)"
    and "distinct ps" and "\<And>p q. p \<in> set ps \<Longrightarrow> q \<in> set ps \<Longrightarrow> (p, q) \<in> (child_rel ch)\<^sup>* \<Longrightarrow> p = q"
  shows "distinct xs"
  using assms(1,5,6)
proof (induction rule: preord.induct)
  case Nil
  show ?case by simp
next
  case (Cons p xs ps ys)
  have child: "(p, c) \<in> child_rel ch" if "c \<in> set (ch ! p)" for c
    using that Cons.hyps(1) by (auto simp: child_rel_def)
  have no_loop: "(c, p) \<notin> (child_rel ch)\<^sup>*" if "c \<in> set (ch ! p)" for c
    using acyc child [OF that] by (meson acyclic_def rtrancl_into_trancl2)
  have "distinct xs"
  proof (rule Cons.IH(1))
    show "distinct (ch ! p)" using chd Cons.hyps(1) .
    fix c e
    assume c: "c \<in> set (ch ! p)" and e: "e \<in> set (ch ! p)" and r: "(c, e) \<in> (child_rel ch)\<^sup>*"
    show "c = e"
    proof (rule ccontr)
      assume "c \<noteq> e"
      with r obtain z where z: "(c, z) \<in> (child_rel ch)\<^sup>*" "(z, e) \<in> child_rel ch"
        by (meson rtranclE)
      with child [OF e] sv have "z = p" by (auto simp: single_valued_def)
      with z no_loop [OF c] show False by simp
    qed
  qed
  moreover have "distinct ys" using Cons.IH(2) Cons.prems by simp
  moreover have "p \<notin> set xs"
    using preord_reach [OF Cons.hyps(2), of p] no_loop by auto
  moreover have "p \<notin> set ys"
    using preord_reach [OF Cons.hyps(3), of p] Cons.prems by auto
  moreover have "set xs \<inter> set ys = {}"
  proof (rule ccontr)
    assume "set xs \<inter> set ys \<noteq> {}"
    then obtain d where "d \<in> set xs" "d \<in> set ys" by auto
    then obtain c q where c: "c \<in> set (ch ! p)" "(c, d) \<in> (child_rel ch)\<^sup>*"
      and q: "q \<in> set ps" "(q, d) \<in> (child_rel ch)\<^sup>*"
      using preord_reach [OF Cons.hyps(2)] preord_reach [OF Cons.hyps(3)] by blast
    then have "(p, d) \<in> (child_rel ch)\<^sup>*"
      using child by (meson converse_rtrancl_into_rtrancl)
    with forest_linear [OF sv this q(2)] Cons.prems q(1) show False by auto
  qed
  ultimately show ?case by simp
qed

subsection \<open>Well-formed move paths\<close>

text \<open>What \<open>verify_move_paths\<close> establishes, stated on the vector of paths.\<close>

definition paths_wf :: "cleanup_plan \<Rightarrow> bool" where
  "paths_wf plan \<longleftrightarrow>
     (\<forall>i < length (move_paths plan).
        path_id (move_paths plan ! i) = i \<and>
        place_local (path_place (move_paths plan ! i)) < length (plan_locals plan) \<and>
        (case path_parent (move_paths plan ! i) of
           None \<Rightarrow> projections (path_place (move_paths plan ! i)) = []
         | Some p \<Rightarrow> p < length (move_paths plan) \<and>
             place_local (path_place (move_paths plan ! i)) = place_local (path_place (move_paths plan ! p)) \<and>
             projections (path_place (move_paths plan ! i)) \<noteq> [] \<and>
             butlast (projections (path_place (move_paths plan ! i))) =
               projections (path_place (move_paths plan ! p)))) \<and>
     inj_on (\<lambda>i. path_place (move_paths plan ! i)) {..< length (move_paths plan)}"

text \<open>The place of path \<open>a\<close> is a prefix of the place of path \<open>d\<close>.\<close>

definition under :: "cleanup_plan \<Rightarrow> move_path_id \<Rightarrow> move_path_id \<Rightarrow> bool" where
  "under plan a d \<longleftrightarrow>
     place_local (path_place (move_paths plan ! a)) = place_local (path_place (move_paths plan ! d)) \<and>
     prefix (projections (path_place (move_paths plan ! a))) (projections (path_place (move_paths plan ! d)))"

definition children_of :: "cleanup_plan \<Rightarrow> move_path_id \<Rightarrow> move_path_id list" where
  "children_of plan p =
     filter (\<lambda>c. path_parent (move_paths plan ! c) = Some p) [0..<length (move_paths plan)]"

definition root_of_local :: "cleanup_plan \<Rightarrow> local_id \<Rightarrow> move_path_id option" where
  "root_of_local plan l =
     List.find (\<lambda>r. path_parent (move_paths plan ! r) = None \<and>
       place_local (path_place (move_paths plan ! r)) = l) [0..<length (move_paths plan)]"

lemma under_refl [simp]: "under plan a a"
  by (simp add: under_def)

lemma under_trans: "under plan a b \<Longrightarrow> under plan b c \<Longrightarrow> under plan a c"
  by (auto simp: under_def)

lemma paths_wf_parent:
  assumes "paths_wf plan" "i < length (move_paths plan)" "path_parent (move_paths plan ! i) = Some p"
  shows "p < length (move_paths plan) \<and> under plan p i \<and>
    length (projections (path_place (move_paths plan ! i))) =
      Suc (length (projections (path_place (move_paths plan ! p))))"
proof -
  let ?js = "projections (path_place (move_paths plan ! i))"
  have *: "p < length (move_paths plan)" "?js \<noteq> []"
    "place_local (path_place (move_paths plan ! i)) = place_local (path_place (move_paths plan ! p))"
    "butlast ?js = projections (path_place (move_paths plan ! p))"
    using assms by (auto simp: paths_wf_def)
  then have "?js = projections (path_place (move_paths plan ! p)) @ [last ?js]"
    by (metis append_butlast_last_id)
  then show ?thesis using * by (metis length_append_singleton prefixI under_def)
qed

lemma paths_wf_id: "paths_wf plan \<Longrightarrow> i < length (move_paths plan) \<Longrightarrow> path_id (move_paths plan ! i) = i"
  by (simp add: paths_wf_def)

lemma paths_wf_inj:
  "paths_wf plan \<Longrightarrow> i < length (move_paths plan) \<Longrightarrow> j < length (move_paths plan) \<Longrightarrow>
   path_place (move_paths plan ! i) = path_place (move_paths plan ! j) \<Longrightarrow> i = j"
  unfolding paths_wf_def inj_on_def by blast

lemma under_antisym:
  assumes "paths_wf plan" "i < length (move_paths plan)" "j < length (move_paths plan)"
    and "under plan i j" "under plan j i"
  shows "i = j"
proof -
  have "path_place (move_paths plan ! i) = path_place (move_paths plan ! j)"
    using assms(4,5) by (auto simp: under_def intro: prefix_order.antisym)
  then show ?thesis using paths_wf_inj assms(1-3) by blast
qed

subsection \<open>Children and roots\<close>

definition links_upto :: "cleanup_plan \<Rightarrow> nat \<Rightarrow> move_path_id list list \<times> move_path_id option list" where
  "links_upto plan k =
     (map (\<lambda>p. filter (\<lambda>c. path_parent (move_paths plan ! c) = Some p) [0..<k])
        [0..<length (move_paths plan)],
      map (\<lambda>l. List.find (\<lambda>r. path_parent (move_paths plan ! r) = None \<and>
          place_local (path_place (move_paths plan ! r)) = l) [0..<k])
        [0..<length (plan_locals plan)])"

lemma find_append: "List.find P (xs @ ys) = (case List.find P xs of None \<Rightarrow> List.find P ys | r \<Rightarrow> r)"
  by (induction xs) auto

lemma find_None_upt: "List.find P [0..<k] = None \<longleftrightarrow> (\<forall>i < k. \<not> P i)"
  by (auto simp: find_None_iff)

lemma root_unique:
  assumes "paths_wf plan" "i < length (move_paths plan)" "j < length (move_paths plan)"
    and "path_parent (move_paths plan ! i) = None" "path_parent (move_paths plan ! j) = None"
    and "place_local (path_place (move_paths plan ! i)) = place_local (path_place (move_paths plan ! j))"
  shows "i = j"
proof -
  have "projections (path_place (move_paths plan ! i)) = []"
    "projections (path_place (move_paths plan ! j)) = []"
    using assms unfolding paths_wf_def by fastforce+
  then show ?thesis using assms by (intro paths_wf_inj) auto
qed

lemma topology_link_step:
  assumes wf: "paths_wf plan" and k: "k < length (move_paths plan)"
  shows "topology_link (move_paths plan ! k) (links_upto plan k) = Some (links_upto plan (Suc k))"
proof (cases "path_parent (move_paths plan ! k)")
  case None
  let ?l = "place_local (path_place (move_paths plan ! k))"
  have l: "?l < length (plan_locals plan)" using wf k by (simp add: paths_wf_def)
  have fresh: "List.find (\<lambda>r. path_parent (move_paths plan ! r) = None \<and>
      place_local (path_place (move_paths plan ! r)) = ?l) [0..<k] = None"
    unfolding find_None_upt
  proof (intro allI impI notI)
    fix r
    assume "r < k" and "path_parent (move_paths plan ! r) = None \<and>
      place_local (path_place (move_paths plan ! r)) = ?l"
    then have "r = k" using root_unique [OF wf _ k _ None, of r] k by simp
    with \<open>r < k\<close> show False by simp
  qed
  have "map (\<lambda>p. filter (\<lambda>c. path_parent (move_paths plan ! c) = Some p) [0..<Suc k])
      [0..<length (move_paths plan)] = fst (links_upto plan k)"
    by (simp add: None links_upto_def)
  moreover have "snd (links_upto plan (Suc k)) = (snd (links_upto plan k))[?l := Some k]"
    by (rule nth_equalityI)
      (use None l fresh in \<open>auto simp: links_upto_def find_append nth_list_update split: option.splits\<close>)
  ultimately show ?thesis
    using None l paths_wf_id [OF wf k] by (simp add: topology_link_def links_upto_def)
next
  case (Some p)
  then have p: "p < length (move_paths plan)" using paths_wf_parent [OF wf k] by simp
  have "fst (links_upto plan (Suc k)) = (fst (links_upto plan k))[p := fst (links_upto plan k) ! p @ [k]]"
    by (rule nth_equalityI) (use Some p in \<open>auto simp: links_upto_def nth_list_update\<close>)
  moreover have "snd (links_upto plan (Suc k)) = snd (links_upto plan k)"
    by (auto simp: Some links_upto_def find_append split: option.splits)
  ultimately show ?thesis
    using Some p paths_wf_id [OF wf k]
    by (simp add: topology_link_def prod_eq_iff) (simp add: links_upto_def)
qed

lemma topology_links_correct:
  assumes wf: "paths_wf plan"
  shows "topology_links plan =
    Some (map (children_of plan) [0..<length (move_paths plan)],
          map (root_of_local plan) [0..<length (plan_locals plan)])"
proof -
  have "k \<le> length (move_paths plan) \<Longrightarrow>
      fold_opt topology_link (take k (move_paths plan)) (links_upto plan 0) = Some (links_upto plan k)" for k
  proof (induction k)
    case 0
    then show ?case by simp
  next
    case (Suc k)
    then show ?case
      using topology_link_step [OF wf, of k] by (simp add: take_Suc_conv_app_nth fold_opt_append)
  qed
  from this [of "length (move_paths plan)"]
  have "fold_opt topology_link (move_paths plan) (links_upto plan 0) =
      Some (links_upto plan (length (move_paths plan)))" by simp
  moreover have "links_upto plan 0 =
      (replicate (length (move_paths plan)) [], replicate (length (plan_locals plan)) None)"
    by (simp add: links_upto_def map_replicate_trivial map_replicate_const)
  moreover have "map sort (fst (links_upto plan (length (move_paths plan)))) =
      map (children_of plan) [0..<length (move_paths plan)]"
    by (simp add: links_upto_def children_of_def comp_def sorted_sort_id sorted_wrt_filter)
  ultimately show ?thesis
    by (simp add: topology_links_def links_upto_def root_of_local_def)
qed

lemma set_children_of:
  "c \<in> set (children_of plan p) \<longleftrightarrow>
     c < length (move_paths plan) \<and> path_parent (move_paths plan ! c) = Some p"
  by (auto simp: children_of_def)

lemma distinct_children_of [simp]: "distinct (children_of plan p)"
  by (simp add: children_of_def)

definition child_lists :: "cleanup_plan \<Rightarrow> move_path_id list list" where
  "child_lists plan = map (children_of plan) [0..<length (move_paths plan)]"

lemma length_child_lists [simp]: "length (child_lists plan) = length (move_paths plan)"
  by (simp add: child_lists_def)

lemma nth_child_lists [simp]: "p < length (move_paths plan) \<Longrightarrow> child_lists plan ! p = children_of plan p"
  by (simp add: child_lists_def)

lemma child_rel_plan:
  assumes "paths_wf plan"
  shows "(p, c) \<in> child_rel (child_lists plan) \<longleftrightarrow>
    c < length (move_paths plan) \<and> path_parent (move_paths plan ! c) = Some p"
  using paths_wf_parent [OF assms, of c p] by (auto simp: child_rel_def set_children_of)

lemma child_rel_sv: "paths_wf plan \<Longrightarrow> single_valued ((child_rel (child_lists plan))\<inverse>)"
  by (auto simp: single_valued_def child_rel_plan)

lemma child_rel_depth:
  assumes "paths_wf plan" "(p, c) \<in> child_rel (child_lists plan)"
  shows "length (projections (path_place (move_paths plan ! p))) <
    length (projections (path_place (move_paths plan ! c)))"
  using assms paths_wf_parent by (fastforce simp: child_rel_plan)

lemma child_rel_wf:
  assumes "paths_wf plan"
  shows "wf ((child_rel (child_lists plan))\<inverse>)" "acyclic (child_rel (child_lists plan))"
proof -
  let ?depth = "\<lambda>p. length (projections (path_place (move_paths plan ! p)))"
  have "(child_rel (child_lists plan)) \<subseteq> inv_image less_than ?depth"
    using child_rel_depth [OF assms] by auto
  then have "wf (child_rel (child_lists plan))"
    by (meson wf_inv_image wf_less_than wf_subset)
  then show ac: "acyclic (child_rel (child_lists plan))" by (rule wf_acyclic)
  have "child_rel (child_lists plan) \<subseteq> {..<length (move_paths plan)} \<times> {..<length (move_paths plan)}"
    using paths_wf_parent [OF assms] by (auto simp: child_rel_plan [OF assms])
  then have "finite (child_rel (child_lists plan))" by (rule finite_subset) auto
  with ac show "wf ((child_rel (child_lists plan))\<inverse>)"
    by (simp add: finite_acyclic_wf_converse)
qed

text \<open>Reaching a path through children is having its place below one's own.\<close>

lemma child_reach_under:
  assumes wf: "paths_wf plan" and a: "a < length (move_paths plan)" and d: "d < length (move_paths plan)"
  shows "(a, d) \<in> (child_rel (child_lists plan))\<^sup>* \<longleftrightarrow> under plan a d"
proof
  show "(a, d) \<in> (child_rel (child_lists plan))\<^sup>* \<Longrightarrow> under plan a d"
    by (induction rule: rtrancl_induct)
      (auto simp: child_rel_plan [OF wf] dest: paths_wf_parent [OF wf] intro: under_trans)
next
  assume "under plan a d"
  then show "(a, d) \<in> (child_rel (child_lists plan))\<^sup>*"
    using d
  proof (induction "length (projections (path_place (move_paths plan ! d)))" arbitrary: d
      rule: less_induct)
    case less
    show ?case
    proof (cases "a = d")
      case True
      then show ?thesis by simp
    next
      case False
      let ?ja = "projections (path_place (move_paths plan ! a))"
      let ?jd = "projections (path_place (move_paths plan ! d))"
      have ne: "?ja \<noteq> ?jd"
        using False less.prems paths_wf_inj [OF wf a less.prems(2)] by (auto simp: under_def)
      then obtain p where p: "path_parent (move_paths plan ! d) = Some p"
        using less.prems wf
        by (cases "path_parent (move_paths plan ! d)") (auto simp: under_def paths_wf_def)
      note pp = paths_wf_parent [OF wf less.prems(2) p]
      have "butlast ?jd = projections (path_place (move_paths plan ! p))" "?jd \<noteq> []"
        using wf less.prems(2) p by (auto simp: paths_wf_def)
      then have "?jd = projections (path_place (move_paths plan ! p)) @ [last ?jd]"
        by (metis append_butlast_last_id)
      then have "prefix ?ja (projections (path_place (move_paths plan ! p)))"
        using less.prems(1) ne unfolding under_def by (metis prefix_snoc)
      then have "under plan a p"
        using less.prems(1) pp by (simp add: under_def)
      then have "(a, p) \<in> (child_rel (child_lists plan))\<^sup>*"
        using less.hyps [of p] pp by simp
      moreover have "(p, d) \<in> child_rel (child_lists plan)"
        using p less.prems(2) by (simp add: child_rel_plan [OF wf])
      ultimately show ?thesis by simp
    qed
  qed
qed

lemma preorder_fold_roots:
  assumes "preord ch ps xs" "distinct xs" "length index = length ch" "length ends = length ch"
  shows "fold_opt (\<lambda>root st. preorder_loop ch [(root, False)] st) ps (paths, index, ends) =
    preorder_loop ch (map (\<lambda>p. (p, False)) ps) (paths, index, ends)"
  using assms
proof (induction ps arbitrary: xs paths index ends)
  case Nil
  then show ?case by (simp add: preorder_loop.simps)
next
  case (Cons p ps)
  from Cons.prems(1) obtain ys zs where xs: "xs = p # ys @ zs"
    and pre: "p < length ch" "preord ch (ch ! p) ys" "preord ch ps zs"
    by (auto elim: preord_ConsE)
  have one: "preord ch [p] (p # ys)" using preord.Cons [OF pre(1,2) preord.Nil] by simp
  obtain i1 e1 where
    run: "\<And>stk. preorder_loop ch ((p, False) # stk) (paths, index, ends) =
      preorder_loop ch stk (paths @ p # ys, i1, e1)"
    and len: "length i1 = length ch" "length e1 = length ch"
    using preorder_loop_forest [OF one, of index ends paths] Cons.prems xs
    by (auto simp: same_off_def)
  have "preorder_loop ch [(p, False)] (paths, index, ends) = Some (paths @ p # ys, i1, e1)"
    using run [of "[]"] by (simp add: preorder_loop.simps)
  then show ?case
    using Cons.IH [OF pre(3), of i1 e1 "paths @ p # ys"] Cons.prems xs len run by simp
qed

subsection \<open>Completion rules and discriminant numbers\<close>

definition variants_of :: "cleanup_plan \<Rightarrow> move_path_id list \<Rightarrow> (u32 \<times> move_path_id) list" where
  "variants_of plan cs =
     List.map_filter (\<lambda>c. map_option (\<lambda>v. (v, c)) (downcast_variant (move_paths plan ! c))) cs"

definition rule_for :: "cleanup_plan \<Rightarrow> move_path_id list \<Rightarrow> completion_rule" where
  "rule_for plan cs =
     (if cs = [] then Explicit
      else if length (variants_of plan cs) = length cs
      then EnumRoot (sort_key fst (variants_of plan cs))
      else AllChildren)"

lemma completion_variants_total:
  assumes "\<forall>c \<in> set cs. c < length (move_paths plan)"
  shows "completion_variants plan cs = Some (variants_of plan cs)"
proof -
  have "fold_opt (\<lambda>child variants. do {
         p \<leftarrow> nth_opt (move_paths plan) child;
         Some (case downcast_variant p of
                 Some v \<Rightarrow> variants @ [(v, child)]
               | None \<Rightarrow> variants) }) cs vs = Some (vs @ variants_of plan cs)" for vs
    using assms
  proof (induction cs arbitrary: vs)
    case Nil
    then show ?case by (simp add: variants_of_def List.map_filter_def)
  next
    case (Cons c cs)
    then show ?case by (simp add: variants_of_def List.map_filter_def split: option.splits)
  qed
  from this [of "[]"] show ?thesis by (simp add: completion_variants_def)
qed

lemma completion_of_total:
  "\<forall>c \<in> set cs. c < length (move_paths plan) \<Longrightarrow> completion_of plan cs = Some (rule_for plan cs)"
  by (auto simp: completion_of_def rule_for_def completion_variants_total)

definition is_enum_rule :: "completion_rule \<Rightarrow> bool" where
  "is_enum_rule r \<longleftrightarrow> (case r of EnumRoot _ \<Rightarrow> True | _ \<Rightarrow> False)"

lemma is_enum_rule_simps [simp]:
  "is_enum_rule (EnumRoot vs)" "\<not> is_enum_rule Explicit" "\<not> is_enum_rule AllChildren"
  by (simp_all add: is_enum_rule_def)

definition enum_rank :: "completion_rule list \<Rightarrow> nat \<Rightarrow> nat" where
  "enum_rank rules i = length (filter is_enum_rule (take i rules))"

lemma number_enum_roots_eq:
  "number_enum_roots n rules =
     (map (\<lambda>i. if is_enum_rule (rules ! i) then Some (n + enum_rank rules i) else None)
        [0..<length rules],
      n + length (filter is_enum_rule rules))"
  by (induction n rules rule: number_enum_roots.induct)
    (auto simp: map_upt_Suc enum_rank_def simp del: upt_Suc)

lemma enum_rank_less:
  assumes "i < k" "k \<le> length rules" "is_enum_rule (rules ! i)"
  shows "enum_rank rules i < enum_rank rules k"
proof -
  have "take k rules = take i rules @ rules ! i # take (k - Suc i) (drop (Suc i) rules)"
    using assms(1,2) by (metis Cons_nth_drop_Suc Suc_diff_Suc append_take_drop_id
        le_add_diff_inverse less_le_not_le order_less_le_trans take_Suc_Cons take_add)
  then show ?thesis using assms(3) by (simp add: enum_rank_def)
qed

lemma number_enum_roots_spec:
  assumes "i < length rules"
  shows "fst (number_enum_roots 0 rules) ! i = None \<longleftrightarrow> \<not> is_enum_rule (rules ! i)"
    and "fst (number_enum_roots 0 rules) ! i = Some j \<Longrightarrow> j < snd (number_enum_roots 0 rules)"
    and "k < length rules \<Longrightarrow> fst (number_enum_roots 0 rules) ! i = Some j \<Longrightarrow>
      fst (number_enum_roots 0 rules) ! k = Some j \<Longrightarrow> i = k"
proof -
  show "fst (number_enum_roots 0 rules) ! i = None \<longleftrightarrow> \<not> is_enum_rule (rules ! i)"
    using assms by (simp add: number_enum_roots_eq)
  show "fst (number_enum_roots 0 rules) ! i = Some j \<Longrightarrow> j < snd (number_enum_roots 0 rules)"
    using assms enum_rank_less [of i "length rules" rules]
    by (auto simp: number_enum_roots_eq enum_rank_def split: if_splits)
  show "k < length rules \<Longrightarrow> fst (number_enum_roots 0 rules) ! i = Some j \<Longrightarrow>
      fst (number_enum_roots 0 rules) ! k = Some j \<Longrightarrow> i = k"
    using assms enum_rank_less [of i k rules] enum_rank_less [of k i rules]
    by (auto simp: number_enum_roots_eq split: if_splits) (meson less_irrefl nat_neq_iff)
qed

lemma length_number_enum_roots [simp]: "length (fst (number_enum_roots n rules)) = length rules"
  by (simp add: number_enum_roots_eq)

subsection \<open>The layout of a well-formed plan\<close>

definition root_ids :: "cleanup_plan \<Rightarrow> move_path_id list" where
  "root_ids plan = List.map_filter id (map (root_of_local plan) [0..<length (plan_locals plan)])"

lemma root_of_local_Some:
  assumes "root_of_local plan l = Some r"
  shows "r < length (move_paths plan) \<and> path_parent (move_paths plan ! r) = None \<and>
    place_local (path_place (move_paths plan ! r)) = l"
  using assms by (auto simp: root_of_local_def find_Some_iff)

lemma root_of_local_eq:
  assumes "paths_wf plan" "r < length (move_paths plan)" "path_parent (move_paths plan ! r) = None"
  shows "root_of_local plan (place_local (path_place (move_paths plan ! r))) = Some r"
proof (cases "root_of_local plan (place_local (path_place (move_paths plan ! r)))")
  case None
  then show ?thesis using assms(2,3) by (auto simp: root_of_local_def find_None_upt)
next
  case (Some q)
  then show ?thesis using root_of_local_Some [OF Some] root_unique [OF assms(1), of q r] assms by simp
qed

lemma set_root_ids:
  assumes "paths_wf plan"
  shows "r \<in> set (root_ids plan) \<longleftrightarrow>
    r < length (move_paths plan) \<and> path_parent (move_paths plan ! r) = None"
proof
  show "r \<in> set (root_ids plan) \<Longrightarrow> r < length (move_paths plan) \<and> path_parent (move_paths plan ! r) = None"
    by (auto simp: root_ids_def List.map_filter_def dest: root_of_local_Some)
next
  assume r: "r < length (move_paths plan) \<and> path_parent (move_paths plan ! r) = None"
  let ?l = "place_local (path_place (move_paths plan ! r))"
  have "?l < length (plan_locals plan)" using assms r by (simp add: paths_wf_def)
  moreover have "root_of_local plan ?l = Some r" using root_of_local_eq assms r by blast
  ultimately show "r \<in> set (root_ids plan)"
    by (force simp: root_ids_def List.map_filter_def image_iff)
qed

lemma distinct_root_ids: "distinct (root_ids plan)"
proof -
  have "root_ids plan = map (the \<circ> root_of_local plan)
      (filter (\<lambda>l. root_of_local plan l \<noteq> None) [0..<length (plan_locals plan)])"
    by (simp add: root_ids_def List.map_filter_def filter_map comp_def)
  moreover have "inj_on (the \<circ> root_of_local plan) {l. root_of_local plan l \<noteq> None}"
  proof (rule inj_onI)
    fix l k
    assume h: "l \<in> {l. root_of_local plan l \<noteq> None}" "k \<in> {l. root_of_local plan l \<noteq> None}"
      "(the \<circ> root_of_local plan) l = (the \<circ> root_of_local plan) k"
    then obtain r where "root_of_local plan l = Some r" "root_of_local plan k = Some r" by auto
    then show "l = k" by (auto dest!: root_of_local_Some)
  qed
  ultimately show ?thesis
    by (auto simp: distinct_map intro: inj_on_subset)
qed

lemma reached_from_root:
  assumes wf: "paths_wf plan" and "d < length (move_paths plan)"
  shows "\<exists>r \<in> set (root_ids plan). (r, d) \<in> (child_rel (child_lists plan))\<^sup>*"
  using assms(2)
proof (induction "length (projections (path_place (move_paths plan ! d)))" arbitrary: d
    rule: less_induct)
  case less
  show ?case
  proof (cases "path_parent (move_paths plan ! d)")
    case None
    then show ?thesis using set_root_ids [OF wf] less.prems by blast
  next
    case (Some p)
    note pp = paths_wf_parent [OF wf less.prems Some]
    obtain r where "r \<in> set (root_ids plan)" "(r, p) \<in> (child_rel (child_lists plan))\<^sup>*"
      using less.hyps [of p] pp by auto
    moreover have "(p, d) \<in> child_rel (child_lists plan)"
      using Some less.prems by (simp add: child_rel_plan [OF wf])
    ultimately show ?thesis by (meson rtrancl_into_rtrancl)
  qed
qed

lemma preord_plan:
  assumes wf: "paths_wf plan"
  obtains xs where "preord (child_lists plan) (root_ids plan) xs" "distinct xs"
    "set xs = {..< length (move_paths plan)}"
proof -
  let ?ch = "child_lists plan"
  obtain xs where xs: "preord ?ch (root_ids plan) xs"
    using preord_exists [OF child_rel_wf(1) [OF wf], of "root_ids plan"]
      child_rel_plan [OF wf] set_root_ids [OF wf] by (metis length_child_lists)
  have "distinct xs"
  proof (rule preord_distinct [OF xs child_rel_sv [OF wf] child_rel_wf(2) [OF wf] _ distinct_root_ids])
    fix p q
    assume "q \<in> set (root_ids plan)" "(p, q) \<in> (child_rel ?ch)\<^sup>*"
    then show "p = q"
      by (metis child_rel_plan [OF wf] option.distinct(1) rtranclE set_root_ids [OF wf])
  qed simp
  moreover have "set xs = {..< length (move_paths plan)}"
    using preord_reach [OF xs] reached_from_root [OF wf] preord_bound [OF xs] by auto
  ultimately show ?thesis using that xs by blast
qed

text \<open>The layout of a topology, read through the places of the plan's paths.\<close>

definition topo_ok :: "cleanup_plan \<Rightarrow> move_path_topology \<Rightarrow> bool" where
  "topo_ok plan t \<longleftrightarrow>
     topo_children t = child_lists plan \<and>
     completion t = map (rule_for plan) (child_lists plan) \<and>
     roots_by_local t = map (root_of_local plan) [0..<length (plan_locals plan)] \<and>
     length (discriminant_index t) = length (move_paths plan) \<and>
     (\<forall>p < length (move_paths plan).
        (discriminant_index t ! p = None \<longleftrightarrow> \<not> is_enum_rule (completion t ! p)) \<and>
        (\<forall>j. discriminant_index t ! p = Some j \<longrightarrow> j < discriminant_count t)) \<and>
     (\<forall>p < length (move_paths plan). \<forall>q < length (move_paths plan). \<forall>j.
        discriminant_index t ! p = Some j \<longrightarrow> discriminant_index t ! q = Some j \<longrightarrow> p = q) \<and>
     (\<forall>p < length (move_paths plan). \<exists>ys. subtree t p = Some ys \<and> distinct ys \<and>
        set ys = {d. d < length (move_paths plan) \<and> under plan p d}) \<and>
     (\<forall>a < length (move_paths plan). \<forall>d < length (move_paths plan).
        contains_path t a d = Some (under plan a d))"

text \<open>The interval of a laid-out path holds exactly the paths below it.\<close>

lemma laid_out_interval:
  assumes lo: "laid_out ch (xs, index, ends) a" and "distinct xs"
    and num: "\<forall>i < length xs. index ! (xs ! i) = i" and d: "d \<in> set xs"
  shows "index ! a \<le> index ! d \<and> index ! d < ends ! a \<longleftrightarrow> (a, d) \<in> (child_rel ch)\<^sup>*"
proof -
  obtain ys where ys: "preord ch [a] ys" "ends ! a = index ! a + length ys"
    "index ! a + length ys \<le> length xs" "take (length ys) (drop (index ! a) xs) = ys"
    using lo by (auto simp: laid_out_def)
  obtain j where j: "j < length xs" "xs ! j = d" using d by (auto simp: in_set_conv_nth)
  have "d \<in> set ys \<longleftrightarrow> index ! a \<le> j \<and> j < ends ! a"
  proof
    assume "d \<in> set ys"
    then obtain i where i: "i < length ys" "ys ! i = d" by (auto simp: in_set_conv_nth)
    then have "xs ! (index ! a + i) = d" using ys(3,4) by (metis le_trans nat_le_linear nth_drop nth_take le_add1)
    moreover have "index ! a + i < length xs" using i ys(3) by simp
    ultimately have "j = index ! a + i"
      using j nth_eq_iff_index_eq [OF \<open>distinct xs\<close>, of j "index ! a + i"] by simp
    with i ys(2) show "index ! a \<le> j \<and> j < ends ! a" by simp
  next
    assume h: "index ! a \<le> j \<and> j < ends ! a"
    then have "ys ! (j - index ! a) = d" "j - index ! a < length ys"
      using ys(2,3) j nth_take [of "j - index ! a" "length ys" "drop (index ! a) xs"]
      by (auto simp: ys(4))
    then show "d \<in> set ys" by (metis nth_mem)
  qed
  moreover have "index ! d = j" using num j by auto
  moreover have "d \<in> set ys \<longleftrightarrow> (a, d) \<in> (child_rel ch)\<^sup>*" using preord_reach [OF ys(1)] by simp
  ultimately show ?thesis by simp
qed

lemma preorder_layout_correct:
  assumes wf: "paths_wf plan"
  obtains xs index ends where
    "preorder_layout plan (child_lists plan)
       (map (root_of_local plan) [0..<length (plan_locals plan)]) = Some (xs, index, ends)"
    "distinct xs" "set xs = {..< length (move_paths plan)}"
    "length index = length (move_paths plan)" "length ends = length (move_paths plan)"
    "\<forall>i < length xs. index ! (xs ! i) = i"
    "\<forall>x \<in> set xs. laid_out (child_lists plan) (xs, index, ends) x"
proof -
  let ?ch = "child_lists plan" and ?z = "replicate (length (move_paths plan)) (0 :: nat)"
  obtain xs where xs: "preord ?ch (root_ids plan) xs" "distinct xs"
    "set xs = {..< length (move_paths plan)}"
    using preord_plan [OF wf] .
  obtain index ends where
    loop: "\<forall>stk. preorder_loop ?ch (map (\<lambda>p. (p, False)) (root_ids plan) @ stk) ([], ?z, ?z) =
      preorder_loop ?ch stk (xs, index, ends)"
    and off: "same_off (set xs) ([], ?z, ?z) (xs, index, ends)"
    and rest: "\<forall>i < length xs. index ! (xs ! i) = i"
      "\<forall>x \<in> set xs. laid_out ?ch (xs, index, ends) x"
    using preorder_loop_forest [OF xs(1,2), of ?z ?z "[]"] by auto
  have "preorder_layout plan ?ch (map (root_of_local plan) [0..<length (plan_locals plan)]) =
      Some (xs, index, ends)"
    using loop [rule_format, of "[]"] preorder_fold_roots [OF xs(1,2), of ?z ?z "[]"]
    by (simp add: preorder_layout_def root_ids_def preorder_loop.simps)
  with that xs off rest show ?thesis by (simp add: same_off_def)
qed

lemma topology_new_ok:
  assumes wf: "paths_wf plan"
  shows "\<exists>t. topology_new plan = Some t \<and> topo_ok plan t"
proof -
  let ?ch = "child_lists plan" and ?n = "length (move_paths plan)"
  let ?rules = "map (rule_for plan) ?ch"
  obtain xs index ends where lay:
    "preorder_layout plan ?ch (map (root_of_local plan) [0..<length (plan_locals plan)]) =
      Some (xs, index, ends)"
    and xs: "distinct xs" "set xs = {..< ?n}"
    and len: "length index = ?n" "length ends = ?n"
    and num: "\<forall>i < length xs. index ! (xs ! i) = i"
    and lo: "\<forall>x \<in> set xs. laid_out ?ch (xs, index, ends) x"
    using preorder_layout_correct [OF wf] .
  have "map_opt (completion_of plan) ?ch = Some ?rules"
    by (rule map_opt_total, rule completion_of_total)
      (auto simp: child_lists_def set_children_of)
  moreover note topology_links_correct [OF wf, folded child_lists_def] lay
  moreover define t where "t = \<lparr>topo_children = ?ch, completion = ?rules,
    discriminant_index = fst (number_enum_roots 0 ?rules),
    discriminant_count = snd (number_enum_roots 0 ?rules),
    roots_by_local = map (root_of_local plan) [0..<length (plan_locals plan)],
    preorder_paths = xs, preorder_index = index, subtree_end = ends\<rparr>"
  ultimately have t: "topology_new plan = Some t" by (simp add: topology_new_def)
  have tf: "topo_children t = ?ch" "completion t = ?rules"
    "roots_by_local t = map (root_of_local plan) [0..<length (plan_locals plan)]"
    "discriminant_index t = fst (number_enum_roots 0 ?rules)"
    "discriminant_count t = snd (number_enum_roots 0 ?rules)"
    "preorder_paths t = xs" "preorder_index t = index" "subtree_end t = ends"
    by (simp_all add: t_def)
  have sub: "\<exists>ys. subtree t p = Some ys \<and> distinct ys \<and> set ys = {d. d < ?n \<and> under plan p d}"
    if p: "p < ?n" for p
  proof -
    obtain ys where ys: "preord ?ch [p] ys" "ends ! p = index ! p + length ys"
      "index ! p + length ys \<le> length xs" "take (length ys) (drop (index ! p) xs) = ys"
      using lo xs p by (auto simp: laid_out_def)
    have "distinct ys" using ys(4) xs(1) by (metis distinct_drop distinct_take)
    moreover have "set ys = {d. d < ?n \<and> under plan p d}"
      using preord_reach [OF ys(1)] child_reach_under [OF wf p] preord_bound [OF ys(1)] by auto
    ultimately show ?thesis using ys p len by (simp add: subtree_def tf)
  qed
  have con: "contains_path t a d = Some (under plan a d)" if ad: "a < ?n" "d < ?n" for a d
  proof -
    have "index ! a \<le> index ! d \<and> index ! d < ends ! a \<longleftrightarrow> under plan a d"
      using laid_out_interval [OF _ xs(1) num, of ?ch ends a d] lo xs(2) ad
        child_reach_under [OF wf ad] by auto
    then show ?thesis using ad len by (auto simp: contains_path_def tf)
  qed
  have di: "\<forall>p < ?n. (discriminant_index t ! p = None \<longleftrightarrow> \<not> is_enum_rule (completion t ! p)) \<and>
      (\<forall>j. discriminant_index t ! p = Some j \<longrightarrow> j < discriminant_count t)"
    using number_enum_roots_spec(1,2) [of _ ?rules] by (simp add: tf)
  have inj: "\<forall>p < ?n. \<forall>q < ?n. \<forall>j. discriminant_index t ! p = Some j \<longrightarrow>
      discriminant_index t ! q = Some j \<longrightarrow> p = q"
    using number_enum_roots_spec(3) [of _ ?rules] by (simp add: tf)
  show ?thesis
    using t sub con di inj by (auto simp: topo_ok_def tf)
qed

end
