(* ===== verification/Cleanup_State.thy ===== *)
theory Cleanup_State
  imports Cleanup_Topology
begin

text \<open>
  \<open>MoveState\<close> of \<open>compiler/src/cleanup.rs\<close>: which locals may and must have live storage, which
  move paths may and must be initialised, and which variants every enum path may hold.  Every
  operation takes the state and returns the updated one; \<open>None\<close> is a panic (an index out of
  range) or a loop that does not end.  The first part is the code, the second part shows that
  on a well-formed plan every operation returns and what it does to the sets.
\<close>

datatype initialization_certainty = May | Must

definition move_state_new :: "bool \<Rightarrow> move_path_topology \<Rightarrow> move_state" where
  "move_state_new r t =
     \<lparr>reachable = r,
      may_live = bitset_new (length (roots_by_local t)),
      must_live = bitset_new (length (roots_by_local t)),
      may_init = bitset_new (length (topo_children t)),
      must_init = bitset_new (length (topo_children t)),
      discriminants = replicate (discriminant_count t) ds_unset\<rparr>"

text \<open>\<open>join_from\<close> returns the updated state and whether it changed.\<close>

definition join_from :: "move_state \<Rightarrow> move_state \<Rightarrow> move_state \<times> bool" where
  "join_from s incoming =
     (if \<not> reachable incoming then (s, False)
      else if \<not> reachable s then (incoming, True)
      else
        let s' = s\<lparr>may_live := bitset_union_with (may_live s) (may_live incoming),
                   must_live := bitset_intersect_with (must_live s) (must_live incoming),
                   may_init := bitset_union_with (may_init s) (may_init incoming),
                   must_init := bitset_intersect_with (must_init s) (must_init incoming),
                   discriminants := zip_update ds_join_with (discriminants s) (discriminants incoming)\<rparr>
        in (s', s' \<noteq> s))"

text \<open>\<open>self.may_init.remove(p); self.must_init.remove(p)\<close> and the two insertions.\<close>

definition remove_init :: "move_path_id \<Rightarrow> move_state \<Rightarrow> move_state option" where
  "remove_init p s = do {
     may \<leftarrow> bitset_remove (may_init s) p;
     must \<leftarrow> bitset_remove (must_init s) p;
     Some (s\<lparr>may_init := may, must_init := must\<rparr>) }"

definition remove_must :: "move_path_id \<Rightarrow> move_state \<Rightarrow> move_state option" where
  "remove_must p s = do {
     must \<leftarrow> bitset_remove (must_init s) p;
     Some (s\<lparr>must_init := must\<rparr>) }"

definition insert_must :: "move_path_id \<Rightarrow> move_state \<Rightarrow> move_state option" where
  "insert_must p s = do {
     must \<leftarrow> bitset_insert (must_init s) p;
     Some (s\<lparr>must_init := must\<rparr>) }"

definition insert_may :: "move_path_id \<Rightarrow> move_state \<Rightarrow> move_state option" where
  "insert_may p s = do {
     may \<leftarrow> bitset_insert (may_init s) p;
     Some (s\<lparr>may_init := may\<rparr>) }"

definition remove_may :: "move_path_id \<Rightarrow> move_state \<Rightarrow> move_state option" where
  "remove_may p s = do {
     may \<leftarrow> bitset_remove (may_init s) p;
     Some (s\<lparr>may_init := may\<rparr>) }"

definition insert_init :: "move_path_id \<Rightarrow> move_state \<Rightarrow> move_state option" where
  "insert_init p s = do { s \<leftarrow> insert_may p s; insert_must p s }"

definition set_discriminant_at :: "nat \<Rightarrow> discriminant_state \<Rightarrow> move_state \<Rightarrow> move_state option" where
  "set_discriminant_at i d s = do {
     ds \<leftarrow> upd_opt (discriminants s) i d;
     Some (s\<lparr>discriminants := ds\<rparr>) }"

subsection \<open>Clearing\<close>

definition clear_one :: "move_path_topology \<Rightarrow> move_path_id \<Rightarrow> move_state \<Rightarrow> move_state option" where
  "clear_one t d s = do {
     s \<leftarrow> remove_init d s;
     di \<leftarrow> nth_opt (discriminant_index t) d;
     (case di of
        None \<Rightarrow> Some s
      | Some i \<Rightarrow> set_discriminant_at i ds_unset s) }"

definition clear_subtree_only ::
    "move_path_id \<Rightarrow> move_path_topology \<Rightarrow> move_state \<Rightarrow> move_state option" where
  "clear_subtree_only path t s = do {
     ds \<leftarrow> subtree t path;
     fold_opt (clear_one t) ds s }"

partial_function (option) clear_ancestors ::
    "cleanup_plan \<Rightarrow> move_path_id option \<Rightarrow> move_state \<Rightarrow> move_state option" where
  [code]: "clear_ancestors plan parent s =
     (case parent of
        None \<Rightarrow> Some s
      | Some p \<Rightarrow> do {
          s \<leftarrow> remove_init p s;
          mp \<leftarrow> nth_opt (move_paths plan) p;
          clear_ancestors plan (path_parent mp) s })"

definition clear_path ::
    "move_path_id \<Rightarrow> cleanup_plan \<Rightarrow> move_path_topology \<Rightarrow> move_state \<Rightarrow> move_state option" where
  "clear_path path plan t s = do {
     s \<leftarrow> clear_subtree_only path t s;
     mp \<leftarrow> nth_opt (move_paths plan) path;
     clear_ancestors plan (path_parent mp) s }"

definition clear_local_value ::
    "local_id \<Rightarrow> move_path_topology \<Rightarrow> move_state \<Rightarrow> move_state option" where
  "clear_local_value l t s =
     (case Option.bind (nth_opt (roots_by_local t) l) id of
        Some root \<Rightarrow> clear_subtree_only root t s
      | None \<Rightarrow> Some s)"

definition start_storage :: "local_id \<Rightarrow> move_path_topology \<Rightarrow> move_state \<Rightarrow> move_state option" where
  "start_storage l t s = do {
     s \<leftarrow> clear_local_value l t s;
     may \<leftarrow> bitset_insert (may_live s) l;
     must \<leftarrow> bitset_insert (must_live s) l;
     Some (s\<lparr>may_live := may, must_live := must\<rparr>) }"

definition end_storage :: "local_id \<Rightarrow> move_path_topology \<Rightarrow> move_state \<Rightarrow> move_state option" where
  "end_storage l t s = do {
     s \<leftarrow> clear_local_value l t s;
     may \<leftarrow> bitset_remove (may_live s) l;
     must \<leftarrow> bitset_remove (must_live s) l;
     Some (s\<lparr>may_live := may, must_live := must\<rparr>) }"

subsection \<open>Marking a whole value\<close>

text \<open>
  What an enum root may hold once its value is (or may be) whole: with \<open>Must\<close>, an unset
  discriminant may become any variant; with \<open>May\<close>, every variant and unset are possible.
\<close>

definition mark_discriminant ::
    "initialization_certainty \<Rightarrow> u32 list \<Rightarrow> discriminant_state \<Rightarrow> discriminant_state" where
  "mark_discriminant certainty all_variants d =
     (case certainty of
        Must \<Rightarrow>
          (if may_be_unset d then fold (\<lambda>v d. ds_include_variant d v) all_variants d else d)
            \<lparr>may_be_unset := False\<rparr>
      | May \<Rightarrow> fold (\<lambda>v d. ds_include_variant d v) all_variants (d\<lparr>may_be_unset := True\<rparr>))"

text \<open>
  One iteration: the entries pushed, last pushed first, and the new state.  The \<open>Inl\<close> branch of
  the search clears the subtree of a variant that is not possible.
\<close>

definition mark_variants ::
    "initialization_certainty \<Rightarrow> u32 list \<Rightarrow> move_path_topology \<Rightarrow> (u32 \<times> move_path_id) list \<Rightarrow>
     move_state \<Rightarrow> ((move_path_id \<times> initialization_certainty) list \<times> move_state) option" where
  "mark_variants child_certainty possible t variants s =
     fold_opt (\<lambda>vc st.
       (case bsearch possible (fst vc) of
          Inr _ \<Rightarrow> Some ((snd vc, child_certainty) # fst st, snd st)
        | Inl _ \<Rightarrow> do {
            s \<leftarrow> clear_subtree_only (snd vc) t (snd st);
            Some (fst st, s) })) variants ([], s)"

definition mark_step ::
    "move_path_topology \<Rightarrow> move_path_id \<Rightarrow> initialization_certainty \<Rightarrow> move_state \<Rightarrow>
     ((move_path_id \<times> initialization_certainty) list \<times> move_state) option" where
  "mark_step t path certainty s = do {
     s \<leftarrow> insert_may path s;
     s \<leftarrow> (case certainty of Must \<Rightarrow> insert_must path s | May \<Rightarrow> remove_must path s);
     rule \<leftarrow> nth_opt (completion t) path;
     (case rule of
        Explicit \<Rightarrow> Some ([], s)
      | AllChildren \<Rightarrow> do {
          cs \<leftarrow> nth_opt (topo_children t) path;
          Some (rev (map (\<lambda>c. (c, certainty)) cs), s) }
      | EnumRoot variants \<Rightarrow> do {
          di \<leftarrow> nth_opt (discriminant_index t) path;
          i \<leftarrow> di;
          d \<leftarrow> nth_opt (discriminants s) i;
          let d' = mark_discriminant certainty (map fst variants) d;
          s \<leftarrow> set_discriminant_at i d' s;
          mark_variants
            (if certainty = Must \<and> length (possible_variants d') = 1 then Must else May)
            (possible_variants d') t variants s }) }"

partial_function (option) mark_loop ::
    "move_path_topology \<Rightarrow> (move_path_id \<times> initialization_certainty) list \<Rightarrow> move_state \<Rightarrow>
     move_state option" where
  [code]: "mark_loop t stack s =
     (case stack of
        [] \<Rightarrow> Some s
      | e # stack' \<Rightarrow> do {
          st \<leftarrow> mark_step t (fst e) (snd e) s;
          mark_loop t (fst st @ stack') (snd st) })"

definition mark_whole ::
    "move_path_id \<Rightarrow> initialization_certainty \<Rightarrow> move_path_topology \<Rightarrow> move_state \<Rightarrow> move_state option" where
  "mark_whole root certainty t s = mark_loop t [(root, certainty)] s"

subsection \<open>Recomposing ancestors\<close>

definition recompose_all_children ::
    "move_path_id list \<Rightarrow> move_path_id \<Rightarrow> move_state \<Rightarrow> move_state option" where
  "recompose_all_children cs path s =
     (let all_must = (\<forall>c \<in> set cs. bitset_contains (must_init s) c);
          all_may = (\<forall>c \<in> set cs. bitset_contains (may_init s) c)
      in if all_must then insert_init path s
         else do {
           s \<leftarrow> remove_must path s;
           if all_may then insert_may path s else remove_may path s })"

text \<open>The child of the only variant an enum root can hold, if there is exactly one.\<close>

definition active_child ::
    "discriminant_state option \<Rightarrow> (u32 \<times> move_path_id) list \<Rightarrow> move_path_id option" where
  "active_child d variants = do {
     state \<leftarrow> d;
     if \<not> may_be_unset state \<and> length (possible_variants state) = 1
     then (case bsearch (map fst variants) (hd (possible_variants state)) of
             Inr i \<Rightarrow> Some (snd (variants ! i))
           | Inl _ \<Rightarrow> None)
     else None }"

definition recompose_active_child ::
    "move_path_id option \<Rightarrow> move_path_id \<Rightarrow> move_state \<Rightarrow> move_state option" where
  "recompose_active_child active path s =
     (case active of
        None \<Rightarrow> Some s
      | Some c \<Rightarrow>
          if bitset_contains (must_init s) c then insert_init path s
          else do {
            s \<leftarrow> remove_must path s;
            if bitset_contains (may_init s) c then insert_may path s else remove_may path s })"

definition recompose_step ::
    "move_path_topology \<Rightarrow> move_path_id \<Rightarrow> move_state \<Rightarrow> move_state option" where
  "recompose_step t path s = do {
     rule \<leftarrow> nth_opt (completion t) path;
     (case rule of
        Explicit \<Rightarrow> Some s
      | AllChildren \<Rightarrow> do {
          cs \<leftarrow> nth_opt (topo_children t) path;
          recompose_all_children cs path s }
      | EnumRoot variants \<Rightarrow> do {
          di \<leftarrow> nth_opt (discriminant_index t) path;
          d \<leftarrow> (case di of
                 None \<Rightarrow> Some None
               | Some i \<Rightarrow> do { d \<leftarrow> nth_opt (discriminants s) i; Some (Some d) });
          recompose_active_child (active_child d variants) path s }) }"

partial_function (option) recompose_loop ::
    "cleanup_plan \<Rightarrow> move_path_topology \<Rightarrow> move_path_id option \<Rightarrow> move_state \<Rightarrow> move_state option" where
  [code]: "recompose_loop plan t parent s =
     (case parent of
        None \<Rightarrow> Some s
      | Some p \<Rightarrow> do {
          s \<leftarrow> recompose_step t p s;
          mp \<leftarrow> nth_opt (move_paths plan) p;
          recompose_loop plan t (path_parent mp) s })"

definition recompose_ancestors ::
    "move_path_id \<Rightarrow> cleanup_plan \<Rightarrow> move_path_topology \<Rightarrow> move_state \<Rightarrow> move_state option" where
  "recompose_ancestors path plan t s = do {
     mp \<leftarrow> nth_opt (move_paths plan) path;
     recompose_loop plan t (path_parent mp) s }"

subsection \<open>Operations\<close>

definition initialize_path ::
    "move_path_id \<Rightarrow> cleanup_plan \<Rightarrow> move_path_topology \<Rightarrow> move_state \<Rightarrow> move_state option" where
  "initialize_path path plan t s = do {
     s \<leftarrow> mark_whole path Must t s;
     recompose_ancestors path plan t s }"

definition set_known_discriminant ::
    "move_path_topology \<Rightarrow> move_path_id \<Rightarrow> u32 \<Rightarrow> move_state \<Rightarrow> move_state option" where
  "set_known_discriminant t path variant s = do {
     di \<leftarrow> nth_opt (discriminant_index t) path;
     (case di of
        None \<Rightarrow> Some s
      | Some i \<Rightarrow> do {
          d \<leftarrow> nth_opt (discriminants s) i;
          set_discriminant_at i (ds_set_known d variant) s }) }"

definition set_discriminant ::
    "move_path_id \<Rightarrow> u32 \<Rightarrow> cleanup_plan \<Rightarrow> move_path_topology \<Rightarrow> move_state \<Rightarrow> move_state option" where
  "set_discriminant destination variant plan t s = do {
     s \<leftarrow> clear_path destination plan t s;
     set_known_discriminant t destination variant s }"

definition assume_discriminant ::
    "move_path_id \<Rightarrow> u32 \<Rightarrow> move_path_topology \<Rightarrow> move_state \<Rightarrow> move_state option" where
  "assume_discriminant source variant t s = do {
     s \<leftarrow> set_known_discriminant t source variant s;
     rule \<leftarrow> nth_opt (completion t) source;
     (case rule of
        EnumRoot variants \<Rightarrow>
          fold_opt (\<lambda>vc s. if fst vc = variant then mark_whole (snd vc) Must t s
                           else clear_subtree_only (snd vc) t s) variants s
      | _ \<Rightarrow> Some s) }"

definition transfer ::
    "move_path_id \<Rightarrow> move_path_id \<Rightarrow> cleanup_plan \<Rightarrow> move_path_topology \<Rightarrow> move_state \<Rightarrow> move_state option" where
  "transfer source destination plan t s = do {
     si \<leftarrow> nth_opt (discriminant_index t) source;
     source_discriminant \<leftarrow> (case si of
         None \<Rightarrow> Some None
       | Some i \<Rightarrow> do { d \<leftarrow> nth_opt (discriminants s) i; Some (Some d) });
     s \<leftarrow> clear_path source plan t s;
     s \<leftarrow> clear_path destination plan t s;
     di \<leftarrow> nth_opt (discriminant_index t) destination;
     s \<leftarrow> (case (source_discriminant, di) of
         (Some d, Some i) \<Rightarrow> set_discriminant_at i d s
       | _ \<Rightarrow> Some s);
     initialize_path destination plan t s }"

fun apply_operation ::
    "cleanup_op \<Rightarrow> cleanup_plan \<Rightarrow> move_path_topology \<Rightarrow> move_state \<Rightarrow> move_state option" where
  "apply_operation (StorageLive l) plan t s = start_storage l t s"
| "apply_operation (StorageDead l) plan t s = end_storage l t s"
| "apply_operation (Init path) plan t s = initialize_path path plan t s"
| "apply_operation (Overwrite path) plan t s = do {
     s \<leftarrow> clear_path path plan t s;
     initialize_path path plan t s }"
| "apply_operation (MoveOut path) plan t s = clear_path path plan t s"
| "apply_operation (Transfer source destination _) plan t s = transfer source destination plan t s"
| "apply_operation (SetDiscriminant destination variant) plan t s =
     set_discriminant destination variant plan t s"
| "apply_operation (AssumeDiscriminant source variant) plan t s =
     assume_discriminant source variant t s"

definition apply_operations ::
    "cleanup_plan \<Rightarrow> move_path_topology \<Rightarrow> cleanup_op list \<Rightarrow> move_state \<Rightarrow> move_state option" where
  "apply_operations plan t ops s = fold_opt (\<lambda>op s. apply_operation op plan t s) ops s"

subsection \<open>Questions\<close>

definition storage_liveness_of :: "move_state \<Rightarrow> local_id \<Rightarrow> storage_liveness" where
  "storage_liveness_of s l =
     (if bitset_contains (must_live s) l then Live
      else if bitset_contains (may_live s) l then MaybeLive
      else Dead)"

definition has_initialized_part :: "move_state \<Rightarrow> move_path_topology \<Rightarrow> move_path_id \<Rightarrow> bool option" where
  "has_initialized_part s t d =
     (if bitset_contains (may_init s) d then Some True
      else do {
        di \<leftarrow> nth_opt (discriminant_index t) d;
        (case di of
           None \<Rightarrow> Some False
         | Some i \<Rightarrow> do {
             ds \<leftarrow> nth_opt (discriminants s) i;
             Some (\<not> may_be_unset ds \<or> possible_variants ds \<noteq> []) }) })"

definition path_initialization_of ::
    "move_state \<Rightarrow> move_path_topology \<Rightarrow> move_path_id \<Rightarrow> path_initialization option" where
  "path_initialization_of s t path =
     (if bitset_contains (must_init s) path then Some Initialized
      else do {
        ds \<leftarrow> subtree t path;
        part \<leftarrow> any_opt (has_initialized_part s t) ds;
        Some (if part then MaybeOrPartial else Uninitialized) })"

definition path_may_be_fully_initialized :: "move_state \<Rightarrow> move_path_id \<Rightarrow> bool" where
  "path_may_be_fully_initialized s path = bitset_contains (may_init s) path"

type_synonym inactive_info = "move_path_id \<times> u32 \<times> bool \<times> u32 list"

text \<open>
  One step of the walk to the root: the enum root whose discriminant does not select the
  downcast, if this path is a downcast.  \<open>expect\<close> of a missing discriminant is \<open>None\<close>.
\<close>

definition inactive_step ::
    "move_state \<Rightarrow> move_path_topology \<Rightarrow> move_path \<Rightarrow> inactive_info option option" where
  "inactive_step s t mp =
     (case (downcast_variant mp, path_parent mp) of
        (Some required, Some enum_root) \<Rightarrow> do {
          di \<leftarrow> nth_opt (discriminant_index t) enum_root;
          i \<leftarrow> di;
          d \<leftarrow> nth_opt (discriminants s) i;
          Some (if may_be_unset d \<or> possible_variants d \<noteq> [required]
                then Some (enum_root, required, may_be_unset d, possible_variants d)
                else None) }
      | _ \<Rightarrow> Some None)"

partial_function (option) inactive_loop ::
    "cleanup_plan \<Rightarrow> move_path_topology \<Rightarrow> move_path_id option \<Rightarrow> move_state \<Rightarrow>
     inactive_info option option" where
  [code]: "inactive_loop plan t cursor s =
     (case cursor of
        None \<Rightarrow> Some None
      | Some current \<Rightarrow> do {
          mp \<leftarrow> nth_opt (move_paths plan) current;
          found \<leftarrow> inactive_step s t mp;
          (if found \<noteq> None then Some found
           else inactive_loop plan t (path_parent mp) s) })"

definition inactive_downcast ::
    "move_state \<Rightarrow> move_path_id \<Rightarrow> cleanup_plan \<Rightarrow> move_path_topology \<Rightarrow> inactive_info option option" where
  "inactive_downcast s path plan t = inactive_loop plan t (Some path) s"

end
