(* ===== verification/Cleanup_State_Effects.thy ===== *)
theory Cleanup_State_Effects
  imports Cleanup_State
begin

text \<open>
  What the operations of \<open>MoveState\<close> do, on the sets their bit vectors stand for.  On a
  well-formed plan with its topology (\<open>plan_topo\<close>) and a state of the right shape
  (\<open>state_wf\<close>), each operation returns; \<open>effect\<close> relates the state before and after through the
  sets of maybe- and surely-initialised paths and the discriminants by path.
\<close>

definition plan_topo :: "cleanup_plan \<Rightarrow> move_path_topology \<Rightarrow> bool" where
  "plan_topo plan t \<longleftrightarrow> paths_wf plan \<and> topo_ok plan t"

definition n_paths :: "cleanup_plan \<Rightarrow> nat" where
  "n_paths plan = length (move_paths plan)"

definition below :: "cleanup_plan \<Rightarrow> move_path_id \<Rightarrow> move_path_id set" where
  "below plan p = {d. d < n_paths plan \<and> under plan p d}"

definition above :: "cleanup_plan \<Rightarrow> move_path_id \<Rightarrow> move_path_id set" where
  "above plan p = {a. a < n_paths plan \<and> under plan a p \<and> a \<noteq> p}"

definition state_wf :: "cleanup_plan \<Rightarrow> move_path_topology \<Rightarrow> move_state \<Rightarrow> bool" where
  "state_wf plan t s \<longleftrightarrow>
     bit_capacity (may_live s) = capacity_for (length (plan_locals plan)) \<and>
     bit_capacity (must_live s) = capacity_for (length (plan_locals plan)) \<and>
     bit_capacity (may_init s) = capacity_for (n_paths plan) \<and>
     bit_capacity (must_init s) = capacity_for (n_paths plan) \<and>
     length (discriminants s) = discriminant_count t \<and>
     (\<forall>d \<in> set (discriminants s). ds_ok d)"

definition disc_of :: "move_path_topology \<Rightarrow> move_state \<Rightarrow> move_path_id \<Rightarrow> discriminant_state" where
  "disc_of t s p =
     (case discriminant_index t ! p of Some i \<Rightarrow> discriminants s ! i | None \<Rightarrow> ds_unset)"

definition same_storage :: "move_state \<Rightarrow> move_state \<Rightarrow> bool" where
  "same_storage s s' \<longleftrightarrow>
     reachable s' = reachable s \<and> may_live s' = may_live s \<and> must_live s' = must_live s"

definition effect :: "cleanup_plan \<Rightarrow> move_path_topology \<Rightarrow> move_state \<Rightarrow> move_state \<Rightarrow>
    nat set \<Rightarrow> nat set \<Rightarrow> (move_path_id \<Rightarrow> discriminant_state) \<Rightarrow> bool" where
  "effect plan t s s' may must disc \<longleftrightarrow>
     state_wf plan t s' \<and> same_storage s s' \<and>
     bits (may_init s') = may \<and> bits (must_init s') = must \<and>
     (\<forall>p < n_paths plan. disc_of t s' p = disc p)"

named_theorems effect_intros

subsection \<open>Topology facts\<close>

lemma plan_topoD:
  assumes "plan_topo plan t"
  shows "paths_wf plan" "topo_ok plan t"
  using assms by (simp_all add: plan_topo_def)

lemma topo_lengths [simp]:
  assumes "plan_topo plan t"
  shows "length (topo_children t) = n_paths plan" "length (completion t) = n_paths plan"
    "length (discriminant_index t) = n_paths plan"
    "length (roots_by_local t) = length (plan_locals plan)"
  using assms by (auto simp: plan_topo_def topo_ok_def n_paths_def)

lemma topo_children_nth:
  "plan_topo plan t \<Longrightarrow> p < n_paths plan \<Longrightarrow> topo_children t ! p = children_of plan p"
  by (auto simp: plan_topo_def topo_ok_def n_paths_def)

lemma completion_nth:
  "plan_topo plan t \<Longrightarrow> p < n_paths plan \<Longrightarrow> completion t ! p = rule_for plan (children_of plan p)"
  by (auto simp: plan_topo_def topo_ok_def n_paths_def)

lemma subtree_below:
  assumes "plan_topo plan t" "p < n_paths plan"
  shows "\<exists>ys. subtree t p = Some ys \<and> distinct ys \<and> set ys = below plan p"
  using assms by (auto simp: plan_topo_def topo_ok_def below_def n_paths_def)

lemma discriminant_index_bound:
  assumes "plan_topo plan t" "p < n_paths plan" "discriminant_index t ! p = Some i"
  shows "i < discriminant_count t"
  using assms by (auto simp: plan_topo_def topo_ok_def n_paths_def)

lemma discriminant_index_None_iff:
  assumes "plan_topo plan t" "p < n_paths plan"
  shows "discriminant_index t ! p = None \<longleftrightarrow> \<not> is_enum_rule (rule_for plan (children_of plan p))"
  using assms completion_nth [OF assms] by (auto simp: plan_topo_def topo_ok_def n_paths_def)

lemma discriminant_index_inj:
  assumes "plan_topo plan t" "p < n_paths plan" "q < n_paths plan"
    and "discriminant_index t ! p = Some i" "discriminant_index t ! q = Some i"
  shows "p = q"
  using assms by (auto simp: plan_topo_def topo_ok_def n_paths_def)

lemma below_bound: "d \<in> below plan p \<Longrightarrow> d < n_paths plan"
  by (simp add: below_def)

lemma self_below [simp]: "p < n_paths plan \<Longrightarrow> p \<in> below plan p"
  by (simp add: below_def)

lemma below_trans: "d \<in> below plan q \<Longrightarrow> q \<in> below plan p \<Longrightarrow> d \<in> below plan p"
  by (auto simp: below_def intro: under_trans)

lemma below_child:
  assumes "paths_wf plan" "q \<in> set (children_of plan p)"
  shows "q \<in> below plan p" "q < n_paths plan"
  using assms paths_wf_parent [of plan q p] by (auto simp: set_children_of below_def n_paths_def)

text \<open>Everything below a path is the path itself or below one of its children.\<close>

lemma below_cases:
  assumes wf: "paths_wf plan" and p: "p < n_paths plan" and d: "d \<in> below plan p"
  shows "d = p \<or> (\<exists>q \<in> set (children_of plan p). d \<in> below plan q)"
proof -
  have d': "d < length (move_paths plan)" "p < length (move_paths plan)"
    using d p by (auto simp: below_def n_paths_def)
  have "(p, d) \<in> (child_rel (child_lists plan))\<^sup>*"
    using child_reach_under [OF wf d'(2,1)] d by (simp add: below_def)
  then show ?thesis
  proof (cases rule: converse_rtranclE)
    case base
    then show ?thesis by simp
  next
    case (step q)
    then have q: "q < length (move_paths plan)" "path_parent (move_paths plan ! q) = Some p"
      using child_rel_plan [OF wf] by auto
    moreover have "under plan q d"
      using child_reach_under [OF wf q(1) d'(1)] step(2) by simp
    ultimately show ?thesis using d' by (auto simp: set_children_of below_def n_paths_def)
  qed
qed

lemma below_children_disjoint:
  assumes wf: "paths_wf plan" and "q \<in> set (children_of plan p)" "r \<in> set (children_of plan p)"
    and "d \<in> below plan q" "d \<in> below plan r"
  shows "q = r"
proof -
  note q = below_child [OF wf assms(2)] and r = below_child [OF wf assms(3)]
  have "length (projections (path_place (move_paths plan ! q))) =
      length (projections (path_place (move_paths plan ! r)))"
    using assms(2,3) paths_wf_parent [OF wf, of q p] paths_wf_parent [OF wf, of r p]
    by (simp add: set_children_of)
  then have "projections (path_place (move_paths plan ! q)) =
      projections (path_place (move_paths plan ! r))"
    using assms(4,5) by (auto simp: below_def under_def) (metis prefix_length_prefix prefix_order.eq_iff le_refl)
  then have "path_place (move_paths plan ! q) = path_place (move_paths plan ! r)"
    using assms(4,5) by (simp add: below_def under_def)
  then show ?thesis using paths_wf_inj [OF wf] q r by (simp add: n_paths_def)
qed

lemma parent_not_below_child:
  assumes wf: "paths_wf plan" and "q \<in> set (children_of plan p)"
  shows "p \<notin> below plan q"
proof
  assume "p \<in> below plan q"
  then have "length (projections (path_place (move_paths plan ! q))) \<le>
      length (projections (path_place (move_paths plan ! p)))"
    by (auto simp: below_def under_def dest: prefix_length_le)
  then show False using assms(2) paths_wf_parent [OF wf, of q p] by (simp add: set_children_of)
qed

subsection \<open>Single updates\<close>

lemma effect_refl: "state_wf plan t s \<Longrightarrow> effect plan t s s (bits (may_init s)) (bits (must_init s)) (disc_of t s)"
  by (simp add: effect_def same_storage_def)

lemma effect_wf: "effect plan t s s' may must disc \<Longrightarrow> state_wf plan t s'"
  by (simp add: effect_def)

lemma effect_trans:
  assumes "effect plan t s s1 may1 must1 disc1" "effect plan t s1 s2 may2 must2 disc2"
  shows "effect plan t s s2 may2 must2 disc2"
  using assms by (auto simp: effect_def same_storage_def)

lemma effect_mono:
  assumes "effect plan t s s' may must disc" "may = may'" "must = must'"
    "\<And>p. p < n_paths plan \<Longrightarrow> disc p = disc' p"
  shows "effect plan t s s' may' must' disc'"
  using assms by (auto simp: effect_def)

lemma fits_path:
  assumes "state_wf plan t s" "p < n_paths plan"
  shows "bit_fits (may_init s) p" "bit_fits (must_init s) p"
  using assms fits_capacity by (auto simp: state_wf_def bit_fits_def)

lemma fits_eq_iff: "bit_fits b = bit_fits c \<longleftrightarrow> bit_capacity b = bit_capacity c"
proof
  assume h: "bit_fits b = bit_fits c"
  have "x = y" if "\<And>i. (i :: nat) div 64 < x \<longleftrightarrow> i div 64 < y" for x y :: nat
  proof (rule ccontr)
    assume "x \<noteq> y"
    with that [of "64 * min x y"] show False by (auto simp: min_def split: if_splits)
  qed
  then show "bit_capacity b = bit_capacity c" using h by (simp add: bit_fits_def fun_eq_iff)
qed (rule bit_fits_eqI)

lemma disc_of_cong [simp]:
  "disc_of t (s\<lparr>may_init := m\<rparr>) = disc_of t s" "disc_of t (s\<lparr>must_init := m\<rparr>) = disc_of t s"
  "disc_of t (s\<lparr>may_live := m\<rparr>) = disc_of t s" "disc_of t (s\<lparr>must_live := m\<rparr>) = disc_of t s"
  by (simp_all add: disc_of_def fun_eq_iff split: option.split)

lemma insert_may_effect:
  assumes "state_wf plan t s" "p < n_paths plan"
  shows "\<exists>s'. insert_may p s = Some s' \<and>
    effect plan t s s' (insert p (bits (may_init s))) (bits (must_init s)) (disc_of t s)"
proof -
  obtain b where "bitset_insert (may_init s) p = Some b" "bits b = insert p (bits (may_init s))"
    "bit_fits b = bit_fits (may_init s)"
    using bs.ins_elems [OF fits_path(1) [OF assms]] by auto
  then show ?thesis
    using assms(1) by (auto simp: insert_may_def effect_def same_storage_def state_wf_def fits_eq_iff)
qed

lemma remove_may_effect:
  assumes "state_wf plan t s" "p < n_paths plan"
  shows "\<exists>s'. remove_may p s = Some s' \<and>
    effect plan t s s' (bits (may_init s) - {p}) (bits (must_init s)) (disc_of t s)"
proof -
  obtain b where "bitset_remove (may_init s) p = Some b" "bits b = bits (may_init s) - {p}"
    "bit_fits b = bit_fits (may_init s)"
    using bs.del_elems [OF fits_path(1) [OF assms]] by auto
  then show ?thesis
    using assms(1) by (auto simp: remove_may_def effect_def same_storage_def state_wf_def fits_eq_iff)
qed

lemma insert_must_effect:
  assumes "state_wf plan t s" "p < n_paths plan"
  shows "\<exists>s'. insert_must p s = Some s' \<and>
    effect plan t s s' (bits (may_init s)) (insert p (bits (must_init s))) (disc_of t s)"
proof -
  obtain b where "bitset_insert (must_init s) p = Some b" "bits b = insert p (bits (must_init s))"
    "bit_fits b = bit_fits (must_init s)"
    using bs.ins_elems [OF fits_path(2) [OF assms]] by auto
  then show ?thesis
    using assms(1) by (auto simp: insert_must_def effect_def same_storage_def state_wf_def fits_eq_iff)
qed

lemma remove_must_effect:
  assumes "state_wf plan t s" "p < n_paths plan"
  shows "\<exists>s'. remove_must p s = Some s' \<and>
    effect plan t s s' (bits (may_init s)) (bits (must_init s) - {p}) (disc_of t s)"
proof -
  obtain b where "bitset_remove (must_init s) p = Some b" "bits b = bits (must_init s) - {p}"
    "bit_fits b = bit_fits (must_init s)"
    using bs.del_elems [OF fits_path(2) [OF assms]] by auto
  then show ?thesis
    using assms(1) by (auto simp: remove_must_def effect_def same_storage_def state_wf_def fits_eq_iff)
qed

text \<open>Two effects in sequence.\<close>

lemma effect_bind:
  assumes "\<exists>s1. f s = Some s1 \<and> effect plan t s s1 may1 must1 disc1"
    and "\<And>s1. effect plan t s s1 may1 must1 disc1 \<Longrightarrow>
      \<exists>s2. g s1 = Some s2 \<and> effect plan t s1 s2 may2 must2 disc2"
  shows "\<exists>s2. Option.bind (f s) g = Some s2 \<and> effect plan t s s2 may2 must2 disc2"
proof -
  obtain s1 where s1: "f s = Some s1" "effect plan t s s1 may1 must1 disc1" using assms(1) by blast
  obtain s2 where "g s1 = Some s2" "effect plan t s1 s2 may2 must2 disc2" using assms(2) [OF s1(2)] by blast
  with s1 effect_trans show ?thesis by fastforce
qed

lemma insert_init_effect:
  assumes "state_wf plan t s" "p < n_paths plan"
  shows "\<exists>s'. insert_init p s = Some s' \<and>
    effect plan t s s' (insert p (bits (may_init s))) (insert p (bits (must_init s))) (disc_of t s)"
proof -
  obtain s1 where s1: "insert_may p s = Some s1"
    "effect plan t s s1 (insert p (bits (may_init s))) (bits (must_init s)) (disc_of t s)"
    using insert_may_effect [OF assms] by blast
  obtain s2 where "insert_must p s1 = Some s2"
    "effect plan t s1 s2 (bits (may_init s1)) (insert p (bits (must_init s1))) (disc_of t s1)"
    using insert_must_effect [OF effect_wf [OF s1(2)] assms(2)] by blast
  with s1 show ?thesis by (auto simp: insert_init_def effect_def same_storage_def)
qed

lemma remove_init_effect:
  assumes "state_wf plan t s" "p < n_paths plan"
  shows "\<exists>s'. remove_init p s = Some s' \<and>
    effect plan t s s' (bits (may_init s) - {p}) (bits (must_init s) - {p}) (disc_of t s)"
proof -
  obtain b where b: "bitset_remove (may_init s) p = Some b" "bits b = bits (may_init s) - {p}"
    "bit_fits b = bit_fits (may_init s)"
    using bs.del_elems [OF fits_path(1) [OF assms]] by auto
  obtain c where c: "bitset_remove (must_init s) p = Some c" "bits c = bits (must_init s) - {p}"
    "bit_fits c = bit_fits (must_init s)"
    using bs.del_elems [OF fits_path(2) [OF assms]] by auto
  from b c show ?thesis
    using assms(1) by (auto simp: remove_init_def effect_def same_storage_def state_wf_def fits_eq_iff)
qed

lemma set_discriminant_at_effect:
  assumes pt: "plan_topo plan t" and wf: "state_wf plan t s" and p: "p < n_paths plan"
    and i: "discriminant_index t ! p = Some i" and d: "ds_ok d"
  shows "\<exists>s'. set_discriminant_at i d s = Some s' \<and>
    effect plan t s s' (bits (may_init s)) (bits (must_init s)) ((disc_of t s)(p := d))"
proof -
  have b: "i < length (discriminants s)"
    using discriminant_index_bound [OF pt p i] wf by (simp add: state_wf_def)
  have "disc_of t (s\<lparr>discriminants := (discriminants s)[i := d]\<rparr>) q = ((disc_of t s)(p := d)) q"
    if q: "q < n_paths plan" for q
  proof (cases "discriminant_index t ! q")
    case None
    then show ?thesis using i by (auto simp: disc_of_def)
  next
    case (Some j)
    then show ?thesis
      using discriminant_index_inj [OF pt p q i] i b by (auto simp: disc_of_def nth_list_update)
  qed
  then show ?thesis
    using b wf d set_update_subset_insert [of "discriminants s" i d]
    by (auto simp: set_discriminant_at_def effect_def same_storage_def state_wf_def)
qed

lemma disc_of_ok:
  assumes "plan_topo plan t" "state_wf plan t s" "p < n_paths plan"
  shows "ds_ok (disc_of t s p)"
  using assms discriminant_index_bound [OF assms(1,3)]
  by (auto simp: disc_of_def state_wf_def split: option.splits)

lemma disc_lookup:
  assumes "plan_topo plan t" "state_wf plan t s" "p < n_paths plan" "discriminant_index t ! p = Some i"
  shows "nth_opt (discriminants s) i = Some (disc_of t s p)"
  using assms discriminant_index_bound [OF assms(1,3,4)] by (simp add: disc_of_def state_wf_def)

subsection \<open>Clearing\<close>

lemma clear_one_effect:
  assumes pt: "plan_topo plan t" and wf: "state_wf plan t s" and p: "p < n_paths plan"
  shows "\<exists>s'. clear_one t p s = Some s' \<and>
    effect plan t s s' (bits (may_init s) - {p}) (bits (must_init s) - {p}) ((disc_of t s)(p := ds_unset))"
proof -
  obtain s1 where s1: "remove_init p s = Some s1"
    "effect plan t s s1 (bits (may_init s) - {p}) (bits (must_init s) - {p}) (disc_of t s)"
    using remove_init_effect [OF wf p] by blast
  show ?thesis
  proof (cases "discriminant_index t ! p")
    case None
    then have "effect plan t s s1 (bits (may_init s) - {p}) (bits (must_init s) - {p})
        ((disc_of t s)(p := ds_unset))"
      using s1(2) by (auto simp: effect_def disc_of_def)
    then show ?thesis using None s1(1) p pt by (simp add: clear_one_def)
  next
    case (Some i)
    obtain s2 where "set_discriminant_at i ds_unset s1 = Some s2"
      "effect plan t s1 s2 (bits (may_init s1)) (bits (must_init s1)) ((disc_of t s1)(p := ds_unset))"
      using set_discriminant_at_effect [OF pt effect_wf [OF s1(2)] p Some ds_ok_unset] by blast
    with s1 Some p pt show ?thesis
      by (auto simp: clear_one_def effect_def same_storage_def)
  qed
qed

lemma clear_list_effect:
  assumes pt: "plan_topo plan t" and wf: "state_wf plan t s" and "\<forall>d \<in> set ds. d < n_paths plan"
  shows "\<exists>s'. fold_opt (clear_one t) ds s = Some s' \<and>
    effect plan t s s' (bits (may_init s) - set ds) (bits (must_init s) - set ds)
      (\<lambda>q. if q \<in> set ds then ds_unset else disc_of t s q)"
  using wf assms(3)
proof (induction ds arbitrary: s)
  case Nil
  then show ?case using effect_refl by fastforce
next
  case (Cons d ds)
  obtain s1 where s1: "clear_one t d s = Some s1"
    "effect plan t s s1 (bits (may_init s) - {d}) (bits (must_init s) - {d}) ((disc_of t s)(d := ds_unset))"
    using clear_one_effect [OF pt Cons.prems(1), of d] Cons.prems(2) by auto
  obtain s2 where s2: "fold_opt (clear_one t) ds s1 = Some s2"
    "effect plan t s1 s2 (bits (may_init s1) - set ds) (bits (must_init s1) - set ds)
      (\<lambda>q. if q \<in> set ds then ds_unset else disc_of t s1 q)"
    using Cons.IH [OF effect_wf [OF s1(2)]] Cons.prems(2) by auto
  from s1 s2 show ?case by (auto simp: effect_def same_storage_def)
qed

definition cleared_disc ::
    "cleanup_plan \<Rightarrow> move_path_topology \<Rightarrow> move_path_id \<Rightarrow> move_state \<Rightarrow> move_path_id \<Rightarrow> discriminant_state" where
  "cleared_disc plan t p s q = (if q \<in> below plan p then ds_unset else disc_of t s q)"

lemma clear_subtree_effect:
  assumes pt: "plan_topo plan t" and wf: "state_wf plan t s" and p: "p < n_paths plan"
  shows "\<exists>s'. clear_subtree_only p t s = Some s' \<and>
    effect plan t s s' (bits (may_init s) - below plan p) (bits (must_init s) - below plan p)
      (cleared_disc plan t p s)"
proof -
  obtain ys where ys: "subtree t p = Some ys" "set ys = below plan p"
    using subtree_below [OF pt p] by blast
  have "\<forall>d \<in> set ys. d < n_paths plan" using ys(2) below_bound by auto
  from clear_list_effect [OF pt wf this] show ?thesis
    using ys by (simp add: clear_subtree_only_def cleared_disc_def [abs_def])
qed

text \<open>The paths a walk over parents visits, starting at an optional path.\<close>

definition up :: "cleanup_plan \<Rightarrow> move_path_id option \<Rightarrow> move_path_id set" where
  "up plan po = (case po of None \<Rightarrow> {} | Some p \<Rightarrow> {a. a < n_paths plan \<and> under plan a p})"

lemma up_Some:
  assumes wf: "paths_wf plan" and p: "p < n_paths plan"
  shows "up plan (Some p) = insert p (up plan (path_parent (move_paths plan ! p)))"
    and "p \<notin> up plan (path_parent (move_paths plan ! p))"
proof -
  have p': "p < length (move_paths plan)" using p by (simp add: n_paths_def)
  have *: "under plan a p \<longleftrightarrow> a = p \<or> (\<exists>q. path_parent (move_paths plan ! p) = Some q \<and> under plan a q)"
    if a: "a < length (move_paths plan)" for a
  proof -
    have "under plan a p \<longleftrightarrow> (a, p) \<in> (child_rel (child_lists plan))\<^sup>*"
      using child_reach_under [OF wf a p'] by simp
    also have "\<dots> \<longleftrightarrow> a = p \<or> (\<exists>q. (a, q) \<in> (child_rel (child_lists plan))\<^sup>* \<and> (q, p) \<in> child_rel (child_lists plan))"
      by (metis rtrancl.simps)
    also have "\<dots> \<longleftrightarrow> a = p \<or> (\<exists>q. path_parent (move_paths plan ! p) = Some q \<and> under plan a q)"
      using child_rel_plan [OF wf] child_reach_under [OF wf a] paths_wf_parent [OF wf p'] p' by metis
    finally show ?thesis .
  qed
  show "up plan (Some p) = insert p (up plan (path_parent (move_paths plan ! p)))"
    using p' * by (auto simp: up_def n_paths_def split: option.splits)
  show "p \<notin> up plan (path_parent (move_paths plan ! p))"
    using paths_wf_parent [OF wf p']
    by (auto simp: up_def under_def split: option.splits dest: prefix_length_le)
qed

lemma up_bound: "a \<in> up plan po \<Longrightarrow> a < n_paths plan"
  by (auto simp: up_def split: option.splits)

lemma parent_bound:
  assumes "paths_wf plan" "p < n_paths plan" "path_parent (move_paths plan ! p) = Some q"
  shows "q < n_paths plan"
  using paths_wf_parent assms by (simp add: n_paths_def)

lemma above_up: "paths_wf plan \<Longrightarrow> p < n_paths plan \<Longrightarrow> above plan p = up plan (path_parent (move_paths plan ! p))"
  using up_Some [of plan p] by (auto simp: above_def up_def split: option.splits)

text \<open>Induction along the parents of a path.\<close>

lemma parent_induct [consumes 2, case_names None Some]:
  assumes wf: "paths_wf plan" and bound: "\<forall>p. po = Some p \<longrightarrow> p < n_paths plan"
    and none: "P None"
    and some: "\<And>p. p < n_paths plan \<Longrightarrow> P (path_parent (move_paths plan ! p)) \<Longrightarrow> P (Some p)"
  shows "P po"
proof -
  have "p < n_paths plan \<Longrightarrow> P (Some p)" for p
  proof (induction "length (projections (path_place (move_paths plan ! p)))" arbitrary: p rule: less_induct)
    case less
    have "P (path_parent (move_paths plan ! p))"
    proof (cases "path_parent (move_paths plan ! p)")
      case None
      then show ?thesis using none by simp
    next
      case (Some q)
      then show ?thesis
        using less.hyps [of q] paths_wf_parent [OF wf, of p q] less.prems by (simp add: n_paths_def)
    qed
    then show ?case using some less.prems by blast
  qed
  then show ?thesis using none bound by (cases po) auto
qed

lemma clear_ancestors_effect:
  assumes pt: "plan_topo plan t" and wf: "state_wf plan t s"
    and b: "\<forall>p. po = Some p \<longrightarrow> p < n_paths plan"
  shows "\<exists>s'. clear_ancestors plan po s = Some s' \<and>
    effect plan t s s' (bits (may_init s) - up plan po) (bits (must_init s) - up plan po) (disc_of t s)"
  using plan_topoD(1) [OF pt] b wf
proof (induction po arbitrary: s rule: parent_induct)
  case None
  then show ?case using effect_refl [of plan t s] by (simp add: clear_ancestors.simps up_def)
next
  case (Some p)
  obtain s1 where s1: "remove_init p s = Some s1"
    "effect plan t s s1 (bits (may_init s) - {p}) (bits (must_init s) - {p}) (disc_of t s)"
    using remove_init_effect [OF Some.prems Some.hyps] by blast
  obtain s2 where s2: "clear_ancestors plan (path_parent (move_paths plan ! p)) s1 = Some s2"
    "effect plan t s1 s2 (bits (may_init s1) - up plan (path_parent (move_paths plan ! p)))
      (bits (must_init s1) - up plan (path_parent (move_paths plan ! p))) (disc_of t s1)"
    using Some.IH [OF effect_wf [OF s1(2)]] by blast
  have "clear_ancestors plan (Some p) s = Some s2"
    using s1(1) s2(1) Some.hyps by (simp add: clear_ancestors.simps [of plan "Some p"] n_paths_def)
  moreover have "effect plan t s s2 (bits (may_init s) - up plan (Some p))
      (bits (must_init s) - up plan (Some p)) (disc_of t s)"
    using s1(2) s2(2) up_Some(1) [OF plan_topoD(1) [OF pt] Some.hyps]
    by (auto simp: effect_def same_storage_def)
  ultimately show ?case by blast
qed

lemma clear_path_effect:
  assumes pt: "plan_topo plan t" and wf: "state_wf plan t s" and p: "p < n_paths plan"
  shows "\<exists>s'. clear_path p plan t s = Some s' \<and>
    effect plan t s s' (bits (may_init s) - below plan p - above plan p)
      (bits (must_init s) - below plan p - above plan p) (cleared_disc plan t p s)"
proof -
  obtain s1 where s1: "clear_subtree_only p t s = Some s1"
    "effect plan t s s1 (bits (may_init s) - below plan p) (bits (must_init s) - below plan p)
      (cleared_disc plan t p s)"
    using clear_subtree_effect [OF pt wf p] by blast
  obtain s2 where s2: "clear_ancestors plan (path_parent (move_paths plan ! p)) s1 = Some s2"
    "effect plan t s1 s2 (bits (may_init s1) - above plan p) (bits (must_init s1) - above plan p) (disc_of t s1)"
    using clear_ancestors_effect [OF pt effect_wf [OF s1(2)], of "path_parent (move_paths plan ! p)"]
      parent_bound [OF plan_topoD(1) [OF pt] p] above_up [OF plan_topoD(1) [OF pt] p] by auto
  from s1 s2 p show ?thesis
    by (auto simp: clear_path_def effect_def same_storage_def n_paths_def)
qed

subsection \<open>Storage\<close>

definition local_paths :: "cleanup_plan \<Rightarrow> local_id \<Rightarrow> move_path_id set" where
  "local_paths plan l = {p. p < n_paths plan \<and> place_local (path_place (move_paths plan ! p)) = l}"

lemma root_local_paths:
  assumes wf: "paths_wf plan"
  shows "(case root_of_local plan l of Some r \<Rightarrow> below plan r | None \<Rightarrow> {}) = local_paths plan l"
proof (cases "root_of_local plan l")
  case None
  have "False" if p: "p \<in> local_paths plan l" for p
  proof -
    have p': "p < length (move_paths plan)" "place_local (path_place (move_paths plan ! p)) = l"
      using p by (auto simp: local_paths_def n_paths_def)
    obtain r where r: "r \<in> set (root_ids plan)" "(r, p) \<in> (child_rel (child_lists plan))\<^sup>*"
      using reached_from_root [OF wf p'(1)] by blast
    then have r': "r < length (move_paths plan)" "path_parent (move_paths plan ! r) = None"
      using set_root_ids [OF wf] by auto
    then have "under plan r p" using child_reach_under [OF wf r'(1) p'(1)] r by simp
    then have "root_of_local plan l = Some r"
      using root_of_local_eq [OF wf r'] p' by (simp add: under_def)
    with None show False by simp
  qed
  with None show ?thesis by auto
next
  case (Some r)
  note rr = root_of_local_Some [OF Some]
  then have "projections (path_place (move_paths plan ! r)) = []"
    using wf unfolding paths_wf_def by fastforce
  with rr Some show ?thesis by (auto simp: below_def local_paths_def under_def)
qed

lemma clear_local_effect:
  assumes pt: "plan_topo plan t" and wf: "state_wf plan t s" and l: "l < length (plan_locals plan)"
  shows "\<exists>s'. clear_local_value l t s = Some s' \<and>
    effect plan t s s' (bits (may_init s) - local_paths plan l) (bits (must_init s) - local_paths plan l)
      (\<lambda>q. if q \<in> local_paths plan l then ds_unset else disc_of t s q)"
proof -
  have root: "nth_opt (roots_by_local t) l = Some (root_of_local plan l)"
    using pt l by (simp add: plan_topo_def topo_ok_def)
  show ?thesis
  proof (cases "root_of_local plan l")
    case None
    then have "local_paths plan l = {}" using root_local_paths [OF plan_topoD(1) [OF pt], of l] by simp
    then show ?thesis
      using None root effect_refl [OF wf] by (simp add: clear_local_value_def)
  next
    case (Some r)
    then have "local_paths plan l = below plan r"
      using root_local_paths [OF plan_topoD(1) [OF pt], of l] by simp
    moreover have "r < n_paths plan" using root_of_local_Some [OF Some] by (simp add: n_paths_def)
    ultimately show ?thesis
      using clear_subtree_effect [OF pt wf, of r] Some root
      by (simp add: clear_local_value_def cleared_disc_def [abs_def])
  qed
qed

end
