(* ===== verification/Cleanup_Semantics.thy ===== *)
theory Cleanup_Semantics
  imports Cleanup_State_Effects
begin

text \<open>
  The run-time meaning of a cleanup plan, the specification the analysis of
  \<open>compiler/src/cleanup.rs\<close> is proved against.  A \<open>store\<close> holds what is really there at one
  moment of one execution: which locals have storage, which leaf paths hold a value and which
  variant every enum path holds.  \<open>whole\<close> says that a path holds a complete value, \<open>blank\<close> that
  nothing below it is there.  \<open>sound\<close> relates an analysis state to a store: what the state says
  \<open>must\<close> be so is so, and what is so the state says \<open>may\<close> be.
\<close>

record store =
  live :: "local_id set"
  leaf :: "move_path_id set"
  sel :: "move_path_id \<Rightarrow> u32 option"

abbreviation rule_at :: "cleanup_plan \<Rightarrow> move_path_id \<Rightarrow> completion_rule" where
  "rule_at plan p \<equiv> rule_for plan (children_of plan p)"

inductive whole :: "cleanup_plan \<Rightarrow> store \<Rightarrow> move_path_id \<Rightarrow> bool" for plan g where
  leaf: "rule_at plan p = Explicit \<Longrightarrow> p \<in> leaf g \<Longrightarrow> whole plan g p"
| parts: "rule_at plan p = AllChildren \<Longrightarrow> \<forall>c \<in> set (children_of plan p). whole plan g c \<Longrightarrow> whole plan g p"
| variant: "rule_at plan p = EnumRoot vs \<Longrightarrow> sel g p = Some v \<Longrightarrow> (v, c) \<in> set vs \<Longrightarrow>
    whole plan g c \<Longrightarrow> whole plan g p"

inductive_simps whole_iff: "whole plan g p"

definition blank :: "cleanup_plan \<Rightarrow> store \<Rightarrow> move_path_id \<Rightarrow> bool" where
  "blank plan g p \<longleftrightarrow> (\<forall>d \<in> below plan p. d \<notin> leaf g \<and> sel g d = None)"

text \<open>
  Only the selected variant of an enum can hold parts, the selection is one of its variants, only
  enums select and only paths without parts are leaves.
\<close>

definition store_ok :: "cleanup_plan \<Rightarrow> store \<Rightarrow> bool" where
  "store_ok plan g \<longleftrightarrow>
     (\<forall>e < n_paths plan. \<forall>vs. rule_at plan e = EnumRoot vs \<longrightarrow>
        (\<forall>v. sel g e = Some v \<longrightarrow> v \<in> fst ` set vs) \<and>
        (\<forall>(w, c) \<in> set vs. sel g e \<noteq> Some w \<longrightarrow> blank plan g c)) \<and>
     (\<forall>e. sel g e \<noteq> None \<longrightarrow> is_enum_rule (rule_at plan e)) \<and>
     (\<forall>d \<in> leaf g. rule_at plan d = Explicit)"

definition disc_allows :: "discriminant_state \<Rightarrow> u32 option \<Rightarrow> bool" where
  "disc_allows d ov =
     (case ov of None \<Rightarrow> may_be_unset d | Some v \<Rightarrow> v \<in> set (possible_variants d))"

definition sound_on ::
    "cleanup_plan \<Rightarrow> move_path_topology \<Rightarrow> move_path_id set \<Rightarrow> move_state \<Rightarrow> store \<Rightarrow> bool" where
  "sound_on plan t A s g \<longleftrightarrow>
     (\<forall>d \<in> A.
        (d \<in> bits (must_init s) \<longrightarrow> whole plan g d) \<and>
        (whole plan g d \<longrightarrow> d \<in> bits (may_init s)) \<and>
        (is_enum_rule (rule_at plan d) \<longrightarrow> disc_allows (disc_of t s d) (sel g d)))"

definition all_paths :: "cleanup_plan \<Rightarrow> move_path_id set" where
  "all_paths plan = {p. p < n_paths plan}"

definition sound :: "cleanup_plan \<Rightarrow> move_path_topology \<Rightarrow> move_state \<Rightarrow> store \<Rightarrow> bool" where
  "sound plan t s g \<longleftrightarrow>
     bits (must_live s) \<subseteq> live g \<and> live g \<subseteq> bits (may_live s) \<and>
     sound_on plan t (all_paths plan) s g"

subsection \<open>Facts about rules\<close>

lemma rule_Explicit_iff: "rule_at plan p = Explicit \<longleftrightarrow> children_of plan p = []"
  by (simp add: rule_for_def)

lemma variants_of_simps [simp]:
  "variants_of plan [] = []"
  "variants_of plan (c # cs) =
     (case downcast_variant (move_paths plan ! c) of
        None \<Rightarrow> variants_of plan cs | Some v \<Rightarrow> (v, c) # variants_of plan cs)"
  by (simp_all add: variants_of_def List.map_filter_def split: option.split)

lemma length_variants_of: "length (variants_of plan cs) \<le> length cs"
  by (induction cs) (auto split: option.split)

lemma rule_EnumRootD:
  assumes "rule_at plan p = EnumRoot vs"
  shows "set vs = {(v, c). c \<in> set (children_of plan p) \<and> downcast_variant (move_paths plan ! c) = Some v}"
    and "snd ` set vs = set (children_of plan p)" and "sorted (map fst vs)"
    and "children_of plan p \<noteq> []"
proof -
  let ?cs = "children_of plan p"
  have vs: "vs = sort_key fst (variants_of plan ?cs)" "length (variants_of plan ?cs) = length ?cs" "?cs \<noteq> []"
    using assms by (auto simp: rule_for_def split: if_splits)
  have sv: "set (variants_of plan cs) =
      {(v, c). c \<in> set cs \<and> downcast_variant (move_paths plan ! c) = Some v}" for cs
    by (induction cs) (auto split: option.splits)
  show s: "set vs = {(v, c). c \<in> set ?cs \<and> downcast_variant (move_paths plan ! c) = Some v}"
    using sv vs(1) by simp
  show "sorted (map fst vs)" using vs(1) by simp
  show "?cs \<noteq> []" using vs(3) .
  have "length (variants_of plan cs) = length cs \<Longrightarrow>
      \<forall>c \<in> set cs. \<exists>v. downcast_variant (move_paths plan ! c) = Some v" for cs
  proof (induction cs)
    case Nil
    show ?case by simp
  next
    case (Cons c cs)
    have "length (variants_of plan cs) \<le> length cs" by (rule length_variants_of)
    then show ?case using Cons by (cases "downcast_variant (move_paths plan ! c)") auto
  qed
  then have all: "\<forall>c \<in> set ?cs. \<exists>v. downcast_variant (move_paths plan ! c) = Some v"
    using vs(2) by auto
  have "c \<in> snd ` set vs \<longleftrightarrow> c \<in> set ?cs" for c
    unfolding s using all by (auto simp: image_iff)
  then show "snd ` set vs = set ?cs" by blast
qed

lemma downcast_place:
  assumes "paths_wf plan" "q \<in> set (children_of plan p)" "downcast_variant (move_paths plan ! q) = Some v"
  shows "projections (path_place (move_paths plan ! q)) =
    projections (path_place (move_paths plan ! p)) @ [Downcast v]"
proof -
  let ?js = "projections (path_place (move_paths plan ! q))"
  have "?js \<noteq> []" "butlast ?js = projections (path_place (move_paths plan ! p))"
    using assms(1,2) by (auto simp: paths_wf_def set_children_of)
  moreover have "last ?js = Downcast v"
    using assms(3) \<open>?js \<noteq> []\<close>
    by (auto simp: downcast_variant_def last_projection_def split: option.splits projection.splits list.splits)
  ultimately show ?thesis by (metis append_butlast_last_id)
qed

text \<open>Variants of an enum root are distinct: two children have two places.\<close>

lemma rule_variants_distinct:
  assumes wf: "paths_wf plan" and r: "rule_at plan p = EnumRoot vs"
    and "(v, c) \<in> set vs" "(v, c') \<in> set vs"
  shows "c = c'"
proof -
  have c: "c \<in> set (children_of plan p)" "downcast_variant (move_paths plan ! c) = Some v"
    and c': "c' \<in> set (children_of plan p)" "downcast_variant (move_paths plan ! c') = Some v"
    using assms(3,4) rule_EnumRootD(1) [OF r] by auto
  have "path_place (move_paths plan ! c) = path_place (move_paths plan ! c')"
    using downcast_place [OF wf c] downcast_place [OF wf c'] c(1) c'(1)
      paths_wf_parent [OF wf, of c p] paths_wf_parent [OF wf, of c' p]
    by (simp add: set_children_of under_def place.equality)
  then show ?thesis using paths_wf_inj [OF wf] c(1) c'(1) by (simp add: set_children_of)
qed

lemma rule_EnumRoot_distinct:
  assumes wf: "paths_wf plan" and r: "rule_at plan p = EnumRoot vs"
  shows "distinct (map fst vs)" "distinct (map snd vs)"
proof -
  have vs: "vs = sort_key fst (variants_of plan (children_of plan p))"
    using r by (auto simp: rule_for_def split: if_splits)
  have snd: "map snd (variants_of plan cs) =
      filter (\<lambda>c. downcast_variant (move_paths plan ! c) \<noteq> None) cs" for cs
    by (induction cs) (auto split: option.split)
  then have "distinct (map snd (variants_of plan (children_of plan p)))" by simp
  then show d: "distinct (map snd vs)"
    unfolding vs by (simp add: distinct_map inj_on_def)
  then have "distinct vs" by (simp add: distinct_map)
  moreover have "inj_on fst (set vs)"
    by (rule inj_onI) (metis prod.collapse rule_variants_distinct [OF wf r])
  ultimately show "distinct (map fst vs)" by (simp add: distinct_map)
qed

text \<open>Nothing below a blank path is whole.\<close>

lemma whole_not_blank:
  assumes wf: "paths_wf plan"
  shows "whole plan g d \<Longrightarrow> d \<in> below plan p \<Longrightarrow> \<not> blank plan g p"
proof (induction rule: whole.induct)
  case (leaf d)
  then show ?case by (auto simp: blank_def)
next
  case (parts d)
  then have "children_of plan d \<noteq> []" using rule_Explicit_iff by force
  then obtain c where c: "c \<in> set (children_of plan d)" by (cases "children_of plan d") auto
  then have "c \<in> below plan p" using below_child(1) [OF wf c] parts.prems below_trans by blast
  then show ?case using parts c by blast
next
  case (variant d vs v c)
  then show ?case by (auto simp: blank_def)
qed

end
