(* ===== verification/Cleanup_Mark.thy ===== *)
theory Cleanup_Mark
  imports Cleanup_Semantics
begin

text \<open>
  \<open>mark_whole\<close> of \<open>compiler/src/cleanup.rs\<close>: it returns, it touches nothing outside the subtree
  it marks, and the state it leaves describes every store in which the marked path is whole.
\<close>

subsection \<open>What marking leaves alone and what it establishes\<close>

definition agree_on ::
    "cleanup_plan \<Rightarrow> move_path_topology \<Rightarrow> move_path_id set \<Rightarrow> move_state \<Rightarrow> move_state \<Rightarrow> bool" where
  "agree_on plan t A s s' \<longleftrightarrow>
     (\<forall>d \<in> A. (d \<in> bits (may_init s') \<longleftrightarrow> d \<in> bits (may_init s)) \<and>
       (d \<in> bits (must_init s') \<longleftrightarrow> d \<in> bits (must_init s)) \<and>
       (d < n_paths plan \<longrightarrow> disc_of t s' d = disc_of t s d))"

definition framed ::
    "cleanup_plan \<Rightarrow> move_path_topology \<Rightarrow> move_path_id set \<Rightarrow> move_state \<Rightarrow> move_state \<Rightarrow> bool" where
  "framed plan t A s s' \<longleftrightarrow> state_wf plan t s' \<and> same_storage s s' \<and> agree_on plan t (- A) s s'"

text \<open>The discriminants of \<open>s\<close> leave room for the selections of the store \<open>g\<close>.\<close>

definition compatible ::
    "cleanup_plan \<Rightarrow> move_path_topology \<Rightarrow> move_path_id set \<Rightarrow> move_state \<Rightarrow> store \<Rightarrow> bool" where
  "compatible plan t A s g \<longleftrightarrow>
     (\<forall>d \<in> A. is_enum_rule (rule_at plan d) \<longrightarrow>
        may_be_unset (disc_of t s d) \<or>
        (\<exists>v \<in> set (possible_variants (disc_of t s d)). sel g d = Some v))"

definition marked ::
    "cleanup_plan \<Rightarrow> move_path_topology \<Rightarrow> move_path_id \<Rightarrow> initialization_certainty \<Rightarrow>
     move_state \<Rightarrow> move_state \<Rightarrow> bool" where
  "marked plan t p c s s' \<longleftrightarrow>
     p \<in> bits (may_init s') \<and> (c = Must \<longrightarrow> p \<in> bits (must_init s')) \<and>
     (\<forall>d \<in> below plan p. d \<in> bits (must_init s') \<longrightarrow> d \<in> bits (may_init s')) \<and>
     (\<forall>g. store_ok plan g \<longrightarrow> compatible plan t (below plan p) s g \<longrightarrow>
        (c = Must \<longrightarrow> whole plan g p) \<longrightarrow> sound_on plan t (below plan p) s' g)"

lemma agree_on_refl [simp]: "agree_on plan t A s s"
  by (simp add: agree_on_def)

lemma agree_on_sym: "agree_on plan t A s s' \<Longrightarrow> agree_on plan t A s' s"
  by (simp add: agree_on_def)

lemma agree_on_trans: "agree_on plan t A s s' \<Longrightarrow> agree_on plan t A s' s'' \<Longrightarrow> agree_on plan t A s s''"
  by (simp add: agree_on_def)

lemma agree_on_mono: "agree_on plan t A s s' \<Longrightarrow> B \<subseteq> A \<Longrightarrow> agree_on plan t B s s'"
  by (auto simp: agree_on_def)

lemma framed_trans:
  "framed plan t A s s' \<Longrightarrow> framed plan t B s' s'' \<Longrightarrow> framed plan t (A \<union> B) s s''"
  unfolding framed_def same_storage_def
  by (auto intro: agree_on_trans agree_on_mono)

lemma framed_mono: "framed plan t A s s' \<Longrightarrow> A \<subseteq> B \<Longrightarrow> framed plan t B s s'"
  unfolding framed_def by (auto intro: agree_on_mono)

lemma framed_agree: "framed plan t A s s' \<Longrightarrow> A \<inter> B = {} \<Longrightarrow> agree_on plan t B s s'"
  unfolding framed_def by (auto intro: agree_on_mono)

lemma sound_on_agree:
  assumes "agree_on plan t A s s'" "\<forall>d \<in> A. d < n_paths plan"
  shows "sound_on plan t A s' g \<longleftrightarrow> sound_on plan t A s g"
  using assms by (auto simp: agree_on_def sound_on_def)

lemma compatible_agree:
  assumes "agree_on plan t A s s'" "\<forall>d \<in> A. d < n_paths plan"
  shows "compatible plan t A s' g \<longleftrightarrow> compatible plan t A s g"
  using assms by (auto simp: agree_on_def compatible_def)

lemma sound_on_subset: "sound_on plan t A s g \<Longrightarrow> B \<subseteq> A \<Longrightarrow> sound_on plan t B s g"
  by (auto simp: sound_on_def)

lemma compatible_subset: "compatible plan t A s g \<Longrightarrow> B \<subseteq> A \<Longrightarrow> compatible plan t B s g"
  by (auto simp: compatible_def)

lemma below_lt: "\<forall>d \<in> below plan p. d < n_paths plan"
  by (simp add: below_def)

text \<open>Marking one path is unaffected by what happens elsewhere, before and after.\<close>

lemma marked_agree:
  assumes "agree_on plan t (below plan p) s0 s" "agree_on plan t (below plan p) s' s''"
    and "p < n_paths plan"
  shows "marked plan t p c s s' \<Longrightarrow> marked plan t p c s0 s''"
  using assms self_below [OF assms(3)]
  unfolding marked_def
  by (auto simp: compatible_agree [OF assms(1) below_lt] sound_on_agree [OF assms(2) below_lt])
    (auto simp: agree_on_def)

subsection \<open>A list of entries with disjoint subtrees\<close>

definition entry_ok ::
    "cleanup_plan \<Rightarrow> move_path_topology \<Rightarrow> move_path_id \<Rightarrow> bool" where
  "entry_ok plan t p \<longleftrightarrow>
     (\<forall>c s. state_wf plan t s \<longrightarrow>
        (\<exists>s'. (\<forall>stk. mark_loop t ((p, c) # stk) s = mark_loop t stk s') \<and>
           framed plan t (below plan p) s s' \<and> marked plan t p c s s'))"

definition below_all :: "cleanup_plan \<Rightarrow> move_path_id list \<Rightarrow> move_path_id set" where
  "below_all plan ps = (\<Union>p \<in> set ps. below plan p)"

lemma entries_ok:
  assumes "\<forall>e \<in> set es. entry_ok plan t (fst e) \<and> fst e < n_paths plan"
    and "distinct (map fst es)"
    and "\<And>e f. e \<in> set es \<Longrightarrow> f \<in> set es \<Longrightarrow> fst e \<noteq> fst f \<Longrightarrow> below plan (fst e) \<inter> below plan (fst f) = {}"
    and "state_wf plan t s"
  shows "\<exists>s'. (\<forall>stk. mark_loop t (es @ stk) s = mark_loop t stk s') \<and>
    framed plan t (below_all plan (map fst es)) s s' \<and>
    (\<forall>e \<in> set es. marked plan t (fst e) (snd e) s s')"
  using assms
proof (induction es arbitrary: s)
  case Nil
  then show ?case by (auto simp: framed_def same_storage_def below_all_def)
next
  case (Cons e es)
  obtain p c where e: "e = (p, c)" by (cases e)
  obtain s1 where s1: "\<And>stk. mark_loop t ((p, c) # stk) s = mark_loop t stk s1"
    "framed plan t (below plan p) s s1" "marked plan t p c s s1"
    using Cons.prems(1,4) e unfolding entry_ok_def by fastforce
  have wf1: "state_wf plan t s1" using s1(2) by (simp add: framed_def)
  obtain s2 where s2: "\<And>stk. mark_loop t (es @ stk) s1 = mark_loop t stk s2"
    "framed plan t (below_all plan (map fst es)) s1 s2"
    "\<forall>e \<in> set es. marked plan t (fst e) (snd e) s1 s2"
    using Cons.IH [OF _ _ _ wf1] Cons.prems(1-3) by (auto 4 3)
  have disj: "below plan p \<inter> below plan (fst f) = {}" if "f \<in> set es" for f
    using Cons.prems(2,3) that e by (metis distinct.simps(2) fst_conv image_eqI list.map(2) list.set_intros(1,2) list.set_map)
  then have d2: "below_all plan (map fst es) \<inter> below plan p = {}"
    by (auto simp: below_all_def)
  have "marked plan t p c s s2"
    by (rule marked_agree [OF agree_on_refl framed_agree [OF s2(2) d2] _ s1(3)])
      (use Cons.prems(1) e in auto)
  moreover have "marked plan t (fst f) (snd f) s s2" if f: "f \<in> set es" for f
    by (rule marked_agree [OF framed_agree [OF s1(2) disj [OF f]] agree_on_refl])
      (use Cons.prems(1) f s2(3) in auto)
  moreover have "framed plan t (below_all plan (map fst (e # es))) s s2"
    using framed_trans [OF s1(2) s2(2)] e by (simp add: below_all_def)
  ultimately show ?case
    using s1(1) s2(1) e by auto
qed

subsection \<open>One step\<close>

definition impossible_paths :: "cleanup_plan \<Rightarrow> u32 list \<Rightarrow> (u32 \<times> move_path_id) list \<Rightarrow> move_path_id set" where
  "impossible_paths plan possible vs = (\<Union>vc \<in> {vc \<in> set vs. fst vc \<notin> set possible}. below plan (snd vc))"

definition pushed :: "initialization_certainty \<Rightarrow> u32 list \<Rightarrow> (u32 \<times> move_path_id) list \<Rightarrow>
    (move_path_id \<times> initialization_certainty) list" where
  "pushed c possible vs = rev (map (\<lambda>vc. (snd vc, c)) (filter (\<lambda>vc. fst vc \<in> set possible) vs))"

lemma mark_variants_effect:
  assumes pt: "plan_topo plan t" and "state_wf plan t s" and "sorted possible"
    and "\<forall>vc \<in> set vs. snd vc < n_paths plan"
  shows "\<exists>s'. mark_variants c possible t vs s = Some (pushed c possible vs, s') \<and>
    effect plan t s s' (bits (may_init s) - impossible_paths plan possible vs)
      (bits (must_init s) - impossible_paths plan possible vs)
      (\<lambda>q. if q \<in> impossible_paths plan possible vs then ds_unset else disc_of t s q)"
proof -
  let ?f = "\<lambda>vc st. (case bsearch possible (fst vc) of
          Inr _ \<Rightarrow> Some ((snd vc, c) # fst st, snd st)
        | Inl _ \<Rightarrow> do {
            s \<leftarrow> clear_subtree_only (snd vc) t (snd st);
            Some (fst st, s) })"
  have "\<exists>s'. fold_opt ?f vs (acc, s) = Some (pushed c possible vs @ acc, s') \<and>
    effect plan t s s' (bits (may_init s) - impossible_paths plan possible vs)
      (bits (must_init s) - impossible_paths plan possible vs)
      (\<lambda>q. if q \<in> impossible_paths plan possible vs then ds_unset else disc_of t s q)" for acc
    using assms(2,4)
  proof (induction vs arbitrary: acc s)
    case Nil
    then show ?case using effect_refl [of plan t s] by (simp add: pushed_def impossible_paths_def)
  next
    case (Cons vc vs)
    show ?case
    proof (cases "fst vc \<in> set possible")
      case True
      then obtain i where "bsearch possible (fst vc) = Inr i"
        using bsearch_found [OF assms(3)] by blast
      then have "?f vc (acc, s) = Some ((snd vc, c) # acc, s)" by simp
      moreover have "impossible_paths plan possible (vc # vs) = impossible_paths plan possible vs"
        using True by (auto simp: impossible_paths_def)
      ultimately show ?thesis
        using Cons.IH [OF Cons.prems(1), of "(snd vc, c) # acc"] Cons.prems(2) True
        by (simp add: pushed_def)
    next
      case False
      then obtain i where i: "bsearch possible (fst vc) = Inl i"
        using bsearch_InrD [of possible "fst vc"] nth_mem by (metis sum.exhaust)
      obtain s1 where s1: "clear_subtree_only (snd vc) t s = Some s1"
        "effect plan t s s1 (bits (may_init s) - below plan (snd vc)) (bits (must_init s) - below plan (snd vc))
          (cleared_disc plan t (snd vc) s)"
        using clear_subtree_effect [OF pt Cons.prems(1)] Cons.prems(2) by auto
      obtain s2 where s2: "fold_opt ?f vs (acc, s1) = Some (pushed c possible vs @ acc, s2)"
        "effect plan t s1 s2 (bits (may_init s1) - impossible_paths plan possible vs)
          (bits (must_init s1) - impossible_paths plan possible vs)
          (\<lambda>q. if q \<in> impossible_paths plan possible vs then ds_unset else disc_of t s1 q)"
        using Cons.IH [OF effect_wf [OF s1(2)], of acc] Cons.prems(2) by auto
      have imp: "impossible_paths plan possible (vc # vs) =
          below plan (snd vc) \<union> impossible_paths plan possible vs"
        using False by (auto simp: impossible_paths_def)
      have "effect plan t s s2 (bits (may_init s) - impossible_paths plan possible (vc # vs))
          (bits (must_init s) - impossible_paths plan possible (vc # vs))
          (\<lambda>q. if q \<in> impossible_paths plan possible (vc # vs) then ds_unset else disc_of t s q)"
        using s1(2) s2(2) unfolding imp effect_def same_storage_def
        by (auto simp: cleared_disc_def)
      moreover have "fold_opt ?f (vc # vs) (acc, s) = Some (pushed c possible (vc # vs) @ acc, s2)"
        using i s1(1) s2(1) False by (simp add: pushed_def)
      ultimately show ?thesis by blast
    qed
  qed
  from this [of "[]"] show ?thesis by (simp add: mark_variants_def)
qed

lemma mark_discriminant_spec:
  assumes "ds_ok d"
  shows "ds_ok (mark_discriminant c vs d)"
    and "c = May \<Longrightarrow> may_be_unset (mark_discriminant c vs d) \<and>
      set (possible_variants (mark_discriminant c vs d)) = set vs \<union> set (possible_variants d)"
    and "c = Must \<Longrightarrow> \<not> may_be_unset (mark_discriminant c vs d) \<and>
      set (possible_variants (mark_discriminant c vs d)) =
        (if may_be_unset d then set vs else {}) \<union> set (possible_variants d)"
proof -
  have ok: "ds_ok (d\<lparr>may_be_unset := b\<rparr>)" for b using assms by (simp add: ds_ok_def)
  note all = ds_include_all [OF ok, of vs True] ds_include_all [OF assms, of vs]
  show "ds_ok (mark_discriminant c vs d)"
    using all assms by (cases c) (auto simp: mark_discriminant_def ds_ok_def)
  show "c = May \<Longrightarrow> may_be_unset (mark_discriminant c vs d) \<and>
      set (possible_variants (mark_discriminant c vs d)) = set vs \<union> set (possible_variants d)"
    using all by (simp add: mark_discriminant_def)
  show "c = Must \<Longrightarrow> \<not> may_be_unset (mark_discriminant c vs d) \<and>
      set (possible_variants (mark_discriminant c vs d)) =
        (if may_be_unset d then set vs else {}) \<union> set (possible_variants d)"
    using all by (simp add: mark_discriminant_def)
qed

lemma mark_self_effect:
  assumes "state_wf plan t s" "p < n_paths plan"
  shows "\<exists>s'. Option.bind (insert_may p s)
      (\<lambda>s. case c of Must \<Rightarrow> insert_must p s | May \<Rightarrow> remove_must p s) = Some s' \<and>
    effect plan t s s' (insert p (bits (may_init s)))
      (if c = Must then insert p (bits (must_init s)) else bits (must_init s) - {p}) (disc_of t s)"
proof -
  obtain s1 where s1: "insert_may p s = Some s1"
    "effect plan t s s1 (insert p (bits (may_init s))) (bits (must_init s)) (disc_of t s)"
    using insert_may_effect [OF assms] by blast
  show ?thesis
  proof (cases c)
    case May
    then show ?thesis
      using remove_must_effect [OF effect_wf [OF s1(2)] assms(2)] s1
      by (auto simp: effect_def same_storage_def)
  next
    case Must
    then show ?thesis
      using insert_must_effect [OF effect_wf [OF s1(2)] assms(2)] s1
      by (auto simp: effect_def same_storage_def)
  qed
qed

text \<open>A changed self and a changed set of subtrees of its own are inside the subtree.\<close>

lemma effect_framed:
  assumes "effect plan t s s' may must disc"
    and "\<And>d. d \<notin> A \<Longrightarrow> (d \<in> may \<longleftrightarrow> d \<in> bits (may_init s)) \<and> (d \<in> must \<longleftrightarrow> d \<in> bits (must_init s))"
    and "\<And>d. d < n_paths plan \<Longrightarrow> d \<notin> A \<Longrightarrow> disc d = disc_of t s d"
  shows "framed plan t A s s'"
  using assms by (auto simp: effect_def framed_def agree_on_def)

lemma sound_on_pointwise: "(\<And>d. d \<in> A \<Longrightarrow> sound_on plan t {d} s g) \<Longrightarrow> sound_on plan t A s g"
  unfolding sound_on_def by blast

lemma below_child_subset:
  "paths_wf plan \<Longrightarrow> q \<in> set (children_of plan p) \<Longrightarrow> below plan q \<subseteq> below plan p"
  using below_child(1) below_trans by blast

definition cleared_in :: "cleanup_plan \<Rightarrow> move_path_topology \<Rightarrow> move_path_id \<Rightarrow> move_state \<Rightarrow> bool" where
  "cleared_in plan t q s \<longleftrightarrow>
     (\<forall>d \<in> below plan q. d \<notin> bits (may_init s) \<and> d \<notin> bits (must_init s) \<and> disc_of t s d = ds_unset)"

text \<open>What one step leaves to its pushed entries \<open>es\<close> and to its own path.\<close>

definition step_ok ::
    "cleanup_plan \<Rightarrow> move_path_topology \<Rightarrow> move_path_id \<Rightarrow> initialization_certainty \<Rightarrow> move_state \<Rightarrow>
     (move_path_id \<times> initialization_certainty) list \<Rightarrow> move_state \<Rightarrow> bool" where
  "step_ok plan t p c s es s' \<longleftrightarrow>
     framed plan t (below plan p) s s' \<and>
     fst ` set es \<subseteq> set (children_of plan p) \<and> distinct (map fst es) \<and>
     p \<in> bits (may_init s') \<and> (p \<in> bits (must_init s') \<longleftrightarrow> c = Must) \<and>
     (\<forall>q \<in> set (children_of plan p). q \<notin> fst ` set es \<longrightarrow> cleared_in plan t q s') \<and>
     (\<forall>q \<in> fst ` set es. agree_on plan t (below plan q) s s') \<and>
     (\<forall>g. store_ok plan g \<longrightarrow> compatible plan t (below plan p) s g \<longrightarrow> (c = Must \<longrightarrow> whole plan g p) \<longrightarrow>
        (is_enum_rule (rule_at plan p) \<longrightarrow> disc_allows (disc_of t s' p) (sel g p)) \<and>
        (\<forall>e \<in> set es. snd e = Must \<longrightarrow> whole plan g (fst e)) \<and>
        (\<forall>q \<in> set (children_of plan p). q \<notin> fst ` set es \<longrightarrow> blank plan g q))"

lemma sound_on_blank:
  assumes wf: "paths_wf plan" and "cleared_in plan t q s" "blank plan g q"
  shows "sound_on plan t (below plan q) s g"
proof -
  have "\<not> whole plan g d" if "d \<in> below plan q" for d
    using whole_not_blank [OF wf _ that] assms(3) by blast
  then show ?thesis
    using assms(2,3) by (auto simp: sound_on_def cleared_in_def blank_def disc_allows_def ds_unset_def)
qed

lemma mark_step_combine:
  assumes pt: "plan_topo plan t" and p: "p < n_paths plan"
    and step: "mark_step t p c s = Some (es, s1)" and ok: "step_ok plan t p c s es s1"
    and children: "\<forall>q \<in> set (children_of plan p). entry_ok plan t q"
  shows "\<exists>s'. (\<forall>stk. mark_loop t ((p, c) # stk) s = mark_loop t stk s') \<and>
    framed plan t (below plan p) s s' \<and> marked plan t p c s s'"
proof -
  note wf = plan_topoD(1) [OF pt]
  have sub: "fst e \<in> set (children_of plan p)" if "e \<in> set es" for e
    using ok that by (auto simp: step_ok_def)
  have "state_wf plan t s1" using ok by (simp add: step_ok_def framed_def)
  then obtain s' where s': "\<And>stk. mark_loop t (es @ stk) s1 = mark_loop t stk s'"
    "framed plan t (below_all plan (map fst es)) s1 s'"
    "\<forall>e \<in> set es. marked plan t (fst e) (snd e) s1 s'"
  proof -
    have "\<forall>e \<in> set es. entry_ok plan t (fst e) \<and> fst e < n_paths plan"
      using children sub below_child(2) [OF wf] by blast
    moreover have "distinct (map fst es)" using ok by (simp add: step_ok_def)
    moreover have "below plan (fst e) \<inter> below plan (fst f) = {}"
      if "e \<in> set es" "f \<in> set es" "fst e \<noteq> fst f" for e f
      using below_children_disjoint [OF wf sub [OF that(1)] sub [OF that(2)]] that(3) by blast
    ultimately show ?thesis
      using entries_ok [of es plan t s1] that \<open>state_wf plan t s1\<close> by blast
  qed
  have inside: "below_all plan (map fst es) \<subseteq> below plan p"
    using below_child_subset [OF wf] sub by (fastforce simp: below_all_def)
  have self_out: "p \<notin> below_all plan (map fst es)"
    using sub parent_not_below_child [OF wf] by (auto simp: below_all_def)
  have self: "agree_on plan t {p} s1 s'"
    by (rule framed_agree [OF s'(2)]) (use self_out in auto)
  have other: "agree_on plan t (below plan q) s1 s'"
    if "q \<in> set (children_of plan p)" "q \<notin> fst ` set es" for q
  proof (rule framed_agree [OF s'(2)])
    have "below plan (fst e) \<inter> below plan q = {}" if e: "e \<in> set es" for e
      using below_children_disjoint [OF wf sub [OF e] \<open>q \<in> _\<close>] \<open>q \<notin> _\<close> e by blast
    then show "below_all plan (map fst es) \<inter> below plan q = {}"
      by (auto simp: below_all_def)
  qed
  have marked_s: "marked plan t (fst e) (snd e) s s'" if e: "e \<in> set es" for e
    by (rule marked_agree [OF _ agree_on_refl])
      (use ok e s'(3) sub [OF e] below_child(2) [OF wf] in \<open>auto simp: step_ok_def\<close>)
  have "marked plan t p c s s'"
    unfolding marked_def
  proof (intro conjI allI impI ballI)
    show "p \<in> bits (may_init s')" "c = Must \<Longrightarrow> p \<in> bits (must_init s')"
      using self ok by (auto simp: step_ok_def agree_on_def)
  next
    fix d assume d: "d \<in> below plan p" and must: "d \<in> bits (must_init s')"
    consider "d = p" | e where "e \<in> set es" "d \<in> below plan (fst e)"
      | q where "q \<in> set (children_of plan p)" "q \<notin> fst ` set es" "d \<in> below plan q"
      using below_cases [OF wf p d] by blast
    then show "d \<in> bits (may_init s')"
    proof cases
      case 1
      then show ?thesis using self ok by (simp add: step_ok_def agree_on_def)
    next
      case 2
      then show ?thesis using marked_s must by (auto simp: marked_def)
    next
      case 3
      then have "cleared_in plan t q s1" using ok by (auto simp: step_ok_def)
      then show ?thesis using other [OF 3(1,2)] 3(3) must by (auto simp: agree_on_def cleared_in_def)
    qed
  next
    fix g assume g: "store_ok plan g" "compatible plan t (below plan p) s g" "c = Must \<longrightarrow> whole plan g p"
    then have hyp: "is_enum_rule (rule_at plan p) \<longrightarrow> disc_allows (disc_of t s1 p) (sel g p)"
      "\<forall>e \<in> set es. snd e = Must \<longrightarrow> whole plan g (fst e)"
      "\<forall>q \<in> set (children_of plan p). q \<notin> fst ` set es \<longrightarrow> blank plan g q"
      using ok unfolding step_ok_def by blast+
    have "sound_on plan t {d} s' g" if d: "d \<in> below plan p" for d
    proof -
      consider "d = p" | e where "e \<in> set es" "d \<in> below plan (fst e)"
        | q where "q \<in> set (children_of plan p)" "q \<notin> fst ` set es" "d \<in> below plan q"
        using below_cases [OF wf p d] by blast
      then show ?thesis
      proof cases
        case 1
        then show ?thesis using self ok hyp(1) g(3) p
          by (auto simp: step_ok_def agree_on_def sound_on_def)
      next
        case 2
        have "compatible plan t (below plan (fst e)) s g"
          by (rule compatible_subset [OF g(2) below_child_subset [OF wf sub [OF 2(1)]]])
        then have "sound_on plan t (below plan (fst e)) s' g"
          using marked_s [OF 2(1)] g(1) hyp(2) 2(1) by (auto simp: marked_def)
        then show ?thesis by (rule sound_on_subset) (use 2 in auto)
      next
        case 3
        have "sound_on plan t (below plan q) s1 g"
          by (rule sound_on_blank [OF wf]) (use ok hyp(3) 3 in \<open>auto simp: step_ok_def\<close>)
        then have "sound_on plan t (below plan q) s' g"
          using sound_on_agree [OF other [OF 3(1,2)] below_lt] by simp
        then show ?thesis by (rule sound_on_subset) (use 3 in auto)
      qed
    qed
    then show "sound_on plan t (below plan p) s' g" by (rule sound_on_pointwise)
  qed
  moreover have "framed plan t (below plan p) s s'"
  proof -
    have "framed plan t (below plan p) s s1" using ok by (simp add: step_ok_def)
    from framed_mono [OF framed_trans [OF this s'(2)]] inside show ?thesis by blast
  qed
  moreover have "mark_loop t ((p, c) # stk) s = mark_loop t stk s'" for stk
    using step s'(1) by (simp add: mark_loop.simps [of t "(p, c) # stk"])
  ultimately show ?thesis by blast
qed

subsection \<open>The three kinds of path\<close>

lemma mark_step_after_self:
  assumes "Option.bind (insert_may p s)
      (\<lambda>s. case c of Must \<Rightarrow> insert_must p s | May \<Rightarrow> remove_must p s) = Some s1"
  shows "mark_step t p c s = do {
     rule \<leftarrow> nth_opt (completion t) p;
     (case rule of
        Explicit \<Rightarrow> Some ([], s1)
      | AllChildren \<Rightarrow> do {
          cs \<leftarrow> nth_opt (topo_children t) p;
          Some (rev (map (\<lambda>q. (q, c)) cs), s1) }
      | EnumRoot variants \<Rightarrow> do {
          di \<leftarrow> nth_opt (discriminant_index t) p;
          i \<leftarrow> di;
          d \<leftarrow> nth_opt (discriminants s1) i;
          let d' = mark_discriminant c (map fst variants) d;
          s \<leftarrow> set_discriminant_at i d' s1;
          mark_variants
            (if c = Must \<and> length (possible_variants d') = 1 then Must else May)
            (possible_variants d') t variants s }) }"
proof -
  obtain x where x: "insert_may p s = Some x"
    "(case c of Must \<Rightarrow> insert_must p x | May \<Rightarrow> remove_must p x) = Some s1"
    using assms by (auto simp: bind_Some_iff)
  show ?thesis unfolding mark_step_def x by (simp only: Option.bind.simps x)
qed

lemma step_ok_explicit:
  assumes pt: "plan_topo plan t" and p: "p < n_paths plan" and wf: "state_wf plan t s"
    and r: "rule_at plan p = Explicit"
  shows "\<exists>es s'. mark_step t p c s = Some (es, s') \<and> step_ok plan t p c s es s'"
proof -
  obtain s1 where s1: "Option.bind (insert_may p s)
      (\<lambda>s. case c of Must \<Rightarrow> insert_must p s | May \<Rightarrow> remove_must p s) = Some s1"
    "effect plan t s s1 (insert p (bits (may_init s)))
      (if c = Must then insert p (bits (must_init s)) else bits (must_init s) - {p}) (disc_of t s)"
    using mark_self_effect [OF wf p] by blast
  then have "mark_step t p c s = Some ([], s1)"
    using completion_nth [OF pt p] r p pt by (simp add: mark_step_after_self [OF s1(1)])
  moreover have "framed plan t (below plan p) s s1"
    by (rule effect_framed [OF s1(2)]) (use p in auto)
  moreover have "children_of plan p = []" using r rule_Explicit_iff by simp
  ultimately show ?thesis
    using s1(2) r by (auto simp: step_ok_def effect_def)
qed

lemma step_ok_parts:
  assumes pt: "plan_topo plan t" and p: "p < n_paths plan" and wf: "state_wf plan t s"
    and r: "rule_at plan p = AllChildren"
  shows "\<exists>es s'. mark_step t p c s = Some (es, s') \<and> step_ok plan t p c s es s'"
proof -
  note pwf = plan_topoD(1) [OF pt]
  let ?es = "rev (map (\<lambda>q. (q, c)) (children_of plan p))"
  obtain s1 where s1: "Option.bind (insert_may p s)
      (\<lambda>s. case c of Must \<Rightarrow> insert_must p s | May \<Rightarrow> remove_must p s) = Some s1"
    "effect plan t s s1 (insert p (bits (may_init s)))
      (if c = Must then insert p (bits (must_init s)) else bits (must_init s) - {p}) (disc_of t s)"
    using mark_self_effect [OF wf p] by blast
  then have step: "mark_step t p c s = Some (?es, s1)"
    using completion_nth [OF pt p] topo_children_nth [OF pt p] r p pt
    by (simp add: mark_step_after_self [OF s1(1)])
  have fr: "framed plan t (below plan p) s s1"
    by (rule effect_framed [OF s1(2)]) (use p in auto)
  have ag: "agree_on plan t (below plan q) s s1" if "q \<in> set (children_of plan p)" for q
  proof -
    have "framed plan t {p} s s1" by (rule effect_framed [OF s1(2)]) auto
    then show ?thesis
      by (rule framed_agree) (use parent_not_below_child [OF pwf that] in auto)
  qed
  have es: "fst ` set ?es = set (children_of plan p)" "distinct (map fst ?es)"
    by (auto simp: rev_map [symmetric] comp_def image_comp)
  have parts: "\<forall>q \<in> set (children_of plan p). whole plan g q" if "whole plan g p" for g
    using that r by (auto elim: whole.cases)
  have "step_ok plan t p c s ?es s1"
    unfolding step_ok_def es(1)
    using fr es(2) s1(2) ag parts r by (auto simp: effect_def)
  with step show ?thesis by blast
qed

lemma step_ok_enum:
  assumes pt: "plan_topo plan t" and p: "p < n_paths plan" and wf: "state_wf plan t s"
    and r: "rule_at plan p = EnumRoot vs"
  shows "\<exists>es s'. mark_step t p c s = Some (es, s') \<and> step_ok plan t p c s es s'"
proof -
  note pwf = plan_topoD(1) [OF pt]
  obtain s1 where s1: "Option.bind (insert_may p s)
      (\<lambda>s. case c of Must \<Rightarrow> insert_must p s | May \<Rightarrow> remove_must p s) = Some s1"
    "effect plan t s s1 (insert p (bits (may_init s)))
      (if c = Must then insert p (bits (must_init s)) else bits (must_init s) - {p}) (disc_of t s)"
    using mark_self_effect [OF wf p] by blast
  have child: "q \<in> set (children_of plan p)" if "(v, q) \<in> set vs" for v q
    using that rule_EnumRootD(1) [OF r] by blast
  obtain i where i: "discriminant_index t ! p = Some i"
    using discriminant_index_None_iff [OF pt p] r by fastforce
  define d where "d = mark_discriminant c (map fst vs) (disc_of t s p)"
  note okp = disc_of_ok [OF pt wf p]
  note dspec = mark_discriminant_spec [OF okp, of c "map fst vs", folded d_def]
  have lookup: "nth_opt (discriminants s1) i = Some (disc_of t s p)"
    using disc_lookup [OF pt effect_wf [OF s1(2)] p i] s1(2) p by (simp add: effect_def)
  obtain s2 where s2: "set_discriminant_at i d s1 = Some s2"
    "effect plan t s1 s2 (bits (may_init s1)) (bits (must_init s1)) ((disc_of t s1)(p := d))"
    using set_discriminant_at_effect [OF pt effect_wf [OF s1(2)] p i dspec(1)] by blast
  let ?poss = "possible_variants d"
  let ?cc = "if c = Must \<and> length ?poss = 1 then Must else May"
  let ?imp = "impossible_paths plan ?poss vs"
  let ?es = "pushed ?cc ?poss vs"
  have bound: "\<forall>vc \<in> set vs. snd vc < n_paths plan"
    using rule_EnumRootD(2) [OF r] below_child(2) [OF pwf] by blast
  obtain s3 where s3: "mark_variants ?cc ?poss t vs s2 = Some (?es, s3)"
    "effect plan t s2 s3 (bits (may_init s2) - ?imp) (bits (must_init s2) - ?imp)
      (\<lambda>q. if q \<in> ?imp then ds_unset else disc_of t s2 q)"
    using mark_variants_effect [OF pt effect_wf [OF s2(2)] _ bound] dspec(1) by (fastforce simp: ds_ok_def)
  have step: "mark_step t p c s = Some (?es, s3)"
    using completion_nth [OF pt p] r p pt i lookup s2(1) s3(1)
    by (simp add: mark_step_after_self [OF s1(1)] d_def [symmetric] Let_def)
  have imp_sub: "?imp \<subseteq> below plan p" "p \<notin> ?imp"
    unfolding impossible_paths_def
    using below_child_subset [OF pwf child] parent_not_below_child [OF pwf child]
    by (simp_all add: split_beta UN_subset_iff) (metis prod.collapse)+
  have total: "effect plan t s s3 (insert p (bits (may_init s)) - ?imp)
      ((if c = Must then insert p (bits (must_init s)) else bits (must_init s) - {p}) - ?imp)
      (\<lambda>q. if q \<in> ?imp then ds_unset else ((disc_of t s)(p := d)) q)"
    using s1(2) s2(2) s3(2) by (auto simp: effect_def same_storage_def)
  have fst_es: "fst ` set ?es = {q. \<exists>v. (v, q) \<in> set vs \<and> v \<in> set ?poss}"
    by (force simp: pushed_def)
  have snd_es: "snd e = ?cc" if "e \<in> set ?es" for e
    using that by (auto simp: pushed_def)
  have not_es: "below plan q \<subseteq> ?imp \<and> (\<exists>v. (v, q) \<in> set vs \<and> v \<notin> set ?poss)"
    if q: "q \<in> set (children_of plan p)" "q \<notin> fst ` set ?es" for q
  proof -
    obtain v where v: "(v, q) \<in> set vs" using rule_EnumRootD(2) [OF r] q(1) by force
    then have "v \<notin> set ?poss" using q(2) fst_es by auto
    with v show ?thesis by (force simp: impossible_paths_def)
  qed
  have es_out: "below plan q \<inter> ?imp = {}" if q: "q \<in> fst ` set ?es" for q
  proof -
    obtain v where v: "(v, q) \<in> set vs" "v \<in> set ?poss" using q fst_es by auto
    have "w \<in> set ?poss" if w: "(w, q') \<in> set vs" "x \<in> below plan q" "x \<in> below plan q'" for w q' x
    proof -
      have "q = q'" using below_children_disjoint [OF pwf child [OF v(1)] child [OF w(1)] w(2,3)] .
      then have "w = v" using v w(1) rule_EnumRootD(1) [OF r] by auto
      then show ?thesis using v by simp
    qed
    then show ?thesis by (auto simp: impossible_paths_def)
  qed
  have agree: "agree_on plan t (below plan q) s s3" if q: "q \<in> fst ` set ?es" for q
  proof -
    have "q \<in> set (children_of plan p)" using q fst_es child by auto
    then have "p \<notin> below plan q" by (rule parent_not_below_child [OF pwf])
    moreover have "framed plan t (insert p ?imp) s s3" by (rule effect_framed [OF total]) auto
    ultimately show ?thesis using framed_agree es_out [OF q] by (metis Int_commute Int_insert_left_if0)
  qed
  have store: "disc_allows d (sel g p) \<and> (\<forall>e \<in> set ?es. snd e = Must \<longrightarrow> whole plan g (fst e)) \<and>
      (\<forall>q \<in> set (children_of plan p). q \<notin> fst ` set ?es \<longrightarrow> blank plan g q)"
    if g: "store_ok plan g" "compatible plan t (below plan p) s g" "c = Must \<longrightarrow> whole plan g p" for g
  proof -
    have selvs: "v \<in> fst ` set vs" if "sel g p = Some v" for v
      using g(1) p r that unfolding store_ok_def by blast
    have comp: "may_be_unset (disc_of t s p) \<or> (\<exists>v \<in> set (possible_variants (disc_of t s p)). sel g p = Some v)"
      using g(2) r p by (auto simp: compatible_def)
    have chosen: "\<exists>v \<in> set ?poss. sel g p = Some v" if "c = Must"
    proof -
      have "whole plan g p" using g(3) that by simp
      then obtain v where "sel g p = Some v" by (rule whole.cases) (use r in auto)
      then show ?thesis using dspec(3) [OF that] comp selvs by auto
    qed
    have allows: "disc_allows d (sel g p)"
      using chosen dspec(2) selvs by (cases c) (auto simp: disc_allows_def split: option.splits)
    have must: "whole plan g (fst e)" if e: "e \<in> set ?es" "snd e = Must" for e
    proof -
      have cm: "c = Must" "length ?poss = 1" using snd_es [OF e(1)] e(2) by (auto split: if_splits)
      have "whole plan g p" using g(3) cm by simp
      then obtain v q where q: "sel g p = Some v" "(v, q) \<in> set vs" "whole plan g q"
        by (rule whole.cases) (use r in auto)
      obtain w where w: "(w, fst e) \<in> set vs" "w \<in> set ?poss" using fst_es e(1) by auto
      have "w = v" using chosen [OF cm(1)] q(1) w(2) cm(2) by (cases ?poss) auto
      then show ?thesis using rule_variants_distinct [OF pwf r q(2)] w(1) q(3) by auto
    qed
    have blank: "blank plan g q" if q: "q \<in> set (children_of plan p)" "q \<notin> fst ` set ?es" for q
    proof -
      obtain v where v: "(v, q) \<in> set vs" "v \<notin> set ?poss" using not_es [OF q] by blast
      have "sel g p \<noteq> Some v"
        using chosen dspec(2) selvs v by (cases c) auto
      then show ?thesis using g(1) p r v(1) unfolding store_ok_def by fastforce
    qed
    show ?thesis using allows must blank by blast
  qed
  have disc: "disc_of t s3 p = d" using total p imp_sub(2) by (simp add: effect_def)
  have cleared: "cleared_in plan t q s3" if "q \<in> set (children_of plan p)" "q \<notin> fst ` set ?es" for q
    unfolding cleared_in_def
  proof (intro ballI conjI)
    fix x assume "x \<in> below plan q"
    then have "x \<in> ?imp" "x < n_paths plan" using not_es [OF that] below_bound by auto
    then show "x \<notin> bits (may_init s3)" "x \<notin> bits (must_init s3)" "disc_of t s3 x = ds_unset"
      using total by (simp_all add: effect_def)
  qed
  have "step_ok plan t p c s ?es s3"
    unfolding step_ok_def
  proof (intro conjI)
    show "framed plan t (below plan p) s s3"
      by (rule effect_framed [OF total]) (use imp_sub p in auto)
    show "fst ` set ?es \<subseteq> set (children_of plan p)" using fst_es child by auto
    show "distinct (map fst ?es)"
      using rule_EnumRoot_distinct(2) [OF pwf r]
      by (simp add: pushed_def rev_map [symmetric] comp_def distinct_map inj_on_def)
    show "p \<in> bits (may_init s3)" "(p \<in> bits (must_init s3)) = (c = Must)"
      using total imp_sub(2) by (auto simp: effect_def)
    show "\<forall>q \<in> set (children_of plan p). q \<notin> fst ` set ?es \<longrightarrow> cleared_in plan t q s3"
      using cleared by blast
    show "\<forall>q \<in> fst ` set ?es. agree_on plan t (below plan q) s s3" using agree by blast
  qed (use store disc in blast)
  with step show ?thesis by blast
qed

lemma entry_ok_all:
  assumes pt: "plan_topo plan t"
  shows "p < n_paths plan \<Longrightarrow> entry_ok plan t p"
proof (induction p rule: wf_induct_rule [OF child_rel_wf(1) [OF plan_topoD(1) [OF pt]]])
  case (1 p)
  note wf = plan_topoD(1) [OF pt]
  have children: "\<forall>q \<in> set (children_of plan p). entry_ok plan t q"
    using 1(1) below_child(2) [OF wf] child_rel_plan [OF wf] by (simp add: set_children_of)
  show ?case
    unfolding entry_ok_def
  proof (intro allI impI)
    fix c s assume s: "state_wf plan t s"
    obtain es s1 where "mark_step t p c s = Some (es, s1)" "step_ok plan t p c s es s1"
      using step_ok_explicit [OF pt 1(2) s] step_ok_parts [OF pt 1(2) s] step_ok_enum [OF pt 1(2) s]
      by (cases "rule_at plan p") blast+
    then show "\<exists>s'. (\<forall>stk. mark_loop t ((p, c) # stk) s = mark_loop t stk s') \<and>
        framed plan t (below plan p) s s' \<and> marked plan t p c s s'"
      using mark_step_combine [OF pt 1(2) _ _ children] by blast
  qed
qed

theorem mark_whole_ok:
  assumes "plan_topo plan t" "p < n_paths plan" "state_wf plan t s"
  shows "\<exists>s'. mark_whole p c t s = Some s' \<and> framed plan t (below plan p) s s' \<and> marked plan t p c s s'"
proof -
  obtain s' where "\<And>stk. mark_loop t ((p, c) # stk) s = mark_loop t stk s'"
    "framed plan t (below plan p) s s'" "marked plan t p c s s'"
    using entry_ok_all [OF assms(1,2)] assms(3) unfolding entry_ok_def by blast
  then show ?thesis by (auto simp: mark_whole_def mark_loop.simps)
qed

end
