(* ===== verification/Cleanup_Recompose.thy ===== *)
theory Cleanup_Recompose
  imports Cleanup_Mark
begin

text \<open>
  The two walks to the root of \<open>compiler/src/cleanup.rs\<close>: \<open>recompose_ancestors\<close>, which makes
  the ancestors of a changed path describe their parts again, and \<open>inactive_downcast\<close>, which
  finds an enum on the way whose discriminant does not select the path.  Both return on a
  well-formed plan; recomposing is sound when every enum on the way is known.
\<close>

subsection \<open>One ancestor\<close>

lemma bits_contains [simp]: "bitset_contains b i \<longleftrightarrow> i \<in> bits b"
  by (simp add: bits_def)

definition all_bits :: "move_path_id list \<Rightarrow> bit_set \<Rightarrow> bool" where
  "all_bits cs b \<longleftrightarrow> set cs \<subseteq> bits b"

text \<open>What an ancestor becomes when its relevant parts are \<open>cs\<close>.\<close>

definition composed :: "move_path_id list option \<Rightarrow> move_path_id \<Rightarrow> move_state \<Rightarrow> nat set \<times> nat set" where
  "composed parts q s =
     (case parts of
        None \<Rightarrow> (bits (may_init s), bits (must_init s))
      | Some cs \<Rightarrow>
          (if all_bits cs (must_init s) \<or> all_bits cs (may_init s)
           then insert q (bits (may_init s)) else bits (may_init s) - {q},
           if all_bits cs (must_init s) then insert q (bits (must_init s)) else bits (must_init s) - {q}))"

definition parts_of ::
    "cleanup_plan \<Rightarrow> move_path_topology \<Rightarrow> move_state \<Rightarrow> move_path_id \<Rightarrow> move_path_id list option" where
  "parts_of plan t s q =
     (case rule_at plan q of
        Explicit \<Rightarrow> None
      | AllChildren \<Rightarrow> Some (children_of plan q)
      | EnumRoot vs \<Rightarrow> map_option (\<lambda>c. [c]) (active_child (Some (disc_of t s q)) vs))"

lemma recompose_all_children_effect:
  assumes "state_wf plan t s" "q < n_paths plan"
  shows "\<exists>s'. recompose_all_children cs q s = Some s' \<and>
    effect plan t s s' (fst (composed (Some cs) q s)) (snd (composed (Some cs) q s)) (disc_of t s)"
proof (cases "all_bits cs (must_init s)")
  case True
  then show ?thesis
    using insert_init_effect [OF assms] by (auto simp: recompose_all_children_def composed_def all_bits_def)
next
  case False
  then have not_all: "\<not> (\<forall>c \<in> set cs. bitset_contains (must_init s) c)" by (auto simp: all_bits_def)
  obtain s1 where s1: "remove_must q s = Some s1"
    "effect plan t s s1 (bits (may_init s)) (bits (must_init s) - {q}) (disc_of t s)"
    using remove_must_effect [OF assms] by blast
  note wf1 = effect_wf [OF s1(2)]
  have m: "bits (may_init s1) = bits (may_init s)" using s1(2) by (simp add: effect_def)
  show ?thesis
  proof (cases "all_bits cs (may_init s)")
    case may: True
    then have all: "\<forall>c \<in> set cs. bitset_contains (may_init s) c" by (auto simp: all_bits_def)
    obtain s2 where "insert_may q s1 = Some s2"
      "effect plan t s1 s2 (insert q (bits (may_init s1))) (bits (must_init s1)) (disc_of t s1)"
      using insert_may_effect [OF wf1 assms(2)] by blast
    then show ?thesis
      using s1 not_all all may False by (auto simp: recompose_all_children_def composed_def effect_def same_storage_def)
  next
    case may: False
    then have all: "\<not> (\<forall>c \<in> set cs. bitset_contains (may_init s) c)" by (auto simp: all_bits_def)
    obtain s2 where "remove_may q s1 = Some s2"
      "effect plan t s1 s2 (bits (may_init s1) - {q}) (bits (must_init s1)) (disc_of t s1)"
      using remove_may_effect [OF wf1 assms(2)] by blast
    then show ?thesis
      using s1 not_all all may False by (auto simp: recompose_all_children_def composed_def effect_def same_storage_def)
  qed
qed

lemma recompose_active_child_eq:
  "recompose_active_child (Some c) q s = recompose_all_children [c] q s"
  by (auto simp: recompose_active_child_def recompose_all_children_def remove_must_def
      intro!: Option.bind_cong split: bind_split)

lemma recompose_step_effect:
  assumes pt: "plan_topo plan t" and wf: "state_wf plan t s" and q: "q < n_paths plan"
  shows "\<exists>s'. recompose_step t q s = Some s' \<and>
    effect plan t s s' (fst (composed (parts_of plan t s q) q s)) (snd (composed (parts_of plan t s q) q s))
      (disc_of t s)"
proof (cases "rule_at plan q")
  case Explicit
  then show ?thesis
    using completion_nth [OF pt q] pt q effect_refl [OF wf]
    by (simp add: recompose_step_def parts_of_def composed_def)
next
  case AllChildren
  then show ?thesis
    using completion_nth [OF pt q] topo_children_nth [OF pt q] pt q
      recompose_all_children_effect [OF wf q, of "children_of plan q"]
    by (simp add: recompose_step_def parts_of_def)
next
  case (EnumRoot vs)
  obtain i where i: "discriminant_index t ! q = Some i"
    using discriminant_index_None_iff [OF pt q] EnumRoot by fastforce
  have step: "recompose_step t q s =
      recompose_active_child (active_child (Some (disc_of t s q)) vs) q s"
    using completion_nth [OF pt q] pt q EnumRoot i disc_lookup [OF pt wf q i]
    by (simp add: recompose_step_def)
  show ?thesis
  proof (cases "active_child (Some (disc_of t s q)) vs")
    case None
    then show ?thesis
      using step EnumRoot effect_refl [OF wf]
      by (simp add: recompose_active_child_def parts_of_def composed_def)
  next
    case (Some c)
    then show ?thesis
      using step EnumRoot recompose_all_children_effect [OF wf q, of "[c]"]
      by (simp add: recompose_active_child_eq parts_of_def)
  qed
qed

subsection \<open>Must implies may\<close>

definition consistent :: "move_state \<Rightarrow> bool" where
  "consistent s \<longleftrightarrow> bits (must_live s) \<subseteq> bits (may_live s) \<and> bits (must_init s) \<subseteq> bits (may_init s)"

lemma composed_consistent:
  assumes "bits (must_init s) \<subseteq> bits (may_init s)"
  shows "snd (composed parts q s) \<subseteq> fst (composed parts q s)"
  using assms by (auto simp: composed_def all_bits_def split: option.splits)

lemma recompose_loop_effect:
  assumes pt: "plan_topo plan t" and wf: "state_wf plan t s"
    and b: "\<forall>p. po = Some p \<longrightarrow> p < n_paths plan" and con: "bits (must_init s) \<subseteq> bits (may_init s)"
  shows "\<exists>s'. recompose_loop plan t po s = Some s' \<and> framed plan t (up plan po) s s' \<and>
    (\<forall>d < n_paths plan. disc_of t s' d = disc_of t s d) \<and> bits (must_init s') \<subseteq> bits (may_init s')"
  using plan_topoD(1) [OF pt] b wf con
proof (induction po arbitrary: s rule: parent_induct)
  case None
  then show ?case by (auto simp: recompose_loop.simps framed_def same_storage_def)
next
  case (Some p)
  obtain s1 where s1: "recompose_step t p s = Some s1"
    "effect plan t s s1 (fst (composed (parts_of plan t s p) p s)) (snd (composed (parts_of plan t s p) p s))
      (disc_of t s)"
    using recompose_step_effect [OF pt Some.prems(1) Some.hyps] by blast
  have con1: "bits (must_init s1) \<subseteq> bits (may_init s1)"
    using s1(2) composed_consistent [OF Some.prems(2)] by (simp add: effect_def)
  obtain s2 where s2: "recompose_loop plan t (path_parent (move_paths plan ! p)) s1 = Some s2"
    "framed plan t (up plan (path_parent (move_paths plan ! p))) s1 s2"
    "\<forall>d < n_paths plan. disc_of t s2 d = disc_of t s1 d" "bits (must_init s2) \<subseteq> bits (may_init s2)"
    using Some.IH [OF effect_wf [OF s1(2)] con1] by blast
  have "framed plan t {p} s s1"
    by (rule effect_framed [OF s1(2)]) (auto simp: composed_def split: option.splits)
  from framed_trans [OF this s2(2)] have "framed plan t (up plan (Some p)) s s2"
    using up_Some(1) [OF plan_topoD(1) [OF pt] Some.hyps] by simp
  moreover have "recompose_loop plan t (Some p) s = Some s2"
    using s1(1) s2(1) Some.hyps by (simp add: recompose_loop.simps [of plan t "Some p"] n_paths_def)
  ultimately show ?case using s2(3,4) s1(2) by (auto simp: effect_def)
qed

subsection \<open>Soundness\<close>

definition known_variant :: "discriminant_state \<Rightarrow> u32 \<Rightarrow> bool" where
  "known_variant d v \<longleftrightarrow> \<not> may_be_unset d \<and> possible_variants d = [v]"

lemma active_child_known:
  assumes wf: "paths_wf plan" and r: "rule_at plan q = EnumRoot vs"
    and d: "known_variant d v" and c: "(v, c) \<in> set vs"
  shows "active_child (Some d) vs = Some c"
proof -
  have "sorted (map fst vs)" using rule_EnumRootD(3) [OF r] .
  moreover have "v \<in> set (map fst vs)" using c by force
  ultimately obtain i where i: "bsearch (map fst vs) v = Inr i" using bsearch_found by blast
  have "i < length vs" "fst (vs ! i) = v" using bsearch_InrD [OF i] by auto
  then have "(v, snd (vs ! i)) \<in> set vs" by (metis nth_mem prod.collapse)
  then have "snd (vs ! i) = c" using rule_variants_distinct [OF wf r] c by blast
  with i d show ?thesis by (simp add: active_child_def known_variant_def)
qed

text \<open>The enums on the way from the root to \<open>po\<close> are known, and every path there has parts.\<close>

definition known_at :: "cleanup_plan \<Rightarrow> move_path_topology \<Rightarrow> move_state \<Rightarrow> move_path_id \<Rightarrow> bool" where
  "known_at plan t s q \<longleftrightarrow> rule_at plan q \<noteq> Explicit \<and>
     (\<forall>vs. rule_at plan q = EnumRoot vs \<longrightarrow> (\<exists>v \<in> fst ` set vs. known_variant (disc_of t s q) v))"

lemma sound_on_composed:
  assumes wf: "paths_wf plan" and k: "known_at plan t s q"
    and ch: "sound_on plan t (set (children_of plan q)) s g"
    and dq: "is_enum_rule (rule_at plan q) \<longrightarrow> disc_allows (disc_of t s q) (sel g q)"
  shows "(q \<in> snd (composed (parts_of plan t s q) q s) \<longrightarrow> whole plan g q) \<and>
    (whole plan g q \<longrightarrow> q \<in> fst (composed (parts_of plan t s q) q s))"
proof (cases "rule_at plan q")
  case Explicit
  then show ?thesis using k by (simp add: known_at_def)
next
  case AllChildren
  have "(\<forall>c \<in> set (children_of plan q). whole plan g c) \<longleftrightarrow> whole plan g q"
    using AllChildren by (auto simp: whole_iff [of plan g q])
  then show ?thesis
    using ch AllChildren by (auto simp: parts_of_def composed_def all_bits_def sound_on_def)
next
  case (EnumRoot vs)
  obtain v c where vc: "(v, c) \<in> set vs" "known_variant (disc_of t s q) v"
    using k EnumRoot by (auto simp: known_at_def)
  have parts: "parts_of plan t s q = Some [c]"
    using EnumRoot active_child_known [OF wf EnumRoot vc(2,1)] by (simp add: parts_of_def)
  have sel: "sel g q = Some v"
    using dq EnumRoot vc(2) by (auto simp: disc_allows_def known_variant_def split: option.splits)
  have "whole plan g q \<longleftrightarrow> whole plan g c"
    using EnumRoot sel vc(1) rule_variants_distinct [OF wf EnumRoot] by (auto simp: whole_iff [of plan g q])
  moreover have "c \<in> set (children_of plan q)" using rule_EnumRootD(1) [OF EnumRoot] vc(1) by blast
  ultimately show ?thesis
    using ch parts by (auto simp: composed_def all_bits_def sound_on_def)
qed

lemma children_not_up:
  assumes wf: "paths_wf plan" and c: "c \<in> set (children_of plan q)"
  shows "c \<notin> up plan (Some q)"
proof
  assume "c \<in> up plan (Some q)"
  then have "under plan c q" by (simp add: up_def)
  moreover have "q < n_paths plan" using c paths_wf_parent [OF wf, of c q] by (simp add: set_children_of n_paths_def)
  ultimately have "q \<in> below plan c" by (simp add: below_def)
  then show False using parent_not_below_child [OF wf c] by blast
qed

lemma known_at_agree: "disc_of t s' q = disc_of t s q \<Longrightarrow> known_at plan t s' q = known_at plan t s q"
  by (simp add: known_at_def)

lemma recompose_loop_sound:
  assumes pt: "plan_topo plan t" and wf: "state_wf plan t s"
    and b: "\<forall>p. po = Some p \<longrightarrow> p < n_paths plan"
    and k: "\<forall>q \<in> up plan po. known_at plan t s q"
    and off: "sound_on plan t (all_paths plan - up plan po) s g"
    and disc: "\<forall>q \<in> up plan po. is_enum_rule (rule_at plan q) \<longrightarrow> disc_allows (disc_of t s q) (sel g q)"
    and loop: "recompose_loop plan t po s = Some s'"
  shows "sound_on plan t (all_paths plan) s' g"
  using plan_topoD(1) [OF pt] b wf k off disc loop
proof (induction po arbitrary: s rule: parent_induct)
  case None
  then show ?case by (simp add: recompose_loop.simps up_def)
next
  case (Some p)
  note pwf = plan_topoD(1) [OF pt]
  let ?par = "path_parent (move_paths plan ! p)"
  note upP = up_Some [OF pwf Some.hyps]
  obtain s1 where s1: "recompose_step t p s = Some s1"
    "effect plan t s s1 (fst (composed (parts_of plan t s p) p s)) (snd (composed (parts_of plan t s p) p s))
      (disc_of t s)"
    using recompose_step_effect [OF pt Some.prems(1) Some.hyps] by blast
  have loop: "recompose_loop plan t ?par s1 = Some s'"
    using s1(1) Some.prems(5) Some.hyps by (simp add: recompose_loop.simps [of plan t "Some p"] n_paths_def)
  have d1: "disc_of t s1 q = disc_of t s q" if "q < n_paths plan" for q using s1(2) that by (simp add: effect_def)
  have self: "(p \<in> bits (must_init s1) \<longrightarrow> whole plan g p) \<and> (whole plan g p \<longrightarrow> p \<in> bits (may_init s1))"
  proof -
    have "sound_on plan t (set (children_of plan p)) s g"
      by (rule sound_on_subset [OF Some.prems(3)])
        (use children_not_up [OF pwf] below_child(2) [OF pwf] in \<open>auto simp: all_paths_def\<close>)
    moreover have "known_at plan t s p" using Some.prems(2) upP(1) by blast
    moreover have "is_enum_rule (rule_at plan p) \<longrightarrow> disc_allows (disc_of t s p) (sel g p)"
      using Some.prems(4) upP(1) by blast
    ultimately show ?thesis using sound_on_composed [OF pwf] s1(2) by (simp add: effect_def)
  qed
  have fr: "framed plan t {p} s s1"
    by (rule effect_framed [OF s1(2)]) (auto simp: composed_def split: option.splits)
  have off1: "sound_on plan t (all_paths plan - up plan ?par) s1 g"
  proof (rule sound_on_pointwise)
    fix d assume d: "d \<in> all_paths plan - up plan ?par"
    show "sound_on plan t {d} s1 g"
    proof (cases "d = p")
      case True
      then show ?thesis using self Some.prems(4) upP(1) d1 [OF Some.hyps] by (auto simp: sound_on_def)
    next
      case False
      then have "agree_on plan t {d} s s1" by (intro framed_agree [OF fr]) auto
      moreover have "sound_on plan t {d} s g"
        by (rule sound_on_subset [OF Some.prems(3)]) (use d False upP(1) in auto)
      ultimately show ?thesis using sound_on_agree [of plan t "{d}" s s1 g] d by (auto simp: all_paths_def)
    qed
  qed
  show ?case
  proof (rule Some.IH [OF effect_wf [OF s1(2)] _ off1 _ loop])
    show "\<forall>q \<in> up plan ?par. known_at plan t s1 q"
      using Some.prems(2) upP(1) known_at_agree [OF d1] up_bound by blast
    show "\<forall>q \<in> up plan ?par. is_enum_rule (rule_at plan q) \<longrightarrow> disc_allows (disc_of t s1 q) (sel g q)"
      using Some.prems(4) upP(1) d1 up_bound by auto
  qed
qed

subsection \<open>Inactive downcasts\<close>

text \<open>The parent of a downcast is an enum root; \<open>verify_move_paths\<close> rejects mixed children.\<close>

definition downcasts_wf :: "cleanup_plan \<Rightarrow> bool" where
  "downcasts_wf plan \<longleftrightarrow>
     (\<forall>p < n_paths plan. \<forall>v e. downcast_variant (move_paths plan ! p) = Some v \<longrightarrow>
        path_parent (move_paths plan ! p) = Some e \<longrightarrow> is_enum_rule (rule_at plan e))"

definition selects :: "cleanup_plan \<Rightarrow> move_path_topology \<Rightarrow> move_state \<Rightarrow> move_path_id \<Rightarrow> bool" where
  "selects plan t s a \<longleftrightarrow>
     (\<forall>v e. downcast_variant (move_paths plan ! a) = Some v \<longrightarrow>
        path_parent (move_paths plan ! a) = Some e \<longrightarrow> known_variant (disc_of t s e) v)"

lemma inactive_step_value:
  assumes pt: "plan_topo plan t" and wf: "state_wf plan t s" and dw: "downcasts_wf plan"
    and p: "p < n_paths plan"
  shows "\<exists>r. inactive_step s t (move_paths plan ! p) = Some r \<and> (r = None \<longleftrightarrow> selects plan t s p)"
proof (cases "\<exists>v e. downcast_variant (move_paths plan ! p) = Some v \<and> path_parent (move_paths plan ! p) = Some e")
  case True
  then obtain v e where ve: "downcast_variant (move_paths plan ! p) = Some v"
    "path_parent (move_paths plan ! p) = Some e" by blast
  have e: "e < n_paths plan" using parent_bound [OF plan_topoD(1) [OF pt] p ve(2)] .
  have "is_enum_rule (rule_at plan e)" using dw p ve by (simp add: downcasts_wf_def)
  then obtain i where i: "discriminant_index t ! e = Some i"
    using discriminant_index_None_iff [OF pt e] by fastforce
  show ?thesis
    using ve i e pt disc_lookup [OF pt wf e i]
    by (auto simp: inactive_step_def selects_def known_variant_def)
next
  case False
  then show ?thesis
    by (auto simp: inactive_step_def selects_def split: option.splits)
qed

lemma inactive_loop_value:
  assumes pt: "plan_topo plan t" and wf: "state_wf plan t s" and dw: "downcasts_wf plan"
    and b: "\<forall>p. po = Some p \<longrightarrow> p < n_paths plan"
  shows "\<exists>r. inactive_loop plan t po s = Some r \<and> (r = None \<longleftrightarrow> (\<forall>a \<in> up plan po. selects plan t s a))"
  using plan_topoD(1) [OF pt] b
proof (induction po rule: parent_induct)
  case None
  then show ?case by (simp add: inactive_loop.simps up_def)
next
  case (Some p)
  obtain r where r: "inactive_step s t (move_paths plan ! p) = Some r" "r = None \<longleftrightarrow> selects plan t s p"
    using inactive_step_value [OF pt wf dw Some.hyps] by blast
  show ?case
  proof (cases r)
    case None
    then have "inactive_loop plan t (Some p) s = inactive_loop plan t (path_parent (move_paths plan ! p)) s"
      using r(1) Some.hyps by (simp add: inactive_loop.simps [of plan t "Some p"] n_paths_def)
    then show ?thesis
      using Some.IH r(2) None up_Some(1) [OF plan_topoD(1) [OF pt] Some.hyps] by simp
  next
    case (Some x)
    then have "inactive_loop plan t (Some p) s = Some (Some x)"
      using r(1) \<open>p < n_paths plan\<close> by (cases x) (simp add: inactive_loop.simps [of plan t "Some p"] n_paths_def)
    then show ?thesis
      using r(2) Some up_Some(1) [OF plan_topoD(1) [OF pt] \<open>p < n_paths plan\<close>] by (cases x) auto
  qed
qed

definition downcasts_known :: "cleanup_plan \<Rightarrow> move_path_topology \<Rightarrow> move_state \<Rightarrow> move_path_id \<Rightarrow> bool" where
  "downcasts_known plan t s p \<longleftrightarrow> (\<forall>a \<in> up plan (Some p). selects plan t s a)"

lemma inactive_downcast_value:
  assumes "plan_topo plan t" "state_wf plan t s" "downcasts_wf plan" "p < n_paths plan"
  shows "\<exists>r. inactive_downcast s p plan t = Some r \<and> (r = None \<longleftrightarrow> downcasts_known plan t s p)"
  using inactive_loop_value [OF assms(1-3), of "Some p"] assms(4)
  by (simp add: inactive_downcast_def downcasts_known_def)

lemma up_has_child:
  assumes wf: "paths_wf plan" and p: "p < n_paths plan" and q: "q \<in> up plan (Some p)" "q \<noteq> p"
  shows "\<exists>a \<in> up plan (Some p). path_parent (move_paths plan ! a) = Some q"
proof -
  have "\<forall>p. po = Some p \<longrightarrow> (\<forall>q \<in> up plan (Some p). q \<noteq> p \<longrightarrow>
      (\<exists>a \<in> up plan (Some p). path_parent (move_paths plan ! a) = Some q))"
    if b: "\<forall>p. po = Some p \<longrightarrow> p < n_paths plan" for po
    using wf b
  proof (induction po rule: parent_induct)
    case None
    show ?case by simp
  next
    case (Some p)
    note upP = up_Some(1) [OF wf Some.hyps]
    have "\<exists>a \<in> up plan (Some p). path_parent (move_paths plan ! a) = Some q"
      if q: "q \<in> up plan (Some p)" "q \<noteq> p" for q
    proof -
      obtain r where r: "path_parent (move_paths plan ! p) = Some r" "q \<in> up plan (Some r)"
        using q upP by (cases "path_parent (move_paths plan ! p)") (auto simp: up_def)
      show ?thesis
      proof (cases "q = r")
        case True
        have "p \<in> up plan (Some p)" using upP by simp
        then show ?thesis using r(1) True by (intro bexI [of _ p]) simp_all
      next
        case False
        obtain a where a: "a \<in> up plan (Some r)" "path_parent (move_paths plan ! a) = Some q"
          using Some.IH r False by auto
        have "a \<in> up plan (Some p)" using upP r(1) a(1) by simp
        then show ?thesis using a(2) by (intro bexI [of _ a])
      qed
    qed
    then show ?case by simp
  qed
  from this [of "Some p"] show ?thesis using assms by simp
qed

lemma downcasts_known_at:
  assumes wf: "paths_wf plan" and p: "p < n_paths plan" and k: "downcasts_known plan t s p"
    and q: "q \<in> up plan (path_parent (move_paths plan ! p))"
  shows "known_at plan t s q"
proof -
  have "q \<in> up plan (Some p)" "q \<noteq> p" using up_Some [OF wf p] q by auto
  then obtain a where a: "a \<in> up plan (Some p)" "path_parent (move_paths plan ! a) = Some q"
    using up_has_child [OF wf p] by blast
  have child: "a \<in> set (children_of plan q)"
    using a up_bound [OF a(1)] by (simp add: set_children_of n_paths_def)
  have "\<exists>v \<in> fst ` set vs. known_variant (disc_of t s q) v" if r: "rule_at plan q = EnumRoot vs" for vs
  proof -
    obtain v where "(v, a) \<in> set vs" using rule_EnumRootD(2) [OF r] child by force
    moreover then have "downcast_variant (move_paths plan ! a) = Some v"
      using rule_EnumRootD(1) [OF r] by blast
    ultimately show ?thesis using k a by (force simp: downcasts_known_def selects_def)
  qed
  moreover have "rule_at plan q \<noteq> Explicit" using child rule_Explicit_iff by auto
  ultimately show ?thesis by (simp add: known_at_def)
qed

end
