(* ===== verification/Cleanup_Soundness.thy ===== *)
theory Cleanup_Soundness
  imports Cleanup_Recompose
begin

text \<open>
  Every operation of \<open>MoveState\<close> returns on a well-formed plan, keeps "must implies may", and
  is sound: from a state that describes the store before an operation it computes one that
  describes the store after it.  The execution of an operation on a store is \<open>exec_op\<close>, the
  conditions under which executing it is meaningful are \<open>op_safe\<close>.
\<close>

subsection \<open>Executing operations\<close>

definition blank_out :: "cleanup_plan \<Rightarrow> move_path_id set \<Rightarrow> store \<Rightarrow> store" where
  "blank_out plan A g = g\<lparr>leaf := leaf g - A, sel := (\<lambda>q. if q \<in> A then None else sel g q)\<rparr>"

text \<open>
  \<open>fills plan p g g'\<close>: from \<open>g\<close> to \<open>g'\<close> path \<open>p\<close> becomes whole; a variant already selected inside
  \<open>p\<close> stays selected, one not yet selected may become any, and nothing outside \<open>p\<close> changes.
\<close>

definition fills :: "cleanup_plan \<Rightarrow> move_path_id \<Rightarrow> store \<Rightarrow> store \<Rightarrow> bool" where
  "fills plan p g g' \<longleftrightarrow>
     store_ok plan g' \<and> whole plan g' p \<and> live g' = live g \<and>
     (\<forall>d. d \<notin> below plan p \<longrightarrow> (d \<in> leaf g' \<longleftrightarrow> d \<in> leaf g) \<and> sel g' d = sel g d) \<and>
     (\<forall>d \<in> below plan p. \<forall>v. sel g d = Some v \<longrightarrow> sel g' d = Some v)"

inductive exec_op :: "cleanup_plan \<Rightarrow> cleanup_op \<Rightarrow> store \<Rightarrow> store \<Rightarrow> bool" for plan where
  storage_live: "exec_op plan (StorageLive l) g
     ((blank_out plan (local_paths plan l) g)\<lparr>live := insert l (live g)\<rparr>)"
| storage_dead: "exec_op plan (StorageDead l) g
     ((blank_out plan (local_paths plan l) g)\<lparr>live := live g - {l}\<rparr>)"
| init: "fills plan p g g' \<Longrightarrow> exec_op plan (Init p) g g'"
| overwrite: "fills plan p (blank_out plan (below plan p) g) g' \<Longrightarrow> exec_op plan (Overwrite p) g g'"
| move_out: "exec_op plan (MoveOut p) g (blank_out plan (below plan p) g)"
| transfer: "fills plan d (blank_out plan (below plan s \<union> below plan d) g) g' \<Longrightarrow>
     (is_enum_rule (rule_at plan s) \<and> is_enum_rule (rule_at plan d) \<longrightarrow> sel g' d = sel g s) \<Longrightarrow>
     exec_op plan (Transfer s d k) g g'"
| set_discriminant: "exec_op plan (SetDiscriminant p v) g
     (let g' = blank_out plan (below plan p) g in g'\<lparr>sel := (sel g')(p := Some v)\<rparr>)"
| assume_discriminant: "sel g p = Some v \<Longrightarrow> exec_op plan (AssumeDiscriminant p v) g g"

inductive_cases exec_StorageLiveE: "exec_op plan (StorageLive l) g g'"
inductive_cases exec_StorageDeadE: "exec_op plan (StorageDead l) g g'"
inductive_cases exec_InitE: "exec_op plan (Init p) g g'"
inductive_cases exec_OverwriteE: "exec_op plan (Overwrite p) g g'"
inductive_cases exec_MoveOutE: "exec_op plan (MoveOut p) g g'"
inductive_cases exec_TransferE: "exec_op plan (Transfer s d k) g g'"
inductive_cases exec_SetDiscriminantE: "exec_op plan (SetDiscriminant p v) g g'"
inductive_cases exec_AssumeDiscriminantE: "exec_op plan (AssumeDiscriminant p v) g g'"

text \<open>Every enum on the way to a path has the variant that the path goes through.\<close>

definition active :: "cleanup_plan \<Rightarrow> store \<Rightarrow> move_path_id \<Rightarrow> bool" where
  "active plan g p \<longleftrightarrow>
     (\<forall>a \<in> up plan (Some p). \<forall>v e. downcast_variant (move_paths plan ! a) = Some v \<longrightarrow>
        path_parent (move_paths plan ! a) = Some e \<longrightarrow> sel g e = Some v)"

definition has_storage :: "cleanup_plan \<Rightarrow> store \<Rightarrow> move_path_id \<Rightarrow> bool" where
  "has_storage plan g p \<longleftrightarrow> place_local (path_place (move_paths plan ! p)) \<in> live g"

fun op_safe :: "cleanup_plan \<Rightarrow> store \<Rightarrow> cleanup_op \<Rightarrow> bool" where
  "op_safe plan g (StorageLive l) \<longleftrightarrow> l \<notin> live g"
| "op_safe plan g (StorageDead l) \<longleftrightarrow> True"
| "op_safe plan g (Init p) \<longleftrightarrow> has_storage plan g p \<and> active plan g p"
| "op_safe plan g (MoveOut p) \<longleftrightarrow> has_storage plan g p \<and> active plan g p \<and> whole plan g p"
| "op_safe plan g (Overwrite p) \<longleftrightarrow> has_storage plan g p \<and> active plan g p \<and> whole plan g p"
| "op_safe plan g (Transfer s d k) \<longleftrightarrow>
     has_storage plan g s \<and> has_storage plan g d \<and> active plan g s \<and> active plan g d \<and>
     whole plan g s \<and> (k = Initialize \<longrightarrow> blank plan g d) \<and> (k = OverwriteTarget \<longrightarrow> whole plan g d)"
| "op_safe plan g (SetDiscriminant p v) \<longleftrightarrow> has_storage plan g p \<and> active plan g p \<and> blank plan g p"
| "op_safe plan g (AssumeDiscriminant p v) \<longleftrightarrow> has_storage plan g p \<and> whole plan g p"

subsection \<open>Stores that differ in one place\<close>

lemma whole_cong:
  assumes wf: "paths_wf plan"
    and ag: "\<And>x. x \<in> below plan d \<Longrightarrow> (x \<in> leaf g' \<longleftrightarrow> x \<in> leaf g) \<and> sel g' x = sel g x"
    and d: "d < n_paths plan"
  shows "whole plan g d \<Longrightarrow> whole plan g' d"
proof -
  have "whole plan g x \<Longrightarrow> x \<in> below plan d \<Longrightarrow> whole plan g' x" for x
  proof (induction rule: whole.induct)
    case (leaf x)
    then show ?case using ag whole.leaf by blast
  next
    case (parts x)
    then show ?case
      using whole.parts below_child(1) [OF wf] below_trans by (metis (no_types, lifting))
  next
    case (variant x vs v c)
    have "c \<in> set (children_of plan x)" using rule_EnumRootD(1) [OF variant.hyps(1)] variant.hyps(3) by blast
    then have "c \<in> below plan d" using below_child(1) [OF wf] below_trans variant.prems by blast
    then show ?case using whole.variant variant ag by metis
  qed
  with d show "whole plan g d \<Longrightarrow> whole plan g' d" by simp
qed

lemma below_disjoint:
  assumes "p < n_paths plan" "d < n_paths plan" "d \<notin> below plan p" "d \<notin> above plan p"
  shows "below plan d \<inter> below plan p = {}"
proof (rule ccontr)
  assume "below plan d \<inter> below plan p \<noteq> {}"
  then obtain x where x: "under plan d x" "under plan p x" by (auto simp: below_def)
  then have "under plan d p \<or> under plan p d"
    unfolding under_def using prefix_same_cases by metis
  with assms show False by (auto simp: below_def above_def)
qed

lemma whole_same_off:
  assumes wf: "paths_wf plan" and p: "p < n_paths plan" and d: "d < n_paths plan"
    and out: "d \<notin> below plan p" "d \<notin> above plan p"
    and ag: "\<And>x. x \<notin> below plan p \<Longrightarrow> (x \<in> leaf g' \<longleftrightarrow> x \<in> leaf g) \<and> sel g' x = sel g x"
  shows "whole plan g' d \<longleftrightarrow> whole plan g d"
proof -
  have "(x \<in> leaf g' \<longleftrightarrow> x \<in> leaf g) \<and> sel g' x = sel g x" if "x \<in> below plan d" for x
    using below_disjoint [OF p d out] that ag by blast
  then show ?thesis using whole_cong [OF wf _ d] by metis
qed

text \<open>An active part of a whole value is whole.\<close>

lemma up_parent: "up plan (Some q) = {a. a < n_paths plan \<and> under plan a q}"
  by (simp add: up_def)

lemma active_parent:
  assumes wf: "paths_wf plan" and p: "p < n_paths plan"
    and q: "path_parent (move_paths plan ! p) = Some q" and "active plan g p"
  shows "active plan g q"
  using assms(4) up_Some(1) [OF wf p] q by (simp add: active_def)

lemma parent_child:
  assumes wf: "paths_wf plan" and p: "p < n_paths plan"
    and q: "path_parent (move_paths plan ! p) = Some q"
  shows "p \<in> set (children_of plan q)"
  using p q by (simp add: set_children_of n_paths_def)

lemma whole_child:
  assumes wf: "paths_wf plan" and p: "p < n_paths plan"
    and q: "path_parent (move_paths plan ! p) = Some q" and "active plan g p" and "whole plan g q"
  shows "whole plan g p"
  using \<open>whole plan g q\<close>
proof cases
  case leaf
  then show ?thesis using parent_child [OF wf p q] by (auto simp: rule_Explicit_iff)
next
  case parts
  then show ?thesis using parent_child [OF wf p q] by blast
next
  case (variant vs v c)
  have "p \<in> snd ` set vs" using parent_child [OF wf p q] rule_EnumRootD(2) [OF variant(1)] by simp
  then obtain w where w: "(w, p) \<in> set vs" by auto
  then have d: "downcast_variant (move_paths plan ! p) = Some w"
    using rule_EnumRootD(1) [OF variant(1)] by auto
  have "p \<in> up plan (Some p)" using up_Some(1) [OF wf p] by simp
  then have "sel g q = Some w" using \<open>active plan g p\<close> d q by (auto simp: active_def)
  then have "p = c" using rule_variants_distinct [OF wf variant(1) w] variant by simp
  then show ?thesis using variant by simp
qed

lemma whole_part:
  assumes wf: "paths_wf plan" and p: "p < n_paths plan" and a: "under plan a p" "a < n_paths plan"
    and wa: "whole plan g a" and act: "active plan g p"
  shows "whole plan g p"
proof -
  have "\<forall>q. po = Some q \<longrightarrow> under plan a q \<longrightarrow> active plan g q \<longrightarrow> whole plan g q"
    if b: "\<forall>q. po = Some q \<longrightarrow> q < n_paths plan" for po
    using wf b
  proof (induction po rule: parent_induct)
    case None
    show ?case by simp
  next
    case (Some p)
    have "whole plan g p" if u: "under plan a p" and act: "active plan g p"
    proof (cases "a = p")
      case True
      then show ?thesis using wa by simp
    next
      case False
      then have "a \<in> up plan (path_parent (move_paths plan ! p))"
        using up_Some(1) [OF wf Some.hyps] u a(2) by (auto simp: up_parent)
      then obtain q where q: "path_parent (move_paths plan ! p) = Some q" "under plan a q"
        by (auto simp: up_def split: option.splits)
      have "whole plan g q" using Some.IH q active_parent [OF wf Some.hyps q(1) act] by simp
      then show ?thesis by (rule whole_child [OF wf Some.hyps q(1) act])
    qed
    then show ?case by simp
  qed
  from this [of "Some p"] show ?thesis using assms by simp
qed

subsection \<open>Emptying a part of the store\<close>

definition down_closed :: "cleanup_plan \<Rightarrow> move_path_id set \<Rightarrow> bool" where
  "down_closed plan A \<longleftrightarrow> (\<forall>q \<in> A. below plan q \<subseteq> A)"

lemma down_closed_below: "down_closed plan (below plan p)"
  by (auto simp: down_closed_def intro: below_trans)

lemma down_closed_Un: "down_closed plan A \<Longrightarrow> down_closed plan B \<Longrightarrow> down_closed plan (A \<union> B)"
  by (auto simp: down_closed_def)

lemma down_closed_local: "down_closed plan (local_paths plan l)"
  by (auto simp: down_closed_def local_paths_def below_def under_def)

lemma up_closed_local: "d \<notin> local_paths plan l \<Longrightarrow> d < n_paths plan \<Longrightarrow> below plan d \<inter> local_paths plan l = {}"
  by (auto simp: local_paths_def below_def under_def)

lemma blank_out_simps [simp]:
  "live (blank_out plan A g) = live g" "leaf (blank_out plan A g) = leaf g - A"
  "sel (blank_out plan A g) q = (if q \<in> A then None else sel g q)"
  by (simp_all add: blank_out_def)

lemma blank_out_blank: "below plan p \<subseteq> A \<Longrightarrow> blank plan (blank_out plan A g) p"
  by (auto simp: blank_def)

lemma blank_mono: "blank plan g p \<Longrightarrow> blank plan (blank_out plan A g) p"
  by (auto simp: blank_def)

lemma store_ok_blank_out:
  assumes wf: "paths_wf plan" and dc: "down_closed plan A" and ok: "store_ok plan g"
  shows "store_ok plan (blank_out plan A g)"
proof -
  have "blank plan (blank_out plan A g) c"
    if r: "rule_at plan e = EnumRoot vs" "e < n_paths plan" and wc: "(w, c) \<in> set vs"
      and ne: "sel (blank_out plan A g) e \<noteq> Some w" for e vs w c
  proof (cases "e \<in> A")
    case True
    have "c \<in> set (children_of plan e)" using rule_EnumRootD(1) [OF r(1)] wc by blast
    then have "below plan c \<subseteq> A"
      using below_child_subset [OF wf] dc True unfolding down_closed_def by blast
    then show ?thesis by (rule blank_out_blank)
  next
    case False
    then have "blank plan g c" using ok r wc ne by (fastforce simp: store_ok_def)
    then show ?thesis by (rule blank_mono)
  qed
  then show ?thesis
    using ok by (auto simp: store_ok_def split: if_splits)
qed

lemma store_ok_live [simp]: "store_ok plan (g\<lparr>live := l\<rparr>) = store_ok plan g"
  by (simp add: store_ok_def blank_def)

lemma whole_live: "whole plan (g\<lparr>live := l\<rparr>) d = whole plan g d"
proof -
  have "whole plan g d \<Longrightarrow> whole plan g' d" if "leaf g' = leaf g" "sel g' = sel g" for g g'
    by (induction rule: whole.induct) (auto intro: whole.intros simp: that)
  from this [of g "g\<lparr>live := l\<rparr>"] this [of "g\<lparr>live := l\<rparr>" g] show ?thesis by auto
qed

lemma sound_on_live [simp]: "sound_on plan t A s (g\<lparr>live := l\<rparr>) = sound_on plan t A s g"
  by (simp add: sound_on_def whole_live)

text \<open>Outside a set that contains every path it overlaps, a path is as whole as before.\<close>

lemma whole_outside:
  assumes wf: "paths_wf plan" and d: "d < n_paths plan" and disj: "below plan d \<inter> A = {}"
    and ag: "\<And>x. x \<notin> A \<Longrightarrow> (x \<in> leaf g' \<longleftrightarrow> x \<in> leaf g) \<and> sel g' x = sel g x"
  shows "whole plan g' d \<longleftrightarrow> whole plan g d"
proof -
  have "(x \<in> leaf g' \<longleftrightarrow> x \<in> leaf g) \<and> sel g' x = sel g x" if "x \<in> below plan d" for x
    using disj that ag by blast
  then show ?thesis using whole_cong [OF wf _ d] by metis
qed

text \<open>
  The state after clearing a path describes the store after emptying it; the path must be
  active, or emptying it could leave an ancestor whole that the state no longer calls whole.
\<close>

lemma active_cong:
  assumes wf: "paths_wf plan" and p: "p < n_paths plan"
    and ag: "\<And>x. x \<notin> below plan p \<Longrightarrow> sel g' x = sel g x"
  shows "active plan g' p \<longleftrightarrow> active plan g p"
proof -
  have "e \<notin> below plan p"
    if a: "a \<in> up plan (Some p)" "path_parent (move_paths plan ! a) = Some e" for a e
  proof
    assume e: "e \<in> below plan p"
    have "a < n_paths plan" "under plan a p" using a(1) by (auto simp: up_def)
    then have "e \<in> below plan a" using e below_trans by (auto simp: below_def intro: under_trans)
    moreover have "a \<in> set (children_of plan e)"
      using a \<open>a < n_paths plan\<close> by (simp add: set_children_of n_paths_def)
    ultimately show False using parent_not_below_child [OF wf] by blast
  qed
  then have "sel g' e = sel g e"
    if "a \<in> up plan (Some p)" "path_parent (move_paths plan ! a) = Some e" for a e
    using ag that by blast
  then show ?thesis unfolding active_def by (metis (no_types, lifting))
qed

lemma above_not_whole:
  assumes wf: "paths_wf plan" and p: "p < n_paths plan" and "active plan g p"
    and "\<not> whole plan g p" and "a \<in> above plan p"
  shows "\<not> whole plan g a"
  using assms whole_part [OF wf p, of a g] by (auto simp: above_def)

lemma clear_path_sound:
  assumes pt: "plan_topo plan t" and wf: "state_wf plan t s" and p: "p < n_paths plan"
    and so: "sound plan t s g" and act: "active plan g p"
    and eff: "effect plan t s s' (bits (may_init s) - below plan p - above plan p)
      (bits (must_init s) - below plan p - above plan p) (cleared_disc plan t p s)"
  shows "sound plan t s' (blank_out plan (below plan p) g)"
proof -
  note pwf = plan_topoD(1) [OF pt]
  let ?g = "blank_out plan (below plan p) g"
  have act': "active plan ?g p" using act active_cong [OF pwf p, of ?g g] by simp
  have blank: "blank plan ?g p" by (rule blank_out_blank) simp
  have notp: "\<not> whole plan ?g d" if "d \<in> below plan p" for d
    using whole_not_blank [OF pwf _ that] blank by blast
  have "sound_on plan t {d} s' ?g" if d: "d \<in> all_paths plan" for d
  proof -
    have dn: "d < n_paths plan" using d by (simp add: all_paths_def)
    have at: "sound_on plan t {d} s g"
      using so d by (auto simp: sound_def intro: sound_on_subset)
    have disc: "disc_of t s' d = cleared_disc plan t p s d" using eff dn by (simp add: effect_def)
    consider "d \<in> below plan p" | "d \<in> above plan p" "d \<notin> below plan p" | "d \<notin> below plan p" "d \<notin> above plan p"
      by blast
    then show ?thesis
    proof cases
      case 1
      then show ?thesis
        using eff notp disc by (auto simp: sound_on_def effect_def cleared_disc_def disc_allows_def ds_unset_def)
    next
      case 2
      have "\<not> whole plan ?g d" using above_not_whole [OF pwf p act' notp 2(1)] p by simp
      then show ?thesis
        using eff disc 2 at by (auto simp: sound_on_def effect_def cleared_disc_def)
    next
      case 3
      have "whole plan ?g d \<longleftrightarrow> whole plan g d"
        by (rule whole_outside [OF pwf dn below_disjoint [OF p dn 3]]) auto
      then show ?thesis
        using eff disc 3 at by (auto simp: sound_on_def effect_def cleared_disc_def)
    qed
  qed
  then have "sound_on plan t (all_paths plan) s' ?g" by (rule sound_on_pointwise)
  then show ?thesis using so eff by (auto simp: sound_def effect_def same_storage_def)
qed

subsection \<open>Initialising a path\<close>

lemma initialize_effect:
  assumes pt: "plan_topo plan t" and wf: "state_wf plan t s" and p: "p < n_paths plan"
    and con: "bits (must_init s) \<subseteq> bits (may_init s)"
  shows "\<exists>s1 s'. mark_whole p Must t s = Some s1 \<and> framed plan t (below plan p) s s1 \<and>
    marked plan t p Must s s1 \<and> bits (must_init s1) \<subseteq> bits (may_init s1) \<and>
    recompose_loop plan t (path_parent (move_paths plan ! p)) s1 = Some s' \<and>
    initialize_path p plan t s = Some s' \<and>
    framed plan t (above plan p) s1 s' \<and> (\<forall>d < n_paths plan. disc_of t s' d = disc_of t s1 d) \<and>
    bits (must_init s') \<subseteq> bits (may_init s')"
proof -
  note pwf = plan_topoD(1) [OF pt]
  obtain s1 where s1: "mark_whole p Must t s = Some s1" "framed plan t (below plan p) s s1"
    "marked plan t p Must s s1" using mark_whole_ok [OF pt p wf] by blast
  have con1: "bits (must_init s1) \<subseteq> bits (may_init s1)"
  proof
    fix d assume d: "d \<in> bits (must_init s1)"
    show "d \<in> bits (may_init s1)"
    proof (cases "d \<in> below plan p")
      case True
      then show ?thesis using s1(3) d by (simp add: marked_def)
    next
      case False
      then show ?thesis using s1(2) d con by (auto simp: framed_def agree_on_def)
    qed
  qed
  have wf1: "state_wf plan t s1" using s1(2) by (simp add: framed_def)
  have b: "\<forall>q. path_parent (move_paths plan ! p) = Some q \<longrightarrow> q < n_paths plan"
    using parent_bound [OF pwf p] by blast
  obtain s' where "recompose_loop plan t (path_parent (move_paths plan ! p)) s1 = Some s'"
    "framed plan t (up plan (path_parent (move_paths plan ! p))) s1 s'"
    "\<forall>d < n_paths plan. disc_of t s' d = disc_of t s1 d" "bits (must_init s') \<subseteq> bits (may_init s')"
    using recompose_loop_effect [OF pt wf1 b con1] by blast
  then show ?thesis
    using s1 con1 p above_up [OF pwf p]
    by (auto simp: initialize_path_def recompose_ancestors_def n_paths_def)
qed

lemma above_below_disjoint: "paths_wf plan \<Longrightarrow> p < n_paths plan \<Longrightarrow> above plan p \<inter> below plan p = {}"
  unfolding above_def below_def under_def
  by (auto dest: prefix_order.antisym intro: paths_wf_inj place.equality simp: n_paths_def)

lemma initialize_sound:
  assumes pt: "plan_topo plan t" and wf: "state_wf plan t s" and p: "p < n_paths plan"
    and con: "bits (must_init s) \<subseteq> bits (may_init s)"
    and known: "downcasts_known plan t s p"
    and ok: "store_ok plan g" and whole: "whole plan g p"
    and off: "sound_on plan t (all_paths plan - below plan p - above plan p) s g"
    and disc: "\<forall>q \<in> above plan p. is_enum_rule (rule_at plan q) \<longrightarrow> disc_allows (disc_of t s q) (sel g q)"
    and compat: "compatible plan t (below plan p) s g"
    and res: "initialize_path p plan t s = Some s'"
  shows "sound_on plan t (all_paths plan) s' g"
proof -
  note pwf = plan_topoD(1) [OF pt]
  obtain s1 where s1: "framed plan t (below plan p) s s1" "marked plan t p Must s s1"
    "recompose_loop plan t (path_parent (move_paths plan ! p)) s1 = Some s'"
    using initialize_effect [OF pt wf p con] res by auto
  have wf1: "state_wf plan t s1" using s1(1) by (simp add: framed_def)
  have in_below: "sound_on plan t (below plan p) s1 g"
    using s1(2) ok compat whole by (simp add: marked_def)
  have up: "up plan (path_parent (move_paths plan ! p)) = above plan p" using above_up [OF pwf p] by simp
  have same: "disc_of t s1 q = disc_of t s q" if "q \<in> above plan p" for q
  proof -
    have "q \<notin> below plan p" "q < n_paths plan"
      using that above_below_disjoint [OF pwf p] by (auto simp: above_def)
    then show ?thesis using s1(1) by (auto simp: framed_def agree_on_def)
  qed
  have off1: "sound_on plan t (all_paths plan - above plan p) s1 g"
  proof (rule sound_on_pointwise)
    fix d assume d: "d \<in> all_paths plan - above plan p"
    show "sound_on plan t {d} s1 g"
    proof (cases "d \<in> below plan p")
      case True
      then show ?thesis using in_below by (auto intro: sound_on_subset)
    next
      case False
      then have "agree_on plan t {d} s s1" by (intro framed_agree [OF s1(1)]) auto
      moreover have "sound_on plan t {d} s g"
        by (rule sound_on_subset [OF off]) (use d False in auto)
      ultimately show ?thesis using sound_on_agree [of plan t "{d}" s s1 g] d by (auto simp: all_paths_def)
    qed
  qed
  show ?thesis
  proof (rule recompose_loop_sound [OF pt wf1 _ _ _ _ s1(3)], unfold up)
    show "\<forall>q. path_parent (move_paths plan ! p) = Some q \<longrightarrow> q < n_paths plan"
      using parent_bound [OF pwf p] by blast
    show "\<forall>q \<in> above plan p. known_at plan t s1 q"
      using downcasts_known_at [OF pwf p known] known_at_agree [OF same] up by blast
    show "sound_on plan t (all_paths plan - above plan p) s1 g" by (rule off1)
    show "\<forall>q \<in> above plan p. is_enum_rule (rule_at plan q) \<longrightarrow> disc_allows (disc_of t s1 q) (sel g q)"
      using disc same by simp
  qed
qed

subsection \<open>Well-formed and checked operations\<close>

definition local_of :: "cleanup_plan \<Rightarrow> move_path_id \<Rightarrow> local_id" where
  "local_of plan p = place_local (path_place (move_paths plan ! p))"

definition variant_of :: "cleanup_plan \<Rightarrow> move_path_id \<Rightarrow> u32 \<Rightarrow> bool" where
  "variant_of plan p v \<longleftrightarrow> (\<exists>vs. rule_at plan p = EnumRoot vs \<and> v \<in> fst ` set vs)"

fun op_wf :: "cleanup_plan \<Rightarrow> cleanup_op \<Rightarrow> bool" where
  "op_wf plan (StorageLive l) \<longleftrightarrow> l < length (plan_locals plan)"
| "op_wf plan (StorageDead l) \<longleftrightarrow> l < length (plan_locals plan)"
| "op_wf plan (Init p) \<longleftrightarrow> p < n_paths plan"
| "op_wf plan (MoveOut p) \<longleftrightarrow> p < n_paths plan"
| "op_wf plan (Overwrite p) \<longleftrightarrow> p < n_paths plan"
| "op_wf plan (Transfer s d k) \<longleftrightarrow> s < n_paths plan \<and> d < n_paths plan \<and> \<not> under plan s d \<and> \<not> under plan d s"
| "op_wf plan (SetDiscriminant p v) \<longleftrightarrow> p < n_paths plan \<and> variant_of plan p v"
| "op_wf plan (AssumeDiscriminant p v) \<longleftrightarrow> p < n_paths plan \<and> variant_of plan p v"

text \<open>What \<open>verify_stable_move_state\<close> requires of the state before an operation.\<close>

abbreviation checked_place :: "cleanup_plan \<Rightarrow> move_path_topology \<Rightarrow> move_state \<Rightarrow> move_path_id \<Rightarrow> bool" where
  "checked_place plan t s p \<equiv>
     storage_liveness_of s (local_of plan p) = Live \<and> inactive_downcast s p plan t = Some None"

fun op_checked :: "cleanup_plan \<Rightarrow> move_path_topology \<Rightarrow> move_state \<Rightarrow> cleanup_op \<Rightarrow> bool" where
  "op_checked plan t s (StorageLive l) \<longleftrightarrow> storage_liveness_of s l = Dead"
| "op_checked plan t s (StorageDead l) \<longleftrightarrow> True"
| "op_checked plan t s (Init p) \<longleftrightarrow> checked_place plan t s p"
| "op_checked plan t s (MoveOut p) \<longleftrightarrow>
     checked_place plan t s p \<and> path_initialization_of s t p = Some Initialized"
| "op_checked plan t s (Overwrite p) \<longleftrightarrow>
     checked_place plan t s p \<and> path_initialization_of s t p = Some Initialized"
| "op_checked plan t st (Transfer s d k) \<longleftrightarrow>
     checked_place plan t st s \<and> checked_place plan t st d \<and>
     path_initialization_of st t s = Some Initialized \<and>
     path_initialization_of st t d =
       Some (case k of Initialize \<Rightarrow> Uninitialized | OverwriteTarget \<Rightarrow> Initialized
             | MaybeOverwrite \<Rightarrow> MaybeOrPartial)"
| "op_checked plan t s (SetDiscriminant p v) \<longleftrightarrow>
     checked_place plan t s p \<and> path_initialization_of s t p = Some Uninitialized"
| "op_checked plan t s (AssumeDiscriminant p v) \<longleftrightarrow>
     storage_liveness_of s (local_of plan p) = Live \<and> path_initialization_of s t p = Some Initialized"

text \<open>What the questions about a sound state say of the store.\<close>

lemma storage_liveness_iff:
  "storage_liveness_of s l = Live \<longleftrightarrow> l \<in> bits (must_live s)"
  "storage_liveness_of s l = Dead \<longleftrightarrow> l \<notin> bits (must_live s) \<and> l \<notin> bits (may_live s)"
  by (simp_all add: storage_liveness_of_def)

lemma has_part_value:
  assumes pt: "plan_topo plan t" and wf: "state_wf plan t s" and d: "d < n_paths plan"
  shows "has_initialized_part s t d =
    Some (d \<in> bits (may_init s) \<or> \<not> may_be_unset (disc_of t s d) \<or> possible_variants (disc_of t s d) \<noteq> [])"
proof (cases "discriminant_index t ! d")
  case None
  then show ?thesis using pt d by (simp add: has_initialized_part_def disc_of_def ds_unset_def)
next
  case (Some i)
  then show ?thesis using pt d disc_lookup [OF pt wf d Some] by (simp add: has_initialized_part_def)
qed

definition nothing_below :: "cleanup_plan \<Rightarrow> move_path_topology \<Rightarrow> move_path_id \<Rightarrow> move_state \<Rightarrow> bool" where
  "nothing_below plan t p s \<longleftrightarrow>
     (\<forall>d \<in> below plan p. d \<notin> bits (may_init s) \<and> may_be_unset (disc_of t s d) \<and>
        possible_variants (disc_of t s d) = [])"

lemma path_initialization_value:
  assumes pt: "plan_topo plan t" and wf: "state_wf plan t s" and p: "p < n_paths plan"
  shows "path_initialization_of s t p =
    Some (if p \<in> bits (must_init s) then Initialized
          else if nothing_below plan t p s then Uninitialized else MaybeOrPartial)"
proof -
  obtain ys where ys: "subtree t p = Some ys" "set ys = below plan p"
    using subtree_below [OF pt p] by blast
  have "any_opt (has_initialized_part s t) ys =
      Some (\<exists>d \<in> set ys. d \<in> bits (may_init s) \<or> \<not> may_be_unset (disc_of t s d) \<or>
        possible_variants (disc_of t s d) \<noteq> [])"
    by (rule any_opt_total) (use ys(2) below_bound has_part_value [OF pt wf] in blast)
  then show ?thesis
    using ys by (auto simp: path_initialization_of_def nothing_below_def)
qed

lemma sound_whole: "sound plan t s g \<Longrightarrow> p < n_paths plan \<Longrightarrow> p \<in> bits (must_init s) \<Longrightarrow> whole plan g p"
  by (auto simp: sound_def sound_on_def all_paths_def)

lemma sound_blank:
  assumes so: "sound plan t s g" and ok: "store_ok plan g" and nb: "nothing_below plan t p s"
  shows "blank plan g p"
  unfolding blank_def
proof (intro ballI conjI)
  fix d assume d: "d \<in> below plan p"
  have at: "(whole plan g d \<longrightarrow> d \<in> bits (may_init s)) \<and>
      (is_enum_rule (rule_at plan d) \<longrightarrow> disc_allows (disc_of t s d) (sel g d))"
    using so below_bound [OF d] by (simp add: sound_def sound_on_def all_paths_def)
  show "d \<notin> leaf g"
  proof
    assume leaf: "d \<in> leaf g"
    then have "rule_at plan d = Explicit" using ok by (simp add: store_ok_def)
    then have "whole plan g d" using leaf by (rule whole.leaf)
    then show False using at nb d by (simp add: nothing_below_def)
  qed
  show "sel g d = None"
  proof (rule ccontr)
    assume "sel g d \<noteq> None"
    moreover then have "is_enum_rule (rule_at plan d)" using ok by (simp add: store_ok_def)
    ultimately show False
      using at nb d by (auto simp: nothing_below_def disc_allows_def)
  qed
qed

lemma sound_active:
  assumes pt: "plan_topo plan t" and dw: "downcasts_wf plan" and p: "p < n_paths plan"
    and so: "sound plan t s g" and k: "downcasts_known plan t s p"
  shows "active plan g p"
  unfolding active_def
proof (intro ballI allI impI)
  fix a v e
  assume a: "a \<in> up plan (Some p)" "downcast_variant (move_paths plan ! a) = Some v"
    "path_parent (move_paths plan ! a) = Some e"
  then have k: "known_variant (disc_of t s e) v" using k by (simp add: downcasts_known_def selects_def)
  have "e < n_paths plan" using parent_bound [OF plan_topoD(1) [OF pt] up_bound [OF a(1)] a(3)] .
  moreover have "is_enum_rule (rule_at plan e)"
    using dw a up_bound [OF a(1)] by (simp add: downcasts_wf_def)
  ultimately have "disc_allows (disc_of t s e) (sel g e)"
    using so by (simp add: sound_def sound_on_def all_paths_def)
  then show "sel g e = Some v"
    using k by (auto simp: disc_allows_def known_variant_def split: option.splits)
qed

lemma checked_place_iff:
  assumes "plan_topo plan t" "state_wf plan t s" "downcasts_wf plan" "p < n_paths plan"
  shows "checked_place plan t s p \<longleftrightarrow>
    local_of plan p \<in> bits (must_live s) \<and> downcasts_known plan t s p"
  using inactive_downcast_value [OF assms] by (auto simp: storage_liveness_iff)

text \<open>A checked operation is safe on every store the state describes.\<close>

theorem checked_op_safe:
  assumes pt: "plan_topo plan t" and dw: "downcasts_wf plan" and wf: "state_wf plan t s"
    and so: "sound plan t s g" and ok: "store_ok plan g"
    and ow: "op_wf plan op" and ch: "op_checked plan t s op"
  shows "op_safe plan g op"
proof -
  have place: "has_storage plan g p \<and> active plan g p" if "p < n_paths plan" "checked_place plan t s p" for p
    using checked_place_iff [OF pt wf dw that(1)] that sound_active [OF pt dw that(1) so] so
    by (auto simp: has_storage_def local_of_def sound_def)
  have whole: "whole plan g p" if "p < n_paths plan" "path_initialization_of s t p = Some Initialized" for p
    using that path_initialization_value [OF pt wf that(1)] sound_whole [OF so that(1)] by (auto split: if_splits)
  have blank: "blank plan g p" if "p < n_paths plan" "path_initialization_of s t p = Some Uninitialized" for p
    using that path_initialization_value [OF pt wf that(1)] sound_blank [OF so ok] by (auto split: if_splits)
  show ?thesis
  proof (cases op)
    case (StorageLive l)
    then show ?thesis using ch so by (auto simp: storage_liveness_iff sound_def)
  next
    case (Transfer s' d k)
    then show ?thesis using ch ow place whole blank by auto
  next
    case (AssumeDiscriminant p v)
    then show ?thesis
      using ch ow whole so by (auto simp: has_storage_def local_of_def sound_def storage_liveness_iff)
  qed (use ch ow place whole blank in auto)
qed

subsection \<open>Storage\<close>

lemma fits_local:
  assumes "state_wf plan t s" "l < length (plan_locals plan)"
  shows "bit_fits (may_live s) l" "bit_fits (must_live s) l"
  using assms fits_capacity by (auto simp: state_wf_def bit_fits_def)

definition cleared_local ::
    "cleanup_plan \<Rightarrow> move_path_topology \<Rightarrow> local_id \<Rightarrow> move_state \<Rightarrow> move_state \<Rightarrow> bool" where
  "cleared_local plan t l s s' \<longleftrightarrow>
     state_wf plan t s' \<and> reachable s' = reachable s \<and>
     bits (may_init s') = bits (may_init s) - local_paths plan l \<and>
     bits (must_init s') = bits (must_init s) - local_paths plan l \<and>
     (\<forall>q < n_paths plan. disc_of t s' q = (if q \<in> local_paths plan l then ds_unset else disc_of t s q))"

lemma start_storage_effect:
  assumes pt: "plan_topo plan t" and wf: "state_wf plan t s" and l: "l < length (plan_locals plan)"
  shows "\<exists>s'. start_storage l t s = Some s' \<and> cleared_local plan t l s s' \<and>
    bits (may_live s') = insert l (bits (may_live s)) \<and> bits (must_live s') = insert l (bits (must_live s))"
proof -
  obtain s1 where s1: "clear_local_value l t s = Some s1"
    "effect plan t s s1 (bits (may_init s) - local_paths plan l) (bits (must_init s) - local_paths plan l)
      (\<lambda>q. if q \<in> local_paths plan l then ds_unset else disc_of t s q)"
    using clear_local_effect [OF pt wf l] by blast
  note wf1 = effect_wf [OF s1(2)]
  obtain b where b: "bitset_insert (may_live s1) l = Some b" "bits b = insert l (bits (may_live s1))"
    "bit_fits b = bit_fits (may_live s1)"
    using bs.ins_elems [OF fits_local(1) [OF wf1 l]] by auto
  obtain c where c: "bitset_insert (must_live s1) l = Some c" "bits c = insert l (bits (must_live s1))"
    "bit_fits c = bit_fits (must_live s1)"
    using bs.ins_elems [OF fits_local(2) [OF wf1 l]] by auto
  show ?thesis
    using s1 b c
    by (auto simp: start_storage_def cleared_local_def effect_def same_storage_def state_wf_def fits_eq_iff)
qed

lemma end_storage_effect:
  assumes pt: "plan_topo plan t" and wf: "state_wf plan t s" and l: "l < length (plan_locals plan)"
  shows "\<exists>s'. end_storage l t s = Some s' \<and> cleared_local plan t l s s' \<and>
    bits (may_live s') = bits (may_live s) - {l} \<and> bits (must_live s') = bits (must_live s) - {l}"
proof -
  obtain s1 where s1: "clear_local_value l t s = Some s1"
    "effect plan t s s1 (bits (may_init s) - local_paths plan l) (bits (must_init s) - local_paths plan l)
      (\<lambda>q. if q \<in> local_paths plan l then ds_unset else disc_of t s q)"
    using clear_local_effect [OF pt wf l] by blast
  note wf1 = effect_wf [OF s1(2)]
  obtain b where b: "bitset_remove (may_live s1) l = Some b" "bits b = bits (may_live s1) - {l}"
    "bit_fits b = bit_fits (may_live s1)"
    using bs.del_elems [OF fits_local(1) [OF wf1 l]] by auto
  obtain c where c: "bitset_remove (must_live s1) l = Some c" "bits c = bits (must_live s1) - {l}"
    "bit_fits c = bit_fits (must_live s1)"
    using bs.del_elems [OF fits_local(2) [OF wf1 l]] by auto
  show ?thesis
    using s1 b c
    by (auto simp: end_storage_def cleared_local_def effect_def same_storage_def state_wf_def fits_eq_iff)
qed

lemma cleared_local_sound:
  assumes wf: "paths_wf plan" and so: "sound_on plan t (all_paths plan) s g"
    and cl: "cleared_local plan t l s s'"
  shows "sound_on plan t (all_paths plan) s' (blank_out plan (local_paths plan l) g)"
proof (rule sound_on_pointwise)
  let ?g = "blank_out plan (local_paths plan l) g"
  fix d assume d: "d \<in> all_paths plan"
  then have dn: "d < n_paths plan" by (simp add: all_paths_def)
  show "sound_on plan t {d} s' ?g"
  proof (cases "d \<in> local_paths plan l")
    case True
    then have "below plan d \<subseteq> local_paths plan l" using down_closed_local by (simp add: down_closed_def)
    then have "\<not> whole plan ?g d"
      using whole_not_blank [OF wf _ self_below [OF dn]] blank_out_blank by blast
    then show ?thesis
      using cl True dn by (simp add: sound_on_def cleared_local_def disc_allows_def ds_unset_def)
  next
    case False
    have "whole plan ?g d \<longleftrightarrow> whole plan g d"
      by (rule whole_outside [OF wf dn up_closed_local [OF False dn]]) auto
    then show ?thesis
      using cl so False dn d by (auto simp: sound_on_def cleared_local_def)
  qed
qed

lemma end_storage_sound:
  assumes pt: "plan_topo plan t" and wf: "state_wf plan t s" and l: "l < length (plan_locals plan)"
    and so: "sound plan t s g" and res: "end_storage l t s = Some s'"
  shows "sound plan t s' ((blank_out plan (local_paths plan l) g)\<lparr>live := live g - {l}\<rparr>)"
proof -
  have e: "cleared_local plan t l s s'" "bits (may_live s') = bits (may_live s) - {l}"
    "bits (must_live s') = bits (must_live s) - {l}"
    using end_storage_effect [OF pt wf l] res by auto
  have "sound_on plan t (all_paths plan) s' (blank_out plan (local_paths plan l) g)"
    using cleared_local_sound [OF plan_topoD(1) [OF pt] _ e(1)] so by (simp add: sound_def)
  then show ?thesis using so e(2,3) by (auto simp: sound_def)
qed

lemma start_storage_sound:
  assumes pt: "plan_topo plan t" and wf: "state_wf plan t s" and l: "l < length (plan_locals plan)"
    and so: "sound plan t s g" and res: "start_storage l t s = Some s'"
  shows "sound plan t s' ((blank_out plan (local_paths plan l) g)\<lparr>live := insert l (live g)\<rparr>)"
proof -
  have e: "cleared_local plan t l s s'" "bits (may_live s') = insert l (bits (may_live s))"
    "bits (must_live s') = insert l (bits (must_live s))"
    using start_storage_effect [OF pt wf l] res by auto
  have "sound_on plan t (all_paths plan) s' (blank_out plan (local_paths plan l) g)"
    using cleared_local_sound [OF plan_topoD(1) [OF pt] _ e(1)] so by (simp add: sound_def)
  then show ?thesis using so e(2,3) by (auto simp: sound_def)
qed

lemma cleared_local_consistent:
  "cleared_local plan t l s s' \<Longrightarrow> bits (must_init s) \<subseteq> bits (may_init s) \<Longrightarrow>
   bits (must_init s') \<subseteq> bits (may_init s')"
  by (auto simp: cleared_local_def)

subsection \<open>Assuming a variant\<close>

definition assume_child ::
    "u32 \<Rightarrow> move_path_topology \<Rightarrow> u32 \<times> move_path_id \<Rightarrow> move_state \<Rightarrow> move_state option" where
  "assume_child v t = (\<lambda>vc s. if fst vc = v then mark_whole (snd vc) Must t s
                               else clear_subtree_only (snd vc) t s)"

lemma assume_child_effect:
  assumes pt: "plan_topo plan t" and wf: "state_wf plan t s" and c: "snd vc < n_paths plan"
  shows "\<exists>s'. assume_child v t vc s = Some s' \<and> framed plan t (below plan (snd vc)) s s' \<and>
    (\<forall>d \<in> below plan (snd vc). d \<in> bits (must_init s') \<longrightarrow> d \<in> bits (may_init s')) \<and>
    (\<forall>g. store_ok plan g \<longrightarrow> sound_on plan t (below plan (snd vc)) s g \<longrightarrow>
       (if fst vc = v then whole plan g (snd vc) else blank plan g (snd vc)) \<longrightarrow>
       sound_on plan t (below plan (snd vc)) s' g)"
proof (cases "fst vc = v")
  case True
  obtain s' where s': "mark_whole (snd vc) Must t s = Some s'" "framed plan t (below plan (snd vc)) s s'"
    "marked plan t (snd vc) Must s s'" using mark_whole_ok [OF pt c wf] by blast
  have "compatible plan t (below plan (snd vc)) s g" if "sound_on plan t (below plan (snd vc)) s g" for g
    using that by (auto simp: sound_on_def compatible_def disc_allows_def split: option.splits)
  then show ?thesis using s' True by (auto simp: assume_child_def marked_def)
next
  case False
  obtain s' where s': "clear_subtree_only (snd vc) t s = Some s'"
    "effect plan t s s' (bits (may_init s) - below plan (snd vc)) (bits (must_init s) - below plan (snd vc))
      (cleared_disc plan t (snd vc) s)"
    using clear_subtree_effect [OF pt wf c] by blast
  have fr: "framed plan t (below plan (snd vc)) s s'"
    by (rule effect_framed [OF s'(2)]) (auto simp: cleared_disc_def)
  have "cleared_in plan t (snd vc) s'"
    using s'(2) below_bound by (auto simp: cleared_in_def effect_def cleared_disc_def)
  then have "sound_on plan t (below plan (snd vc)) s' g" if "blank plan g (snd vc)" for g
    using sound_on_blank [OF plan_topoD(1) [OF pt]] that by blast
  then show ?thesis using s' fr False by (auto simp: assume_child_def effect_def)
qed

lemma assume_children_effect:
  assumes pt: "plan_topo plan t" and wf: "state_wf plan t s"
    and "\<forall>vc \<in> set vs. snd vc < n_paths plan" "distinct (map snd vs)"
    and "\<And>e f. e \<in> set vs \<Longrightarrow> f \<in> set vs \<Longrightarrow> snd e \<noteq> snd f \<Longrightarrow> below plan (snd e) \<inter> below plan (snd f) = {}"
    and "bits (must_init s) \<subseteq> bits (may_init s)"
  shows "\<exists>s'. fold_opt (assume_child v t) vs s = Some s' \<and>
    framed plan t (below_all plan (map snd vs)) s s' \<and> bits (must_init s') \<subseteq> bits (may_init s') \<and>
    (\<forall>g. store_ok plan g \<longrightarrow> sound_on plan t (below_all plan (map snd vs)) s g \<longrightarrow>
       (\<forall>vc \<in> set vs. if fst vc = v then whole plan g (snd vc) else blank plan g (snd vc)) \<longrightarrow>
       sound_on plan t (below_all plan (map snd vs)) s' g)"
  using assms(2-)
proof (induction vs arbitrary: s)
  case Nil
  then show ?case by (auto simp: framed_def same_storage_def below_all_def)
next
  case (Cons vc vs)
  let ?B = "below plan (snd vc)" and ?R = "below_all plan (map snd vs)"
  obtain s1 where s1: "assume_child v t vc s = Some s1" "framed plan t ?B s s1"
    "\<forall>d \<in> ?B. d \<in> bits (must_init s1) \<longrightarrow> d \<in> bits (may_init s1)"
    "\<And>g. store_ok plan g \<Longrightarrow> sound_on plan t ?B s g \<Longrightarrow>
       (if fst vc = v then whole plan g (snd vc) else blank plan g (snd vc)) \<Longrightarrow> sound_on plan t ?B s1 g"
    using assume_child_effect [OF pt Cons.prems(1), of vc v] Cons.prems(2) by auto
  have wf1: "state_wf plan t s1" using s1(2) by (simp add: framed_def)
  have con1: "bits (must_init s1) \<subseteq> bits (may_init s1)"
  proof
    fix d assume "d \<in> bits (must_init s1)"
    then show "d \<in> bits (may_init s1)"
      using s1(2,3) Cons.prems(5) by (cases "d \<in> ?B") (auto simp: framed_def agree_on_def)
  qed
  obtain s2 where s2: "fold_opt (assume_child v t) vs s1 = Some s2" "framed plan t ?R s1 s2"
    "bits (must_init s2) \<subseteq> bits (may_init s2)"
    "\<And>g. store_ok plan g \<Longrightarrow> sound_on plan t ?R s1 g \<Longrightarrow>
       (\<forall>vc \<in> set vs. if fst vc = v then whole plan g (snd vc) else blank plan g (snd vc)) \<Longrightarrow>
       sound_on plan t ?R s2 g"
    using Cons.IH [OF wf1 _ _ _ con1] Cons.prems(2-4) by (auto 4 3)
  have disj: "?B \<inter> below plan (snd f) = {}" if f: "f \<in> set vs" for f
  proof -
    have "snd vc \<noteq> snd f" using Cons.prems(3) f by (metis distinct.simps(2) imageI list.map(2) list.set_map)
    then show ?thesis using Cons.prems(4) f by (metis list.set_intros(1,2))
  qed
  then have dis: "?B \<inter> ?R = {}" by (auto simp: below_all_def)
  have all: "below_all plan (map snd (vc # vs)) = ?B \<union> ?R" by (simp add: below_all_def)
  have lt: "\<forall>d \<in> ?R. d < n_paths plan" "\<forall>d \<in> ?B. d < n_paths plan"
    by (auto simp: below_all_def dest: below_bound)
  have agB: "agree_on plan t ?B s1 s2" by (rule framed_agree [OF s2(2)]) (use dis in blast)
  have agR: "agree_on plan t ?R s s1" by (rule framed_agree [OF s1(2) dis])
  have "sound_on plan t (?B \<union> ?R) s2 g"
    if g: "store_ok plan g" "sound_on plan t (?B \<union> ?R) s g"
      "\<forall>vc \<in> set (vc # vs). if fst vc = v then whole plan g (snd vc) else blank plan g (snd vc)" for g
  proof -
    have "sound_on plan t ?B s1 g"
      by (rule s1(4) [OF g(1)]) (use g(2,3) in \<open>auto intro: sound_on_subset\<close>)
    then have b: "sound_on plan t ?B s2 g" using sound_on_agree [OF agB lt(2)] by simp
    have "sound_on plan t ?R s g" by (rule sound_on_subset [OF g(2)]) simp
    then have "sound_on plan t ?R s1 g" using sound_on_agree [OF agR lt(1)] by simp
    then have "sound_on plan t ?R s2 g" by (rule s2(4) [OF g(1)]) (use g(3) in simp)
    with b show ?thesis unfolding sound_on_def by blast
  qed
  moreover have "fold_opt (assume_child v t) (vc # vs) s = Some s2" using s1(1) s2(1) by simp
  ultimately show ?case
    using framed_trans [OF s1(2) s2(2)] s2(3) unfolding all by blast
qed

lemma set_known_effect:
  assumes pt: "plan_topo plan t" and wf: "state_wf plan t s" and p: "p < n_paths plan"
    and e: "is_enum_rule (rule_at plan p)"
  shows "\<exists>s' d. set_known_discriminant t p v s = Some s' \<and> known_variant d v \<and>
    effect plan t s s' (bits (may_init s)) (bits (must_init s)) ((disc_of t s)(p := d))"
proof -
  obtain i where i: "discriminant_index t ! p = Some i"
    using discriminant_index_None_iff [OF pt p] e by fastforce
  let ?d = "ds_set_known (disc_of t s p) v"
  obtain s' where "set_discriminant_at i ?d s = Some s'"
    "effect plan t s s' (bits (may_init s)) (bits (must_init s)) ((disc_of t s)(p := ?d))"
    using set_discriminant_at_effect [OF pt wf p i ds_ok_set_known] by blast
  moreover have "known_variant ?d v" by (simp add: known_variant_def ds_set_known_def)
  ultimately show ?thesis
    using i p pt disc_lookup [OF pt wf p i] by (auto simp: set_known_discriminant_def)
qed

lemma assume_discriminant_effect:
  assumes pt: "plan_topo plan t" and wf: "state_wf plan t s" and p: "p < n_paths plan"
    and v: "variant_of plan p v" and con: "bits (must_init s) \<subseteq> bits (may_init s)"
  shows "\<exists>s'. assume_discriminant p v t s = Some s' \<and> state_wf plan t s' \<and> same_storage s s' \<and>
    bits (must_init s') \<subseteq> bits (may_init s') \<and>
    (\<forall>g. store_ok plan g \<longrightarrow> sound_on plan t (all_paths plan) s g \<longrightarrow> whole plan g p \<longrightarrow>
       sel g p = Some v \<longrightarrow> sound_on plan t (all_paths plan) s' g)"
proof -
  note pwf = plan_topoD(1) [OF pt]
  obtain vs where vs: "rule_at plan p = EnumRoot vs" using v by (auto simp: variant_of_def)
  obtain s1 d where s1: "set_known_discriminant t p v s = Some s1" "known_variant d v"
    "effect plan t s s1 (bits (may_init s)) (bits (must_init s)) ((disc_of t s)(p := d))"
    using set_known_effect [OF pt wf p, of v] vs by auto
  have child: "snd e \<in> set (children_of plan p)" if "e \<in> set vs" for e
    using that rule_EnumRootD(2) [OF vs] by blast
  have con1: "bits (must_init s1) \<subseteq> bits (may_init s1)" using s1(3) con by (simp add: effect_def)
  have bound: "\<forall>vc \<in> set vs. snd vc < n_paths plan" using child below_child(2) [OF pwf] by blast
  have disj: "below plan (snd e) \<inter> below plan (snd f) = {}"
    if "e \<in> set vs" "f \<in> set vs" "snd e \<noteq> snd f" for e f
    using below_children_disjoint [OF pwf child [OF that(1)] child [OF that(2)]] that(3) by blast
  let ?R = "below_all plan (map snd vs)"
  obtain s2 where s2: "fold_opt (assume_child v t) vs s1 = Some s2" "framed plan t ?R s1 s2"
    "bits (must_init s2) \<subseteq> bits (may_init s2)"
    "\<And>g. store_ok plan g \<Longrightarrow> sound_on plan t ?R s1 g \<Longrightarrow>
       (\<forall>vc \<in> set vs. if fst vc = v then whole plan g (snd vc) else blank plan g (snd vc)) \<Longrightarrow>
       sound_on plan t ?R s2 g"
    using assume_children_effect [OF pt effect_wf [OF s1(3)] bound rule_EnumRoot_distinct(2) [OF pwf vs] disj con1]
    by blast
  have "assume_discriminant p v t s = fold_opt (assume_child v t) vs s1"
    using s1(1) completion_nth [OF pt p] vs p pt by (simp add: assume_discriminant_def assume_child_def)
  moreover have "sound_on plan t (all_paths plan) s2 g"
    if g: "store_ok plan g" "sound_on plan t (all_paths plan) s g" "whole plan g p" "sel g p = Some v" for g
  proof (rule sound_on_pointwise)
    have pR: "p \<notin> ?R" using parent_not_below_child [OF pwf child] by (auto simp: below_all_def)
    have one: "sound_on plan t {d} s1 g" if d: "d \<in> all_paths plan" for d
    proof -
      have "sound_on plan t {d} s g" by (rule sound_on_subset [OF g(2)]) (use d in simp)
      then show ?thesis
        using s1(2,3) d g(4)
        by (auto simp: sound_on_def effect_def all_paths_def disc_allows_def known_variant_def)
    qed
    have R: "sound_on plan t ?R s1 g"
      by (rule sound_on_pointwise, rule one) (auto simp: below_all_def all_paths_def dest: below_bound)
    have kids: "\<forall>vc \<in> set vs. if fst vc = v then whole plan g (snd vc) else blank plan g (snd vc)"
    proof
      fix vc assume vc: "vc \<in> set vs"
      show "if fst vc = v then whole plan g (snd vc) else blank plan g (snd vc)"
      proof (cases "fst vc = v")
        case True
        obtain c where c: "(v, c) \<in> set vs" "whole plan g c"
          using g(3) vs g(4) by (auto elim: whole.cases)
        have "(v, snd vc) \<in> set vs" using vc True by (metis prod.collapse)
        then have "snd vc = c" by (rule rule_variants_distinct [OF pwf vs _ c(1)])
        then show ?thesis using True c(2) by simp
      next
        case False
        then show ?thesis using g(1,4) p vs vc unfolding store_ok_def by fastforce
      qed
    qed
    have inR: "sound_on plan t ?R s2 g" by (rule s2(4) [OF g(1) R kids])
    fix d assume d: "d \<in> all_paths plan"
    show "sound_on plan t {d} s2 g"
    proof (cases "d \<in> ?R")
      case True
      then show ?thesis using inR by (auto intro: sound_on_subset)
    next
      case False
      then have "agree_on plan t {d} s1 s2" by (intro framed_agree [OF s2(2)]) auto
      then show ?thesis using sound_on_agree [of plan t "{d}" s1 s2 g] one [OF d] d by (auto simp: all_paths_def)
    qed
  qed
  moreover have "state_wf plan t s2" "same_storage s s2"
    using s2(2) s1(3) by (auto simp: framed_def effect_def same_storage_def)
  ultimately show ?thesis using s2(1,3) by auto
qed

subsection \<open>Setting a discriminant\<close>

lemma set_discriminant_effect:
  assumes pt: "plan_topo plan t" and wf: "state_wf plan t s" and p: "p < n_paths plan"
    and v: "variant_of plan p v"
  shows "\<exists>s' d. set_discriminant p v plan t s = Some s' \<and> known_variant d v \<and>
    effect plan t s s' (bits (may_init s) - below plan p - above plan p)
      (bits (must_init s) - below plan p - above plan p) ((cleared_disc plan t p s)(p := d))"
proof -
  obtain s1 where s1: "clear_path p plan t s = Some s1"
    "effect plan t s s1 (bits (may_init s) - below plan p - above plan p)
      (bits (must_init s) - below plan p - above plan p) (cleared_disc plan t p s)"
    using clear_path_effect [OF pt wf p] by blast
  have "is_enum_rule (rule_at plan p)" using v by (auto simp: variant_of_def)
  then obtain s2 d where "set_known_discriminant t p v s1 = Some s2" "known_variant d v"
    "effect plan t s1 s2 (bits (may_init s1)) (bits (must_init s1)) ((disc_of t s1)(p := d))"
    using set_known_effect [OF pt effect_wf [OF s1(2)] p] by blast
  then show ?thesis using s1 by (auto simp: set_discriminant_def effect_def same_storage_def)
qed

lemma whole_sel_blank:
  assumes wf: "paths_wf plan" and p: "p < n_paths plan" and e: "rule_at plan p = EnumRoot vs"
    and blank: "\<forall>d \<in> below plan p. d \<notin> leaf g \<and> (d \<noteq> p \<longrightarrow> sel g d = None)"
    and d: "d \<in> below plan p"
  shows "\<not> whole plan g d"
proof -
  have child: "blank plan g c" "c \<in> below plan p" if "c \<in> set (children_of plan p)" for c
  proof -
    have "d \<notin> leaf g \<and> sel g d = None" if d: "d \<in> below plan c" for d
    proof -
      have "d \<in> below plan p" "d \<noteq> p"
        using d below_child_subset [OF wf \<open>c \<in> _\<close>] parent_not_below_child [OF wf \<open>c \<in> _\<close>] by auto
      then show ?thesis using blank by simp
    qed
    then show "blank plan g c" by (simp add: blank_def)
    show "c \<in> below plan p" by (rule below_child(1) [OF wf that])
  qed
  show ?thesis
  proof (cases "d = p")
    case True
    have "\<not> whole plan g c" if "(v, c) \<in> set vs" for v c
    proof -
      have c: "c \<in> set (children_of plan p)" using that rule_EnumRootD(1) [OF e] by blast
      show ?thesis using whole_not_blank [OF wf _ self_below] below_child(2) [OF wf c] child(1) [OF c] by blast
    qed
    then show ?thesis using True e by (auto elim: whole.cases)
  next
    case False
    then obtain c where "c \<in> set (children_of plan p)" "d \<in> below plan c"
      using below_cases [OF wf p d] by blast
    then show ?thesis using whole_not_blank [OF wf] child(1) by blast
  qed
qed

subsection \<open>Transfers\<close>

text \<open>The state just before the destination of a transfer is initialised.\<close>

definition transfer_ready ::
    "cleanup_plan \<Rightarrow> move_path_topology \<Rightarrow> move_path_id \<Rightarrow> move_path_id \<Rightarrow> move_state \<Rightarrow> move_state \<Rightarrow> bool" where
  "transfer_ready plan t src dst s s' \<longleftrightarrow>
     (\<exists>s1 s2. clear_path src plan t s = Some s1 \<and> clear_path dst plan t s1 = Some s2 \<and>
        effect plan t s s1 (bits (may_init s) - below plan src - above plan src)
          (bits (must_init s) - below plan src - above plan src) (cleared_disc plan t src s) \<and>
        effect plan t s1 s2 (bits (may_init s1) - below plan dst - above plan dst)
          (bits (must_init s1) - below plan dst - above plan dst) (cleared_disc plan t dst s1) \<and>
        effect plan t s2 s' (bits (may_init s2)) (bits (must_init s2))
          (if is_enum_rule (rule_at plan src) \<and> is_enum_rule (rule_at plan dst)
           then (disc_of t s2)(dst := disc_of t s src) else disc_of t s2) \<and>
        transfer src dst plan t s = initialize_path dst plan t s')"

lemma transfer_effect:
  assumes pt: "plan_topo plan t" and wf: "state_wf plan t s"
    and src: "src < n_paths plan" and dst: "dst < n_paths plan"
  shows "\<exists>s'. transfer_ready plan t src dst s s'"
proof -
  obtain s1 where s1: "clear_path src plan t s = Some s1"
    "effect plan t s s1 (bits (may_init s) - below plan src - above plan src)
      (bits (must_init s) - below plan src - above plan src) (cleared_disc plan t src s)"
    using clear_path_effect [OF pt wf src] by blast
  obtain s2 where s2: "clear_path dst plan t s1 = Some s2"
    "effect plan t s1 s2 (bits (may_init s1) - below plan dst - above plan dst)
      (bits (must_init s1) - below plan dst - above plan dst) (cleared_disc plan t dst s1)"
    using clear_path_effect [OF pt effect_wf [OF s1(2)] dst] by blast
  note wf2 = effect_wf [OF s2(2)]
  let ?src = "is_enum_rule (rule_at plan src)" and ?dst = "is_enum_rule (rule_at plan dst)"
  show ?thesis
  proof (cases "?src \<and> ?dst")
    case True
    obtain i where i: "discriminant_index t ! src = Some i"
      using True discriminant_index_None_iff [OF pt src] by fastforce
    obtain j where j: "discriminant_index t ! dst = Some j"
      using True discriminant_index_None_iff [OF pt dst] by fastforce
    obtain s3 where s3: "set_discriminant_at j (disc_of t s src) s2 = Some s3"
      "effect plan t s2 s3 (bits (may_init s2)) (bits (must_init s2)) ((disc_of t s2)(dst := disc_of t s src))"
      using set_discriminant_at_effect [OF pt wf2 dst j disc_of_ok [OF pt wf src]] by blast
    have "transfer src dst plan t s = initialize_path dst plan t s3"
      using i j src dst pt disc_lookup [OF pt wf src i] s1(1) s2(1) s3(1) by (simp add: transfer_def)
    then show ?thesis using s1 s2 s3 True unfolding transfer_ready_def by auto
  next
    case False
    then have "discriminant_index t ! src = None \<or> discriminant_index t ! dst = None"
      using discriminant_index_None_iff [OF pt src] discriminant_index_None_iff [OF pt dst] by auto
    moreover have "\<exists>d. nth_opt (discriminants s) i = Some d" if "discriminant_index t ! src = Some i" for i
      using disc_lookup [OF pt wf src that] by simp
    ultimately have "transfer src dst plan t s = initialize_path dst plan t s2"
      using src dst pt s1(1) s2(1)
      by (auto simp: transfer_def split: option.splits)
    then show ?thesis using s1 s2 False effect_refl [OF wf2] unfolding transfer_ready_def by auto
  qed
qed

lemma transfer_readyE:
  assumes "transfer_ready plan t src dst s s'"
  obtains s1 s2 where "clear_path src plan t s = Some s1" "clear_path dst plan t s1 = Some s2"
    "effect plan t s s1 (bits (may_init s) - below plan src - above plan src)
      (bits (must_init s) - below plan src - above plan src) (cleared_disc plan t src s)"
    "effect plan t s1 s2 (bits (may_init s1) - below plan dst - above plan dst)
      (bits (must_init s1) - below plan dst - above plan dst) (cleared_disc plan t dst s1)"
    "effect plan t s2 s' (bits (may_init s2)) (bits (must_init s2))
      (if is_enum_rule (rule_at plan src) \<and> is_enum_rule (rule_at plan dst)
       then (disc_of t s2)(dst := disc_of t s src) else disc_of t s2)"
    "transfer src dst plan t s = initialize_path dst plan t s'"
  using assms unfolding transfer_ready_def by blast

subsection \<open>Every operation returns and keeps "must implies may"\<close>

definition step_result :: "cleanup_plan \<Rightarrow> move_path_topology \<Rightarrow> move_state \<Rightarrow> move_state option \<Rightarrow> bool" where
  "step_result plan t s r \<longleftrightarrow>
     (\<exists>s'. r = Some s' \<and> state_wf plan t s' \<and> reachable s' = reachable s \<and> consistent s')"

lemma initialize_result:
  assumes "plan_topo plan t" "state_wf plan t s" "p < n_paths plan" "consistent s"
  shows "step_result plan t s (initialize_path p plan t s)"
  using initialize_effect [OF assms(1-3)] assms(4)
  by (auto simp: step_result_def consistent_def framed_def same_storage_def)

lemma clear_path_result:
  assumes "plan_topo plan t" "state_wf plan t s" "p < n_paths plan" "consistent s"
  shows "step_result plan t s (clear_path p plan t s)"
  using clear_path_effect [OF assms(1-3)] assms(4)
  by (auto simp: step_result_def consistent_def effect_def same_storage_def)

lemma step_result_bind:
  assumes "step_result plan t s r"
    and "\<And>s1. state_wf plan t s1 \<Longrightarrow> consistent s1 \<Longrightarrow> step_result plan t s1 (f s1)"
  shows "step_result plan t s (Option.bind r f)"
  using assms by (fastforce simp: step_result_def)

theorem apply_operation_result:
  assumes pt: "plan_topo plan t" and wf: "state_wf plan t s" and con: "consistent s" and ow: "op_wf plan op"
  shows "step_result plan t s (apply_operation op plan t s)"
proof (cases op)
  case (StorageLive l)
  then show ?thesis
    using start_storage_effect [OF pt wf, of l] ow con cleared_local_consistent
    by (fastforce simp: step_result_def consistent_def cleared_local_def)
next
  case (StorageDead l)
  then show ?thesis
    using end_storage_effect [OF pt wf, of l] ow con cleared_local_consistent
    by (fastforce simp: step_result_def consistent_def cleared_local_def)
next
  case (Init p)
  then show ?thesis using initialize_result [OF pt wf _ con] ow by simp
next
  case (MoveOut p)
  then show ?thesis using clear_path_result [OF pt wf _ con] ow by simp
next
  case (Overwrite p)
  then have p: "p < n_paths plan" using ow by simp
  then show ?thesis
    using Overwrite step_result_bind [OF clear_path_result [OF pt wf p con]] initialize_result [OF pt _ p] by simp
next
  case (Transfer src dst k)
  then have p: "src < n_paths plan" "dst < n_paths plan" using ow by simp_all
  obtain s' where s': "transfer_ready plan t src dst s s'" using transfer_effect [OF pt wf p] by blast
  then have "state_wf plan t s'" "same_storage s s'" "bits (must_init s') \<subseteq> bits (may_init s')"
    using con by (auto elim!: transfer_readyE simp: effect_def same_storage_def consistent_def)
  moreover then have "step_result plan t s' (initialize_path dst plan t s')"
    using initialize_result [OF pt _ p(2)] con by (simp add: consistent_def same_storage_def)
  moreover have "transfer src dst plan t s = initialize_path dst plan t s'"
    using s' by (auto elim: transfer_readyE)
  ultimately show ?thesis using Transfer by (auto simp: step_result_def same_storage_def)
next
  case (SetDiscriminant p v)
  then show ?thesis
    using set_discriminant_effect [OF pt wf, of p v] ow con
    by (auto simp: step_result_def consistent_def effect_def same_storage_def)
next
  case (AssumeDiscriminant p v)
  then show ?thesis
    using assume_discriminant_effect [OF pt wf, of p v] ow con
    by (auto simp: step_result_def consistent_def same_storage_def)
qed

subsection \<open>Every operation is sound\<close>

lemma fills_sound:
  assumes pt: "plan_topo plan t" and wf: "state_wf plan t s" and p: "p < n_paths plan"
    and con: "bits (must_init s) \<subseteq> bits (may_init s)" and known: "downcasts_known plan t s p"
    and f: "fills plan p g g'"
    and off: "sound_on plan t (all_paths plan - below plan p) s g"
    and compat: "compatible plan t (below plan p) s g'"
    and res: "initialize_path p plan t s = Some s'"
  shows "sound_on plan t (all_paths plan) s' g'"
proof (rule initialize_sound [OF pt wf p con known _ _ _ _ compat res])
  note pwf = plan_topoD(1) [OF pt]
  have same: "(d \<in> leaf g' \<longleftrightarrow> d \<in> leaf g) \<and> sel g' d = sel g d" if "d \<notin> below plan p" for d
    using f that by (auto simp: fills_def)
  show "store_ok plan g'" "whole plan g' p" using f by (simp_all add: fills_def)
  show "sound_on plan t (all_paths plan - below plan p - above plan p) s g'"
  proof (rule sound_on_pointwise)
    fix d assume d: "d \<in> all_paths plan - below plan p - above plan p"
    then have "whole plan g' d \<longleftrightarrow> whole plan g d"
      using whole_same_off [OF pwf p _ _ _ same] by (simp add: all_paths_def)
    moreover have "sound_on plan t {d} s g" by (rule sound_on_subset [OF off]) (use d in auto)
    ultimately show "sound_on plan t {d} s g'"
      using same d by (simp add: sound_on_def)
  qed
  show "\<forall>q \<in> above plan p. is_enum_rule (rule_at plan q) \<longrightarrow> disc_allows (disc_of t s q) (sel g' q)"
  proof (intro ballI impI)
    fix q assume q: "q \<in> above plan p" "is_enum_rule (rule_at plan q)"
    have "q \<notin> below plan p" using q(1) above_below_disjoint [OF pwf p] by blast
    moreover have "q \<in> all_paths plan" using q(1) by (simp add: above_def all_paths_def)
    ultimately show "disc_allows (disc_of t s q) (sel g' q)"
      using off same q(2) by (simp add: sound_on_def)
  qed
qed

lemma sound_compatible:
  assumes so: "sound_on plan t (below plan p) s g" and f: "fills plan p g g'"
  shows "compatible plan t (below plan p) s g'"
  unfolding compatible_def
proof (intro ballI impI)
  fix d assume d: "d \<in> below plan p" "is_enum_rule (rule_at plan d)"
  have "disc_allows (disc_of t s d) (sel g d)" using so d by (simp add: sound_on_def)
  then show "may_be_unset (disc_of t s d) \<or> (\<exists>v \<in> set (possible_variants (disc_of t s d)). sel g' d = Some v)"
    using f d(1) by (cases "sel g d") (auto simp: disc_allows_def fills_def)
qed

lemma below_all_paths: "below plan p \<subseteq> all_paths plan"
  by (auto simp: below_def all_paths_def)

text \<open>The discriminants on the way to a path, its own excluded.\<close>

lemma parent_above:
  assumes wf: "paths_wf plan" and p: "p < n_paths plan"
    and a: "a \<in> up plan (Some p)" "path_parent (move_paths plan ! a) = Some e"
  shows "e \<in> above plan p"
proof -
  have "e \<in> up plan (path_parent (move_paths plan ! a))"
    using a(2) parent_bound [OF wf up_bound [OF a(1)] a(2)] by (simp add: up_def)
  then have e: "e \<in> above plan a" using above_up [OF wf up_bound [OF a(1)]] by simp
  then have u: "under plan e p" "e < n_paths plan" using a(1) by (auto simp: above_def up_def intro: under_trans)
  moreover have "e \<noteq> p"
  proof
    assume "e = p"
    then have "p \<in> above plan a" "p \<in> below plan a"
      using e a(1) p by (auto simp: up_def below_def)
    then show False using above_below_disjoint [OF wf up_bound [OF a(1)]] by blast
  qed
  ultimately show ?thesis by (simp add: above_def)
qed

lemma downcasts_known_cong:
  assumes wf: "paths_wf plan" and p: "p < n_paths plan"
    and "\<And>q. q \<in> above plan p \<Longrightarrow> disc_of t s' q = disc_of t s q"
  shows "downcasts_known plan t s' p = downcasts_known plan t s p"
  unfolding downcasts_known_def selects_def
  using assms(3) parent_above [OF wf p] by (metis (no_types, lifting))

lemma active_above_cong:
  assumes wf: "paths_wf plan" and p: "p < n_paths plan"
    and "\<And>q. q \<in> above plan p \<Longrightarrow> sel g' q = sel g q"
  shows "active plan g' p = active plan g p"
  unfolding active_def
  using assms(3) parent_above [OF wf p] by (metis (no_types, lifting))

lemma init_sound:
  assumes pt: "plan_topo plan t" and wf: "state_wf plan t s" and p: "p < n_paths plan"
    and con: "consistent s" and known: "downcasts_known plan t s p"
    and so: "sound plan t s g" and f: "fills plan p g g'" and res: "initialize_path p plan t s = Some s'"
  shows "sound plan t s' g'"
proof -
  have all: "sound_on plan t (all_paths plan) s g" using so by (simp add: sound_def)
  have "sound_on plan t (all_paths plan) s' g'"
  proof (rule fills_sound [OF pt wf p _ known f _ _ res])
    show "bits (must_init s) \<subseteq> bits (may_init s)" using con by (simp add: consistent_def)
    show "sound_on plan t (all_paths plan - below plan p) s g" by (rule sound_on_subset [OF all]) simp
    show "compatible plan t (below plan p) s g'"
      by (rule sound_compatible [OF sound_on_subset [OF all below_all_paths] f])
  qed
  moreover have "same_storage s s'"
    using initialize_effect [OF pt wf p] con res by (auto simp: consistent_def framed_def same_storage_def)
  moreover have "live g' = live g" using f by (simp add: fills_def)
  ultimately show ?thesis using so by (simp add: sound_def same_storage_def)
qed

lemma move_out_sound:
  assumes pt: "plan_topo plan t" and wf: "state_wf plan t s" and p: "p < n_paths plan"
    and so: "sound plan t s g" and act: "active plan g p" and res: "clear_path p plan t s = Some s'"
  shows "sound plan t s' (blank_out plan (below plan p) g)"
  using clear_path_sound [OF pt wf p so act] clear_path_effect [OF pt wf p] res by auto

lemma overwrite_sound:
  assumes pt: "plan_topo plan t" and wf: "state_wf plan t s" and p: "p < n_paths plan"
    and con: "consistent s" and known: "downcasts_known plan t s p"
    and so: "sound plan t s g" and act: "active plan g p"
    and f: "fills plan p (blank_out plan (below plan p) g) g'"
    and res: "Option.bind (clear_path p plan t s) (initialize_path p plan t) = Some s'"
  shows "sound plan t s' g'"
proof -
  obtain s1 where s1: "clear_path p plan t s = Some s1"
    "effect plan t s s1 (bits (may_init s) - below plan p - above plan p)
      (bits (must_init s) - below plan p - above plan p) (cleared_disc plan t p s)"
    using clear_path_effect [OF pt wf p] by blast
  have "consistent s1" using con s1(2) by (auto simp: consistent_def effect_def same_storage_def)
  moreover have "downcasts_known plan t s1 p"
  proof -
    have "disc_of t s1 q = disc_of t s q" if "q \<in> above plan p" for q
    proof -
      have "q \<notin> below plan p" "q < n_paths plan"
        using that above_below_disjoint [OF plan_topoD(1) [OF pt] p] by (auto simp: above_def)
      then show ?thesis using s1(2) by (simp add: effect_def cleared_disc_def)
    qed
    then show ?thesis using downcasts_known_cong [OF plan_topoD(1) [OF pt] p] known by blast
  qed
  moreover have "sound plan t s1 (blank_out plan (below plan p) g)"
    by (rule move_out_sound [OF pt wf p so act s1(1)])
  ultimately show ?thesis
    using init_sound [OF pt effect_wf [OF s1(2)] p _ _ _ f] res s1(1) by simp
qed

lemma transfer_sound:
  assumes pt: "plan_topo plan t" and wf: "state_wf plan t s"
    and src: "src < n_paths plan" and dst: "dst < n_paths plan"
    and apart: "\<not> under plan src dst" "\<not> under plan dst src"
    and con: "consistent s" and known: "downcasts_known plan t s dst"
    and so: "sound plan t s g" and act: "active plan g src" "active plan g dst"
    and wsrc: "whole plan g src"
    and f: "fills plan dst (blank_out plan (below plan src \<union> below plan dst) g) g'"
    and same: "is_enum_rule (rule_at plan src) \<and> is_enum_rule (rule_at plan dst) \<longrightarrow> sel g' dst = sel g src"
    and res: "transfer src dst plan t s = Some s'"
  shows "sound plan t s' g'"
proof -
  note pwf = plan_topoD(1) [OF pt]
  let ?both = "is_enum_rule (rule_at plan src) \<and> is_enum_rule (rule_at plan dst)"
  let ?g1 = "blank_out plan (below plan src) g" and ?g2 = "blank_out plan (below plan src \<union> below plan dst) g"
  have g2: "blank_out plan (below plan dst) ?g1 = ?g2"
    by (rule store.equality) (auto simp: fun_eq_iff)
  obtain s3 where "transfer_ready plan t src dst s s3" using transfer_effect [OF pt wf src dst] by blast
  then obtain s1 s2 where s1: "clear_path src plan t s = Some s1"
      "effect plan t s s1 (bits (may_init s) - below plan src - above plan src)
        (bits (must_init s) - below plan src - above plan src) (cleared_disc plan t src s)"
    and s2: "clear_path dst plan t s1 = Some s2"
      "effect plan t s1 s2 (bits (may_init s1) - below plan dst - above plan dst)
        (bits (must_init s1) - below plan dst - above plan dst) (cleared_disc plan t dst s1)"
    and s3: "effect plan t s2 s3 (bits (may_init s2)) (bits (must_init s2))
        (if ?both then (disc_of t s2)(dst := disc_of t s src) else disc_of t s2)"
    and init: "initialize_path dst plan t s3 = Some s'"
    using res by (auto elim: transfer_readyE)
  have out: "q \<notin> below plan src \<and> q \<notin> below plan dst \<and> q < n_paths plan" if "q \<in> above plan dst" for q
  proof -
    have "q \<notin> below plan src"
      using that apart(1) under_trans by (fastforce simp: above_def below_def)
    then show ?thesis using that above_below_disjoint [OF pwf dst] by (auto simp: above_def)
  qed
  have act1: "active plan ?g1 dst" using active_above_cong [OF pwf dst, of ?g1 g] out act(2) by simp
  have so1: "sound plan t s1 ?g1" by (rule move_out_sound [OF pt wf src so act(1) s1(1)])
  have so2: "sound plan t s2 ?g2"
    using move_out_sound [OF pt effect_wf [OF s1(2)] dst so1 act1 s2(1)] g2 by simp
  have dst_not_above: "dst \<notin> above plan dst" by (simp add: above_def)
  have known3: "downcasts_known plan t s3 dst"
  proof -
    have "disc_of t s3 q = disc_of t s q" if q: "q \<in> above plan dst" for q
    proof -
      have "q \<noteq> dst" using q dst_not_above by blast
      then show ?thesis using s1(2) s2(2) s3 out [OF q] by (auto simp: effect_def cleared_disc_def)
    qed
    then show ?thesis using downcasts_known_cong [OF pwf dst] known by blast
  qed
  have con3: "bits (must_init s3) \<subseteq> bits (may_init s3)"
    using con s1(2) s2(2) s3 by (auto simp: consistent_def effect_def)
  have off3: "sound_on plan t (all_paths plan - below plan dst) s3 ?g2"
  proof -
    have "sound_on plan t (all_paths plan - below plan dst) s2 ?g2"
      using so2 by (auto simp: sound_def intro: sound_on_subset)
    moreover have "agree_on plan t (all_paths plan - below plan dst) s2 s3"
      using s3 dst by (auto simp: agree_on_def effect_def)
    moreover have "\<forall>d \<in> all_paths plan - below plan dst. d < n_paths plan" by (simp add: all_paths_def)
    ultimately show ?thesis by (rule iffD2 [OF sound_on_agree, rotated 2])
  qed
  have compat: "compatible plan t (below plan dst) s3 g'"
    unfolding compatible_def
  proof (intro ballI impI)
    fix d assume d: "d \<in> below plan dst" "is_enum_rule (rule_at plan d)"
    have dn: "d < n_paths plan" using d(1) by (rule below_bound)
    show "may_be_unset (disc_of t s3 d) \<or> (\<exists>v \<in> set (possible_variants (disc_of t s3 d)). sel g' d = Some v)"
    proof (cases "?both \<and> d = dst")
      case True
      obtain v where v: "sel g src = Some v" using wsrc True by (auto elim: whole.cases)
      have "disc_allows (disc_of t s src) (sel g src)"
        using so True src by (simp add: sound_def sound_on_def all_paths_def)
      then have "v \<in> set (possible_variants (disc_of t s src))" using v by (simp add: disc_allows_def)
      moreover have "disc_of t s3 d = disc_of t s src" using s3 True dst by (simp add: effect_def)
      ultimately show ?thesis using same True v by auto
    next
      case False
      then have "(if ?both then (disc_of t s2)(dst := disc_of t s src) else disc_of t s2) d = disc_of t s2 d"
        by (cases "d = dst") auto
      then have "disc_of t s3 d = disc_of t s2 d" using s3 dn unfolding effect_def by metis
      also have "\<dots> = ds_unset" using s2(2) dn d(1) by (simp add: effect_def cleared_disc_def)
      finally show ?thesis by (simp add: ds_unset_def)
    qed
  qed
  have "sound_on plan t (all_paths plan) s' g'"
    by (rule fills_sound [OF pt effect_wf [OF s3] dst con3 known3 f off3 compat init])
  moreover have "same_storage s3 s'"
    using initialize_effect [OF pt effect_wf [OF s3] dst con3] init by (auto simp: framed_def same_storage_def)
  moreover have "same_storage s s3" using s1(2) s2(2) s3 by (simp add: effect_def same_storage_def)
  moreover have "live g' = live g" using f by (simp add: fills_def)
  ultimately show ?thesis using so by (simp add: sound_def same_storage_def)
qed

lemma set_discriminant_sound:
  assumes pt: "plan_topo plan t" and wf: "state_wf plan t s" and p: "p < n_paths plan"
    and v: "variant_of plan p v" and so: "sound plan t s g" and act: "active plan g p"
    and res: "set_discriminant p v plan t s = Some s'"
  shows "sound plan t s'
    (let g' = blank_out plan (below plan p) g in g'\<lparr>sel := (sel g')(p := Some v)\<rparr>)"
proof -
  note pwf = plan_topoD(1) [OF pt]
  obtain vs where vs: "rule_at plan p = EnumRoot vs" using v by (auto simp: variant_of_def)
  let ?g0 = "blank_out plan (below plan p) g"
  let ?g = "?g0\<lparr>sel := (sel ?g0)(p := Some v)\<rparr>"
  obtain d where d: "known_variant d v"
    "effect plan t s s' (bits (may_init s) - below plan p - above plan p)
      (bits (must_init s) - below plan p - above plan p) ((cleared_disc plan t p s)(p := d))"
    using set_discriminant_effect [OF pt wf p v] res by auto
  have "sel ?g x = sel g x" if "x \<notin> below plan p" for x
    using that self_below [OF p] by (cases "x = p") simp_all
  then have act': "active plan ?g p" using act active_cong [OF pwf p, of ?g g] by blast
  have notp: "\<not> whole plan ?g x" if "x \<in> below plan p" for x
    by (rule whole_sel_blank [OF pwf p vs _ that]) simp
  have "sound_on plan t {x} s' ?g" if x: "x \<in> all_paths plan" for x
  proof -
    have xn: "x < n_paths plan" using x by (simp add: all_paths_def)
    have at: "sound_on plan t {x} s g" using so x by (auto simp: sound_def intro: sound_on_subset)
    consider "x \<in> below plan p" | "x \<in> above plan p" "x \<notin> below plan p" | "x \<notin> below plan p" "x \<notin> above plan p"
      by blast
    then show ?thesis
    proof cases
      case 1
      then show ?thesis
        using d notp xn
        by (auto simp: sound_on_def effect_def cleared_disc_def disc_allows_def ds_unset_def known_variant_def)
    next
      case 2
      have "\<not> whole plan ?g x" using above_not_whole [OF pwf p act' notp 2(1)] p by simp
      moreover have "x \<noteq> p" using 2(2) p by auto
      ultimately show ?thesis
        using d(2) 2 at xn by (auto simp: sound_on_def effect_def cleared_disc_def)
    next
      case 3
      have "x \<noteq> p" using 3(1) p by auto
      have "whole plan ?g x \<longleftrightarrow> whole plan g x"
        by (rule whole_outside [OF pwf xn below_disjoint [OF p xn 3]]) (use p in auto)
      then show ?thesis
        using d(2) 3 at xn \<open>x \<noteq> p\<close> by (auto simp: sound_on_def effect_def cleared_disc_def)
    qed
  qed
  then have "sound_on plan t (all_paths plan) s' ?g" by (rule sound_on_pointwise)
  then show ?thesis using so d(2) by (auto simp: sound_def effect_def same_storage_def Let_def)
qed

text \<open>An executed operation leaves a store of the right shape.\<close>

lemma store_ok_select:
  assumes wf: "paths_wf plan" and p: "p < n_paths plan" and v: "variant_of plan p v"
    and ok: "store_ok plan g" and act: "active plan g p"
  shows "store_ok plan (let g' = blank_out plan (below plan p) g in g'\<lparr>sel := (sel g')(p := Some v)\<rparr>)"
proof -
  obtain vs where vs: "rule_at plan p = EnumRoot vs" "v \<in> fst ` set vs" using v by (auto simp: variant_of_def)
  let ?cl = "blank_out plan (below plan p) g"
  let ?g = "?cl\<lparr>sel := (sel ?cl)(p := Some v)\<rparr>"
  have ok0: "store_ok plan ?cl" by (rule store_ok_blank_out [OF wf down_closed_below ok])
  have "blank plan ?g c"
    if r: "rule_at plan e = EnumRoot ws" "e < n_paths plan" and wc: "(w, c) \<in> set ws" and ne: "sel ?g e \<noteq> Some w"
    for e ws w c
  proof -
    have child: "c \<in> set (children_of plan e)" using rule_EnumRootD(1) [OF r(1)] wc by blast
    have b0: "blank plan ?cl c"
    proof (cases "e = p")
      case True
      then show ?thesis using blank_out_blank below_child_subset [OF wf] child by blast
    next
      case False
      then show ?thesis using ok0 r wc ne by (fastforce simp: store_ok_def)
    qed
    have "p \<notin> below plan c"
    proof
      assume pc: "p \<in> below plan c"
      have cn: "c < n_paths plan" using below_child(2) [OF wf child] .
      have "c \<in> up plan (Some p)" using pc cn by (simp add: below_def up_def)
      moreover have "downcast_variant (move_paths plan ! c) = Some w"
        using rule_EnumRootD(1) [OF r(1)] wc by blast
      moreover have "path_parent (move_paths plan ! c) = Some e" using child by (simp add: set_children_of)
      ultimately have "sel g e = Some w" using act by (simp add: active_def)
      moreover have "e \<notin> below plan p"
      proof
        assume "e \<in> below plan p"
        then have "e \<in> below plan c" using below_trans pc by blast
        then show False using parent_not_below_child [OF wf child] by blast
      qed
      moreover have "e \<noteq> p" using \<open>e \<notin> _\<close> p by auto
      ultimately show False using ne by simp
    qed
    then show ?thesis using b0 by (auto simp: blank_def)
  qed
  then have variants: "\<forall>e < n_paths plan. \<forall>ws. rule_at plan e = EnumRoot ws \<longrightarrow>
      (\<forall>(w, c) \<in> set ws. sel ?g e \<noteq> Some w \<longrightarrow> blank plan ?g c)" by blast
  have "\<forall>e < n_paths plan. \<forall>ws. rule_at plan e = EnumRoot ws \<longrightarrow> (\<forall>w. sel ?g e = Some w \<longrightarrow> w \<in> fst ` set ws)"
    using ok0 vs by (simp add: store_ok_def split: if_splits)
  moreover have "\<forall>e. sel ?g e \<noteq> None \<longrightarrow> is_enum_rule (rule_at plan e)" "\<forall>d \<in> leaf ?g. rule_at plan d = Explicit"
    using ok0 vs by (auto simp: store_ok_def)
  ultimately have "store_ok plan ?g"
    unfolding store_ok_def using variants by blast
  then show ?thesis by (simp add: Let_def)
qed

lemma exec_op_store_ok:
  assumes wf: "paths_wf plan" and ow: "op_wf plan op" and sf: "op_safe plan g op"
    and ok: "store_ok plan g" and ex: "exec_op plan op g g'"
  shows "store_ok plan g'"
  using ex
proof cases
  case (storage_live l)
  then show ?thesis using store_ok_blank_out [OF wf down_closed_local ok] by simp
next
  case (storage_dead l)
  then show ?thesis using store_ok_blank_out [OF wf down_closed_local ok] by simp
next
  case (move_out p)
  then show ?thesis using store_ok_blank_out [OF wf down_closed_below ok] by simp
next
  case (set_discriminant p v)
  then show ?thesis using store_ok_select [OF wf _ _ ok] ow sf by simp
qed (use ok in \<open>simp_all add: fills_def\<close>)

text \<open>
  The soundness of one operation: if the state describes the store and passes the checks, the
  operation is safe, the analysis goes on, and the new state describes the new store.
\<close>

theorem apply_operation_sound:
  assumes pt: "plan_topo plan t" and dw: "downcasts_wf plan" and wf: "state_wf plan t s"
    and con: "consistent s" and so: "sound plan t s g" and ok: "store_ok plan g"
    and ow: "op_wf plan op" and ch: "op_checked plan t s op" and ex: "exec_op plan op g g'"
  shows "\<exists>s'. apply_operation op plan t s = Some s' \<and> state_wf plan t s' \<and> consistent s' \<and>
    reachable s' = reachable s \<and> sound plan t s' g' \<and> store_ok plan g'"
proof -
  note pwf = plan_topoD(1) [OF pt]
  have safe: "op_safe plan g op" by (rule checked_op_safe [OF pt dw wf so ok ow ch])
  obtain s' where s': "apply_operation op plan t s = Some s'" "state_wf plan t s'" "consistent s'"
    "reachable s' = reachable s"
    using apply_operation_result [OF pt wf con ow] by (auto simp: step_result_def)
  have known: "downcasts_known plan t s p" if "p < n_paths plan" "checked_place plan t s p" for p
    using checked_place_iff [OF pt wf dw that(1)] that(2) by simp
  have "sound plan t s' g'"
  proof (cases op)
    case (StorageLive l)
    then show ?thesis
      using ex start_storage_sound [OF pt wf _ so] ow s'(1) by (auto elim: exec_StorageLiveE)
  next
    case (StorageDead l)
    then show ?thesis
      using ex end_storage_sound [OF pt wf _ so] ow s'(1) by (auto elim: exec_StorageDeadE)
  next
    case (Init p)
    have "fills plan p g g'" using ex Init by (auto elim: exec_InitE)
    then show ?thesis
      using init_sound [OF pt wf _ con known so] Init ow ch s'(1) by simp
  next
    case (MoveOut p)
    then show ?thesis
      using ex move_out_sound [OF pt wf _ so] ow safe s'(1) by (auto elim: exec_MoveOutE)
  next
    case (Overwrite p)
    have "fills plan p (blank_out plan (below plan p) g) g'" using ex Overwrite by (auto elim: exec_OverwriteE)
    then show ?thesis
      using overwrite_sound [OF pt wf _ con known so] Overwrite ow ch safe s'(1) by simp
  next
    case (Transfer src dst k)
    have "fills plan dst (blank_out plan (below plan src \<union> below plan dst) g) g'"
      "is_enum_rule (rule_at plan src) \<and> is_enum_rule (rule_at plan dst) \<longrightarrow> sel g' dst = sel g src"
      using ex Transfer by (auto elim: exec_TransferE)
    moreover have "src < n_paths plan" "dst < n_paths plan" "\<not> under plan src dst" "\<not> under plan dst src"
      using ow Transfer by simp_all
    ultimately show ?thesis
      using transfer_sound [OF pt wf _ _ _ _ con known so] Transfer ch safe s'(1) by simp
  next
    case (SetDiscriminant p v)
    then show ?thesis
      using ex set_discriminant_sound [OF pt wf _ _ so] ow safe s'(1) by (auto elim: exec_SetDiscriminantE)
  next
    case (AssumeDiscriminant p v)
    then have e: "g' = g" "sel g p = Some v" using ex by (auto elim: exec_AssumeDiscriminantE)
    have p: "p < n_paths plan" "variant_of plan p v" using ow AssumeDiscriminant by simp_all
    have "sound_on plan t (all_paths plan) s' g" "same_storage s s'"
      using assume_discriminant_effect [OF pt wf p] con AssumeDiscriminant s'(1) so ok safe e(2)
      by (auto simp: consistent_def sound_def)
    then show ?thesis using so e(1) by (simp add: sound_def same_storage_def)
  qed
  then show ?thesis using s' exec_op_store_ok [OF pwf ow safe ok ex] by blast
qed

end
