(* ===== verification/Cleanup_Lattice.thy ===== *)
theory Cleanup_Lattice
  imports Cleanup_Soundness
begin

text \<open>
  The order in which \<open>MoveState::join_from\<close> of \<open>compiler/src/cleanup.rs\<close> moves.  The contract
  the worklist relies on is \<open>ascending_join\<close>: a join is an upper bound, it says truly whether it
  changed its target, and every change lowers a rank.  \<open>join_from\<close> interprets it on the states
  of one plan.
\<close>

subsection \<open>The contract\<close>

locale ascending_join =
  fixes ok :: "'s \<Rightarrow> bool"
    and le :: "'s \<Rightarrow> 's \<Rightarrow> bool"
    and join :: "'s \<Rightarrow> 's \<Rightarrow> 's \<times> bool"
    and rank :: "'s \<Rightarrow> nat"
  assumes le_refl: "le a a"
    and le_trans: "le a b \<Longrightarrow> le b c \<Longrightarrow> le a c"
    and join_ok: "ok a \<Longrightarrow> ok b \<Longrightarrow> ok (fst (join a b))"
    and join_old: "ok a \<Longrightarrow> ok b \<Longrightarrow> le a (fst (join a b))"
    and join_new: "ok a \<Longrightarrow> ok b \<Longrightarrow> le b (fst (join a b))"
    and join_same: "ok a \<Longrightarrow> ok b \<Longrightarrow> \<not> snd (join a b) \<Longrightarrow> fst (join a b) = a"
    and join_rank: "ok a \<Longrightarrow> ok b \<Longrightarrow> snd (join a b) \<Longrightarrow> rank (fst (join a b)) < rank a"
begin

text \<open>Joining into one slot of a vector of states.\<close>

definition total_rank :: "'s list \<Rightarrow> nat" where
  "total_rank xs = sum_list (map rank xs)"

definition all_le :: "'s list \<Rightarrow> 's list \<Rightarrow> bool" where
  "all_le xs ys \<longleftrightarrow> length xs = length ys \<and> (\<forall>i < length xs. le (xs ! i) (ys ! i))"

lemma all_le_refl: "all_le xs xs"
  by (simp add: all_le_def le_refl)

lemma all_le_trans: "all_le xs ys \<Longrightarrow> all_le ys zs \<Longrightarrow> all_le xs zs"
  unfolding all_le_def using le_trans by (metis (no_types, lifting))

lemma total_rank_update:
  "i < length xs \<Longrightarrow> rank y < rank (xs ! i) \<Longrightarrow> total_rank (xs[i := y]) < total_rank xs"
proof (induction xs arbitrary: i)
  case Nil
  then show ?case by simp
next
  case (Cons x xs)
  show ?case
  proof (cases i)
    case 0
    then show ?thesis using Cons.prems by (simp add: total_rank_def)
  next
    case (Suc j)
    then show ?thesis using Cons by (simp add: total_rank_def)
  qed
qed

lemma join_slot:
  assumes i: "i < length xs" and xs: "\<forall>x \<in> set xs. ok x" and b: "ok b"
    and r: "join (xs ! i) b = (j, ch)"
  shows "\<forall>x \<in> set (xs[i := j]). ok x" and "all_le xs (xs[i := j])" and "le b (xs[i := j] ! i)"
    and "\<not> ch \<Longrightarrow> xs[i := j] = xs" and "ch \<Longrightarrow> total_rank (xs[i := j]) < total_rank xs"
proof -
  have a: "ok (xs ! i)" using xs i by simp
  note facts = join_ok [OF a b] join_old [OF a b] join_new [OF a b] join_same [OF a b] join_rank [OF a b]
  show "\<forall>x \<in> set (xs[i := j]). ok x"
    using xs facts(1) r set_update_subset_insert [of xs i j] by auto
  show "all_le xs (xs[i := j])"
    unfolding all_le_def
  proof (intro conjI allI impI)
    fix k assume "k < length xs"
    then show "le (xs ! k) (xs[i := j] ! k)"
      using facts(2) r le_refl by (cases "k = i") simp_all
  qed simp
  show "le b (xs[i := j] ! i)" using facts(3) r i by simp
  show "\<not> ch \<Longrightarrow> xs[i := j] = xs" using facts(4) r list_update_id [of xs i] by simp
  show "ch \<Longrightarrow> total_rank (xs[i := j]) < total_rank xs"
    using facts(5) r i total_rank_update by simp
qed

end

subsection \<open>The order on move states\<close>

definition ds_le :: "discriminant_state \<Rightarrow> discriminant_state \<Rightarrow> bool" where
  "ds_le d e \<longleftrightarrow> (may_be_unset d \<longrightarrow> may_be_unset e) \<and> set (possible_variants d) \<subseteq> set (possible_variants e)"

definition state_le :: "move_state \<Rightarrow> move_state \<Rightarrow> bool" where
  "state_le s s' \<longleftrightarrow>
     (reachable s \<longrightarrow> reachable s' \<and>
        bits (may_live s) \<subseteq> bits (may_live s') \<and> bits (must_live s') \<subseteq> bits (must_live s) \<and>
        bits (may_init s) \<subseteq> bits (may_init s') \<and> bits (must_init s') \<subseteq> bits (must_init s) \<and>
        list_all2 ds_le (discriminants s) (discriminants s'))"

definition state_ok :: "cleanup_plan \<Rightarrow> move_path_topology \<Rightarrow> move_state \<Rightarrow> bool" where
  "state_ok plan t s \<longleftrightarrow> state_wf plan t s \<and> consistent s"

text \<open>How far a state is from the top: what may still be added to it or taken from it.\<close>

definition room :: "bit_set \<Rightarrow> nat" where
  "room b = 64 * bit_capacity b - card (bits b)"

definition ds_rank :: "discriminant_state \<Rightarrow> nat" where
  "ds_rank d = (if may_be_unset d then 0 else 1) + (CARD(u32) - card (set (possible_variants d)))"

definition state_rank :: "cleanup_plan \<Rightarrow> move_path_topology \<Rightarrow> move_state \<Rightarrow> nat" where
  "state_rank plan t s =
     (if reachable s
      then room (may_live s) + card (bits (must_live s)) + room (may_init s) + card (bits (must_init s)) +
        sum_list (map ds_rank (discriminants s))
      else 128 * capacity_for (length (plan_locals plan)) + 128 * capacity_for (n_paths plan) +
        discriminant_count t * (1 + CARD(u32)) + 1)"

lemma ds_le_refl [simp]: "ds_le d d"
  by (simp add: ds_le_def)

lemma ds_le_trans: "ds_le a b \<Longrightarrow> ds_le b c \<Longrightarrow> ds_le a c"
  by (auto simp: ds_le_def)

lemma state_le_refl: "state_le s s"
  by (simp add: state_le_def list_all2_refl)

lemma ds_les_trans: "list_all2 ds_le as bs \<Longrightarrow> list_all2 ds_le bs cs \<Longrightarrow> list_all2 ds_le as cs"
  by (induction arbitrary: cs rule: list_all2_induct) (auto simp: list_all2_Cons1 intro: ds_le_trans)

lemma state_le_trans: "state_le a b \<Longrightarrow> state_le b c \<Longrightarrow> state_le a c"
  unfolding state_le_def using ds_les_trans by blast

lemma bits_bound: "bits b \<subseteq> {..<64 * bit_capacity b}"
  by (auto simp: bits_def contains_alt bit_capacity_def div64_less_iff [symmetric] simp flip: bits_contains)

lemma finite_bits [simp]: "finite (bits b)"
  using bits_bound finite_subset by blast

lemma card_bits: "card (bits b) \<le> 64 * bit_capacity b"
  using card_mono [OF _ bits_bound [of b]] by simp

lemma room_mono:
  assumes "bit_capacity b = bit_capacity c" "bits b \<subseteq> bits c"
  shows "room c \<le> room b" and "room c = room b \<Longrightarrow> b = c"
proof -
  have le: "card (bits b) \<le> card (bits c)" using assms(2) by (simp add: card_mono)
  then show "room c \<le> room b" using assms(1) by (simp add: room_def)
  show "b = c" if "room c = room b"
  proof -
    have "card (bits b) = card (bits c)"
      using that le assms(1) card_bits [of c] by (simp add: room_def)
    then have "bits b = bits c" using assms(2) by (simp add: card_subset_eq)
    then show ?thesis using bits_eqI assms(1) by blast
  qed
qed

lemma card_shrink:
  assumes "bit_capacity b = bit_capacity c" "bits c \<subseteq> bits b"
  shows "card (bits c) \<le> card (bits b)" and "card (bits c) = card (bits b) \<Longrightarrow> b = c"
  using assms bits_eqI card_subset_eq [OF finite_bits assms(2)] by (auto simp: card_mono)

lemma ds_rank_mono:
  assumes "ds_ok d" "ds_ok e" "ds_le d e"
  shows "ds_rank e \<le> ds_rank d" and "ds_rank e = ds_rank d \<Longrightarrow> d = e"
proof -
  let ?D = "set (possible_variants d)" and ?E = "set (possible_variants e)"
  have sub: "?D \<subseteq> ?E" using assms(3) by (simp add: ds_le_def)
  have le: "card ?D \<le> card ?E" by (rule card_mono [OF _ sub]) simp
  have max: "card ?E \<le> CARD(u32)" by (rule card_mono) simp_all
  show "ds_rank e \<le> ds_rank d" using le assms(3) by (auto simp: ds_rank_def ds_le_def)
  show "d = e" if "ds_rank e = ds_rank d"
  proof -
    have "may_be_unset d = may_be_unset e" "card ?D = card ?E"
      using that le max assms(3) unfolding ds_rank_def ds_le_def by (auto split: if_splits)
    then have "possible_variants d = possible_variants e"
      using card_subset_eq [OF _ sub] assms(1,2) by (auto simp: ds_ok_def intro: sorted_distinct_set_unique)
    with \<open>may_be_unset d = _\<close> show ?thesis by (intro discriminant_state.equality) simp_all
  qed
qed

lemma ds_rank_list_mono:
  assumes "list_all2 ds_le ds es" "\<forall>d \<in> set ds. ds_ok d" "\<forall>e \<in> set es. ds_ok e"
  shows "sum_list (map ds_rank es) \<le> sum_list (map ds_rank ds) \<and>
    (sum_list (map ds_rank es) = sum_list (map ds_rank ds) \<longrightarrow> ds = es)"
  using assms
proof (induction rule: list_all2_induct)
  case Nil
  then show ?case by simp
next
  case (Cons d ds e es)
  note r = ds_rank_mono [of d e]
  have "ds_rank e \<le> ds_rank d" using r(1) Cons.hyps(1) Cons.prems by simp
  moreover have "ds_rank e = ds_rank d \<Longrightarrow> d = e" using r(2) Cons.hyps(1) Cons.prems by simp
  moreover have "sum_list (map ds_rank es) \<le> sum_list (map ds_rank ds) \<and>
      (sum_list (map ds_rank es) = sum_list (map ds_rank ds) \<longrightarrow> ds = es)"
    using Cons.IH Cons.prems by simp
  ultimately show ?case by fastforce
qed

subsection \<open>Joining two reachable states\<close>

definition joined :: "move_state \<Rightarrow> move_state \<Rightarrow> move_state" where
  "joined s i = s\<lparr>may_live := bitset_union_with (may_live s) (may_live i),
                  must_live := bitset_intersect_with (must_live s) (must_live i),
                  may_init := bitset_union_with (may_init s) (may_init i),
                  must_init := bitset_intersect_with (must_init s) (must_init i),
                  discriminants := zip_update ds_join_with (discriminants s) (discriminants i)\<rparr>"

lemma join_from_cases:
  "join_from s i =
     (if \<not> reachable i then (s, False) else if \<not> reachable s then (i, True)
      else (joined s i, joined s i \<noteq> s))"
  by (simp add: join_from_def joined_def Let_def)

lemma zip_update_join:
  assumes "length ds = length es" "\<forall>d \<in> set ds. ds_ok d"
  shows "(\<forall>d \<in> set (zip_update ds_join_with ds es). ds_ok d) \<and>
    list_all2 ds_le ds (zip_update ds_join_with ds es) \<and> list_all2 ds_le es (zip_update ds_join_with ds es)"
  using assms
proof (induction ds es rule: list_induct2)
  case Nil
  then show ?case by simp
next
  case (Cons d ds e es)
  then show ?case using ds_join_with_spec [of d e] by (auto simp: ds_le_def)
qed

lemma joined_facts:
  assumes "state_ok plan t s" "state_ok plan t i"
  shows "state_ok plan t (joined s i)" "bits (may_live (joined s i)) = bits (may_live s) \<union> bits (may_live i)"
    "bits (must_live (joined s i)) = bits (must_live s) \<inter> bits (must_live i)"
    "bits (may_init (joined s i)) = bits (may_init s) \<union> bits (may_init i)"
    "bits (must_init (joined s i)) = bits (must_init s) \<inter> bits (must_init i)"
    "reachable (joined s i) = reachable s"
    "list_all2 ds_le (discriminants s) (discriminants (joined s i))"
    "list_all2 ds_le (discriminants i) (discriminants (joined s i))"
proof -
  have z: "(\<forall>d \<in> set (zip_update ds_join_with (discriminants s) (discriminants i)). ds_ok d) \<and>
    list_all2 ds_le (discriminants s) (zip_update ds_join_with (discriminants s) (discriminants i)) \<and>
    list_all2 ds_le (discriminants i) (zip_update ds_join_with (discriminants s) (discriminants i))"
    by (rule zip_update_join) (use assms in \<open>auto simp: state_ok_def state_wf_def\<close>)
  show b: "bits (may_live (joined s i)) = bits (may_live s) \<union> bits (may_live i)"
    "bits (must_live (joined s i)) = bits (must_live s) \<inter> bits (must_live i)"
    "bits (may_init (joined s i)) = bits (may_init s) \<union> bits (may_init i)"
    "bits (must_init (joined s i)) = bits (must_init s) \<inter> bits (must_init i)"
    "reachable (joined s i) = reachable s"
    using assms by (simp_all add: joined_def state_ok_def state_wf_def bits_union_with bits_intersect_with)
  show "list_all2 ds_le (discriminants s) (discriminants (joined s i))"
    "list_all2 ds_le (discriminants i) (discriminants (joined s i))"
    using z by (simp_all add: joined_def)
  have "consistent (joined s i)" using assms unfolding consistent_def b by (auto simp: state_ok_def consistent_def)
  moreover have "state_wf plan t (joined s i)"
    using assms z by (simp add: joined_def state_ok_def state_wf_def)
  ultimately show "state_ok plan t (joined s i)" by (simp add: state_ok_def)
qed

lemma capacity_eqs:
  assumes "state_ok plan t s" "state_ok plan t s'"
  shows "bit_capacity (may_live s) = bit_capacity (may_live s')"
    "bit_capacity (must_live s) = bit_capacity (must_live s')"
    "bit_capacity (may_init s) = bit_capacity (may_init s')"
    "bit_capacity (must_init s) = bit_capacity (must_init s')"
  using assms by (simp_all add: state_ok_def state_wf_def)

lemma state_rank_less:
  assumes ok: "state_ok plan t s" "state_ok plan t s'" and r: "reachable s" "reachable s'"
    and le: "state_le s s'" and ne: "s' \<noteq> s"
  shows "state_rank plan t s' < state_rank plan t s"
proof -
  note caps = capacity_eqs [OF ok]
  have sub: "bits (may_live s) \<subseteq> bits (may_live s')" "bits (must_live s') \<subseteq> bits (must_live s)"
    "bits (may_init s) \<subseteq> bits (may_init s')" "bits (must_init s') \<subseteq> bits (must_init s)"
    "list_all2 ds_le (discriminants s) (discriminants s')"
    using le r by (auto simp: state_le_def)
  have dsok: "\<forall>d \<in> set (discriminants s). ds_ok d" "\<forall>d \<in> set (discriminants s'). ds_ok d"
    using ok by (auto simp: state_ok_def state_wf_def)
  note m1 = room_mono [OF caps(1) sub(1)] and m2 = card_shrink [OF caps(2) sub(2)]
    and m3 = room_mono [OF caps(3) sub(3)] and m4 = card_shrink [OF caps(4) sub(4)]
    and m5 = ds_rank_list_mono [OF sub(5) dsok]
  have "state_rank plan t s' \<le> state_rank plan t s"
    using m1(1) m2(1) m3(1) m4(1) m5 r by (simp add: state_rank_def)
  moreover have "state_rank plan t s' \<noteq> state_rank plan t s"
  proof
    assume "state_rank plan t s' = state_rank plan t s"
    then have "room (may_live s') = room (may_live s)" "card (bits (must_live s')) = card (bits (must_live s))"
      "room (may_init s') = room (may_init s)" "card (bits (must_init s')) = card (bits (must_init s))"
      "sum_list (map ds_rank (discriminants s')) = sum_list (map ds_rank (discriminants s))"
      using m1(1) m2(1) m3(1) m4(1) m5 r by (auto simp: state_rank_def)
    then have "s' = s" using m1(2) m2(2) m3(2) m4(2) m5 r by (intro move_state.equality) auto
    with ne show False by simp
  qed
  ultimately show ?thesis by simp
qed

lemma ds_rank_le: "ds_rank d \<le> 1 + CARD(u32)"
  unfolding ds_rank_def by (cases "may_be_unset d") simp_all

lemma ds_rank_sum: "sum_list (map ds_rank ds) \<le> length ds * (1 + CARD(u32))"
proof (induction ds)
  case Nil
  show ?case by simp
next
  case (Cons d ds)
  have "sum_list (map ds_rank (d # ds)) \<le> (1 + CARD(u32)) + length ds * (1 + CARD(u32))"
    using add_mono [OF ds_rank_le [of d] Cons.IH] by simp
  then show ?case by simp
qed

lemma state_rank_reachable:
  assumes "state_ok plan t s" "reachable s" "\<not> reachable s'"
  shows "state_rank plan t s < state_rank plan t s'"
proof -
  from ds_rank_sum [of "discriminants s"]
  have "sum_list (map ds_rank (discriminants s)) \<le> discriminant_count t * (1 + CARD(u32))"
    using assms(1) by (simp add: state_ok_def state_wf_def)
  moreover have "room b \<le> 64 * bit_capacity b" for b by (simp add: room_def)
  ultimately show ?thesis
    using assms card_bits [of "must_live s"] card_bits [of "must_init s"]
      \<open>\<And>b. room b \<le> 64 * bit_capacity b\<close> [of "may_live s"]
      \<open>\<And>b. room b \<le> 64 * bit_capacity b\<close> [of "may_init s"]
    by (simp add: state_rank_def state_ok_def state_wf_def)
qed

interpretation mj: ascending_join "state_ok plan t" state_le join_from "state_rank plan t"
  for plan :: cleanup_plan and t :: move_path_topology
proof unfold_locales
  show "state_le a a" for a by (rule state_le_refl)
  show "state_le a b \<Longrightarrow> state_le b c \<Longrightarrow> state_le a c" for a b c by (rule state_le_trans)
  fix a b assume ok: "state_ok plan t a" "state_ok plan t b"
  note j = joined_facts [OF ok]
  show "state_ok plan t (fst (join_from a b))" using ok j(1) by (simp add: join_from_cases)
  have jle: "state_le a (joined a b)" "reachable a \<Longrightarrow> state_le b (joined a b)"
    using j by (auto simp: state_le_def)
  show "state_le a (fst (join_from a b))"
    using jle(1) state_le_refl by (auto simp: join_from_cases state_le_def)
  show "state_le b (fst (join_from a b))"
    using jle(2) state_le_refl by (simp add: join_from_cases) (simp add: state_le_def)
  show "\<not> snd (join_from a b) \<Longrightarrow> fst (join_from a b) = a" by (auto simp: join_from_cases split: if_splits)
  show "state_rank plan t (fst (join_from a b)) < state_rank plan t a" if ch: "snd (join_from a b)"
  proof (cases "reachable a")
    case True
    then have "reachable b" "joined a b \<noteq> a" using ch by (auto simp: join_from_cases split: if_splits)
    then show ?thesis
      using state_rank_less [OF ok(1) j(1) True _ jle(1)] j(6) True by (simp add: join_from_cases)
  next
    case False
    then have "reachable b" using ch by (auto simp: join_from_cases split: if_splits)
    then show ?thesis using state_rank_reachable [OF ok(2)] False by (simp add: join_from_cases)
  qed
qed

text \<open>A state above one that describes a store describes it too.\<close>

lemma ds_le_allows: "ds_le d e \<Longrightarrow> disc_allows d v \<Longrightarrow> disc_allows e v"
  by (auto simp: ds_le_def disc_allows_def split: option.splits)

lemma state_le_disc:
  assumes "plan_topo plan t" "state_wf plan t s" "state_le s s'" "reachable s" "p < n_paths plan"
  shows "ds_le (disc_of t s p) (disc_of t s' p)"
proof (cases "discriminant_index t ! p")
  case None
  then show ?thesis by (simp add: disc_of_def)
next
  case (Some i)
  have "i < length (discriminants s)"
    using discriminant_index_bound [OF assms(1,5) Some] assms(2) by (simp add: state_wf_def)
  moreover have "list_all2 ds_le (discriminants s) (discriminants s')" using assms(3,4) by (simp add: state_le_def)
  ultimately show ?thesis using Some by (simp add: disc_of_def list_all2_conv_all_nth)
qed

lemma sound_mono:
  assumes pt: "plan_topo plan t" and wf: "state_wf plan t s" and le: "state_le s s'" and r: "reachable s"
    and so: "sound plan t s g"
  shows "sound plan t s' g"
proof -
  have "sound_on plan t (all_paths plan) s' g"
    unfolding sound_on_def
  proof (intro ballI conjI impI)
    fix d assume d: "d \<in> all_paths plan"
    have at: "(d \<in> bits (must_init s) \<longrightarrow> whole plan g d) \<and> (whole plan g d \<longrightarrow> d \<in> bits (may_init s)) \<and>
        (is_enum_rule (rule_at plan d) \<longrightarrow> disc_allows (disc_of t s d) (sel g d))"
      using so d unfolding sound_def sound_on_def by blast
    show "d \<in> bits (must_init s') \<Longrightarrow> whole plan g d" "whole plan g d \<Longrightarrow> d \<in> bits (may_init s')"
      using at le r by (auto simp: state_le_def)
    show "is_enum_rule (rule_at plan d) \<Longrightarrow> disc_allows (disc_of t s' d) (sel g d)"
      using at ds_le_allows state_le_disc [OF pt wf le r] d by (auto simp: all_paths_def)
  qed
  then show ?thesis using so le r by (auto simp: sound_def state_le_def)
qed

text \<open>The join is below every state above both of its arguments.\<close>

lemma zip_update_least:
  assumes "length ds = length es" "\<forall>d \<in> set ds. ds_ok d" "list_all2 ds_le ds cs" "list_all2 ds_le es cs"
  shows "list_all2 ds_le (zip_update ds_join_with ds es) cs"
  using assms
proof (induction ds es arbitrary: cs rule: list_induct2)
  case Nil
  then show ?case by simp
next
  case (Cons d ds e es)
  then show ?case using ds_join_with_spec [of d e] by (auto simp: list_all2_Cons1 ds_le_def)
qed

lemma join_least:
  assumes ok: "state_ok plan t a" "state_ok plan t b" and le: "state_le a c" "state_le b c"
  shows "state_le (fst (join_from a b)) c"
proof (cases "reachable a \<and> reachable b")
  case True
  have "list_all2 ds_le (discriminants (joined a b)) (discriminants c)"
    unfolding joined_def using zip_update_least ok le True by (auto simp: state_le_def state_ok_def state_wf_def)
  then show ?thesis using True le joined_facts [OF ok] by (auto simp: join_from_cases state_le_def)
next
  case False
  then show ?thesis using le by (auto simp: join_from_cases)
qed
end
