(* ===== verification/Cleanup_Analysis.thy ===== *)
theory Cleanup_Analysis
  imports Cleanup_Lattice
begin

text \<open>
  \<open>MoveStateAnalysis\<close> of \<open>compiler/src/cleanup.rs\<close>: the worklist that computes the move state at
  the entry and at the exit of every basic block, and the questions asked of the result.  The
  contract between the worklist and the states it joins is the locale \<open>ascending_join\<close>; the
  model's \<open>join_from\<close> interprets it.  The worklist ends and its result is a solution of the flow
  equations.
\<close>

subsection \<open>The code\<close>

definition terminator_edges :: "terminator \<Rightarrow> cleanup_edge list" where
  "terminator_edges term =
     (case term of
        Goto edge \<Rightarrow> [edge]
      | Branch _ then_edge else_edge \<Rightarrow> [then_edge, else_edge]
      | Return _ \<Rightarrow> []
      | Abort \<Rightarrow> []
      | Unreachable \<Rightarrow> [])"

definition exit_scope :: "cleanup_plan \<Rightarrow> move_path_topology \<Rightarrow> scope_id \<Rightarrow> move_state \<Rightarrow> move_state option" where
  "exit_scope plan t sc s = do {
     data \<leftarrow> nth_opt (scopes plan) sc;
     fold_opt (\<lambda>l s. end_storage l t s) (scope_locals data) s }"

definition exit_scopes ::
    "cleanup_plan \<Rightarrow> move_path_topology \<Rightarrow> cleanup_edge \<Rightarrow> move_state \<Rightarrow> move_state option" where
  "exit_scopes plan t edge s = fold_opt (exit_scope plan t) (exited_scopes edge) s"

record worklist =
  wl_entry :: "move_state list"
  wl_exit :: "move_state list"
  wl_queue :: "basic_block_id list"
  wl_queued :: "bool list"

definition enqueue :: "basic_block_id \<Rightarrow> worklist \<Rightarrow> worklist option" where
  "enqueue b w = do {
     q \<leftarrow> nth_opt (wl_queued w) b;
     if q then Some w
     else do {
       qs \<leftarrow> upd_opt (wl_queued w) b True;
       Some (w\<lparr>wl_queue := wl_queue w @ [b], wl_queued := qs\<rparr>) } }"

definition propagate_edge ::
    "cleanup_plan \<Rightarrow> move_path_topology \<Rightarrow> move_state \<Rightarrow> cleanup_edge \<Rightarrow> worklist \<Rightarrow> worklist option" where
  "propagate_edge plan t state edge w = do {
     edge_state \<leftarrow> exit_scopes plan t edge state;
     old \<leftarrow> nth_opt (wl_entry w) (edge_target edge);
     let (joined, changed) = join_from old edge_state;
     entries \<leftarrow> upd_opt (wl_entry w) (edge_target edge) joined;
     let w = w\<lparr>wl_entry := entries\<rparr>;
     if changed then enqueue (edge_target edge) w else Some w }"

text \<open>One iteration for the block taken from the front of the queue.\<close>

definition visit_block ::
    "cleanup_plan \<Rightarrow> move_path_topology \<Rightarrow> basic_block_id \<Rightarrow> worklist \<Rightarrow> worklist option" where
  "visit_block plan t b w = do {
     qs \<leftarrow> upd_opt (wl_queued w) b False;
     let w = w\<lparr>wl_queued := qs\<rparr>;
     block \<leftarrow> nth_opt (blocks plan) b;
     entry \<leftarrow> nth_opt (wl_entry w) b;
     state \<leftarrow> apply_operations plan t (operations block) entry;
     old_exit \<leftarrow> nth_opt (wl_exit w) b;
     if state = old_exit then Some w
     else do {
       exits \<leftarrow> upd_opt (wl_exit w) b state;
       term \<leftarrow> block_terminator block;
       fold_opt (propagate_edge plan t state) (terminator_edges term) (w\<lparr>wl_exit := exits\<rparr>) } }"

partial_function (option) worklist_loop ::
    "cleanup_plan \<Rightarrow> move_path_topology \<Rightarrow> worklist \<Rightarrow> worklist option" where
  [code]: "worklist_loop plan t w =
     (case wl_queue w of
        [] \<Rightarrow> Some w
      | b # rest \<Rightarrow> do {
          w \<leftarrow> visit_block plan t b (w\<lparr>wl_queue := rest\<rparr>);
          worklist_loop plan t w })"

definition analysis_compute :: "cleanup_plan \<Rightarrow> move_path_topology \<Rightarrow> move_state_analysis option" where
  "analysis_compute plan t = do {
     let n = length (blocks plan);
     entries \<leftarrow> upd_opt (replicate n (move_state_new False t)) (plan_entry plan) (move_state_new True t);
     queued \<leftarrow> upd_opt (replicate n False) (plan_entry plan) True;
     w \<leftarrow> worklist_loop plan t
            \<lparr>wl_entry = entries, wl_exit = replicate n (move_state_new False t),
             wl_queue = [plan_entry plan], wl_queued = queued\<rparr>;
     Some \<lparr>ms_computed = True, topology = t, ms_block_entry = wl_entry w, ms_block_exit = wl_exit w\<rparr> }"

text \<open>
  The questions: the outer option is a panic, the inner one the \<open>Option\<close> the code returns.
\<close>

definition state_before ::
    "move_state_analysis \<Rightarrow> cleanup_plan \<Rightarrow> basic_block_id \<Rightarrow> nat \<Rightarrow> move_state option option" where
  "state_before a plan b i =
     (if \<not> ms_computed a then Some None
      else
        (case nth_opt (blocks plan) b of
           None \<Rightarrow> Some None
         | Some block \<Rightarrow>
             if length (operations block) < i then Some None
             else
               (case nth_opt (ms_block_entry a) b of
                  None \<Rightarrow> Some None
                | Some entry \<Rightarrow> do {
                    s \<leftarrow> apply_operations plan (topology a) (take i (operations block)) entry;
                    Some (Some s) })))"

definition path_initialization_before ::
    "move_state_analysis \<Rightarrow> cleanup_plan \<Rightarrow> basic_block_id \<Rightarrow> nat \<Rightarrow> move_path_id \<Rightarrow>
     path_initialization option option" where
  "path_initialization_before a plan b i p =
     (if length (topo_children (topology a)) \<le> p then Some None
      else do {
        s \<leftarrow> state_before a plan b i;
        (case s of
           None \<Rightarrow> Some None
         | Some s \<Rightarrow> do { r \<leftarrow> path_initialization_of s (topology a) p; Some (Some r) }) })"

definition storage_liveness_before ::
    "move_state_analysis \<Rightarrow> cleanup_plan \<Rightarrow> basic_block_id \<Rightarrow> nat \<Rightarrow> local_id \<Rightarrow>
     storage_liveness option option" where
  "storage_liveness_before a plan b i l =
     (if length (roots_by_local (topology a)) \<le> l then Some None
      else do {
        s \<leftarrow> state_before a plan b i;
        Some (map_option (\<lambda>s. storage_liveness_of s l) s) })"

definition possible_variants_before ::
    "move_state_analysis \<Rightarrow> cleanup_plan \<Rightarrow> basic_block_id \<Rightarrow> nat \<Rightarrow> move_path_id \<Rightarrow>
     (bool \<times> u32 list) option option" where
  "possible_variants_before a plan b i p = do {
     s \<leftarrow> state_before a plan b i;
     Some (do {
       s \<leftarrow> s;
       di \<leftarrow> nth_opt (discriminant_index (topology a)) p;
       i \<leftarrow> di;
       d \<leftarrow> nth_opt (discriminants s) i;
       Some (may_be_unset d, possible_variants d) }) }"

subsection \<open>Well-formed control flow\<close>

definition n_blocks :: "cleanup_plan \<Rightarrow> nat" where
  "n_blocks plan = length (blocks plan)"

definition block_edges :: "basic_block \<Rightarrow> cleanup_edge list" where
  "block_edges b = (case block_terminator b of None \<Rightarrow> [] | Some term \<Rightarrow> terminator_edges term)"

definition edge_wf :: "cleanup_plan \<Rightarrow> cleanup_edge \<Rightarrow> bool" where
  "edge_wf plan e \<longleftrightarrow> edge_target e < n_blocks plan \<and>
     (\<forall>sc \<in> set (exited_scopes e). sc < length (scopes plan) \<and>
        (\<forall>l \<in> set (scope_locals (scopes plan ! sc)). l < length (plan_locals plan)))"

definition block_wf :: "cleanup_plan \<Rightarrow> basic_block \<Rightarrow> bool" where
  "block_wf plan b \<longleftrightarrow> (\<forall>op \<in> set (operations b). op_wf plan op) \<and> block_terminator b \<noteq> None \<and>
     (\<forall>e \<in> set (block_edges b). edge_wf plan e)"

definition flow_wf :: "cleanup_plan \<Rightarrow> bool" where
  "flow_wf plan \<longleftrightarrow> plan_entry plan < n_blocks plan \<and> (\<forall>b \<in> set (blocks plan). block_wf plan b)"

lemma block_wfD: "flow_wf plan \<Longrightarrow> b < n_blocks plan \<Longrightarrow> block_wf plan (blocks plan ! b)"
  by (simp add: flow_wf_def n_blocks_def)

definition result_ok :: "cleanup_plan \<Rightarrow> move_path_topology \<Rightarrow> move_state \<Rightarrow> move_state option \<Rightarrow> bool" where
  "result_ok plan t s r \<longleftrightarrow> (\<exists>s'. r = Some s' \<and> state_ok plan t s' \<and> reachable s' = reachable s)"

lemma fold_result_ok:
  assumes "\<And>x s. x \<in> set xs \<Longrightarrow> state_ok plan t s \<Longrightarrow> result_ok plan t s (f x s)" and "state_ok plan t s"
  shows "result_ok plan t s (fold_opt f xs s)"
proof -
  have "\<exists>s'. fold_opt f xs s = Some s' \<and> (state_ok plan t s' \<and> reachable s' = reachable s)"
    by (rule fold_opt_inv) (use assms in \<open>auto simp: result_ok_def\<close>)
  then show ?thesis by (simp add: result_ok_def)
qed

lemma apply_operations_ok:
  assumes "plan_topo plan t" "state_ok plan t s" "\<forall>op \<in> set ops. op_wf plan op"
  shows "result_ok plan t s (apply_operations plan t ops s)"
  unfolding apply_operations_def
proof (rule fold_result_ok [OF _ assms(2)])
  fix op s assume "op \<in> set ops" "state_ok plan t s"
  then show "result_ok plan t s (apply_operation op plan t s)"
    using apply_operation_result [OF assms(1), of s op] assms(3)
    by (auto simp: result_ok_def step_result_def state_ok_def)
qed

lemma end_storage_ok:
  assumes "plan_topo plan t" "state_ok plan t s" "l < length (plan_locals plan)"
  shows "result_ok plan t s (end_storage l t s)"
  using apply_operation_result [OF assms(1), of s "StorageDead l"] assms(2,3)
  by (auto simp: result_ok_def step_result_def state_ok_def)

lemma exit_scopes_ok:
  assumes pt: "plan_topo plan t" and ok: "state_ok plan t s" and e: "edge_wf plan e"
  shows "result_ok plan t s (exit_scopes plan t e s)"
  unfolding exit_scopes_def
proof (rule fold_result_ok [OF _ ok])
  fix sc s assume sc: "sc \<in> set (exited_scopes e)" and s: "state_ok plan t s"
  have "result_ok plan t s (fold_opt (\<lambda>l s. end_storage l t s) (scope_locals (scopes plan ! sc)) s)"
    by (rule fold_result_ok [OF _ s]) (use end_storage_ok [OF pt] e sc in \<open>auto simp: edge_wf_def\<close>)
  then show "result_ok plan t s (exit_scope plan t sc s)"
    using e sc by (simp add: exit_scope_def edge_wf_def)
qed

lemma state_new_ok: "plan_topo plan t \<Longrightarrow> state_ok plan t (move_state_new r t)"
  by (auto simp: state_ok_def state_wf_def move_state_new_def consistent_def)

subsection \<open>The worklist\<close>

text \<open>\<open>flows e s s'\<close>: what leaves along edge \<open>e\<close> in state \<open>s\<close> is covered by \<open>s'\<close>.\<close>

definition flows ::
    "cleanup_plan \<Rightarrow> move_path_topology \<Rightarrow> cleanup_edge \<Rightarrow> move_state \<Rightarrow> move_state \<Rightarrow> bool" where
  "flows plan t e s s' \<longleftrightarrow> (\<exists>out. exit_scopes plan t e s = Some out \<and> state_le out s')"

definition shape_ok :: "cleanup_plan \<Rightarrow> move_path_topology \<Rightarrow> worklist \<Rightarrow> bool" where
  "shape_ok plan t w \<longleftrightarrow>
     length (wl_entry w) = n_blocks plan \<and> length (wl_exit w) = n_blocks plan \<and>
     length (wl_queued w) = n_blocks plan \<and>
     (\<forall>s \<in> set (wl_entry w). state_ok plan t s) \<and> (\<forall>s \<in> set (wl_exit w). state_ok plan t s) \<and>
     distinct (wl_queue w) \<and> (\<forall>b < n_blocks plan. wl_queued w ! b \<longleftrightarrow> b \<in> set (wl_queue w)) \<and>
     (\<forall>b \<in> set (wl_queue w). b < n_blocks plan \<and> reachable (wl_entry w ! b)) \<and>
     plan_entry plan < n_blocks plan \<and>
     state_le (move_state_new True t) (wl_entry w ! plan_entry plan)"

text \<open>Every block is queued or settled, every edge is pending or covered.\<close>

definition settled :: "cleanup_plan \<Rightarrow> move_path_topology \<Rightarrow> worklist \<Rightarrow> bool" where
  "settled plan t w \<longleftrightarrow>
     (\<forall>b < n_blocks plan. b \<notin> set (wl_queue w) \<longrightarrow> reachable (wl_entry w ! b) \<longrightarrow>
        apply_operations plan t (operations (blocks plan ! b)) (wl_entry w ! b) = Some (wl_exit w ! b))"

definition covered :: "cleanup_plan \<Rightarrow> move_path_topology \<Rightarrow> (basic_block_id \<times> cleanup_edge) set \<Rightarrow> worklist \<Rightarrow> bool" where
  "covered plan t pending w \<longleftrightarrow>
     (\<forall>b < n_blocks plan. reachable (wl_exit w ! b) \<longrightarrow>
        (\<forall>e \<in> set (block_edges (blocks plan ! b)). (b, e) \<in> pending \<or>
           flows plan t e (wl_exit w ! b) (wl_entry w ! edge_target e)))"

definition wl_inv where
  "wl_inv plan t pending w \<longleftrightarrow> shape_ok plan t w \<and> settled plan t w \<and> covered plan t pending w"

definition wl_less :: "cleanup_plan \<Rightarrow> move_path_topology \<Rightarrow> worklist \<Rightarrow> worklist \<Rightarrow> bool" where
  "wl_less plan t w' w \<longleftrightarrow>
     mj.total_rank plan t (wl_entry w') < mj.total_rank plan t (wl_entry w) \<or>
     mj.total_rank plan t (wl_entry w') = mj.total_rank plan t (wl_entry w) \<and>
       length (wl_queue w') < length (wl_queue w)"

lemma flows_mono: "flows plan t e s s' \<Longrightarrow> state_le s' s'' \<Longrightarrow> flows plan t e s s''"
  unfolding flows_def using state_le_trans by blast

lemma propagate_edge_ok:
  assumes pt: "plan_topo plan t" and inv: "wl_inv plan t (insert (b, e) pending) w"
    and b: "b < n_blocks plan" and state: "wl_exit w ! b = state" "reachable state"
    and e: "e \<in> set (block_edges (blocks plan ! b))" "edge_wf plan e"
  shows "\<exists>w'. propagate_edge plan t state e w = Some w' \<and> wl_inv plan t pending w' \<and>
    wl_exit w' = wl_exit w \<and>
    (mj.total_rank plan t (wl_entry w') < mj.total_rank plan t (wl_entry w) \<or>
     wl_entry w' = wl_entry w \<and> wl_queue w' = wl_queue w)"
proof -
  note shape = inv [unfolded wl_inv_def, THEN conjunct1]
  let ?k = "edge_target e"
  have k: "?k < n_blocks plan" using e(2) by (simp add: edge_wf_def)
  have lens: "length (wl_entry w) = n_blocks plan" "length (wl_exit w) = n_blocks plan"
    "length (wl_queued w) = n_blocks plan" using shape by (simp_all add: shape_ok_def)
  have "state_ok plan t state" using shape b state(1) lens by (auto simp: shape_ok_def)
  then obtain out where out: "exit_scopes plan t e state = Some out" "state_ok plan t out" "reachable out"
    using exit_scopes_ok [OF pt _ e(2)] state(2) by (auto simp: result_ok_def)
  obtain j ch where j: "join_from (wl_entry w ! ?k) out = (j, ch)" by fastforce
  have oks: "\<forall>x \<in> set (wl_entry w). state_ok plan t x" using shape by (simp add: shape_ok_def)
  have "?k < length (wl_entry w)" using k lens by simp
  note slot = mj.join_slot [OF this oks out(2) j]
  let ?es = "(wl_entry w)[?k := j]"
  have le: "state_le (wl_entry w ! x) (?es ! x)" if "x < n_blocks plan" for x
    using slot(2) that lens by (simp add: mj.all_le_def)
  have cov: "covered plan t pending (w\<lparr>wl_entry := ?es, wl_queue := q, wl_queued := qd\<rparr>)" for q qd
    unfolding covered_def
  proof (intro allI impI ballI)
    fix x f
    assume x: "x < n_blocks plan" "reachable (wl_exit (w\<lparr>wl_entry := ?es, wl_queue := q, wl_queued := qd\<rparr>) ! x)"
      "f \<in> set (block_edges (blocks plan ! x))"
    have "(x, f) \<in> insert (b, e) pending \<or> flows plan t f (wl_exit w ! x) (wl_entry w ! edge_target f)"
      using inv x by (simp add: wl_inv_def covered_def)
    moreover have "edge_target f < n_blocks plan \<or> (x, f) = (b, e) \<or> (x, f) \<in> pending \<or>
        flows plan t f (wl_exit w ! x) (?es ! edge_target f)"
    proof (cases "edge_target f < n_blocks plan")
      case False
      then have "?es ! edge_target f = wl_entry w ! edge_target f" using k by simp
      then show ?thesis using calculation by auto
    qed simp
    moreover have "flows plan t f (wl_exit w ! x) (?es ! edge_target f)" if "(x, f) = (b, e)"
      using that out(1) slot(3) state(1) by (auto simp: flows_def)
    ultimately show "(x, f) \<in> pending \<or> flows plan t f (wl_exit (w\<lparr>wl_entry := ?es, wl_queue := q, wl_queued := qd\<rparr>) ! x)
        (wl_entry (w\<lparr>wl_entry := ?es, wl_queue := q, wl_queued := qd\<rparr>) ! edge_target f)"
      using flows_mono le by auto
  qed
  show ?thesis
  proof (cases "ch \<and> \<not> wl_queued w ! ?k")
    case False
    have step: "propagate_edge plan t state e w = Some (w\<lparr>wl_entry := ?es\<rparr>)"
      using out(1) j k lens False by (auto simp: propagate_edge_def enqueue_def Let_def)
    have other: "?es ! x = wl_entry w ! x" if "x \<notin> set (wl_queue w)" "x < n_blocks plan" for x
    proof (cases "x = ?k")
      case True
      then have "\<not> ch" using False that shape k by (auto simp: shape_ok_def)
      then show ?thesis using slot(4) by simp
    qed simp
    have r: "reachable (?es ! x)" if "x \<in> set (wl_queue w)" for x
      using le [of x] shape that by (auto simp: shape_ok_def state_le_def)
    have "shape_ok plan t (w\<lparr>wl_entry := ?es\<rparr>)"
      using shape slot(1) r le [of "plan_entry plan"] lens k
      by (auto simp: shape_ok_def intro: state_le_trans)
    moreover have "settled plan t (w\<lparr>wl_entry := ?es\<rparr>)"
      using inv other by (simp add: wl_inv_def settled_def)
    moreover have "covered plan t pending (w\<lparr>wl_entry := ?es\<rparr>)" using cov [where q = "wl_queue w" and qd = "wl_queued w"] by simp
    ultimately show ?thesis
      using step slot(4,5) by (cases ch) (auto simp: wl_inv_def)
  next
    case True
    let ?w = "w\<lparr>wl_entry := ?es, wl_queue := wl_queue w @ [?k], wl_queued := (wl_queued w)[?k := True]\<rparr>"
    have step: "propagate_edge plan t state e w = Some ?w"
      using out(1) j k lens True by (auto simp: propagate_edge_def enqueue_def Let_def)
    have r: "reachable (?es ! x)" if "x \<in> set (wl_queue w)" for x
      using le [of x] shape that by (auto simp: shape_ok_def state_le_def)
    have rk: "reachable (?es ! ?k)" using slot(3) out(3) by (simp add: state_le_def)
    have "shape_ok plan t ?w"
      using shape slot(1) r rk le [of "plan_entry plan"] lens k True
      by (auto simp: shape_ok_def nth_list_update intro: state_le_trans)
    moreover have "settled plan t ?w"
      using inv by (auto simp: wl_inv_def settled_def)
    ultimately show ?thesis
      using step cov slot(5) True by (auto simp: wl_inv_def)
  qed
qed

lemma wl_inv_weaken: "wl_inv plan t P w \<Longrightarrow> P \<subseteq> Q \<Longrightarrow> wl_inv plan t Q w"
  by (auto simp: wl_inv_def covered_def)

lemma propagate_edges_ok:
  assumes pt: "plan_topo plan t" and b: "b < n_blocks plan" and r: "reachable state"
    and "set es \<subseteq> set (block_edges (blocks plan ! b))" "\<forall>e \<in> set es. edge_wf plan e"
    and "wl_inv plan t (Pair b ` set es) w" "wl_exit w ! b = state"
  shows "\<exists>w'. fold_opt (propagate_edge plan t state) es w = Some w' \<and> wl_inv plan t {} w' \<and>
    (mj.total_rank plan t (wl_entry w') < mj.total_rank plan t (wl_entry w) \<or>
     wl_entry w' = wl_entry w \<and> wl_queue w' = wl_queue w)"
  using assms(4-)
proof (induction es arbitrary: w)
  case Nil
  then show ?case by simp
next
  case (Cons e es)
  have "wl_inv plan t (insert (b, e) (Pair b ` set es)) w" using Cons.prems(3) by simp
  from propagate_edge_ok [OF pt this b Cons.prems(4) r] Cons.prems(1,2)
  obtain w1 where w1: "propagate_edge plan t state e w = Some w1" "wl_inv plan t (Pair b ` set es) w1"
    "wl_exit w1 = wl_exit w"
    "mj.total_rank plan t (wl_entry w1) < mj.total_rank plan t (wl_entry w) \<or>
     wl_entry w1 = wl_entry w \<and> wl_queue w1 = wl_queue w" by auto
  obtain w2 where "fold_opt (propagate_edge plan t state) es w1 = Some w2" "wl_inv plan t {} w2"
    "mj.total_rank plan t (wl_entry w2) < mj.total_rank plan t (wl_entry w1) \<or>
     wl_entry w2 = wl_entry w1 \<and> wl_queue w2 = wl_queue w1"
    using Cons.IH [OF _ _ w1(2)] Cons.prems(1,2,4) w1(3) by auto
  then show ?case using w1(1,4) by auto
qed

lemma visit_block_ok:
  assumes pt: "plan_topo plan t" and fw: "flow_wf plan" and inv: "wl_inv plan t {} w"
    and q: "wl_queue w = b # rest"
  shows "\<exists>w'. visit_block plan t b (w\<lparr>wl_queue := rest\<rparr>) = Some w' \<and> wl_inv plan t {} w' \<and> wl_less plan t w' w"
proof -
  have shape: "shape_ok plan t w" and sett: "settled plan t w" and cov: "covered plan t {} w"
    using inv by (simp_all add: wl_inv_def)
  have b: "b < n_blocks plan" "reachable (wl_entry w ! b)" "b \<notin> set rest"
    using shape q by (auto simp: shape_ok_def)
  have lens: "length (wl_entry w) = n_blocks plan" "length (wl_exit w) = n_blocks plan"
    "length (wl_queued w) = n_blocks plan" using shape by (simp_all add: shape_ok_def)
  let ?blk = "blocks plan ! b" and ?in = "wl_entry w ! b"
  have blk: "block_wf plan ?blk" using block_wfD [OF fw b(1)] .
  have "state_ok plan t ?in" using shape b(1) lens by (auto simp: shape_ok_def)
  then obtain state where st: "apply_operations plan t (operations ?blk) ?in = Some state"
    "state_ok plan t state" "reachable state"
    using apply_operations_ok [OF pt, of ?in "operations ?blk"] blk b(2)
    by (auto simp: result_ok_def block_wf_def)
  let ?w1 = "w\<lparr>wl_queue := rest, wl_queued := (wl_queued w)[b := False]\<rparr>"
  have shape1: "shape_ok plan t ?w1"
    using shape q lens by (auto simp: shape_ok_def nth_list_update)
  show ?thesis
  proof (cases "state = wl_exit w ! b")
    case True
    then have step: "visit_block plan t b (w\<lparr>wl_queue := rest\<rparr>) = Some ?w1"
      using b st lens by (simp add: visit_block_def n_blocks_def)
    have "settled plan t ?w1" using sett q True st(1) by (auto simp: settled_def)
    moreover have "covered plan t {} ?w1" using cov by (simp add: covered_def)
    ultimately show ?thesis using step shape1 q by (auto simp: wl_inv_def wl_less_def)
  next
    case False
    let ?w2 = "?w1\<lparr>wl_exit := (wl_exit w)[b := state]\<rparr>"
    obtain tm where tm: "block_terminator ?blk = Some tm" using blk by (auto simp: block_wf_def)
    have edges: "block_edges ?blk = terminator_edges tm" by (simp add: block_edges_def tm)
    have step: "visit_block plan t b (w\<lparr>wl_queue := rest\<rparr>) =
        fold_opt (propagate_edge plan t state) (terminator_edges tm) ?w2"
      using b st lens False tm by (simp add: visit_block_def n_blocks_def)
    have oks: "\<forall>s \<in> set ((wl_exit w)[b := state]). state_ok plan t s"
      using shape st(2) set_update_subset_insert [of "wl_exit w" b state] by (auto simp: shape_ok_def)
    have "shape_ok plan t ?w2" using shape1 oks by (simp add: shape_ok_def)
    moreover have "settled plan t ?w2"
      using sett q st(1) b(1) lens by (auto simp: settled_def nth_list_update)
    moreover have "covered plan t (Pair b ` set (terminator_edges tm)) ?w2"
      unfolding covered_def
    proof (intro allI impI ballI)
      fix x f assume x: "x < n_blocks plan" "reachable (wl_exit ?w2 ! x)" "f \<in> set (block_edges (blocks plan ! x))"
      show "(x, f) \<in> Pair b ` set (terminator_edges tm) \<or> flows plan t f (wl_exit ?w2 ! x) (wl_entry ?w2 ! edge_target f)"
        using x cov edges by (cases "x = b") (auto simp: covered_def)
    qed
    ultimately have inv2: "wl_inv plan t (Pair b ` set (terminator_edges tm)) ?w2" by (simp add: wl_inv_def)
    have "\<forall>e \<in> set (terminator_edges tm). edge_wf plan e" using blk edges by (simp add: block_wf_def)
    then obtain w' where w': "fold_opt (propagate_edge plan t state) (terminator_edges tm) ?w2 = Some w'"
      "wl_inv plan t {} w'"
      "mj.total_rank plan t (wl_entry w') < mj.total_rank plan t (wl_entry ?w2) \<or>
       wl_entry w' = wl_entry ?w2 \<and> wl_queue w' = wl_queue ?w2"
      using propagate_edges_ok [OF pt b(1) st(3) _ _ inv2] edges b(1) lens by auto
    then show ?thesis using step q by (auto simp: wl_less_def)
  qed
qed

lemma worklist_loop_ok:
  assumes pt: "plan_topo plan t" and fw: "flow_wf plan"
  shows "wl_inv plan t {} w \<Longrightarrow>
    \<exists>w'. worklist_loop plan t w = Some w' \<and> wl_inv plan t {} w' \<and> wl_queue w' = []"
proof (induction w rule: wf_induct_rule [OF wf_measures
    [of "[\<lambda>w. mj.total_rank plan t (wl_entry w), \<lambda>w. length (wl_queue w)]"]])
  case (1 w)
  show ?case
  proof (cases "wl_queue w")
    case Nil
    then show ?thesis using 1(2) by (simp add: worklist_loop.simps)
  next
    case (Cons b rest)
    obtain w1 where w1: "visit_block plan t b (w\<lparr>wl_queue := rest\<rparr>) = Some w1" "wl_inv plan t {} w1"
      "wl_less plan t w1 w"
      using visit_block_ok [OF pt fw 1(2) Cons] by blast
    have "(w1, w) \<in> measures [\<lambda>w. mj.total_rank plan t (wl_entry w), \<lambda>w. length (wl_queue w)]"
      using w1(3) by (auto simp: wl_less_def)
    from 1(1) [OF this w1(2)] show ?thesis
      using Cons w1(1) by (simp add: worklist_loop.simps [of plan t w])
  qed
qed

subsection \<open>The solution\<close>

definition solution :: "cleanup_plan \<Rightarrow> move_path_topology \<Rightarrow> move_state_analysis \<Rightarrow> bool" where
  "solution plan t a \<longleftrightarrow>
     ms_computed a \<and> topology a = t \<and>
     length (ms_block_entry a) = n_blocks plan \<and> length (ms_block_exit a) = n_blocks plan \<and>
     (\<forall>b < n_blocks plan. state_ok plan t (ms_block_entry a ! b) \<and>
        (reachable (ms_block_entry a ! b) \<longrightarrow>
           apply_operations plan t (operations (blocks plan ! b)) (ms_block_entry a ! b) = Some (ms_block_exit a ! b) \<and>
           (\<forall>e \<in> set (block_edges (blocks plan ! b)).
              flows plan t e (ms_block_exit a ! b) (ms_block_entry a ! edge_target e)))) \<and>
     state_le (move_state_new True t) (ms_block_entry a ! plan_entry plan)"

theorem analysis_compute_ok:
  assumes pt: "plan_topo plan t" and fw: "flow_wf plan"
  shows "\<exists>a. analysis_compute plan t = Some a \<and> solution plan t a"
proof -
  let ?n = "n_blocks plan" and ?e = "plan_entry plan"
  have e: "?e < ?n" using fw by (simp add: flow_wf_def)
  let ?w = "\<lparr>wl_entry = (replicate ?n (move_state_new False t))[?e := move_state_new True t],
     wl_exit = replicate ?n (move_state_new False t), wl_queue = [?e],
     wl_queued = (replicate ?n False)[?e := True]\<rparr>"
  have init_r: "reachable (move_state_new r t) = r" for r by (simp add: move_state_new_def)
  have upd: "reachable (wl_entry ?w ! b) \<Longrightarrow> b < ?n \<Longrightarrow> b = ?e" for b
    using init_r by (cases "b = ?e") (simp_all add: nth_list_update)
  have "\<forall>s \<in> set (wl_entry ?w). state_ok plan t s"
    using set_update_subset_insert [of "replicate ?n (move_state_new False t)" ?e "move_state_new True t"]
      state_new_ok [OF pt] by auto
  then have "shape_ok plan t ?w"
    using e state_new_ok [OF pt] init_r state_le_refl by (auto simp: shape_ok_def nth_list_update)
  moreover have "settled plan t ?w" using upd init_r by (auto simp: settled_def)
  moreover have "covered plan t {} ?w" using init_r by (auto simp: covered_def)
  ultimately have "wl_inv plan t {} ?w" by (simp add: wl_inv_def)
  then obtain w where w: "worklist_loop plan t ?w = Some w" "wl_inv plan t {} w" "wl_queue w = []"
    using worklist_loop_ok [OF pt fw] by blast
  let ?a = "\<lparr>ms_computed = True, topology = t, ms_block_entry = wl_entry w, ms_block_exit = wl_exit w\<rparr>"
  have "analysis_compute plan t = Some ?a"
    using w(1) e by (simp add: analysis_compute_def n_blocks_def Let_def)
  moreover have "solution plan t ?a"
  proof -
    have r: "reachable (wl_exit w ! b)" if "b < ?n" "reachable (wl_entry w ! b)" for b
    proof -
      have ok: "state_ok plan t (wl_entry w ! b)" using w(2) that(1) by (auto simp: wl_inv_def shape_ok_def)
      have "apply_operations plan t (operations (blocks plan ! b)) (wl_entry w ! b) = Some (wl_exit w ! b)"
        using w(2,3) that by (simp add: wl_inv_def settled_def)
      then show ?thesis
        using apply_operations_ok [OF pt ok, of "operations (blocks plan ! b)"] block_wfD [OF fw that(1)] that(2)
        by (auto simp: result_ok_def block_wf_def)
    qed
    then show ?thesis
      using w(2,3) by (auto simp: solution_def wl_inv_def shape_ok_def settled_def covered_def)
  qed
  ultimately show ?thesis by blast
qed

end
