(* ===== verification/Cleanup_Flags.thy ===== *)
theory Cleanup_Flags
  imports Cleanup_Analysis
begin

text \<open>
  \<open>DropFlagAnalysis\<close> of \<open>compiler/src/cleanup.rs\<close>: which move paths need a run-time drop flag,
  when a flag is set or cleared, and what is dropped when storage ends.  A \<open>HashSet\<close> that is
  sorted before use is a list built with \<open>List.insert\<close> and sorted; a \<open>HashMap\<close> indexed with
  \<open>map[&k]\<close> is \<open>map_of\<close>, \<open>None\<close> the panic.
\<close>

subsection \<open>The code\<close>

partial_function (option) collect_conditional_paths ::
    "cleanup_plan \<Rightarrow> move_path_topology \<Rightarrow> move_state \<Rightarrow> move_path_id \<Rightarrow> move_path_id list \<Rightarrow>
     move_path_id list option" where
  [code]: "collect_conditional_paths plan t s path paths = do {
     status \<leftarrow> path_initialization_of s t path;
     if status \<noteq> MaybeOrPartial then Some paths
     else do {
       mp \<leftarrow> nth_opt (move_paths plan) path;
       let paths = (if needs_drop mp \<and> path_may_be_fully_initialized s path
                    then List.insert path paths else paths);
       cs \<leftarrow> nth_opt (topo_children t) path;
       fold_opt (\<lambda>c paths. collect_conditional_paths plan t s c paths) cs paths } }"

definition flag_of :: "(move_path_id \<times> drop_flag_id) list \<Rightarrow> move_path_id \<Rightarrow> drop_flag_id option" where
  "flag_of flags path = map_of flags path"

partial_function (option) obligations_for_path ::
    "cleanup_plan \<Rightarrow> move_path_topology \<Rightarrow> move_state \<Rightarrow> (move_path_id \<times> drop_flag_id) list \<Rightarrow>
     move_path_id \<Rightarrow> drop_obligation list option" where
  [code]: "obligations_for_path plan t s flags path = do {
     status \<leftarrow> path_initialization_of s t path;
     if status = Uninitialized then Some []
     else do {
       mp \<leftarrow> nth_opt (move_paths plan) path;
       (if status = Initialized \<and> needs_drop mp
        then Some [DropObligation path Static []]
        else do {
          flag \<leftarrow> (if status = MaybeOrPartial \<and> needs_drop mp \<and> path_may_be_fully_initialized s path
                   then do { f \<leftarrow> flag_of flags path; Some (Some f) } else Some None);
          cs \<leftarrow> nth_opt (topo_children t) path;
          kids \<leftarrow> map_opt (\<lambda>c. obligations_for_path plan t s flags c) cs;
          (case flag of
             Some f \<Rightarrow> Some [DropObligation path (Flag f) (concat kids)]
           | None \<Rightarrow> Some (concat kids)) }) } }"

text \<open>The storage ends of a block, with the state before each and the root path of the local.\<close>

definition storage_end_before ::
    "cleanup_plan \<Rightarrow> move_state_analysis \<Rightarrow> basic_block_id \<Rightarrow> nat \<times> cleanup_op \<Rightarrow>
     (move_path_id \<times> move_state) option option" where
  "storage_end_before plan a b iop =
     (case snd iop of
        StorageDead l \<Rightarrow> do {
          root \<leftarrow> nth_opt (roots_by_local (topology a)) l;
          (case root of
             None \<Rightarrow> Some None
           | Some root \<Rightarrow> do {
               s \<leftarrow> state_before a plan b (fst iop);
               Some (map_option (Pair root) s) }) }
      | _ \<Rightarrow> Some None)"

definition enumerated_ops :: "basic_block \<Rightarrow> (nat \<times> cleanup_op) list" where
  "enumerated_ops b = enumerate 0 (operations b)"

definition conditional_paths :: "cleanup_plan \<Rightarrow> move_state_analysis \<Rightarrow> move_path_id list option" where
  "conditional_paths plan a =
     fold_opt (\<lambda>b. fold_opt (\<lambda>iop paths. do {
         e \<leftarrow> storage_end_before plan a (block_id b) iop;
         (case e of
            None \<Rightarrow> Some paths
          | Some (root, s) \<Rightarrow> collect_conditional_paths plan (topology a) s root paths) })
       (enumerated_ops b)) (blocks plan) []"

definition related_paths :: "move_path_topology \<Rightarrow> move_path_id \<Rightarrow> move_path_id \<Rightarrow> bool option" where
  "related_paths t p q = do {
     b \<leftarrow> contains_path t p q;
     if b then Some True else contains_path t q p }"

definition is_initialized :: "move_state \<Rightarrow> move_path_topology \<Rightarrow> move_path_id \<Rightarrow> bool option" where
  "is_initialized s t p = do {
     status \<leftarrow> path_initialization_of s t p;
     Some (status = Initialized) }"

text \<open>The update of the flag of \<open>fp\<close> after an operation; \<open>s\<close> is the state after it.\<close>

definition flag_update ::
    "cleanup_plan \<Rightarrow> move_path_topology \<Rightarrow> move_state \<Rightarrow> cleanup_op \<Rightarrow> move_path_id \<Rightarrow>
     drop_flag_value option option" where
  "flag_update plan t s op fp = do {
     mp \<leftarrow> nth_opt (move_paths plan) fp;
     let fl = place_local (path_place mp);
     let cleared_if = (\<lambda>b. if b then Some FlagClear else None);
     let set_if = (\<lambda>b. if b then Some FlagSet else None);
     (case op of
        StorageLive l \<Rightarrow> Some (cleared_if (l = fl))
      | StorageDead l \<Rightarrow> Some (cleared_if (l = fl))
      | Init p \<Rightarrow> do {
          r \<leftarrow> related_paths t p fp;
          if r then do { w \<leftarrow> is_initialized s t fp; Some (set_if w) } else Some None }
      | Overwrite p \<Rightarrow> do {
          r \<leftarrow> related_paths t p fp;
          if r then do { w \<leftarrow> is_initialized s t fp; Some (set_if w) } else Some None }
      | MoveOut p \<Rightarrow> do { r \<leftarrow> related_paths t p fp; Some (cleared_if r) }
      | SetDiscriminant p _ \<Rightarrow> do { r \<leftarrow> related_paths t p fp; Some (cleared_if r) }
      | Transfer src dst _ \<Rightarrow> do {
          source_affects \<leftarrow> related_paths t src fp;
          destination_affects \<leftarrow> related_paths t dst fp;
          w \<leftarrow> (if destination_affects then is_initialized s t fp else Some False);
          Some (if w then Some FlagSet else cleared_if source_affects) }
      | AssumeDiscriminant _ _ \<Rightarrow> Some None) }"

definition flag_actions_after ::
    "cleanup_plan \<Rightarrow> move_path_topology \<Rightarrow> basic_block_id \<Rightarrow> drop_flag list \<Rightarrow> move_state \<Rightarrow>
     nat \<times> cleanup_op \<Rightarrow> drop_flag_action list option" where
  "flag_actions_after plan t b flags s iop = do {
     acts \<leftarrow> map_opt (\<lambda>flag. do {
         v \<leftarrow> flag_update plan t s (snd iop) (flag_path flag);
         Some (case v of
                 None \<Rightarrow> []
               | Some v \<Rightarrow> [\<lparr>action_block = b, action_operation_index = fst iop, action_flag = flag_id flag,
                            action_value = v\<rparr>]) }) flags;
     Some (concat acts) }"

definition block_flag_actions ::
    "cleanup_plan \<Rightarrow> move_state_analysis \<Rightarrow> drop_flag list \<Rightarrow> basic_block \<Rightarrow> drop_flag_action list option" where
  "block_flag_actions plan a flags b =
     (case analysis_block_entry a (block_id b) of
        None \<Rightarrow> Some []
      | Some entry \<Rightarrow>
          if \<not> reachable entry then Some []
          else do {
            r \<leftarrow> fold_opt (\<lambda>iop st. do {
                s \<leftarrow> apply_operation (snd iop) plan (topology a) (fst st);
                acts \<leftarrow> flag_actions_after plan (topology a) (block_id b) flags s iop;
                Some (s, snd st @ acts) }) (enumerated_ops b) (entry, []);
            Some (snd r) })"

definition drop_sites_of ::
    "cleanup_plan \<Rightarrow> move_state_analysis \<Rightarrow> (move_path_id \<times> drop_flag_id) list \<Rightarrow> basic_block \<Rightarrow>
     drop_site list option" where
  "drop_sites_of plan a flags b =
     fold_opt (\<lambda>iop sites. do {
         e \<leftarrow> storage_end_before plan a (block_id b) iop;
         (case e of
            None \<Rightarrow> Some sites
          | Some (root, s) \<Rightarrow> do {
              obls \<leftarrow> obligations_for_path plan (topology a) s flags root;
              Some (if obls = [] then sites
                    else sites @ [\<lparr>site_block = block_id b, site_operation_index = fst iop,
                                   site_local = (case snd iop of StorageDead l \<Rightarrow> l | _ \<Rightarrow> 0),
                                   site_obligations = obls\<rparr>]) }) })
       (enumerated_ops b) []"

definition drop_flags_compute :: "cleanup_plan \<Rightarrow> move_state_analysis \<Rightarrow> drop_flag_analysis option" where
  "drop_flags_compute plan a = do {
     paths \<leftarrow> conditional_paths plan a;
     let flags = map (\<lambda>(i, p). \<lparr>flag_id = i, flag_path = p\<rparr>) (enumerate 0 (sort paths));
     let by_path = map (\<lambda>flag. (flag_path flag, flag_id flag)) flags;
     actions \<leftarrow> map_opt (block_flag_actions plan a flags) (blocks plan);
     sites \<leftarrow> map_opt (drop_sites_of plan a by_path) (blocks plan);
     Some \<lparr>flags_computed = True, da_flags = flags, da_actions = concat actions,
           da_sites = concat sites\<rparr> }"

end
