(* ===== verification/Cleanup_Verify.thy ===== *)
theory Cleanup_Verify
  imports Cleanup_Flags
begin

text \<open>
  \<open>CleanupPlan::verify\<close> of \<open>compiler/src/cleanup.rs\<close>.  Every message the code formats is a
  constructor of \<open>verify_error\<close> with the values it mentions; a function that pushes to
  \<open>errors\<close> returns the list of errors it pushes, in order.
\<close>

subsection \<open>Errors\<close>

datatype topology_error =
    BadSetDiscriminant basic_block_id nat u32 move_path_id
  | BadAssumeDiscriminant basic_block_id nat u32 move_path_id
  | TransferShape basic_block_id nat move_path_id move_path_id

datatype scope_error =
    ScopeIdMismatch nat scope_id
  | NoRootScope scope_id
  | RootScopeId
  | RootHasParent
  | RootKind
  | NonRootKind scope_id
  | ScopeInvalidParent scope_id scope_id
  | ScopeNoParent scope_id
  | ScopeCycle scope_id scope_id

datatype local_error =
    LocalIdMismatch nat local_id
  | LocalInvalidScope local_id scope_id
  | SourceLocalTwice nat
  | SourceLocalUnnamed nat
  | ReturnPlaceBorrowed local_id
  | ReturnPlaceFromSource local_id
  | ReturnPlaceCount nat
  | ScopeListsTwice scope_id local_id
  | ScopeListsInvalid scope_id local_id
  | ScopeLocalMismatch local_id
  | DeclarationOrder local_id nat nat
  | Membership local_id nat

datatype path_error =
    PathIdMismatch nat move_path_id
  | DuplicatePlace move_path_id place
  | PathInBorrow move_path_id local_id
  | ProjectedNoParent move_path_id
  | PathInvalidParent move_path_id move_path_id
  | RootPathParent move_path_id
  | ParentNotPrefix move_path_id move_path_id
  | DropUnderNonDrop move_path_id move_path_id
  | RootPathCount local_id nat nat local_ownership
  | MixedDowncasts move_path_id
  | MixedCaptures move_path_id
  | DuplicateVariant move_path_id u32
  | PlaceInvalidLocal move_path_id local_id
  | PlaceIndexed move_path_id
  | PlaceInvalidIndex move_path_id local_id

datatype operation_error =
    TransferSame basic_block_id
  | TransferOverlap basic_block_id
  | OpInvalidLocal string basic_block_id local_id
  | OpOnBorrow string basic_block_id local_id
  | OpLocalInvisible string basic_block_id local_id
  | OpInvalidPath string basic_block_id move_path_id
  | OpPathInvalidLocal string basic_block_id local_id
  | OpPathInvisible string basic_block_id move_path_id

datatype terminator_error =
    BranchInvalidLocal basic_block_id local_id
  | BranchInvisible basic_block_id local_id
  | BranchBorrow basic_block_id local_ownership
  | ReturnExitChain basic_block_id "scope_id list" "scope_id list option"
  | EdgeInvalidTarget string basic_block_id basic_block_id
  | EdgeExitChain string basic_block_id basic_block_id "scope_id list"

datatype block_error =
    NoEntryBlock basic_block_id
  | EntryScope
  | BlockIdMismatch nat basic_block_id
  | BlockInvalidScope basic_block_id scope_id
  | NoTerminator basic_block_id
  | InOperation operation_error
  | InTerminator terminator_error

datatype state_error =
    NeedsLive string basic_block_id nat local_id storage_liveness
  | NeedsDead basic_block_id nat local_id storage_liveness
  | InactiveDowncast string basic_block_id nat inactive_info
  | NeedsInitialized string basic_block_id nat move_path_id path_initialization
  | BadDestination transfer_kind basic_block_id nat move_path_id path_initialization
  | NeedsUninitialized basic_block_id nat move_path_id path_initialization
  | LiveInvariant nat basic_block_id nat
  | InitInvariant nat basic_block_id nat

datatype end_error =
    BranchNotLive basic_block_id local_id storage_liveness
  | BranchNotInitialized basic_block_id local_id path_initialization
  | BranchNoRoot basic_block_id local_id
  | ReturnNotLive basic_block_id local_id storage_liveness
  | ReturnNoRoot local_id
  | ReturnNotInitialized basic_block_id local_id path_initialization

datatype verify_error =
    CachedMoveState
  | CachedDropFlags
  | ScopeError scope_error
  | LocalError local_error
  | PathError path_error
  | BlockError block_error
  | TopologyError topology_error
  | StateError state_error
  | EndError end_error

text \<open>\<open>if c { errors.push(e) }\<close>.\<close>

definition err :: "bool \<Rightarrow> 'e \<Rightarrow> 'e list" where
  "err c e = (if c then [e] else [])"

lemma err_Nil [simp]: "err c e = [] \<longleftrightarrow> \<not> c"
  by (simp add: err_def)

subsection \<open>Scopes\<close>

lemma unvisited_less:
  "(i :: nat) < n \<Longrightarrow> i \<notin> set seen \<Longrightarrow> card ({..<n} - set (i # seen)) < card ({..<n} - set seen)"
proof -
  assume "i < n" "i \<notin> set seen"
  then have i: "i \<in> {..<n} - set seen" by simp
  have eq: "{..<n} - set (i # seen) = {..<n} - set seen - {i}" by auto
  have "finite ({..<n} - set seen)" by simp
  from card_Diff1_less [OF this i] show ?thesis unfolding eq .
qed

text \<open>The walk over parents that looks for a cycle: the scope reached twice, if any.\<close>

function scope_cycle :: "cleanup_plan \<Rightarrow> scope_id list \<Rightarrow> scope_id option \<Rightarrow> scope_id option" where
  "scope_cycle plan seen cursor =
     (case cursor of
        None \<Rightarrow> None
      | Some i \<Rightarrow>
          (case nth_opt (scopes plan) i of
             None \<Rightarrow> None
           | Some data \<Rightarrow>
               if i \<in> set seen then Some i else scope_cycle plan (i # seen) (scope_parent data)))"
  by pat_completeness auto

termination
proof (relation "measure (\<lambda>(plan, seen, _). card ({..<length (scopes plan)} - set seen))")
  fix plan seen cursor i data
  assume "cursor = Some i" "nth_opt (scopes plan) i = Some data" "i \<notin> set seen"
  then show "((plan, i # seen, scope_parent data), plan, seen, cursor)
      \<in> measure (\<lambda>(plan, seen, _). card ({..<length (scopes plan)} - set seen))"
    using unvisited_less [of i "length (scopes plan)" seen] by (simp add: opt_simps del: set_simps)
qed simp

definition scope_parent_errors :: "cleanup_plan \<Rightarrow> scope_data \<Rightarrow> scope_error list" where
  "scope_parent_errors plan sc =
     (if scope_id sc \<noteq> root_scope plan
      then err (scope_kind sc = RootScope) (NonRootKind (scope_id sc)) @
        (case scope_parent sc of
           Some p \<Rightarrow> err (nth_opt (scopes plan) p = None) (ScopeInvalidParent (scope_id sc) p)
         | None \<Rightarrow> [ScopeNoParent (scope_id sc)])
      else [])"

definition scope_cycle_errors :: "cleanup_plan \<Rightarrow> scope_data \<Rightarrow> scope_error list" where
  "scope_cycle_errors plan sc =
     (case scope_cycle plan [] (Some (scope_id sc)) of
        None \<Rightarrow> []
      | Some i \<Rightarrow> [ScopeCycle i (scope_id sc)])"

definition verify_scopes :: "cleanup_plan \<Rightarrow> scope_error list" where
  "verify_scopes plan =
     concat (map (\<lambda>(i, sc). err (scope_id sc \<noteq> i) (ScopeIdMismatch i (scope_id sc)))
       (enumerate 0 (scopes plan))) @
     (case nth_opt (scopes plan) (root_scope plan) of
        None \<Rightarrow> [NoRootScope (root_scope plan)]
      | Some root \<Rightarrow>
          err (scope_id root \<noteq> root_scope plan) RootScopeId @
          err (scope_parent root \<noteq> None) RootHasParent @
          err (scope_kind root \<noteq> RootScope) RootKind @
          concat (map (\<lambda>sc. scope_parent_errors plan sc @ scope_cycle_errors plan sc) (scopes plan)))"

text \<open>\<open>is_ancestor\<close> and \<open>return_exit_chain\<close>.\<close>

function ancestor_walk :: "cleanup_plan \<Rightarrow> scope_id \<Rightarrow> scope_id list \<Rightarrow> scope_id option \<Rightarrow> bool" where
  "ancestor_walk plan ancestor visited cursor =
     (case cursor of
        None \<Rightarrow> False
      | Some sc \<Rightarrow>
          if sc = ancestor then True
          else if sc \<in> set visited then False
          else ancestor_walk plan ancestor (sc # visited)
                 (Option.bind (nth_opt (scopes plan) sc) scope_parent))"
  by pat_completeness auto

termination
proof (relation "measure (\<lambda>(plan, _, visited, cursor).
    2 * card ({..<length (scopes plan)} - set visited) + (if cursor = None then 0 else 1))")
  fix plan ancestor visited cursor and sc :: scope_id
  assume sc: "cursor = Some sc" "sc \<notin> set visited"
  show "((plan, ancestor, sc # visited, Option.bind (nth_opt (scopes plan) sc) scope_parent),
      plan, ancestor, visited, cursor) \<in> measure (\<lambda>(plan, _, visited, cursor).
    2 * card ({..<length (scopes plan)} - set visited) + (if cursor = None then 0 else 1))"
  proof (cases "sc < length (scopes plan)")
    case True
    then show ?thesis using unvisited_less [OF True sc(2)] sc(1) by (simp del: set_simps)
  next
    case False
    then have "{..<length (scopes plan)} - set (sc # visited) = {..<length (scopes plan)} - set visited"
      by auto
    then show ?thesis using False sc(1) by (simp del: set_simps)
  qed
qed simp

definition is_ancestor :: "cleanup_plan \<Rightarrow> scope_id \<Rightarrow> scope_id \<Rightarrow> bool" where
  "is_ancestor plan ancestor descendant = ancestor_walk plan ancestor [] (Some descendant)"

function exit_chain :: "cleanup_plan \<Rightarrow> scope_id list \<Rightarrow> scope_id \<Rightarrow> scope_id list option" where
  "exit_chain plan visited cursor =
     (if cursor = root_scope plan then Some []
      else if cursor \<in> set visited then None
      else
        (case Option.bind (nth_opt (scopes plan) cursor) scope_parent of
           None \<Rightarrow> None
         | Some p \<Rightarrow> map_option (Cons cursor) (exit_chain plan (cursor # visited) p)))"
  by pat_completeness auto

termination
proof (relation "measure (\<lambda>(plan, seen, _). card ({..<length (scopes plan)} - set seen))")
  fix plan visited cursor p
  assume "cursor \<notin> set visited" "Option.bind (nth_opt (scopes plan) cursor) scope_parent = Some p"
  then show "((plan, cursor # visited, p), plan, visited, cursor)
      \<in> measure (\<lambda>(plan, seen, _). card ({..<length (scopes plan)} - set seen))"
    using unvisited_less [of cursor "length (scopes plan)" visited] by (auto simp: opt_simps simp del: set_simps)
qed simp

definition return_exit_chain :: "cleanup_plan \<Rightarrow> scope_id \<Rightarrow> scope_id list option" where
  "return_exit_chain plan source = exit_chain plan [] source"

declare scope_cycle.simps [simp del] ancestor_walk.simps [simp del] exit_chain.simps [simp del]

subsection \<open>Locals\<close>

definition local_errors ::
    "cleanup_plan \<Rightarrow> nat \<times> local_decl \<Rightarrow> nat list \<times> nat \<Rightarrow> local_error list" where
  "local_errors plan il st =
     (let (i, l) = il; (source_locals, _) = st in
      err (local_id l \<noteq> i) (LocalIdMismatch i (local_id l)) @
      err (nth_opt (scopes plan) (local_scope l) = None) (LocalInvalidScope (local_id l) (local_scope l)) @
      (case source_local l of
         None \<Rightarrow> []
       | Some sl \<Rightarrow>
           err (sl \<in> set source_locals) (SourceLocalTwice sl) @
           err (debug_name l = None) (SourceLocalUnnamed sl)) @
      (if local_kind l = ReturnPlace
       then err (ownership l \<noteq> Owned) (ReturnPlaceBorrowed (local_id l)) @
         err (source_local l \<noteq> None \<or> debug_name l \<noteq> None) (ReturnPlaceFromSource (local_id l))
       else []))"

definition local_seen :: "local_decl \<Rightarrow> nat list \<times> nat \<Rightarrow> nat list \<times> nat" where
  "local_seen l st =
     (case source_local l of None \<Rightarrow> fst st | Some sl \<Rightarrow> List.insert sl (fst st),
      if local_kind l = ReturnPlace then snd st + 1 else snd st)"

text \<open>One entry of a scope's list of locals: the locals seen in this scope and the counts.\<close>

definition membership_step ::
    "cleanup_plan \<Rightarrow> scope_data \<Rightarrow> nat \<times> local_id \<Rightarrow>
     local_id list \<times> nat list \<times> local_error list \<Rightarrow> local_id list \<times> nat list \<times> local_error list" where
  "membership_step plan sc ol st =
     (let (order, l) = ol; (in_scope, memberships, errors) = st in
      if l \<in> set in_scope
      then (in_scope, memberships, errors @ [ScopeListsTwice (scope_id sc) l])
      else
        (case nth_opt (plan_locals plan) l of
           None \<Rightarrow> (l # in_scope, memberships, errors @ [ScopeListsInvalid (scope_id sc) l])
         | Some local \<Rightarrow>
             (l # in_scope, memberships[l := memberships ! l + 1],
              errors @ err (local_id local \<noteq> l \<or> local_scope local \<noteq> scope_id sc) (ScopeLocalMismatch l) @
              err (declaration_order local \<noteq> order) (DeclarationOrder l (declaration_order local) order))))"

definition membership_scope ::
    "cleanup_plan \<Rightarrow> scope_data \<Rightarrow> nat list \<times> local_error list \<Rightarrow> nat list \<times> local_error list" where
  "membership_scope plan sc st =
     snd (fold (membership_step plan sc) (enumerate 0 (scope_locals sc)) ([], st))"

definition verify_locals :: "cleanup_plan \<Rightarrow> local_error list" where
  "verify_locals plan =
     (let (seen, per_local) =
        fold (\<lambda>il (st, errors). (local_seen (snd il) st, errors @ local_errors plan il st))
          (enumerate 0 (plan_locals plan)) (([], 0), []);
        (memberships, listed) =
        fold (membership_scope plan) (scopes plan) (replicate (length (plan_locals plan)) 0, []) in
      per_local @ err (1 < snd seen) (ReturnPlaceCount (snd seen)) @ listed @
      concat (map (\<lambda>(i, n). err (n \<noteq> 1) (Membership i n)) (enumerate 0 memberships)))"

subsection \<open>Move paths\<close>

definition verify_place :: "cleanup_plan \<Rightarrow> place \<Rightarrow> move_path_id \<Rightarrow> path_error list" where
  "verify_place plan pl p =
     err (nth_opt (plan_locals plan) (place_local pl) = None) (PlaceInvalidLocal p (place_local pl)) @
     concat (map (\<lambda>j.
       (case j of
          Index l \<Rightarrow> PlaceIndexed p # err (nth_opt (plan_locals plan) l = None) (PlaceInvalidIndex p l)
        | _ \<Rightarrow> [])) (projections pl))"

record path_scan =
  ps_places :: "place list"
  ps_roots :: "nat list"
  ps_children :: "move_path_id list list"
  ps_errors :: "path_error list"

text \<open>The parent of a path, when it exists.\<close>

definition parent_errors :: "move_path \<Rightarrow> move_path_id \<Rightarrow> move_path \<Rightarrow> path_error list" where
  "parent_errors path parent_id parent =
     (if projections (path_place path) = []
      then [RootPathParent (path_id path)]
      else
        err (place_local (path_place parent) \<noteq> place_local (path_place path) \<or>
             projections (path_place parent) \<noteq> butlast (projections (path_place path)))
          (ParentNotPrefix parent_id (path_id path)) @
        err (needs_drop path \<and> \<not> needs_drop parent) (DropUnderNonDrop (path_id path) parent_id))"

definition scan_path :: "cleanup_plan \<Rightarrow> nat \<times> move_path \<Rightarrow> path_scan \<Rightarrow> path_scan" where
  "scan_path plan ip st =
     (let (i, path) = ip;
          here = err (path_id path \<noteq> i) (PathIdMismatch i (path_id path)) @
            err (path_place path \<in> set (ps_places st)) (DuplicatePlace (path_id path) (path_place path)) @
            verify_place plan (path_place path) (path_id path) @
            (case nth_opt (plan_locals plan) (place_local (path_place path)) of
               None \<Rightarrow> []
             | Some l \<Rightarrow> err (ownership l \<noteq> Owned) (PathInBorrow (path_id path) (place_local (path_place path))));
          st = st\<lparr>ps_places := List.insert (path_place path) (ps_places st), ps_errors := ps_errors st @ here\<rparr>
      in case path_parent path of
           None \<Rightarrow>
             if projections (path_place path) \<noteq> []
             then st\<lparr>ps_errors := ps_errors st @ [ProjectedNoParent (path_id path)]\<rparr>
             else
               (let l = place_local (path_place path) in
                case nth_opt (ps_roots st) l of
                  None \<Rightarrow> st
                | Some n \<Rightarrow> st\<lparr>ps_roots := (ps_roots st)[l := n + 1]\<rparr>)
         | Some parent_id \<Rightarrow>
             (case nth_opt (move_paths plan) parent_id of
                None \<Rightarrow> st\<lparr>ps_errors := ps_errors st @ [PathInvalidParent (path_id path) parent_id]\<rparr>
              | Some parent \<Rightarrow>
                  st\<lparr>ps_children := (ps_children st)[parent_id := ps_children st ! parent_id @ [path_id path]],
                     ps_errors := ps_errors st @ parent_errors path parent_id parent\<rparr>))"

definition scan_paths :: "cleanup_plan \<Rightarrow> path_scan" where
  "scan_paths plan =
     fold (scan_path plan) (enumerate 0 (move_paths plan))
       \<lparr>ps_places = [], ps_roots = replicate (length (plan_locals plan)) 0,
        ps_children = replicate (length (move_paths plan)) [], ps_errors = []\<rparr>"

definition root_count_errors :: "cleanup_plan \<Rightarrow> nat list \<Rightarrow> path_error list" where
  "root_count_errors plan roots =
     concat (map (\<lambda>(i, l).
       (let expected = (if ownership l = Owned then 1 else 0) in
        err (roots ! i \<noteq> expected) (RootPathCount (local_id l) (roots ! i) expected (ownership l))))
       (enumerate 0 (plan_locals plan)))"

fun duplicate_variants :: "move_path_id \<Rightarrow> u32 list \<Rightarrow> projection option list \<Rightarrow> path_error list" where
  "duplicate_variants i seen [] = []"
| "duplicate_variants i seen (j # js) =
     (case j of
        Some (Downcast v) \<Rightarrow>
          err (v \<in> set seen) (DuplicateVariant i v) @ duplicate_variants i (List.insert v seen) js
      | _ \<Rightarrow> duplicate_variants i seen js)"

fun is_downcast :: "projection option \<Rightarrow> bool" where
  "is_downcast (Some (Downcast v)) = True"
| "is_downcast _ = False"

fun is_capture :: "projection option \<Rightarrow> bool" where
  "is_capture (Some (Capture v)) = True"
| "is_capture _ = False"

text \<open>The kinds of the children of one path; an id out of range panics.\<close>

definition child_kind_errors ::
    "cleanup_plan \<Rightarrow> nat \<times> move_path_id list \<Rightarrow> path_error list option" where
  "child_kind_errors plan ics = do {
     js \<leftarrow> map_opt (\<lambda>c. do { mp \<leftarrow> nth_opt (move_paths plan) c; Some (last_projection mp) }) (snd ics);
     let downcasts = length (filter is_downcast js);
     let captures = length (filter is_capture js);
     Some (err (downcasts \<noteq> 0 \<and> downcasts \<noteq> length js) (MixedDowncasts (fst ics)) @
           err (captures \<noteq> 0 \<and> captures \<noteq> length js) (MixedCaptures (fst ics)) @
           duplicate_variants (fst ics) [] js) }"

definition verify_move_paths :: "cleanup_plan \<Rightarrow> path_error list option" where
  "verify_move_paths plan =
     (let st = scan_paths plan in do {
       kinds \<leftarrow> map_opt (child_kind_errors plan) (enumerate 0 (ps_children st));
       Some (ps_errors st @ root_count_errors plan (ps_roots st) @ concat kinds) })"

subsection \<open>Blocks\<close>

definition verify_operation_local ::
    "cleanup_plan \<Rightarrow> basic_block_id \<Rightarrow> local_id \<Rightarrow> string \<Rightarrow> bool \<Rightarrow> operation_error list" where
  "verify_operation_local plan b l operation requires_owned =
     (case nth_opt (plan_locals plan) l of
        None \<Rightarrow> [OpInvalidLocal operation b l]
      | Some local \<Rightarrow>
          err (requires_owned \<and> ownership local \<noteq> Owned) (OpOnBorrow operation b l) @
          (case nth_opt (blocks plan) b of
             None \<Rightarrow> []
           | Some block \<Rightarrow>
               err (\<not> (if operation = ''StorageLive'' then local_scope local = block_scope block
                       else is_ancestor plan (local_scope local) (block_scope block)))
                 (OpLocalInvisible operation b l)))"

definition verify_operation_path ::
    "cleanup_plan \<Rightarrow> basic_block_id \<Rightarrow> move_path_id \<Rightarrow> string \<Rightarrow> bool \<Rightarrow> operation_error list" where
  "verify_operation_path plan b p operation requires_owned =
     (case nth_opt (move_paths plan) p of
        None \<Rightarrow> [OpInvalidPath operation b p]
      | Some path \<Rightarrow>
          (case nth_opt (plan_locals plan) (place_local (path_place path)) of
             None \<Rightarrow> [OpPathInvalidLocal operation b (place_local (path_place path))]
           | Some local \<Rightarrow>
               err (requires_owned \<and> ownership local \<noteq> Owned) (OpOnBorrow operation b (local_id local)) @
               (case nth_opt (blocks plan) b of
                  None \<Rightarrow> []
                | Some block \<Rightarrow>
                    err (\<not> is_ancestor plan (local_scope local) (block_scope block)) (OpPathInvisible operation b p))))"

definition places_overlap :: "place \<Rightarrow> place \<Rightarrow> bool" where
  "places_overlap a b \<longleftrightarrow>
     place_local a = place_local b \<and>
     (prefix (projections b) (projections a) \<or> prefix (projections a) (projections b))"

fun verify_operation :: "cleanup_plan \<Rightarrow> basic_block_id \<Rightarrow> cleanup_op \<Rightarrow> operation_error list" where
  "verify_operation plan b (StorageLive l) = verify_operation_local plan b l ''StorageLive'' False"
| "verify_operation plan b (StorageDead l) = verify_operation_local plan b l ''StorageDead'' True"
| "verify_operation plan b (Init p) = verify_operation_path plan b p ''Init'' True"
| "verify_operation plan b (MoveOut p) = verify_operation_path plan b p ''MoveOut'' True"
| "verify_operation plan b (Overwrite p) = verify_operation_path plan b p ''Overwrite'' True"
| "verify_operation plan b (Transfer src dst _) =
     verify_operation_path plan b src ''Transfer source'' True @
     verify_operation_path plan b dst ''Transfer destination'' True @
     (if src = dst then [TransferSame b]
      else
        (case (nth_opt (move_paths plan) src, nth_opt (move_paths plan) dst) of
           (Some s, Some d) \<Rightarrow> err (places_overlap (path_place s) (path_place d)) (TransferOverlap b)
         | _ \<Rightarrow> []))"
| "verify_operation plan b (SetDiscriminant p _) = verify_operation_path plan b p ''SetDiscriminant'' True"
| "verify_operation plan b (AssumeDiscriminant p _) = verify_operation_path plan b p ''AssumeDiscriminant'' True"

text \<open>The walk along the exited scopes: whether the chain is valid and where it ends.\<close>

fun exit_walk :: "cleanup_plan \<Rightarrow> scope_id list \<Rightarrow> scope_id \<Rightarrow> bool \<times> scope_id" where
  "exit_walk plan [] cursor = (True, cursor)"
| "exit_walk plan (ex # exs) cursor =
     (if ex \<noteq> cursor \<or> cursor = root_scope plan then (False, cursor)
      else
        (case Option.bind (nth_opt (scopes plan) cursor) scope_parent of
           None \<Rightarrow> (False, cursor)
         | Some p \<Rightarrow> exit_walk plan exs p))"

definition verify_edge :: "cleanup_plan \<Rightarrow> basic_block \<Rightarrow> string \<Rightarrow> cleanup_edge \<Rightarrow> terminator_error list" where
  "verify_edge plan source kind edge =
     (case nth_opt (blocks plan) (edge_target edge) of
        None \<Rightarrow> [EdgeInvalidTarget kind (block_id source) (edge_target edge)]
      | Some target \<Rightarrow>
          if nth_opt (scopes plan) (block_scope source) = None \<or> nth_opt (scopes plan) (block_scope target) = None
          then []
          else
            (let (valid, cursor) = exit_walk plan (exited_scopes edge) (block_scope source);
                 reaches = (if exited_scopes edge = []
                            then is_ancestor plan (block_scope source) (block_scope target)
                            else is_ancestor plan cursor (block_scope target))
             in err (\<not> valid \<or> \<not> reaches)
                  (EdgeExitChain kind (block_id source) (block_id target) (exited_scopes edge))))"

definition branch_condition_errors :: "cleanup_plan \<Rightarrow> basic_block \<Rightarrow> local_id \<Rightarrow> terminator_error list" where
  "branch_condition_errors plan b condition =
     (case nth_opt (plan_locals plan) condition of
        None \<Rightarrow> [BranchInvalidLocal (block_id b) condition]
      | Some l \<Rightarrow>
          if \<not> is_ancestor plan (local_scope l) (block_scope b) then [BranchInvisible (block_id b) condition]
          else if ownership l \<noteq> Owned then [BranchBorrow (block_id b) (ownership l)]
          else [])"

fun verify_terminator :: "cleanup_plan \<Rightarrow> basic_block \<Rightarrow> terminator \<Rightarrow> terminator_error list" where
  "verify_terminator plan b (Goto edge) = verify_edge plan b ''goto'' edge"
| "verify_terminator plan b (Branch condition then_edge else_edge) =
     branch_condition_errors plan b condition @
     verify_edge plan b ''branch then'' then_edge @ verify_edge plan b ''branch else'' else_edge"
| "verify_terminator plan b (Return exited) =
     (let expected = return_exit_chain plan (block_scope b) in
      err (expected \<noteq> Some exited) (ReturnExitChain (block_id b) exited expected))"
| "verify_terminator plan b Abort = []"
| "verify_terminator plan b Unreachable = []"

definition verify_block :: "cleanup_plan \<Rightarrow> nat \<times> basic_block \<Rightarrow> block_error list" where
  "verify_block plan ib =
     (let (i, b) = ib in
      err (block_id b \<noteq> i) (BlockIdMismatch i (block_id b)) @
      err (nth_opt (scopes plan) (block_scope b) = None) (BlockInvalidScope (block_id b) (block_scope b)) @
      map InOperation (concat (map (verify_operation plan (block_id b)) (operations b))) @
      (case block_terminator b of
         None \<Rightarrow> [NoTerminator (block_id b)]
       | Some tm \<Rightarrow> map InTerminator (verify_terminator plan b tm)))"

definition verify_blocks :: "cleanup_plan \<Rightarrow> block_error list" where
  "verify_blocks plan =
     (case nth_opt (blocks plan) (plan_entry plan) of
        None \<Rightarrow> [NoEntryBlock (plan_entry plan)]
      | Some entry \<Rightarrow> err (block_scope entry \<noteq> root_scope plan) EntryScope) @
     concat (map (verify_block plan) (enumerate 0 (blocks plan)))"

subsection \<open>Operations against the topology\<close>

definition variant_known ::
    "move_path_topology \<Rightarrow> move_path_id \<Rightarrow> u32 \<Rightarrow> bool option" where
  "variant_known t p v = do {
     vs \<leftarrow> enum_variants t p;
     Some (case vs of
             None \<Rightarrow> False
           | Some vs \<Rightarrow> (case bsearch (map fst vs) v of Inr _ \<Rightarrow> True | Inl _ \<Rightarrow> False)) }"

definition verify_topology_operation ::
    "cleanup_plan \<Rightarrow> move_path_topology \<Rightarrow> basic_block_id \<Rightarrow> nat \<times> cleanup_op \<Rightarrow> topology_error list option" where
  "verify_topology_operation plan t b iop =
     (case snd iop of
        SetDiscriminant p v \<Rightarrow> do {
          ok \<leftarrow> variant_known t p v;
          Some (err (\<not> ok) (BadSetDiscriminant b (fst iop) v p)) }
      | AssumeDiscriminant p v \<Rightarrow> do {
          ok \<leftarrow> variant_known t p v;
          Some (err (\<not> ok) (BadAssumeDiscriminant b (fst iop) v p)) }
      | Transfer src dst _ \<Rightarrow> do {
          ok \<leftarrow> transfer_shapes_match t plan src dst;
          Some (err (\<not> ok) (TransferShape b (fst iop) src dst)) }
      | _ \<Rightarrow> Some [])"

definition verify_topology_operations ::
    "cleanup_plan \<Rightarrow> move_path_topology \<Rightarrow> topology_error list option" where
  "verify_topology_operations plan t = do {
     ess \<leftarrow> map_opt (\<lambda>b. do {
         es \<leftarrow> map_opt (verify_topology_operation plan t (block_id b)) (enumerated_ops b);
         Some (concat es) }) (blocks plan);
     Some (concat ess) }"

subsection \<open>The stable move state\<close>

definition require_live ::
    "move_state \<Rightarrow> string \<Rightarrow> basic_block_id \<Rightarrow> nat \<Rightarrow> local_id \<Rightarrow> state_error list" where
  "require_live s role b i l =
     (let liveness = storage_liveness_of s l in err (liveness \<noteq> Live) (NeedsLive role b i l liveness))"

definition require_active_downcasts ::
    "cleanup_plan \<Rightarrow> move_path_topology \<Rightarrow> move_state \<Rightarrow> string \<Rightarrow> basic_block_id \<Rightarrow> nat \<Rightarrow> move_path_id \<Rightarrow>
     state_error list option" where
  "require_active_downcasts plan t s role b i p = do {
     r \<leftarrow> inactive_downcast s p plan t;
     Some (case r of None \<Rightarrow> [] | Some info \<Rightarrow> [InactiveDowncast role b i info]) }"

definition require_initialized ::
    "move_path_topology \<Rightarrow> move_state \<Rightarrow> string \<Rightarrow> basic_block_id \<Rightarrow> nat \<Rightarrow> move_path_id \<Rightarrow>
     state_error list option" where
  "require_initialized t s role b i p = do {
     status \<leftarrow> path_initialization_of s t p;
     Some (err (status \<noteq> Initialized) (NeedsInitialized role b i p status)) }"

definition require_live_path ::
    "cleanup_plan \<Rightarrow> move_state \<Rightarrow> string \<Rightarrow> basic_block_id \<Rightarrow> nat \<Rightarrow> move_path_id \<Rightarrow> state_error list option" where
  "require_live_path plan s role b i p = do {
     mp \<leftarrow> nth_opt (move_paths plan) p;
     Some (require_live s role b i (place_local (path_place mp))) }"

fun valid_destination :: "transfer_kind \<Rightarrow> path_initialization \<Rightarrow> bool" where
  "valid_destination Initialize d = (d = Uninitialized)"
| "valid_destination OverwriteTarget d = (d = Initialized)"
| "valid_destination MaybeOverwrite d = (d = MaybeOrPartial)"

fun check_operation ::
    "cleanup_plan \<Rightarrow> move_path_topology \<Rightarrow> move_state \<Rightarrow> basic_block_id \<Rightarrow> nat \<Rightarrow> cleanup_op \<Rightarrow>
     state_error list option" where
  "check_operation plan t s b i (StorageLive l) =
     (let liveness = storage_liveness_of s l in Some (err (liveness \<noteq> Dead) (NeedsDead b i l liveness)))"
| "check_operation plan t s b i (StorageDead l) = Some []"
| "check_operation plan t s b i (Init p) = do {
     e1 \<leftarrow> require_live_path plan s ''Init'' b i p;
     e2 \<leftarrow> require_active_downcasts plan t s ''Init'' b i p;
     Some (e1 @ e2) }"
| "check_operation plan t s b i (MoveOut p) = do {
     e1 \<leftarrow> require_live_path plan s ''MoveOut'' b i p;
     e2 \<leftarrow> require_active_downcasts plan t s ''MoveOut'' b i p;
     e3 \<leftarrow> require_initialized t s ''MoveOut'' b i p;
     Some (e1 @ e2 @ e3) }"
| "check_operation plan t s b i (Overwrite p) = do {
     e1 \<leftarrow> require_live_path plan s ''Overwrite'' b i p;
     e2 \<leftarrow> require_active_downcasts plan t s ''Overwrite'' b i p;
     e3 \<leftarrow> require_initialized t s ''Overwrite'' b i p;
     Some (e1 @ e2 @ e3) }"
| "check_operation plan t s b i (Transfer src dst kind) = do {
     e1 \<leftarrow> require_live_path plan s ''Transfer source'' b i src;
     e2 \<leftarrow> require_live_path plan s ''Transfer destination'' b i dst;
     e3 \<leftarrow> require_active_downcasts plan t s ''Transfer source'' b i src;
     e4 \<leftarrow> require_active_downcasts plan t s ''Transfer destination'' b i dst;
     e5 \<leftarrow> require_initialized t s ''Transfer source'' b i src;
     d \<leftarrow> path_initialization_of s t dst;
     Some (e1 @ e2 @ e3 @ e4 @ e5 @ err (\<not> valid_destination kind d) (BadDestination kind b i dst d)) }"
| "check_operation plan t s b i (SetDiscriminant p _) = do {
     e1 \<leftarrow> require_live_path plan s ''SetDiscriminant'' b i p;
     e2 \<leftarrow> require_active_downcasts plan t s ''SetDiscriminant'' b i p;
     d \<leftarrow> path_initialization_of s t p;
     Some (e1 @ e2 @ err (d \<noteq> Uninitialized) (NeedsUninitialized b i p d)) }"
| "check_operation plan t s b i (AssumeDiscriminant p _) = do {
     e1 \<leftarrow> require_live_path plan s ''AssumeDiscriminant'' b i p;
     e2 \<leftarrow> require_initialized t s ''AssumeDiscriminant'' b i p;
     Some (e1 @ e2) }"

text \<open>"must implies may", checked after every operation for every local and every path.\<close>

definition invariant_errors :: "cleanup_plan \<Rightarrow> move_state \<Rightarrow> basic_block_id \<Rightarrow> nat \<Rightarrow> state_error list" where
  "invariant_errors plan s b i =
     concat (map (\<lambda>l. err (bitset_contains (must_live s) l \<and> \<not> bitset_contains (may_live s) l)
       (LiveInvariant i b l)) [0..<length (plan_locals plan)]) @
     concat (map (\<lambda>p. err (bitset_contains (must_init s) p \<and> \<not> bitset_contains (may_init s) p)
       (InitInvariant i b p)) [0..<length (move_paths plan)])"

definition check_and_apply ::
    "cleanup_plan \<Rightarrow> move_path_topology \<Rightarrow> basic_block_id \<Rightarrow> nat \<times> cleanup_op \<Rightarrow>
     move_state \<times> state_error list \<Rightarrow> (move_state \<times> state_error list) option" where
  "check_and_apply plan t b iop st = do {
     es \<leftarrow> check_operation plan t (fst st) b (fst iop) (snd iop);
     s \<leftarrow> apply_operation (snd iop) plan t (fst st);
     Some (s, snd st @ es @ invariant_errors plan s b (fst iop)) }"

definition check_return_place ::
    "move_path_topology \<Rightarrow> move_state \<Rightarrow> basic_block_id \<Rightarrow> local_decl \<Rightarrow> end_error list option" where
  "check_return_place t s b l =
     (let liveness = storage_liveness_of s (local_id l);
          e1 = err (liveness \<noteq> Live) (ReturnNotLive b (local_id l) liveness) in do {
       root \<leftarrow> nth_opt (roots_by_local t) (local_id l);
       (case root of
          None \<Rightarrow> Some (e1 @ [ReturnNoRoot (local_id l)])
        | Some root \<Rightarrow> do {
            status \<leftarrow> path_initialization_of s t root;
            Some (e1 @ err (status \<noteq> Initialized) (ReturnNotInitialized b (local_id l) status)) }) })"

fun check_terminator ::
    "cleanup_plan \<Rightarrow> move_path_topology \<Rightarrow> move_state \<Rightarrow> basic_block_id \<Rightarrow> terminator \<Rightarrow> end_error list option" where
  "check_terminator plan t s b (Branch condition _ _) =
     (let liveness = storage_liveness_of s condition;
          e1 = err (liveness \<noteq> Live) (BranchNotLive b condition liveness) in
      case Option.bind (nth_opt (roots_by_local t) condition) id of
        None \<Rightarrow> Some (e1 @ [BranchNoRoot b condition])
      | Some root \<Rightarrow> do {
          status \<leftarrow> path_initialization_of s t root;
          Some (e1 @ err (status \<noteq> Initialized) (BranchNotInitialized b condition status)) })"
| "check_terminator plan t s b (Return _) = do {
     ess \<leftarrow> map_opt (check_return_place t s b)
       (filter (\<lambda>l. local_kind l = ReturnPlace) (plan_locals plan));
     Some (concat ess) }"
| "check_terminator plan t s b _ = Some []"

definition verify_stable_block ::
    "cleanup_plan \<Rightarrow> move_state_analysis \<Rightarrow> basic_block \<Rightarrow> verify_error list option" where
  "verify_stable_block plan a b = do {
     entry \<leftarrow> nth_opt (ms_block_entry a) (block_id b);
     if \<not> reachable entry then Some []
     else do {
       st \<leftarrow> fold_opt (check_and_apply plan (topology a) (block_id b)) (enumerated_ops b) (entry, []);
       tm \<leftarrow> block_terminator b;
       es \<leftarrow> check_terminator plan (topology a) (fst st) (block_id b) tm;
       Some (map StateError (snd st) @ map EndError es) } }"

definition verify_stable_move_state :: "cleanup_plan \<Rightarrow> move_state_analysis \<Rightarrow> verify_error list option" where
  "verify_stable_move_state plan a = do {
     ess \<leftarrow> map_opt (verify_stable_block plan a) (blocks plan);
     Some (concat ess) }"

subsection \<open>The whole verification\<close>

text \<open>The outer option is a panic or a loop without end; \<open>Inl\<close> is \<open>Err\<close>, \<open>Inr\<close> is \<open>Ok\<close>.\<close>

definition analyze_and_verify ::
    "cleanup_plan \<Rightarrow> (verify_error list + move_state_analysis \<times> drop_flag_analysis) option" where
  "analyze_and_verify plan = do {
     path_errors \<leftarrow> verify_move_paths plan;
     let errors = map ScopeError (verify_scopes plan) @ map LocalError (verify_locals plan) @
       map PathError path_errors @ map BlockError (verify_blocks plan);
     if errors \<noteq> [] then Some (Inl errors)
     else do {
       t \<leftarrow> topology_new plan;
       topology_errors \<leftarrow> verify_topology_operations plan t;
       if topology_errors \<noteq> [] then Some (Inl (map TopologyError topology_errors))
       else do {
         a \<leftarrow> analysis_compute plan t;
         errors \<leftarrow> verify_stable_move_state plan a;
         if errors \<noteq> [] then Some (Inl errors)
         else do {
           flags \<leftarrow> drop_flags_compute plan a;
           Some (Inr (a, flags)) } } } }"

definition verify :: "cleanup_plan \<Rightarrow> (verify_error list + unit) option" where
  "verify plan = do {
     r \<leftarrow> analyze_and_verify plan;
     Some (case r of
             Inl errors \<Rightarrow> Inl errors
           | Inr (a, flags) \<Rightarrow>
               if ms_computed (move_state_cache plan) \<and> move_state_cache plan \<noteq> a
               then Inl [CachedMoveState]
               else if flags_computed (drop_flags_cache plan) \<and> drop_flags_cache plan \<noteq> flags
               then Inl [CachedDropFlags]
               else Inr ()) }"

text \<open>The questions a caller asks of a finished plan.\<close>

definition plan_move_state_before :: "cleanup_plan \<Rightarrow> basic_block_id \<Rightarrow> nat \<Rightarrow> move_state option option" where
  "plan_move_state_before plan b i = state_before (move_state_cache plan) plan b i"

definition plan_path_initialization_before ::
    "cleanup_plan \<Rightarrow> basic_block_id \<Rightarrow> nat \<Rightarrow> move_path_id \<Rightarrow> path_initialization option option" where
  "plan_path_initialization_before plan b i p = path_initialization_before (move_state_cache plan) plan b i p"

definition plan_storage_liveness_before ::
    "cleanup_plan \<Rightarrow> basic_block_id \<Rightarrow> nat \<Rightarrow> local_id \<Rightarrow> storage_liveness option option" where
  "plan_storage_liveness_before plan b i l = storage_liveness_before (move_state_cache plan) plan b i l"

definition plan_possible_variants_before ::
    "cleanup_plan \<Rightarrow> basic_block_id \<Rightarrow> nat \<Rightarrow> move_path_id \<Rightarrow> (bool \<times> u32 list) option option" where
  "plan_possible_variants_before plan b i p = possible_variants_before (move_state_cache plan) plan b i p"

end
