(* ===== verification/Cleanup_Verified.thy ===== *)
theory Cleanup_Verified
  imports Cleanup_Verify
begin

text \<open>
  What the structural part of \<open>CleanupPlan::verify\<close> establishes: a plan it finds no error in has
  well-formed move paths, well-formed operations and well-formed control flow, which is all the
  analyses of \<open>compiler/src/cleanup.rs\<close> rely on.
\<close>

lemma concat_map_Nil: "concat (map f xs) = [] \<longleftrightarrow> (\<forall>x \<in> set xs. f x = [])"
  by auto

lemma enumerate_all: "(\<forall>x \<in> set (enumerate 0 xs). P x) \<longleftrightarrow> (\<forall>i < length xs. P (i, xs ! i))"
  by (auto simp: in_set_enumerate_eq)

subsection \<open>Locals\<close>

lemma membership_scan:
  assumes "snd (snd (fold (membership_step plan sc) (enumerate k ls) (seen, ms, es))) = []"
  shows "es = [] \<and> (\<forall>l \<in> set ls. l < length (plan_locals plan))"
  using assms
proof (induction ls arbitrary: k seen ms es)
  case Nil
  then show ?case by simp
next
  case (Cons l ls)
  obtain seen' ms' es' where st: "membership_step plan sc (k, l) (seen, ms, es) = (seen', ms', es')"
    by (cases "membership_step plan sc (k, l) (seen, ms, es)")
  have "es' = [] \<and> (\<forall>l \<in> set ls. l < length (plan_locals plan))"
    by (rule Cons.IH) (use Cons.prems st in simp)
  with st show ?case
    by (auto simp: membership_step_def Let_def opt_simps split: if_splits option.splits)
qed

lemma membership_scopes:
  assumes "snd (fold (membership_scope plan) scs (ms, es)) = []"
  shows "es = [] \<and> (\<forall>sc \<in> set scs. \<forall>l \<in> set (scope_locals sc). l < length (plan_locals plan))"
  using assms
proof (induction scs arbitrary: ms es)
  case Nil
  then show ?case by simp
next
  case (Cons sc scs)
  obtain ms' es' where st: "membership_scope plan sc (ms, es) = (ms', es')"
    by (cases "membership_scope plan sc (ms, es)")
  have "es' = [] \<and> (\<forall>sc \<in> set scs. \<forall>l \<in> set (scope_locals sc). l < length (plan_locals plan))"
    by (rule Cons.IH) (use Cons.prems st in simp)
  moreover have "snd (snd (fold (membership_step plan sc) (enumerate 0 (scope_locals sc)) ([], ms, es))) = es'"
    using st by (simp add: membership_scope_def)
  ultimately show ?case
    using membership_scan [of plan sc 0 "scope_locals sc" "[]" ms es] by simp
qed

lemma local_scan:
  assumes "snd (fold (\<lambda>il (st, errors). (local_seen (snd il) st, errors @ local_errors plan il st)) ils (st, es)) = []"
  shows "es = [] \<and> (\<forall>il \<in> set ils. local_id (snd il) = fst il)"
  using assms
proof (induction ils arbitrary: st es)
  case Nil
  then show ?case by simp
next
  case (Cons il ils)
  have "es @ local_errors plan il st = [] \<and> (\<forall>il \<in> set ils. local_id (snd il) = fst il)"
    by (rule Cons.IH) (use Cons.prems in \<open>simp add: split_beta\<close>)
  then show ?case by (auto simp: local_errors_def split_beta)
qed

lemma verify_locals_ok:
  assumes "verify_locals plan = []"
  shows "\<forall>sc \<in> set (scopes plan). \<forall>l \<in> set (scope_locals sc). l < length (plan_locals plan)"
    and "\<forall>i < length (plan_locals plan). local_id (plan_locals plan ! i) = i"
proof -
  let ?f = "\<lambda>il (st, errors). (local_seen (snd il) st, errors @ local_errors plan il st)"
  have "snd (fold (membership_scope plan) (scopes plan) (replicate (length (plan_locals plan)) 0, [])) = []"
    "snd (fold ?f (enumerate 0 (plan_locals plan)) (([], 0), [])) = []"
    using assms by (auto simp: verify_locals_def split_beta Let_def)
  then show "\<forall>sc \<in> set (scopes plan). \<forall>l \<in> set (scope_locals sc). l < length (plan_locals plan)"
    "\<forall>i < length (plan_locals plan). local_id (plan_locals plan ! i) = i"
    using membership_scopes local_scan [of plan "enumerate 0 (plan_locals plan)" "([], 0)" "[]"]
    by (blast, simp add: enumerate_all)
qed

subsection \<open>Move paths\<close>

text \<open>What the scan keeps whatever it reports.\<close>

lemma scan_path_children:
  "ps_children (scan_path plan ip st) =
     (case path_parent (snd ip) of
        None \<Rightarrow> ps_children st
      | Some p \<Rightarrow> if p < length (move_paths plan)
                then (ps_children st)[p := ps_children st ! p @ [path_id (snd ip)]] else ps_children st)"
  by (cases ip) (simp add: scan_path_def Let_def opt_simps nth_opt_def split: option.split)

lemma scan_path_roots: "length (ps_roots (scan_path plan ip st)) = length (ps_roots st)"
  by (cases ip) (simp add: scan_path_def Let_def split: option.split)

lemma scan_path_shape:
  assumes "length (ps_children st) = length (move_paths plan)"
  shows "length (ps_children (scan_path plan ip st)) = length (move_paths plan)"
    and "\<Union>(set ` set (ps_children (scan_path plan ip st))) \<subseteq>
      insert (path_id (snd ip)) (\<Union>(set ` set (ps_children st)))"
proof -
  show "length (ps_children (scan_path plan ip st)) = length (move_paths plan)"
    using assms by (simp add: scan_path_children split: option.split)
  have "\<Union>(set ` set (css[i := css ! i @ [a]])) \<subseteq> insert a (\<Union>(set ` set css))"
    if "i < length css" for a i and css :: "nat list list"
  proof -
    have "\<Union>(set ` set (css[i := css ! i @ [a]])) \<subseteq> \<Union>(set ` insert (css ! i @ [a]) (set css))"
      using set_update_subset_insert [of css i "css ! i @ [a]"] by blast
    also have "\<dots> \<subseteq> insert a (\<Union>(set ` set css))" using nth_mem [OF that] by auto
    finally show ?thesis .
  qed
  then show "\<Union>(set ` set (ps_children (scan_path plan ip st))) \<subseteq>
      insert (path_id (snd ip)) (\<Union>(set ` set (ps_children st)))"
    unfolding scan_path_children using assms by (simp split: option.split) blast
qed

lemma scan_shape:
  assumes "length (ps_children st) = length (move_paths plan)"
  shows "length (ps_children (fold (scan_path plan) ips st)) = length (move_paths plan) \<and>
    length (ps_roots (fold (scan_path plan) ips st)) = length (ps_roots st) \<and>
    \<Union>(set ` set (ps_children (fold (scan_path plan) ips st))) \<subseteq>
       path_id ` snd ` set ips \<union> \<Union>(set ` set (ps_children st))"
  using assms
proof (induction ips arbitrary: st)
  case Nil
  then show ?case by simp
next
  case (Cons ip ips)
  note s = scan_path_shape [OF Cons.prems, of ip]
  note IH = Cons.IH [OF s(1)]
  have "\<Union>(set ` set (ps_children (fold (scan_path plan) ips (scan_path plan ip st)))) \<subseteq>
      path_id ` snd ` set ips \<union> \<Union>(set ` set (ps_children (scan_path plan ip st)))"
    using IH by blast
  also have "\<dots> \<subseteq> path_id ` snd ` set (ip # ips) \<union> \<Union>(set ` set (ps_children st))"
    using s(2) by auto
  finally show ?case using IH scan_path_roots by simp
qed

definition path_ok :: "cleanup_plan \<Rightarrow> nat \<Rightarrow> move_path \<Rightarrow> bool" where
  "path_ok plan i path \<longleftrightarrow>
     path_id path = i \<and> place_local (path_place path) < length (plan_locals plan) \<and>
     (case path_parent path of
        None \<Rightarrow> projections (path_place path) = []
      | Some p \<Rightarrow> p < length (move_paths plan) \<and>
          place_local (path_place path) = place_local (path_place (move_paths plan ! p)) \<and>
          projections (path_place path) \<noteq> [] \<and>
          butlast (projections (path_place path)) = projections (path_place (move_paths plan ! p)) \<and>
          (needs_drop path \<longrightarrow> needs_drop (move_paths plan ! p)))"

lemma scan_path_errors: "\<exists>es. ps_errors (scan_path plan ip st) = ps_errors st @ es"
  by (cases ip) (auto simp: scan_path_def Let_def split: option.splits)

lemma scan_path_ok:
  assumes "ps_errors (scan_path plan (i, path) st) = []"
  shows "ps_errors st = []" "path_ok plan i path" "path_place path \<notin> set (ps_places st)"
    "set (ps_places (scan_path plan (i, path) st)) = insert (path_place path) (set (ps_places st))"
    "ps_children (scan_path plan (i, path) st) =
       (case path_parent path of
          None \<Rightarrow> ps_children st
        | Some p \<Rightarrow> (ps_children st)[p := ps_children st ! p @ [path_id path]])"
  using assms
  by (auto simp: scan_path_def Let_def path_ok_def parent_errors_def verify_place_def opt_simps
      split: option.splits if_splits)

lemma scan_paths_inv:
  assumes "prefix ps (move_paths plan)"
    and "ps_errors (fold (scan_path plan) (enumerate 0 ps)
      \<lparr>ps_places = [], ps_roots = rs, ps_children = replicate (length (move_paths plan)) [], ps_errors = []\<rparr>) = []"
  shows "(\<forall>i < length ps. path_ok plan i (ps ! i)) \<and> distinct (map path_place ps) \<and>
    set (ps_places (fold (scan_path plan) (enumerate 0 ps)
      \<lparr>ps_places = [], ps_roots = rs, ps_children = replicate (length (move_paths plan)) [], ps_errors = []\<rparr>)) =
      path_place ` set ps \<and>
    ps_children (fold (scan_path plan) (enumerate 0 ps)
      \<lparr>ps_places = [], ps_roots = rs, ps_children = replicate (length (move_paths plan)) [], ps_errors = []\<rparr>) =
      map (\<lambda>p. map path_id (filter (\<lambda>c. path_parent c = Some p) ps)) [0..<length (move_paths plan)]"
  using assms
proof (induction ps rule: rev_induct)
  case Nil
  then show ?case by (simp add: map_replicate_const)
next
  case (snoc path ps)
  let ?init = "\<lparr>ps_places = [], ps_roots = rs, ps_children = replicate (length (move_paths plan)) [], ps_errors = []\<rparr>"
  let ?st = "fold (scan_path plan) (enumerate 0 ps) ?init"
  have e: "fold (scan_path plan) (enumerate 0 (ps @ [path])) ?init = scan_path plan (length ps, path) ?st"
    by (simp add: enumerate_append_eq)
  have none: "ps_errors (scan_path plan (length ps, path) ?st) = []" using snoc.prems(2) e by simp
  note here = scan_path_ok [OF none]
  have IH: "(\<forall>i < length ps. path_ok plan i (ps ! i)) \<and> distinct (map path_place ps) \<and>
    set (ps_places ?st) = path_place ` set ps \<and>
    ps_children ?st = map (\<lambda>p. map path_id (filter (\<lambda>c. path_parent c = Some p) ps)) [0..<length (move_paths plan)]"
    using snoc.IH snoc.prems(1) here(1) append_prefixD by blast
  have "\<forall>i < length (ps @ [path]). path_ok plan i ((ps @ [path]) ! i)"
    using IH here(2) by (auto simp: nth_append less_Suc_eq)
  moreover have "distinct (map path_place (ps @ [path]))" using IH here(3) by auto
  moreover have "set (ps_places (scan_path plan (length ps, path) ?st)) = path_place ` set (ps @ [path])"
    using IH here(4) by simp
  moreover have "ps_children (scan_path plan (length ps, path) ?st) =
      map (\<lambda>p. map path_id (filter (\<lambda>c. path_parent c = Some p) (ps @ [path]))) [0..<length (move_paths plan)]"
  proof (cases "path_parent path")
    case None
    then show ?thesis using here(5) IH by simp
  next
    case (Some p)
    then have "p < length (move_paths plan)" using here(2) by (simp add: path_ok_def)
    then show ?thesis
      using here(5) IH Some by (auto intro!: nth_equalityI simp: nth_list_update)
  qed
  ultimately show ?case unfolding e by blast
qed

text \<open>The children of a path need no drop if it needs none; verification asks for it.\<close>

definition drops_wf :: "cleanup_plan \<Rightarrow> bool" where
  "drops_wf plan \<longleftrightarrow>
     (\<forall>p < n_paths plan. \<forall>q. path_parent (move_paths plan ! p) = Some q \<longrightarrow>
        needs_drop (move_paths plan ! p) \<longrightarrow> needs_drop (move_paths plan ! q))"

lemma child_kinds_value:
  assumes "\<forall>c \<in> set cs. c < length (move_paths plan)"
  shows "\<exists>es. child_kind_errors plan (p, cs) = Some es \<and>
    (es = [] \<longrightarrow> (\<forall>c \<in> set cs. is_downcast (last_projection (move_paths plan ! c))) \<or>
       (\<forall>c \<in> set cs. \<not> is_downcast (last_projection (move_paths plan ! c))))"
proof -
  let ?js = "map (\<lambda>c. last_projection (move_paths plan ! c)) cs"
  have "map_opt (\<lambda>c. do { mp \<leftarrow> nth_opt (move_paths plan) c; Some (last_projection mp) }) cs = Some ?js"
    by (rule map_opt_total) (use assms in simp)
  then have v: "child_kind_errors plan (p, cs) = Some
     (err (length (filter is_downcast ?js) \<noteq> 0 \<and> length (filter is_downcast ?js) \<noteq> length ?js) (MixedDowncasts p) @
      err (length (filter is_capture ?js) \<noteq> 0 \<and> length (filter is_capture ?js) \<noteq> length ?js) (MixedCaptures p) @
      duplicate_variants p [] ?js)"
    unfolding child_kind_errors_def Let_def fst_conv snd_conv by (simp only: Option.bind.simps)
  have "(\<forall>c \<in> set cs. is_downcast (last_projection (move_paths plan ! c))) \<or>
       (\<forall>c \<in> set cs. \<not> is_downcast (last_projection (move_paths plan ! c)))"
    if "\<not> (length (filter is_downcast ?js) \<noteq> 0 \<and> length (filter is_downcast ?js) \<noteq> length ?js)"
  proof (cases "length (filter is_downcast ?js) = 0")
    case True
    then have "\<forall>j \<in> set ?js. \<not> is_downcast j" by (simp add: filter_empty_conv)
    then show ?thesis by simp
  next
    case False
    then have "length (filter is_downcast ?js) = length ?js" using that by blast
    then have "\<forall>j \<in> set ?js. is_downcast j" by (metis length_filter_less linorder_neq_iff)
    then show ?thesis by simp
  qed
  then show ?thesis using v by simp
qed

text \<open>The move-path part returns whenever the ids are in range, whatever else is wrong.\<close>

lemma verify_move_paths_total:
  assumes "\<forall>path \<in> set (move_paths plan). path_id path < length (move_paths plan)"
  shows "\<exists>es. verify_move_paths plan = Some es"
proof -
  let ?st = "scan_paths plan"
  have "\<Union>(set ` set (ps_children ?st)) \<subseteq> path_id ` snd ` set (enumerate 0 (move_paths plan))"
  proof -
    let ?init = "\<lparr>ps_places = [], ps_roots = replicate (length (plan_locals plan)) 0,
        ps_children = replicate (length (move_paths plan)) [], ps_errors = []\<rparr>"
    have "length (ps_children ?init) = length (move_paths plan)" by simp
    moreover have "\<Union>(set ` set (ps_children ?init)) = {}" by auto
    ultimately show ?thesis
      using scan_shape [of ?init plan "enumerate 0 (move_paths plan)"] unfolding scan_paths_def by simp
  qed
  moreover have "snd ` set (enumerate 0 (move_paths plan)) = set (move_paths plan)"
    by (metis list.set_map map_snd_enumerate)
  ultimately have sub: "\<Union>(set ` set (ps_children ?st)) \<subseteq> path_id ` set (move_paths plan)" by simp
  have bound: "\<forall>cs \<in> set (ps_children ?st). \<forall>c \<in> set cs. c < length (move_paths plan)"
  proof (intro ballI)
    fix cs c assume "cs \<in> set (ps_children ?st)" "c \<in> set cs"
    then have "c \<in> path_id ` set (move_paths plan)" using sub by blast
    then show "c < length (move_paths plan)" using assms by auto
  qed
  have "map_opt (child_kind_errors plan) (enumerate 0 (ps_children ?st)) =
      Some (map (\<lambda>ics. the (child_kind_errors plan ics)) (enumerate 0 (ps_children ?st)))"
  proof (rule map_opt_total)
    fix ics assume ics: "ics \<in> set (enumerate 0 (ps_children ?st))"
    then have "snd ics \<in> set (ps_children ?st)"
      by (metis (no_types, lifting) image_eqI list.set_map map_snd_enumerate)
    then obtain es where "child_kind_errors plan (fst ics, snd ics) = Some es"
      using child_kinds_value [of "snd ics" plan "fst ics"] bound by blast
    then show "child_kind_errors plan ics = Some (the (child_kind_errors plan ics))" by simp
  qed
  then show ?thesis by (simp add: verify_move_paths_def Let_def)
qed

lemma map_opt_nth:
  "map_opt f xs = Some ys \<Longrightarrow> i < length xs \<Longrightarrow> f (xs ! i) = Some (ys ! i)"
proof (induction xs arbitrary: ys i)
  case (Cons x xs)
  then show ?case by (cases i) (auto simp: opt_simps)
qed simp

lemma is_downcast_iff: "is_downcast (last_projection mp) \<longleftrightarrow> downcast_variant mp \<noteq> None"
  by (auto simp: downcast_variant_def split: option.splits projection.splits)

lemma verify_move_paths_ok:
  assumes v: "verify_move_paths plan = Some []"
  shows "paths_wf plan" "downcasts_wf plan" "drops_wf plan"
proof -
  let ?st = "scan_paths plan"
  obtain kinds where k: "map_opt (child_kind_errors plan) (enumerate 0 (ps_children ?st)) = Some kinds"
    "ps_errors ?st = []" "concat kinds = []"
    using v by (auto simp: verify_move_paths_def Let_def opt_simps)
  have inv: "(\<forall>i < length (move_paths plan). path_ok plan i (move_paths plan ! i)) \<and>
     distinct (map path_place (move_paths plan)) \<and>
     ps_children ?st = map (\<lambda>p. map path_id (filter (\<lambda>c. path_parent c = Some p) (move_paths plan)))
       [0..<length (move_paths plan)]"
    using scan_paths_inv [of "move_paths plan" plan "replicate (length (plan_locals plan)) 0"] k(2)
    unfolding scan_paths_def by auto
  have "inj_on (\<lambda>i. path_place (move_paths plan ! i)) {..<length (move_paths plan)}"
    using inv by (auto simp: inj_on_def distinct_conv_nth)
  then show wf: "paths_wf plan" using inv by (auto simp: paths_wf_def path_ok_def split: option.splits)
  show "drops_wf plan" using inv by (force simp: drops_wf_def path_ok_def n_paths_def)
  have kids: "ps_children ?st ! e = children_of plan e" if "e < length (move_paths plan)" for e
  proof -
    have "map path_id (filter (\<lambda>c. path_parent c = Some e) (move_paths plan)) =
        map path_id (filter (\<lambda>c. path_parent c = Some e) (map ((!) (move_paths plan)) [0..<length (move_paths plan)]))"
      by (simp add: map_nth)
    also have "\<dots> = map (\<lambda>i. path_id (move_paths plan ! i)) (children_of plan e)"
      by (simp add: children_of_def filter_map comp_def)
    also have "\<dots> = children_of plan e"
      using inv by (intro map_idI) (auto simp: set_children_of path_ok_def)
    finally show ?thesis using inv that by simp
  qed
  show "downcasts_wf plan"
    unfolding downcasts_wf_def
  proof (intro allI impI)
    fix p v e
    assume p: "p < n_paths plan" "downcast_variant (move_paths plan ! p) = Some v"
      "path_parent (move_paths plan ! p) = Some e"
    have child: "p \<in> set (children_of plan e)" using p by (simp add: set_children_of n_paths_def)
    have e: "e < length (move_paths plan)" using paths_wf_parent [OF wf, of p e] p by (simp add: n_paths_def)
    have bound: "\<forall>c \<in> set (children_of plan e). c < length (move_paths plan)" by (simp add: set_children_of)
    have len: "length (ps_children ?st) = length (move_paths plan)" using inv by simp
    have "child_kind_errors plan (e, children_of plan e) = Some (kinds ! e)"
      using map_opt_nth [OF k(1), of e] kids [OF e] e len by (simp add: nth_enumerate_eq)
    moreover have "kinds ! e = []"
      using k(3) map_opt_length [OF k(1)] e len by simp
    ultimately have "\<forall>c \<in> set (children_of plan e). is_downcast (last_projection (move_paths plan ! c))"
      using child_kinds_value [OF bound, of e] child p(2) is_downcast_iff by fastforce
    then have all: "\<forall>c \<in> set (children_of plan e). \<exists>v. downcast_variant (move_paths plan ! c) = Some v"
      by (auto simp: is_downcast_iff)
    have "length (variants_of plan cs) = length cs"
      if "\<forall>c \<in> set cs. \<exists>v. downcast_variant (move_paths plan ! c) = Some v" for cs
      using that by (induction cs) auto
    then show "is_enum_rule (rule_at plan e)"
      using all child by (auto simp: rule_for_def)
  qed
qed

subsection \<open>Blocks\<close>

definition structure_ok :: "cleanup_plan \<Rightarrow> bool" where
  "structure_ok plan \<longleftrightarrow>
     verify_scopes plan = [] \<and> verify_locals plan = [] \<and> verify_move_paths plan = Some [] \<and>
     verify_blocks plan = []"

lemma exit_walk_bound:
  "fst (exit_walk plan exs cursor) \<Longrightarrow> sc \<in> set exs \<Longrightarrow> sc < length (scopes plan)"
proof (induction plan exs cursor rule: exit_walk.induct)
  case (2 plan ex exs cursor)
  then show ?case by (auto simp: opt_simps split: if_splits option.splits)
qed simp

lemma verify_edge_ok:
  assumes loc: "\<forall>sc \<in> set (scopes plan). \<forall>l \<in> set (scope_locals sc). l < length (plan_locals plan)"
    and scopes: "\<forall>b \<in> set (blocks plan). block_scope b < length (scopes plan)" and b: "b \<in> set (blocks plan)"
    and none: "verify_edge plan b kind e = []"
  shows "edge_wf plan e"
proof -
  have t: "edge_target e < n_blocks plan"
    using none by (auto simp: verify_edge_def n_blocks_def opt_simps split: option.splits)
  then have "block_scope (blocks plan ! edge_target e) < length (scopes plan)"
    using scopes by (simp add: n_blocks_def)
  then have "fst (exit_walk plan (exited_scopes e) (block_scope b))"
    using none t scopes b by (auto simp: verify_edge_def n_blocks_def split_beta Let_def split: if_splits)
  then show ?thesis
    using exit_walk_bound t loc by (fastforce simp: edge_wf_def)
qed

lemma verify_blocks_ok:
  assumes loc: "\<forall>sc \<in> set (scopes plan). \<forall>l \<in> set (scope_locals sc). l < length (plan_locals plan)"
    and none: "verify_blocks plan = []"
  shows "plan_entry plan < n_blocks plan"
    "\<forall>i < n_blocks plan. block_id (blocks plan ! i) = i \<and> block_scope (blocks plan ! i) < length (scopes plan) \<and>
       block_terminator (blocks plan ! i) \<noteq> None \<and>
       (\<forall>op \<in> set (operations (blocks plan ! i)). verify_operation plan i op = []) \<and>
       (\<forall>e \<in> set (block_edges (blocks plan ! i)). edge_wf plan e)"
proof -
  have each: "verify_block plan (i, blocks plan ! i) = []" if "i < n_blocks plan" for i
    using none that by (simp add: verify_blocks_def enumerate_all n_blocks_def)
  show "plan_entry plan < n_blocks plan"
    using none by (auto simp: verify_blocks_def n_blocks_def opt_simps split: option.splits)
  have scopes: "\<forall>b \<in> set (blocks plan). block_scope b < length (scopes plan)"
  proof
    fix b assume "b \<in> set (blocks plan)"
    then obtain i where "i < n_blocks plan" "b = blocks plan ! i" by (auto simp: in_set_conv_nth n_blocks_def)
    then show "block_scope b < length (scopes plan)"
      using each [of i] by (auto simp: verify_block_def opt_simps)
  qed
  show "\<forall>i < n_blocks plan. block_id (blocks plan ! i) = i \<and> block_scope (blocks plan ! i) < length (scopes plan) \<and>
       block_terminator (blocks plan ! i) \<noteq> None \<and>
       (\<forall>op \<in> set (operations (blocks plan ! i)). verify_operation plan i op = []) \<and>
       (\<forall>e \<in> set (block_edges (blocks plan ! i)). edge_wf plan e)"
  proof (intro allI impI)
    fix i assume i: "i < n_blocks plan"
    let ?b = "blocks plan ! i"
    have b: "?b \<in> set (blocks plan)" using i by (simp add: n_blocks_def)
    have v: "block_id ?b = i" "block_terminator ?b \<noteq> None"
      "\<forall>op \<in> set (operations ?b). verify_operation plan (block_id ?b) op = []"
      "\<forall>tm. block_terminator ?b = Some tm \<longrightarrow> verify_terminator plan ?b tm = []"
      using each [OF i] by (auto simp: verify_block_def split: option.splits)
    have "edge_wf plan e" if e: "e \<in> set (block_edges ?b)" for e
    proof -
      obtain tm where tm: "block_terminator ?b = Some tm" "e \<in> set (terminator_edges tm)"
        using e that by (cases "block_terminator ?b") (auto simp: block_edges_def)
      have "\<exists>kind. verify_edge plan ?b kind e = []"
        using v(4) tm by (cases tm) (auto simp: terminator_edges_def)
      then show ?thesis using verify_edge_ok [OF loc scopes b] by blast
    qed
    then show "block_id ?b = i \<and> block_scope ?b < length (scopes plan) \<and> block_terminator ?b \<noteq> None \<and>
       (\<forall>op \<in> set (operations ?b). verify_operation plan i op = []) \<and>
       (\<forall>e \<in> set (block_edges ?b). edge_wf plan e)"
      using v(1-3) scopes b by simp
  qed
qed

end
