(* ===== verification/Cleanup_Checked.thy ===== *)
theory Cleanup_Checked
  imports Cleanup_Verified
begin

text \<open>
  The second half of \<open>CleanupPlan::verify\<close> of \<open>compiler/src/cleanup.rs\<close> on a plan without
  structural errors: comparing the shapes of a transfer ends, the operations are well-formed,
  the flow analysis returns a solution, and a plan without state errors has passed the checks of
  \<open>op_checked\<close> before every operation.
\<close>

subsection \<open>Comparing the shapes of two subtrees\<close>

lemma callable_environment_total:
  assumes "\<forall>c \<in> set cs. c < n_paths plan"
  shows "\<exists>b. is_callable_environment plan cs = Some b"
proof (cases "cs = []")
  case False
  have "all_opt (\<lambda>child. do {
       p \<leftarrow> nth_opt (move_paths plan) child;
       Some (case last_projection p of Some (Capture _) \<Rightarrow> True | _ \<Rightarrow> False) }) cs =
     Some (\<forall>c \<in> set cs. case last_projection (move_paths plan ! c) of Some (Capture _) \<Rightarrow> True | _ \<Rightarrow> False)"
    by (rule all_opt_total) (use assms in \<open>simp add: n_paths_def\<close>)
  then show ?thesis using False by (simp add: is_callable_environment_def)
qed (auto simp: is_callable_environment_def)

lemma child_projection_total:
  assumes "paths_wf plan" "c \<in> set (children_of plan p)"
  shows "\<exists>j. child_projection plan c = Some j"
proof -
  have "projections (path_place (move_paths plan ! c)) \<noteq> []" "c < length (move_paths plan)"
    using assms by (auto simp: paths_wf_def set_children_of)
  then show ?thesis by (auto simp: child_projection_def last_projection_def split: list.split)
qed

lemma shape_pairs_total:
  assumes wf: "paths_wf plan" and sc: "set sc \<subseteq> set (children_of plan s)" and dc: "set dc \<subseteq> set (children_of plan d)"
  shows "\<exists>r. shape_pairs plan sc dc = Some r \<and>
    (\<forall>ps. r = Some ps \<longrightarrow> map fst ps = rev sc \<and> snd ` set ps \<subseteq> set dc)"
proof (cases "length sc = length dc")
  case False
  then show ?thesis by (simp add: shape_pairs_def)
next
  case True
  let ?by = "map (\<lambda>c. (the (child_projection plan c), c)) dc"
  have by_p: "map_opt (\<lambda>child. do { j \<leftarrow> child_projection plan child; Some (j, child) }) dc = Some ?by"
    by (rule map_opt_total) (use child_projection_total [OF wf] dc in fastforce)
  let ?f = "\<lambda>child pairs.
          (case pairs of
             None \<Rightarrow> Some None
           | Some ps \<Rightarrow> do {
               j \<leftarrow> child_projection plan child;
               Some (case map_of (rev ?by) j of
                       None \<Rightarrow> None
                     | Some d \<Rightarrow> Some ((child, d) # ps)) })"
  have "\<exists>r. fold_opt ?f xs (Some acc) = Some r \<and>
      (\<forall>ps. r = Some ps \<longrightarrow> map fst ps = rev xs @ map fst acc \<and> snd ` set ps \<subseteq> set dc)"
    if "set xs \<subseteq> set (children_of plan s)" "snd ` set acc \<subseteq> set dc" for xs acc
    using that
  proof (induction xs arbitrary: acc)
    case Nil
    then show ?case by simp
  next
    case (Cons x xs)
    obtain j where j: "child_projection plan x = Some j"
      using child_projection_total [OF wf] Cons.prems(1) by fastforce
    show ?case
    proof (cases "map_of (rev ?by) j")
      case None
      have "fold_opt ?f ys None = Some None" for ys by (induction ys) simp_all
      then show ?thesis using None j by simp
    next
      case (Some e)
      then have "(j, e) \<in> set (rev ?by)" by (rule map_of_SomeD)
      then have "e \<in> set dc" by auto
      then show ?thesis
        using Cons.IH [of "(x, e) # acc"] Cons.prems Some j by simp
    qed
  qed
  from this [of sc "[]"] show ?thesis using sc True by_p by (simp add: shape_pairs_def)
qed

lemma card_below_children:
  assumes wf: "paths_wf plan" and s: "s < n_paths plan"
  shows "sum_list (map (\<lambda>c. card (below plan c)) (children_of plan s)) < card (below plan s)"
proof -
  have fin: "finite (below plan x)" for x
    using finite_subset [of "below plan x" "{..<n_paths plan}"] by (auto simp: below_def)
  have "sum_list (map (\<lambda>c. card (below plan c)) (children_of plan s)) =
      (\<Sum>c \<in> set (children_of plan s). card (below plan c))"
    by (rule sum_list_distinct_conv_sum_set) (simp add: children_of_def)
  also have "\<dots> = card (\<Union>c \<in> set (children_of plan s). below plan c)"
    by (rule card_UN_disjoint [symmetric]) (use fin below_children_disjoint [OF wf] in auto)
  also have "\<dots> < card (below plan s)"
  proof (rule psubset_card_mono [OF fin])
    have "(\<Union>c \<in> set (children_of plan s). below plan c) \<subseteq> below plan s"
      using below_child_subset [OF wf] by blast
    moreover have "s \<notin> (\<Union>c \<in> set (children_of plan s). below plan c)"
      using parent_not_below_child [OF wf] by blast
    ultimately show "(\<Union>c \<in> set (children_of plan s). below plan c) \<subset> below plan s"
      using self_below [OF s] by blast
  qed
  finally show ?thesis .
qed

lemma shapes_loop_total:
  assumes pt: "plan_topo plan t"
  shows "\<forall>p \<in> set stack. fst p < n_paths plan \<and> snd p < n_paths plan \<Longrightarrow>
    \<exists>b. shapes_loop t plan stack = Some b"
proof (induction "sum_list (map (\<lambda>p. card (below plan (fst p))) stack)" arbitrary: stack rule: less_induct)
  case less
  note wf = plan_topoD(1) [OF pt]
  show ?case
  proof (cases stack)
    case Nil
    then have "shapes_loop t plan stack = Some True" by (simp add: shapes_loop.simps)
    then show ?thesis by (rule exI)
  next
    case (Cons p rest)
    obtain s d where p: "p = (s, d)" by (cases p)
    have sd: "s < n_paths plan" "d < n_paths plan" using less.prems Cons p by auto
    let ?sc = "children_of plan s" and ?dc = "children_of plan d"
    have ch: "nth_opt (topo_children t) s = Some ?sc" "nth_opt (topo_children t) d = Some ?dc"
      using topo_children_nth [OF pt] sd pt by simp_all
    have bound: "\<forall>c \<in> set (children_of plan x). c < n_paths plan" for x
      using below_child(2) [OF wf] by blast
    obtain b1 where b1: "is_callable_environment plan ?sc = Some b1"
      using callable_environment_total [OF bound] by blast
    obtain b2 where b2: "is_callable_environment plan ?dc = Some b2"
      using callable_environment_total [OF bound] by blast
    obtain r where r: "shape_pairs plan ?sc ?dc = Some r"
      "\<forall>ps. r = Some ps \<longrightarrow> map fst ps = rev ?sc \<and> snd ` set ps \<subseteq> set ?dc"
      using shape_pairs_total [OF wf, of ?sc s ?dc d] by blast
    have less_s: "0 < card (below plan s)"
      using card_below_children [OF wf sd(1)] by simp
    have rest: "\<exists>b. shapes_loop t plan rest = Some b"
      by (rule less.hyps) (use Cons p less_s less.prems in auto)
    have pushed: "\<exists>b. shapes_loop t plan (ps @ rest) = Some b" if ps: "r = Some ps" for ps
    proof (rule less.hyps)
      have "map (\<lambda>p. card (below plan (fst p))) ps = map (\<lambda>c. card (below plan c)) (map fst ps)" by simp
      also have "\<dots> = rev (map (\<lambda>c. card (below plan c)) ?sc)" using r(2) ps by (simp add: rev_map)
      finally have "sum_list (map (\<lambda>p. card (below plan (fst p))) ps) =
          sum_list (map (\<lambda>c. card (below plan c)) ?sc)" by (simp add: sum_list_rev)
      then show "sum_list (map (\<lambda>p. card (below plan (fst p))) (ps @ rest)) <
          sum_list (map (\<lambda>p. card (below plan (fst p))) stack)"
        using card_below_children [OF wf sd(1)] Cons p by simp
      have "fst q < n_paths plan \<and> snd q < n_paths plan" if "q \<in> set ps" for q
      proof -
        have "fst q \<in> set (map fst ps)" "snd q \<in> snd ` set ps" using that by auto
        then have "fst q \<in> set ?sc" "snd q \<in> set ?dc" using r(2) ps by (auto simp del: set_map)
        then show ?thesis using bound by blast
      qed
      then show "\<forall>q \<in> set (ps @ rest). fst q < n_paths plan \<and> snd q < n_paths plan"
        using less.prems Cons by auto
    qed
    have "shapes_loop t plan stack =
       (if b1 \<or> b2 then shapes_loop t plan rest
        else case r of None \<Rightarrow> Some False | Some ps \<Rightarrow> shapes_loop t plan (ps @ rest))"
      unfolding Cons p shapes_loop.simps [of t plan "(s, d) # rest"]
      using ch b1 b2 r(1) by (cases b1; cases b2) simp_all
    then show ?thesis using rest pushed by (cases r) auto
  qed
qed

lemma transfer_shapes_total:
  "plan_topo plan t \<Longrightarrow> s < n_paths plan \<Longrightarrow> d < n_paths plan \<Longrightarrow> \<exists>b. transfer_shapes_match t plan s d = Some b"
  unfolding transfer_shapes_match_def by (rule shapes_loop_total) simp_all

subsection \<open>Well-formed operations\<close>

text \<open>An operation that names a discriminant names a variant of its path.\<close>

fun op_variant_ok :: "cleanup_plan \<Rightarrow> cleanup_op \<Rightarrow> bool" where
  "op_variant_ok plan (SetDiscriminant p v) \<longleftrightarrow> variant_of plan p v"
| "op_variant_ok plan (AssumeDiscriminant p v) \<longleftrightarrow> variant_of plan p v"
| "op_variant_ok plan _ \<longleftrightarrow> True"

fun op_paths :: "cleanup_op \<Rightarrow> move_path_id list" where
  "op_paths (Init p) = [p]"
| "op_paths (MoveOut p) = [p]"
| "op_paths (Overwrite p) = [p]"
| "op_paths (Transfer s d k) = [s, d]"
| "op_paths (SetDiscriminant p v) = [p]"
| "op_paths (AssumeDiscriminant p v) = [p]"
| "op_paths _ = []"

lemma verify_operation_local_bound:
  "verify_operation_local plan b l nm ow = [] \<Longrightarrow> l < length (plan_locals plan)"
  by (auto simp: verify_operation_local_def opt_simps split: option.splits)

lemma verify_operation_path_bound:
  "verify_operation_path plan b p nm ow = [] \<Longrightarrow> p < n_paths plan"
  by (auto simp: verify_operation_path_def opt_simps n_paths_def split: option.splits)

lemma verify_operation_paths:
  "verify_operation plan b op = [] \<Longrightarrow> \<forall>p \<in> set (op_paths op). p < n_paths plan"
  by (cases op) (auto dest: verify_operation_path_bound)

lemma verify_operation_wf:
  assumes "verify_operation plan b op = []" "op_variant_ok plan op"
  shows "op_wf plan op"
proof (cases op)
  case (Transfer s d k)
  have sd: "s < n_paths plan" "d < n_paths plan" using verify_operation_paths [OF assms(1)] Transfer by auto
  then have "\<not> places_overlap (path_place (move_paths plan ! s)) (path_place (move_paths plan ! d))"
    using assms(1) Transfer by (auto simp: n_paths_def split: if_splits)
  then show ?thesis using sd Transfer by (auto simp: places_overlap_def under_def)
qed (use assms in \<open>auto dest: verify_operation_local_bound verify_operation_path_bound\<close>)

lemma variant_known_value:
  assumes pt: "plan_topo plan t" and p: "p < n_paths plan"
  shows "variant_known t p v = Some (variant_of plan p v)"
proof (cases "rule_at plan p")
  case (EnumRoot vs)
  have "(\<exists>i. bsearch (map fst vs) v = Inr i) \<longleftrightarrow> v \<in> fst ` set vs"
    using bsearch_found [OF rule_EnumRootD(3) [OF EnumRoot], of v] by simp
  then show ?thesis
    using completion_nth [OF pt p] p pt EnumRoot
    by (auto simp: variant_known_def enum_variants_def variant_of_def split: sum.splits)
qed (use completion_nth [OF pt p] p pt in \<open>auto simp: variant_known_def enum_variants_def variant_of_def\<close>)

lemma verify_topology_operation_total:
  assumes pt: "plan_topo plan t" and p: "\<forall>p \<in> set (op_paths (snd iop)). p < n_paths plan"
  shows "\<exists>es. verify_topology_operation plan t b iop = Some es \<and> (es = [] \<longrightarrow> op_variant_ok plan (snd iop))"
proof (cases "snd iop")
  case (Transfer s d k)
  then have "\<exists>b. transfer_shapes_match t plan s d = Some b" using transfer_shapes_total [OF pt] p by simp
  then show ?thesis using Transfer by (auto simp: verify_topology_operation_def)
qed (use variant_known_value [OF pt] p in \<open>auto simp: verify_topology_operation_def\<close>)

subsection \<open>The checks of the stable state\<close>

lemma require_live_path_value:
  assumes "p < n_paths plan"
  shows "\<exists>es. require_live_path plan s role b i p = Some es \<and>
    (es = [] \<longleftrightarrow> storage_liveness_of s (local_of plan p) = Live)"
  using assms by (simp add: require_live_path_def require_live_def local_of_def n_paths_def Let_def)

lemma require_active_value:
  assumes "plan_topo plan t" "state_wf plan t s" "downcasts_wf plan" "p < n_paths plan"
  shows "\<exists>es. require_active_downcasts plan t s role b i p = Some es \<and>
    (es = [] \<longleftrightarrow> inactive_downcast s p plan t = Some None)"
  using inactive_downcast_value [OF assms] by (auto simp: require_active_downcasts_def split: option.split)

lemma path_initialization_total:
  assumes "plan_topo plan t" "state_wf plan t s" "p < n_paths plan"
  shows "\<exists>st. path_initialization_of s t p = Some st"
  using path_initialization_value [OF assms] by blast

lemma require_initialized_value:
  assumes "plan_topo plan t" "state_wf plan t s" "p < n_paths plan"
  shows "\<exists>es. require_initialized t s role b i p = Some es \<and>
    (es = [] \<longleftrightarrow> path_initialization_of s t p = Some Initialized)"
  using path_initialization_total [OF assms] by (auto simp: require_initialized_def)

lemma valid_destination_iff:
  "valid_destination k st \<longleftrightarrow>
   st = (case k of Initialize \<Rightarrow> Uninitialized | OverwriteTarget \<Rightarrow> Initialized | MaybeOverwrite \<Rightarrow> MaybeOrPartial)"
  by (cases k) simp_all

lemma check_operation_value:
  assumes pt: "plan_topo plan t" and wf: "state_wf plan t s" and dw: "downcasts_wf plan" and ow: "op_wf plan op"
  shows "\<exists>es. check_operation plan t s b i op = Some es \<and> (es = [] \<longleftrightarrow> op_checked plan t s op)"
proof -
  note live = require_live_path_value [of _ plan s _ b i] and act = require_active_value [OF pt wf dw, of _ _ b i]
    and ini = require_initialized_value [OF pt wf, of _ _ b i] and tot = path_initialization_total [OF pt wf]
  show ?thesis
  proof (cases op)
    case (StorageLive l)
    then show ?thesis by (simp add: Let_def)
  next
    case (StorageDead l)
    then show ?thesis by simp
  next
    case (Init p)
    then have p: "p < n_paths plan" using ow by simp
    show ?thesis using Init live [OF p, of "''Init''"] act [OF p, of "''Init''"] by auto
  next
    case (MoveOut p)
    then have p: "p < n_paths plan" using ow by simp
    show ?thesis
      using MoveOut live [OF p, of "''MoveOut''"] act [OF p, of "''MoveOut''"] ini [OF p, of "''MoveOut''"] by auto
  next
    case (Overwrite p)
    then have p: "p < n_paths plan" using ow by simp
    show ?thesis
      using Overwrite live [OF p, of "''Overwrite''"] act [OF p, of "''Overwrite''"] ini [OF p, of "''Overwrite''"] by auto
  next
    case (Transfer src dst k)
    then have p: "src < n_paths plan" "dst < n_paths plan" using ow by simp_all
    obtain d where d: "path_initialization_of s t dst = Some d" using tot [OF p(2)] by blast
    show ?thesis
      using Transfer d live [OF p(1), of "''Transfer source''"] live [OF p(2), of "''Transfer destination''"]
        act [OF p(1), of "''Transfer source''"] act [OF p(2), of "''Transfer destination''"]
        ini [OF p(1), of "''Transfer source''"] valid_destination_iff [of k d]
      by auto
  next
    case (SetDiscriminant p v)
    then have p: "p < n_paths plan" using ow by simp
    obtain d where d: "path_initialization_of s t p = Some d" using tot [OF p] by blast
    show ?thesis
      using SetDiscriminant d live [OF p, of "''SetDiscriminant''"] act [OF p, of "''SetDiscriminant''"] by auto
  next
    case (AssumeDiscriminant p v)
    then have p: "p < n_paths plan" using ow by simp
    show ?thesis
      using AssumeDiscriminant live [OF p, of "''AssumeDiscriminant''"] ini [OF p, of "''AssumeDiscriminant''"] by auto
  qed
qed

text \<open>The last two loops of the checks never report anything.\<close>

lemma invariant_errors_none: "consistent s \<Longrightarrow> invariant_errors plan s b i = []"
  by (auto simp: invariant_errors_def consistent_def)

lemma check_and_apply_ok:
  assumes pt: "plan_topo plan t" and dw: "downcasts_wf plan" and ok: "state_ok plan t s" and ow: "op_wf plan op"
  shows "\<exists>s' es. check_and_apply plan t b (i, op) (s, errs) = Some (s', errs @ es) \<and>
    apply_operation op plan t s = Some s' \<and> state_ok plan t s' \<and> (es = [] \<longleftrightarrow> op_checked plan t s op)"
proof -
  have s: "state_wf plan t s" "consistent s" using ok by (simp_all add: state_ok_def)
  obtain es where es: "check_operation plan t s b i op = Some es" "es = [] \<longleftrightarrow> op_checked plan t s op"
    using check_operation_value [OF pt s(1) dw ow] by blast
  obtain s' where s': "apply_operation op plan t s = Some s'" "state_wf plan t s'" "consistent s'"
    using apply_operation_result [OF pt s ow] by (auto simp: step_result_def)
  then show ?thesis using es invariant_errors_none [OF s'(3)]
    by (auto simp: check_and_apply_def state_ok_def)
qed

text \<open>Every operation of a list passes its checks in the state the list reaches before it.\<close>

fun ops_checked :: "cleanup_plan \<Rightarrow> move_path_topology \<Rightarrow> move_state \<Rightarrow> cleanup_op list \<Rightarrow> bool" where
  "ops_checked plan t s [] \<longleftrightarrow> True"
| "ops_checked plan t s (op # ops) \<longleftrightarrow>
     op_checked plan t s op \<and>
     (\<forall>s'. apply_operation op plan t s = Some s' \<longrightarrow> ops_checked plan t s' ops)"

lemma check_ops_ok:
  assumes pt: "plan_topo plan t" and dw: "downcasts_wf plan" and "state_ok plan t s" "\<forall>op \<in> set ops. op_wf plan op"
  shows "\<exists>s' es. fold_opt (check_and_apply plan t b) (enumerate k ops) (s, errs) = Some (s', errs @ es) \<and>
    apply_operations plan t ops s = Some s' \<and> state_ok plan t s' \<and> (es = [] \<longrightarrow> ops_checked plan t s ops)"
  using assms(3,4)
proof (induction ops arbitrary: k s errs)
  case Nil
  then show ?case by (simp add: apply_operations_def)
next
  case (Cons op ops)
  obtain s1 e1 where s1: "check_and_apply plan t b (k, op) (s, errs) = Some (s1, errs @ e1)"
    "apply_operation op plan t s = Some s1" "state_ok plan t s1" "e1 = [] \<longleftrightarrow> op_checked plan t s op"
    using check_and_apply_ok [OF pt dw Cons.prems(1), of op b k errs] Cons.prems(2) by auto
  obtain s2 e2 where s2: "fold_opt (check_and_apply plan t b) (enumerate (Suc k) ops) (s1, errs @ e1) =
      Some (s2, (errs @ e1) @ e2)"
    "apply_operations plan t ops s1 = Some s2" "state_ok plan t s2" "e2 = [] \<longrightarrow> ops_checked plan t s1 ops"
  proof -
    have "\<forall>op \<in> set ops. op_wf plan op" using Cons.prems(2) by simp
    from Cons.IH [OF s1(3) this, of "Suc k" "errs @ e1"] that show ?thesis by blast
  qed
  have "fold_opt (check_and_apply plan t b) (enumerate k (op # ops)) (s, errs) = Some (s2, errs @ (e1 @ e2))"
    using s1(1) s2(1) by simp
  moreover have "apply_operations plan t (op # ops) s = Some s2"
    using s1(2) s2(2) by (simp add: apply_operations_def)
  moreover have "e1 @ e2 = [] \<longrightarrow> ops_checked plan t s (op # ops)" using s1(2,4) s2(4) by simp
  ultimately show ?case using s2(3) by blast
qed

text \<open>What the checks at a terminator say.\<close>

fun terminator_checked :: "cleanup_plan \<Rightarrow> move_path_topology \<Rightarrow> move_state \<Rightarrow> terminator \<Rightarrow> bool" where
  "terminator_checked plan t s (Branch condition _ _) \<longleftrightarrow>
     storage_liveness_of s condition = Live \<and>
     (\<exists>root. root_of_local plan condition = Some root \<and> path_initialization_of s t root = Some Initialized)"
| "terminator_checked plan t s (Return _) \<longleftrightarrow>
     (\<forall>l \<in> set (plan_locals plan). local_kind l = ReturnPlace \<longrightarrow>
        storage_liveness_of s (local_id l) = Live \<and>
        (\<exists>root. root_of_local plan (local_id l) = Some root \<and> path_initialization_of s t root = Some Initialized))"
| "terminator_checked plan t s _ \<longleftrightarrow> True"

lemma roots_by_local_nth:
  "plan_topo plan t \<Longrightarrow> l < length (plan_locals plan) \<Longrightarrow>
   nth_opt (roots_by_local t) l = Some (root_of_local plan l)"
  by (auto simp: plan_topo_def topo_ok_def)

lemma root_bound: "root_of_local plan l = Some r \<Longrightarrow> r < n_paths plan"
  using root_of_local_Some [of plan l r] by (simp add: n_paths_def)

lemma check_return_place_value:
  assumes pt: "plan_topo plan t" and wf: "state_wf plan t s" and l: "local_id l < length (plan_locals plan)"
  shows "\<exists>es. check_return_place t s b l = Some es \<and>
    (es = [] \<longrightarrow> storage_liveness_of s (local_id l) = Live \<and>
       (\<exists>root. root_of_local plan (local_id l) = Some root \<and> path_initialization_of s t root = Some Initialized))"
proof (cases "root_of_local plan (local_id l)")
  case None
  then show ?thesis using roots_by_local_nth [OF pt l] by (simp add: check_return_place_def Let_def)
next
  case (Some r)
  obtain st where "path_initialization_of s t r = Some st"
    using path_initialization_total [OF pt wf root_bound [OF Some]] by blast
  then show ?thesis using Some roots_by_local_nth [OF pt l] by (simp add: check_return_place_def Let_def)
qed

lemma check_terminator_value:
  assumes pt: "plan_topo plan t" and wf: "state_wf plan t s"
    and ids: "\<forall>i < length (plan_locals plan). local_id (plan_locals plan ! i) = i"
  shows "\<exists>es. check_terminator plan t s b tm = Some es \<and> (es = [] \<longrightarrow> terminator_checked plan t s tm)"
proof (cases tm)
  case (Branch condition e1 e2)
  show ?thesis
  proof (cases "Option.bind (nth_opt (roots_by_local t) condition) id")
    case None
    then show ?thesis using Branch by (simp add: Let_def)
  next
    case (Some r)
    then have c: "condition < length (plan_locals plan)" using pt by (auto simp: opt_simps)
    then have r: "root_of_local plan condition = Some r" using Some roots_by_local_nth [OF pt c] by simp
    obtain st where "path_initialization_of s t r = Some st"
      using path_initialization_total [OF pt wf root_bound [OF r]] by blast
    then show ?thesis using Branch Some r by (simp add: Let_def)
  qed
next
  case (Return exs)
  have bound: "local_id l < length (plan_locals plan)" if "l \<in> set (plan_locals plan)" for l
    using ids that by (auto simp: in_set_conv_nth)
  let ?ls = "filter (\<lambda>l. local_kind l = ReturnPlace) (plan_locals plan)"
  let ?g = "\<lambda>l. the (check_return_place t s b l)"
  have each: "check_return_place t s b l = Some (?g l) \<and> (?g l = [] \<longrightarrow>
      storage_liveness_of s (local_id l) = Live \<and>
       (\<exists>root. root_of_local plan (local_id l) = Some root \<and> path_initialization_of s t root = Some Initialized))"
    if "l \<in> set ?ls" for l
    using check_return_place_value [OF pt wf bound, of l b] that by auto
  then have "map_opt (check_return_place t s b) ?ls = Some (map ?g ?ls)" by (intro map_opt_total) blast
  then have "check_terminator plan t s b tm = Some (concat (map ?g ?ls))" using Return by simp
  moreover have "concat (map ?g ?ls) = [] \<longrightarrow> terminator_checked plan t s tm"
    using each Return by (simp add: concat_map_Nil)
  ultimately show ?thesis by blast
qed simp_all

end
