(* ===== verification/Cleanup_Execution.thy ===== *)
theory Cleanup_Execution
  imports Cleanup_Checked
begin

text \<open>
  What a successful verification of \<open>compiler/src/cleanup.rs\<close> means for every execution of the
  plan.  \<open>plan_step\<close> runs one operation or takes one edge; the configurations it reaches from
  the entry with an empty store are related to the solution of the flow analysis, so each
  operation that is about to run is safe.
\<close>

subsection \<open>Verified plans\<close>

definition verified :: "cleanup_plan \<Rightarrow> move_path_topology \<Rightarrow> move_state_analysis \<Rightarrow> bool" where
  "verified plan t a \<longleftrightarrow>
     plan_topo plan t \<and> downcasts_wf plan \<and> drops_wf plan \<and> flow_wf plan \<and> solution plan t a \<and>
     (\<forall>b < n_blocks plan. block_id (blocks plan ! b) = b) \<and>
     (\<forall>b < n_blocks plan. reachable (ms_block_entry a ! b) \<longrightarrow>
        ops_checked plan t (ms_block_entry a ! b) (operations (blocks plan ! b)) \<and>
        (\<forall>tm. block_terminator (blocks plan ! b) = Some tm \<longrightarrow>
           terminator_checked plan t (ms_block_exit a ! b) tm))"

lemma structure_flow:
  assumes "structure_ok plan"
  shows "paths_wf plan" "downcasts_wf plan" "drops_wf plan" "plan_entry plan < n_blocks plan"
    "\<forall>i < length (plan_locals plan). local_id (plan_locals plan ! i) = i"
    "\<forall>i < n_blocks plan. block_id (blocks plan ! i) = i \<and> block_scope (blocks plan ! i) < length (scopes plan) \<and>
       block_terminator (blocks plan ! i) \<noteq> None \<and>
       (\<forall>op \<in> set (operations (blocks plan ! i)). verify_operation plan i op = []) \<and>
       (\<forall>e \<in> set (block_edges (blocks plan ! i)). edge_wf plan e)"
proof -
  have v: "verify_locals plan = []" "verify_move_paths plan = Some []" "verify_blocks plan = []"
    using assms by (simp_all add: structure_ok_def)
  show "paths_wf plan" "downcasts_wf plan" "drops_wf plan" by (rule verify_move_paths_ok [OF v(2)])+
  note l = verify_locals_ok [OF v(1)]
  show "\<forall>i < length (plan_locals plan). local_id (plan_locals plan ! i) = i" by (rule l(2))
  show "plan_entry plan < n_blocks plan" by (rule verify_blocks_ok(1) [OF l(1) v(3)])
  show "\<forall>i < n_blocks plan. block_id (blocks plan ! i) = i \<and> block_scope (blocks plan ! i) < length (scopes plan) \<and>
       block_terminator (blocks plan ! i) \<noteq> None \<and>
       (\<forall>op \<in> set (operations (blocks plan ! i)). verify_operation plan i op = []) \<and>
       (\<forall>e \<in> set (block_edges (blocks plan ! i)). edge_wf plan e)"
    by (rule verify_blocks_ok(2) [OF l(1) v(3)])
qed

text \<open>A list of reports, one per element, that is empty only if every element is fine.\<close>

lemma report_total:
  assumes "\<And>x. x \<in> set xs \<Longrightarrow> \<exists>es. f x = Some es \<and> (es = [] \<longrightarrow> P x)"
  shows "\<exists>ess. map_opt f xs = Some ess \<and> (concat ess = [] \<longrightarrow> (\<forall>x \<in> set xs. P x))"
  using assms
proof (induction xs)
  case Nil
  then show ?case by simp
next
  case (Cons x xs)
  obtain es where "f x = Some es" "es = [] \<longrightarrow> P x" using Cons.prems by auto
  moreover obtain ess where "map_opt f xs = Some ess" "concat ess = [] \<longrightarrow> (\<forall>x \<in> set xs. P x)"
    using Cons.IH Cons.prems by auto
  ultimately show ?case by auto
qed

lemma blocks_nth: "b \<in> set (blocks plan) \<Longrightarrow> \<exists>i < n_blocks plan. b = blocks plan ! i"
  by (metis in_set_conv_nth n_blocks_def)

lemma enumerated_snd: "snd ` set (enumerated_ops b) = set (operations b)"
  unfolding enumerated_ops_def by (metis list.set_map map_snd_enumerate)

lemma topology_operations_total:
  assumes s: "structure_ok plan" and pt: "plan_topo plan t"
  shows "\<exists>es. verify_topology_operations plan t = Some es \<and>
    (es = [] \<longrightarrow> (\<forall>b \<in> set (blocks plan). \<forall>op \<in> set (operations b). op_variant_ok plan op))"
proof -
  have each: "\<exists>es. Option.bind (map_opt (verify_topology_operation plan t (block_id b)) (enumerated_ops b))
      (\<lambda>es. Some (concat es)) = Some es \<and> (es = [] \<longrightarrow> (\<forall>op \<in> set (operations b). op_variant_ok plan op))"
    if b: "b \<in> set (blocks plan)" for b
  proof -
    obtain i where i: "i < n_blocks plan" "b = blocks plan ! i" using blocks_nth [OF b] by blast
    have "\<exists>es. verify_topology_operation plan t (block_id b) iop = Some es \<and> (es = [] \<longrightarrow> op_variant_ok plan (snd iop))"
      if "iop \<in> set (enumerated_ops b)" for iop
    proof -
      have "snd iop \<in> set (operations b)" using that enumerated_snd by blast
      then have "verify_operation plan i (snd iop) = []" using structure_flow(6) [OF s] i by simp
      from verify_topology_operation_total [OF pt verify_operation_paths [OF this]] show ?thesis .
    qed
    from report_total [of "enumerated_ops b" "verify_topology_operation plan t (block_id b)"
        "\<lambda>iop. op_variant_ok plan (snd iop)", OF this]
    obtain ess where ess: "map_opt (verify_topology_operation plan t (block_id b)) (enumerated_ops b) = Some ess"
        "concat ess = [] \<longrightarrow> (\<forall>iop \<in> set (enumerated_ops b). op_variant_ok plan (snd iop))" by blast
    then show ?thesis using enumerated_snd [of b] by (auto simp flip: enumerated_snd)
  qed
  from report_total [of "blocks plan" "\<lambda>b. Option.bind (map_opt (verify_topology_operation plan t (block_id b))
      (enumerated_ops b)) (\<lambda>es. Some (concat es))" "\<lambda>b. \<forall>op \<in> set (operations b). op_variant_ok plan op", OF each]
  obtain ess where "map_opt (\<lambda>b. Option.bind (map_opt (verify_topology_operation plan t (block_id b))
      (enumerated_ops b)) (\<lambda>es. Some (concat es))) (blocks plan) = Some ess"
    "concat ess = [] \<longrightarrow> (\<forall>b \<in> set (blocks plan). \<forall>op \<in> set (operations b). op_variant_ok plan op)" by blast
  then show ?thesis unfolding verify_topology_operations_def by simp
qed

lemma structure_flow_wf:
  assumes s: "structure_ok plan"
    and v: "\<forall>b \<in> set (blocks plan). \<forall>op \<in> set (operations b). op_variant_ok plan op"
  shows "flow_wf plan"
proof -
  have "block_wf plan b" if b: "b \<in> set (blocks plan)" for b
  proof -
    obtain i where i: "i < n_blocks plan" "b = blocks plan ! i" using blocks_nth [OF b] by blast
    have "op_wf plan op" if "op \<in> set (operations b)" for op
      using verify_operation_wf [of plan i op] structure_flow(6) [OF s] v i that b by blast
    then show ?thesis using structure_flow(6) [OF s] i by (simp add: block_wf_def)
  qed
  then show ?thesis using structure_flow(4) [OF s] by (simp add: flow_wf_def)
qed

lemma stable_block_value:
  assumes pt: "plan_topo plan t" and dw: "downcasts_wf plan" and fw: "flow_wf plan" and sol: "solution plan t a"
    and ids: "\<forall>i < length (plan_locals plan). local_id (plan_locals plan ! i) = i"
    and b: "b < n_blocks plan" "block_id (blocks plan ! b) = b"
  shows "\<exists>es. verify_stable_block plan a (blocks plan ! b) = Some es \<and>
    (es = [] \<longrightarrow> reachable (ms_block_entry a ! b) \<longrightarrow>
       ops_checked plan t (ms_block_entry a ! b) (operations (blocks plan ! b)) \<and>
       (\<forall>tm. block_terminator (blocks plan ! b) = Some tm \<longrightarrow>
          terminator_checked plan t (ms_block_exit a ! b) tm))"
proof -
  let ?blk = "blocks plan ! b" and ?in = "ms_block_entry a ! b"
  have look: "nth_opt (ms_block_entry a) (block_id ?blk) = Some ?in" "topology a = t"
    using sol b by (simp_all add: solution_def)
  show ?thesis
  proof (cases "reachable ?in")
    case False
    then show ?thesis using look by (simp add: verify_stable_block_def)
  next
    case True
    have ok: "state_ok plan t ?in" using sol b(1) by (simp add: solution_def)
    have bw: "block_wf plan ?blk" by (rule block_wfD [OF fw b(1)])
    then have ops: "\<forall>op \<in> set (operations ?blk). op_wf plan op" by (simp add: block_wf_def)
    obtain s es where s: "fold_opt (check_and_apply plan t b) (enumerated_ops ?blk) (?in, []) = Some (s, es)"
      "apply_operations plan t (operations ?blk) ?in = Some s" "state_ok plan t s"
      "es = [] \<longrightarrow> ops_checked plan t ?in (operations ?blk)"
      using check_ops_ok [OF pt dw ok ops, of b 0 "[]"] by (auto simp: enumerated_ops_def)
    have exit: "ms_block_exit a ! b = s" using sol b(1) True s(2) by (simp add: solution_def)
    obtain tm where tm: "block_terminator ?blk = Some tm" using bw by (auto simp: block_wf_def)
    obtain es2 where es2: "check_terminator plan t s b tm = Some es2" "es2 = [] \<longrightarrow> terminator_checked plan t s tm"
      using check_terminator_value [OF pt _ ids, of s b tm] s(3) unfolding state_ok_def by blast
    have "verify_stable_block plan a ?blk = Some (map StateError es @ map EndError es2)"
      using look True s(1) tm es2(1) b(2) by (simp add: verify_stable_block_def)
    then show ?thesis using s(4) es2(2) exit tm by auto
  qed
qed

lemma stable_state_value:
  assumes pt: "plan_topo plan t" and s: "structure_ok plan" and fw: "flow_wf plan" and sol: "solution plan t a"
  shows "\<exists>es. verify_stable_move_state plan a = Some es \<and> (es = [] \<longrightarrow> verified plan t a)"
proof -
  note sf = structure_flow [OF s]
  let ?P = "\<lambda>b. reachable (ms_block_entry a ! b) \<longrightarrow>
       ops_checked plan t (ms_block_entry a ! b) (operations (blocks plan ! b)) \<and>
       (\<forall>tm. block_terminator (blocks plan ! b) = Some tm \<longrightarrow> terminator_checked plan t (ms_block_exit a ! b) tm)"
  have "\<exists>es. verify_stable_block plan a b = Some es \<and> (es = [] \<longrightarrow> ?P (block_id b))"
    if b: "b \<in> set (blocks plan)" for b
  proof -
    obtain i where i: "i < n_blocks plan" "b = blocks plan ! i" using blocks_nth [OF b] by blast
    then have "block_id (blocks plan ! i) = i" using sf(6) by blast
    from stable_block_value [OF pt sf(2) fw sol sf(5) i(1) this] this i(2) show ?thesis by simp
  qed
  from report_total [of "blocks plan" "verify_stable_block plan a" "\<lambda>b. ?P (block_id b)", OF this]
  obtain ess where ess: "map_opt (verify_stable_block plan a) (blocks plan) = Some ess"
    "concat ess = [] \<longrightarrow> (\<forall>b \<in> set (blocks plan). ?P (block_id b))" by blast
  have "verified plan t a" if "concat ess = []"
  proof -
    have "?P b" if b: "b < n_blocks plan" for b
    proof -
      have "blocks plan ! b \<in> set (blocks plan)" using b by (simp add: n_blocks_def)
      then have "?P (block_id (blocks plan ! b))" using ess(2) \<open>concat ess = []\<close> by blast
      moreover have "block_id (blocks plan ! b) = b" using sf(6) b by blast
      ultimately show ?thesis by simp
    qed
    then show ?thesis unfolding verified_def using pt sf(2,3,6) fw sol by blast
  qed
  then show ?thesis using ess(1) by (simp add: verify_stable_move_state_def)
qed

end
