(* ===== verification/Cleanup_Flags_Total.thy ===== *)
theory Cleanup_Flags_Total
  imports Cleanup_Execution
begin

text \<open>
  The drop-flag analysis of \<open>compiler/src/cleanup.rs\<close> never panics on a verified plan: every
  path whose drop is conditional has a flag when the obligations look it up.
\<close>

definition status_at ::
    "cleanup_plan \<Rightarrow> move_path_topology \<Rightarrow> move_state \<Rightarrow> move_path_id \<Rightarrow> path_initialization" where
  "status_at plan t s p =
     (if p \<in> bits (must_init s) then Initialized
      else if nothing_below plan t p s then Uninitialized else MaybeOrPartial)"

lemma status_at_value:
  "plan_topo plan t \<Longrightarrow> state_wf plan t s \<Longrightarrow> p < n_paths plan \<Longrightarrow>
   path_initialization_of s t p = Some (status_at plan t s p)"
  by (simp add: path_initialization_value status_at_def)

text \<open>The paths reached from \<open>p\<close> through maybe or partially initialised paths only.\<close>

inductive partial_from ::
    "cleanup_plan \<Rightarrow> move_path_topology \<Rightarrow> move_state \<Rightarrow> move_path_id \<Rightarrow> move_path_id \<Rightarrow> bool"
  for plan t s p where
  here: "status_at plan t s p = MaybeOrPartial \<Longrightarrow> partial_from plan t s p p"
| down: "partial_from plan t s p q \<Longrightarrow> c \<in> set (children_of plan q) \<Longrightarrow>
    status_at plan t s c = MaybeOrPartial \<Longrightarrow> partial_from plan t s p c"

lemma partial_from_child:
  assumes "partial_from plan t s c q" "c \<in> set (children_of plan p)" "status_at plan t s p = MaybeOrPartial"
  shows "partial_from plan t s p q"
  using assms by (induction rule: partial_from.induct) (auto intro: partial_from.intros)

lemma partial_from_cases:
  assumes "partial_from plan t s p q"
  shows "status_at plan t s p = MaybeOrPartial \<and>
    (q = p \<or> (\<exists>c \<in> set (children_of plan p). partial_from plan t s c q))"
  using assms by (induction rule: partial_from.induct) (auto intro: partial_from.intros)

lemma partial_from_bound:
  assumes "paths_wf plan" "partial_from plan t s p q" "p < n_paths plan"
  shows "q < n_paths plan"
  using assms(2,3) by (induction rule: partial_from.induct) (auto simp: set_children_of n_paths_def)

text \<open>A path with a drop flag.\<close>

definition conditional :: "cleanup_plan \<Rightarrow> move_path_topology \<Rightarrow> move_state \<Rightarrow> move_path_id \<Rightarrow> move_path_id set" where
  "conditional plan t s p =
     {q. partial_from plan t s p q \<and> needs_drop (move_paths plan ! q) \<and> q \<in> bits (may_init s)}"

lemma conditional_none: "status_at plan t s p \<noteq> MaybeOrPartial \<Longrightarrow> conditional plan t s p = {}"
  using partial_from_cases by (fastforce simp: conditional_def)

lemma conditional_step:
  assumes "status_at plan t s p = MaybeOrPartial"
  shows "conditional plan t s p =
    (if needs_drop (move_paths plan ! p) \<and> p \<in> bits (may_init s) then {p} else {}) \<union>
    (\<Union>c \<in> set (children_of plan p). conditional plan t s c)"
proof -
  have "partial_from plan t s p q \<longleftrightarrow> q = p \<or> (\<exists>c \<in> set (children_of plan p). partial_from plan t s c q)" for q
    using assms partial_from_cases partial_from_child partial_from.here by metis
  then show ?thesis by (auto simp: conditional_def)
qed

text \<open>Induction on a path from its children.\<close>

lemma path_induct [consumes 2, case_names children]:
  assumes wf: "paths_wf plan" and p: "p < n_paths plan"
    and step: "\<And>p. p < n_paths plan \<Longrightarrow> (\<And>c. c \<in> set (children_of plan p) \<Longrightarrow> P c) \<Longrightarrow> P p"
  shows "P p"
proof -
  have "p < n_paths plan \<Longrightarrow> P p" for p
  proof (induction p rule: wf_induct_rule [OF child_rel_wf(1) [OF wf]])
    case (1 p)
    show ?case
    proof (rule step [OF 1(2)])
      fix c assume c: "c \<in> set (children_of plan p)"
      then have "(p, c) \<in> child_rel (child_lists plan)" using child_rel_plan [OF wf] by (simp add: set_children_of)
      then show "P c" using 1(1) below_child(2) [OF wf c] by blast
    qed
  qed
  then show ?thesis using p .
qed

lemma collect_total:
  assumes pt: "plan_topo plan t" and wf: "state_wf plan t s" and p: "p < n_paths plan"
  shows "\<exists>ps. collect_conditional_paths plan t s p paths = Some ps \<and> set ps = set paths \<union> conditional plan t s p"
  using plan_topoD(1) [OF pt] p
proof (induction p arbitrary: paths rule: path_induct)
  case (children p)
  have st: "path_initialization_of s t p = Some (status_at plan t s p)"
    using status_at_value [OF pt wf children.hyps] .
  show ?case
  proof (cases "status_at plan t s p = MaybeOrPartial")
    case False
    then show ?thesis using st conditional_none [OF False]
      by (simp add: collect_conditional_paths.simps [of plan t s p])
  next
    case True
    let ?paths = "if needs_drop (move_paths plan ! p) \<and> path_may_be_fully_initialized s p
       then List.insert p paths else paths"
    have fold: "\<exists>ps. fold_opt (\<lambda>c paths. collect_conditional_paths plan t s c paths) cs acc = Some ps \<and>
        set ps = set acc \<union> (\<Union>c \<in> set cs. conditional plan t s c)"
      if "set cs \<subseteq> set (children_of plan p)" for cs acc
      using that
    proof (induction cs arbitrary: acc)
      case Nil
      then show ?case by simp
    next
      case (Cons c cs)
      have c: "c \<in> set (children_of plan p)" using Cons.prems by simp
      obtain p1 where p1: "collect_conditional_paths plan t s c acc = Some p1"
        "set p1 = set acc \<union> conditional plan t s c"
        using children.IH [OF c, of acc] by blast
      obtain p2 where "fold_opt (\<lambda>c paths. collect_conditional_paths plan t s c paths) cs p1 = Some p2"
        "set p2 = set p1 \<union> (\<Union>c \<in> set cs. conditional plan t s c)"
        using Cons.IH [of p1] Cons.prems by auto
      then show ?case using p1 by auto
    qed
    have len: "p < length (move_paths plan)" using children.hyps by (simp add: n_paths_def)
    have "collect_conditional_paths plan t s p paths =
        fold_opt (\<lambda>c paths. collect_conditional_paths plan t s c paths) (children_of plan p) ?paths"
      using st True len topo_children_nth [OF pt children.hyps] pt children.hyps
      by (simp add: collect_conditional_paths.simps [of plan t s p] Let_def)
    moreover have "set ?paths = set paths \<union>
        (if needs_drop (move_paths plan ! p) \<and> p \<in> bits (may_init s) then {p} else {})"
      by (simp add: path_may_be_fully_initialized_def)
    moreover obtain ps where "fold_opt (\<lambda>c paths. collect_conditional_paths plan t s c paths)
        (children_of plan p) ?paths = Some ps"
      "set ps = set ?paths \<union> (\<Union>c \<in> set (children_of plan p). conditional plan t s c)"
      using fold [OF subset_refl, of ?paths] by blast
    ultimately have "collect_conditional_paths plan t s p paths = Some ps \<and>
        set ps = set paths \<union> conditional plan t s p"
      unfolding conditional_step [OF True] by auto
    then show ?thesis by blast
  qed
qed

definition flagged :: "(move_path_id \<times> drop_flag_id) list \<Rightarrow> move_path_id set \<Rightarrow> bool" where
  "flagged flags A \<longleftrightarrow> A \<subseteq> fst ` set flags"

lemma flagged_lookup: "flagged flags A \<Longrightarrow> q \<in> A \<Longrightarrow> \<exists>f. flag_of flags q = Some f"
  unfolding flagged_def flag_of_def by (metis (no_types, lifting) map_of_eq_None_iff option.exhaust subsetD)

lemma obligations_total:
  assumes pt: "plan_topo plan t" and wf: "state_wf plan t s" and dr: "drops_wf plan" and p: "p < n_paths plan"
    and "flagged flags (conditional plan t s p) \<or> \<not> needs_drop (move_paths plan ! p)"
  shows "\<exists>obs. obligations_for_path plan t s flags p = Some obs"
  using plan_topoD(1) [OF pt] p assms(5)
proof (induction p rule: path_induct)
  case (children p)
  note pwf = plan_topoD(1) [OF pt]
  have len: "p < length (move_paths plan)" using children.hyps by (simp add: n_paths_def)
  have st: "path_initialization_of s t p = Some (status_at plan t s p)"
    using status_at_value [OF pt wf children.hyps] .
  have ch: "nth_opt (topo_children t) p = Some (children_of plan p)"
    using topo_children_nth [OF pt children.hyps] pt children.hyps by simp
  have nodrop: "\<not> needs_drop (move_paths plan ! c)"
    if "c \<in> set (children_of plan p)" "\<not> needs_drop (move_paths plan ! p)" for c
    using dr that by (auto simp: drops_wf_def set_children_of n_paths_def)
  have kids: "\<exists>ks. map_opt (\<lambda>c. obligations_for_path plan t s flags c) (children_of plan p) = Some ks"
    if h: "status_at plan t s p = MaybeOrPartial \<or> \<not> needs_drop (move_paths plan ! p)"
  proof -
    have "\<exists>obs. obligations_for_path plan t s flags c = Some obs" if c: "c \<in> set (children_of plan p)" for c
    proof (rule children.IH [OF c])
      show "flagged flags (conditional plan t s c) \<or> \<not> needs_drop (move_paths plan ! c)"
        using children.prems nodrop [OF c] h conditional_step [of plan t s p] c
        by (auto simp: flagged_def)
    qed
    then have "map_opt (\<lambda>c. obligations_for_path plan t s flags c) (children_of plan p) =
        Some (map (\<lambda>c. the (obligations_for_path plan t s flags c)) (children_of plan p))"
      by (intro map_opt_total) fastforce
    then show ?thesis by blast
  qed
  note simps = obligations_for_path.simps [of plan t s flags p]
  show ?case
  proof (cases "status_at plan t s p")
    case Uninitialized
    then show ?thesis using st by (simp add: simps)
  next
    case Initialized
    then show ?thesis using st len ch kids by (cases "needs_drop (move_paths plan ! p)") (auto simp: simps)
  next
    case MaybeOrPartial
    obtain ks where ks: "map_opt (\<lambda>c. obligations_for_path plan t s flags c) (children_of plan p) = Some ks"
      using kids MaybeOrPartial by blast
    show ?thesis
    proof (cases "needs_drop (move_paths plan ! p) \<and> path_may_be_fully_initialized s p")
      case True
      then have "p \<in> conditional plan t s p"
        using conditional_step [OF MaybeOrPartial] by (simp add: path_may_be_fully_initialized_def)
      then obtain f where "flag_of flags p = Some f" using flagged_lookup children.prems True by blast
      then show ?thesis using st len ch ks MaybeOrPartial True by (simp add: simps)
    next
      case False
      then show ?thesis using st len ch ks MaybeOrPartial by (auto simp: simps)
    qed
  qed
qed

subsection \<open>The whole analysis\<close>

lemma map_opt_defined: "(\<And>x. x \<in> set xs \<Longrightarrow> \<exists>y. f x = Some y) \<Longrightarrow> \<exists>ys. map_opt f xs = Some ys"
  by (induction xs) (simp, fastforce)

text \<open>What the analysis relies on: a solution of the flow equations of a well-formed plan.\<close>

definition analysed :: "cleanup_plan \<Rightarrow> move_state_analysis \<Rightarrow> bool" where
  "analysed plan a \<longleftrightarrow>
     plan_topo plan (topology a) \<and> drops_wf plan \<and> flow_wf plan \<and> solution plan (topology a) a \<and>
     (\<forall>i < n_blocks plan. block_id (blocks plan ! i) = i)"

lemma block_ops_wf:
  "analysed plan a \<Longrightarrow> b \<in> set (blocks plan) \<Longrightarrow> op \<in> set (operations b) \<Longrightarrow> op_wf plan op"
  by (auto simp: analysed_def flow_wf_def block_wf_def)

lemma state_before_ok:
  assumes an: "analysed plan a" and b: "b \<in> set (blocks plan)"
  shows "\<exists>r. state_before a plan (block_id b) i = Some r \<and> (\<forall>s. r = Some s \<longrightarrow> state_ok plan (topology a) s)"
proof -
  obtain j where j: "j < n_blocks plan" "b = blocks plan ! j" using blocks_nth [OF b] by blast
  have id: "block_id b = j" using an j by (simp add: analysed_def)
  have sol: "ms_computed a" "length (ms_block_entry a) = n_blocks plan" "state_ok plan (topology a) (ms_block_entry a ! j)"
    using an j(1) by (auto simp: analysed_def solution_def)
  have "\<forall>op \<in> set (take i (operations b)). op_wf plan op"
    using block_ops_wf [OF an b] by (auto dest: in_set_takeD)
  then have "result_ok plan (topology a) (ms_block_entry a ! j)
      (apply_operations plan (topology a) (take i (operations b)) (ms_block_entry a ! j))"
    using apply_operations_ok sol(3) an by (simp add: analysed_def)
  then show ?thesis using sol j id by (auto simp: state_before_def n_blocks_def result_ok_def)
qed

lemma root_of_local_bound: "root_of_local plan l = Some r \<Longrightarrow> r < n_paths plan"
  by (auto simp: root_of_local_def n_paths_def find_Some_iff)

lemma storage_end_total:
  assumes an: "analysed plan a" and b: "b \<in> set (blocks plan)" and iop: "iop \<in> set (enumerated_ops b)"
  shows "\<exists>r. storage_end_before plan a (block_id b) iop = Some r \<and>
    (\<forall>root s. r = Some (root, s) \<longrightarrow> root < n_paths plan \<and> state_wf plan (topology a) s)"
proof (cases "snd iop")
  case (StorageDead l)
  have "snd iop \<in> set (operations b)" using iop enumerated_snd by blast
  then have l: "l < length (plan_locals plan)" using block_ops_wf [OF an b] StorageDead by fastforce
  then have root: "nth_opt (roots_by_local (topology a)) l = Some (root_of_local plan l)"
    using roots_by_local_nth [of plan "topology a" l] an by (auto simp: analysed_def)
  obtain r where "state_before a plan (block_id b) (fst iop) = Some r"
    "\<forall>s. r = Some s \<longrightarrow> state_ok plan (topology a) s" using state_before_ok [OF an b] by blast
  then show ?thesis using StorageDead root root_of_local_bound [of plan l]
    by (auto simp: storage_end_before_def state_ok_def split: option.splits)
qed (simp_all add: storage_end_before_def)

text \<open>The storage ends of all blocks; the conditional paths of each are collected.\<close>

definition covers :: "cleanup_plan \<Rightarrow> move_state_analysis \<Rightarrow> basic_block \<Rightarrow> nat \<times> cleanup_op \<Rightarrow> move_path_id set \<Rightarrow> bool" where
  "covers plan a b iop A \<longleftrightarrow>
     (\<forall>root s. storage_end_before plan a (block_id b) iop = Some (Some (root, s)) \<longrightarrow>
        conditional plan (topology a) s root \<subseteq> A)"

lemma covers_mono: "covers plan a b iop A \<Longrightarrow> A \<subseteq> B \<Longrightarrow> covers plan a b iop B"
  unfolding covers_def by blast

lemma fold_opt_covers:
  assumes "\<And>x s. x \<in> set xs \<Longrightarrow> set s \<subseteq> U \<Longrightarrow> \<exists>s'. f x s = Some s' \<and> set s \<subseteq> set s' \<and> set s' \<subseteq> U \<and> Q x (set s')"
    and mono: "\<And>x A B. Q x A \<Longrightarrow> A \<subseteq> B \<Longrightarrow> Q x B" and "set s \<subseteq> U"
  shows "\<exists>s'. fold_opt f xs s = Some s' \<and> set s \<subseteq> set s' \<and> set s' \<subseteq> U \<and> (\<forall>x \<in> set xs. Q x (set s'))"
  using assms(1,3)
proof (induction xs arbitrary: s)
  case Nil
  then show ?case by simp
next
  case (Cons x xs)
  obtain s1 where s1: "f x s = Some s1" "set s \<subseteq> set s1" "set s1 \<subseteq> U" "Q x (set s1)"
    using Cons.prems(1) [of x s] Cons.prems(2) by auto
  have "\<exists>s'. f y s = Some s' \<and> set s \<subseteq> set s' \<and> set s' \<subseteq> U \<and> Q y (set s')"
    if "y \<in> set xs" "set s \<subseteq> U" for y s using Cons.prems(1) [of y s] that by simp
  from Cons.IH [OF this s1(3)]
  obtain s2 where s2: "fold_opt f xs s1 = Some s2" "set s1 \<subseteq> set s2" "set s2 \<subseteq> U" "\<forall>x \<in> set xs. Q x (set s2)"
    by blast
  have "Q x (set s2)" using mono [OF s1(4) s2(2)] .
  then show ?case using s1(1,2) s2 by simp
qed

lemma conditional_paths_total:
  assumes an: "analysed plan a"
  shows "\<exists>ps. conditional_paths plan a = Some ps \<and> set ps \<subseteq> {..<n_paths plan} \<and>
    (\<forall>b \<in> set (blocks plan). \<forall>iop \<in> set (enumerated_ops b). covers plan a b iop (set ps))"
proof -
  let ?U = "{..<n_paths plan}"
  let ?f = "\<lambda>b iop paths. do {
         e \<leftarrow> storage_end_before plan a (block_id b) iop;
         (case e of
            None \<Rightarrow> Some paths
          | Some (root, s) \<Rightarrow> collect_conditional_paths plan (topology a) s root paths) }"
  have pt: "plan_topo plan (topology a)" using an by (simp add: analysed_def)
  have step: "\<exists>ps. ?f b iop paths = Some ps \<and> set paths \<subseteq> set ps \<and> set ps \<subseteq> ?U \<and> covers plan a b iop (set ps)"
    if b: "b \<in> set (blocks plan)" and iop: "iop \<in> set (enumerated_ops b)" and u: "set paths \<subseteq> ?U" for b iop paths
  proof -
    obtain r where r: "storage_end_before plan a (block_id b) iop = Some r"
      "\<forall>root s. r = Some (root, s) \<longrightarrow> root < n_paths plan \<and> state_wf plan (topology a) s"
      using storage_end_total [OF an b iop] by blast
    show ?thesis
    proof (cases r)
      case None
      then show ?thesis using r(1) u by (simp add: covers_def)
    next
      case (Some rs)
      obtain root s where rs: "rs = (root, s)" by (cases rs)
      have ok: "root < n_paths plan" "state_wf plan (topology a) s" using r(2) Some rs by auto
      obtain ps where ps: "collect_conditional_paths plan (topology a) s root paths = Some ps"
        "set ps = set paths \<union> conditional plan (topology a) s root"
        using collect_total [OF pt ok(2,1)] by blast
      have "conditional plan (topology a) s root \<subseteq> ?U"
        using partial_from_bound [OF plan_topoD(1) [OF pt] _ ok(1)] by (auto simp: conditional_def)
      then show ?thesis using r(1) Some rs ps u by (simp add: covers_def)
    qed
  qed
  let ?Q = "\<lambda>b A. \<forall>iop \<in> set (enumerated_ops b). covers plan a b iop A"
  have block: "\<exists>ps. fold_opt (?f b) (enumerated_ops b) paths = Some ps \<and> set paths \<subseteq> set ps \<and> set ps \<subseteq> ?U \<and> ?Q b (set ps)"
    if b: "b \<in> set (blocks plan)" and u: "set paths \<subseteq> ?U" for b paths
    by (rule fold_opt_covers [of "enumerated_ops b" ?U "?f b" "covers plan a b", OF step [OF b] covers_mono u])
  have mono: "?Q b B" if "?Q b A" "A \<subseteq> B" for b A B using that covers_mono by meson
  have "\<exists>ps. fold_opt (\<lambda>b. fold_opt (?f b) (enumerated_ops b)) (blocks plan) [] = Some ps \<and> set [] \<subseteq> set ps \<and>
      set ps \<subseteq> ?U \<and> (\<forall>b \<in> set (blocks plan). ?Q b (set ps))"
    by (rule fold_opt_covers [of "blocks plan" ?U "\<lambda>b. fold_opt (?f b) (enumerated_ops b)" ?Q "[]", OF block mono]) auto
  then show ?thesis unfolding conditional_paths_def by blast
qed

lemma related_paths_total:
  assumes "plan_topo plan t" "p < n_paths plan" "q < n_paths plan"
  shows "related_paths t p q = Some (under plan p q \<or> under plan q p)"
  using assms by (simp add: related_paths_def plan_topo_def topo_ok_def n_paths_def)

lemma flag_update_total:
  assumes pt: "plan_topo plan t" and wf: "state_wf plan t s" and ow: "op_wf plan op" and fp: "fp < n_paths plan"
  shows "\<exists>r. flag_update plan t s op fp = Some r"
proof -
  have mp: "nth_opt (move_paths plan) fp = Some (move_paths plan ! fp)" using fp by (simp add: n_paths_def)
  have ini: "is_initialized s t fp = Some (status_at plan t s fp = Initialized)"
    by (simp add: is_initialized_def status_at_value [OF pt wf fp])
  show ?thesis
    using related_paths_total [OF pt _ fp] ow
    by (cases op) (auto simp: flag_update_def mp ini Let_def)
qed

lemma flag_actions_after_total:
  assumes "plan_topo plan t" "state_wf plan t s" "op_wf plan (snd iop)"
    and "\<forall>flag \<in> set flags. flag_path flag < n_paths plan"
  shows "\<exists>acts. flag_actions_after plan t b flags s iop = Some acts"
proof -
  have "map_opt (\<lambda>flag. do {
         v \<leftarrow> flag_update plan t s (snd iop) (flag_path flag);
         Some (case v of None \<Rightarrow> [] | Some v \<Rightarrow> [\<lparr>action_block = b, action_operation_index = fst iop,
             action_flag = flag_id flag, action_value = v\<rparr>]) }) flags =
     Some (map (\<lambda>flag. case the (flag_update plan t s (snd iop) (flag_path flag)) of None \<Rightarrow> []
         | Some v \<Rightarrow> [\<lparr>action_block = b, action_operation_index = fst iop,
             action_flag = flag_id flag, action_value = v\<rparr>]) flags)"
    by (rule map_opt_total) (use flag_update_total [OF assms(1-3)] assms(4) in fastforce)
  then show ?thesis by (simp add: flag_actions_after_def)
qed

lemma block_flag_actions_total:
  assumes an: "analysed plan a" and b: "b \<in> set (blocks plan)"
    and fl: "\<forall>flag \<in> set flags. flag_path flag < n_paths plan"
  shows "\<exists>acts. block_flag_actions plan a flags b = Some acts"
proof (cases "analysis_block_entry a (block_id b)")
  case None
  then show ?thesis by (simp add: block_flag_actions_def)
next
  case (Some entry)
  have pt: "plan_topo plan (topology a)" using an by (simp add: analysed_def)
  obtain j where j: "j < n_blocks plan" "b = blocks plan ! j" using blocks_nth [OF b] by blast
  have "block_id b = j" using an j by (simp add: analysed_def)
  then have ok: "state_ok plan (topology a) entry"
    using an j(1) Some by (auto simp: analysed_def solution_def analysis_block_entry_def opt_simps split: if_splits)
  let ?f = "\<lambda>iop st. do {
                s \<leftarrow> apply_operation (snd iop) plan (topology a) (fst st);
                acts \<leftarrow> flag_actions_after plan (topology a) (block_id b) flags s iop;
                Some (s, snd st @ acts) }"
  have "\<exists>st'. ?f iop st = Some st' \<and> state_ok plan (topology a) (fst st')"
    if iop: "iop \<in> set (enumerated_ops b)" and st: "state_ok plan (topology a) (fst st)" for iop st
  proof -
    have op: "op_wf plan (snd iop)" using block_ops_wf [OF an b] iop enumerated_snd by blast
    have wf: "state_wf plan (topology a) (fst st)" "consistent (fst st)" using st by (simp_all add: state_ok_def)
    obtain s where s: "apply_operation (snd iop) plan (topology a) (fst st) = Some s" "state_wf plan (topology a) s" "consistent s"
      using apply_operation_result [OF pt wf op] by (auto simp: step_result_def)
    obtain acts where "flag_actions_after plan (topology a) (block_id b) flags s iop = Some acts"
      using flag_actions_after_total [OF pt s(2) op fl] by blast
    then show ?thesis using s by (simp add: state_ok_def)
  qed
  from fold_opt_inv [of "\<lambda>st. state_ok plan (topology a) (fst st)" "(entry, [])" "enumerated_ops b" ?f, OF _ this] ok
  obtain st where "fold_opt ?f (enumerated_ops b) (entry, []) = Some st" by auto
  then show ?thesis using Some by (simp add: block_flag_actions_def)
qed

lemma drop_sites_total:
  assumes an: "analysed plan a" and b: "b \<in> set (blocks plan)"
    and cov: "\<forall>iop \<in> set (enumerated_ops b). covers plan a b iop (fst ` set flags)"
  shows "\<exists>sites. drop_sites_of plan a flags b = Some sites"
proof -
  have pt: "plan_topo plan (topology a)" and dr: "drops_wf plan" using an by (simp_all add: analysed_def)
  let ?f = "\<lambda>iop sites. do {
         e \<leftarrow> storage_end_before plan a (block_id b) iop;
         (case e of
            None \<Rightarrow> Some sites
          | Some (root, s) \<Rightarrow> do {
              obls \<leftarrow> obligations_for_path plan (topology a) s flags root;
              Some (if obls = [] then sites
                    else sites @ [\<lparr>site_block = block_id b, site_operation_index = fst iop,
                                   site_local = (case snd iop of StorageDead l \<Rightarrow> l | _ \<Rightarrow> 0),
                                   site_obligations = obls\<rparr>]) }) }"
  have "\<exists>sites'. ?f iop sites = Some sites' \<and> True" if iop: "iop \<in> set (enumerated_ops b)" for iop sites
  proof -
    obtain r where r: "storage_end_before plan a (block_id b) iop = Some r"
      "\<forall>root s. r = Some (root, s) \<longrightarrow> root < n_paths plan \<and> state_wf plan (topology a) s"
      using storage_end_total [OF an b iop] by blast
    show ?thesis
    proof (cases r)
      case None
      then show ?thesis using r(1) by simp
    next
      case (Some rs)
      obtain root s where rs: "rs = (root, s)" by (cases rs)
      have "flagged flags (conditional plan (topology a) s root)"
        using cov iop r(1) Some rs by (simp add: covers_def flagged_def)
      then obtain obls where "obligations_for_path plan (topology a) s flags root = Some obls"
        using obligations_total [OF pt _ dr, of s root flags] r(2) Some rs by blast
      then show ?thesis using r(1) Some rs by simp
    qed
  qed
  from fold_opt_inv [of "\<lambda>_. True" "[]" "enumerated_ops b" ?f, OF TrueI this]
  obtain sites where "fold_opt ?f (enumerated_ops b) [] = Some sites" by auto
  then show ?thesis by (auto simp: drop_sites_of_def)
qed

theorem drop_flags_total:
  assumes an: "analysed plan a"
  shows "\<exists>f. drop_flags_compute plan a = Some f"
proof -
  obtain ps where ps: "conditional_paths plan a = Some ps" "set ps \<subseteq> {..<n_paths plan}"
    "\<forall>b \<in> set (blocks plan). \<forall>iop \<in> set (enumerated_ops b). covers plan a b iop (set ps)"
    using conditional_paths_total [OF an] by blast
  let ?flags = "map (\<lambda>(i, p). \<lparr>flag_id = i, flag_path = p\<rparr>) (enumerate 0 (sort ps))"
  let ?by = "map (\<lambda>flag. (flag_path flag, flag_id flag)) ?flags"
  have "map flag_path ?flags = sort ps"
    using map_snd_enumerate [of 0 "sort ps"] by (simp add: comp_def case_prod_beta)
  then have paths: "flag_path ` set ?flags = set ps" by (metis list.set_map set_sort)
  then have fl: "\<forall>flag \<in> set ?flags. flag_path flag < n_paths plan" using ps(2) by (metis imageI lessThan_iff subsetD)
  have keys: "fst ` set ?by = set ps" using paths by (simp add: image_image)
  have "\<exists>acts. map_opt (block_flag_actions plan a ?flags) (blocks plan) = Some acts"
    by (rule map_opt_defined) (rule block_flag_actions_total [OF an _ fl])
  moreover have "\<exists>sites. map_opt (drop_sites_of plan a ?by) (blocks plan) = Some sites"
    by (rule map_opt_defined) (rule drop_sites_total [OF an], use ps(3) keys in auto)
  ultimately show ?thesis using ps(1) by (auto simp: drop_flags_compute_def Let_def)
qed

end
