(* ===== verification/Cleanup_Run.thy ===== *)
theory Cleanup_Run
  imports Cleanup_Flags_Total
begin

text \<open>
  The verdict of \<open>CleanupPlan::verify\<close> in \<open>compiler/src/cleanup.rs\<close> and what it means.  The
  verification returns on every plan whose path ids are in range.  \<open>plan_step\<close> runs one operation
  of a plan or takes one edge; in every configuration it reaches in a verified plan the next
  operation is safe, and so are the branch conditions and return places.
\<close>

subsection \<open>The verification returns\<close>

lemma verified_analysed: "verified plan t a \<Longrightarrow> analysed plan a"
  by (auto simp: verified_def analysed_def solution_def)

lemma analyze_and_verify_result:
  assumes ids: "\<forall>path \<in> set (move_paths plan). path_id path < length (move_paths plan)"
  shows "\<exists>r. analyze_and_verify plan = Some r \<and> (\<forall>a f. r = Inr (a, f) \<longrightarrow> verified plan (topology a) a)"
proof -
  obtain pes where pes: "verify_move_paths plan = Some pes" using verify_move_paths_total [OF ids] by blast
  show ?thesis
  proof (cases "structure_ok plan")
    case False
    then have "map ScopeError (verify_scopes plan) @ map LocalError (verify_locals plan) @
       map PathError pes @ map BlockError (verify_blocks plan) \<noteq> []"
      using pes by (auto simp: structure_ok_def)
    then show ?thesis using pes unfolding analyze_and_verify_def Let_def by simp
  next
    case s: True
    then have none: "pes = []" "verify_scopes plan = []" "verify_locals plan = []" "verify_blocks plan = []"
      using pes by (auto simp: structure_ok_def)
    obtain t where t: "topology_new plan = Some t" "topo_ok plan t"
      using topology_new_ok structure_flow(1) [OF s] by blast
    then have pt: "plan_topo plan t" using structure_flow(1) [OF s] by (simp add: plan_topo_def)
    obtain tes where tes: "verify_topology_operations plan t = Some tes"
      "tes = [] \<longrightarrow> (\<forall>b \<in> set (blocks plan). \<forall>op \<in> set (operations b). op_variant_ok plan op)"
      using topology_operations_total [OF s pt] by blast
    show ?thesis
    proof (cases "tes = []")
      case False
      then show ?thesis using pes none t(1) tes(1) by (simp add: analyze_and_verify_def Let_def)
    next
      case True
      then have fw: "flow_wf plan" using structure_flow_wf [OF s] tes(2) by blast
      obtain a where a: "analysis_compute plan t = Some a" "solution plan t a"
        using analysis_compute_ok [OF pt fw] by blast
      obtain es where es: "verify_stable_move_state plan a = Some es" "es = [] \<longrightarrow> verified plan t a"
        using stable_state_value [OF pt s fw a(2)] by blast
      show ?thesis
      proof (cases "es = []")
        case False
        then show ?thesis using pes none t(1) tes(1) True a(1) es(1) by (simp add: analyze_and_verify_def Let_def)
      next
        case ok: True
        then have v: "verified plan t a" using es(2) by blast
        obtain f where f: "drop_flags_compute plan a = Some f"
          using drop_flags_total [OF verified_analysed [OF v]] by blast
        moreover have "topology a = t" using v by (simp add: verified_def solution_def)
        ultimately show ?thesis using pes none t(1) tes(1) True a(1) es(1) ok v
          by (simp add: analyze_and_verify_def Let_def)
      qed
    qed
  qed
qed

lemma verify_move_paths_ids:
  assumes "analyze_and_verify plan = Some (Inr (a, f))"
  shows "\<forall>path \<in> set (move_paths plan). path_id path < length (move_paths plan)"
proof -
  have "verify_move_paths plan = Some []"
    using assms by (auto simp: analyze_and_verify_def opt_simps Let_def split: if_splits)
  then have "paths_wf plan" by (rule verify_move_paths_ok)
  then show ?thesis by (auto simp: paths_wf_def in_set_conv_nth)
qed

lemma analyze_and_verify_verified:
  "analyze_and_verify plan = Some (Inr (a, f)) \<Longrightarrow> verified plan (topology a) a"
  using analyze_and_verify_result verify_move_paths_ids by fastforce

lemma verify_Ok_verified:
  assumes "verify plan = Some (Inr ())"
  shows "\<exists>a. verified plan (topology a) a"
proof -
  obtain r where r: "analyze_and_verify plan = Some r" "\<not> isl r"
    using assms by (cases "analyze_and_verify plan") (auto simp: verify_def split: sum.splits)
  then show ?thesis using analyze_and_verify_verified by (cases r) auto
qed

subsection \<open>Executions\<close>

definition empty_store :: store where
  "empty_store = \<lparr>live = {}, leaf = {}, sel = (\<lambda>_. None)\<rparr>"

definition end_local :: "cleanup_plan \<Rightarrow> local_id \<Rightarrow> store \<Rightarrow> store" where
  "end_local plan l g = (blank_out plan (local_paths plan l) g)\<lparr>live := live g - {l}\<rparr>"

text \<open>Leaving along an edge ends the storage of the locals of the scopes it leaves.\<close>

definition leave :: "cleanup_plan \<Rightarrow> cleanup_edge \<Rightarrow> store \<Rightarrow> store" where
  "leave plan e g =
     fold (\<lambda>sc. fold (end_local plan) (scope_locals (scopes plan ! sc))) (exited_scopes e) g"

record config =
  at_block :: basic_block_id
  at_op :: nat
  memory :: store

inductive plan_step :: "cleanup_plan \<Rightarrow> config \<Rightarrow> config \<Rightarrow> bool" for plan where
  run: "b < n_blocks plan \<Longrightarrow> i < length (operations (blocks plan ! b)) \<Longrightarrow>
    exec_op plan (operations (blocks plan ! b) ! i) g g' \<Longrightarrow>
    plan_step plan \<lparr>at_block = b, at_op = i, memory = g\<rparr> \<lparr>at_block = b, at_op = Suc i, memory = g'\<rparr>"
| jump: "b < n_blocks plan \<Longrightarrow> i = length (operations (blocks plan ! b)) \<Longrightarrow>
    e \<in> set (block_edges (blocks plan ! b)) \<Longrightarrow>
    plan_step plan \<lparr>at_block = b, at_op = i, memory = g\<rparr>
      \<lparr>at_block = edge_target e, at_op = 0, memory = leave plan e g\<rparr>"

inductive reaches :: "cleanup_plan \<Rightarrow> config \<Rightarrow> bool" for plan where
  start: "reaches plan \<lparr>at_block = plan_entry plan, at_op = 0, memory = empty_store\<rparr>"
| step: "reaches plan c \<Longrightarrow> plan_step plan c c' \<Longrightarrow> reaches plan c'"

inductive_simps plan_step_iff: "plan_step plan c c'"

subsection \<open>The state describes every store\<close>

definition describes :: "cleanup_plan \<Rightarrow> move_path_topology \<Rightarrow> move_state \<Rightarrow> store \<Rightarrow> bool" where
  "describes plan t s g \<longleftrightarrow> state_ok plan t s \<and> reachable s \<and> sound plan t s g \<and> store_ok plan g"

definition covered :: "cleanup_plan \<Rightarrow> move_path_topology \<Rightarrow> move_state_analysis \<Rightarrow> config \<Rightarrow> bool" where
  "covered plan t a c \<longleftrightarrow>
     at_block c < n_blocks plan \<and>
     (let ops = operations (blocks plan ! at_block c); entry = ms_block_entry a ! at_block c in
        at_op c \<le> length ops \<and> reachable entry \<and>
        (\<exists>s. apply_operations plan t (take (at_op c) ops) entry = Some s \<and>
           describes plan t s (memory c) \<and> ops_checked plan t s (drop (at_op c) ops)))"

lemma not_whole_empty: "\<not> whole plan empty_store p"
proof
  assume "whole plan empty_store p"
  then show False
  proof (induction rule: whole.induct)
    case (parts p)
    then have "children_of plan p \<noteq> []" using rule_Explicit_iff by force
    then show False using parts by (cases "children_of plan p") auto
  qed (simp_all add: empty_store_def)
qed

lemma describes_start:
  assumes pt: "plan_topo plan t"
  shows "describes plan t (move_state_new True t) empty_store"
proof -
  let ?s = "move_state_new True t"
  have ok: "state_ok plan t ?s" by (rule state_new_ok [OF pt])
  have "disc_of t ?s d = ds_unset" if d: "d < n_paths plan" for d
  proof (cases "discriminant_index t ! d")
    case (Some j)
    then show ?thesis using discriminant_index_bound [OF pt d Some]
      by (simp add: disc_of_def move_state_new_def ds_unset_def)
  qed (simp add: disc_of_def)
  then have "sound plan t ?s empty_store"
    using not_whole_empty
    by (simp add: sound_def sound_on_def all_paths_def move_state_new_def empty_store_def disc_allows_def ds_unset_def)
  moreover have "store_ok plan empty_store"
    by (simp add: store_ok_def empty_store_def blank_def case_prod_beta)
  moreover have "reachable ?s" by (simp add: move_state_new_def)
  ultimately show ?thesis using ok by (simp add: describes_def)
qed

lemma describes_mono:
  assumes "plan_topo plan t" "describes plan t s g" "state_le s s'" "state_ok plan t s'"
  shows "describes plan t s' g"
  using assms sound_mono [OF assms(1), of s s' g] by (auto simp: describes_def state_ok_def state_le_def)

lemma describes_end_local:
  assumes pt: "plan_topo plan t" and d: "describes plan t s g" and l: "l < length (plan_locals plan)"
  shows "\<exists>s'. end_storage l t s = Some s' \<and> describes plan t s' (end_local plan l g)"
proof -
  have wf: "state_wf plan t s" "sound plan t s g" "store_ok plan g" "state_ok plan t s" "reachable s"
    using d by (simp_all add: describes_def state_ok_def)
  obtain s' where s': "end_storage l t s = Some s'" "state_ok plan t s'" "reachable s'"
    using end_storage_ok [OF pt wf(4) l] wf(5) by (auto simp: result_ok_def)
  have "store_ok plan (end_local plan l g)"
    using store_ok_blank_out [OF plan_topoD(1) [OF pt] down_closed_local wf(3)]
    by (simp add: end_local_def store_ok_live)
  then show ?thesis using s' end_storage_sound [OF pt wf(1) l wf(2) s'(1)]
    by (simp add: describes_def end_local_def)
qed

lemma fold_describes:
  assumes "\<And>x s g. x \<in> set xs \<Longrightarrow> describes plan t s g \<Longrightarrow> \<exists>s'. f x s = Some s' \<and> describes plan t s' (h x g)"
    and "describes plan t s g"
  shows "\<exists>s'. fold_opt f xs s = Some s' \<and> describes plan t s' (fold h xs g)"
  using assms
proof (induction xs arbitrary: s g)
  case (Cons x xs)
  obtain s1 where s1: "f x s = Some s1" "describes plan t s1 (h x g)" using Cons.prems by (meson list.set_intros(1))
  have "\<And>y s g. y \<in> set xs \<Longrightarrow> describes plan t s g \<Longrightarrow> \<exists>s'. f y s = Some s' \<and> describes plan t s' (h y g)"
    using Cons.prems(1) by simp
  from Cons.IH [OF this s1(2)] s1(1) show ?case by simp
qed simp

lemma describes_leave:
  assumes pt: "plan_topo plan t" and d: "describes plan t s g" and e: "edge_wf plan e"
  shows "\<exists>s'. exit_scopes plan t e s = Some s' \<and> describes plan t s' (leave plan e g)"
  unfolding exit_scopes_def leave_def
proof (rule fold_describes [OF _ d])
  fix sc s g assume sc: "sc \<in> set (exited_scopes e)" and d: "describes plan t s g"
  have "\<exists>s'. fold_opt (\<lambda>l s. end_storage l t s) (scope_locals (scopes plan ! sc)) s = Some s' \<and>
      describes plan t s' (fold (end_local plan) (scope_locals (scopes plan ! sc)) g)"
    by (rule fold_describes [OF _ d]) (use describes_end_local [OF pt] e sc in \<open>auto simp: edge_wf_def\<close>)
  then show "\<exists>s'. exit_scope plan t sc s = Some s' \<and>
      describes plan t s' (fold (end_local plan) (scope_locals (scopes plan ! sc)) g)"
    using e sc by (simp add: exit_scope_def edge_wf_def)
qed

subsection \<open>Every reachable configuration is covered\<close>

lemma covered_start:
  assumes v: "verified plan t a"
  shows "covered plan t a \<lparr>at_block = plan_entry plan, at_op = 0, memory = empty_store\<rparr>"
proof -
  have pt: "plan_topo plan t" and b: "plan_entry plan < n_blocks plan" and sol: "solution plan t a"
    using v by (simp_all add: verified_def flow_wf_def)
  let ?in = "ms_block_entry a ! plan_entry plan"
  have le: "state_le (move_state_new True t) ?in" and ok: "state_ok plan t ?in"
    using sol b by (simp_all add: solution_def)
  have d: "describes plan t ?in empty_store" by (rule describes_mono [OF pt describes_start [OF pt] le ok])
  moreover have "reachable ?in" using d by (simp add: describes_def)
  ultimately show ?thesis using v b by (simp add: covered_def apply_operations_def verified_def Let_def)
qed

lemma covered_run:
  assumes v: "verified plan t a" and c: "covered plan t a \<lparr>at_block = b, at_op = i, memory = g\<rparr>"
    and i: "i < length (operations (blocks plan ! b))"
    and ex: "exec_op plan (operations (blocks plan ! b) ! i) g g'"
  shows "covered plan t a \<lparr>at_block = b, at_op = Suc i, memory = g'\<rparr>"
proof -
  let ?ops = "operations (blocks plan ! b)"
  have pt: "plan_topo plan t" and dw: "downcasts_wf plan" and fw: "flow_wf plan"
    using v by (simp_all add: verified_def)
  have b: "b < n_blocks plan" and r: "reachable (ms_block_entry a ! b)" using c by (simp_all add: covered_def Let_def)
  obtain s where s: "apply_operations plan t (take i ?ops) (ms_block_entry a ! b) = Some s"
    "describes plan t s g" "ops_checked plan t s (drop i ?ops)"
    using c by (auto simp: covered_def Let_def)
  have dr: "drop i ?ops = ?ops ! i # drop (Suc i) ?ops" using i by (simp add: Cons_nth_drop_Suc)
  then have ch: "op_checked plan t s (?ops ! i)" using s(3) by simp
  have ow: "op_wf plan (?ops ! i)" using block_wfD [OF fw b] i by (simp add: block_wf_def)
  have ds: "state_wf plan t s" "consistent s" "sound plan t s g" "store_ok plan g" "reachable s"
    using s(2) by (simp_all add: describes_def state_ok_def)
  obtain s' where s': "apply_operation (?ops ! i) plan t s = Some s'" "state_wf plan t s'" "consistent s'"
    "reachable s' = reachable s" "sound plan t s' g'" "store_ok plan g'"
    using apply_operation_sound [OF pt dw ds(1-4) ow ch ex] by blast
  have "apply_operations plan t (take (Suc i) ?ops) (ms_block_entry a ! b) = Some s'"
    using s(1) s'(1) i by (simp add: take_Suc_conv_app_nth apply_operations_def fold_opt_append)
  moreover have "describes plan t s' g'" using s' ds(5) by (simp add: describes_def state_ok_def)
  moreover have "ops_checked plan t s' (drop (Suc i) ?ops)" using s(3) s'(1) dr by simp
  ultimately show ?thesis using b r i by (simp add: covered_def Let_def)
qed

lemma covered_at_end:
  assumes v: "verified plan t a" and c: "covered plan t a \<lparr>at_block = b, at_op = i, memory = g\<rparr>"
    and i: "i = length (operations (blocks plan ! b))"
  shows "describes plan t (ms_block_exit a ! b) g" "reachable (ms_block_entry a ! b)" "b < n_blocks plan"
  using v c i by (auto simp: covered_def verified_def solution_def Let_def)

lemma covered_jump:
  assumes v: "verified plan t a" and c: "covered plan t a \<lparr>at_block = b, at_op = i, memory = g\<rparr>"
    and i: "i = length (operations (blocks plan ! b))"
    and e: "e \<in> set (block_edges (blocks plan ! b))"
  shows "covered plan t a \<lparr>at_block = edge_target e, at_op = 0, memory = leave plan e g\<rparr>"
proof -
  have pt: "plan_topo plan t" and fw: "flow_wf plan" and sol: "solution plan t a" using v by (simp_all add: verified_def)
  note at = covered_at_end [OF v c i]
  have ew: "edge_wf plan e" using block_wfD [OF fw at(3)] e by (simp add: block_wf_def)
  then have tg: "edge_target e < n_blocks plan" by (simp add: edge_wf_def)
  let ?in = "ms_block_entry a ! edge_target e"
  obtain s' where s': "exit_scopes plan t e (ms_block_exit a ! b) = Some s'" "describes plan t s' (leave plan e g)"
    using describes_leave [OF pt at(1) ew] by blast
  have "flows plan t e (ms_block_exit a ! b) ?in" "state_ok plan t ?in" using sol at(2,3) e tg by (simp_all add: solution_def)
  then have d: "describes plan t ?in (leave plan e g)"
    using describes_mono [OF pt s'(2)] s'(1) by (auto simp: flows_def)
  then have "reachable ?in" by (simp add: describes_def)
  then show ?thesis using v tg d by (simp add: covered_def apply_operations_def verified_def Let_def)
qed

lemma reaches_covered:
  assumes v: "verified plan t a" and r: "reaches plan c"
  shows "covered plan t a c"
  using r
proof (induction rule: reaches.induct)
  case start
  show ?case by (rule covered_start [OF v])
next
  case (step c c')
  show ?case using step.hyps(2) step.IH
    by (cases rule: plan_step.cases) (use covered_run [OF v] covered_jump [OF v] in auto)
qed

subsection \<open>Safety\<close>

text \<open>The place of a local holds a complete value.\<close>

definition holds_value :: "cleanup_plan \<Rightarrow> store \<Rightarrow> local_id \<Rightarrow> bool" where
  "holds_value plan g l \<longleftrightarrow> l \<in> live g \<and> (\<exists>root. root_of_local plan l = Some root \<and> whole plan g root)"

definition terminator_safe :: "cleanup_plan \<Rightarrow> store \<Rightarrow> terminator \<Rightarrow> bool" where
  "terminator_safe plan g tm \<longleftrightarrow>
     (case tm of
        Branch condition _ _ \<Rightarrow> holds_value plan g condition
      | Return _ \<Rightarrow> \<forall>l \<in> set (plan_locals plan). local_kind l = ReturnPlace \<longrightarrow> holds_value plan g (local_id l)
      | _ \<Rightarrow> True)"

definition config_safe :: "cleanup_plan \<Rightarrow> config \<Rightarrow> bool" where
  "config_safe plan c \<longleftrightarrow>
     at_block c < n_blocks plan \<and>
     (let b = blocks plan ! at_block c in
        at_op c \<le> length (operations b) \<and>
        (at_op c < length (operations b) \<longrightarrow> op_safe plan (memory c) (operations b ! at_op c)) \<and>
        (at_op c = length (operations b) \<longrightarrow>
           (\<exists>tm. block_terminator b = Some tm \<and> terminator_safe plan (memory c) tm)))"

lemma value_of_live:
  assumes pt: "plan_topo plan t" and d: "describes plan t s g"
    and l: "storage_liveness_of s l = Live" "root_of_local plan l = Some r" "path_initialization_of s t r = Some Initialized"
  shows "holds_value plan g l"
proof -
  have wf: "state_wf plan t s" and so: "sound plan t s g" using d by (simp_all add: describes_def state_ok_def)
  have "l \<in> live g" using l(1) so by (auto simp: storage_liveness_iff sound_def)
  moreover have "r \<in> bits (must_init s)"
    using l(3) path_initialization_value [OF pt wf root_bound [OF l(2)]] by (auto split: if_splits)
  ultimately show ?thesis using l(2) sound_whole [OF so root_bound [OF l(2)]] by (auto simp: holds_value_def)
qed

lemma covered_safe:
  assumes v: "verified plan t a" and c: "covered plan t a c"
  shows "config_safe plan c"
proof -
  obtain b i g where cd: "c = \<lparr>at_block = b, at_op = i, memory = g\<rparr>" by (cases c)
  let ?ops = "operations (blocks plan ! b)"
  have pt: "plan_topo plan t" and dw: "downcasts_wf plan" and fw: "flow_wf plan" using v by (simp_all add: verified_def)
  have b: "b < n_blocks plan" and le: "i \<le> length ?ops" using c cd by (simp_all add: covered_def Let_def)
  obtain s where s: "describes plan t s g" "ops_checked plan t s (drop i ?ops)" using c cd by (auto simp: covered_def Let_def)
  have "op_safe plan g (?ops ! i)" if i: "i < length ?ops"
  proof -
    have ch: "op_checked plan t s (?ops ! i)" using s(2) i by (simp add: Cons_nth_drop_Suc [symmetric])
    have ow: "op_wf plan (?ops ! i)" using block_wfD [OF fw b] i by (simp add: block_wf_def)
    have ds: "state_wf plan t s" "sound plan t s g" "store_ok plan g"
      using s(1) by (simp_all add: describes_def state_ok_def)
    show ?thesis by (rule checked_op_safe [OF pt dw ds ow ch])
  qed
  moreover have "\<exists>tm. block_terminator (blocks plan ! b) = Some tm \<and> terminator_safe plan g tm" if i: "i = length ?ops"
  proof -
    note at = covered_at_end [OF v c [unfolded cd] i]
    obtain tm where tm: "block_terminator (blocks plan ! b) = Some tm"
      using block_wfD [OF fw b] by (auto simp: block_wf_def)
    then have "terminator_checked plan t (ms_block_exit a ! b) tm" using v at(2) b by (simp add: verified_def)
    then have "terminator_safe plan g tm"
      using value_of_live [OF pt at(1)] by (cases tm) (auto simp: terminator_safe_def)
    then show ?thesis using tm by blast
  qed
  ultimately show ?thesis using b le cd by (simp add: config_safe_def Let_def)
qed

lemma reaches_safe:
  "verified plan t a \<Longrightarrow> reaches plan c \<Longrightarrow> config_safe plan c"
  by (rule covered_safe) (auto intro: reaches_covered)

end
