(* ===== verification/Cleanup_Builder.thy ===== *)
theory Cleanup_Builder
  imports Cleanup_Run
begin

text \<open>
  \<open>CleanupPlanBuilder\<close> of \<open>compiler/src/cleanup.rs\<close>: the operations that build a plan step by
  step and hand out its ids, and \<open>finish\<close>, which verifies the plan and stores the analyses in it.
  An error message is a constructor with the values the message mentions.  \<open>builder_ok\<close> is what
  every sequence of operations keeps: ids are positions, parents come before children, and each
  scope lists exactly its locals in the order they were declared.
\<close>

datatype build_error =
    NoParentScope scope_id
  | RootKindReserved
  | NoLocalScope scope_id
  | NoPathLocal local_id
  | NoPathParent move_path_id
  | NoBlockScope scope_id
  | NoBlockToAppend basic_block_id
  | NoBlockToTerminate basic_block_id
  | AlreadyTerminated basic_block_id

record plan_builder =
  built :: cleanup_plan

definition builder_new :: plan_builder where
  "builder_new = \<lparr>built =
     \<lparr>root_scope = 0, plan_entry = 0,
      scopes = [\<lparr>scope_id = 0, scope_parent = None, scope_kind = RootScope, scope_locals = []\<rparr>],
      plan_locals = [], move_paths = [],
      blocks = [\<lparr>block_id = 0, block_scope = 0, operations = [], block_terminator = None\<rparr>],
      move_state_cache = move_state_analysis_uncomputed,
      drop_flags_cache = drop_flag_analysis_uncomputed\<rparr>\<rparr>"

definition builder_root_scope :: "plan_builder \<Rightarrow> scope_id" where
  "builder_root_scope b = root_scope (built b)"

definition builder_entry_block :: "plan_builder \<Rightarrow> basic_block_id" where
  "builder_entry_block b = plan_entry (built b)"

definition new_scope :: "scope_id \<Rightarrow> scope_kind \<Rightarrow> plan_builder \<Rightarrow> build_error + scope_id \<times> plan_builder" where
  "new_scope parent kind b =
     (let plan = built b in
      if nth_opt (scopes plan) parent = None then Inl (NoParentScope parent)
      else if kind = RootScope then Inl RootKindReserved
      else
        (let id = length (scopes plan);
             data = \<lparr>scope_id = id, scope_parent = Some parent, scope_kind = kind, scope_locals = []\<rparr>
         in Inr (id, b\<lparr>built := plan\<lparr>scopes := scopes plan @ [data]\<rparr>\<rparr>)))"

definition new_local_with_source ::
    "scope_id \<Rightarrow> local_kind \<Rightarrow> local_ownership \<Rightarrow> bool \<Rightarrow> nat option \<Rightarrow> string option \<Rightarrow> plan_builder \<Rightarrow>
     build_error + local_id \<times> plan_builder" where
  "new_local_with_source scope kind own mutable source name b =
     (let plan = built b in
      case nth_opt (scopes plan) scope of
        None \<Rightarrow> Inl (NoLocalScope scope)
      | Some data \<Rightarrow>
          (let id = length (plan_locals plan);
               order = length (scope_locals data);
               decl = \<lparr>local_id = id, source_local = source, debug_name = name, local_scope = scope,
                 local_kind = kind, ownership = own, is_mutable = mutable, declaration_order = order\<rparr>
           in Inr (id, b\<lparr>built := plan\<lparr>
                scopes := (scopes plan)[scope := data\<lparr>scope_locals := scope_locals data @ [id]\<rparr>],
                plan_locals := plan_locals plan @ [decl]\<rparr>\<rparr>)))"

definition new_local ::
    "scope_id \<Rightarrow> local_kind \<Rightarrow> local_ownership \<Rightarrow> bool \<Rightarrow> plan_builder \<Rightarrow>
     build_error + local_id \<times> plan_builder" where
  "new_local scope kind own mutable b = new_local_with_source scope kind own mutable None None b"

definition new_source_local ::
    "scope_id \<Rightarrow> local_kind \<Rightarrow> local_ownership \<Rightarrow> bool \<Rightarrow> nat \<Rightarrow> string \<Rightarrow> plan_builder \<Rightarrow>
     build_error + local_id \<times> plan_builder" where
  "new_source_local scope kind own mutable source name b =
     new_local_with_source scope kind own mutable (Some source) (Some name) b"

definition new_move_path_with_drop ::
    "place \<Rightarrow> move_path_id option \<Rightarrow> bool \<Rightarrow> plan_builder \<Rightarrow> build_error + move_path_id \<times> plan_builder" where
  "new_move_path_with_drop place parent droppable b =
     (let plan = built b in
      if nth_opt (plan_locals plan) (place_local place) = None then Inl (NoPathLocal (place_local place))
      else
        (case Option.bind parent (\<lambda>p. if nth_opt (move_paths plan) p = None then Some p else None) of
           Some p \<Rightarrow> Inl (NoPathParent p)
         | None \<Rightarrow>
             (let id = length (move_paths plan);
                  path = \<lparr>path_id = id, path_place = place, path_parent = parent, needs_drop = droppable\<rparr>
              in Inr (id, b\<lparr>built := plan\<lparr>move_paths := move_paths plan @ [path]\<rparr>\<rparr>))))"

definition new_move_path ::
    "place \<Rightarrow> move_path_id option \<Rightarrow> plan_builder \<Rightarrow> build_error + move_path_id \<times> plan_builder" where
  "new_move_path place parent b = new_move_path_with_drop place parent False b"

definition new_block :: "scope_id \<Rightarrow> plan_builder \<Rightarrow> build_error + basic_block_id \<times> plan_builder" where
  "new_block scope b =
     (let plan = built b in
      if nth_opt (scopes plan) scope = None then Inl (NoBlockScope scope)
      else
        (let id = length (blocks plan);
             data = \<lparr>block_id = id, block_scope = scope, operations = [], block_terminator = None\<rparr>
         in Inr (id, b\<lparr>built := plan\<lparr>blocks := blocks plan @ [data]\<rparr>\<rparr>)))"

definition push_operation :: "basic_block_id \<Rightarrow> cleanup_op \<Rightarrow> plan_builder \<Rightarrow> build_error + plan_builder" where
  "push_operation block op b =
     (let plan = built b in
      case nth_opt (blocks plan) block of
        None \<Rightarrow> Inl (NoBlockToAppend block)
      | Some data \<Rightarrow>
          Inr (b\<lparr>built := plan\<lparr>blocks := (blocks plan)[block := data\<lparr>operations := operations data @ [op]\<rparr>]\<rparr>\<rparr>))"

definition set_terminator :: "basic_block_id \<Rightarrow> terminator \<Rightarrow> plan_builder \<Rightarrow> build_error + plan_builder" where
  "set_terminator block tm b =
     (let plan = built b in
      case nth_opt (blocks plan) block of
        None \<Rightarrow> Inl (NoBlockToTerminate block)
      | Some data \<Rightarrow>
          if block_terminator data \<noteq> None then Inl (AlreadyTerminated (block_id data))
          else Inr (b\<lparr>built := plan\<lparr>blocks := (blocks plan)[block := data\<lparr>block_terminator := Some tm\<rparr>]\<rparr>\<rparr>))"

definition finish :: "plan_builder \<Rightarrow> (verify_error list + cleanup_plan) option" where
  "finish b = do {
     r \<leftarrow> analyze_and_verify (built b);
     Some (case r of
             Inl errors \<Rightarrow> Inl errors
           | Inr (a, flags) \<Rightarrow> Inr ((built b)\<lparr>move_state_cache := a, drop_flags_cache := flags\<rparr>)) }"

subsection \<open>The invariant of a plan under construction\<close>

definition scopes_ok :: "scope_data list \<Rightarrow> bool" where
  "scopes_ok ss \<longleftrightarrow> ss \<noteq> [] \<and>
     (\<forall>i < length ss. scope_id (ss ! i) = i \<and> (scope_kind (ss ! i) = RootScope \<longleftrightarrow> i = 0) \<and>
        (case scope_parent (ss ! i) of None \<Rightarrow> i = 0 | Some p \<Rightarrow> p < i))"

text \<open>The locals of scope \<open>sc\<close> among the first \<open>k\<close>, in order.\<close>

definition locals_in :: "local_decl list \<Rightarrow> scope_id \<Rightarrow> nat \<Rightarrow> local_id list" where
  "locals_in ls sc k = filter (\<lambda>i. local_scope (ls ! i) = sc) [0..<k]"

definition locals_ok :: "scope_data list \<Rightarrow> local_decl list \<Rightarrow> bool" where
  "locals_ok ss ls \<longleftrightarrow>
     (\<forall>i < length ls. local_id (ls ! i) = i \<and> local_scope (ls ! i) < length ss \<and>
        declaration_order (ls ! i) = length (locals_in ls (local_scope (ls ! i)) i)) \<and>
     (\<forall>sc < length ss. scope_locals (ss ! sc) = locals_in ls sc (length ls))"

definition move_paths_ok :: "local_decl list \<Rightarrow> move_path list \<Rightarrow> bool" where
  "move_paths_ok ls ps \<longleftrightarrow>
     (\<forall>i < length ps. path_id (ps ! i) = i \<and> place_local (path_place (ps ! i)) < length ls \<and>
        (\<forall>p. path_parent (ps ! i) = Some p \<longrightarrow> p < i))"

definition blocks_ok :: "scope_data list \<Rightarrow> basic_block list \<Rightarrow> bool" where
  "blocks_ok ss bs \<longleftrightarrow> bs \<noteq> [] \<and> block_scope (bs ! 0) = 0 \<and>
     (\<forall>i < length bs. block_id (bs ! i) = i \<and> block_scope (bs ! i) < length ss)"

definition builder_ok :: "plan_builder \<Rightarrow> bool" where
  "builder_ok b \<longleftrightarrow>
     (let plan = built b in
        root_scope plan = 0 \<and> plan_entry plan = 0 \<and> scopes_ok (scopes plan) \<and>
        locals_ok (scopes plan) (plan_locals plan) \<and> move_paths_ok (plan_locals plan) (move_paths plan) \<and>
        blocks_ok (scopes plan) (blocks plan) \<and>
        \<not> ms_computed (move_state_cache plan) \<and> \<not> flags_computed (drop_flags_cache plan))"

text \<open>One successful operation of the builder.\<close>

inductive builds :: "plan_builder \<Rightarrow> plan_builder \<Rightarrow> bool" where
  "new_scope parent kind b = Inr (i, b') \<Longrightarrow> builds b b'"
| "new_local scope kind own mutable b = Inr (i, b') \<Longrightarrow> builds b b'"
| "new_source_local scope kind own mutable source name b = Inr (i, b') \<Longrightarrow> builds b b'"
| "new_move_path place parent b = Inr (i, b') \<Longrightarrow> builds b b'"
| "new_move_path_with_drop place parent droppable b = Inr (i, b') \<Longrightarrow> builds b b'"
| "new_block scope b = Inr (i, b') \<Longrightarrow> builds b b'"
| "push_operation block op b = Inr b' \<Longrightarrow> builds b b'"
| "set_terminator block tm b = Inr b' \<Longrightarrow> builds b b'"

lemma builder_new_ok: "builder_ok builder_new"
  by (simp add: builder_ok_def builder_new_def scopes_ok_def locals_ok_def move_paths_ok_def blocks_ok_def
      locals_in_def move_state_analysis_uncomputed_def drop_flag_analysis_uncomputed_def)

lemma locals_in_append: "k \<le> length ls \<Longrightarrow> locals_in (ls @ [l]) sc k = locals_in ls sc k"
  by (auto simp: locals_in_def nth_append intro: filter_cong)

lemma locals_in_Suc:
  "locals_in (ls @ [l]) sc (Suc (length ls)) =
   locals_in ls sc (length ls) @ (if local_scope l = sc then [length ls] else [])"
  using locals_in_append [of "length ls" ls l sc] by (simp add: locals_in_def)

lemma all_snoc:
  "(\<forall>i < length (xs @ [x]). P i ((xs @ [x]) ! i)) \<longleftrightarrow> (\<forall>i < length xs. P i (xs ! i)) \<and> P (length xs) x"
  by (auto simp: nth_append less_Suc_eq)

lemma new_scope_ok:
  assumes "new_scope parent kind b = Inr (i, b')" "builder_ok b"
  shows "builder_ok b'"
proof -
  let ?plan = "built b"
  let ?d = "\<lparr>scope_id = length (scopes ?plan), scope_parent = Some parent, scope_kind = kind, scope_locals = []\<rparr>"
  have p: "parent < length (scopes ?plan)" "kind \<noteq> RootScope"
    and b': "b' = b\<lparr>built := ?plan\<lparr>scopes := scopes ?plan @ [?d]\<rparr>\<rparr>"
    using assms(1) by (auto simp: new_scope_def Let_def opt_simps split: if_splits)
  have "scopes_ok (scopes ?plan @ [?d])"
    using assms(2) p by (auto simp: builder_ok_def scopes_ok_def Let_def nth_append less_Suc_eq)
  moreover have "locals_ok (scopes ?plan @ [?d]) (plan_locals ?plan)"
  proof -
    have lok: "locals_ok (scopes ?plan) (plan_locals ?plan)" using assms(2) by (simp add: builder_ok_def Let_def)
    then have "locals_in (plan_locals ?plan) (length (scopes ?plan)) (length (plan_locals ?plan)) = []"
      by (auto simp: locals_ok_def locals_in_def filter_empty_conv)
    then show ?thesis using lok by (auto simp: locals_ok_def nth_append less_Suc_eq)
  qed
  moreover have "blocks_ok (scopes ?plan @ [?d]) (blocks ?plan)"
    using assms(2) by (auto simp: builder_ok_def blocks_ok_def Let_def)
  ultimately show ?thesis using assms(2) b' by (simp add: builder_ok_def Let_def)
qed

lemma scopes_ok_update:
  assumes "scopes_ok ss" "k < length ss"
  shows "scopes_ok (ss[k := (ss ! k)\<lparr>scope_locals := ls\<rparr>])"
proof -
  let ?ss = "ss[k := (ss ! k)\<lparr>scope_locals := ls\<rparr>]"
  have "scope_id (?ss ! i) = scope_id (ss ! i) \<and> scope_kind (?ss ! i) = scope_kind (ss ! i) \<and>
      scope_parent (?ss ! i) = scope_parent (ss ! i)" for i
    using assms(2) by (cases "i = k") simp_all
  moreover have "?ss \<noteq> []" using assms(1) by (simp add: scopes_ok_def)
  ultimately show ?thesis using assms(1) by (simp add: scopes_ok_def)
qed

lemma new_local_ok:
  assumes "new_local_with_source scope kind own mutable source name b = Inr (i, b')" "builder_ok b"
  shows "builder_ok b'"
proof -
  let ?plan = "built b" and ?n = "length (plan_locals (built b))"
  let ?data = "scopes ?plan ! scope"
  let ?decl = "\<lparr>local_id = ?n, source_local = source, debug_name = name, local_scope = scope,
    local_kind = kind, ownership = own, is_mutable = mutable, declaration_order = length (scope_locals ?data)\<rparr>"
  let ?ss = "(scopes ?plan)[scope := ?data\<lparr>scope_locals := scope_locals ?data @ [?n]\<rparr>]"
  have s: "scope < length (scopes ?plan)"
    and b': "b' = b\<lparr>built := ?plan\<lparr>scopes := ?ss, plan_locals := plan_locals ?plan @ [?decl]\<rparr>\<rparr>"
    using assms(1) by (auto simp: new_local_with_source_def Let_def opt_simps split: option.splits)
  have sok: "scopes_ok (scopes ?plan)" and lok: "locals_ok (scopes ?plan) (plan_locals ?plan)"
    using assms(2) by (simp_all add: builder_ok_def Let_def)
  have "scopes_ok ?ss" by (rule scopes_ok_update [OF sok s])
  moreover have "locals_ok ?ss (plan_locals ?plan @ [?decl])"
    using lok s unfolding locals_ok_def
    by (auto simp: nth_append less_Suc_eq locals_in_append locals_in_Suc nth_list_update)
  moreover have "move_paths_ok (plan_locals ?plan @ [?decl]) (move_paths ?plan)"
    using assms(2) by (auto simp: builder_ok_def move_paths_ok_def Let_def less_Suc_eq)
  moreover have "blocks_ok ?ss (blocks ?plan)" using assms(2) by (simp add: builder_ok_def blocks_ok_def Let_def)
  ultimately show ?thesis using assms(2) b' by (simp add: builder_ok_def Let_def)
qed

lemma new_move_path_ok:
  assumes "new_move_path_with_drop place parent droppable b = Inr (i, b')" "builder_ok b"
  shows "builder_ok b'"
proof -
  let ?plan = "built b"
  let ?p = "\<lparr>path_id = length (move_paths ?plan), path_place = place, path_parent = parent, needs_drop = droppable\<rparr>"
  have l: "place_local place < length (plan_locals ?plan)" "\<forall>p. parent = Some p \<longrightarrow> p < length (move_paths ?plan)"
    and b': "b' = b\<lparr>built := ?plan\<lparr>move_paths := move_paths ?plan @ [?p]\<rparr>\<rparr>"
    using assms(1)
    by (auto simp: new_move_path_with_drop_def Let_def opt_simps split: if_splits option.splits bind_splits)
  have "move_paths_ok (plan_locals ?plan) (move_paths ?plan @ [?p])"
    using assms(2) l by (auto simp: builder_ok_def move_paths_ok_def Let_def nth_append less_Suc_eq)
  then show ?thesis using assms(2) b' by (simp add: builder_ok_def Let_def)
qed

lemma new_block_ok:
  assumes "new_block scope b = Inr (i, b')" "builder_ok b"
  shows "builder_ok b'"
proof -
  let ?plan = "built b"
  let ?d = "\<lparr>block_id = length (blocks ?plan), block_scope = scope, operations = [], block_terminator = None\<rparr>"
  have s: "scope < length (scopes ?plan)" and b': "b' = b\<lparr>built := ?plan\<lparr>blocks := blocks ?plan @ [?d]\<rparr>\<rparr>"
    using assms(1) by (auto simp: new_block_def Let_def opt_simps split: if_splits)
  have "blocks_ok (scopes ?plan) (blocks ?plan @ [?d])"
    using assms(2) s by (auto simp: builder_ok_def blocks_ok_def Let_def nth_append less_Suc_eq)
  then show ?thesis using assms(2) b' by (simp add: builder_ok_def Let_def)
qed

lemma update_block_ok:
  assumes "builder_ok b" "block < length (blocks (built b))"
    and "block_id d = block" "block_scope d = block_scope (blocks (built b) ! block)"
  shows "builder_ok (b\<lparr>built := (built b)\<lparr>blocks := (blocks (built b))[block := d]\<rparr>\<rparr>)"
proof -
  have "blocks_ok (scopes (built b)) ((blocks (built b))[block := d])"
    using assms by (auto simp: builder_ok_def blocks_ok_def Let_def nth_list_update)
  then show ?thesis using assms(1) by (simp add: builder_ok_def Let_def)
qed

lemma block_id_at: "builder_ok b \<Longrightarrow> i < length (blocks (built b)) \<Longrightarrow> block_id (blocks (built b) ! i) = i"
  by (simp add: builder_ok_def blocks_ok_def Let_def)

lemma push_operation_ok:
  assumes "push_operation block op b = Inr b'" "builder_ok b"
  shows "builder_ok b'"
  using assms update_block_ok [OF assms(2), of block] block_id_at [OF assms(2), of block]
  by (auto simp: push_operation_def Let_def opt_simps split: option.splits)

lemma set_terminator_ok:
  assumes "set_terminator block tm b = Inr b'" "builder_ok b"
  shows "builder_ok b'"
  using assms update_block_ok [OF assms(2), of block] block_id_at [OF assms(2), of block]
  by (auto simp: set_terminator_def Let_def opt_simps split: option.splits if_splits)

lemma builds_ok: "builds b b' \<Longrightarrow> builder_ok b \<Longrightarrow> builder_ok b'"
  unfolding new_local_def new_source_local_def new_move_path_def builds.simps
  by (elim disjE exE conjE; simp only:)
    (blast intro: new_scope_ok new_local_ok new_move_path_ok new_block_ok push_operation_ok set_terminator_ok)+

subsection \<open>What the invariant gives\<close>

text \<open>Parents come first, so the walk over parents meets no scope twice.\<close>

lemma scope_cycle_none:
  assumes ok: "scopes_ok (scopes plan)"
  shows "i < length (scopes plan) \<Longrightarrow> \<forall>v \<in> set seen. i < v \<Longrightarrow> scope_cycle plan seen (Some i) = None"
proof (induction i arbitrary: seen rule: less_induct)
  case (less i)
  have at: "nth_opt (scopes plan) i = Some (scopes plan ! i)" "i \<notin> set seen" using less.prems by auto
  show ?case
  proof (cases "scope_parent (scopes plan ! i)")
    case None
    then show ?thesis using at by (simp add: scope_cycle.simps)
  next
    case (Some p)
    then have p: "p < i" using ok less.prems(1) by (auto simp: scopes_ok_def split: option.splits)
    then have "scope_cycle plan (i # seen) (Some p) = None" using less.prems less.IH [OF p, of "i # seen"] by fastforce
    then show ?thesis using at Some by (simp add: scope_cycle.simps [of plan seen])
  qed
qed

lemma builder_scopes_verify:
  assumes "builder_ok b"
  shows "verify_scopes (built b) = []"
proof -
  let ?plan = "built b"
  have ok: "scopes_ok (scopes ?plan)" and root: "root_scope ?plan = 0" using assms by (simp_all add: builder_ok_def Let_def)
  have "scope_parent_errors ?plan sc @ scope_cycle_errors ?plan sc = []" if "sc \<in> set (scopes ?plan)" for sc
  proof -
    obtain i where i: "i < length (scopes ?plan)" "sc = scopes ?plan ! i" using \<open>sc \<in> _\<close> by (metis in_set_conv_nth)
    have at: "scope_id sc = i" "scope_kind sc = RootScope \<longleftrightarrow> i = 0"
      "case scope_parent sc of None \<Rightarrow> i = 0 | Some p \<Rightarrow> p < i" using ok i by (auto simp: scopes_ok_def)
    have "scope_parent_errors ?plan sc = []"
      using at i(1) root by (auto simp: scope_parent_errors_def opt_simps split: option.splits)
    moreover have "scope_cycle_errors ?plan sc = []"
      using scope_cycle_none [OF ok i(1), of "[]"] at(1) by (simp add: scope_cycle_errors_def)
    ultimately show ?thesis by simp
  qed
  moreover have "concat (map (\<lambda>(i, sc). err (scope_id sc \<noteq> i) (ScopeIdMismatch i (scope_id sc)))
       (enumerate 0 (scopes ?plan))) = []"
    using ok by (auto simp: scopes_ok_def concat_map_Nil in_set_enumerate_eq)
  moreover have "0 < length (scopes ?plan)" "scope_id (scopes ?plan ! 0) = 0" "scope_kind (scopes ?plan ! 0) = RootScope"
    "scope_parent (scopes ?plan ! 0) = None"
    using ok by (auto simp: scopes_ok_def split: option.splits)
  ultimately show ?thesis using root by (simp add: verify_scopes_def concat_map_Nil)
qed

lemma builder_ids: "builder_ok b \<Longrightarrow> \<forall>path \<in> set (move_paths (built b)). path_id path < length (move_paths (built b))"
  by (auto simp: builder_ok_def move_paths_ok_def Let_def in_set_conv_nth)

lemma finish_total:
  assumes "builder_ok b"
  shows "\<exists>r. finish b = Some r"
  using analyze_and_verify_result [OF builder_ids [OF assms]] by (auto simp: finish_def)

subsection \<open>The caches play no part in an execution\<close>

abbreviation cached :: "cleanup_plan \<Rightarrow> move_state_analysis \<Rightarrow> drop_flag_analysis \<Rightarrow> cleanup_plan" where
  "cached plan a f \<equiv> plan\<lparr>move_state_cache := a, drop_flags_cache := f\<rparr>"

lemma cached_basics [simp]:
  "n_paths (cached plan a f) = n_paths plan" "n_blocks (cached plan a f) = n_blocks plan"
  "children_of (cached plan a f) p = children_of plan p"
  "variants_of (cached plan a f) cs = variants_of plan cs"
  "under (cached plan a f) p q = under plan p q"
  "root_of_local (cached plan a f) l = root_of_local plan l"
  by (simp_all add: n_paths_def n_blocks_def children_of_def variants_of_def under_def root_of_local_def)

lemma cached_sets [simp]:
  "rule_for (cached plan a f) cs = rule_for plan cs"
  "below (cached plan a f) p = below plan p" "local_paths (cached plan a f) l = local_paths plan l"
  by (simp_all add: rule_for_def below_def local_paths_def)

lemma cached_up [simp]: "up (cached plan a f) q = up plan q"
  by (simp add: up_def split: option.split)

lemma whole_cached1: "whole plan g p \<Longrightarrow> whole (cached plan a f) g p"
  by (induction rule: whole.induct) (auto intro: whole.intros)

lemma whole_cached2: "whole (cached plan a f) g p \<Longrightarrow> whole plan g p"
  by (induction rule: whole.induct) (auto intro: whole.intros)

lemma cached_whole [simp]: "whole (cached plan a f) g p = whole plan g p"
  using whole_cached1 whole_cached2 by blast

lemma cached_store [simp]:
  "blank (cached plan a f) g p = blank plan g p"
  "blank_out (cached plan a f) A g = blank_out plan A g" "active (cached plan a f) g p = active plan g p"
  "has_storage (cached plan a f) g p = has_storage plan g p"
  by (simp_all add: blank_def blank_out_def active_def has_storage_def)

lemma cached_more [simp]:
  "store_ok (cached plan a f) g = store_ok plan g" "fills (cached plan a f) p g g' = fills plan p g g'"
  "holds_value (cached plan a f) g l = holds_value plan g l"
  by (simp_all add: store_ok_def fills_def holds_value_def)

lemma cached_exec: "exec_op (cached plan a f) op g g' \<longleftrightarrow> exec_op plan op g g'"
  by (cases op) (simp_all add: exec_op.simps)

lemma cached_step: "plan_step (cached plan a f) c c' \<longleftrightarrow> plan_step plan c c'"
proof -
  have "leave (cached plan a f) e g = leave plan e g" for e g
    by (simp add: leave_def end_local_def [abs_def])
  then show ?thesis by (simp add: plan_step.simps cached_exec)
qed

lemma cached_reaches: "reaches (cached plan a f) c \<Longrightarrow> reaches plan c"
proof (induction rule: reaches.induct)
  case start
  show ?case using reaches.start [of plan] by simp
next
  case (step c c')
  then show ?case using cached_step reaches.step by blast
qed

lemma cached_safe: "config_safe (cached plan a f) c \<longleftrightarrow> config_safe plan c"
proof -
  have "op_safe (cached plan a f) g op = op_safe plan g op" for g op by (cases op) simp_all
  moreover have "terminator_safe (cached plan a f) g tm = terminator_safe plan g tm" for g tm
    by (cases tm) (simp_all add: terminator_safe_def)
  ultimately show ?thesis by (simp add: config_safe_def)
qed

lemma finish_safe:
  assumes "finish b = Some (Inr plan)" "reaches plan c"
  shows "config_safe plan c"
proof -
  obtain a f where a: "analyze_and_verify (built b) = Some (Inr (a, f))" "plan = cached (built b) a f"
    using assms(1) by (cases "analyze_and_verify (built b)") (auto simp: finish_def split: sum.splits)
  have "reaches (built b) c" using assms(2) a(2) cached_reaches by blast
  then have "config_safe (built b) c" by (rule reaches_safe [OF analyze_and_verify_verified [OF a(1)]])
  then show ?thesis using a(2) cached_safe by blast
qed

end
