(* ===== verification/Cleanup_Drops.thy ===== *)
theory Cleanup_Drops
  imports Cleanup_Builder
begin

text \<open>
  The run-time meaning of \<open>DropFlagAnalysis\<close> of \<open>compiler/src/cleanup.rs\<close>, as the comment on
  \<open>DropObligation\<close> states it: a set flag says that its path is complete and is dropped whole, a
  clear one that only the listed children may be dropped.  All flags are clear at the entry.
\<close>

text \<open>The flags that are set after the actions recorded for operation \<open>i\<close> of block \<open>b\<close>.\<close>

definition flags_after ::
    "drop_flag_analysis \<Rightarrow> basic_block_id \<Rightarrow> nat \<Rightarrow> drop_flag_id set \<Rightarrow> drop_flag_id set" where
  "flags_after f b i F =
     fold (\<lambda>act F. if action_block act = b \<and> action_operation_index act = i
         then (case action_value act of FlagSet \<Rightarrow> insert (action_flag act) F | FlagClear \<Rightarrow> F - {action_flag act})
         else F) (da_actions f) F"

text \<open>The paths dropped by an obligation.\<close>

fun dropped :: "drop_flag_id set \<Rightarrow> drop_obligation \<Rightarrow> move_path_id list" where
  "dropped F (DropObligation p Static ks) = [p]"
| "dropped F (DropObligation p (Flag f) ks) = (if f \<in> F then [p] else concat (map (dropped F) ks))"

definition dropped_at :: "drop_flag_analysis \<Rightarrow> drop_flag_id set \<Rightarrow> basic_block_id \<Rightarrow> nat \<Rightarrow> move_path_id list" where
  "dropped_at f F b i =
     concat (map (dropped F) (concat (map site_obligations
       (filter (\<lambda>s. site_block s = b \<and> site_operation_index s = i) (da_sites f)))))"

text \<open>An execution with its flags: running an operation performs its actions, an edge none.\<close>

inductive flag_run :: "cleanup_plan \<Rightarrow> drop_flag_analysis \<Rightarrow> config \<Rightarrow> drop_flag_id set \<Rightarrow> bool" for plan f where
  start: "flag_run plan f \<lparr>at_block = plan_entry plan, at_op = 0, memory = empty_store\<rparr> {}"
| run: "flag_run plan f c F \<Longrightarrow> plan_step plan c c' \<Longrightarrow> at_op c < length (operations (blocks plan ! at_block c)) \<Longrightarrow>
    flag_run plan f c' (flags_after f (at_block c) (at_op c) F)"
| jump: "flag_run plan f c F \<Longrightarrow> plan_step plan c c' \<Longrightarrow> at_op c = length (operations (blocks plan ! at_block c)) \<Longrightarrow>
    flag_run plan f c' F"

lemma flag_run_reaches: "flag_run plan f c F \<Longrightarrow> reaches plan c"
  by (induction rule: flag_run.induct) (auto intro: reaches.intros)

text \<open>Rewriting a run by its next operation or edge.\<close>

lemma flag_run_op:
  assumes "flag_run plan f \<lparr>at_block = b, at_op = i, memory = g\<rparr> F"
    and "b < n_blocks plan" "i < length (operations (blocks plan ! b))"
    and "exec_op plan (operations (blocks plan ! b) ! i) g g'"
  shows "flag_run plan f \<lparr>at_block = b, at_op = Suc i, memory = g'\<rparr> (flags_after f b i F)"
  using flag_run.run [OF assms(1) plan_step.run [OF assms(2-4)]] assms(3) by simp

lemma flag_run_edge:
  assumes "flag_run plan f \<lparr>at_block = b, at_op = i, memory = g\<rparr> F"
    and "b < n_blocks plan" "i = length (operations (blocks plan ! b))" "e \<in> set (block_edges (blocks plan ! b))"
  shows "flag_run plan f \<lparr>at_block = edge_target e, at_op = 0, memory = leave plan e g\<rparr> F"
  using flag_run.jump [OF assms(1) plan_step.jump [OF assms(2-4)]] assms(3) by simp

lemma below_code: "below plan p = set (filter (under plan p) [0..<n_paths plan])"
  by (auto simp: below_def)

lemma local_paths_code:
  "local_paths plan l = set (filter (\<lambda>p. place_local (path_place (move_paths plan ! p)) = l) [0..<n_paths plan])"
  by (auto simp: local_paths_def)

end
