(* ===== verification/Cleanup_Scopes.thy ===== *)
theory Cleanup_Scopes
  imports Cleanup_Verify
begin

text \<open>
  The two walks up the scope tree of \<open>compiler/src/cleanup.rs\<close>, \<open>is_ancestor\<close> and
  \<open>return_exit_chain\<close>, against the parent relation they walk.  Both stop on a cycle, which a plan
  that is still being checked may contain.
\<close>

definition parent_of :: "cleanup_plan \<Rightarrow> scope_id \<Rightarrow> scope_id option" where
  "parent_of plan sc = Option.bind (nth_opt (scopes plan) sc) scope_parent"

definition parent_rel :: "cleanup_plan \<Rightarrow> (scope_id \<times> scope_id) set" where
  "parent_rel plan = {(c, p). parent_of plan c = Some p}"

text \<open>The scopes left on the way from a scope to the root, innermost first.\<close>

inductive leaves_scopes :: "cleanup_plan \<Rightarrow> scope_id \<Rightarrow> scope_id list \<Rightarrow> bool" for plan where
  at_root: "leaves_scopes plan (root_scope plan) []"
| up: "sc \<noteq> root_scope plan \<Longrightarrow> parent_of plan sc = Some p \<Longrightarrow> leaves_scopes plan p xs \<Longrightarrow>
    leaves_scopes plan sc (sc # xs)"

inductive_simps leaves_scopes_iff: "leaves_scopes plan sc xs"

text \<open>Every parent of a visited scope has been visited, or is where the walk stands.\<close>

definition trail :: "cleanup_plan \<Rightarrow> scope_id list \<Rightarrow> scope_id option \<Rightarrow> bool" where
  "trail plan visited cursor \<longleftrightarrow>
     (\<forall>v \<in> set visited. parent_of plan v = cursor \<or> (\<exists>w \<in> set visited. parent_of plan v = Some w))"

lemma trail_step: "trail plan visited (Some sc) \<Longrightarrow> trail plan (sc # visited) (parent_of plan sc)"
  by (auto simp: trail_def)

text \<open>A walk that comes back to a visited scope never leaves the visited ones.\<close>

lemma trail_closed:
  assumes "(v, w) \<in> (parent_rel plan)\<^sup>*" "trail plan visited (Some sc)" "sc \<in> set visited" "v \<in> set visited"
  shows "w \<in> set visited"
  using assms by (induction rule: rtrancl_induct) (auto simp: trail_def parent_rel_def)

lemma leaves_scopes_reach: "leaves_scopes plan sc xs \<Longrightarrow> (sc, root_scope plan) \<in> (parent_rel plan)\<^sup>*"
  by (induction rule: leaves_scopes.induct) (auto simp: parent_rel_def intro: converse_rtrancl_into_rtrancl)

lemma ancestor_walk_iff:
  assumes "trail plan visited cursor" "ancestor \<notin> set visited"
  shows "ancestor_walk plan ancestor visited cursor \<longleftrightarrow>
    (\<exists>sc. cursor = Some sc \<and> (sc, ancestor) \<in> (parent_rel plan)\<^sup>*)"
  using assms
proof (induction plan ancestor visited cursor rule: ancestor_walk.induct)
  case (1 plan ancestor visited cursor)
  show ?case
  proof (cases cursor)
    case None
    then show ?thesis by (simp add: ancestor_walk.simps)
  next
    case (Some sc)
    consider "sc = ancestor" | "sc \<noteq> ancestor" "sc \<in> set visited" | "sc \<noteq> ancestor" "sc \<notin> set visited" by blast
    then show ?thesis
    proof cases
      case 1
      then show ?thesis using Some by (simp add: ancestor_walk.simps)
    next
      case 2
      then have "(sc, ancestor) \<notin> (parent_rel plan)\<^sup>*" using trail_closed "1.prems" Some by blast
      then show ?thesis using Some 2 by (simp add: ancestor_walk.simps)
    next
      case 3
      have "ancestor_walk plan ancestor (sc # visited) (parent_of plan sc) \<longleftrightarrow>
          (\<exists>p. parent_of plan sc = Some p \<and> (p, ancestor) \<in> (parent_rel plan)\<^sup>*)"
        using "1.IH" [OF Some 3] trail_step "1.prems" Some 3 by (auto simp: parent_of_def)
      moreover have "(sc, ancestor) \<in> (parent_rel plan)\<^sup>* \<longleftrightarrow>
          (\<exists>p. parent_of plan sc = Some p \<and> (p, ancestor) \<in> (parent_rel plan)\<^sup>*)"
        using 3(1) by (auto simp: parent_rel_def elim: converse_rtranclE intro: converse_rtrancl_into_rtrancl)
      ultimately show ?thesis
        using Some 3 by (simp add: ancestor_walk.simps [of plan ancestor visited] parent_of_def)
    qed
  qed
qed

lemma is_ancestor_reach: "is_ancestor plan a d \<longleftrightarrow> (d, a) \<in> (parent_rel plan)\<^sup>*"
  by (simp add: is_ancestor_def ancestor_walk_iff trail_def)

lemma exit_chain_iff:
  assumes "trail plan visited (Some sc)" "root_scope plan \<notin> set visited"
  shows "exit_chain plan visited sc = Some xs \<longleftrightarrow> leaves_scopes plan sc xs"
  using assms
proof (induction plan visited sc arbitrary: xs rule: exit_chain.induct)
  case (1 plan visited sc)
  consider "sc = root_scope plan" | "sc \<noteq> root_scope plan" "sc \<in> set visited"
    | "sc \<noteq> root_scope plan" "sc \<notin> set visited" by blast
  then show ?case
  proof cases
    case 1
    then show ?thesis using leaves_scopes_iff [of plan sc xs] by (auto simp: exit_chain.simps)
  next
    case 2
    then have "\<not> leaves_scopes plan sc xs" using leaves_scopes_reach trail_closed "1.prems" by blast
    then show ?thesis using 2 by (simp add: exit_chain.simps)
  next
    case 3
    show ?thesis
    proof (cases "parent_of plan sc")
      case None
      then show ?thesis using 3 leaves_scopes_iff [of plan sc xs] by (auto simp: exit_chain.simps parent_of_def)
    next
      case (Some p)
      then have "exit_chain plan (sc # visited) p = Some ys \<longleftrightarrow> leaves_scopes plan p ys" for ys
        using "1.IH" [of p ys] trail_step [OF "1.prems"(1)] "1.prems"(2) 3 by (auto simp: parent_of_def)
      then show ?thesis using 3 Some leaves_scopes_iff [of plan sc xs]
        by (auto simp: exit_chain.simps [of plan visited] parent_of_def)
    qed
  qed
qed

lemma return_exit_chain_iff: "return_exit_chain plan sc = Some xs \<longleftrightarrow> leaves_scopes plan sc xs"
  by (simp add: return_exit_chain_def exit_chain_iff trail_def)

end
