(* ===== verification/Cleanup_Example.thy ===== *)
theory Cleanup_Example
  imports Cleanup_Drops Cleanup_Scopes
begin

text \<open>
  A small cleanup plan on which the general theorems are instantiated: a function body that
  fills a droppable enum local, branches on a flag, in one branch matches on the enum and moves a
  field out, and ends the storage of both locals after the merge.  The verification of
  \<open>compiler/src/cleanup.rs\<close> accepts it.
\<close>

definition ex_path :: "nat \<Rightarrow> local_id \<Rightarrow> projection list \<Rightarrow> nat option \<Rightarrow> move_path" where
  "ex_path i l js p = \<lparr>path_id = i, path_place = \<lparr>place_local = l, projections = js\<rparr>, path_parent = p, needs_drop = (l = 1)\<rparr>"

definition ex_local :: "nat \<Rightarrow> local_decl" where
  "ex_local i = \<lparr>local_id = i, source_local = None, debug_name = None, local_scope = 0, local_kind = Temporary,
     ownership = Owned, is_mutable = False, declaration_order = i\<rparr>"

definition ex_edge :: "nat \<Rightarrow> cleanup_edge" where
  "ex_edge b = \<lparr>edge_target = b, exited_scopes = []\<rparr>"

definition ex_block :: "nat \<Rightarrow> cleanup_op list \<Rightarrow> terminator \<Rightarrow> basic_block" where
  "ex_block i ops tm = \<lparr>block_id = i, block_scope = 0, operations = ops, block_terminator = Some tm\<rparr>"

text \<open>
  Local 0 is the flag; local 1 the enum with paths 1 (root), 2 (variant 1) with fields 3 and 4,
  and 5 (variant 2).
\<close>

definition ex_plan :: cleanup_plan where
  "ex_plan = \<lparr>root_scope = 0, plan_entry = 0,
     scopes = [\<lparr>scope_id = 0, scope_parent = None, scope_kind = RootScope, scope_locals = [0, 1]\<rparr>],
     plan_locals = [ex_local 0, ex_local 1],
     move_paths = [ex_path 0 0 [] None, ex_path 1 1 [] None, ex_path 2 1 [Downcast 1] (Some 1),
       ex_path 3 1 [Downcast 1, Field 0] (Some 2), ex_path 4 1 [Downcast 1, Field 1] (Some 2),
       ex_path 5 1 [Downcast 2] (Some 1)],
     blocks = [
       ex_block 0 [StorageLive 0, Init 0, StorageLive 1, Init 1] (Branch 0 (ex_edge 1) (ex_edge 2)),
       ex_block 1 [AssumeDiscriminant 1 1, MoveOut 3] (Goto (ex_edge 3)),
       ex_block 2 [MoveOut 1] (Goto (ex_edge 3)),
       ex_block 3 [StorageDead 1, StorageDead 0] (Return [])],
     move_state_cache = move_state_analysis_uncomputed,
     drop_flags_cache = drop_flag_analysis_uncomputed\<rparr>"

lemma ex_paths_wf: "paths_wf ex_plan"
  by (simp add: paths_wf_def ex_plan_def ex_path_def inj_on_def All_less_Suc numeral_eq_Suc lessThan_Suc)

text \<open>The verification, evaluated: the plan is accepted and one path gets a drop flag.\<close>

definition ex_actions :: "drop_flag_action list" where
  "ex_actions = map (\<lambda>(b, i). \<lparr>action_block = b, action_operation_index = i, action_flag = 0, action_value = FlagClear\<rparr>)
     [(0, 2), (2, 0), (3, 0)]"

definition ex_sites :: "drop_site list" where
  "ex_sites = [\<lparr>site_block = 3, site_operation_index = 0, site_local = 1,
     site_obligations = [DropObligation 4 (Flag 0) []]\<rparr>]"

lemma ex_evaluated:
  "(case analyze_and_verify ex_plan of
      Some (Inr (a, f)) \<Rightarrow> da_actions f = ex_actions \<and> da_sites f = ex_sites
    | _ \<Rightarrow> False)"
  by code_simp

lemma ex_analysis:
  obtains a f where "analyze_and_verify ex_plan = Some (Inr (a, f))" "da_actions f = ex_actions" "da_sites f = ex_sites"
  using ex_evaluated by (auto split: option.splits sum.splits)

lemma ex_verifies: "verify ex_plan = Some (Inr ())"
proof -
  obtain a f where "analyze_and_verify ex_plan = Some (Inr (a, f))" using ex_analysis .
  then show ?thesis
    by (simp add: verify_def ex_plan_def move_state_analysis_uncomputed_def drop_flag_analysis_uncomputed_def)
qed

lemma ex_verified: obtains a where "verified ex_plan (topology a) a"
  using verify_Ok_verified [OF ex_verifies] by blast

subsection \<open>The shape of the plan\<close>

lemma ex_n [simp]: "n_paths ex_plan = 6" "n_blocks ex_plan = 4" "length (plan_locals ex_plan) = 2" "plan_entry ex_plan = 0"
  by code_simp+

lemma ex_children:
  "children_of ex_plan 0 = []" "children_of ex_plan 1 = [2, 5]" "children_of ex_plan 2 = [3, 4]"
  "children_of ex_plan 3 = []" "children_of ex_plan 4 = []" "children_of ex_plan 5 = []"
  by code_simp+

lemma ex_rules:
  "rule_for ex_plan [] = Explicit" "rule_for ex_plan [2, 5] = EnumRoot [(1, 2), (2, 5)]"
  "rule_for ex_plan [3, 4] = AllChildren"
  by code_simp+

lemma ex_below:
  "below ex_plan 0 = {0}" "below ex_plan 1 = {1, 2, 3, 4, 5}" "below ex_plan 2 = {2, 3, 4}"
  "below ex_plan 3 = {3}" "below ex_plan 5 = {5}"
  unfolding below_code by code_simp+

lemma ex_local_paths: "local_paths ex_plan 0 = {0}" "local_paths ex_plan 1 = {1, 2, 3, 4, 5}"
  unfolding local_paths_code by code_simp+

lemma ex_operations:
  "operations (blocks ex_plan ! 0) = [StorageLive 0, Init 0, StorageLive 1, Init 1]"
  "operations (blocks ex_plan ! 1) = [AssumeDiscriminant 1 1, MoveOut 3]"
  "operations (blocks ex_plan ! 3) = [StorageDead 1, StorageDead 0]"
  "block_edges (blocks ex_plan ! 0) = [ex_edge 1, ex_edge 2]" "block_edges (blocks ex_plan ! 1) = [ex_edge 3]"
  by code_simp+

lemmas ex_shape = ex_children ex_rules ex_below ex_local_paths ex_operations

end
