(* ===== verification/Cleanup_Example_Run.thy ===== *)
theory Cleanup_Example_Run
  imports Cleanup_Example
begin

text \<open>
  One execution of the example plan: the enum local is filled with variant 1, the branch that
  matches on it moves the first field out, and the second field is still there when the storage of
  the local ends.
\<close>

declare One_nat_def [simp del] if_cong [cong]

definition ex_sel :: "move_path_id \<Rightarrow> u32 option" where
  "ex_sel = (\<lambda>q. if q = 1 then Some 1 else None)"

abbreviation ex_store :: "local_id set \<Rightarrow> move_path_id set \<Rightarrow> (move_path_id \<Rightarrow> u32 option) \<Rightarrow> store" where
  "ex_store L A S \<equiv> \<lparr>live = L, leaf = A, sel = S\<rparr>"

lemma below_6: "d < 6 \<longleftrightarrow> d = 0 \<or> d = 1 \<or> d = 2 \<or> d = 3 \<or> d = 4 \<or> d = (5 :: nat)"
  by auto

lemma ex_rule_outside: "6 \<le> d \<Longrightarrow> children_of ex_plan d = []"
proof -
  assume d: "6 \<le> d"
  have "list_all (\<lambda>c. case path_parent (move_paths ex_plan ! c) of None \<Rightarrow> True | Some p \<Rightarrow> p < 6) [0..<length (move_paths ex_plan)]"
    by code_simp
  then show ?thesis using d by (fastforce simp: children_of_def list_all_iff filter_empty_conv)
qed

lemma ex_whole_leaf: "p \<in> {0, 3, 4} \<Longrightarrow> p \<in> leaf g \<Longrightarrow> whole ex_plan g p"
  by (auto intro!: whole.leaf simp: ex_shape)

lemma ex_whole_enum:
  assumes "sel g 1 = Some 1" "3 \<in> leaf g" "4 \<in> leaf g"
  shows "whole ex_plan g 1"
proof -
  have "whole ex_plan g 2" using assms ex_whole_leaf by (intro whole.parts) (auto simp: ex_shape)
  then show ?thesis using assms(1) whole.variant [of ex_plan 1 "[(1, 2), (2, 5)]" g 1 2] by (simp add: ex_shape)
qed

lemma ex_store_ok:
  assumes "A \<subseteq> {0, 3, 4}" "S = ex_sel \<or> (S = (\<lambda>_. None) \<and> A \<subseteq> {0})"
  shows "store_ok ex_plan (ex_store L A S)"
proof -
  have e: "e < 6 \<Longrightarrow> rule_at ex_plan e = EnumRoot vs \<Longrightarrow> e = 1 \<and> vs = [(1, 2), (2, 5)]" for e vs
    by (auto simp: below_6 ex_shape)
  have "rule_at ex_plan d = Explicit" if "d \<in> A" for d
  proof -
    have "d = 0 \<or> d = 3 \<or> d = 4" using assms(1) that by blast
    then show ?thesis by (auto simp: ex_shape)
  qed
  moreover have "is_enum_rule (rule_at ex_plan 1)" by (simp add: ex_shape)
  moreover have "blank ex_plan (ex_store L A S) 5" using assms by (auto simp: blank_def ex_shape ex_sel_def)
  moreover have "S 1 \<noteq> Some 1 \<Longrightarrow> blank ex_plan (ex_store L A S) 2"
    using assms(2) by (auto simp: blank_def ex_shape ex_sel_def)
  ultimately show ?thesis using assms(2) unfolding store_ok_def by (auto simp: ex_sel_def dest!: e split: if_splits)
qed

lemmas ex_run_simps = blank_out_def empty_store_def ex_shape

lemma ex_live0: "exec_op ex_plan (StorageLive 0) empty_store (ex_store {0} {} (\<lambda>_. None))"
  using storage_live [of ex_plan 0 empty_store] by (simp add: ex_run_simps)

lemma ex_init0: "exec_op ex_plan (Init 0) (ex_store {0} {} (\<lambda>_. None)) (ex_store {0} {0} (\<lambda>_. None))"
  by (rule exec_op.init) (auto simp: fills_def ex_shape intro: ex_store_ok ex_whole_leaf)

lemma ex_live1: "exec_op ex_plan (StorageLive 1) (ex_store {0} {0} (\<lambda>_. None)) (ex_store {1, 0} {0} (\<lambda>_. None))"
  using storage_live [of ex_plan 1 "ex_store {0} {0} (\<lambda>_. None)"] by (simp add: ex_run_simps)

lemma ex_init1: "exec_op ex_plan (Init 1) (ex_store {1, 0} {0} (\<lambda>_. None)) (ex_store {1, 0} {0, 3, 4} ex_sel)"
proof (rule exec_op.init)
  let ?g = "ex_store {1, 0} {0, 3, 4} ex_sel"
  have "store_ok ex_plan ?g" by (rule ex_store_ok) auto
  moreover have "whole ex_plan ?g 1" by (rule ex_whole_enum) (simp_all add: ex_sel_def)
  ultimately show "fills ex_plan 1 (ex_store {1, 0} {0} (\<lambda>_. None)) ?g"
    by (auto simp: fills_def ex_below ex_sel_def)
qed

lemma ex_assume: "exec_op ex_plan (AssumeDiscriminant 1 1) (ex_store L A ex_sel) (ex_store L A ex_sel)"
  by (rule exec_op.assume_discriminant) (simp add: ex_sel_def)

lemma ex_move: "exec_op ex_plan (MoveOut 3) (ex_store {1, 0} {0, 3, 4} ex_sel) (ex_store {1, 0} {0, 4} ex_sel)"
proof -
  have "(\<lambda>q. if q \<in> {3} then None else ex_sel q) = ex_sel" by (auto simp: ex_sel_def fun_eq_iff)
  moreover have "{0, 3, 4} - {3} = {0, 4 :: nat}" by auto
  ultimately show ?thesis
    using exec_op.move_out [of ex_plan 3 "ex_store {1, 0} {0, 3, 4} ex_sel"] by (simp add: blank_out_def ex_below ex_sel_def)
qed

text \<open>The execution through block 1, with the flags of the analysis: none is ever set.\<close>

lemma ex_flags_stay_clear:
  assumes "da_actions f = ex_actions"
  shows "flags_after f b i {} = {}"
  using assms by (simp add: flags_after_def ex_actions_def)

lemma ex_run_block0:
  assumes f: "da_actions f = ex_actions"
  shows "flag_run ex_plan f \<lparr>at_block = 0, at_op = 4, memory = ex_store {1, 0} {0, 3, 4} ex_sel\<rparr> {}"
proof -
  note clear = ex_flags_stay_clear [OF f]
  have r: "flag_run ex_plan f \<lparr>at_block = 0, at_op = 0, memory = empty_store\<rparr> {}"
    using flag_run.start [of ex_plan f] by simp
  have "flag_run ex_plan f \<lparr>at_block = 0, at_op = Suc 0, memory = ex_store {0} {} (\<lambda>_. None)\<rparr> {}"
    using flag_run_op [OF r] ex_live0 by (simp add: clear ex_operations)
  from flag_run_op [OF this] have "flag_run ex_plan f \<lparr>at_block = 0, at_op = 2, memory = ex_store {0} {0} (\<lambda>_. None)\<rparr> {}"
    using ex_init0 by (simp add: clear ex_operations numeral_2_eq_2)
  from flag_run_op [OF this] have "flag_run ex_plan f \<lparr>at_block = 0, at_op = 3, memory = ex_store {1, 0} {0} (\<lambda>_. None)\<rparr> {}"
    using ex_live1 by (simp add: clear ex_operations)
  from flag_run_op [OF this] show ?thesis using ex_init1 by (simp add: clear ex_operations)
qed

lemma ex_run_block3:
  assumes f: "da_actions f = ex_actions"
  shows "flag_run ex_plan f \<lparr>at_block = 3, at_op = 0, memory = ex_store {1, 0} {0, 4} ex_sel\<rparr> {}"
proof -
  note clear = ex_flags_stay_clear [OF f]
  have edge: "edge_target (ex_edge b) = b" "leave ex_plan (ex_edge b) g = g" for b g
    by (simp_all add: ex_edge_def leave_def)
  have "flag_run ex_plan f \<lparr>at_block = 1, at_op = 0, memory = ex_store {1, 0} {0, 3, 4} ex_sel\<rparr> {}"
    using flag_run_edge [OF ex_run_block0 [OF f], of "ex_edge 1"] by (simp add: ex_operations edge)
  from flag_run_op [OF this] have "flag_run ex_plan f \<lparr>at_block = 1, at_op = Suc 0, memory = ex_store {1, 0} {0, 3, 4} ex_sel\<rparr> {}"
    using ex_assume by (simp add: clear ex_operations)
  from flag_run_op [OF this] have "flag_run ex_plan f \<lparr>at_block = 1, at_op = 2, memory = ex_store {1, 0} {0, 4} ex_sel\<rparr> {}"
    using ex_move by (simp add: clear ex_operations numeral_2_eq_2)
  from flag_run_edge [OF this, of "ex_edge 3"] show ?thesis by (simp add: ex_operations edge)
qed

lemma ex_nothing_dropped: "da_sites f = ex_sites \<Longrightarrow> dropped_at f {} 3 0 = []"
  by (simp add: dropped_at_def ex_sites_def)

end
