(* ===== verification/Cleanup_Flag_Sites.thy ===== *)
theory Cleanup_Flag_Sites
  imports Cleanup_Flags
begin

text \<open>
  What \<open>DropFlagAnalysis::compute\<close> of \<open>compiler/src/cleanup.rs\<close> returns: flags are numbered in
  the order of their paths, no path has two, and the guard of every drop obligation is the flag
  of its own path.
\<close>

fun guarded :: "(move_path_id \<times> drop_flag_id) list \<Rightarrow> drop_obligation \<Rightarrow> bool" where
  "guarded flags (DropObligation p c ks) \<longleftrightarrow>
     (case c of Static \<Rightarrow> ks = [] | Flag f \<Rightarrow> flag_of flags p = Some f) \<and> (\<forall>k \<in> set ks. guarded flags k)"

lemma fold_opt_keeps:
  assumes "fold_opt f xs s = Some s'" "P s"
    and "\<And>x s s'. x \<in> set xs \<Longrightarrow> f x s = Some s' \<Longrightarrow> P s \<Longrightarrow> P s'"
  shows "P s'"
  using assms by (induction xs arbitrary: s) (auto simp: opt_simps)

lemma map_opt_all:
  assumes "map_opt f xs = Some ys" "\<And>x y. x \<in> set xs \<Longrightarrow> f x = Some y \<Longrightarrow> P y"
  shows "\<forall>y \<in> set ys. P y"
  using assms
proof (induction xs arbitrary: ys)
  case Nil
  then show ?case by simp
next
  case (Cons x xs)
  obtain y zs where y: "f x = Some y" "map_opt f xs = Some zs" "ys = y # zs"
    using Cons.prems(1) by (auto simp: opt_simps)
  have "P y" by (rule Cons.prems(2) [OF _ y(1)]) simp
  moreover have "\<forall>y \<in> set zs. P y"
    by (rule Cons.IH [OF y(2)]) (rule Cons.prems(2), simp_all)
  ultimately show ?case using y(3) by simp
qed

lemma collect_distinct:
  assumes "collect_conditional_paths plan t s p paths = Some ps"
  shows "distinct paths \<longrightarrow> distinct ps"
proof (rule collect_conditional_paths.raw_induct [where P = "\<lambda>_ _ _ _ paths ps. distinct paths \<longrightarrow> distinct ps", OF _ assms],
    goal_cases)
  case (1 collect plan t s p paths ps)
  show ?case
  proof
    assume d: "distinct paths"
    obtain status where st: "path_initialization_of s t p = Some status"
      using 1(2) by (auto simp: opt_simps)
    show "distinct ps"
    proof (cases "status = MaybeOrPartial")
      case False
      then show ?thesis using 1(2) st d by simp
    next
      case True
      obtain mp where mp: "nth_opt (move_paths plan) p = Some mp" using 1(2) st True by (auto simp: opt_simps)
      obtain cs where cs: "nth_opt (topo_children t) p = Some cs" using 1(2) st True mp by (auto simp: opt_simps)
      have "fold_opt (\<lambda>c paths. collect plan t s c paths) cs (if needs_drop mp \<and> path_may_be_fully_initialized s p
          then List.insert p paths else paths) = Some ps"
        using 1(2) st True mp cs by simp
      then show ?thesis by (rule fold_opt_keeps) (use d 1(1) in auto)
    qed
  qed
qed

lemma conditional_paths_distinct:
  assumes "conditional_paths plan a = Some ps"
  shows "distinct ps"
proof -
  let ?f = "\<lambda>b iop paths. do {
         e \<leftarrow> storage_end_before plan a (block_id b) iop;
         (case e of
            None \<Rightarrow> Some paths
          | Some (root, s) \<Rightarrow> collect_conditional_paths plan (topology a) s root paths) }"
  have step: "distinct ps'" if "?f b iop ps = Some ps'" "distinct ps" for b iop ps ps'
    using that collect_distinct by (auto simp: opt_simps split: option.splits)
  have "distinct ps'" if "fold_opt (?f b) (enumerated_ops b) ps = Some ps'" "distinct ps" for b ps ps'
    using that(1) by (rule fold_opt_keeps) (use that(2) step in blast)+
  with assms show ?thesis unfolding conditional_paths_def
    by (rule_tac fold_opt_keeps) auto
qed

lemma obligations_guarded:
  assumes "obligations_for_path plan t s flags p = Some obs"
  shows "\<forall>ob \<in> set obs. guarded flags ob"
proof (rule obligations_for_path.raw_induct [where P = "\<lambda>_ _ _ flags _ obs. \<forall>ob \<in> set obs. guarded flags ob", OF _ assms],
    goal_cases)
  case (1 obligations plan t s flags p obs)
  obtain status where st: "path_initialization_of s t p = Some status" using 1(2) by (auto simp: opt_simps)
  show ?case
  proof (cases "status = Uninitialized")
    case True
    then show ?thesis using 1(2) st by simp
  next
    case False
    then obtain mp where mp: "nth_opt (move_paths plan) p = Some mp" using 1(2) st by (auto simp: opt_simps)
    show ?thesis
    proof (cases "status = Initialized \<and> needs_drop mp")
      case True
      then show ?thesis using 1(2) st mp by auto
    next
      case False
      obtain cs where cs: "nth_opt (topo_children t) p = Some cs"
        using 1(2) st mp \<open>status \<noteq> Uninitialized\<close> False by (auto simp: opt_simps split: if_splits)
      obtain kids where kids: "map_opt (\<lambda>c. obligations plan t s flags c) cs = Some kids"
        using 1(2) st mp \<open>status \<noteq> Uninitialized\<close> False cs by (auto simp: opt_simps split: if_splits)
      obtain flag where k: "(case flag of Some f \<Rightarrow> Some [DropObligation p (Flag f) (concat kids)] | None \<Rightarrow> Some (concat kids)) = Some obs"
        "flag = None \<or> flag = flag_of flags p"
      proof (cases "status = MaybeOrPartial \<and> needs_drop mp \<and> path_may_be_fully_initialized s p")
        case True
        then obtain f where "flag_of flags p = Some f" using 1(2) st mp by (auto simp: opt_simps)
        then show ?thesis using 1(2) st mp True cs kids that [of "Some f"] by simp
      next
        case no: False
        then show ?thesis
          using 1(2) st mp \<open>status \<noteq> Uninitialized\<close> False cs kids that [of None] by (simp split: if_splits)
      qed
      have "\<forall>ks \<in> set kids. \<forall>ob \<in> set ks. guarded flags ob"
        by (rule map_opt_all [OF kids]) (rule 1(1))
      then show ?thesis using k by (auto split: option.splits)
    qed
  qed
qed

lemma drop_sites_guarded:
  assumes "drop_sites_of plan a flags b = Some sites"
  shows "\<forall>site \<in> set sites. \<forall>ob \<in> set (site_obligations site). guarded flags ob"
  using assms unfolding drop_sites_of_def
proof (rule fold_opt_keeps)
  fix iop sites sites'
  assume "Option.bind (storage_end_before plan a (block_id b) iop)
     (\<lambda>e. case e of None \<Rightarrow> Some sites
        | Some (root, s) \<Rightarrow> Option.bind (obligations_for_path plan (topology a) s flags root)
             (\<lambda>obls. Some (if obls = [] then sites
                else sites @ [\<lparr>site_block = block_id b, site_operation_index = fst iop,
                               site_local = (case snd iop of StorageDead l \<Rightarrow> l | _ \<Rightarrow> 0),
                               site_obligations = obls\<rparr>]))) = Some sites'"
    and "\<forall>site \<in> set sites. \<forall>ob \<in> set (site_obligations site). guarded flags ob"
  then show "\<forall>site \<in> set sites'. \<forall>ob \<in> set (site_obligations site). guarded flags ob"
    using obligations_guarded by (fastforce simp: opt_simps split: option.splits if_splits)
qed simp

lemma drop_flags_parts:
  assumes "drop_flags_compute plan a = Some f"
  shows "map flag_id (da_flags f) = [0..<length (da_flags f)]" "sorted (map flag_path (da_flags f))"
    "distinct (map flag_path (da_flags f))"
    "\<forall>site \<in> set (da_sites f). \<forall>ob \<in> set (site_obligations site).
       guarded (map (\<lambda>flag. (flag_path flag, flag_id flag)) (da_flags f)) ob"
proof -
  obtain ps acts sites where ps: "conditional_paths plan a = Some ps"
    and fl: "da_flags f = map (\<lambda>(i, p). \<lparr>flag_id = i, flag_path = p\<rparr>) (enumerate 0 (sort ps))"
    and sites: "map_opt (drop_sites_of plan a (map (\<lambda>flag. (flag_path flag, flag_id flag)) (da_flags f))) (blocks plan) = Some sites"
    and f: "da_sites f = concat sites"
    using assms by (auto simp: drop_flags_compute_def opt_simps Let_def)
  have paths: "map flag_path (da_flags f) = sort ps"
    using map_snd_enumerate [of 0 "sort ps"] by (simp add: fl comp_def case_prod_beta)
  show "map flag_id (da_flags f) = [0..<length (da_flags f)]"
    using map_fst_enumerate [of 0 "sort ps"] by (simp add: fl comp_def case_prod_beta)
  show "sorted (map flag_path (da_flags f))" "distinct (map flag_path (da_flags f))"
    using paths conditional_paths_distinct [OF ps] by simp_all
  have "\<forall>ss \<in> set sites. \<forall>site \<in> set ss. \<forall>ob \<in> set (site_obligations site).
       guarded (map (\<lambda>flag. (flag_path flag, flag_id flag)) (da_flags f)) ob"
    by (rule map_opt_all [OF sites]) (rule drop_sites_guarded)
  then show "\<forall>site \<in> set (da_sites f). \<forall>ob \<in> set (site_obligations site).
       guarded (map (\<lambda>flag. (flag_path flag, flag_id flag)) (da_flags f)) ob" by (auto simp: f)
qed

end
