(* ===== verification/Cleanup_Properties.thy ===== *)
theory Cleanup_Properties
  imports Cleanup_Example_Run Cleanup_Flag_Sites
begin

text \<open>
  What is shown of \<open>compiler/src/cleanup.rs\<close>: the properties of the cleanup plan, its analyses,
  its verification and its builder, each with an instance on the example plan where it has
  hypotheses.
\<close>

subsection \<open>Verification\<close>

text \<open>
  C1: Every execution of a plan that \<open>verify\<close> accepts is safe: in every configuration reached from
  the entry the next operation finds its storage live, what it reads complete and what it fills
  empty, and at the end of a block the branch condition and the return place hold values.
\<close>
theorem verified_execution_safe:
  assumes "verify plan = Some (Inr ())" "reaches plan c"
  shows "config_safe plan c"
  using verify_Ok_verified [OF assms(1)] reaches_safe [OF _ assms(2)] by blast

theorem verified_execution_safe_witness:
  "config_safe ex_plan \<lparr>at_block = 3, at_op = 0, memory = ex_store {1, 0} {0, 4} ex_sel\<rparr>"
proof -
  obtain a f where "analyze_and_verify ex_plan = Some (Inr (a, f))" and f: "da_actions f = ex_actions"
    and "da_sites f = ex_sites" using ex_analysis .
  show ?thesis by (rule verified_execution_safe [OF ex_verifies flag_run_reaches [OF ex_run_block3 [OF f]]])
qed

text \<open>
  C4: The verification returns, with errors or without, on every plan whose path ids are in range:
  no index is out of bounds, no \<open>expect\<close> fails and every loop ends.
\<close>
theorem verify_returns:
  assumes "\<forall>path \<in> set (move_paths plan). path_id path < length (move_paths plan)"
  shows "\<exists>r. verify plan = Some r"
  using analyze_and_verify_result [OF assms] by (auto simp: verify_def)

theorem verify_returns_witness: "\<exists>r. verify ex_plan = Some r"
proof (rule verify_returns)
  have "list_all (\<lambda>path. path_id path < length (move_paths ex_plan)) (move_paths ex_plan)" by code_simp
  then show "\<forall>path \<in> set (move_paths ex_plan). path_id path < length (move_paths ex_plan)"
    by (simp add: list_all_iff)
qed

text \<open>A plan whose second path claims an id that no path has.\<close>

definition bad_id_plan :: cleanup_plan where
  "bad_id_plan = ex_plan\<lparr>plan_locals := [ex_local 0],
     move_paths := [ex_path 0 0 [] None, ex_path 9 0 [Field 0] (Some 0)]\<rparr>"


subsection \<open>The abstract state\<close>

text \<open>
  C3: \<open>MoveState::apply_operation\<close> simulates execution: from a state that describes a store, an
  operation that passes the checks leads to a state that describes every store the operation can
  lead to.
\<close>
theorem operation_simulates:
  assumes "plan_topo plan t" "downcasts_wf plan" "describes plan t s g"
    and "op_wf plan op" "op_checked plan t s op" "exec_op plan op g g'"
  shows "\<exists>s'. apply_operation op plan t s = Some s' \<and> describes plan t s' g'"
proof -
  have d: "state_wf plan t s" "consistent s" "reachable s" "sound plan t s g" "store_ok plan g"
    using assms(3) by (simp_all add: describes_def state_ok_def)
  show ?thesis
    using apply_operation_sound [OF assms(1,2) d(1,2,4,5) assms(4-6)] d(3) by (auto simp: describes_def state_ok_def)
qed

theorem operation_simulates_witness:
  "\<exists>t s'. apply_operation (StorageLive 0) ex_plan t (move_state_new True t) = Some s' \<and>
     describes ex_plan t s' (ex_store {0} {} (\<lambda>_. None))"
proof -
  obtain a where v: "verified ex_plan (topology a) a" using ex_verified .
  then have pt: "plan_topo ex_plan (topology a)" and dw: "downcasts_wf ex_plan" by (simp_all add: verified_def)
  have "op_wf ex_plan (StorageLive 0)" by simp
  moreover have "op_checked ex_plan (topology a) (move_state_new True (topology a)) (StorageLive 0)"
    by (simp add: storage_liveness_of_def move_state_new_def flip: mem_bits)
  ultimately show ?thesis
    using operation_simulates [OF pt dw describes_start [OF pt] _ _ ex_live0] by blast
qed



text \<open>
  C7: Every operation keeps a move state well-formed and its "must" sets inside its "may" sets, so
  the two internal-invariant errors of the verification are never reported.
\<close>
theorem operation_keeps_invariant:
  assumes "plan_topo plan t" "state_ok plan t s" "op_wf plan op"
  shows "\<exists>s'. apply_operation op plan t s = Some s' \<and> state_ok plan t s' \<and> reachable s' = reachable s \<and>
    invariant_errors plan s' b i = []"
  using apply_operation_result [OF assms(1) _ _ assms(3), of s] assms(2) invariant_errors_none
  by (fastforce simp: step_result_def state_ok_def)

theorem operation_keeps_invariant_witness:
  "\<exists>t s'. apply_operation (Init 1) ex_plan t (move_state_new True t) = Some s' \<and> state_ok ex_plan t s' \<and>
     reachable s' = reachable (move_state_new True t) \<and> invariant_errors ex_plan s' 0 3 = []"
proof -
  obtain a where v: "verified ex_plan (topology a) a" using ex_verified .
  then have pt: "plan_topo ex_plan (topology a)" by (simp add: verified_def)
  have "op_wf ex_plan (Init 1)" by simp
  from operation_keeps_invariant [OF pt state_new_ok [OF pt] this] show ?thesis by blast
qed

text \<open>
  C34: The answers of \<open>path_initialization\<close> are true of every store the state describes: an
  \<open>Initialized\<close> path is complete and an \<open>Uninitialized\<close> one holds nothing.
\<close>
theorem initialization_answers:
  assumes "plan_topo plan t" "describes plan t s g" "p < n_paths plan"
  shows "\<exists>r. path_initialization_of s t p = Some r \<and>
    (r = Initialized \<longrightarrow> whole plan g p) \<and> (r = Uninitialized \<longrightarrow> blank plan g p)"
proof -
  have d: "state_wf plan t s" "sound plan t s g" "store_ok plan g"
    using assms(2) by (simp_all add: describes_def state_ok_def)
  show ?thesis
    using path_initialization_value [OF assms(1) d(1) assms(3)] sound_whole [OF d(2) assms(3)] sound_blank [OF d(2,3)]
    by auto
qed

theorem initialization_answers_witness:
  "\<exists>t r. path_initialization_of (move_state_new True t) t 1 = Some r \<and>
    (r = Initialized \<longrightarrow> whole ex_plan empty_store 1) \<and> (r = Uninitialized \<longrightarrow> blank ex_plan empty_store 1)"
proof -
  obtain a where v: "verified ex_plan (topology a) a" using ex_verified .
  then have pt: "plan_topo ex_plan (topology a)" by (simp add: verified_def)
  show ?thesis using initialization_answers [OF pt describes_start [OF pt], of 1] by auto
qed

text \<open>
  C8: \<open>join_from\<close> is the least upper bound of two states, says truly whether its target changed,
  and lowers a rank whenever it did.
\<close>
theorem join_least_upper_bound:
  assumes "state_ok plan t a" "state_ok plan t b" "join_from a b = (j, changed)"
  shows "state_ok plan t j \<and> state_le a j \<and> state_le b j \<and>
    (\<forall>c. state_le a c \<and> state_le b c \<longrightarrow> state_le j c) \<and>
    (\<not> changed \<longrightarrow> j = a) \<and> (changed \<longrightarrow> state_rank plan t j < state_rank plan t a)"
  using mj.join_ok [OF assms(1,2)] mj.join_old [OF assms(1,2)] mj.join_new [OF assms(1,2)]
    join_least [OF assms(1,2)] mj.join_same [OF assms(1,2)] mj.join_rank [OF assms(1,2)] assms(3)
  by simp

theorem join_least_upper_bound_witness:
  "\<exists>t. let a = move_state_new False t; b = move_state_new True t in
     state_le b (fst (join_from a b)) \<and> state_rank ex_plan t (fst (join_from a b)) < state_rank ex_plan t a"
proof -
  obtain a where v: "verified ex_plan (topology a) a" using ex_verified .
  then have pt: "plan_topo ex_plan (topology a)" by (simp add: verified_def)
  let ?a = "move_state_new False (topology a)" and ?b = "move_state_new True (topology a)"
  have j: "join_from ?a ?b = (?b, True)" by (simp add: join_from_cases move_state_new_def)
  from join_least_upper_bound [OF state_new_ok [OF pt] state_new_ok [OF pt] j]
  have "state_le ?b (fst (join_from ?a ?b))"
    "state_rank ex_plan (topology a) (fst (join_from ?a ?b)) < state_rank ex_plan (topology a) ?a"
    using j by simp_all
  then show ?thesis unfolding Let_def by blast
qed

text \<open>
  C5: The worklist of \<open>MoveStateAnalysis::compute\<close> ends on every well-formed plan, panics nowhere,
  and its result satisfies the flow equations: block exits are the operations applied to block
  entries, and what leaves along an edge is covered by the entry of its target.
\<close>
theorem worklist_solves:
  assumes "plan_topo plan t" "flow_wf plan"
  shows "\<exists>a. analysis_compute plan t = Some a \<and> solution plan t a"
  by (rule analysis_compute_ok [OF assms])

theorem worklist_solves_witness: "\<exists>t a. analysis_compute ex_plan t = Some a \<and> solution ex_plan t a"
proof -
  obtain a where v: "verified ex_plan (topology a) a" using ex_verified .
  then have "plan_topo ex_plan (topology a)" "flow_wf ex_plan" by (simp_all add: verified_def)
  from worklist_solves [OF this] show ?thesis by blast
qed

subsection \<open>Sets and trees\<close>

text \<open>
  C35: The bit set is a set: an index that fits is inserted and removed exactly, one that does not
  makes \<open>insert\<close> and \<open>remove\<close> panic, and the word-wise loops are union and intersection.
\<close>
theorem bit_set_refines:
  "(if bit_fits b i
    then (\<exists>b'. bitset_insert b i = Some b' \<and> bits b' = insert i (bits b) \<and> bit_fits b' = bit_fits b) \<and>
      (\<exists>b'. bitset_remove b i = Some b' \<and> bits b' = bits b - {i} \<and> bit_fits b' = bit_fits b)
    else bitset_insert b i = None \<and> bitset_remove b i = None \<and> \<not> bitset_contains b i) \<and>
   (bit_capacity b = bit_capacity c \<longrightarrow>
      bits (bitset_union_with b c) = bits b \<union> bits c \<and> bits (bitset_intersect_with b c) = bits b \<inter> bits c)"
proof -
  have "\<not> bit_fits b i \<Longrightarrow> bitset_insert b i = None \<and> bitset_remove b i = None \<and> \<not> bitset_contains b i"
    unfolding bitset_insert_def bitset_remove_def bitset_contains_def bit_fits_def bit_capacity_def by simp
  then show ?thesis using bs.ins_elems [of b i] bs.del_elems [of b i] bits_union_with [of b c] bits_intersect_with [of b c]
    by simp
qed

theorem bit_set_refines_witness:
  "bits (bitset_union_with (bitset_new 70) (bitset_new 100)) = {}"
  using bit_set_refines [of "bitset_new 70" 69 "bitset_new 100"] by (simp add: capacity_for_def)

text \<open>
  C6: The preorder layout of \<open>MovePathTopology::new\<close> answers questions about places: one path
  contains another exactly when its place is a prefix of the other's, and the slice of a subtree
  lists each of its paths once.
\<close>
theorem topology_is_prefix_order:
  assumes "paths_wf plan"
  shows "\<exists>t. topology_new plan = Some t \<and>
    (\<forall>a < n_paths plan. \<forall>d < n_paths plan. contains_path t a d = Some (under plan a d)) \<and>
    (\<forall>p < n_paths plan. \<exists>ys. subtree t p = Some ys \<and> distinct ys \<and> set ys = below plan p)"
  using topology_new_ok [OF assms] by (auto simp: topo_ok_def n_paths_def below_def)

theorem topology_is_prefix_order_witness:
  "\<exists>t. topology_new ex_plan = Some t \<and> contains_path t 1 4 = Some (under ex_plan 1 4)"
  using topology_is_prefix_order [OF ex_paths_wf] by auto

text \<open>
  The shape comparison of two transferred paths ends and does not panic, whatever the shapes.
\<close>
theorem transfer_shapes_returns:
  assumes "plan_topo plan t" "src < n_paths plan" "dst < n_paths plan"
  shows "\<exists>r. transfer_shapes_match t plan src dst = Some r"
  by (rule transfer_shapes_total [OF assms])

theorem transfer_shapes_returns_witness: "\<exists>t r. transfer_shapes_match t ex_plan 1 4 = Some r"
proof -
  obtain a where v: "verified ex_plan (topology a) a" using ex_verified .
  then have pt: "plan_topo ex_plan (topology a)" by (simp add: verified_def)
  show ?thesis using transfer_shapes_returns [OF pt, of 1 4] by auto
qed

text \<open>
  \<open>is_ancestor\<close> walks the parent relation: it answers yes exactly when the ancestor is reached
  from the descendant, on every plan, also one whose scopes form a cycle.
\<close>
theorem is_ancestor_iff: "is_ancestor plan a d \<longleftrightarrow> (d, a) \<in> (parent_rel plan)\<^sup>*"
  by (rule is_ancestor_reach)

text \<open>
  \<open>return_exit_chain\<close> lists the scopes from the source to just below the root, innermost first,
  and answers \<open>None\<close> exactly when the root is not reached.
\<close>
theorem return_exit_chain_exact:
  "return_exit_chain plan sc = Some xs \<longleftrightarrow> leaves_scopes plan sc xs"
  by (rule return_exit_chain_iff)

subsection \<open>Drop flags\<close>

text \<open>
  C37: The flags of \<open>DropFlagAnalysis\<close> are numbered in the order of their paths, no path has two, and
  every drop obligation under a flag is guarded by the flag of its own path.
\<close>
theorem drop_flags_consistent:
  assumes "drop_flags_compute plan a = Some f"
  shows "map flag_id (da_flags f) = [0..<length (da_flags f)] \<and> sorted (map flag_path (da_flags f)) \<and>
    distinct (map flag_path (da_flags f)) \<and>
    (\<forall>site \<in> set (da_sites f). \<forall>ob \<in> set (site_obligations site).
       guarded (map (\<lambda>flag. (flag_path flag, flag_id flag)) (da_flags f)) ob)"
  using drop_flags_parts [OF assms] by blast

theorem drop_flags_consistent_witness:
  "\<exists>a f. drop_flags_compute ex_plan a = Some f \<and> distinct (map flag_path (da_flags f))"
proof -
  obtain a where "verified ex_plan (topology a) a" using ex_verified .
  then obtain f where "drop_flags_compute ex_plan a = Some f" using drop_flags_total verified_analysed by blast
  with drop_flags_consistent [OF this] show ?thesis by blast
qed

text \<open>
  C26: The flags can be clear although their path is complete: in the example plan, which is
  accepted, an execution reaches the end of the storage of local 1 with its second field still
  there, the field needs a drop, and the drop site drops nothing, because no action follows the
  \<open>AssumeDiscriminant\<close> that made the field known to be complete.
\<close>
theorem complete_path_not_dropped:
  "\<exists>a f g. analyze_and_verify ex_plan = Some (Inr (a, f)) \<and>
     flag_run ex_plan f \<lparr>at_block = 3, at_op = 0, memory = g\<rparr> {} \<and>
     operations (blocks ex_plan ! 3) ! 0 = StorageDead 1 \<and> 4 \<in> local_paths ex_plan 1 \<and>
     whole ex_plan g 4 \<and> needs_drop (move_paths ex_plan ! 4) \<and> dropped_at f {} 3 0 = []"
proof -
  obtain a f where f: "analyze_and_verify ex_plan = Some (Inr (a, f))" "da_actions f = ex_actions" "da_sites f = ex_sites"
    using ex_analysis .
  have "needs_drop (move_paths ex_plan ! 4)" by code_simp
  moreover have "whole ex_plan (ex_store {1, 0} {0, 4} ex_sel) 4" by (rule ex_whole_leaf) auto
  ultimately show ?thesis
    using f(1) ex_run_block3 [OF f(2)] ex_nothing_dropped [OF f(3)] ex_operations(3) ex_local_paths(2) by fastforce
qed

subsection \<open>The builder\<close>

text \<open>
  C12: Whatever sequence of operations built a plan, its ids are positions, parents come before
  children, every scope lists its own locals in declaration order, its scopes pass the
  verification, and \<open>finish\<close> returns without a panic.
\<close>
theorem builder_invariant:
  assumes "builds\<^sup>*\<^sup>* builder_new b"
  shows "builder_ok b \<and> verify_scopes (built b) = [] \<and> (\<exists>r. finish b = Some r)"
proof -
  have "builder_ok b" using assms by (induction rule: rtranclp_induct) (auto intro: builder_new_ok builds_ok)
  then show ?thesis using builder_scopes_verify finish_total by blast
qed

theorem builder_invariant_witness:
  "\<exists>i b. new_scope 0 Lexical builder_new = Inr (i, b) \<and> builder_ok b \<and> verify_scopes (built b) = [] \<and>
     (\<exists>r. finish b = Some r)"
proof -
  obtain i b where b: "new_scope 0 Lexical builder_new = Inr (i, b)" by (simp add: new_scope_def builder_new_def)
  then have "builds\<^sup>*\<^sup>* builder_new b" by (blast intro: builds.intros)
  from builder_invariant [OF this] b show ?thesis by blast
qed

text \<open>
  C38: A plan that \<open>finish\<close> returns is safe to execute, with its analyses stored in it.
\<close>
theorem finished_plan_safe:
  assumes "finish b = Some (Inr plan)" "reaches plan c"
  shows "config_safe plan c"
  by (rule finish_safe [OF assms])

theorem finished_plan_safe_witness:
  "\<exists>plan. finish \<lparr>built = ex_plan\<rparr> = Some (Inr plan) \<and>
     config_safe plan \<lparr>at_block = 0, at_op = 0, memory = empty_store\<rparr>"
proof -
  obtain a f where "analyze_and_verify ex_plan = Some (Inr (a, f))" using ex_analysis .
  then obtain plan where p: "finish \<lparr>built = ex_plan\<rparr> = Some (Inr plan)" "plan_entry plan = 0"
    by (auto simp: finish_def)
  have "reaches plan \<lparr>at_block = 0, at_op = 0, memory = empty_store\<rparr>" using reaches.start [of plan] p(2) by simp
  from finished_plan_safe [OF p(1) this] p(1) show ?thesis by blast
qed

end
