(* ===== verification/Chars.thy ===== *)
theory Chars
  imports Prelude
begin

text \<open>
  Rust text.  A \<open>char\<close> is its code point, an integer; a \<open>String\<close> is the list of its code points.
  What the code uses of the standard library on characters is here: the ASCII digits, the white
  space of \<open>char::is_whitespace\<close>, the length in UTF-8, and decimal numbers.
\<close>

type_synonym code_point = int
type_synonym chars = "code_point list"

abbreviation ch :: "char \<Rightarrow> code_point" where
  "ch c \<equiv> of_char c"

definition lit :: "string \<Rightarrow> chars" where
  "lit s = map of_char s"

definition is_ascii_digit :: "code_point \<Rightarrow> bool" where
  "is_ascii_digit c \<longleftrightarrow> 48 \<le> c \<and> c \<le> 57"

definition is_whitespace :: "code_point \<Rightarrow> bool" where
  "is_whitespace c \<longleftrightarrow> (9 \<le> c \<and> c \<le> 13) \<or> c = 32 \<or> c = 133 \<or> c = 160 \<or> c = 5760 \<or> (8192 \<le> c \<and> c \<le> 8202) \<or>
     c = 8232 \<or> c = 8233 \<or> c = 8239 \<or> c = 8287 \<or> c = 12288"

definition len_utf8 :: "code_point \<Rightarrow> nat" where
  "len_utf8 c = (if c < 128 then 1 else if c < 2048 then 2 else if c < 65536 then 3 else 4)"

definition digits_value :: "chars \<Rightarrow> int" where
  "digits_value cs = foldl (\<lambda>n c. 10 * n + (c - 48)) 0 cs"

text \<open>Decimal digits of a number.\<close>

function decimal :: "int \<Rightarrow> chars" where
  "decimal n = (if n < 10 then [48 + n] else decimal (n div 10) @ [48 + n mod 10])"
  by pat_completeness auto
termination by (relation "measure nat") auto

declare decimal.simps [simp del]

lemma hd_decimal: "0 \<le> n \<Longrightarrow> \<exists>c cs. decimal n = c # cs \<and> is_ascii_digit c"
proof (induction n rule: decimal.induct)
  case (1 n)
  show ?case
  proof (cases "n < 10")
    case True
    then show ?thesis using 1 by (simp add: decimal.simps [of n] is_ascii_digit_def)
  next
    case False
    have "0 \<le> n div 10" using False by (simp add: pos_imp_zdiv_nonneg_iff)
    then obtain c cs where "decimal (n div 10) = c # cs" "is_ascii_digit c" using 1(1) [OF False] by blast
    then show ?thesis using False by (simp add: decimal.simps [of n])
  qed
qed

lemma decimal_digits: "0 \<le> n \<Longrightarrow> \<forall>c \<in> set (decimal n). is_ascii_digit c"
proof (induction n rule: decimal.induct)
  case (1 n)
  have "0 \<le> n mod 10" "n mod 10 < 10" by simp_all
  then show ?case using 1 by (auto simp: decimal.simps [of n] is_ascii_digit_def)
qed

lemma digits_value_snoc: "digits_value (cs @ [c]) = 10 * digits_value cs + (c - 48)"
  by (simp add: digits_value_def)

lemma digits_value_decimal: "0 \<le> n \<Longrightarrow> digits_value (decimal n) = n"
proof (induction n rule: decimal.induct)
  case (1 n)
  show ?case
  proof (cases "n < 10")
    case True
    then show ?thesis by (simp add: decimal.simps [of n] digits_value_def)
  next
    case False
    then show ?thesis using 1 by (simp add: decimal.simps [of n] digits_value_snoc)
  qed
qed

lemma decimal_inject: "0 \<le> n \<Longrightarrow> 0 \<le> m \<Longrightarrow> decimal n = decimal m \<longleftrightarrow> n = m"
  using digits_value_decimal by metis

subsection \<open>Searching and splitting\<close>

text \<open>\<open>str::strip_prefix\<close>, \<open>split_once\<close>, \<open>rsplit_once\<close> and \<open>split\<close>, for a pattern that is a string.\<close>

fun strip_prefix :: "chars \<Rightarrow> chars \<Rightarrow> chars option" where
  "strip_prefix [] s = Some s"
| "strip_prefix (p # ps) [] = None"
| "strip_prefix (p # ps) (c # cs) = (if p = c then strip_prefix ps cs else None)"

fun split_once :: "chars \<Rightarrow> chars \<Rightarrow> (chars \<times> chars) option" where
  "split_once p s =
     (case strip_prefix p s of
        Some rest \<Rightarrow> Some ([], rest)
      | None \<Rightarrow> (case s of [] \<Rightarrow> None | c # cs \<Rightarrow> map_option (\<lambda>(a, b). (c # a, b)) (split_once p cs)))"

fun rsplit_once :: "chars \<Rightarrow> chars \<Rightarrow> (chars \<times> chars) option" where
  "rsplit_once p s =
     (case s of
        [] \<Rightarrow> (if p = [] then Some ([], []) else None)
      | c # cs \<Rightarrow>
          (case rsplit_once p cs of
             Some (a, b) \<Rightarrow> Some (c # a, b)
           | None \<Rightarrow> map_option (\<lambda>rest. ([], rest)) (strip_prefix p s)))"

declare split_once.simps [simp del] rsplit_once.simps [simp del]

lemma strip_prefix_Some: "strip_prefix p s = Some rest \<longleftrightarrow> s = p @ rest"
  by (induction p s rule: strip_prefix.induct) auto

text \<open>The first piece of \<open>split(p)\<close> and the last piece of \<open>rsplit(p)\<close>.\<close>

definition split_first :: "chars \<Rightarrow> chars \<Rightarrow> chars" where
  "split_first p s = (case split_once p s of Some (a, _) \<Rightarrow> a | None \<Rightarrow> s)"

definition rsplit_last :: "chars \<Rightarrow> chars \<Rightarrow> chars" where
  "rsplit_last p s = (case rsplit_once p s of Some (_, b) \<Rightarrow> b | None \<Rightarrow> s)"

subsection \<open>UTF-8\<close>

definition utf8_char :: "code_point \<Rightarrow> int list" where
  "utf8_char c =
     (if c < 128 then [c]
      else if c < 2048 then [192 + c div 64, 128 + c mod 64]
      else if c < 65536 then [224 + c div 4096, 128 + c div 64 mod 64, 128 + c mod 64]
      else [240 + c div 262144, 128 + c div 4096 mod 64, 128 + c div 64 mod 64, 128 + c mod 64])"

definition utf8 :: "chars \<Rightarrow> int list" where
  "utf8 s = concat (map utf8_char s)"

definition byte_len :: "chars \<Rightarrow> nat" where
  "byte_len s = sum_list (map len_utf8 s)"

lemma length_utf8: "length (utf8 s) = byte_len s"
  by (induction s) (simp_all add: utf8_def byte_len_def utf8_char_def len_utf8_def)

end
