(* ===== verification/Lexer.thy ===== *)
theory Lexer
  imports Chars
begin

text \<open>
  \<open>compiler/src/lexer.rs\<close>: characters to tokens.  A \<open>char\<close> is its code point, a \<open>String\<close> a list
  of code points (an integer each); \<open>usize\<close> counters are natural numbers, as the source fits in memory.  The
  crates \<open>unicode_ident\<close> and \<open>unicode_normalization\<close> are the parameter \<open>unicode\<close>; the white
  space of \<open>char::is_whitespace\<close> is the table of the standard library.  The 80 constructors of
  \<open>TokenKind\<close> are grouped: words, contextual words (which the lexer never emits), delimiters and
  separators, and two groups of operators.  Functions on the lexer return the new lexer.
\<close>

type_synonym u128 = "128 word"

record unicode =
  xid_start :: "code_point \<Rightarrow> bool"
  xid_continue :: "code_point \<Rightarrow> bool"
  nfc :: "chars \<Rightarrow> chars"

subsection \<open>Tokens\<close>

datatype keyword_token =
  KLet | KPub | KPackage | KRoot | KSuper | KExtend | KStruct | KEnum | KTrait | KWhere | KTrue | KFalse

datatype contextual =
  CMut | CCopy | CMove | CComptime | CBorrow | CType | CRegion | CUnsafe | CDo | CIf | CElse | CReturn | CThrow
  | CWhile | CFor | CIn | CLoop | CBreak | CContinue | CMatch | CTry

datatype delimiter =
  LParen | RParen | LBracket | RBracket | LBrace | RBrace | Colon | Dot | Ellipsis | Comma | Semicolon

datatype arith_op =
  Arrow | FatArrow | Equal | EqualEqual | Bang | BangEqual | Plus | PlusEqual | Minus | MinusEqual | Star
  | StarEqual | Slash | SlashEqual | Percent | PercentEqual

datatype bit_op =
  Less | LessEqual | Greater | GreaterEqual | AndAnd | OrOr | Amp | AmpEqual | Pipe | PipeEqual | Caret
  | CaretEqual | Shl | ShlEqual | Shr | ShrEqual | QuestionDot | QuestionQuestion

datatype token_kind =
    Word keyword_token
  | Contextual contextual
  | Ident chars
  | RegionName chars
  | StringLit chars
  | Integer u128
  | Delim delimiter
  | Arith arith_op
  | BitOp bit_op
  | Newline
  | Eof

record token =
  kind :: token_kind
  start_byte :: nat
  end_byte :: nat
  start_line :: nat
  start_column :: nat
  end_line :: nat
  end_column :: nat

datatype lex_message =
    ThirdDot
  | AtSyntax
  | UnexpectedCharacter code_point
  | UnterminatedComment
  | IntegerTooLarge
  | ExpectedRegionName
  | UnterminatedString
  | UnsupportedEscape code_point

record lex_error =
  message :: lex_message
  error_line :: nat
  error_column :: nat

definition keyword_table :: "(string \<times> keyword_token) list" where
  "keyword_table = [(''let'', KLet), (''pub'', KPub), (''package'', KPackage), (''root'', KRoot), (''super'', KSuper),
     (''extend'', KExtend), (''struct'', KStruct), (''enum'', KEnum), (''trait'', KTrait), (''where'', KWhere),
     (''true'', KTrue), (''false'', KFalse)]"

definition keyword :: "chars \<Rightarrow> keyword_token option" where
  "keyword t = map_of (map (\<lambda>(s, k). (lit s, k)) keyword_table) t"

definition is_keyword :: "chars \<Rightarrow> bool" where
  "is_keyword t \<longleftrightarrow> keyword t \<noteq> None"

subsection \<open>The lexer and its cursor\<close>

record lexer =
  lx_chars :: chars
  lx_index :: nat
  byte_offset :: nat
  lx_line :: nat
  lx_column :: nat
  delimiter_depth :: nat

definition lexer_new :: "chars \<Rightarrow> lexer" where
  "lexer_new source = \<lparr>lx_chars = source, lx_index = 0, byte_offset = 0, lx_line = 1, lx_column = 1, delimiter_depth = 0\<rparr>"

definition peek :: "lexer \<Rightarrow> code_point option" where
  "peek l = nth_opt (lx_chars l) (lx_index l)"

definition peek_next :: "lexer \<Rightarrow> code_point option" where
  "peek_next l = nth_opt (lx_chars l) (lx_index l + 1)"

definition bump :: "lexer \<Rightarrow> code_point option \<times> lexer" where
  "bump l =
     (case peek l of
        None \<Rightarrow> (None, l)
      | Some c \<Rightarrow>
          (Some c,
           (let l = l\<lparr>lx_index := lx_index l + 1, byte_offset := byte_offset l + len_utf8 c\<rparr> in
            if c = 10 then l\<lparr>lx_line := lx_line l + 1, lx_column := 1\<rparr> else l\<lparr>lx_column := lx_column l + 1\<rparr>)))"

abbreviation bumped :: "lexer \<Rightarrow> lexer" where
  "bumped l \<equiv> snd (bump l)"

definition take_char :: "code_point \<Rightarrow> lexer \<Rightarrow> bool \<times> lexer" where
  "take_char expected l = (if peek l = Some expected then (True, bumped l) else (False, l))"

definition error_at :: "lex_message \<Rightarrow> lexer \<Rightarrow> lex_error" where
  "error_at m l = \<lparr>message = m, error_line = lx_line l, error_column = lx_column l\<rparr>"

text \<open>How many characters are left; every loop of the lexer lowers it.\<close>

definition left :: "lexer \<Rightarrow> nat" where
  "left l = length (lx_chars l) - lx_index l"

lemma left_bump: "peek l = Some c \<Longrightarrow> left (bumped l) < left l"
  by (auto simp: bump_def peek_def left_def opt_simps Let_def)

lemma bump_Some: "bump l = (Some c, l') \<Longrightarrow> left l' < left l"
  using left_bump [of l c] by (auto simp: bump_def split: option.splits)

text \<open>\<open>while self.peek().is_some_and(p) { text.push(self.bump()) }\<close>.\<close>

function bump_while :: "(code_point \<Rightarrow> bool) \<Rightarrow> lexer \<Rightarrow> chars \<times> lexer" where
  "bump_while p l =
     (case peek l of
        None \<Rightarrow> ([], l)
      | Some c \<Rightarrow> if p c then (let (cs, l) = bump_while p (bumped l) in (c # cs, l)) else ([], l))"
  by pat_completeness auto
termination by (relation "measure (\<lambda>(p, l). left l)") (auto simp: left_bump)

declare bump_while.simps [simp del]

subsection \<open>Token readers\<close>

definition number :: "lexer \<Rightarrow> lex_error + token_kind \<times> lexer" where
  "number l =
     (let (cs, l') = bump_while (\<lambda>c. is_ascii_digit c \<or> c = ch CHR ''_'') l;
          n = digits_value (filter (\<lambda>c. c \<noteq> ch CHR ''_'') cs)
      in if n < 2 ^ 128 then Inr (Integer (of_int n), l') else Inl (error_at IntegerTooLarge l))"

definition lex_identifier :: "unicode \<Rightarrow> lexer \<Rightarrow> token_kind \<times> lexer" where
  "lex_identifier u l =
     (let (cs, l') = bump_while (\<lambda>c. c = ch CHR ''_'' \<or> xid_continue u c) l;
          t = nfc u cs
      in (case keyword t of Some k \<Rightarrow> Word k | None \<Rightarrow> Ident t, l'))"

definition region_name :: "unicode \<Rightarrow> lexer \<Rightarrow> lex_error + token_kind \<times> lexer" where
  "region_name u l =
     (let l1 = bumped l in
      case peek l1 of
        None \<Rightarrow> Inl (error_at ExpectedRegionName l)
      | Some first \<Rightarrow>
          if first \<noteq> ch CHR ''_'' \<and> \<not> xid_start u first then Inl (error_at ExpectedRegionName l)
          else
            (let (cs, l2) = bump_while (\<lambda>c. c = ch CHR ''_'' \<or> xid_continue u c) l1
             in Inr (RegionName (nfc u cs), l2)))"

definition unescape :: "code_point \<Rightarrow> code_point option" where
  "unescape c =
     (if c = ch CHR 0x22 then Some (ch CHR 0x22)
      else if c = ch CHR 0x5C then Some (ch CHR 0x5C)
      else if c = ch CHR ''n'' then Some 10
      else if c = ch CHR ''r'' then Some 13
      else if c = ch CHR ''t'' then Some 9
      else None)"

text \<open>The loop of \<open>string\<close>; \<open>l0\<close> is the lexer at the opening quote, where errors are reported.\<close>

function string_loop :: "lexer \<Rightarrow> chars \<Rightarrow> lexer \<Rightarrow> lex_error + token_kind \<times> lexer" where
  "string_loop l0 value l =
     (case bump l of
        (None, l) \<Rightarrow> Inl (error_at UnterminatedString l0)
      | (Some c, l) \<Rightarrow>
          if c = ch CHR 0x22 then Inr (StringLit value, l)
          else if c = ch CHR 0x5C then
            (case bump l of
               (None, l) \<Rightarrow> Inl (error_at UnterminatedString l0)
             | (Some e, l) \<Rightarrow>
                 (case unescape e of
                    None \<Rightarrow> Inl (error_at (UnsupportedEscape e) l0)
                  | Some v \<Rightarrow> string_loop l0 (value @ [v]) l))
          else if c = 10 then Inl (error_at UnterminatedString l0)
          else string_loop l0 (value @ [c]) l)"
  by pat_completeness auto

termination
  by (relation "measure (\<lambda>(l0, value, l). left l)") (auto dest!: sym [of _ "bump _"] bump_Some)

declare string_loop.simps [simp del]

definition string_token :: "lexer \<Rightarrow> lex_error + token_kind \<times> lexer" where
  "string_token l = string_loop l [] (bumped l)"

subsection \<open>Newlines and comments\<close>

definition token_between :: "token_kind \<Rightarrow> lexer \<Rightarrow> lexer \<Rightarrow> token" where
  "token_between k l l' =
     \<lparr>kind = k, start_byte = byte_offset l, end_byte = byte_offset l', start_line = lx_line l,
      start_column = lx_column l, end_line = lx_line l', end_column = lx_column l'\<rparr>"

text \<open>A value or a closing delimiter: a \<open>!\<close> after it is postfix.\<close>

fun ends_operand :: "token_kind \<Rightarrow> bool" where
  "ends_operand (Ident t) = True"
| "ends_operand (RegionName t) = True"
| "ends_operand (Integer n) = True"
| "ends_operand (Word k) = (k = KTrue \<or> k = KFalse)"
| "ends_operand (Delim d) = (d = RParen \<or> d = RBracket \<or> d = RBrace)"
| "ends_operand _ = False"

text \<open>A token that asks for a right-hand side.\<close>

fun continues :: "token_kind \<Rightarrow> bool" where
  "continues (Delim d) = (d = Colon \<or> d = Dot \<or> d = Ellipsis \<or> d = Comma)"
| "continues (Arith a) = (a \<noteq> Bang)"
| "continues (BitOp b) = True"
| "continues _ = False"

definition continued :: "token list \<Rightarrow> bool" where
  "continued tokens =
     (case rev tokens of
        [] \<Rightarrow> False
      | prev # _ \<Rightarrow>
          if kind prev = Arith Bang
          then (case List.find (\<lambda>t. kind t \<noteq> Arith Bang) (rev tokens) of
                  None \<Rightarrow> True
                | Some t \<Rightarrow> \<not> ends_operand (kind t))
          else continues (kind prev))"

definition logical_newline :: "lexer \<Rightarrow> token list \<Rightarrow> lexer \<times> token list" where
  "logical_newline l tokens =
     (let l' = bumped l in
      (l', if delimiter_depth l' = 0 \<and> \<not> continued tokens
           then tokens @ [token_between Newline l l'] else tokens))"

lemma fst_logical_newline [simp]: "fst (logical_newline l tokens) = bumped l"
  by (simp add: logical_newline_def Let_def)

lemma peek_next_bump:
  assumes "peek l = Some c" "peek_next l = Some d"
  shows "peek (bumped l) = Some d" "left (bumped (bumped l)) < left l"
proof -
  show p: "peek (bumped l) = Some d"
    using assms by (auto simp: bump_def peek_def peek_next_def Let_def)
  show "left (bumped (bumped l)) < left l"
    using left_bump [OF assms(1)] left_bump [OF p] by simp
qed

text \<open>The loop of \<open>block_comment\<close> behind the opening; \<open>l0\<close> is the lexer at the opening.\<close>

function comment_loop :: "lexer \<Rightarrow> nat \<Rightarrow> lexer \<Rightarrow> token list \<Rightarrow> lex_error + lexer \<times> token list" where
  "comment_loop l0 depth l tokens =
     (case peek l of
        None \<Rightarrow> Inl (error_at UnterminatedComment l0)
      | Some c \<Rightarrow>
          if c = ch CHR ''/'' \<and> peek_next l = Some (ch CHR ''*'')
          then comment_loop l0 (depth + 1) (bumped (bumped l)) tokens
          else if c = ch CHR ''*'' \<and> peek_next l = Some (ch CHR ''/'')
          then (if depth - 1 = 0 then Inr (bumped (bumped l), tokens)
                else comment_loop l0 (depth - 1) (bumped (bumped l)) tokens)
          else if c = 10
          then (case logical_newline l tokens of (l', tokens) \<Rightarrow> comment_loop l0 depth l' tokens)
          else comment_loop l0 depth (bumped l) tokens)"
  by pat_completeness auto
termination
  by (relation "measure (\<lambda>(l0, depth, l, tokens). left l)")
    (auto simp: left_bump peek_next_bump logical_newline_def Let_def)

declare comment_loop.simps [simp del]

definition block_comment :: "lexer \<Rightarrow> token list \<Rightarrow> lex_error + lexer \<times> token list" where
  "block_comment l tokens = comment_loop l 1 (bumped (bumped l)) tokens"

subsection \<open>Punctuation\<close>

text \<open>\<open>c if self.take(x) => k1, c => k2\<close>.\<close>

definition either :: "code_point \<Rightarrow> token_kind \<Rightarrow> token_kind \<Rightarrow> lexer \<Rightarrow> token_kind \<times> lexer" where
  "either x k1 k2 l = (case take_char x l of (True, l) \<Rightarrow> (k1, l) | (False, l) \<Rightarrow> (k2, l))"

text \<open>\<open>c if self.take(x) => k1, c if self.take(y) => k2, c => k3\<close>.\<close>

definition either3 :: "code_point \<Rightarrow> token_kind \<Rightarrow> code_point \<Rightarrow> token_kind \<Rightarrow> token_kind \<Rightarrow> lexer \<Rightarrow> token_kind \<times> lexer" where
  "either3 x k1 y k2 k3 l = (case take_char x l of (True, l) \<Rightarrow> (k1, l) | (False, l) \<Rightarrow> either y k2 k3 l)"

text \<open>A doubled character, a compound assignment of it, a comparison, or the character alone.\<close>

definition shift_like :: "code_point \<Rightarrow> token_kind \<Rightarrow> token_kind \<Rightarrow> token_kind \<Rightarrow> token_kind \<Rightarrow> lexer \<Rightarrow> token_kind \<times> lexer" where
  "shift_like c dbl_eq dbl single_eq single l =
     (case take_char c l of
        (True, l) \<Rightarrow> either (ch CHR ''='') dbl_eq dbl l
      | (False, l) \<Rightarrow> either (ch CHR ''='') single_eq single l)"

definition depth_up :: "lexer \<Rightarrow> lexer" where
  "depth_up l = l\<lparr>delimiter_depth := delimiter_depth l + 1\<rparr>"

definition depth_down :: "lexer \<Rightarrow> lexer" where
  "depth_down l = l\<lparr>delimiter_depth := delimiter_depth l - 1\<rparr>"

text \<open>\<open>l0\<close> is the lexer at the character \<open>c\<close>, \<open>l\<close> the one behind it.\<close>

definition dots :: "lexer \<Rightarrow> lexer \<Rightarrow> lex_error + token_kind \<times> lexer" where
  "dots l0 l =
     (case take_char (ch CHR ''.'') l of
        (False, l) \<Rightarrow> Inr (Delim Dot, l)
      | (True, l) \<Rightarrow>
          (case take_char (ch CHR ''.'') l of
             (True, l) \<Rightarrow> Inr (Delim Ellipsis, l)
           | (False, l) \<Rightarrow> Inl (error_at ThirdDot l0)))"

definition question :: "lexer \<Rightarrow> lexer \<Rightarrow> lex_error + token_kind \<times> lexer" where
  "question l0 l =
     (case take_char (ch CHR ''.'') l of
        (True, l) \<Rightarrow> Inr (BitOp QuestionDot, l)
      | (False, l) \<Rightarrow>
          (case take_char (ch CHR 0x3F) l of
             (True, l) \<Rightarrow> Inr (BitOp QuestionQuestion, l)
           | (False, l) \<Rightarrow> Inl (error_at (UnexpectedCharacter (ch CHR 0x3F)) l0)))"

definition punctuation :: "lexer \<Rightarrow> code_point \<Rightarrow> lex_error + token_kind \<times> lexer" where
  "punctuation l0 c =
     (let l = bumped l0; eq = ch CHR ''='' in
      if c = ch CHR ''('' then Inr (Delim LParen, depth_up l)
      else if c = ch CHR '')'' then Inr (Delim RParen, depth_down l)
      else if c = ch CHR ''['' then Inr (Delim LBracket, depth_up l)
      else if c = ch CHR '']'' then Inr (Delim RBracket, depth_down l)
      else if c = ch CHR ''{'' then Inr (Delim LBrace, l)
      else if c = ch CHR ''}'' then Inr (Delim RBrace, l)
      else if c = ch CHR '':'' then Inr (Delim Colon, l)
      else if c = ch CHR ''.'' then dots l0 l
      else if c = ch CHR '','' then Inr (Delim Comma, l)
      else if c = ch CHR '';'' then Inr (Delim Semicolon, l)
      else if c = ch CHR ''+'' then Inr (either eq (Arith PlusEqual) (Arith Plus) l)
      else if c = ch CHR ''*'' then Inr (either eq (Arith StarEqual) (Arith Star) l)
      else if c = ch CHR ''%'' then Inr (either eq (Arith PercentEqual) (Arith Percent) l)
      else if c = ch CHR ''-'' then Inr (either3 (ch CHR ''>'') (Arith Arrow) eq (Arith MinusEqual) (Arith Minus) l)
      else if c = eq then Inr (either3 eq (Arith EqualEqual) (ch CHR ''>'') (Arith FatArrow) (Arith Equal) l)
      else if c = ch CHR ''!'' then Inr (either eq (Arith BangEqual) (Arith Bang) l)
      else if c = ch CHR ''<'' then Inr (shift_like c (BitOp ShlEqual) (BitOp Shl) (BitOp LessEqual) (BitOp Less) l)
      else if c = ch CHR ''>'' then Inr (shift_like c (BitOp ShrEqual) (BitOp Shr) (BitOp GreaterEqual) (BitOp Greater) l)
      else if c = ch CHR ''&'' then Inr (either3 c (BitOp AndAnd) eq (BitOp AmpEqual) (BitOp Amp) l)
      else if c = ch CHR ''|'' then Inr (either3 c (BitOp OrOr) eq (BitOp PipeEqual) (BitOp Pipe) l)
      else if c = ch CHR ''^'' then Inr (either eq (BitOp CaretEqual) (BitOp Caret) l)
      else if c = ch CHR 0x3F then question l0 l
      else if c = ch CHR ''@'' then Inl (error_at AtSyntax l0)
      else if c = ch CHR ''/'' then Inr (either eq (Arith SlashEqual) (Arith Slash) l)
      else Inl (error_at (UnexpectedCharacter c) l0))"

subsection \<open>The main loop\<close>

definition next_kind :: "unicode \<Rightarrow> lexer \<Rightarrow> code_point \<Rightarrow> lex_error + token_kind \<times> lexer" where
  "next_kind u l c =
     (if is_ascii_digit c then number l
      else if c = ch CHR 0x22 then string_token l
      else if c = ch CHR 0x27 then region_name u l
      else if c = ch CHR ''_'' \<or> xid_start u c then Inr (lex_identifier u l)
      else punctuation l c)"

text \<open>One iteration of \<open>run\<close> at the character \<open>c\<close>.\<close>

definition lex_step :: "unicode \<Rightarrow> lexer \<Rightarrow> token list \<Rightarrow> code_point \<Rightarrow> lex_error + lexer \<times> token list" where
  "lex_step u l tokens c =
     (if c = 10 then Inr (logical_newline l tokens)
      else if is_whitespace c then Inr (bumped l, tokens)
      else if c = ch CHR ''/'' \<and> peek_next l = Some (ch CHR ''/'')
      then Inr (snd (bump_while (\<lambda>c. c \<noteq> 10) l), tokens)
      else if c = ch CHR ''/'' \<and> peek_next l = Some (ch CHR ''*'') then block_comment l tokens
      else
        (case next_kind u l c of
           Inl e \<Rightarrow> Inl e
         | Inr (k, l') \<Rightarrow> Inr (l', tokens @ [token_between k l l'])))"

partial_function (option) lex_run :: "unicode \<Rightarrow> lexer \<Rightarrow> token list \<Rightarrow> (lex_error + token list) option" where
  [code]: "lex_run u l tokens =
     (case peek l of
        None \<Rightarrow> Some (Inr (tokens @ [token_between Eof l l]))
      | Some c \<Rightarrow>
          (case lex_step u l tokens c of
             Inl e \<Rightarrow> Some (Inl e)
           | Inr (l', tokens) \<Rightarrow> lex_run u l' tokens))"

definition lex :: "unicode \<Rightarrow> chars \<Rightarrow> (lex_error + token list) option" where
  "lex u source = lex_run u (lexer_new source) []"

end
