(* ===== verification/Lexer_Positions.thy ===== *)
theory Lexer_Positions
  imports Lexer
begin

text \<open>
  The lexer of \<open>compiler/src/lexer.rs\<close> ends on every source, and every position it reports, in a
  token or in an error, is the position of a character boundary of the source.
\<close>

subsection \<open>Positions in a source\<close>

definition utf8_length :: "chars \<Rightarrow> nat" where
  "utf8_length cs = sum_list (map len_utf8 cs)"

definition line_after :: "chars \<Rightarrow> nat" where
  "line_after cs = 1 + length (filter (\<lambda>c. c = 10) cs)"

definition column_after :: "chars \<Rightarrow> nat" where
  "column_after cs = 1 + length (takeWhile (\<lambda>c. c \<noteq> 10) (rev cs))"

lemma utf8_length_snoc: "utf8_length (cs @ [c]) = utf8_length cs + len_utf8 c"
  by (simp add: utf8_length_def)

lemma line_after_snoc: "line_after (cs @ [c]) = line_after cs + (if c = 10 then 1 else 0)"
  by (simp add: line_after_def)

lemma column_after_snoc: "column_after (cs @ [c]) = (if c = 10 then 1 else column_after cs + 1)"
  by (simp add: column_after_def)

lemma len_utf8_pos: "0 < len_utf8 c"
  by (simp add: len_utf8_def)

text \<open>The cursor stands behind the first \<open>lx_index\<close> characters of \<open>src\<close>.\<close>

definition cursor_ok :: "chars \<Rightarrow> lexer \<Rightarrow> bool" where
  "cursor_ok src l \<longleftrightarrow>
     lx_chars l = src \<and> lx_index l \<le> length src \<and> byte_offset l = utf8_length (take (lx_index l) src) \<and>
     lx_line l = line_after (take (lx_index l) src) \<and> lx_column l = column_after (take (lx_index l) src)"

lemma cursor_ok_new: "cursor_ok src (lexer_new src)"
  by (simp add: cursor_ok_def lexer_new_def utf8_length_def line_after_def column_after_def)

lemma cursor_ok_bump:
  assumes "cursor_ok src l"
  shows "cursor_ok src (bumped l)"
proof (cases "peek l")
  case None
  then show ?thesis using assms by (simp add: bump_def)
next
  case (Some c)
  then have i: "lx_index l < length src" "src ! lx_index l = c" "lx_chars l = src"
    using assms by (auto simp: peek_def cursor_ok_def opt_simps)
  have t: "take (Suc (lx_index l)) src = take (lx_index l) src @ [c]" using i by (simp add: take_Suc_conv_app_nth)
  show ?thesis
    using assms i Some
    by (auto simp: cursor_ok_def bump_def Let_def t utf8_length_snoc line_after_snoc column_after_snoc)
qed

text \<open>\<open>goes l l'\<close>: the lexer moved from \<open>l\<close> to \<open>l'\<close>, on every source.\<close>

definition goes :: "lexer \<Rightarrow> lexer \<Rightarrow> bool" where
  "goes l l' \<longleftrightarrow> (\<forall>src. cursor_ok src l \<longrightarrow> cursor_ok src l') \<and> lx_chars l' = lx_chars l \<and> lx_index l \<le> lx_index l'"

lemma goes_refl [simp]: "goes l l"
  by (simp add: goes_def)

lemma goes_trans: "goes l l' \<Longrightarrow> goes l' l'' \<Longrightarrow> goes l l''"
  by (auto simp: goes_def)

lemma goes_bump [simp]: "goes l (bumped l)"
  using cursor_ok_bump by (auto simp: goes_def bump_def Let_def split: option.split)

lemma goes_bump_eq: "bump l = (r, l') \<Longrightarrow> goes l l'"
  using goes_bump [of l] by simp

lemma goes_bump2 [simp]: "goes l (bumped (bumped l))"
  using goes_trans goes_bump by blast

lemma goes_depth [simp]: "goes l (depth_up l') \<longleftrightarrow> goes l l'" "goes l (depth_down l') \<longleftrightarrow> goes l l'"
  by (simp_all add: goes_def depth_up_def depth_down_def cursor_ok_def)

lemma goes_left: "goes l l' \<Longrightarrow> left l' \<le> left l"
  by (simp add: goes_def left_def diff_le_mono2)

lemma bump_while_goes: "goes l (snd (bump_while p l))"
proof (induction p l rule: bump_while.induct)
  case (1 p l)
  show ?case
  proof (cases "\<exists>c. peek l = Some c \<and> p c")
    case True
    then obtain c where c: "peek l = Some c" "p c" by blast
    then have "goes (bumped l) (snd (bump_while p (bumped l)))" using 1 by blast
    then have "goes l (snd (bump_while p (bumped l)))" using goes_trans goes_bump by blast
    then show ?thesis using c by (cases "bump_while p (bumped l)") (simp add: bump_while.simps [of p l])
  next
    case False
    then show ?thesis by (auto simp: bump_while.simps [of p l] split: option.split)
  qed
qed

lemma bump_while_progress:
  assumes "peek l = Some c" "p c"
  shows "left (snd (bump_while p l)) < left l"
proof -
  have "left (snd (bump_while p (bumped l))) < left l"
    using left_bump [OF assms(1)] goes_left [OF bump_while_goes [of "bumped l" p]] by simp
  then show ?thesis using assms by (cases "bump_while p (bumped l)") (simp add: bump_while.simps [of p l])
qed

subsection \<open>Errors\<close>

definition at_error :: "lexer \<Rightarrow> lex_error \<Rightarrow> bool" where
  "at_error l e \<longleftrightarrow> error_line e = lx_line l \<and> error_column e = lx_column l"

lemma at_error_at [simp]: "at_error l (error_at m l)"
  by (simp add: at_error_def error_at_def)

lemma string_loop_result:
  "case string_loop l0 value l of Inl e \<Rightarrow> at_error l0 e | Inr (k, l') \<Rightarrow> goes l l'"
proof (induction l0 "value" l rule: string_loop.induct)
  case (1 l0 val l)
  show ?case
  proof (cases "bump l")
    case (Pair r l1)
    note g1 = goes_bump_eq [OF Pair]
    show ?thesis
    proof (cases r)
      case None
      then show ?thesis using Pair by (simp add: string_loop.simps [of l0 val l])
    next
      case (Some c)
      consider "c = ch CHR 0x22" | "c = ch CHR 0x5C" | "c = 10" | "c \<noteq> ch CHR 0x22" "c \<noteq> ch CHR 0x5C" "c \<noteq> 10" by blast
      then show ?thesis
      proof cases
        case 1
        then show ?thesis using Pair Some g1 by (simp add: string_loop.simps [of l0 val l])
      next
        case c: 2
        show ?thesis
        proof (cases "bump l1")
          case b: (Pair r2 l2)
          have g2: "goes l l2" using g1 goes_bump_eq [OF b] goes_trans by blast
          show ?thesis
          proof (cases r2)
            case None
            then show ?thesis using Pair Some c b by (simp add: string_loop.simps [of l0 val l])
          next
            case e: (Some e)
            show ?thesis
            proof (cases "unescape e")
              case None
              then show ?thesis using Pair Some c b e by (simp add: string_loop.simps [of l0 val l])
            next
              case (Some v)
              then show ?thesis
                using "1.IH"(1) [of r l1 c r2 l2 e v] Pair \<open>r = Some c\<close> c b e g2 goes_trans
                by (auto simp: string_loop.simps [of l0 val l] split: sum.splits)
            qed
          qed
        qed
      next
        case 3
        then show ?thesis using Pair Some by (simp add: string_loop.simps [of l0 val l])
      next
        case 4
        then show ?thesis
          using "1.IH"(2) [of r l1 c] Pair Some g1 goes_trans
          by (auto simp: string_loop.simps [of l0 val l] split: sum.splits)
      qed
    qed
  qed
qed

subsection \<open>Readers make progress\<close>

text \<open>An error is reported where the reader started; a token moves the cursor forward.\<close>

definition reads :: "lexer \<Rightarrow> lex_error + token_kind \<times> lexer \<Rightarrow> bool" where
  "reads l r \<longleftrightarrow>
     (case r of Inl e \<Rightarrow> at_error l e | Inr (k, l') \<Rightarrow> goes l l' \<and> left l' < left l \<and> k \<noteq> Newline \<and> k \<noteq> Eof)"

lemma reads_simps [simp]:
  "reads l (Inl e) = at_error l e"
  "reads l (Inr (k, l')) = (goes l l' \<and> left l' < left l \<and> k \<noteq> Newline \<and> k \<noteq> Eof)"
  by (simp_all add: reads_def)

lemma string_loop_kind: "string_loop l0 value l = Inr (k, l') \<Longrightarrow> \<exists>t. k = StringLit t"
proof (induction l0 "value" l rule: string_loop.induct)
  case (1 l0 val l)
  then show ?case
    by (auto simp: string_loop.simps [of l0 val l] split: prod.splits option.splits if_splits)
qed

lemma goes_behind:
  assumes "peek l = Some c" "goes (bumped l) l'"
  shows "goes l l' \<and> left l' < left l"
  using goes_trans [OF goes_bump assms(2)] left_bump [OF assms(1)] goes_left [OF assms(2)] by simp

lemma reads_behind:
  assumes "peek l = Some c" "goes (bumped l) (snd r)" "fst r \<noteq> Newline" "fst r \<noteq> Eof"
  shows "reads l (Inr r)"
  using goes_behind [OF assms(1,2)] assms(3,4) by (cases r) simp

lemma string_token_reads:
  assumes "peek l = Some c"
  shows "reads l (string_token l)"
proof -
  have r: "case string_loop l [] (bumped l) of Inl e \<Rightarrow> at_error l e | Inr (k, l') \<Rightarrow> goes (bumped l) l'"
    by (rule string_loop_result)
  show ?thesis
  proof (cases "string_loop l [] (bumped l)")
    case (Inl e)
    then show ?thesis using r by (simp add: string_token_def)
  next
    case (Inr kl)
    then have "goes (bumped l) (snd kl)" using r by (cases kl) simp
    moreover have "\<exists>t. fst kl = StringLit t" using Inr string_loop_kind by (cases kl) simp
    ultimately show ?thesis using goes_behind [OF assms] Inr by (cases kl) (auto simp: string_token_def)
  qed
qed

lemma number_reads: "peek l = Some c \<Longrightarrow> is_ascii_digit c \<Longrightarrow> reads l (number l)"
  using bump_while_goes [of l] bump_while_progress [of l c]
  by (simp add: number_def Let_def split: prod.split) (metis snd_conv)

lemma identifier_reads:
  assumes "peek l = Some c" "c = ch CHR ''_'' \<or> xid_continue u c"
  shows "reads l (Inr (lex_identifier u l))"
  using bump_while_goes [of l "\<lambda>c. c = ch CHR ''_'' \<or> xid_continue u c"] bump_while_progress [OF assms(1), of "\<lambda>c. c = ch CHR ''_'' \<or> xid_continue u c"] assms(2)
  by (simp add: lex_identifier_def Let_def split: prod.split option.split) (metis snd_conv)

lemma region_reads:
  assumes "peek l = Some c"
  shows "reads l (region_name u l)"
  using left_bump [OF assms] goes_trans [OF goes_bump bump_while_goes] goes_left [OF bump_while_goes]
  by (simp add: region_name_def Let_def split: option.split prod.split) (metis le_less_trans snd_conv)

lemma take_char_goes: "take_char x l = (b, l') \<Longrightarrow> goes l l'"
  by (auto simp: take_char_def split: if_splits)

lemma either_goes: "goes l (snd (either x k1 k2 l))" "fst (either x k1 k2 l) \<in> {k1, k2}"
  by (auto simp: either_def split: prod.split bool.split dest: take_char_goes)

lemma either3_goes: "goes l (snd (either3 x k1 y k2 k3 l))" "fst (either3 x k1 y k2 k3 l) \<in> {k1, k2, k3}"
  using either_goes goes_trans
  by (auto simp: either3_def split: prod.split bool.split dest: take_char_goes)

lemma shift_like_goes:
  "goes l (snd (shift_like x k1 k2 k3 k4 l))" "fst (shift_like x k1 k2 k3 k4 l) \<in> {k1, k2, k3, k4}"
  using either_goes goes_trans
  by (auto simp: shift_like_def split: prod.split bool.split dest: take_char_goes) blast

lemma dots_reads:
  assumes "peek l = Some c"
  shows "reads l (dots l (bumped l))"
proof -
  obtain b1 l1 where t1: "take_char (ch CHR ''.'') (bumped l) = (b1, l1)" by (cases "take_char (ch CHR ''.'') (bumped l)")
  obtain b2 l2 where t2: "take_char (ch CHR ''.'') l1 = (b2, l2)" by (cases "take_char (ch CHR ''.'') l1")
  have "goes (bumped l) l1" "goes (bumped l) l2" using take_char_goes t1 t2 goes_trans by blast+
  then show ?thesis using t1 t2 goes_behind [OF assms] by (simp add: dots_def split: bool.split)
qed

lemma question_reads:
  assumes "peek l = Some c"
  shows "reads l (question l (bumped l))"
proof -
  obtain b1 l1 where t1: "take_char (ch CHR ''.'') (bumped l) = (b1, l1)" by (cases "take_char (ch CHR ''.'') (bumped l)")
  obtain b2 l2 where t2: "take_char (ch CHR 0x3F) l1 = (b2, l2)" by (cases "take_char (ch CHR 0x3F) l1")
  have "goes (bumped l) l1" "goes (bumped l) l2" using take_char_goes t1 t2 goes_trans by blast+
  then show ?thesis using t1 t2 goes_behind [OF assms] by (simp add: question_def split: bool.split)
qed

lemma reads_if: "(b \<Longrightarrow> reads l x) \<Longrightarrow> (\<not> b \<Longrightarrow> reads l y) \<Longrightarrow> reads l (if b then x else y)"
  by simp

lemma reads_either:
  assumes "peek l = Some c"
  shows "{k1, k2} \<inter> {Newline, Eof} = {} \<Longrightarrow> reads l (Inr (either x k1 k2 (bumped l)))"
    and "{k1, k2, k3} \<inter> {Newline, Eof} = {} \<Longrightarrow> reads l (Inr (either3 x k1 y k2 k3 (bumped l)))"
    and "{k1, k2, k3, k4} \<inter> {Newline, Eof} = {} \<Longrightarrow> reads l (Inr (shift_like x k1 k2 k3 k4 (bumped l)))"
  using either_goes(2) [of x k1 k2 "bumped l"] either3_goes(2) [of x k1 y k2 k3 "bumped l"]
    shift_like_goes(2) [of x k1 k2 k3 k4 "bumped l"]
  by (auto intro!: reads_behind [OF assms] either_goes either3_goes shift_like_goes)

lemma punctuation_reads:
  assumes "peek l = Some c"
  shows "reads l (punctuation l c)"
proof -
  have behind: "k \<noteq> Newline \<Longrightarrow> k \<noteq> Eof \<Longrightarrow> reads l (Inr (k, bumped l))"
    "k \<noteq> Newline \<Longrightarrow> k \<noteq> Eof \<Longrightarrow> reads l (Inr (k, depth_up (bumped l)))"
    "k \<noteq> Newline \<Longrightarrow> k \<noteq> Eof \<Longrightarrow> reads l (Inr (k, depth_down (bumped l)))" for k
    by (rule reads_behind [OF assms]; simp)+
  show ?thesis
    unfolding punctuation_def Let_def
    by (intro reads_if behind reads_either [OF assms] dots_reads [OF assms] question_reads [OF assms]) simp_all
qed

text \<open>What the lexer relies on: a character that starts an identifier also continues one.\<close>

definition xid_ok :: "unicode \<Rightarrow> bool" where
  "xid_ok u \<longleftrightarrow> (\<forall>c. xid_start u c \<longrightarrow> xid_continue u c)"

lemma next_kind_reads:
  assumes "xid_ok u" "peek l = Some c"
  shows "reads l (next_kind u l c)"
  using number_reads [OF assms(2)] string_token_reads [OF assms(2)] region_reads [OF assms(2)]
    identifier_reads [OF assms(2), of u] punctuation_reads [OF assms(2)] assms(1)
  by (auto simp: next_kind_def xid_ok_def)

subsection \<open>Tokens\<close>

definition token_at :: "chars \<Rightarrow> nat \<Rightarrow> nat \<Rightarrow> token \<Rightarrow> bool" where
  "token_at src i j t \<longleftrightarrow>
     i \<le> j \<and> j \<le> length src \<and>
     start_byte t = utf8_length (take i src) \<and> end_byte t = utf8_length (take j src) \<and>
     start_line t = line_after (take i src) \<and> end_line t = line_after (take j src) \<and>
     start_column t = column_after (take i src) \<and> end_column t = column_after (take j src)"

text \<open>The tokens up to character \<open>n\<close>: each stands for a piece of the source, one behind the other.\<close>

inductive tokens_upto :: "chars \<Rightarrow> nat \<Rightarrow> token list \<Rightarrow> bool" for src where
  none: "tokens_upto src n []"
| more: "tokens_upto src i ts \<Longrightarrow> token_at src i j t \<Longrightarrow> i < j \<Longrightarrow> kind t \<noteq> Eof \<Longrightarrow> j \<le> n \<Longrightarrow> tokens_upto src n (ts @ [t])"

lemma tokens_upto_mono: "tokens_upto src n ts \<Longrightarrow> n \<le> m \<Longrightarrow> tokens_upto src m ts"
  by (induction rule: tokens_upto.induct) (auto intro: tokens_upto.intros)

lemma token_between_at:
  assumes "cursor_ok src l" "goes l l'"
  shows "token_at src (lx_index l) (lx_index l') (token_between k l l')"
proof -
  have "cursor_ok src l'" using assms by (simp add: goes_def)
  then show ?thesis using assms by (simp add: token_at_def token_between_def cursor_ok_def goes_def)
qed

lemma left_less_index: "cursor_ok src l \<Longrightarrow> cursor_ok src l' \<Longrightarrow> left l' < left l \<Longrightarrow> lx_index l < lx_index l'"
  by (simp add: left_def cursor_ok_def)

lemma push_token:
  assumes ok: "cursor_ok src l" and ts: "tokens_upto src (lx_index l) ts" and g: "goes l l'" "left l' < left l" and k: "k \<noteq> Eof"
  shows "tokens_upto src (lx_index l') (ts @ [token_between k l l'])"
proof (rule tokens_upto.more [OF ts token_between_at [OF ok g(1)]])
  show "lx_index l < lx_index l'" using left_less_index [OF ok _ g(2)] g(1) ok by (simp add: goes_def)
qed (simp_all add: token_between_def k)

text \<open>A step that may push tokens: where it ends, or where its error lies.\<close>

definition advances :: "lexer \<Rightarrow> token list \<Rightarrow> lex_error + lexer \<times> token list \<Rightarrow> bool" where
  "advances l ts r \<longleftrightarrow>
     (case r of
        Inl e \<Rightarrow> at_error l e
      | Inr (l', ts') \<Rightarrow> goes l l' \<and> left l' < left l \<and>
          (\<forall>src. cursor_ok src l \<longrightarrow> tokens_upto src (lx_index l) ts \<longrightarrow> tokens_upto src (lx_index l') ts'))"

lemma advances_simps [simp]:
  "advances l ts (Inl e) = at_error l e"
  "advances l ts (Inr (l', ts')) = (goes l l' \<and> left l' < left l \<and>
     (\<forall>src. cursor_ok src l \<longrightarrow> tokens_upto src (lx_index l) ts \<longrightarrow> tokens_upto src (lx_index l') ts'))"
  by (simp_all add: advances_def)

lemma goes_tokens: "goes l l' \<Longrightarrow> tokens_upto src (lx_index l) ts \<Longrightarrow> tokens_upto src (lx_index l') ts"
  using tokens_upto_mono by (auto simp: goes_def)

lemma newline_advances:
  assumes "peek l = Some c"
  shows "advances l ts (Inr (logical_newline l ts))"
proof -
  have d: "goes l (bumped l)" "left (bumped l) < left l" using left_bump [OF assms] by simp_all
  have "tokens_upto src (lx_index (bumped l)) (ts @ [token_between Newline l (bumped l)])"
    if "cursor_ok src l" "tokens_upto src (lx_index l) ts" for src
    by (rule push_token [OF that d]) simp
  moreover have "tokens_upto src (lx_index (bumped l)) ts" if "tokens_upto src (lx_index l) ts" for src
    using goes_tokens [OF d(1) that] .
  ultimately show ?thesis using d by (simp add: logical_newline_def Let_def)
qed

lemma comment_advances:
  assumes "goes l0 l" "left l < left l0"
    and "\<forall>src. cursor_ok src l0 \<longrightarrow> tokens_upto src (lx_index l0) ts0 \<longrightarrow> tokens_upto src (lx_index l) ts"
  shows "advances l0 ts0 (comment_loop l0 depth l ts)"
  using assms
proof (induction l0 depth l ts rule: comment_loop.induct)
  case (1 l0 depth l ts)
  note unfold = comment_loop.simps [of l0 depth l ts]
  show ?case
  proof (cases "peek l")
    case None
    then show ?thesis by (simp add: unfold)
  next
    case (Some c)
    have ok: "cursor_ok src l0 \<Longrightarrow> cursor_ok src l" for src using "1.prems"(1) by (simp add: goes_def)
    have two: "goes l0 (bumped (bumped l))" "left (bumped (bumped l)) < left l0"
      "\<forall>src. cursor_ok src l0 \<longrightarrow> tokens_upto src (lx_index l0) ts0 \<longrightarrow> tokens_upto src (lx_index (bumped (bumped l))) ts"
      using goes_trans [OF "1.prems"(1) goes_bump2] goes_left [OF goes_bump2 [of l]] "1.prems"(2,3)
        goes_tokens [OF goes_bump2 [of l]] by auto
    have one: "goes l0 (bumped l)" "left (bumped l) < left l0"
      "\<forall>src. cursor_ok src l0 \<longrightarrow> tokens_upto src (lx_index l0) ts0 \<longrightarrow> tokens_upto src (lx_index (bumped l)) ts"
      using goes_trans [OF "1.prems"(1) goes_bump] goes_left [OF goes_bump [of l]] "1.prems"(2,3)
        goes_tokens [OF goes_bump [of l]] by auto
    consider "c = ch CHR ''/'' \<and> peek_next l = Some (ch CHR ''*'')"
      | "c = ch CHR ''*'' \<and> peek_next l = Some (ch CHR ''/'')" "depth - 1 = 0"
      | "c = ch CHR ''*'' \<and> peek_next l = Some (ch CHR ''/'')" "depth - 1 \<noteq> 0"
      | "c = 10"
      | "\<not> (c = ch CHR ''/'' \<and> peek_next l = Some (ch CHR ''*''))"
        "\<not> (c = ch CHR ''*'' \<and> peek_next l = Some (ch CHR ''/''))" "c \<noteq> 10" by blast
    then show ?thesis
    proof cases
      case 1
      then show ?thesis using "1.IH"(1) [OF Some 1 two] Some by (simp add: unfold)
    next
      case 2
      then show ?thesis using two Some by (simp add: unfold)
    next
      case 3
      then show ?thesis using "1.IH"(2) [OF Some _ 3 two] Some by (simp add: unfold)
    next
      case 4
      obtain l' ts' where n: "logical_newline l ts = (l', ts')" by (cases "logical_newline l ts")
      have adv: "advances l ts (Inr (l', ts'))" using newline_advances [OF Some, of ts] n by simp
      have "goes l0 l'" "left l' < left l0" using adv "1.prems"(1,2) goes_trans by auto
      moreover have "\<forall>src. cursor_ok src l0 \<longrightarrow> tokens_upto src (lx_index l0) ts0 \<longrightarrow> tokens_upto src (lx_index l') ts'"
        using adv "1.prems"(3) ok by simp
      ultimately show ?thesis using "1.IH"(3) [OF Some _ _ 4 n [symmetric]] 4 Some n by (simp add: unfold)
    next
      case 5
      then show ?thesis using "1.IH"(4) [OF Some 5 one] Some 5 unfolding unfold by auto
    qed
  qed
qed

lemma step_advances:
  assumes u: "xid_ok u" and p: "peek l = Some c"
  shows "advances l ts (lex_step u l ts c)"
proof -
  have skip: "goes l l' \<Longrightarrow> left l' < left l \<Longrightarrow> advances l ts (Inr (l', ts))" for l'
    using goes_tokens by simp
  have bumped: "advances l ts (Inr (bumped l, ts))" by (rule skip) (simp_all add: left_bump [OF p])
  have line: "c = ch CHR ''/'' \<Longrightarrow> advances l ts (Inr (snd (bump_while (\<lambda>c. c \<noteq> 10) l), ts))"
    by (rule skip) (auto intro: bump_while_goes bump_while_progress [OF p])
  have comment: "advances l ts (block_comment l ts)"
  proof -
    have g: "goes l (bumped (bumped l))" "left (bumped (bumped l)) < left l"
      using left_bump [OF p] goes_left [OF goes_bump [of "bumped l"]] by simp_all
    show ?thesis unfolding block_comment_def
      by (rule comment_advances [OF g]) (use goes_tokens [OF g(1)] in blast)
  qed
  have token: "advances l ts (case next_kind u l c of Inl e \<Rightarrow> Inl e
      | Inr (k, l') \<Rightarrow> Inr (l', ts @ [token_between k l l']))"
    using next_kind_reads [OF u p] push_token by (auto split: sum.split)
  show ?thesis
    using newline_advances [OF p, of ts] bumped line comment token by (simp add: lex_step_def)
qed

subsection \<open>The whole source\<close>

text \<open>What a result says of the source.\<close>

definition positions_ok :: "chars \<Rightarrow> lex_error + token list \<Rightarrow> bool" where
  "positions_ok src r \<longleftrightarrow>
     (case r of
        Inl e \<Rightarrow> \<exists>i \<le> length src. error_line e = line_after (take i src) \<and> error_column e = column_after (take i src)
      | Inr ts \<Rightarrow> \<exists>body eof. ts = body @ [eof] \<and> tokens_upto src (length src) body \<and> kind eof = Eof \<and>
          token_at src (length src) (length src) eof)"

lemma lex_run_ok:
  assumes u: "xid_ok u" and "cursor_ok src l" "tokens_upto src (lx_index l) ts"
  shows "\<exists>r. lex_run u l ts = Some r \<and> positions_ok src r"
  using assms(2,3)
proof (induction "left l" arbitrary: l ts rule: less_induct)
  case less
  show ?case
  proof (cases "peek l")
    case None
    then have "lx_index l = length src" using less.prems(1) by (auto simp: peek_def cursor_ok_def opt_simps)
    moreover have "token_at src (lx_index l) (lx_index l) (token_between Eof l l)"
      by (rule token_between_at [OF less.prems(1) goes_refl])
    ultimately have "positions_ok src (Inr (ts @ [token_between Eof l l]))"
      using less.prems(2) by (auto simp: positions_ok_def token_between_def)
    then show ?thesis using None by (simp add: lex_run.simps [of u l ts])
  next
    case (Some c)
    note adv = step_advances [OF u Some, of ts]
    show ?thesis
    proof (cases "lex_step u l ts c")
      case (Inl e)
      then have "positions_ok src (Inl e)"
        using adv less.prems(1) by (auto simp: positions_ok_def at_error_def cursor_ok_def)
      then show ?thesis using Some Inl by (simp add: lex_run.simps [of u l ts])
    next
      case (Inr r)
      obtain l' ts' where r: "r = (l', ts')" by (cases r)
      have g: "goes l l'" "left l' < left l" "tokens_upto src (lx_index l') ts'"
        using adv Inr r less.prems by auto
      have "cursor_ok src l'" using g(1) less.prems(1) by (simp add: goes_def)
      then show ?thesis using less.hyps [OF g(2) _ g(3)] Some Inr r by (simp add: lex_run.simps [of u l ts])
    qed
  qed
qed

lemma lex_ok: "xid_ok u \<Longrightarrow> \<exists>r. lex u src = Some r \<and> positions_ok src r"
  unfolding lex_def by (rule lex_run_ok [OF _ cursor_ok_new tokens_upto.none])

end
