(* ===== verification/Lexer_Roundtrip.thy ===== *)
theory Lexer_Roundtrip
  imports Lexer_Positions
begin

text \<open>
  Printing and lexing: \<open>spell\<close> writes a token the way the language writes it, and the lexer of
  \<open>compiler/src/lexer.rs\<close> reads any sequence of printed tokens, separated by spaces, back.
\<close>

subsection \<open>The rest of the source\<close>

definition rest :: "lexer \<Rightarrow> chars" where
  "rest l = drop (lx_index l) (lx_chars l)"

lemma peek_rest: "peek l = (case rest l of [] \<Rightarrow> None | c # cs \<Rightarrow> Some c)"
  by (auto simp: peek_def rest_def nth_opt_def hd_drop_conv_nth [symmetric] split: list.split)

lemma rest_bump [simp]: "rest (bumped l) = tl (rest l)"
proof (cases "lx_index l < length (lx_chars l)")
  case True
  then show ?thesis by (simp add: rest_def bump_def peek_def Let_def drop_Suc tl_drop)
next
  case False
  then show ?thesis by (simp add: rest_def bump_def peek_def)
qed

lemma peek_next_rest: "peek_next l = peek (bumped l)"
proof (cases "lx_index l < length (lx_chars l)")
  case True
  then show ?thesis by (simp add: peek_next_def bump_def peek_def Let_def)
next
  case False
  then show ?thesis by (simp add: peek_next_def bump_def peek_def)
qed

lemma rest_depth [simp]: "rest (depth_up l) = rest l" "rest (depth_down l) = rest l"
  by (simp_all add: rest_def depth_up_def depth_down_def)

lemma peek_Cons [simp]: "rest l = c # cs \<Longrightarrow> peek l = Some c"
  by (simp add: peek_rest)

lemma peek_Nil [simp]: "rest l = [] \<Longrightarrow> peek l = None"
  by (simp add: peek_rest)

lemma bump_while_rest:
  "fst (bump_while p l) = takeWhile p (rest l)" "rest (snd (bump_while p l)) = dropWhile p (rest l)"
proof (induction p l rule: bump_while.induct)
  case (1 p l)
  have "fst (bump_while p l) = takeWhile p (rest l) \<and> rest (snd (bump_while p l)) = dropWhile p (rest l)"
  proof (cases "rest l")
    case Nil
    then show ?thesis by (simp add: bump_while.simps [of p l])
  next
    case (Cons c cs)
    then show ?thesis using 1 by (cases "bump_while p (bumped l)") (simp add: bump_while.simps [of p l])
  qed
  then show "fst (bump_while p l) = takeWhile p (rest l)" "rest (snd (bump_while p l)) = dropWhile p (rest l)" by auto
qed

lemma take_char_rest:
  "take_char x l = (case rest l of c # cs \<Rightarrow> if c = x then (True, bumped l) else (False, l) | [] \<Rightarrow> (False, l))"
  by (simp add: take_char_def peek_rest split: list.split)

subsection \<open>Spelling\<close>

definition escape :: "code_point \<Rightarrow> chars" where
  "escape c =
     (if c = ch CHR 0x22 then [ch CHR 0x5C, ch CHR 0x22]
      else if c = ch CHR 0x5C then [ch CHR 0x5C, ch CHR 0x5C]
      else if c = 10 then [ch CHR 0x5C, ch CHR ''n'']
      else [c])"

fun spell_word :: "keyword_token \<Rightarrow> chars" where
  "spell_word KLet = lit ''let''"
| "spell_word KPub = lit ''pub''"
| "spell_word KPackage = lit ''package''"
| "spell_word KRoot = lit ''root''"
| "spell_word KSuper = lit ''super''"
| "spell_word KExtend = lit ''extend''"
| "spell_word KStruct = lit ''struct''"
| "spell_word KEnum = lit ''enum''"
| "spell_word KTrait = lit ''trait''"
| "spell_word KWhere = lit ''where''"
| "spell_word KTrue = lit ''true''"
| "spell_word KFalse = lit ''false''"

fun spell_delim :: "delimiter \<Rightarrow> chars" where
  "spell_delim LParen = lit ''(''"
| "spell_delim RParen = lit '')''"
| "spell_delim LBracket = lit ''[''"
| "spell_delim RBracket = lit '']''"
| "spell_delim LBrace = lit ''{''"
| "spell_delim RBrace = lit ''}''"
| "spell_delim Colon = lit '':''"
| "spell_delim Dot = lit ''.''"
| "spell_delim Ellipsis = lit ''...''"
| "spell_delim Comma = lit '',''"
| "spell_delim Semicolon = lit '';''"

fun spell_arith :: "arith_op \<Rightarrow> chars" where
  "spell_arith Arrow = lit ''->''"
| "spell_arith FatArrow = lit ''=>''"
| "spell_arith Equal = lit ''=''"
| "spell_arith EqualEqual = lit ''==''"
| "spell_arith Bang = lit ''!''"
| "spell_arith BangEqual = lit ''!=''"
| "spell_arith Plus = lit ''+''"
| "spell_arith PlusEqual = lit ''+=''"
| "spell_arith Minus = lit ''-''"
| "spell_arith MinusEqual = lit ''-=''"
| "spell_arith Star = lit ''*''"
| "spell_arith StarEqual = lit ''*=''"
| "spell_arith Slash = lit ''/''"
| "spell_arith SlashEqual = lit ''/=''"
| "spell_arith Percent = lit ''%''"
| "spell_arith PercentEqual = lit ''%=''"

fun spell_bit :: "bit_op \<Rightarrow> chars" where
  "spell_bit Less = lit ''<''"
| "spell_bit LessEqual = lit ''<=''"
| "spell_bit Greater = lit ''>''"
| "spell_bit GreaterEqual = lit ''>=''"
| "spell_bit AndAnd = lit ''&&''"
| "spell_bit OrOr = lit ''||''"
| "spell_bit Amp = lit ''&''"
| "spell_bit AmpEqual = lit ''&=''"
| "spell_bit Pipe = lit ''|''"
| "spell_bit PipeEqual = lit ''|=''"
| "spell_bit Caret = lit ''^''"
| "spell_bit CaretEqual = lit ''^=''"
| "spell_bit Shl = lit ''<<''"
| "spell_bit ShlEqual = lit ''<<=''"
| "spell_bit Shr = lit ''>>''"
| "spell_bit ShrEqual = lit ''>>=''"
| "spell_bit QuestionDot = lit ''?.''"
| "spell_bit QuestionQuestion = lit ''??''"

fun spell :: "token_kind \<Rightarrow> chars" where
  "spell (Word k) = spell_word k"
| "spell (Ident t) = t"
| "spell (RegionName t) = ch CHR 0x27 # t"
| "spell (StringLit t) = ch CHR 0x22 # concat (map escape t) @ [ch CHR 0x22]"
| "spell (Integer n) = decimal (uint n)"
| "spell (Delim d) = spell_delim d"
| "spell (Arith a) = spell_arith a"
| "spell (BitOp b) = spell_bit b"
| "spell _ = []"

text \<open>What is used of the Unicode tables: ASCII is as documented, and white space is in no name.\<close>

definition is_letter :: "code_point \<Rightarrow> bool" where
  "is_letter c \<longleftrightarrow> (65 \<le> c \<and> c \<le> 90) \<or> (97 \<le> c \<and> c \<le> 122)"

definition unicode_ok :: "unicode \<Rightarrow> bool" where
  "unicode_ok u \<longleftrightarrow>
     xid_ok u \<and>
     (\<forall>c. 0 \<le> c \<longrightarrow> c < 128 \<longrightarrow> xid_start u c = is_letter c) \<and>
     (\<forall>c. 0 \<le> c \<longrightarrow> c < 128 \<longrightarrow> xid_continue u c = (is_letter c \<or> is_ascii_digit c \<or> c = ch CHR ''_'')) \<and>
     (\<forall>c. xid_continue u c \<longrightarrow> 0 \<le> c \<and> \<not> is_whitespace c) \<and>
     (\<forall>t. (\<forall>c \<in> set t. 0 \<le> c \<and> c < 128) \<longrightarrow> nfc u t = t)"

text \<open>Names that survive: identifier characters in normal form.\<close>

definition name_ok :: "unicode \<Rightarrow> chars \<Rightarrow> bool" where
  "name_ok u t \<longleftrightarrow> t \<noteq> [] \<and> (hd t = ch CHR ''_'' \<or> xid_start u (hd t)) \<and>
     (\<forall>c \<in> set t. c = ch CHR ''_'' \<or> xid_continue u c) \<and> nfc u t = t"

fun printable :: "unicode \<Rightarrow> token_kind \<Rightarrow> bool" where
  "printable u (Ident t) \<longleftrightarrow> name_ok u t \<and> keyword t = None"
| "printable u (RegionName t) \<longleftrightarrow> name_ok u t"
| "printable u (Contextual c) \<longleftrightarrow> False"
| "printable u Newline \<longleftrightarrow> False"
| "printable u Eof \<longleftrightarrow> False"
| "printable u _ \<longleftrightarrow> True"

subsection \<open>Reading one token back\<close>

text \<open>\<open>reads_back u k\<close>: before a space, the spelling of \<open>k\<close> is read as \<open>k\<close> and nothing more.\<close>

definition reads_back :: "unicode \<Rightarrow> token_kind \<Rightarrow> bool" where
  "reads_back u k \<longleftrightarrow>
     (\<forall>l cs. rest l = spell k @ 32 # cs \<longrightarrow>
        (\<exists>c l'. peek l = Some c \<and> \<not> is_whitespace c \<and> c \<noteq> 10 \<and>
           \<not> (c = ch CHR ''/'' \<and> (peek_next l = Some (ch CHR ''/'') \<or> peek_next l = Some (ch CHR ''*''))) \<and>
           next_kind u l c = Inr (k, l') \<and> rest l' = 32 # cs))"

lemma takeWhile_block: "\<forall>c \<in> set xs. P c \<Longrightarrow> \<not> P y \<Longrightarrow> takeWhile P (xs @ y # ys) = xs"
  by (simp add: takeWhile_tail)

lemma dropWhile_block: "\<forall>c \<in> set xs. P c \<Longrightarrow> \<not> P y \<Longrightarrow> dropWhile P (xs @ y # ys) = y # ys"
  by (induction xs) simp_all

lemma integer_reads_back: "reads_back u (Integer n)"
  unfolding reads_back_def
proof (intro allI impI)
  fix l cs assume r: "rest l = spell (Integer n) @ 32 # cs"
  have n: "0 \<le> uint n" "uint n < 2 ^ 128" using uint_lt2p [of n] by simp_all
  let ?P = "\<lambda>c. is_ascii_digit c \<or> c = ch CHR ''_''"
  have all: "\<forall>c \<in> set (decimal (uint n)). ?P c" using decimal_digits [OF n(1)] by blast
  have sp: "\<not> ?P 32" by (simp add: is_ascii_digit_def)
  obtain c ds where c: "decimal (uint n) = c # ds" "is_ascii_digit c" using hd_decimal [OF n(1)] by blast
  obtain l' where l': "bump_while ?P l = (decimal (uint n), l')" "rest l' = 32 # cs"
    using bump_while_rest [of ?P l] r takeWhile_block [OF all sp] dropWhile_block [OF all sp]
    by (cases "bump_while ?P l") simp
  have "filter (\<lambda>c. c \<noteq> ch CHR ''_'') (decimal (uint n)) = decimal (uint n)"
    using decimal_digits [OF n(1)] by (auto simp: filter_id_conv is_ascii_digit_def)
  then have "number l = Inr (Integer n, l')"
    using l'(1) n(2) digits_value_decimal [OF n(1)] by (simp add: number_def Let_def)
  moreover have "peek l = Some c" using r c(1) by (simp add: peek_rest)
  ultimately show "\<exists>c l'. peek l = Some c \<and> \<not> is_whitespace c \<and> c \<noteq> 10 \<and>
           \<not> (c = ch CHR ''/'' \<and> (peek_next l = Some (ch CHR ''/'') \<or> peek_next l = Some (ch CHR ''*''))) \<and>
           next_kind u l c = Inr (Integer n, l') \<and> rest l' = 32 # cs"
    using c(2) l'(2) by (auto simp: next_kind_def is_ascii_digit_def is_whitespace_def)
qed

text \<open>A name before a space: the loop over identifier characters stops behind it.\<close>

lemma name_chars:
  assumes u: "unicode_ok u" and t: "name_ok u t" and r: "rest l = t @ 32 # cs"
  shows "\<exists>l'. bump_while (\<lambda>c. c = ch CHR ''_'' \<or> xid_continue u c) l = (t, l') \<and> rest l' = 32 # cs"
proof -
  let ?P = "\<lambda>c. c = ch CHR ''_'' \<or> xid_continue u c"
  have all: "\<forall>c \<in> set t. ?P c" using t by (simp add: name_ok_def)
  have sp: "\<not> ?P 32" using u by (auto simp: unicode_ok_def is_whitespace_def is_letter_def is_ascii_digit_def)
  show ?thesis
    using bump_while_rest [of ?P l] r takeWhile_block [OF all sp] dropWhile_block [OF all sp]
    by (cases "bump_while ?P l") simp
qed

text \<open>The first character of a name is none of the others the lexer tests for.\<close>

lemma name_start:
  assumes u: "unicode_ok u" and c: "c = ch CHR ''_'' \<or> xid_start u c"
  shows "\<not> is_whitespace c" "c \<noteq> 10" "c \<noteq> ch CHR ''/''" "\<not> is_ascii_digit c" "c \<noteq> ch CHR 0x22" "c \<noteq> ch CHR 0x27"
proof -
  have "c = ch CHR ''_'' \<or> is_letter c \<or> (128 \<le> c \<and> \<not> is_whitespace c)"
    using assms unfolding unicode_ok_def xid_ok_def by (metis not_le)
  then show "\<not> is_whitespace c" "c \<noteq> 10" "c \<noteq> ch CHR ''/''" "\<not> is_ascii_digit c" "c \<noteq> ch CHR 0x22" "c \<noteq> ch CHR 0x27"
    by (auto simp: is_whitespace_def is_letter_def is_ascii_digit_def)
qed

lemma name_reads:
  assumes u: "unicode_ok u" and t: "name_ok u t" and r: "rest l = t @ 32 # cs"
  shows "\<exists>c l'. peek l = Some c \<and> \<not> is_whitespace c \<and> c \<noteq> 10 \<and> c \<noteq> ch CHR ''/'' \<and>
    next_kind u l c = Inr (case keyword t of Some k \<Rightarrow> Word k | None \<Rightarrow> Ident t, l') \<and> rest l' = 32 # cs"
proof -
  obtain l' where l': "bump_while (\<lambda>c. c = ch CHR ''_'' \<or> xid_continue u c) l = (t, l')" "rest l' = 32 # cs"
    using name_chars [OF assms] by blast
  obtain c ds where c: "t = c # ds" "c = ch CHR ''_'' \<or> xid_start u c" using t by (cases t) (auto simp: name_ok_def)
  note st = name_start [OF u c(2)]
  have "nfc u t = t" using t by (simp add: name_ok_def)
  then have "next_kind u l c = Inr (case keyword t of Some k \<Rightarrow> Word k | None \<Rightarrow> Ident t, l')"
    using st c(2) l'(1) by (simp add: next_kind_def lex_identifier_def)
  moreover have "peek l = Some c" using r c(1) by simp
  ultimately show ?thesis using st l'(2) by blast
qed

lemma ident_reads_back:
  assumes "unicode_ok u" "name_ok u t" "keyword t = None"
  shows "reads_back u (Ident t)"
  using name_reads [OF assms(1,2)] assms(3) by (fastforce simp: reads_back_def)

lemma spell_word_name: "unicode_ok u \<Longrightarrow> name_ok u (spell_word k)"
  by (cases k) (simp_all add: name_ok_def lit_def unicode_ok_def is_letter_def)

lemma keyword_spell: "keyword (spell_word k) = Some k"
  by (cases k) (simp_all add: keyword_def keyword_table_def lit_def)

lemma word_reads_back: "unicode_ok u \<Longrightarrow> reads_back u (Word k)"
  using name_reads [of u "spell_word k"] spell_word_name [of u k] keyword_spell [of k] by (fastforce simp: reads_back_def)

lemma region_reads_back:
  assumes u: "unicode_ok u" and t: "name_ok u t"
  shows "reads_back u (RegionName t)"
  unfolding reads_back_def
proof (intro allI impI)
  fix l cs assume r: "rest l = spell (RegionName t) @ 32 # cs"
  then have r1: "rest (bumped l) = t @ 32 # cs" and p: "peek l = Some (ch CHR 0x27)" by simp_all
  obtain l' where l': "bump_while (\<lambda>c. c = ch CHR ''_'' \<or> xid_continue u c) (bumped l) = (t, l')" "rest l' = 32 # cs"
    using name_chars [OF u t r1] by blast
  obtain c ds where c: "t = c # ds" "c = ch CHR ''_'' \<or> xid_start u c" using t by (cases t) (auto simp: name_ok_def)
  have "peek (bumped l) = Some c" using r1 c(1) by (simp add: peek_rest)
  then have "region_name u l = Inr (RegionName t, l')"
    using c(2) l'(1) t by (auto simp: region_name_def Let_def name_ok_def)
  then show "\<exists>c l'. peek l = Some c \<and> \<not> is_whitespace c \<and> c \<noteq> 10 \<and>
           \<not> (c = ch CHR ''/'' \<and> (peek_next l = Some (ch CHR ''/'') \<or> peek_next l = Some (ch CHR ''*''))) \<and>
           next_kind u l c = Inr (RegionName t, l') \<and> rest l' = 32 # cs"
    using p l'(2) by (auto simp: next_kind_def is_ascii_digit_def is_whitespace_def)
qed

lemma bump_Cons:
  assumes "rest l = c # cs"
  obtains l' where "bump l = (Some c, l')" "rest l' = cs"
  using assms rest_bump [of l] that [of "bumped l"] by (simp add: bump_def)

lemma string_loop_reads:
  "rest l = concat (map escape t) @ ch CHR 0x22 # cs \<Longrightarrow>
   \<exists>l'. string_loop l0 value l = Inr (StringLit (value @ t), l') \<and> rest l' = cs"
proof (induction t arbitrary: "value" l)
  case Nil
  then have "rest l = ch CHR 0x22 # cs" by simp
  then obtain l' where "bump l = (Some (ch CHR 0x22), l')" "rest l' = cs" by (rule bump_Cons)
  then show ?case by (simp add: string_loop.simps [of l0 "value" l])
next
  case (Cons c t)
  show ?case
  proof (cases "c = ch CHR 0x22 \<or> c = ch CHR 0x5C \<or> c = 10")
    case False
    then have "escape c = [c]" by (simp add: escape_def)
    then have r: "rest l = c # concat (map escape t) @ ch CHR 0x22 # cs" using Cons.prems by simp
    obtain l1 where "bump l = (Some c, l1)" "rest l1 = concat (map escape t) @ ch CHR 0x22 # cs" using r by (rule bump_Cons)
    then show ?thesis
      using Cons.IH [of l1 "value @ [c]"] False by (simp add: string_loop.simps [of l0 "value" l])
  next
    case True
    then obtain e where e: "escape c = [ch CHR 0x5C, e]" "unescape e = Some c" by (auto simp: escape_def unescape_def)
    then have r: "rest l = ch CHR 0x5C # e # concat (map escape t) @ ch CHR 0x22 # cs" using Cons.prems by simp
    obtain l1 where l1: "bump l = (Some (ch CHR 0x5C), l1)" "rest l1 = e # concat (map escape t) @ ch CHR 0x22 # cs"
      using r by (rule bump_Cons)
    obtain l2 where "bump l1 = (Some e, l2)" "rest l2 = concat (map escape t) @ ch CHR 0x22 # cs"
      using l1(2) by (rule bump_Cons)
    then show ?thesis
      using Cons.IH [of l2 "value @ [c]"] l1(1) e(2) by (simp add: string_loop.simps [of l0 "value" l])
  qed
qed

lemma string_reads_back: "reads_back u (StringLit t)"
  unfolding reads_back_def
proof (intro allI impI)
  fix l cs assume r: "rest l = spell (StringLit t) @ 32 # cs"
  then have p: "peek l = Some (ch CHR 0x22)" and r1: "rest (bumped l) = concat (map escape t) @ ch CHR 0x22 # 32 # cs"
    by simp_all
  obtain l' where l': "string_token l = Inr (StringLit t, l')" "rest l' = 32 # cs"
    using string_loop_reads [OF r1, of l "[]"] by (auto simp: string_token_def)
  then show "\<exists>c l'. peek l = Some c \<and> \<not> is_whitespace c \<and> c \<noteq> 10 \<and>
           \<not> (c = ch CHR ''/'' \<and> (peek_next l = Some (ch CHR ''/'') \<or> peek_next l = Some (ch CHR ''*''))) \<and>
           next_kind u l c = Inr (StringLit t, l') \<and> rest l' = 32 # cs"
    using p by (auto simp: next_kind_def is_ascii_digit_def is_whitespace_def)
qed

text \<open>Punctuation: its first character is no name, and the characters behind it decide.\<close>

lemma punctuation_kind:
  assumes "unicode_ok u" "0 \<le> c" "c < 128" "\<not> is_letter c" "\<not> is_ascii_digit c" "c \<noteq> ch CHR 0x22" "c \<noteq> ch CHR 0x27" "c \<noteq> ch CHR ''_''"
  shows "next_kind u l c = punctuation l c"
  using assms by (simp add: next_kind_def unicode_ok_def)

lemma delim_reads_back:
  assumes u: "unicode_ok u"
  shows "reads_back u (Delim d)"
  unfolding reads_back_def
  by (cases d)
    (auto simp: lit_def is_whitespace_def punctuation_kind [OF u] is_letter_def is_ascii_digit_def punctuation_def
      Let_def dots_def take_char_rest)

lemma arith_reads_back:
  assumes u: "unicode_ok u"
  shows "reads_back u (Arith a)"
  unfolding reads_back_def
  by (cases a)
    (auto simp: lit_def is_whitespace_def punctuation_kind [OF u] is_letter_def is_ascii_digit_def punctuation_def
      Let_def either_def either3_def take_char_rest peek_next_rest peek_rest)

lemma bit_reads_back:
  assumes u: "unicode_ok u"
  shows "reads_back u (BitOp b)"
  unfolding reads_back_def
  by (cases b)
    (auto simp: lit_def is_whitespace_def punctuation_kind [OF u] is_letter_def is_ascii_digit_def punctuation_def
      Let_def either_def either3_def shift_like_def question_def take_char_rest)

lemma printable_reads_back: "unicode_ok u \<Longrightarrow> printable u k \<Longrightarrow> reads_back u k"
  by (cases k) (auto intro: ident_reads_back word_reads_back region_reads_back string_reads_back integer_reads_back
      delim_reads_back arith_reads_back bit_reads_back)

subsection \<open>Reading a sequence back\<close>

definition print :: "token_kind list \<Rightarrow> chars" where
  "print ks = concat (map (\<lambda>k. spell k @ [32]) ks)"

lemma step_space:
  assumes "rest l = 32 # cs"
  shows "lex_run u l ts = lex_run u (bumped l) ts" "rest (bumped l) = cs"
  using assms by (simp_all add: lex_run.simps [of u l ts] lex_step_def is_whitespace_def)

lemma step_printed:
  assumes "reads_back u k" "rest l = spell k @ 32 # cs"
  shows "\<exists>l' t. lex_run u l ts = lex_run u l' (ts @ [t]) \<and> kind t = k \<and> rest l' = cs"
proof -
  obtain c l' where c: "peek l = Some c" "\<not> is_whitespace c" "c \<noteq> 10"
    "\<not> (c = ch CHR ''/'' \<and> (peek_next l = Some (ch CHR ''/'') \<or> peek_next l = Some (ch CHR ''*'')))"
    "next_kind u l c = Inr (k, l')" "rest l' = 32 # cs"
    using assms unfolding reads_back_def by blast
  have "lex_step u l ts c = Inr (l', ts @ [token_between k l l'])"
    using c by (auto simp: lex_step_def)
  then have "lex_run u l ts = lex_run u l' (ts @ [token_between k l l'])"
    using c(1) by (simp add: lex_run.simps [of u l ts])
  moreover have "kind (token_between k l l') = k" by (simp add: token_between_def)
  ultimately show ?thesis using step_space [OF c(6)] by metis
qed

lemma run_printed:
  assumes "unicode_ok u" "\<forall>k \<in> set ks. printable u k" "rest l = print ks"
  shows "\<exists>ts'. lex_run u l ts = Some (Inr (ts @ ts')) \<and> map kind ts' = ks @ [Eof]"
  using assms(2,3)
proof (induction ks arbitrary: l ts)
  case Nil
  then show ?case by (simp add: print_def lex_run.simps [of u l ts] token_between_def)
next
  case (Cons k ks)
  have r: "rest l = spell k @ 32 # print ks" using Cons.prems by (simp add: print_def)
  obtain l' t where l': "lex_run u l ts = lex_run u l' (ts @ [t])" "kind t = k" "rest l' = print ks"
    using step_printed [OF printable_reads_back [OF assms(1)] r] Cons.prems(1) by fastforce
  then show ?case using Cons.IH [of l' "ts @ [t]"] Cons.prems(1) by fastforce
qed

lemma lex_printed:
  assumes "unicode_ok u" "\<forall>k \<in> set ks. printable u k"
  shows "\<exists>ts. lex u (print ks) = Some (Inr ts) \<and> map kind ts = ks @ [Eof]"
  using run_printed [OF assms, of "lexer_new (print ks)" "[]"] by (simp add: lex_def rest_def lexer_new_def)

end
