(* ===== verification/Lexer_Newlines.thy ===== *)
theory Lexer_Newlines
  imports Lexer_Roundtrip
begin

text \<open>
  Where a line of the source ends a statement: the \<open>Newline\<close> tokens of \<open>compiler/src/lexer.rs\<close>,
  against a specification on the kinds of the tokens alone.
\<close>

subsection \<open>The specification\<close>

text \<open>The nesting of round and square brackets behind a token; it never goes below zero.\<close>

fun nesting :: "token_kind \<Rightarrow> nat \<Rightarrow> nat" where
  "nesting (Delim d) n =
     (if d = LParen \<or> d = LBracket then n + 1 else if d = RParen \<or> d = RBracket then n - 1 else n)"
| "nesting _ n = n"

text \<open>
  A line goes on behind a token that asks for an operand.  A run of \<open>!\<close> is postfix behind an
  operand and prefix elsewhere.
\<close>

definition goes_on :: "token_kind list \<Rightarrow> bool" where
  "goes_on ks \<longleftrightarrow>
     (let before = rev (dropWhile (\<lambda>k. k = Arith Bang) (rev ks)) in
      if before = ks then ks \<noteq> [] \<and> continues (last ks)
      else before = [] \<or> \<not> ends_operand (last before))"

text \<open>The tokens of lines: a newline ends a statement outside brackets when the line does not go on.\<close>

fun with_newlines :: "token_kind list \<Rightarrow> nat \<Rightarrow> token_kind list list \<Rightarrow> token_kind list" where
  "with_newlines ks n [] = ks"
| "with_newlines ks n (line # lines) =
     (let ks = ks @ line; n = fold nesting line n
      in with_newlines (if n = 0 \<and> \<not> goes_on ks then ks @ [Newline] else ks) n lines)"

definition print_lines :: "token_kind list list \<Rightarrow> chars" where
  "print_lines lines = concat (map (\<lambda>line. print line @ [10]) lines)"

subsection \<open>The nesting counter\<close>

lemma depth_bump [simp]: "delimiter_depth (bumped l) = delimiter_depth l"
  by (simp add: bump_def Let_def split: option.split)

lemma depth_bump_eq: "bump l = (r, l') \<Longrightarrow> delimiter_depth l' = delimiter_depth l"
  using depth_bump [of l] by simp

lemma depth_bump_while: "delimiter_depth (snd (bump_while p l)) = delimiter_depth l"
proof (induction p l rule: bump_while.induct)
  case (1 p l)
  then show ?case
    by (cases "bump_while p (bumped l)") (auto simp: bump_while.simps [of p l] split: option.split)
qed

lemma depth_string_loop: "string_loop l0 value l = Inr (k, l') \<Longrightarrow> delimiter_depth l' = delimiter_depth l"
proof (induction l0 "value" l rule: string_loop.induct)
  case (1 l0 val l)
  then show ?case
    by (auto simp: string_loop.simps [of l0 val l] dest!: depth_bump_eq split: prod.splits option.splits if_splits)
qed

lemma depth_updates [simp]:
  "delimiter_depth (depth_up l) = delimiter_depth l + 1" "delimiter_depth (depth_down l) = delimiter_depth l - 1"
  by (simp_all add: depth_up_def depth_down_def)

lemma depth_take_char [simp]: "delimiter_depth (snd (take_char x l)) = delimiter_depth l"
  by (simp add: take_char_def)

text \<open>A reader leaves the counter at the nesting behind its token.\<close>

definition tracks :: "nat \<Rightarrow> lex_error + token_kind \<times> lexer \<Rightarrow> bool" where
  "tracks n r \<longleftrightarrow> (case r of Inl e \<Rightarrow> True | Inr (k, l') \<Rightarrow> delimiter_depth l' = nesting k n)"

lemma tracks_simps [simp]:
  "tracks n (Inl e)" "tracks n (Inr (k, l')) \<longleftrightarrow> delimiter_depth l' = nesting k n"
  by (simp_all add: tracks_def)

lemma tracks_if: "tracks n x \<Longrightarrow> tracks n y \<Longrightarrow> tracks n (if b then x else y)"
  by simp

lemma depth_choices [simp]:
  "delimiter_depth (snd (either x k1 k2 l)) = delimiter_depth l"
  "delimiter_depth (snd (either3 x k1 y k2 k3 l)) = delimiter_depth l"
  "delimiter_depth (snd (shift_like x k1 k2 k3 k4 l)) = delimiter_depth l"
  by (simp_all add: either_def either3_def shift_like_def take_char_def split: prod.split bool.split)

lemma tracks_choice:
  assumes "\<forall>k \<in> {k1, k2}. nesting k (delimiter_depth l) = delimiter_depth l"
  shows "tracks (delimiter_depth l) (Inr (either x k1 k2 l))"
  using assms either_goes(2) [of x k1 k2 l] depth_choices(1) [of x k1 k2 l]
  by (cases "either x k1 k2 l") auto

lemma tracks_choice3:
  assumes "\<forall>k \<in> {k1, k2, k3}. nesting k (delimiter_depth l) = delimiter_depth l"
  shows "tracks (delimiter_depth l) (Inr (either3 x k1 y k2 k3 l))"
  using assms either3_goes(2) [of x k1 y k2 k3 l] depth_choices(2) [of x k1 y k2 k3 l]
  by (cases "either3 x k1 y k2 k3 l") auto

lemma tracks_shift:
  assumes "\<forall>k \<in> {k1, k2, k3, k4}. nesting k (delimiter_depth l) = delimiter_depth l"
  shows "tracks (delimiter_depth l) (Inr (shift_like x k1 k2 k3 k4 l))"
  using assms shift_like_goes(2) [of x k1 k2 k3 k4 l] depth_choices(3) [of x k1 k2 k3 k4 l]
  by (cases "shift_like x k1 k2 k3 k4 l") auto

lemma tracks_dots: "tracks (delimiter_depth l) (dots l0 l)"
  by (simp add: dots_def take_char_def split: prod.split bool.split)

lemma tracks_question: "tracks (delimiter_depth l) (question l0 l)"
  by (simp add: question_def take_char_def split: prod.split bool.split)

lemma tracks_punctuation: "tracks (delimiter_depth l) (punctuation l c)"
proof -
  have "tracks (delimiter_depth (bumped l)) (punctuation l c)"
    unfolding punctuation_def Let_def
    by (intro tracks_if tracks_choice tracks_choice3 tracks_shift tracks_dots tracks_question) simp_all
  then show ?thesis by simp
qed

lemma next_kind_tracks: "tracks (delimiter_depth l) (next_kind u l c)"
proof -
  have "tracks (delimiter_depth l) (number l)"
    using depth_bump_while [of _ l] by (auto simp: number_def Let_def split: prod.split) (metis snd_conv)
  moreover have "tracks (delimiter_depth l) (string_token l)"
    using depth_string_loop [of l "[]" "bumped l"] string_loop_kind [of l "[]" "bumped l"]
    by (fastforce simp: string_token_def tracks_def split: sum.split)
  moreover have "tracks (delimiter_depth l) (region_name u l)"
    using depth_bump_while [of _ "bumped l"]
    by (auto simp: region_name_def Let_def split: prod.split option.split) (metis snd_conv)+
  moreover have "tracks (delimiter_depth l) (Inr (lex_identifier u l))"
    using depth_bump_while [of _ l]
    by (auto simp: lex_identifier_def Let_def split: prod.split option.split) (metis snd_conv)+
  ultimately show ?thesis using tracks_punctuation by (simp add: next_kind_def)
qed

subsection \<open>Lines\<close>

lemma step_printed_depth:
  assumes "reads_back u k" "rest l = spell k @ 32 # cs"
  shows "\<exists>l' t. lex_run u l ts = lex_run u l' (ts @ [t]) \<and> kind t = k \<and> rest l' = cs \<and>
    delimiter_depth l' = nesting k (delimiter_depth l)"
proof -
  obtain c l' where c: "peek l = Some c" "\<not> is_whitespace c" "c \<noteq> 10"
    "\<not> (c = ch CHR ''/'' \<and> (peek_next l = Some (ch CHR ''/'') \<or> peek_next l = Some (ch CHR ''*'')))"
    "next_kind u l c = Inr (k, l')" "rest l' = 32 # cs"
    using assms unfolding reads_back_def by blast
  have "lex_step u l ts c = Inr (l', ts @ [token_between k l l'])"
    using c by (auto simp: lex_step_def)
  then have "lex_run u l ts = lex_run u (bumped l') (ts @ [token_between k l l'])"
    using c(1) step_space(1) [OF c(6)] by (simp add: lex_run.simps [of u l ts])
  moreover have "kind (token_between k l l') = k" by (simp add: token_between_def)
  moreover have "delimiter_depth (bumped l') = nesting k (delimiter_depth l)"
    using next_kind_tracks [of l u c] c(5) by simp
  ultimately show ?thesis using step_space(2) [OF c(6)] by blast
qed

lemma run_line:
  assumes "unicode_ok u" "\<forall>k \<in> set ks. printable u k" "rest l = print ks @ cs"
  shows "\<exists>l' ts'. lex_run u l ts = lex_run u l' (ts @ ts') \<and> map kind ts' = ks \<and> rest l' = cs \<and>
    delimiter_depth l' = fold nesting ks (delimiter_depth l)"
  using assms(2,3)
proof (induction ks arbitrary: l ts)
  case Nil
  then show ?case by (auto simp: print_def intro!: exI [of _ l] exI [of _ "[]"])
next
  case (Cons k ks)
  have r: "rest l = spell k @ 32 # print ks @ cs" using Cons.prems by (simp add: print_def)
  obtain l1 t where l1: "lex_run u l ts = lex_run u l1 (ts @ [t])" "kind t = k" "rest l1 = print ks @ cs"
    "delimiter_depth l1 = nesting k (delimiter_depth l)"
    using step_printed_depth [OF printable_reads_back [OF assms(1)] r] Cons.prems(1) by fastforce
  obtain l2 ts2 where "lex_run u l1 (ts @ [t]) = lex_run u l2 ((ts @ [t]) @ ts2)" "map kind ts2 = ks" "rest l2 = cs"
    "delimiter_depth l2 = fold nesting ks (delimiter_depth l1)"
    using Cons.IH [of l1 "ts @ [t]"] l1(3) Cons.prems(1) by fastforce
  then show ?case using l1 by (intro exI [of _ l2] exI [of _ "t # ts2"]) simp
qed

lemma dropWhile_all: "dropWhile P xs = [] \<longleftrightarrow> (\<forall>x \<in> set xs. P x)"
  by (rule dropWhile_eq_Nil_conv)

lemma continued_kinds: "continued ts = goes_on (map kind ts)"
proof (cases ts rule: rev_cases)
  case Nil
  then show ?thesis by (simp add: continued_def goes_on_def)
next
  case (snoc ts' t)
  let ?B = "\<lambda>k. k = Arith Bang"
  show ?thesis
  proof (cases "?B (kind t)")
    case False
    then show ?thesis using snoc by (simp add: continued_def goes_on_def)
  next
    case True
    have ne: "rev (dropWhile ?B (rev (map kind ts))) \<noteq> map kind ts"
    proof
      assume eq: "rev (dropWhile ?B (rev (map kind ts))) = map kind ts"
      then have "length (dropWhile ?B (rev (map kind ts))) = length ts" by (metis length_map length_rev)
      moreover have "length (dropWhile ?B (rev (map kind ts))) \<le> length ts'"
        using True snoc length_dropWhile_le [of ?B "rev (map kind ts')"] by simp
      ultimately show False using snoc by simp
    qed
    have first: "List.find (\<lambda>t. kind t \<noteq> Arith Bang) xs = Some y \<Longrightarrow>
        \<exists>ks. dropWhile ?B (map kind xs) = kind y # ks" for xs y
      by (induction xs) (auto split: if_splits)
    have none: "List.find (\<lambda>t. kind t \<noteq> Arith Bang) xs = None \<Longrightarrow> dropWhile ?B (map kind xs) = []" for xs
      by (induction xs) (auto split: if_splits)
    show ?thesis
    proof (cases "List.find (\<lambda>t. kind t \<noteq> Arith Bang) (rev ts)")
      case None
      then have "dropWhile ?B (rev (map kind ts)) = []" using none [of "rev ts"] by (simp add: rev_map)
      then show ?thesis using ne None snoc True by (simp add: continued_def goes_on_def Let_def)
    next
      case (Some y)
      then obtain ks where ks: "dropWhile ?B (rev (map kind ts)) = kind y # ks" using first [of "rev ts" y] by (auto simp: rev_map)
      have "continued ts \<longleftrightarrow> \<not> ends_operand (kind y)" using Some snoc True by (simp add: continued_def)
      moreover have "goes_on (map kind ts) \<longleftrightarrow> \<not> ends_operand (kind y)"
        unfolding goes_on_def Let_def using ne ks by simp
      ultimately show ?thesis by blast
    qed
  qed
qed

lemma step_newline:
  assumes "rest l = 10 # cs"
  shows "\<exists>l' ts'. lex_run u l ts = lex_run u l' ts' \<and> rest l' = cs \<and> delimiter_depth l' = delimiter_depth l \<and>
    map kind ts' = (if delimiter_depth l = 0 \<and> \<not> goes_on (map kind ts) then map kind ts @ [Newline] else map kind ts)"
proof -
  obtain l' ts' where n: "logical_newline l ts = (l', ts')" by (cases "logical_newline l ts")
  have "lex_run u l ts = lex_run u l' ts'"
    using assms n by (simp add: lex_run.simps [of u l ts] lex_step_def)
  moreover have "l' = bumped l" "map kind ts' =
      (if delimiter_depth l = 0 \<and> \<not> goes_on (map kind ts) then map kind ts @ [Newline] else map kind ts)"
    using n by (auto simp: logical_newline_def Let_def continued_kinds token_between_def)
  moreover have "rest l' = cs" "delimiter_depth l' = delimiter_depth l" using assms calculation(2) by simp_all
  ultimately show ?thesis by blast
qed

lemma run_lines:
  assumes "unicode_ok u" "\<forall>line \<in> set lines. \<forall>k \<in> set line. printable u k" "rest l = print_lines lines"
  shows "\<exists>ts'. lex_run u l ts = Some (Inr ts') \<and>
    map kind ts' = with_newlines (map kind ts) (delimiter_depth l) lines @ [Eof]"
  using assms(2,3)
proof (induction lines arbitrary: l ts)
  case Nil
  then show ?case by (simp add: print_lines_def lex_run.simps [of u l ts] token_between_def)
next
  case (Cons line lines)
  have "rest l = print line @ 10 # print_lines lines" using Cons.prems by (simp add: print_lines_def)
  from run_line [OF assms(1) _ this, of ts] Cons.prems(1)
  obtain l1 ts1 where l1: "lex_run u l ts = lex_run u l1 (ts @ ts1)" "map kind ts1 = line" "rest l1 = 10 # print_lines lines"
    "delimiter_depth l1 = fold nesting line (delimiter_depth l)" by auto
  from step_newline [OF l1(3), of u "ts @ ts1"]
  obtain l2 ts2 where l2: "lex_run u l1 (ts @ ts1) = lex_run u l2 ts2" "rest l2 = print_lines lines"
    "delimiter_depth l2 = delimiter_depth l1"
    "map kind ts2 = (if delimiter_depth l1 = 0 \<and> \<not> goes_on (map kind (ts @ ts1)) then map kind (ts @ ts1) @ [Newline]
       else map kind (ts @ ts1))" by blast
  obtain ts3 where "lex_run u l2 ts2 = Some (Inr ts3)"
    "map kind ts3 = with_newlines (map kind ts2) (delimiter_depth l2) lines @ [Eof]"
    using Cons.IH [OF _ l2(2), of ts2] Cons.prems(1) by auto
  then show ?case using l1 l2 by (simp add: Let_def)
qed

lemma lex_lines:
  assumes "unicode_ok u" "\<forall>line \<in> set lines. \<forall>k \<in> set line. printable u k"
  shows "\<exists>ts. lex u (print_lines lines) = Some (Inr ts) \<and> map kind ts = with_newlines [] 0 lines @ [Eof]"
  using run_lines [OF assms, of "lexer_new (print_lines lines)" "[]"] by (simp add: lex_def rest_def lexer_new_def)

end
