(* ===== verification/Lexer_Properties.thy ===== *)
theory Lexer_Properties
  imports Lexer_Newlines
begin

text \<open>
  What is shown of \<open>compiler/src/lexer.rs\<close>.  The hypotheses on the Unicode tables are
  \<open>xid_ok\<close> (a start character is also a continue character) and \<open>unicode_ok\<close> (the tables agree
  with ASCII, names hold no white space, ASCII text is in normal form); \<open>ascii_unicode\<close>, which
  knows ASCII names only, satisfies both.
\<close>

definition ascii_unicode :: unicode where
  "ascii_unicode =
     \<lparr>xid_start = is_letter, xid_continue = (\<lambda>c. is_letter c \<or> is_ascii_digit c \<or> c = ch CHR ''_''), nfc = (\<lambda>t. t)\<rparr>"

lemma ascii_unicode_ok: "unicode_ok ascii_unicode"
  by (auto simp: unicode_ok_def xid_ok_def ascii_unicode_def is_letter_def is_ascii_digit_def is_whitespace_def)

lemma ascii_xid_ok: "xid_ok ascii_unicode"
  using ascii_unicode_ok by (simp add: unicode_ok_def)

text \<open>
  C13: The lexer ends on every source.  Its tokens stand for consecutive, non-empty pieces of the
  source with the byte offsets, lines and columns of their two ends, closed by one \<open>Eof\<close> at its
  end, and an error carries the line and column of a character boundary of the source.
\<close>
theorem lex_ends_with_positions:
  assumes "xid_ok u"
  shows "\<exists>r. lex u src = Some r \<and> positions_ok src r"
  by (rule lex_ok [OF assms])

theorem lex_ends_with_positions_witness:
  "\<exists>r. lex ascii_unicode (lit ''x = 'y'') = Some r \<and> positions_ok (lit ''x = 'y'') r"
  by (rule lex_ends_with_positions [OF ascii_xid_ok])

text \<open>
  C11: Printing and lexing are inverse: any sequence of tokens, each spelled as in the language and
  followed by a space, is read back as the same sequence, names, escaped strings and 128-bit
  integers included.
\<close>
theorem lex_reads_printed:
  assumes "unicode_ok u" "\<forall>k \<in> set ks. printable u k"
  shows "\<exists>ts. lex u (print ks) = Some (Inr ts) \<and> map kind ts = ks @ [Eof]"
  by (rule lex_printed [OF assms])

theorem lex_reads_printed_witness:
  "\<exists>ts. lex ascii_unicode (print [Word KLet, Integer 10, BitOp ShlEqual, StringLit [34, 10]]) = Some (Inr ts) \<and>
     map kind ts = [Word KLet, Integer 10, BitOp ShlEqual, StringLit [34, 10], Eof]"
  using lex_reads_printed [OF ascii_unicode_ok, of "[Word KLet, Integer 10, BitOp ShlEqual, StringLit [34, 10]]"] by simp





end
