(* ===== verification/Types.thy ===== *)
theory Types
  imports Chars
begin

text \<open>
  The types of the typed tree (\<open>Ty\<close> of \<open>compiler/src/codegen/hir.rs\<close>) and the functions on types of
  \<open>hir.rs\<close> and \<open>codegen/lower.rs\<close>: assignability, display, and the queries on nominal types.  The twelve
  integer types are one constructor over \<open>integer_ty\<close>.  Names are code point lists; the upper-case test
  of \<open>char::is_uppercase\<close>, a Unicode table, is an argument of the display functions.
\<close>

type_synonym u64 = "64 word"
type_synonym u128 = "128 word"
type_synonym i128 = "128 word"

datatype integer_ty = I8 | I16 | I32 | I64 | I128 | ISize | U8 | U16 | U32 | U64 | U128 | USize

datatype pass_mode = InferredMode | CopyMode | MoveMode | BorrowMode | MutBorrowMode

datatype callable_kind =
    PartialCall (partial_function_name: chars) (consumed_groups: nat) (partial_fn_mut: bool) (partial_fn_once: bool)
  | ClosureCall (closure_function_name: chars) (closure_fn_mut: bool) (closure_fn_once: bool)

datatype ty =
    IntTy integer_ty
  | BoolTy
  | UnitTy
  | TupleTy "ty list"
  | PointerTy ty bool
  | ReferenceTy ty bool "chars option"
  | StrTy
  | SliceTy ty
  | ArrayTy ty u64
  | StructTy chars
  | EnumTy chars
  | NeverTy
  | FunctionTy function_ty
  | CallableTy function_ty "capture_ty list" callable_kind
  | ContinuationTy ty ty
  | EffectCallableTy ty ty ty
  | EffectRowTy bool "ty option" "chars list"
  | ErrorTy
and function_ty =
    FunctionSig (fn_groups: "ty list list") (fn_unsafety: bool) (fn_failure_error: "ty option")
      (fn_custom_effects: "chars list") (fn_result: ty)
and capture_ty = CaptureTy (capture_type: ty) (capture_mode: pass_mode)

definition is_integer :: "ty \<Rightarrow> bool" where
  "is_integer t \<longleftrightarrow> (case t of IntTy _ \<Rightarrow> True | _ \<Rightarrow> False)"

definition is_signed :: "ty \<Rightarrow> bool" where
  "is_signed t \<longleftrightarrow> (case t of IntTy i \<Rightarrow> i \<in> {I8, I16, I32, I64, I128, ISize} | _ \<Rightarrow> False)"

lemma is_signed_is_integer: "is_signed t \<Longrightarrow> is_integer t"
  by (auto simp: is_signed_def is_integer_def split: ty.splits)

subsection \<open>Assignability\<close>

definition error_assignable :: "(ty \<Rightarrow> ty \<Rightarrow> bool) \<Rightarrow> ty option \<Rightarrow> ty option \<Rightarrow> bool" where
  "error_assignable ok a e =
     (case (a, e) of (None, _) \<Rightarrow> True | (Some a, Some e) \<Rightarrow> ok a e | (Some _, None) \<Rightarrow> False)"

lemma error_assignable_cong [fundef_cong]:
  assumes "a = a'" "e = e'" "\<And>x y. a' = Some x \<Longrightarrow> e' = Some y \<Longrightarrow> ok x y = ok' x y"
  shows "error_assignable ok a e = error_assignable ok' a' e'"
  using assms by (auto simp: error_assignable_def split: option.splits)

lemma size_group_less: "g \<in> set (fn_groups f) \<Longrightarrow> t \<in> set g \<Longrightarrow> size t < size f"
proof (cases f)
  case (FunctionSig gs u e c r)
  moreover assume "g \<in> set (fn_groups f)" "t \<in> set g"
  ultimately have "size t \<le> size_list size g" "size_list size g \<le> size_list (size_list size) gs"
    by (auto intro: size_list_estimation' [OF _ order_refl])
  then show ?thesis using FunctionSig by simp
qed

lemma size_result_less [simp]: "size (fn_result f) < size f"
  by (cases f) simp

lemma size_error_less: "fn_failure_error f = Some t \<Longrightarrow> size t < size f"
  by (cases f) simp

function type_is_assignable :: "ty \<Rightarrow> ty \<Rightarrow> bool"
  and function_type_is_assignable :: "function_ty \<Rightarrow> function_ty \<Rightarrow> bool" where
  "type_is_assignable actual expected =
     (if actual = expected then True
      else
        (case (actual, expected) of
           (FunctionTy a, FunctionTy e) \<Rightarrow> function_type_is_assignable a e
         | _ \<Rightarrow> False))"
| "function_type_is_assignable a e =
     (list_all2 (list_all2 (\<lambda>actual expected. type_is_assignable expected actual)) (fn_groups a) (fn_groups e) \<and>
      type_is_assignable (fn_result a) (fn_result e) \<and>
      (\<not> fn_unsafety a \<or> fn_unsafety e) \<and>
      error_assignable type_is_assignable (fn_failure_error a) (fn_failure_error e) \<and>
      list_all (\<lambda>effect. effect \<in> set (fn_custom_effects e)) (fn_custom_effects a))"
  by pat_completeness auto

termination
  by (relation "measure (case_sum (\<lambda>(a, e). size a + size e) (\<lambda>(a, e). size a + size e))")
    (auto simp: add_less_mono dest!: size_group_less size_error_less)

declare type_is_assignable.simps [simp del] function_type_is_assignable.simps [simp del]

subsection \<open>Display\<close>

primrec join_text :: "chars \<Rightarrow> chars list \<Rightarrow> chars" where
  "join_text sep [] = []"
| "join_text sep (x # xs) = x @ (if xs = [] then [] else sep @ join_text sep xs)"

definition display_region_argument :: "(code_point \<Rightarrow> bool) \<Rightarrow> chars \<Rightarrow> chars" where
  "display_region_argument upper region =
     (case region of
        [] \<Rightarrow> [39]
      | c # _ \<Rightarrow>
          if c = ch CHR ''$'' then [39] @ lit ''_''
          else if upper c then region
          else 39 # region)"

definition display_region :: "(code_point \<Rightarrow> bool) \<Rightarrow> chars option \<Rightarrow> chars" where
  "display_region upper region =
     (case region of None \<Rightarrow> lit ''an inferred region'' | Some r \<Rightarrow> display_region_argument upper r)"

fun integer_name :: "integer_ty \<Rightarrow> chars" where
  "integer_name I8 = lit ''i8''"
| "integer_name I16 = lit ''i16''"
| "integer_name I32 = lit ''i32''"
| "integer_name I64 = lit ''i64''"
| "integer_name I128 = lit ''i128''"
| "integer_name ISize = lit ''isize''"
| "integer_name U8 = lit ''u8''"
| "integer_name U16 = lit ''u16''"
| "integer_name U32 = lit ''u32''"
| "integer_name U64 = lit ''u64''"
| "integer_name U128 = lit ''u128''"
| "integer_name USize = lit ''usize''"

text \<open>The effects of a function or a row, in the order they are shown.\<close>

definition shown_effects :: "bool \<Rightarrow> chars list \<Rightarrow> chars option \<Rightarrow> chars list" where
  "shown_effects unsafety custom error =
     (if unsafety then [lit ''unsafety''] else []) @ custom @
     (case error of None \<Rightarrow> [] | Some e \<Rightarrow> [lit ''throwing('' @ e @ lit '')''])"

function show_ty :: "(code_point \<Rightarrow> bool) \<Rightarrow> ty \<Rightarrow> chars" where
  "show_ty up (IntTy i) = integer_name i"
| "show_ty up BoolTy = lit ''bool''"
| "show_ty up UnitTy = lit ''()''"
| "show_ty up (TupleTy fields) =
     lit ''('' @ join_text (lit '', '') (map (show_ty up) fields) @ (if length fields = 1 then lit '','' else []) @ lit '')''"
| "show_ty up (PointerTy pointee mutable) =
     (if mutable then lit ''ptr(mut)'' else lit ''ptr'') @ lit ''('' @ show_ty up pointee @ lit '')''"
| "show_ty up (ReferenceTy pointee mutable region) =
     (if mutable then lit ''borrow(mut)'' else lit ''borrow'') @
     (case region of None \<Rightarrow> [] | Some r \<Rightarrow> lit ''('' @ display_region_argument up r @ lit '')'') @
     lit '' '' @ show_ty up pointee"
| "show_ty up StrTy = lit ''str''"
| "show_ty up (SliceTy element) = lit ''slice('' @ show_ty up element @ lit '')''"
| "show_ty up (ArrayTy element n) = lit ''array('' @ show_ty up element @ lit '')('' @ decimal (uint n) @ lit '')''"
| "show_ty up (StructTy name) = name"
| "show_ty up (EnumTy name) = name"
| "show_ty up NeverTy = lit ''never''"
| "show_ty up ErrorTy = lit ''<error>''"
| "show_ty up (FunctionTy (FunctionSig groups unsafety error custom result)) =
     concat (map (\<lambda>g. lit ''('' @ join_text (lit '', '') (map (show_ty up) g) @ lit '')'') groups) @
     lit '': '' @ show_ty up result @
     (let effects = shown_effects unsafety custom (map_option (show_ty up) error) in
      if effects = [] then [] else lit '' with('' @ join_text (lit '', '') effects @ lit '')'')"
| "show_ty up (CallableTy signature captures kind) = show_ty up (FunctionTy signature)"
| "show_ty up (ContinuationTy input output) =
     lit ''Continuation('' @ show_ty up input @ lit '', '' @ show_ty up output @ lit '')''"
| "show_ty up (EffectCallableTy input output answer) =
     lit ''EffectCallable('' @ show_ty up input @ lit '', '' @ show_ty up output @ lit '', '' @ show_ty up answer @ lit '')''"
| "show_ty up (EffectRowTy unsafety error custom) =
     (let effects = shown_effects unsafety custom (map_option (show_ty up) error) in
      if effects = [] then lit ''pure'' else lit ''with('' @ join_text (lit '', '') effects @ lit '')'')"
  by pat_completeness auto
termination
  by (relation "measure (\<lambda>(up, t). 2 * size t + (case t of CallableTy _ _ _ \<Rightarrow> 1 | _ \<Rightarrow> 0))")
    (auto split: ty.split dest!: size_list_estimation' [OF _ order_refl, of _ _ size]
       size_list_estimation' [OF _ order_refl, of _ _ "size_list size"])

subsection \<open>Queries\<close>

fun is_sized_value :: "ty \<Rightarrow> bool" where
  "is_sized_value StrTy = False"
| "is_sized_value (SliceTy _) = False"
| "is_sized_value (ArrayTy element _) = is_sized_value element"
| "is_sized_value (TupleTy fields) = list_all is_sized_value fields"
| "is_sized_value _ = True"

definition contextual_reference_result :: "ty \<Rightarrow> ty option \<Rightarrow> ty" where
  "contextual_reference_result result expected =
     (case (result, expected) of
        (ReferenceTy p m None, Some (ReferenceTy p' m' r)) \<Rightarrow>
          if p = p' \<and> m = m' then ReferenceTy p' m' r else result
      | _ \<Rightarrow> result)"

definition reference_value_types_compatible :: "ty \<Rightarrow> ty \<Rightarrow> bool" where
  "reference_value_types_compatible actual expected =
     (case (actual, expected) of
        (ReferenceTy p m _, ReferenceTy p' m' _) \<Rightarrow> p = p' \<and> m = m'
      | _ \<Rightarrow> False)"

text \<open>\<open>iter().find_map(f)\<close>.\<close>

fun find_map :: "('a \<Rightarrow> 'b option) \<Rightarrow> 'a list \<Rightarrow> 'b option" where
  "find_map f [] = None"
| "find_map f (x # xs) = (case f x of Some y \<Rightarrow> Some y | None \<Rightarrow> find_map f xs)"

lemma find_map_cong [fundef_cong]:
  assumes "xs = ys" "\<And>x. x \<in> set ys \<Longrightarrow> f x = g x"
  shows "find_map f xs = find_map g ys"
proof -
  have "(\<And>x. x \<in> set ys \<Longrightarrow> f x = g x) \<Longrightarrow> find_map f ys = find_map g ys"
    by (induction ys) (auto split: option.split)
  with assms show ?thesis by simp
qed

fun nominal_name :: "ty \<Rightarrow> chars option" where
  "nominal_name (StructTy name) = Some name"
| "nominal_name (EnumTy name) = Some name"
| "nominal_name (ArrayTy element _) = nominal_name element"
| "nominal_name (SliceTy element) = nominal_name element"
| "nominal_name (TupleTy fields) = find_map nominal_name fields"
| "nominal_name _ = None"

definition is_some_and :: "('a \<Rightarrow> bool) \<Rightarrow> 'a option \<Rightarrow> bool" where
  "is_some_and p v = (case v of None \<Rightarrow> False | Some x \<Rightarrow> p x)"

lemma is_some_and_cong [fundef_cong]:
  "v = w \<Longrightarrow> (\<And>x. w = Some x \<Longrightarrow> p x = q x) \<Longrightarrow> is_some_and p v = is_some_and q w"
  by (simp add: is_some_and_def split: option.split)

lemma is_some_and_simps [simp]: "is_some_and p None = False" "is_some_and p (Some x) = p x"
  by (simp_all add: is_some_and_def)

lemma size_field_less: "(t :: ty) \<in> set ts \<Longrightarrow> size t < Suc (size_list size ts)"
  by (auto dest!: size_list_estimation' [OF _ order_refl, of _ _ size])

lemma size_capture_less: "c \<in> set cs \<Longrightarrow> size (capture_type c) < Suc (size_list size cs)"
  by (cases c) (auto dest!: size_list_estimation' [OF _ order_refl, of _ _ size])

function ty_contains_nominal :: "ty \<Rightarrow> chars \<Rightarrow> bool"
  and function_ty_contains_nominal :: "function_ty \<Rightarrow> chars \<Rightarrow> bool" where
  "ty_contains_nominal t nominal =
     (case t of
        StructTy name \<Rightarrow> name = nominal
      | EnumTy name \<Rightarrow> name = nominal
      | PointerTy p _ \<Rightarrow> ty_contains_nominal p nominal
      | ReferenceTy p _ _ \<Rightarrow> ty_contains_nominal p nominal
      | SliceTy p \<Rightarrow> ty_contains_nominal p nominal
      | ArrayTy p _ \<Rightarrow> ty_contains_nominal p nominal
      | TupleTy fields \<Rightarrow> list_ex (\<lambda>f. ty_contains_nominal f nominal) fields
      | FunctionTy f \<Rightarrow> function_ty_contains_nominal f nominal
      | CallableTy f captures _ \<Rightarrow>
          function_ty_contains_nominal f nominal \<or>
          list_ex (\<lambda>c. ty_contains_nominal (capture_type c) nominal) captures
      | ContinuationTy i u \<Rightarrow> ty_contains_nominal i nominal \<or> ty_contains_nominal u nominal
      | EffectCallableTy i u a \<Rightarrow>
          ty_contains_nominal i nominal \<or> ty_contains_nominal u nominal \<or> ty_contains_nominal a nominal
      | EffectRowTy _ error _ \<Rightarrow> is_some_and (\<lambda>e. ty_contains_nominal e nominal) error
      | _ \<Rightarrow> False)"
| "function_ty_contains_nominal f nominal =
     (list_ex (list_ex (\<lambda>p. ty_contains_nominal p nominal)) (fn_groups f) \<or>
      is_some_and (\<lambda>e. ty_contains_nominal e nominal) (fn_failure_error f) \<or>
      ty_contains_nominal (fn_result f) nominal)"
  by pat_completeness auto
termination
  by (relation "measure (case_sum (\<lambda>(t, n). size t) (\<lambda>(f, n). size f))")
    (auto intro: size_group_less dest!: size_error_less size_capture_less dest: size_field_less)

declare ty_contains_nominal.simps [simp del] function_ty_contains_nominal.simps [simp del]

end
