(* ===== verification/Ast.thy ===== *)
theory Ast
  imports Types
begin

text \<open>
  The declarations and types of the syntax tree (\<open>compiler/src/ast.rs\<close>): provenance, visibility,
  compile-time sorts, static expressions, source types and nominal definitions.  Expressions are in
  \<open>Ast_Expr\<close>.  The twelve primitive integer types are one constructor.
\<close>

subsection \<open>Provenance and visibility\<close>

record source_location =
  loc_path :: "chars option"
  loc_line :: nat
  loc_column :: nat
  loc_end_line :: nat
  loc_end_column :: nat

record source_span =
  span_line :: nat
  span_column :: nat
  span_end_line :: nat
  span_end_column :: nat

record item_origin =
  package :: nat
  module_path :: "chars list"
  origin_source :: "source_location option"

definition default_origin :: item_origin where
  "default_origin = \<lparr>package = 0, module_path = [], origin_source = None\<rparr>"

datatype visibility = Private | Package | Public

record use_decl =
  use_visibility :: visibility
  use_path :: "chars list"
  use_alias :: "chars option"
  use_source :: "source_span option"

datatype struct_representation = SalicinRepr | CRepr

datatype associated_kind = AssociatedTypeKind | AssociatedParameters

datatype foreign_abi = AbiC

record foreign_function =
  abi :: foreign_abi
  link_name :: chars

subsection \<open>Compile-time parameters\<close>

datatype sort_level = LiteralLevel u64 | ParameterLevel chars

datatype static_fragment_kind = StaticFragment (fragment_name: chars)

definition fragment_constraint :: static_fragment_kind where
  "fragment_constraint = StaticFragment (lit ''constraint'')"

datatype sort =
    UniverseSort sort_level
  | TypeSort
  | USizeSort
  | RegionSort
  | EffectSort
  | EffectsSort
  | ParametersSort
  | FragmentSort static_fragment_kind
  | ParameterPackSort
  | ParameterModifierSort
  | TypeConstructorSort "sort list list"
  | EffectConstructorSort "sort list list"
  | NamedSort chars

definition constructor_parameter_count :: "sort \<Rightarrow> nat option" where
  "constructor_parameter_count s =
     (case s of
        TypeConstructorSort groups \<Rightarrow> Some (sum_list (map length groups))
      | EffectConstructorSort groups \<Rightarrow> Some (sum_list (map length groups))
      | _ \<Rightarrow> None)"

definition is_access :: "sort \<Rightarrow> bool" where
  "is_access s = (case s of NamedSort name \<Rightarrow> name = lit ''access'' | _ \<Rightarrow> False)"

definition is_effect_classifier :: "sort \<Rightarrow> bool" where
  "is_effect_classifier s = (s = EffectSort \<or> s = EffectsSort)"

definition is_parameter_modifier :: "sort \<Rightarrow> bool" where
  "is_parameter_modifier s = (s = ParameterModifierSort)"

definition is_static_fragment :: "sort \<Rightarrow> bool" where
  "is_static_fragment s = (case s of FragmentSort _ \<Rightarrow> True | _ \<Rightarrow> False)"

datatype compile_param_default = DefaultName chars | DefaultRegion chars

record compile_param =
  cp_name :: chars
  cp_kind :: sort
  cp_default :: "compile_param_default option"

definition default_trait_self_parameter :: compile_param where
  "default_trait_self_parameter = \<lparr>cp_name = lit ''self'', cp_kind = TypeSort, cp_default = None\<rparr>"

subsection \<open>Static expressions and types\<close>

datatype unary_op = NegOp | NotOp | DerefOp

datatype binary_op =
  Add | Sub | Mul | Div | Rem | BitAnd | BitOr | BitXor | ShiftL | ShiftR | CmpEq | CmpNe | CmpLt | CmpLe | CmpGt | CmpGe | LogAnd | LogOr

datatype static_expr =
    StaticUSize u64
  | StaticBool bool
  | StaticName chars
  | StaticUnary unary_op static_expr
  | StaticBinary static_expr binary_op static_expr
  | StaticCall chars "(chars option \<times> static_expr) list list"

datatype usize_const = LiteralConst u64 | ParameterConst chars | ExpressionConst static_expr

datatype source_type =
    SrcInt integer_ty
  | SrcBool
  | SrcUnit
  | SrcTuple "source_type list"
  | SrcBorrow bool "chars option" "chars option" source_type
  | SrcArray source_type u64
  | SrcArrayApplication chars source_type usize_const
  | SrcCompileUSize u64
  | SrcFunction "source_type list list" function_effects source_type
  | SrcNamed chars "source_type list"
  | SrcNamedArgs chars "(chars option \<times> source_type) list"
and function_effects =
    FunctionEffects (fe_unsafety: bool) (fe_failure: "source_type option") (fe_custom: "source_type list")
      (fe_parameters: "chars list")

record associated_type_binding =
  atb_name :: chars
  atb_compile_groups :: "compile_param list list"
  atb_ty :: source_type

record where_predicate =
  wp_subject :: source_type
  wp_trait_ref :: source_type
  wp_associated_types :: "associated_type_binding list"

record param =
  param_mode :: pass_mode
  param_access :: "chars option"
  param_modifiers :: "chars list"
  param_region :: "chars option"
  param_name :: chars
  param_ty :: source_type

subsection \<open>Nominal definitions\<close>

record field_def =
  field_visibility :: visibility
  field_name :: chars
  field_ty :: source_type

datatype variant_fields = UnitFields | PositionalFields "source_type list" | NamedFields "field_def list"

record variant_def =
  variant_name :: chars
  variant_payload :: variant_fields

record enum_def =
  enum_name :: chars
  enum_compile_groups :: "compile_param list list"
  enum_variants :: "variant_def list"

record struct_def =
  struct_name :: chars
  struct_compile_groups :: "compile_param list list"
  struct_repr :: struct_representation
  struct_derives :: "chars list"
  struct_fields :: "field_def list"

record type_alias_def =
  alias_name :: chars
  alias_compile_groups :: "compile_param list list"
  alias_target :: source_type

record sort_def =
  sort_name :: chars
  sort_def_level :: u64
  sort_members :: "chars list option"

record type_form_def =
  form_name :: chars
  form_compile_groups :: "compile_param list list"
  form_values :: "chars list"
  form_builtin :: bool

end
