(* ===== verification/Ctfe_Value.thy ===== *)
theory Ctfe_Value
  imports Ast
begin

text \<open>
  \<open>compiler/src/codegen/target.rs\<close> and \<open>compiler/src/codegen/ctfe_value.rs\<close>: integer widths of the
  target, values of compile-time evaluation and their checked arithmetic.  A \<open>u128\<close> or \<open>i128\<close> is a
  128-bit word, an \<open>i128\<close> read with \<open>sint\<close>; \<open>u32\<close> widths and shift counts are natural numbers.  The
  outer option is a panic (an \<open>expect\<close> that fails).
\<close>

unbundle bit_operations_syntax

subsection \<open>The target\<close>

record target =
  pointer_width :: nat

definition NATIVE_TARGET :: target where
  "NATIVE_TARGET = \<lparr>pointer_width = 64\<rparr>"

fun int_width :: "target \<Rightarrow> integer_ty \<Rightarrow> nat" where
  "int_width t I8 = 8" | "int_width t U8 = 8"
| "int_width t I16 = 16" | "int_width t U16 = 16"
| "int_width t I32 = 32" | "int_width t U32 = 32"
| "int_width t I64 = 64" | "int_width t U64 = 64"
| "int_width t ISize = pointer_width t" | "int_width t USize = pointer_width t"
| "int_width t I128 = 128" | "int_width t U128 = 128"

definition integer_width :: "target \<Rightarrow> ty \<Rightarrow> nat option" where
  "integer_width t ty = (case ty of IntTy i \<Rightarrow> Some (int_width t i) | _ \<Rightarrow> None)"

definition unsigned_max :: "target \<Rightarrow> ty \<Rightarrow> u128 option" where
  "unsigned_max t ty =
     do { width \<leftarrow> integer_width t ty;
          Some (if width = 128 then - 1 else push_bit width 1 - 1) }"

definition signed_min :: "target \<Rightarrow> ty \<Rightarrow> i128 option" where
  "signed_min t ty =
     (if \<not> is_signed ty then None
      else do { width \<leftarrow> integer_width t ty;
                Some (if width = 128 then push_bit 127 1 else - push_bit (width - 1) 1) })"

definition signed_max :: "target \<Rightarrow> ty \<Rightarrow> i128 option" where
  "signed_max t ty =
     (if \<not> is_signed ty then None
      else do { width \<leftarrow> integer_width t ty;
                Some (if width = 128 then push_bit 127 1 - 1 else push_bit (width - 1) 1 - 1) })"

subsection \<open>Checked arithmetic of the standard library\<close>

definition in_i128 :: "int \<Rightarrow> bool" where
  "in_i128 n \<longleftrightarrow> - (2 ^ 127) \<le> n \<and> n < 2 ^ 127"

definition in_u128 :: "int \<Rightarrow> bool" where
  "in_u128 n \<longleftrightarrow> 0 \<le> n \<and> n < 2 ^ 128"

definition checked_i128 :: "int \<Rightarrow> i128 option" where
  "checked_i128 n = (if in_i128 n then Some (of_int n) else None)"

definition checked_u128 :: "int \<Rightarrow> u128 option" where
  "checked_u128 n = (if in_u128 n then Some (of_int n) else None)"

text \<open>Rust's \<open>/\<close> and \<open>%\<close> round towards zero.\<close>

definition trunc_div :: "int \<Rightarrow> int \<Rightarrow> int" where
  "trunc_div a b = sgn a * sgn b * (\<bar>a\<bar> div \<bar>b\<bar>)"

definition trunc_rem :: "int \<Rightarrow> int \<Rightarrow> int" where
  "trunc_rem a b = a - b * trunc_div a b"

definition unsigned_abs :: "i128 \<Rightarrow> u128" where
  "unsigned_abs v = of_int \<bar>sint v\<bar>"

subsection \<open>Values\<close>

datatype layout_query_kind = SizeQuery | AlignQuery

datatype integer_eval_error =
    TypeMismatch
  | InvalidOperator
  | InvalidNegation
  | Overflow
  | DivisionByZero
  | RemainderByZero
  | InvalidShift chars nat

datatype literal_error =
    NotAnInteger ty
  | NegativeUnsigned ty
  | DoesNotFit bool u128 ty

datatype ctfe_value = CtfeValue (ctfe_ty: ty) (ctfe_kind: ctfe_kind)
and ctfe_kind =
    IntegerKind u128
  | BoolKind bool
  | StringKind chars
  | UnitKind
  | TupleKind "ctfe_value list"
  | ArrayKind "ctfe_value list"
  | StructKind chars "ctfe_value list"
  | EnumKind chars nat "ctfe_value list"
  | LayoutQueryKind ty layout_query_kind

definition truncate :: "nat \<Rightarrow> u128 \<Rightarrow> u128" where
  "truncate width bits = (if width = 128 then bits else bits AND (push_bit width 1 - 1))"

definition integer_bits :: "ty \<Rightarrow> u128 \<Rightarrow> ctfe_value option" where
  "integer_bits ty bits =
     do { width \<leftarrow> integer_width NATIVE_TARGET ty;
          Some (CtfeValue ty (IntegerKind (truncate width bits))) }"

definition ctfe_usize :: "u64 \<Rightarrow> ctfe_value option" where
  "ctfe_usize v = integer_bits (IntTy USize) (ucast v)"

definition integer_literal :: "ty \<Rightarrow> u128 \<Rightarrow> bool \<Rightarrow> (literal_error + ctfe_value) option" where
  "integer_literal ty magnitude negative =
     (if \<not> is_integer ty then Some (Inl (NotAnInteger ty))
      else if negative then
        (case signed_min NATIVE_TARGET ty of
           None \<Rightarrow> Some (Inl (NegativeUnsigned ty))
         | Some m \<Rightarrow>
             if magnitude > unsigned_abs m then Some (Inl (DoesNotFit True magnitude ty))
             else map_option Inr (integer_bits ty (0 - magnitude)))
      else
        do { fits \<leftarrow> (if is_signed ty then map_option (\<lambda>m. magnitude \<le> m) (signed_max NATIVE_TARGET ty)
                       else map_option (\<lambda>m. magnitude \<le> m) (unsigned_max NATIVE_TARGET ty));
             if \<not> fits then Some (Inl (DoesNotFit False magnitude ty))
             else map_option Inr (integer_bits ty magnitude) })"

definition ctfe_bool :: "bool \<Rightarrow> ctfe_value" where
  "ctfe_bool v = CtfeValue BoolTy (BoolKind v)"

definition ctfe_unit :: ctfe_value where
  "ctfe_unit = CtfeValue UnitTy UnitKind"

definition integer_bits_value :: "ctfe_value \<Rightarrow> u128 option" where
  "integer_bits_value v = (case ctfe_kind v of IntegerKind bits \<Rightarrow> Some bits | _ \<Rightarrow> None)"

definition signed_integer_value :: "ctfe_value \<Rightarrow> i128 option" where
  "signed_integer_value v =
     (if \<not> is_signed (ctfe_ty v) then None
      else
        do { bits \<leftarrow> integer_bits_value v;
             width \<leftarrow> integer_width NATIVE_TARGET (ctfe_ty v);
             Some (if width = 128 then bits
                   else (let shift = 128 - width in signed_drop_bit shift (push_bit shift bits))) })"

definition unsigned_integer_value :: "ctfe_value \<Rightarrow> u128 option" where
  "unsigned_integer_value v = (if \<not> is_signed (ctfe_ty v) then integer_bits_value v else None)"

definition nonnegative_integer_value :: "ctfe_value \<Rightarrow> u128 option" where
  "nonnegative_integer_value v =
     (if is_signed (ctfe_ty v)
      then do { s \<leftarrow> signed_integer_value v; if 0 \<le> sint s then Some s else None }
      else unsigned_integer_value v)"

definition usize_value :: "ctfe_value \<Rightarrow> u64 option" where
  "usize_value v =
     (if ctfe_ty v = IntTy USize
      then do { n \<leftarrow> unsigned_integer_value v; if uint n < 2 ^ 64 then Some (ucast n) else None }
      else None)"

definition show_int :: "int \<Rightarrow> chars" where
  "show_int n = (if n < 0 then lit ''-'' @ decimal (- n) else decimal n)"

definition integer_display :: "ctfe_value \<Rightarrow> chars option" where
  "integer_display v =
     (if is_signed (ctfe_ty v) then map_option (\<lambda>s. show_int (sint s)) (signed_integer_value v)
      else map_option (\<lambda>u. show_int (uint u)) (unsigned_integer_value v))"

definition from_signed :: "ty \<Rightarrow> i128 \<Rightarrow> (integer_eval_error + ctfe_value) option" where
  "from_signed ty v =
     (case (signed_min NATIVE_TARGET ty, signed_max NATIVE_TARGET ty) of
        (Some lo, Some hi) \<Rightarrow>
          if sint lo \<le> sint v \<and> sint v \<le> sint hi then map_option Inr (integer_bits ty v) else Some (Inl Overflow)
      | _ \<Rightarrow> Some (Inl Overflow))"

definition from_unsigned :: "ty \<Rightarrow> u128 \<Rightarrow> (integer_eval_error + ctfe_value) option" where
  "from_unsigned ty v =
     (case unsigned_max NATIVE_TARGET ty of
        Some hi \<Rightarrow> if v \<le> hi then map_option Inr (integer_bits ty v) else Some (Inl Overflow)
      | None \<Rightarrow> Some (Inl Overflow))"

definition to_bits :: "nat \<Rightarrow> ctfe_value \<Rightarrow> u128 option" where
  "to_bits width v = map_option (truncate width) (integer_bits_value v)"

subsection \<open>Arithmetic\<close>

definition checked_integer_neg :: "ctfe_value \<Rightarrow> (integer_eval_error + ctfe_value) option" where
  "checked_integer_neg v =
     (case signed_integer_value v of
        None \<Rightarrow> Some (Inl InvalidNegation)
      | Some s \<Rightarrow>
          (case checked_i128 (- sint s) of
             None \<Rightarrow> Some (Inl Overflow)
           | Some n \<Rightarrow> from_signed (ctfe_ty v) n))"

definition checked_shift :: "ctfe_value \<Rightarrow> binary_op \<Rightarrow> nat \<Rightarrow> (integer_eval_error + ctfe_value) option" where
  "checked_shift v operator count =
     (if is_signed (ctfe_ty v) then
        do { s \<leftarrow> signed_integer_value v;
             (case operator of
                ShiftR \<Rightarrow> from_signed (ctfe_ty v) (signed_drop_bit count s)
              | ShiftL \<Rightarrow>
                  if count = 127 then
                    (if s = - 1 then from_signed (ctfe_ty v) (push_bit 127 1)
                     else if s = 0 then from_signed (ctfe_ty v) 0
                     else Some (Inl Overflow))
                  else
                    (case checked_i128 (sint s * sint (push_bit count 1 :: i128)) of
                       None \<Rightarrow> Some (Inl Overflow)
                     | Some n \<Rightarrow> from_signed (ctfe_ty v) n)
              | _ \<Rightarrow> Some (Inl InvalidOperator)) }
      else
        do { u \<leftarrow> unsigned_integer_value v;
             maximum \<leftarrow> unsigned_max NATIVE_TARGET (ctfe_ty v);
             (case operator of
                ShiftR \<Rightarrow> from_unsigned (ctfe_ty v) (drop_bit count u)
              | ShiftL \<Rightarrow>
                  if u \<le> drop_bit count maximum then from_unsigned (ctfe_ty v) (push_bit count u)
                  else Some (Inl Overflow)
              | _ \<Rightarrow> Some (Inl InvalidOperator)) })"

text \<open>The count of a shift, or the error for it.\<close>

definition shift_count :: "ctfe_value \<Rightarrow> nat \<Rightarrow> integer_eval_error + nat" where
  "shift_count right width =
     (case nonnegative_integer_value right of
        Some count \<Rightarrow>
          if uint count < 2 ^ 32 \<and> unat count < width then Inr (unat count)
          else Inl (InvalidShift (case integer_display right of Some d \<Rightarrow> d | None \<Rightarrow> lit ''<invalid>'') width)
      | None \<Rightarrow> Inl (InvalidShift (case integer_display right of Some d \<Rightarrow> d | None \<Rightarrow> lit ''<invalid>'') width))"

definition signed_binary :: "ctfe_value \<Rightarrow> binary_op \<Rightarrow> i128 \<Rightarrow> i128 \<Rightarrow> u128 \<Rightarrow> (integer_eval_error + ctfe_value) option" where
  "signed_binary v operator left right right_bits =
     (let ty = ctfe_ty v;
          arith = (\<lambda>n. case checked_i128 n of None \<Rightarrow> Some (Inl Overflow) | Some w \<Rightarrow> from_signed ty w);
          bits = (\<lambda>f. do { b \<leftarrow> integer_bits_value v; map_option Inr (integer_bits ty (f b right_bits)) })
      in
        case operator of
          Add \<Rightarrow> arith (sint left + sint right)
        | Sub \<Rightarrow> arith (sint left - sint right)
        | Mul \<Rightarrow> arith (sint left * sint right)
        | Div \<Rightarrow> if right = 0 then Some (Inl DivisionByZero) else arith (trunc_div (sint left) (sint right))
        | Rem \<Rightarrow> if right = 0 then Some (Inl RemainderByZero) else arith (trunc_rem (sint left) (sint right))
        | BitAnd \<Rightarrow> bits (AND)
        | BitOr \<Rightarrow> bits (OR)
        | BitXor \<Rightarrow> bits (XOR)
        | CmpEq \<Rightarrow> Some (Inr (ctfe_bool (left = right)))
        | CmpNe \<Rightarrow> Some (Inr (ctfe_bool (left \<noteq> right)))
        | CmpLt \<Rightarrow> Some (Inr (ctfe_bool (sint left < sint right)))
        | CmpLe \<Rightarrow> Some (Inr (ctfe_bool (sint left \<le> sint right)))
        | CmpGt \<Rightarrow> Some (Inr (ctfe_bool (sint left > sint right)))
        | CmpGe \<Rightarrow> Some (Inr (ctfe_bool (sint left \<ge> sint right)))
        | _ \<Rightarrow> Some (Inl InvalidOperator))"

definition unsigned_binary :: "ctfe_value \<Rightarrow> binary_op \<Rightarrow> u128 \<Rightarrow> u128 \<Rightarrow> (integer_eval_error + ctfe_value) option" where
  "unsigned_binary v operator left right =
     (let ty = ctfe_ty v;
          arith = (\<lambda>n. case checked_u128 n of None \<Rightarrow> Some (Inl Overflow) | Some w \<Rightarrow> from_unsigned ty w)
      in
        case operator of
          Add \<Rightarrow> arith (uint left + uint right)
        | Sub \<Rightarrow> arith (uint left - uint right)
        | Mul \<Rightarrow> arith (uint left * uint right)
        | Div \<Rightarrow> if right = 0 then Some (Inl DivisionByZero) else arith (uint left div uint right)
        | Rem \<Rightarrow> if right = 0 then Some (Inl RemainderByZero) else arith (uint left mod uint right)
        | BitAnd \<Rightarrow> from_unsigned ty (left AND right)
        | BitOr \<Rightarrow> from_unsigned ty (left OR right)
        | BitXor \<Rightarrow> from_unsigned ty (left XOR right)
        | CmpEq \<Rightarrow> Some (Inr (ctfe_bool (left = right)))
        | CmpNe \<Rightarrow> Some (Inr (ctfe_bool (left \<noteq> right)))
        | CmpLt \<Rightarrow> Some (Inr (ctfe_bool (left < right)))
        | CmpLe \<Rightarrow> Some (Inr (ctfe_bool (left \<le> right)))
        | CmpGt \<Rightarrow> Some (Inr (ctfe_bool (left > right)))
        | CmpGe \<Rightarrow> Some (Inr (ctfe_bool (left \<ge> right)))
        | _ \<Rightarrow> Some (Inl InvalidOperator))"

definition checked_integer_binary :: "ctfe_value \<Rightarrow> binary_op \<Rightarrow> ctfe_value \<Rightarrow> (integer_eval_error + ctfe_value) option" where
  "checked_integer_binary v operator right =
     (if ctfe_ty v \<noteq> ctfe_ty right \<or> \<not> is_integer (ctfe_ty v) then Some (Inl TypeMismatch)
      else
        do { width \<leftarrow> integer_width NATIVE_TARGET (ctfe_ty v);
             if operator = ShiftL \<or> operator = ShiftR then
               (case shift_count right width of
                  Inl e \<Rightarrow> Some (Inl e)
                | Inr count \<Rightarrow> checked_shift v operator count)
             else if is_signed (ctfe_ty v) then
               do { right_bits \<leftarrow> to_bits width right;
                    l \<leftarrow> signed_integer_value v;
                    r \<leftarrow> signed_integer_value right;
                    if (operator = Div \<or> operator = Rem) \<and> r = - 1 \<and> signed_min NATIVE_TARGET (ctfe_ty v) = Some l
                    then Some (Inl Overflow)
                    else signed_binary v operator l r right_bits }
             else
               do { l \<leftarrow> unsigned_integer_value v;
                    r \<leftarrow> unsigned_integer_value right;
                    unsigned_binary v operator l r } })"

definition bool_value :: "ctfe_value \<Rightarrow> bool option" where
  "bool_value v = (case ctfe_kind v of BoolKind b \<Rightarrow> Some b | _ \<Rightarrow> None)"

definition ctfe_projection :: "ctfe_value \<Rightarrow> nat \<Rightarrow> ctfe_value option" where
  "ctfe_projection v index =
     (case ctfe_kind v of
        TupleKind fs \<Rightarrow> nth_opt fs index
      | ArrayKind fs \<Rightarrow> nth_opt fs index
      | StructKind _ fs \<Rightarrow> nth_opt fs index
      | EnumKind _ _ fs \<Rightarrow> nth_opt fs index
      | _ \<Rightarrow> None)"

subsection \<open>Literals and constants of the lowering\<close>

definition integer_fits :: "u128 \<Rightarrow> ty \<Rightarrow> bool" where
  "integer_fits v ty =
     (if is_signed ty then is_some_and (\<lambda>m. v \<le> m) (signed_max NATIVE_TARGET ty)
      else is_some_and (\<lambda>m. v \<le> m) (unsigned_max NATIVE_TARGET ty))"

definition negative_integer_fits :: "u128 \<Rightarrow> ty \<Rightarrow> bool" where
  "negative_integer_fits magnitude ty = is_some_and (\<lambda>m. magnitude \<le> unsigned_abs m) (signed_min NATIVE_TARGET ty)"

definition integer_value_fits :: "i128 \<Rightarrow> ty \<Rightarrow> bool" where
  "integer_value_fits v ty =
     (if is_signed ty then
        (case (signed_min NATIVE_TARGET ty, signed_max NATIVE_TARGET ty) of
           (Some lo, Some hi) \<Rightarrow> sint lo \<le> sint v \<and> sint v \<le> sint hi
         | _ \<Rightarrow> False)
      else 0 \<le> sint v \<and> is_some_and (\<lambda>m. v \<le> m) (unsigned_max NATIVE_TARGET ty))"

definition integer_bit_width :: "ty \<Rightarrow> nat" where
  "integer_bit_width ty = (case integer_width NATIVE_TARGET ty of Some w \<Rightarrow> w | None \<Rightarrow> 0)"

definition signed_integer_min :: "ty \<Rightarrow> i128 option" where
  "signed_integer_min ty = signed_min NATIVE_TARGET ty"

end
