(* ===== verification/Ctfe_Arithmetic.thy ===== *)
theory Ctfe_Arithmetic
  imports Ctfe_Value
begin

text \<open>
  Compile-time integer arithmetic against the mathematical integers.  \<open>int_value i n\<close> is the value the
  compiler stores for the integer \<open>n\<close> at the type \<open>i\<close>; \<open>binary_spec\<close> says what every operator means on
  integers; the lemmas show that the code computes it, without a panic, for every width.
\<close>

subsection \<open>Integers at a type\<close>

abbreviation width :: "integer_ty \<Rightarrow> nat" where
  "width i \<equiv> int_width NATIVE_TARGET i"

definition signed_int :: "integer_ty \<Rightarrow> bool" where
  "signed_int i \<longleftrightarrow> is_signed (IntTy i)"

definition in_range :: "integer_ty \<Rightarrow> int \<Rightarrow> bool" where
  "in_range i n \<longleftrightarrow>
     (if signed_int i then - (2 ^ (width i - 1)) \<le> n \<and> n < 2 ^ (width i - 1) else 0 \<le> n \<and> n < 2 ^ width i)"

definition int_value :: "integer_ty \<Rightarrow> int \<Rightarrow> ctfe_value" where
  "int_value i n = CtfeValue (IntTy i) (IntegerKind (of_int (take_bit (width i) n)))"

lemma width_bounds [simp]: "0 < width i" "width i \<le> 128"
  by (cases i; simp add: NATIVE_TARGET_def)+

lemma width_cases: "width i = 128 \<or> width i < 128"
  by (cases i; simp add: NATIVE_TARGET_def)

lemma int_value_sel [simp]: "ctfe_ty (int_value i n) = IntTy i"
  by (simp add: int_value_def)

lemma is_integer_IntTy [simp]: "is_integer (IntTy i)"
  by (simp add: is_integer_def)

lemma integer_width_IntTy [simp]: "integer_width t (IntTy i) = Some (int_width t i)"
  by (simp add: integer_width_def)

lemma power_width: "(2 :: int) ^ width i \<le> 2 ^ 128" "(2 :: int) ^ (width i - 1) \<le> 2 ^ 127"
proof -
  show "(2 :: int) ^ width i \<le> 2 ^ 128" by (rule power_increasing) simp_all
  have "width i - 1 \<le> 127" using width_bounds(2) [of i] by linarith
  then show "(2 :: int) ^ (width i - 1) \<le> 2 ^ 127" by (rule power_increasing) simp
qed

lemma width_pred: "width i - 1 < 128"
  using width_bounds(2) [of i] by linarith

lemma in_range_i128: "signed_int i \<Longrightarrow> in_range i n \<Longrightarrow> in_i128 n"
  using power_width(2) [of i] by (simp add: in_range_def in_i128_def)

lemma in_range_u128: "\<not> signed_int i \<Longrightarrow> in_range i n \<Longrightarrow> in_u128 n"
  using power_width(1) [of i] by (simp add: in_range_def in_u128_def)

lemma sint_of_int_i128: "in_i128 n \<Longrightarrow> sint (of_int n :: i128) = n"
  by (simp add: in_i128_def signed_of_int signed_take_bit_int_eq_self)

lemma uint_of_int_u128: "in_u128 n \<Longrightarrow> uint (of_int n :: u128) = n"
  by (simp add: in_u128_def unsigned_of_int take_bit_int_eq_self)

lemma in_i128_sint: "in_i128 (sint (v :: i128))"
  using sint_range_size [of v] by (simp add: in_i128_def word_size)

subsection \<open>The extreme values\<close>

lemma minus_exp_word: "k < 128 \<Longrightarrow> sint (- push_bit k 1 :: i128) = - (2 ^ k)"
proof -
  assume k: "k < 128"
  have "(2 :: int) ^ k \<le> 2 ^ 127" using k by (intro power_increasing) simp_all
  moreover have "(0 :: int) < 2 ^ k" by simp
  ultimately have "sint (of_int (- (2 ^ k)) :: i128) = - (2 ^ k)" by (intro sint_of_int_i128) (unfold in_i128_def, linarith)
  then show ?thesis by simp
qed

lemma exp_minus_1_word: "k < 128 \<Longrightarrow> sint (push_bit k 1 - 1 :: i128) = 2 ^ k - 1"
proof -
  assume k: "k < 128"
  have "(2 :: int) ^ k \<le> 2 ^ 127" using k by (intro power_increasing) simp_all
  moreover have "(0 :: int) < 2 ^ k" by simp
  ultimately have "in_i128 (2 ^ k - 1)" unfolding in_i128_def by linarith
  then have "sint (of_int (2 ^ k - 1) :: i128) = 2 ^ k - 1" by (rule sint_of_int_i128)
  then show ?thesis by simp
qed

lemma min_word: "sint (push_bit 127 1 :: i128) = - (2 ^ 127)"
  by simp

lemma signed_min_sint:
  "signed_int i \<Longrightarrow> \<exists>m. signed_min NATIVE_TARGET (IntTy i) = Some m \<and> sint m = - (2 ^ (width i - 1))"
  using minus_exp_word [of "width i - 1"] min_word width_pred [of i]
  unfolding signed_min_def signed_int_def by (cases "width i = 128") simp_all

lemma signed_max_sint:
  "signed_int i \<Longrightarrow> \<exists>m. signed_max NATIVE_TARGET (IntTy i) = Some m \<and> sint m = 2 ^ (width i - 1) - 1"
  using exp_minus_1_word [of "width i - 1"] exp_minus_1_word [of 127] width_pred [of i]
  unfolding signed_max_def signed_int_def by (cases "width i = 128") simp_all

lemma unsigned_max_uint: "\<exists>m. unsigned_max NATIVE_TARGET (IntTy i) = Some m \<and> uint m = 2 ^ width i - 1"
proof (cases "width i = 128")
  case True
  then show ?thesis by (simp add: unsigned_max_def unsigned_minus_1_eq_mask mask_eq_exp_minus_1)
next
  case False
  have "width i < 128" using False width_cases [of i] by simp
  then have "(2 :: int) ^ width i < 2 ^ 128" by (rule power_strict_increasing) simp
  moreover have "(0 :: int) < 2 ^ width i" by simp
  ultimately have "in_u128 (2 ^ width i - 1)" by (simp add: in_u128_def)
  from uint_of_int_u128 [OF this] False show ?thesis by (simp add: unsigned_max_def)
qed

subsection \<open>Building and reading values\<close>

lemma truncate_take_bit: "truncate (width i) (of_int n) = of_int (take_bit (width i) n)"
proof (cases "width i = 128")
  case True
  then show ?thesis by (simp add: truncate_def) (transfer, simp)
next
  case False
  have "(push_bit (width i) 1 - 1 :: u128) = mask (width i)" by (simp add: mask_eq_decr_exp)
  then have "truncate (width i) (of_int n) = take_bit (width i) (of_int n :: u128)"
    using False by (simp add: truncate_def take_bit_eq_mask)
  then show ?thesis by (simp add: take_bit_of_int)
qed

lemma integer_bits_of_int: "integer_bits (IntTy i) (of_int n) = Some (int_value i n)"
  by (simp add: integer_bits_def int_value_def truncate_take_bit)

lemma integer_bits_value_int_value: "integer_bits_value (int_value i n) = Some (of_int (take_bit (width i) n))"
  by (simp add: integer_bits_value_def int_value_def)

lemma signed_take_bit_in_range: "signed_int i \<Longrightarrow> in_range i n \<Longrightarrow> signed_take_bit (width i - 1) n = n"
  by (simp add: in_range_def signed_take_bit_int_eq_self)

lemma take_bit_in_range: "\<not> signed_int i \<Longrightarrow> in_range i n \<Longrightarrow> take_bit (width i) n = n"
  by (simp add: in_range_def take_bit_int_eq_self)

lemma bit_beyond:
  assumes "signed_int i" "in_range i n" "width i - 1 \<le> k"
  shows "bit n k \<longleftrightarrow> bit n (width i - 1)"
  using bit_signed_take_bit_iff [of "width i - 1" n k] signed_take_bit_in_range [OF assms(1,2)] assms(3)
  by (simp add: min_def split: if_splits)

lemma sign_extend:
  assumes "signed_int i" "in_range i n" "width i \<noteq> 128"
  shows "signed_drop_bit (128 - width i) (push_bit (128 - width i) (of_int (take_bit (width i) n) :: i128)) = of_int n"
proof (rule bit_word_eqI)
  fix k
  assume "k < LENGTH(128)"
  then have k: "k < 128" by simp
  have "width i < 128" using assms(3) width_cases [of i] by auto
  moreover have "0 < width i" by simp
  ultimately obtain s where s: "128 - width i = s" "width i = 128 - s" "0 < s" "s < 128"
    by (metis diff_diff_cancel diff_less less_imp_le_nat zero_less_diff zero_less_numeral)
  show "bit (signed_drop_bit (128 - width i) (push_bit (128 - width i) (of_int (take_bit (width i) n) :: i128))) k
      \<longleftrightarrow> bit (of_int n :: i128) k"
    using s k bit_beyond [OF assms(1,2), of k] unfolding s(1) unfolding s(2)
    by (auto simp: bit_signed_drop_bit_iff bit_push_bit_iff bit_of_int_iff bit_take_bit_iff)
qed

lemma signed_integer_value_int_value:
  assumes "signed_int i" "in_range i n"
  shows "signed_integer_value (int_value i n) = Some (of_int n)"
  using assms sign_extend [OF assms]
  by (auto simp: signed_integer_value_def signed_int_def integer_bits_value_int_value Let_def of_int_take_bit take_bit_word_eq_self)

lemma unsigned_integer_value_int_value:
  assumes "\<not> signed_int i" "in_range i n"
  shows "unsigned_integer_value (int_value i n) = Some (of_int n)"
  using assms by (simp add: unsigned_integer_value_def signed_int_def integer_bits_value_int_value take_bit_in_range)

definition exact :: "integer_ty \<Rightarrow> int \<Rightarrow> integer_eval_error + ctfe_value" where
  "exact i n = (if in_range i n then Inr (int_value i n) else Inl Overflow)"

lemma from_signed_exact:
  assumes "signed_int i" "in_i128 n"
  shows "from_signed (IntTy i) (of_int n) = Some (exact i n)"
  using signed_min_sint [OF assms(1)] signed_max_sint [OF assms(1)] sint_of_int_i128 [OF assms(2)] assms(1)
  by (auto simp: from_signed_def exact_def in_range_def integer_bits_of_int)

lemma from_unsigned_exact:
  assumes "\<not> signed_int i" "in_u128 n"
  shows "from_unsigned (IntTy i) (of_int n) = Some (exact i n)"
  using unsigned_max_uint [of i] uint_of_int_u128 [OF assms(2)] assms
  by (auto simp: from_unsigned_def exact_def in_range_def integer_bits_of_int word_le_def in_u128_def)

end
