(* ===== verification/Ctfe_Refinement.thy ===== *)
theory Ctfe_Refinement
  imports Ctfe_Arithmetic
begin

text \<open>
  The meaning of the operators on mathematical integers, and that \<open>checked_integer_binary\<close>,
  \<open>checked_integer_neg\<close> and \<open>integer_literal\<close> compute it on the values of integers.
\<close>

definition shift_spec :: "integer_ty \<Rightarrow> int \<Rightarrow> (nat \<Rightarrow> integer_eval_error + ctfe_value) \<Rightarrow> integer_eval_error + ctfe_value" where
  "shift_spec i b f = (if 0 \<le> b \<and> b < int (width i) then f (nat b) else Inl (InvalidShift (show_int b) (width i)))"

definition binary_spec :: "integer_ty \<Rightarrow> binary_op \<Rightarrow> int \<Rightarrow> int \<Rightarrow> integer_eval_error + ctfe_value" where
  "binary_spec i operator a b =
     (case operator of
        Add \<Rightarrow> exact i (a + b)
      | Sub \<Rightarrow> exact i (a - b)
      | Mul \<Rightarrow> exact i (a * b)
      | Div \<Rightarrow> if b = 0 then Inl DivisionByZero else exact i (trunc_div a b)
      | Rem \<Rightarrow>
          if b = 0 then Inl RemainderByZero
          else if \<not> in_range i (trunc_div a b) then Inl Overflow
          else Inr (int_value i (trunc_rem a b))
      | BitAnd \<Rightarrow> Inr (int_value i (a AND b))
      | BitOr \<Rightarrow> Inr (int_value i (a OR b))
      | BitXor \<Rightarrow> Inr (int_value i (a XOR b))
      | ShiftL \<Rightarrow> shift_spec i b (\<lambda>n. exact i (a * 2 ^ n))
      | ShiftR \<Rightarrow> shift_spec i b (\<lambda>n. Inr (int_value i (a div 2 ^ n)))
      | CmpEq \<Rightarrow> Inr (ctfe_bool (a = b))
      | CmpNe \<Rightarrow> Inr (ctfe_bool (a \<noteq> b))
      | CmpLt \<Rightarrow> Inr (ctfe_bool (a < b))
      | CmpLe \<Rightarrow> Inr (ctfe_bool (a \<le> b))
      | CmpGt \<Rightarrow> Inr (ctfe_bool (a > b))
      | CmpGe \<Rightarrow> Inr (ctfe_bool (a \<ge> b))
      | LogAnd \<Rightarrow> Inl InvalidOperator
      | LogOr \<Rightarrow> Inl InvalidOperator)"

subsection \<open>Arithmetic steps\<close>

lemma signed_arith:
  assumes "signed_int i"
  shows "(case checked_i128 n of None \<Rightarrow> Some (Inl Overflow) | Some w \<Rightarrow> from_signed (IntTy i) w) = Some (exact i n)"
  using from_signed_exact [OF assms, of n] in_range_i128 [OF assms, of n]
  by (auto simp: checked_i128_def exact_def)

lemma unsigned_arith:
  assumes "\<not> signed_int i"
  shows "(case checked_u128 n of None \<Rightarrow> Some (Inl Overflow) | Some w \<Rightarrow> from_unsigned (IntTy i) w) = Some (exact i n)"
  using from_unsigned_exact [OF assms, of n] in_range_u128 [OF assms, of n]
  by (auto simp: checked_u128_def exact_def)

lemma of_int_inject_i128: "in_i128 a \<Longrightarrow> in_i128 b \<Longrightarrow> (of_int a :: i128) = of_int b \<longleftrightarrow> a = b"
  using sint_of_int_i128 by metis

lemma of_int_inject_u128: "in_u128 a \<Longrightarrow> in_u128 b \<Longrightarrow> (of_int a :: u128) = of_int b \<longleftrightarrow> a = b"
  using uint_of_int_u128 by metis

lemma word_bits_int:
  "integer_bits (IntTy i) (of_int (take_bit (width i) a) AND of_int (take_bit (width i) b)) = Some (int_value i (a AND b))"
  "integer_bits (IntTy i) (of_int (take_bit (width i) a) OR of_int (take_bit (width i) b)) = Some (int_value i (a OR b))"
  "integer_bits (IntTy i) (of_int (take_bit (width i) a) XOR of_int (take_bit (width i) b)) = Some (int_value i (a XOR b))"
  by (simp_all add: integer_bits_of_int int_value_def flip: of_int_and_eq of_int_or_eq of_int_xor_eq)

lemma to_bits_int_value: "to_bits (width i) (int_value i n) = Some (of_int (take_bit (width i) n))"
  by (simp add: to_bits_def integer_bits_value_int_value truncate_take_bit)

text \<open>Division: the only quotient out of range is the one of the least number by \<open>-1\<close>.\<close>

lemma trunc_div_abs: "b \<noteq> 0 \<Longrightarrow> \<bar>trunc_div a b\<bar> = \<bar>a\<bar> div \<bar>b\<bar>"
  by (cases "a = 0") (simp_all add: trunc_div_def abs_mult pos_imp_zdiv_nonneg_iff)

lemma trunc_div_units: "trunc_div a (- 1) = - a" "trunc_div a 1 = a"
  by (auto simp: trunc_div_def sgn_if)

lemma trunc_div_nonneg: "0 \<le> a \<Longrightarrow> 0 < b \<Longrightarrow> trunc_div a b = a div b"
  by (auto simp: trunc_div_def sgn_if)

lemma trunc_rem_nonneg: "0 \<le> a \<Longrightarrow> 0 < b \<Longrightarrow> trunc_rem a b = a mod b"
  by (simp add: trunc_rem_def trunc_div_nonneg minus_mult_div_eq_mod)

lemma trunc_rem_sgn: "trunc_rem a b = sgn a * (\<bar>a\<bar> mod \<bar>b\<bar>)"
proof -
  have "b * trunc_div a b = sgn a * (\<bar>b\<bar> * (\<bar>a\<bar> div \<bar>b\<bar>))"
    by (simp add: trunc_div_def abs_sgn ac_simps)
  then have "trunc_rem a b = sgn a * \<bar>a\<bar> - sgn a * (\<bar>b\<bar> * (\<bar>a\<bar> div \<bar>b\<bar>))"
    by (simp add: trunc_rem_def sgn_mult_abs)
  also have "\<dots> = sgn a * (\<bar>a\<bar> mod \<bar>b\<bar>)" by (simp add: right_diff_distrib [symmetric] minus_mult_div_eq_mod)
  finally show ?thesis .
qed

lemma trunc_rem_range:
  assumes "in_range i a" "b \<noteq> 0"
  shows "in_range i (trunc_rem a b)"
proof -
  have "0 \<le> \<bar>a\<bar> mod \<bar>b\<bar>" using assms(2) by simp
  moreover have "\<bar>a\<bar> mod \<bar>b\<bar> \<le> \<bar>a\<bar>" by (simp add: zmod_le_nonneg_dividend)
  moreover have "(0 :: int) < 2 ^ (width i - 1)" "(0 :: int) < 2 ^ width i" by simp_all
  ultimately show ?thesis using assms(1) by (auto simp: trunc_rem_sgn in_range_def sgn_if split: if_splits)
qed

lemma trunc_div_range:
  assumes "signed_int i" "in_range i a" "b \<noteq> 0"
  shows "in_range i (trunc_div a b) \<longleftrightarrow> \<not> (b = - 1 \<and> a = - (2 ^ (width i - 1)))"
proof -
  define m where "m = (2 :: int) ^ (width i - 1)"
  have m: "0 < m" by (simp add: m_def)
  have a: "- m \<le> a" "a < m" using assms(1,2) by (simp_all add: in_range_def m_def)
  have r: "in_range i x \<longleftrightarrow> - m \<le> x \<and> x < m" for x using assms(1) by (simp add: in_range_def m_def)
  consider "b = - 1" | "b = 1" | "2 \<le> \<bar>b\<bar>" using assms(3) by linarith
  then show ?thesis
  proof cases
    case 1
    have "- m \<le> - a \<and> - a < m \<longleftrightarrow> a \<noteq> - m" using a by linarith
    then show ?thesis using 1 unfolding m_def [symmetric] r by (simp only: 1 trunc_div_units simp_thms)
  next
    case 2
    then show ?thesis using assms(2) by (simp add: trunc_div_units)
  next
    case 3
    have "\<bar>trunc_div a b\<bar> \<le> \<bar>a\<bar> div 2"
      unfolding trunc_div_abs [OF assms(3)] using 3 by (intro zdiv_mono2) simp_all
    then have "- m \<le> trunc_div a b \<and> trunc_div a b < m" using a m by linarith
    moreover have "b \<noteq> - 1" using 3 by auto
    ultimately show ?thesis unfolding r by simp
  qed
qed

lemma unsigned_div_range:
  assumes "\<not> signed_int i" "in_range i a" "in_range i b" "b \<noteq> 0"
  shows "trunc_div a b = a div b" "trunc_rem a b = a mod b" "in_range i (a div b)"
proof -
  have ab: "0 \<le> a" "0 < b" using assms by (auto simp: in_range_def)
  then show "trunc_div a b = a div b" "trunc_rem a b = a mod b"
    by (simp_all add: trunc_div_nonneg trunc_rem_nonneg)
  have "0 \<le> a div b" "a div b \<le> a" using ab zdiv_mono2 [of a 1 b] by (simp_all add: pos_imp_zdiv_nonneg_iff)
  then show "in_range i (a div b)" using assms(1,2) by (auto simp: in_range_def)
qed

subsection \<open>Binary operators\<close>

lemma signed_binary_spec:
  assumes "signed_int i" "in_range i a" "in_range i b"
    and "operator \<notin> {ShiftL, ShiftR}" "\<not> ((operator = Div \<or> operator = Rem) \<and> b = - 1 \<and> a = - (2 ^ (width i - 1)))"
  shows "signed_binary (int_value i a) operator (of_int a) (of_int b) (of_int (take_bit (width i) b)) =
    Some (binary_spec i operator a b)"
proof -
  have r: "in_i128 a" "in_i128 b" "in_i128 0"
    using in_range_i128 [OF assms(1)] assms(2,3) by (simp_all add: in_i128_def)
  have e: "(of_int a :: i128) = of_int b \<longleftrightarrow> a = b" "(of_int b :: i128) = 0 \<longleftrightarrow> b = 0"
    using of_int_inject_i128 [OF r(1,2)] of_int_inject_i128 [OF r(2,3)] by simp_all
  note simps = signed_binary_def Let_def binary_spec_def sint_of_int_i128 [OF r(1)] sint_of_int_i128 [OF r(2)] e
    signed_arith [OF assms(1)] integer_bits_value_int_value word_bits_int
  have d: "b \<noteq> 0 \<Longrightarrow> operator = Rem \<Longrightarrow> in_range i (trunc_div a b)"
    using trunc_div_range [OF assms(1,2), of b] assms(5) by blast
  show ?thesis
    using assms(4) d trunc_rem_range [OF assms(2), of b] by (cases operator) (simp_all add: simps exact_def)
qed

lemma unsigned_bits_range:
  assumes "\<not> signed_int i" "in_range i a" "in_range i b"
  shows "in_range i (a AND b)" "in_range i (a OR b)" "in_range i (a XOR b)"
  using assms by (auto simp: in_range_def AND_lower intro: order.strict_trans1 [OF AND_upper1] OR_upper XOR_upper)

lemma unsigned_bits:
  assumes "\<not> signed_int i" "in_range i a" "in_range i b"
  shows "from_unsigned (IntTy i) (of_int a AND of_int b) = Some (Inr (int_value i (a AND b)))"
    "from_unsigned (IntTy i) (of_int a OR of_int b) = Some (Inr (int_value i (a OR b)))"
    "from_unsigned (IntTy i) (of_int a XOR of_int b) = Some (Inr (int_value i (a XOR b)))"
  using from_unsigned_exact [OF assms(1) in_range_u128 [OF assms(1)]] unsigned_bits_range [OF assms]
  by (simp_all add: exact_def flip: of_int_and_eq of_int_or_eq of_int_xor_eq)

lemma unsigned_binary_spec:
  assumes "\<not> signed_int i" "in_range i a" "in_range i b" "operator \<notin> {ShiftL, ShiftR}"
  shows "unsigned_binary (int_value i a) operator (of_int a) (of_int b) = Some (binary_spec i operator a b)"
proof -
  have r: "in_u128 a" "in_u128 b" "in_u128 0"
    using in_range_u128 [OF assms(1)] assms(2,3) by (simp_all add: in_u128_def)
  have e: "(of_int a :: u128) = of_int b \<longleftrightarrow> a = b" "(of_int b :: u128) = 0 \<longleftrightarrow> b = 0"
    using of_int_inject_u128 [OF r(1,2)] of_int_inject_u128 [OF r(2,3)] by simp_all
  note simps = unsigned_binary_def Let_def binary_spec_def uint_of_int_u128 [OF r(1)] uint_of_int_u128 [OF r(2)] e
    unsigned_arith [OF assms(1)] unsigned_bits [OF assms(1-3)] word_less_def word_le_def
  have d: "b \<noteq> 0 \<Longrightarrow> in_range i (a div b) \<and> trunc_div a b = a div b \<and> trunc_rem a b = a mod b"
    using unsigned_div_range [OF assms(1-3)] by blast
  show ?thesis
    using assms(4) d trunc_rem_range [OF assms(2), of b] by (cases operator) (simp_all add: simps exact_def)
qed

subsection \<open>Shifts\<close>

lemma in_range_nonneg_u128: "in_range i b \<Longrightarrow> 0 \<le> b \<Longrightarrow> in_u128 b"
  using power_width [of i] by (auto simp: in_range_def in_u128_def split: if_splits)

lemma nonnegative_int_value:
  assumes "in_range i b"
  shows "nonnegative_integer_value (int_value i b) = (if 0 \<le> b then Some (of_int b) else None)"
proof (cases "signed_int i")
  case True
  then show ?thesis
    using signed_integer_value_int_value [OF True assms] sint_of_int_i128 [OF in_range_i128 [OF True assms]]
    by (simp add: nonnegative_integer_value_def signed_int_def)
next
  case False
  then show ?thesis
    using unsigned_integer_value_int_value [OF False assms] assms
    by (simp add: nonnegative_integer_value_def signed_int_def in_range_def)
qed

lemma integer_display_int_value:
  assumes "in_range i b"
  shows "integer_display (int_value i b) = Some (show_int b)"
proof (cases "signed_int i")
  case True
  then show ?thesis
    using signed_integer_value_int_value [OF True assms] sint_of_int_i128 [OF in_range_i128 [OF True assms]]
    by (simp add: integer_display_def signed_int_def)
next
  case False
  then show ?thesis
    using unsigned_integer_value_int_value [OF False assms] uint_of_int_u128 [OF in_range_u128 [OF False assms]]
    by (simp add: integer_display_def signed_int_def)
qed

lemma shift_count_int_value:
  assumes "in_range i b"
  shows "shift_count (int_value i b) (width i) =
    (if 0 \<le> b \<and> b < int (width i) then Inr (nat b) else Inl (InvalidShift (show_int b) (width i)))"
proof (cases "0 \<le> b")
  case False
  then show ?thesis
    by (simp add: shift_count_def nonnegative_int_value [OF assms] integer_display_int_value [OF assms])
next
  case True
  have u: "uint (of_int b :: u128) = b" by (rule uint_of_int_u128 [OF in_range_nonneg_u128 [OF assms True]])
  then have n: "unat (of_int b :: u128) = nat b" by (simp only: unat_eq_nat_uint)
  have "b < 2 ^ 32" if "b < int (width i)"
  proof -
    have "b < 128" using that width_bounds(2) [of i] by linarith
    then show ?thesis by simp
  qed
  then show ?thesis
    using True u n by (auto simp add: shift_count_def nonnegative_int_value [OF assms] integer_display_int_value [OF assms]
        simp del: of_nat_numeral)
qed

lemma le_div_iff: "0 < p \<Longrightarrow> a \<le> b div p \<longleftrightarrow> a * p \<le> b" for a b p :: int
proof
  assume p: "0 < p"
  show "a \<le> b div p" if "a * p \<le> b"
    using zdiv_mono1 [OF that p] p by simp
  show "a * p \<le> b" if "a \<le> b div p"
  proof -
    have "a * p \<le> (b div p) * p" using that p by simp
    also have "\<dots> = b - b mod p" by (rule minus_mod_eq_div_mult [symmetric])
    also have "\<dots> \<le> b" using p by simp
    finally show ?thesis .
  qed
qed

lemma shift_right_range: "in_range i a \<Longrightarrow> in_range i (a div 2 ^ n)"
proof -
  assume a: "in_range i a"
  have p: "(1 :: int) \<le> 2 ^ n" by simp
  have lo: "- (m :: int) \<le> a div 2 ^ n" if "0 \<le> m" "- m \<le> a" for m
  proof -
    have "m * 1 \<le> m * 2 ^ n" using p that(1) by (rule mult_left_mono)
    then have "- m * 2 ^ n \<le> a" using that(2) by simp
    then show ?thesis using le_div_iff [of "2 ^ n" "- m" a] by simp
  qed
  have hi: "a div 2 ^ n < m" if "0 < m" "a < m" for m
  proof (cases "0 \<le> a")
    case True
    then have "a div 2 ^ n \<le> a" using zdiv_mono2 [of a 1 "2 ^ n"] by simp
    then show ?thesis using that by linarith
  next
    case False
    then have "a div 2 ^ n < 0" using le_div_iff [of "2 ^ n" 0 a] by simp
    then show ?thesis using that by linarith
  qed
  show ?thesis using a lo [of "2 ^ (width i - 1)"] lo [of 0] hi [of "2 ^ (width i - 1)"] hi [of "2 ^ width i"]
    by (auto simp: in_range_def split: if_splits)
qed

lemma signed_shift_right:
  assumes "in_i128 a"
  shows "signed_drop_bit n (of_int a :: i128) = of_int (a div 2 ^ n)"
proof -
  have "signed_drop_bit n (of_int a :: i128) = of_int (drop_bit n (sint (of_int a :: i128)))"
    by transfer simp
  then show ?thesis by (simp only: sint_of_int_i128 [OF assms] drop_bit_eq_div)
qed

lemma take_bit_in_u128: "in_u128 a \<Longrightarrow> take_bit LENGTH(128) a = a"
  by (simp add: in_u128_def take_bit_int_eq_self)

lemma unsigned_shift_right:
  assumes "in_u128 a"
  shows "drop_bit n (of_int a :: u128) = of_int (a div 2 ^ n)"
proof -
  have "uint (drop_bit n (of_int a :: u128)) = drop_bit n (take_bit LENGTH(128) (uint (of_int a :: u128)))"
    by (rule unsigned_drop_bit_eq)
  also have "\<dots> = a div 2 ^ n"
    by (simp only: uint_of_int_u128 [OF assms] take_bit_in_u128 [OF assms]) (rule drop_bit_eq_div)
  finally have "uint (drop_bit n (of_int a :: u128)) = a div 2 ^ n" .
  then show ?thesis by (metis word_of_int_uint)
qed

lemma checked_shift_right:
  assumes "in_range i a"
  shows "checked_shift (int_value i a) ShiftR n = Some (Inr (int_value i (a div 2 ^ n)))"
proof (cases "signed_int i")
  case True
  have "in_i128 (a div 2 ^ n)" by (rule in_range_i128 [OF True shift_right_range [OF assms]])
  then show ?thesis
    using True signed_shift_right [OF in_range_i128 [OF True assms], of n] shift_right_range [OF assms, of n]
    by (simp add: checked_shift_def signed_int_def signed_integer_value_int_value [OF True assms]
        from_signed_exact [OF True] exact_def)
next
  case False
  have "in_u128 (a div 2 ^ n)" by (rule in_range_u128 [OF False shift_right_range [OF assms]])
  moreover have "\<not> is_signed (IntTy i)" using False by (simp add: signed_int_def)
  moreover obtain m where "unsigned_max NATIVE_TARGET (IntTy i) = Some m" using unsigned_max_uint by blast
  ultimately show ?thesis
    using shift_right_range [OF assms, of n]
    unfolding checked_shift_def unsigned_integer_value_int_value [OF False assms] int_value_sel
    by (simp only: if_False Option.bind.bind_lunit binary_op.case unsigned_shift_right [OF in_range_u128 [OF False assms]]
        from_unsigned_exact [OF False] exact_def if_True)
qed

text \<open>A signed shift to the left is a multiplication, the shift by 127 included.\<close>

lemma checked_shift_left_signed:
  assumes "signed_int i" "in_range i a" "n < width i"
  shows "checked_shift (int_value i a) ShiftL n = Some (exact i (a * 2 ^ n))"
proof -
  have s: "is_signed (IntTy i)" using assms(1) by (simp add: signed_int_def)
  have a: "in_i128 a" by (rule in_range_i128 [OF assms(1,2)])
  show ?thesis
  proof (cases "n = 127")
    case False
    have "n < 127" using False assms(3) width_bounds(2) [of i] by linarith
    then have "(2 :: int) ^ n < 2 ^ 127" by (rule power_strict_increasing) simp
    moreover have "(0 :: int) < 2 ^ n" by simp
    ultimately have "in_i128 (2 ^ n)" unfolding in_i128_def by linarith
    from sint_of_int_i128 [OF this] have "sint (push_bit n 1 :: i128) = 2 ^ n" by simp
    then show ?thesis
      using False s signed_arith [OF assms(1), of "a * 2 ^ n"] sint_of_int_i128 [OF a]
      unfolding checked_shift_def int_value_sel by (simp add: signed_integer_value_int_value [OF assms(1,2)])
  next
    case True
    then have w: "width i = 128" using assms(3) width_cases [of i] by auto
    have e: "(of_int a :: i128) = - 1 \<longleftrightarrow> a = - 1" "(of_int a :: i128) = 0 \<longleftrightarrow> a = 0"
      using of_int_inject_i128 [OF a, of "- 1"] of_int_inject_i128 [OF a, of 0] by (simp_all add: in_i128_def)
    have r: "in_range i x \<longleftrightarrow> - (2 ^ 127) \<le> x \<and> x < 2 ^ 127" for x using assms(1) w by (simp add: in_range_def)
    have far: "a \<notin> {- 1, 0} \<Longrightarrow> \<not> in_range i (a * 2 ^ 127)" unfolding r by simp
    have pb: "(push_bit 127 1 :: i128) = of_int (- (2 ^ 127))" by simp
    have "from_signed (IntTy i) (push_bit 127 1) = Some (exact i (- (2 ^ 127)))"
      unfolding pb by (rule from_signed_exact [OF assms(1)]) (simp add: in_i128_def)
    moreover have "from_signed (IntTy i) (of_int 0) = Some (exact i 0)"
      by (rule from_signed_exact [OF assms(1)]) (simp add: in_i128_def)
    ultimately show ?thesis
      using True s far by (auto simp: checked_shift_def signed_integer_value_int_value [OF assms(1,2)] e exact_def)
  qed
qed

lemma checked_shift_left_unsigned:
  assumes "\<not> signed_int i" "in_range i a" "n < width i"
  shows "checked_shift (int_value i a) ShiftL n = Some (exact i (a * 2 ^ n))"
proof -
  have s: "\<not> is_signed (IntTy i)" using assms(1) by (simp add: signed_int_def)
  have a: "in_u128 a" by (rule in_range_u128 [OF assms(1,2)])
  obtain m where m: "unsigned_max NATIVE_TARGET (IntTy i) = Some m" "uint m = 2 ^ width i - 1"
    using unsigned_max_uint by blast
  have mr: "in_u128 (2 ^ width i - 1)" "m = of_int (2 ^ width i - 1)"
    using power_width(1) [of i] m(2) by (simp add: in_u128_def) (metis m(2) word_of_int_uint)
  have d: "drop_bit n m = of_int ((2 ^ width i - 1) div 2 ^ n)" unfolding mr(2) by (rule unsigned_shift_right [OF mr(1)])
  have "(2 ^ width i - 1) div (2 :: int) ^ n \<le> 2 ^ width i - 1" "0 \<le> (2 ^ width i - 1) div (2 :: int) ^ n"
    using zdiv_mono2 [of "2 ^ width i - 1" 1 "2 ^ n"] by (simp_all add: pos_imp_zdiv_nonneg_iff)
  then have "in_u128 ((2 ^ width i - 1) div 2 ^ n)" using mr(1) unfolding in_u128_def by linarith
  from uint_of_int_u128 [OF this] have u: "uint (drop_bit n m) = (2 ^ width i - 1) div 2 ^ n" unfolding d .
  have le: "(of_int a :: u128) \<le> drop_bit n m \<longleftrightarrow> a \<le> (2 ^ width i - 1) div 2 ^ n"
    unfolding word_le_def u uint_of_int_u128 [OF a] ..
  have "a \<le> (2 ^ width i - 1) div 2 ^ n \<longleftrightarrow> a * 2 ^ n \<le> 2 ^ width i - 1" by (rule le_div_iff) simp
  moreover have "0 \<le> a" using assms(1,2) by (simp add: in_range_def)
  ultimately have r: "(of_int a :: u128) \<le> drop_bit n m \<longleftrightarrow> in_range i (a * 2 ^ n)"
    using assms(1) unfolding le by (auto simp: in_range_def)
  have p: "push_bit n (of_int a :: u128) = of_int (a * 2 ^ n)" by (simp add: push_bit_eq_mult)
  have "in_range i (a * 2 ^ n) \<Longrightarrow> from_unsigned (IntTy i) (of_int (a * 2 ^ n)) = Some (Inr (int_value i (a * 2 ^ n)))"
    using from_unsigned_exact [OF assms(1) in_range_u128 [OF assms(1)], of "a * 2 ^ n"] by (simp add: exact_def)
  then show ?thesis
    using s unfolding checked_shift_def unsigned_integer_value_int_value [OF assms(1,2)] int_value_sel m(1)
    by (simp only: if_False Option.bind.bind_lunit binary_op.case r p exact_def split: if_split) simp
qed

subsection \<open>The operations\<close>

theorem checked_integer_binary_spec:
  assumes "in_range i a" "in_range i b"
  shows "checked_integer_binary (int_value i a) operator (int_value i b) = Some (binary_spec i operator a b)"
proof (cases "operator = ShiftL \<or> operator = ShiftR")
  case True
  have "checked_shift (int_value i a) operator (nat b) =
      Some (if operator = ShiftL then exact i (a * 2 ^ nat b) else Inr (int_value i (a div 2 ^ nat b)))"
    if "0 \<le> b" "b < int (width i)"
  proof -
    have "nat b < width i" using that by linarith
    then show ?thesis
      using True checked_shift_left_signed [OF _ assms(1)] checked_shift_left_unsigned [OF _ assms(1)]
        checked_shift_right [OF assms(1)] by (cases "signed_int i") auto
  qed
  then show ?thesis
    using True shift_count_int_value [OF assms(2)]
    by (auto simp: checked_integer_binary_def binary_spec_def shift_spec_def)
next
  case False
  show ?thesis
  proof (cases "signed_int i")
    case True
    obtain m where m: "signed_min NATIVE_TARGET (IntTy i) = Some m" "sint m = - (2 ^ (width i - 1))"
      using signed_min_sint [OF True] by blast
    have r: "in_i128 a" "in_i128 b" using in_range_i128 [OF True] assms by simp_all
    have "(m = of_int a) = (a = - (2 ^ (width i - 1)))" using m(2) sint_of_int_i128 [OF r(1)] by (metis signed_word_eqI)
    moreover have "(of_int b :: i128) = - 1 \<longleftrightarrow> b = - 1"
      using of_int_inject_i128 [OF r(2), of "- 1"] by (simp add: in_i128_def)
    moreover have "binary_spec i operator a b = Inl Overflow"
      if "operator = Div \<or> operator = Rem" "b = - 1" "a = - (2 ^ (width i - 1))"
      using that trunc_div_range [OF True assms(1), of b] by (auto simp: binary_spec_def exact_def)
    ultimately show ?thesis
      using True False signed_binary_spec [OF True assms, of operator] m(1)
      by (auto simp: checked_integer_binary_def signed_int_def to_bits_int_value
          signed_integer_value_int_value [OF True] assms)
  next
    case u: False
    then show ?thesis
      using False unsigned_binary_spec [OF u assms, of operator] unsigned_integer_value_int_value [OF u] assms
      by (simp add: checked_integer_binary_def signed_int_def)
  qed
qed

end
