(* ===== verification/Ctfe_Properties.thy ===== *)
theory Ctfe_Properties
  imports Ctfe_Refinement
begin

text \<open>
  What is shown of \<open>compiler/src/codegen/ctfe_value.rs\<close> and \<open>compiler/src/codegen/target.rs\<close>: literals,
  negation and the operators are exact or refused at every integer type, and values stay normalised.
\<close>

subsection \<open>Literals and negation\<close>

definition literal_spec :: "integer_ty \<Rightarrow> u128 \<Rightarrow> bool \<Rightarrow> literal_error + ctfe_value" where
  "literal_spec i m negative =
     (if negative \<and> \<not> signed_int i then Inl (NegativeUnsigned (IntTy i))
      else
        (let n = (if negative then - uint m else uint m) in
         if in_range i n then Inr (int_value i n) else Inl (DoesNotFit negative m (IntTy i))))"

lemma uint_nonneg: "0 \<le> uint w"
  by simp

lemma half_in_u128: "in_u128 (2 ^ (width i - 1))" "in_u128 (2 ^ (width i - 1) - 1)"
proof -
  have "(0 :: int) < 2 ^ (width i - 1)" "(2 :: int) ^ 127 < 2 ^ 128" by simp_all
  then show "in_u128 (2 ^ (width i - 1))" "in_u128 (2 ^ (width i - 1) - 1)"
    using power_width(2) [of i] unfolding in_u128_def by linarith+
qed

lemma literal_negative:
  assumes "signed_int i"
  shows "integer_literal (IntTy i) m True = Some (literal_spec i m True)"
proof -
  obtain lo where lo: "signed_min NATIVE_TARGET (IntTy i) = Some lo" "sint lo = - (2 ^ (width i - 1))"
    using signed_min_sint [OF assms] by blast
  have pos: "(0 :: int) < 2 ^ (width i - 1)" by simp
  have "uint (unsigned_abs lo) = 2 ^ (width i - 1)"
    using uint_of_int_u128 [OF half_in_u128(1)] by (simp add: unsigned_abs_def lo(2))
  moreover have "in_range i (- uint m) \<longleftrightarrow> uint m \<le> 2 ^ (width i - 1)"
  proof -
    have "- uint m < 2 ^ (width i - 1)" using pos uint_nonneg [of m] by linarith
    then show ?thesis using assms by (auto simp: in_range_def)
  qed
  ultimately have "m > unsigned_abs lo \<longleftrightarrow> \<not> in_range i (- uint m)" by (simp add: word_less_def not_le)
  moreover have "integer_bits (IntTy i) (0 - m) = Some (int_value i (- uint m))"
    using integer_bits_of_int [of i "- uint m"] by simp
  ultimately show ?thesis using assms lo(1) by (simp add: integer_literal_def literal_spec_def)
qed

lemma literal_positive: "integer_literal (IntTy i) m False = Some (literal_spec i m False)"
proof -
  have bits: "integer_bits (IntTy i) m = Some (int_value i (uint m))"
    using integer_bits_of_int [of i "uint m"] by simp
  show ?thesis
  proof (cases "signed_int i")
    case True
    obtain hi where hi: "signed_max NATIVE_TARGET (IntTy i) = Some hi" "sint hi = 2 ^ (width i - 1) - 1"
      using signed_max_sint [OF True] by blast
    have pos: "(0 :: int) < 2 ^ (width i - 1)" by simp
    have "hi = of_int (2 ^ (width i - 1) - 1)" unfolding hi(2) [symmetric] by simp
    then have "uint hi = 2 ^ (width i - 1) - 1" using uint_of_int_u128 [OF half_in_u128(2)] by simp
    moreover have "in_range i (uint m) \<longleftrightarrow> uint m \<le> 2 ^ (width i - 1) - 1"
      using True pos uint_nonneg [of m] by (auto simp: in_range_def intro: order_trans [of _ 0])
    ultimately show ?thesis
      using True hi(1) bits by (simp add: integer_literal_def literal_spec_def signed_int_def word_le_def)
  next
    case False
    obtain hi where hi: "unsigned_max NATIVE_TARGET (IntTy i) = Some hi" "uint hi = 2 ^ width i - 1"
      using unsigned_max_uint by blast
    have "in_range i (uint m) \<longleftrightarrow> uint m \<le> 2 ^ width i - 1" using False by (auto simp: in_range_def)
    then show ?thesis
      using False hi bits by (simp add: integer_literal_def literal_spec_def signed_int_def word_le_def)
  qed
qed

lemma literal_spec: "integer_literal (IntTy i) m negative = Some (literal_spec i m negative)"
proof (cases "negative \<and> \<not> signed_int i")
  case True
  then show ?thesis by (auto simp: integer_literal_def literal_spec_def signed_min_def signed_int_def)
next
  case False
  then show ?thesis using literal_negative literal_positive by (cases negative) auto
qed

text \<open>
  C24: An integer literal has exactly the value of its digits and sign at every integer type; one
  that is out of the range of the type, or negative at an unsigned type, is refused.
\<close>
theorem literal_exact:
  "integer_literal (IntTy i) m negative =
     Some (if negative \<and> \<not> signed_int i then Inl (NegativeUnsigned (IntTy i))
           else if in_range i (if negative then - uint m else uint m)
           then Inr (int_value i (if negative then - uint m else uint m))
           else Inl (DoesNotFit negative m (IntTy i)))"
  unfolding literal_spec literal_spec_def Let_def ..

text \<open>
  A literal is displayed as it was written: the value that is stored for an accepted literal
  prints as its sign and its decimal digits, at every width.
\<close>
theorem literal_displayed:
  assumes "integer_literal (IntTy i) m negative = Some (Inr v)"
  shows "integer_display v = Some (show_int (if negative then - uint m else uint m))"
proof -
  have "literal_spec i m negative = Inr v" using assms by (simp add: literal_spec)
  then show ?thesis
    using integer_display_int_value by (auto simp: literal_spec_def Let_def split: if_splits)
qed

theorem literal_displayed_witness:
  "integer_display (int_value I8 (- 128)) = Some (lit ''-128'')"
proof -
  have "integer_literal (IntTy I8) 128 True = Some (Inr (int_value I8 (- 128)))"
    unfolding literal_spec by (simp add: literal_spec_def signed_int_def is_signed_def in_range_def NATIVE_TARGET_def)
  from literal_displayed [OF this] show ?thesis
    by (simp add: show_int_def lit_def decimal.simps)
qed

text \<open>
  Negation is exact: it gives the negated integer, overflows only at the least value of the
  type, and is refused at unsigned types.
\<close>
theorem negation_exact:
  assumes "in_range i n"
  shows "checked_integer_neg (int_value i n) =
    Some (if \<not> signed_int i then Inl InvalidNegation
          else if n = - (2 ^ (int_width NATIVE_TARGET i - 1)) then Inl Overflow
          else Inr (int_value i (- n)))"
proof (cases "signed_int i")
  case True
  have "in_range i (- n) \<longleftrightarrow> n \<noteq> - (2 ^ (width i - 1))" using True assms by (auto simp: in_range_def)
  then show ?thesis
    using True signed_arith [OF True, of "- n"] sint_of_int_i128 [OF in_range_i128 [OF True assms]]
    unfolding checked_integer_neg_def int_value_sel by (simp add: signed_integer_value_int_value [OF True assms] exact_def)
next
  case False
  then show ?thesis by (simp add: checked_integer_neg_def signed_integer_value_def signed_int_def)
qed

theorem negation_exact_witness:
  "checked_integer_neg (int_value I16 (- 32768)) = Some (Inl Overflow)"
  using negation_exact [of I16 "- 32768"] by (simp add: in_range_def signed_int_def is_signed_def NATIVE_TARGET_def)

subsection \<open>Operators\<close>

text \<open>
  C10: Compile-time arithmetic is the arithmetic of the mathematical integers: at every integer type
  and for every operator the result is the one of the integers (division towards zero, shifts as
  multiplication and floor division by a power of two), and exactly the results out of range, the
  divisions by zero and the shifts by the width or more are errors; nothing panics or wraps.
\<close>
theorem checked_binary_refines:
  assumes "in_range i a" "in_range i b"
  shows "checked_integer_binary (int_value i a) operator (int_value i b) = Some (binary_spec i operator a b)"
  by (rule checked_integer_binary_spec [OF assms])

theorem checked_binary_refines_witness:
  "checked_integer_binary (int_value I8 (- 128)) Div (int_value I8 (- 1)) = Some (Inl Overflow)"
  using checked_binary_refines [of I8 "- 128" "- 1" Div]
  by (simp add: in_range_def signed_int_def is_signed_def NATIVE_TARGET_def binary_spec_def exact_def trunc_div_def)

text \<open>A normalised integer value: the bits above the width of its type are zero.\<close>

fun int_ok :: "ctfe_value \<Rightarrow> bool" where
  "int_ok (CtfeValue (IntTy i) (IntegerKind bits)) \<longleftrightarrow> uint bits < 2 ^ int_width NATIVE_TARGET i"
| "int_ok _ \<longleftrightarrow> False"

lemma int_ok_int_value: "int_ok (int_value i n)"
proof -
  have t: "take_bit (width i) n < 2 ^ width i" "0 \<le> take_bit (width i) n" by simp_all
  then have "in_u128 (take_bit (width i) n)" using power_width(1) [of i] unfolding in_u128_def by linarith
  from uint_of_int_u128 [OF this] t(1) show ?thesis by (simp add: int_value_def)
qed

lemma int_ok_cases:
  assumes "int_ok v"
  obtains i n where "v = int_value i n" "in_range i n"
proof -
  obtain i bits where v: "v = CtfeValue (IntTy i) (IntegerKind bits)" "uint bits < 2 ^ width i"
    using assms by (cases v rule: int_ok.cases) auto
  define n where "n = (if signed_int i then signed_take_bit (width i - 1) (uint bits) else uint bits)"
  have w: "Suc (width i - 1) = width i" by simp
  have "take_bit (width i) n = uint bits"
    using v(2) take_bit_signed_take_bit [of "width i" "width i - 1" "uint bits"]
    by (auto simp: n_def take_bit_int_eq_self)
  then have "v = int_value i n" using v(1) by (simp add: int_value_def)
  moreover have "in_range i n"
    using v(2) signed_take_bit_int_greater_eq_minus_exp [of "width i - 1" "uint bits"]
      signed_take_bit_int_less_exp [of "width i - 1" "uint bits"] by (auto simp: in_range_def n_def)
  ultimately show thesis by (rule that)
qed

text \<open>
  C23: Operators keep values normalised and typed: on two normalised integers the result, when there
  is one, is a normalised integer of the same type or a truth value.
\<close>
theorem checked_binary_typed:
  assumes "int_ok v" "int_ok w" "checked_integer_binary v operator w = Some (Inr r)"
  shows "(int_ok r \<and> ctfe_ty r = ctfe_ty v) \<or> (\<exists>b. r = ctfe_bool b)"
proof -
  obtain i a where v: "v = int_value i a" "in_range i a" by (rule int_ok_cases [OF assms(1)])
  obtain j b where w: "w = int_value j b" "in_range j b" by (rule int_ok_cases [OF assms(2)])
  have "i = j" using assms(3) unfolding v w by (auto simp: checked_integer_binary_def split: if_splits)
  then have "binary_spec i operator a b = Inr r"
    using checked_integer_binary_spec [of i a b operator] assms(3) v w by simp
  then show ?thesis
    by (cases operator) (auto simp: binary_spec_def exact_def shift_spec_def v int_ok_int_value split: if_splits)
qed

theorem checked_binary_typed_witness:
  "\<exists>r. checked_integer_binary (int_value U8 200) Add (int_value U8 55) = Some (Inr r) \<and>
     ((int_ok r \<and> ctfe_ty r = IntTy U8) \<or> (\<exists>b. r = ctfe_bool b))"
proof -
  have "checked_integer_binary (int_value U8 200) Add (int_value U8 55) = Some (Inr (int_value U8 255))"
    by (subst checked_integer_binary_spec)
      (simp_all add: in_range_def signed_int_def is_signed_def NATIVE_TARGET_def binary_spec_def exact_def)
  from this checked_binary_typed [OF int_ok_int_value int_ok_int_value this] show ?thesis by auto
qed

end
