(* ===== verification/Types_Properties.thy ===== *)
theory Types_Properties
  imports Types
begin

text \<open>
  What is shown of the functions on types: assignability is a preorder, and the display of a type
  hides the internal region names.
\<close>

subsection \<open>Assignability\<close>

lemma list_all2_trans_in:
  assumes "list_all2 P xs ys" "list_all2 Q ys zs"
    and "\<And>x y z. x \<in> set xs \<Longrightarrow> y \<in> set ys \<Longrightarrow> z \<in> set zs \<Longrightarrow> P x y \<Longrightarrow> Q y z \<Longrightarrow> R x z"
  shows "list_all2 R xs zs"
  unfolding list_all2_conv_all_nth
proof (intro conjI allI impI)
  show "length xs = length zs" using assms(1,2) by (simp add: list_all2_lengthD)
  fix n
  assume "n < length xs"
  moreover have "length ys = length xs" "length zs = length xs" using assms(1,2) by (simp_all add: list_all2_lengthD)
  ultimately show "R (xs ! n) (zs ! n)"
    using assms(1,2) by (intro assms(3) [of "xs ! n" "ys ! n"]) (simp_all add: list_all2_conv_all_nth)
qed

lemma assignable_refl [simp]: "type_is_assignable t t"
  by (simp add: type_is_assignable.simps)

lemma assignable_cases:
  assumes "type_is_assignable a b"
  obtains "a = b" | f g where "a = FunctionTy f" "b = FunctionTy g" "function_type_is_assignable f g"
  using assms by (auto simp: type_is_assignable.simps [of a b] split: if_splits ty.splits)

lemma function_assignable: "function_type_is_assignable f g \<Longrightarrow> type_is_assignable (FunctionTy f) (FunctionTy g)"
  by (simp add: type_is_assignable.simps)

lemma error_assignable_trans:
  assumes "error_assignable ok a b" "error_assignable ok b c"
    and "\<And>x y z. a = Some x \<Longrightarrow> b = Some y \<Longrightarrow> c = Some z \<Longrightarrow> ok x y \<Longrightarrow> ok y z \<Longrightarrow> ok x z"
  shows "error_assignable ok a c"
  using assms by (auto simp: error_assignable_def split: option.splits)

lemma function_assignable_trans:
  assumes fg: "function_type_is_assignable f g" and gh: "function_type_is_assignable g h"
    and IH: "\<And>x y z. size x + size y + size z < size f + size g + size h \<Longrightarrow>
      type_is_assignable x y \<Longrightarrow> type_is_assignable y z \<Longrightarrow> type_is_assignable x z"
  shows "function_type_is_assignable f h"
proof -
  let ?A = "\<lambda>actual expected. type_is_assignable expected actual"
  note simps = function_type_is_assignable.simps
  have "list_all2 (list_all2 ?A) (fn_groups f) (fn_groups h)"
  proof (rule list_all2_trans_in)
    show "list_all2 (list_all2 ?A) (fn_groups f) (fn_groups g)" "list_all2 (list_all2 ?A) (fn_groups g) (fn_groups h)"
      using fg gh by (simp_all add: simps)
    fix xs ys zs
    assume mem: "xs \<in> set (fn_groups f)" "ys \<in> set (fn_groups g)" "zs \<in> set (fn_groups h)"
      and groups: "list_all2 ?A xs ys" "list_all2 ?A ys zs"
    show "list_all2 ?A xs zs"
    proof (rule list_all2_trans_in [OF groups])
      fix x y z
      assume "x \<in> set xs" "y \<in> set ys" "z \<in> set zs" and le: "type_is_assignable y x" "type_is_assignable z y"
      then have "size x < size f" "size y < size g" "size z < size h" using mem size_group_less by blast+
      then show "type_is_assignable z x" using IH [of z y x] le by simp
    qed
  qed
  moreover have "type_is_assignable (fn_result f) (fn_result h)"
  proof (rule IH)
    show "size (fn_result f) + size (fn_result g) + size (fn_result h) < size f + size g + size h"
      by (intro add_less_mono size_result_less)
  qed (use fg gh in \<open>simp_all add: simps\<close>)
  moreover have "error_assignable type_is_assignable (fn_failure_error f) (fn_failure_error h)"
  proof (rule error_assignable_trans)
    show "error_assignable type_is_assignable (fn_failure_error f) (fn_failure_error g)"
      "error_assignable type_is_assignable (fn_failure_error g) (fn_failure_error h)"
      using fg gh by (simp_all add: simps)
    fix x y z
    assume "fn_failure_error f = Some x" "fn_failure_error g = Some y" "fn_failure_error h = Some z"
      and le: "type_is_assignable x y" "type_is_assignable y z"
    then have "size x < size f" "size y < size g" "size z < size h" by (simp_all add: size_error_less)
    then show "type_is_assignable x z" using IH [of x y z] le by simp
  qed
  ultimately show ?thesis using fg gh by (auto simp: simps list_all_iff)
qed

lemma assignable_trans:
  "type_is_assignable a b \<Longrightarrow> type_is_assignable b c \<Longrightarrow> type_is_assignable a c"
proof (induction "size a + size b + size c" arbitrary: a b c rule: less_induct)
  case less
  show ?case
  proof (cases rule: assignable_cases [OF less.prems(1)])
    case 1
    then show ?thesis using less.prems by simp
  next
    case (2 f g)
    note ab = this
    show ?thesis
    proof (cases rule: assignable_cases [OF less.prems(2)])
      case 1
      then show ?thesis using less.prems by simp
    next
      case (2 g' h)
      then have "function_type_is_assignable g h" using ab by simp
      then have "function_type_is_assignable f h"
        by (rule function_assignable_trans [OF ab(3)]) (rule less.hyps; use ab 2 in simp)
      then show ?thesis using ab 2 by (simp add: function_assignable)
    qed
  qed
qed


definition example_fn :: "bool \<Rightarrow> chars list \<Rightarrow> ty" where
  "example_fn unsafety effects = FunctionTy (FunctionSig [[BoolTy]] unsafety None effects UnitTy)"


subsection \<open>Display\<close>

definition plain_name :: "chars \<Rightarrow> bool" where
  "plain_name n \<longleftrightarrow> ch CHR ''$'' \<notin> set n"

definition region_ok :: "chars \<Rightarrow> bool" where
  "region_ok r \<longleftrightarrow> plain_name r \<or> (\<exists>cs. r = ch CHR ''$'' # cs)"

text \<open>No name of the type has a \<open>$\<close>, internal regions excepted.\<close>

function plain :: "ty \<Rightarrow> bool" and plain_function :: "function_ty \<Rightarrow> bool" where
  "plain t =
     (case t of
        TupleTy fs \<Rightarrow> list_all plain fs
      | PointerTy p _ \<Rightarrow> plain p
      | ReferenceTy p _ r \<Rightarrow> plain p \<and> pred_option region_ok r
      | SliceTy p \<Rightarrow> plain p
      | ArrayTy p _ \<Rightarrow> plain p
      | StructTy n \<Rightarrow> plain_name n
      | EnumTy n \<Rightarrow> plain_name n
      | FunctionTy f \<Rightarrow> plain_function f
      | CallableTy f _ _ \<Rightarrow> plain_function f
      | ContinuationTy i u \<Rightarrow> plain i \<and> plain u
      | EffectCallableTy i u a \<Rightarrow> plain i \<and> plain u \<and> plain a
      | EffectRowTy _ e c \<Rightarrow> pred_option plain e \<and> list_all plain_name c
      | _ \<Rightarrow> True)"
| "plain_function f =
     (list_all (list_all plain) (fn_groups f) \<and> plain (fn_result f) \<and> pred_option plain (fn_failure_error f) \<and>
      list_all plain_name (fn_custom_effects f))"
  by pat_completeness auto
termination
  by (relation "measure (case_sum size size)")
    (auto intro: size_group_less dest!: size_error_less dest: size_field_less)

declare plain.simps [simp del] plain_function.simps [simp del]

lemma plain_simps [simp]:
  "plain (TupleTy fs) \<longleftrightarrow> list_all plain fs"
  "plain (PointerTy t m) \<longleftrightarrow> plain t"
  "plain (ReferenceTy t m r) \<longleftrightarrow> plain t \<and> pred_option region_ok r"
  "plain (SliceTy t) \<longleftrightarrow> plain t"
  "plain (ArrayTy t n) \<longleftrightarrow> plain t"
  "plain (StructTy n') \<longleftrightarrow> plain_name n'"
  "plain (EnumTy n') \<longleftrightarrow> plain_name n'"
  "plain (FunctionTy f) \<longleftrightarrow> plain_function f"
  "plain (CallableTy f cs k) \<longleftrightarrow> plain_function f"
  "plain (ContinuationTy t u) \<longleftrightarrow> plain t \<and> plain u"
  "plain (EffectCallableTy t u v) \<longleftrightarrow> plain t \<and> plain u \<and> plain v"
  "plain (EffectRowTy b e c) \<longleftrightarrow> pred_option plain e \<and> list_all plain_name c"
  "plain (IntTy i)"
  by (simp_all add: plain.simps)

lemma plain_join:
  assumes "ch CHR ''$'' \<notin> set sep" "\<forall>x \<in> set xs. ch CHR ''$'' \<notin> set x"
  shows "ch CHR ''$'' \<notin> set (join_text sep xs)"
  using assms by (induction xs) auto

lemma plain_decimal: "0 \<le> n \<Longrightarrow> ch CHR ''$'' \<notin> set (decimal n)"
  using decimal_digits [of n] by (auto simp: is_ascii_digit_def)

lemma plain_region: "region_ok r \<Longrightarrow> ch CHR ''$'' \<notin> set (display_region_argument up r)"
  by (auto simp: region_ok_def plain_name_def display_region_argument_def lit_def split: list.splits)

lemma plain_effects:
  assumes "list_all plain_name c" "pred_option (\<lambda>e. ch CHR ''$'' \<notin> set e) e"
  shows "\<forall>x \<in> set (shown_effects u c e). ch CHR ''$'' \<notin> set x"
  using assms by (auto simp: shown_effects_def lit_def plain_name_def list_all_iff split: option.splits)

lemma plain_integer_name: "ch CHR ''$'' \<notin> set (integer_name i)"
  by (cases i) (simp_all add: lit_def)

lemma show_ty_plain: "plain t \<Longrightarrow> ch CHR ''$'' \<notin> set (show_ty up t)"
proof (induction up t rule: show_ty.induct)
  case (4 up fs)
  then have "ch CHR ''$'' \<notin> set (join_text (lit '', '') (map (show_ty up) fs))"
    by (intro plain_join) (auto simp: list_all_iff lit_def)
  then show ?case by (simp add: lit_def)
next
  case (14 up groups u e c r)
  then have p: "plain_function (FunctionSig groups u e c r)" by simp
  have g: "ch CHR ''$'' \<notin> set (join_text (lit '', '') (map (show_ty up) g))" if "g \<in> set groups" for g
    using that 14(1) p by (intro plain_join) (auto simp: plain_function.simps list_all_iff lit_def)
  have "pred_option (\<lambda>e. ch CHR ''$'' \<notin> set e) (map_option (show_ty up) e)"
    using 14(3) p by (cases e) (auto simp: plain_function.simps)
  then have "ch CHR ''$'' \<notin> set (join_text (lit '', '') (shown_effects u c (map_option (show_ty up) e)))"
    using p by (intro plain_join plain_effects) (auto simp: plain_function.simps lit_def)
  moreover have "ch CHR ''$'' \<notin> set (show_ty up r)" using 14(2) p by (simp add: plain_function.simps)
  ultimately show ?case using g by (auto simp: Let_def lit_def)
next
  case (18 up u e c)
  then have p: "pred_option plain e" "list_all plain_name c" by simp_all
  have "pred_option (\<lambda>e. ch CHR ''$'' \<notin> set e) (map_option (show_ty up) e)"
    using 18 p by (cases e) auto
  then have "ch CHR ''$'' \<notin> set (join_text (lit '', '') (shown_effects u c (map_option (show_ty up) e)))"
    using p by (intro plain_join plain_effects) (auto simp: lit_def)
  then show ?case by (auto simp: Let_def lit_def)
qed (auto simp: plain_integer_name [simplified] plain_decimal [simplified] plain_name_def lit_def
    dest!: plain_region [simplified] split: option.splits)

text \<open>
  Diagnostics never show an internal region name: when the names of a type have no \<open>$\<close>, the
  internal regions that begin with one excepted, neither has the text it is displayed as.
\<close>
theorem display_hides_regions:
  assumes "plain t"
  shows "ch CHR ''$'' \<notin> set (show_ty upper t)"
  by (rule show_ty_plain [OF assms])

theorem display_hides_regions_witness:
  "ch CHR ''$'' \<notin> set (show_ty (\<lambda>c. 65 \<le> c \<and> c \<le> 90) (ReferenceTy (IntTy I32) False (Some (lit ''$binder$0''))))"
  by (rule display_hides_regions) (simp add: region_ok_def lit_def plain.simps)

end
