(* ===== verification/Ast_Expr.thy ===== *)
theory Ast_Expr
  imports Ast
begin

text \<open>
  Patterns, expressions and items of the syntax tree (\<open>compiler/src/ast.rs\<close>).
\<close>

record integer_pattern =
  pat_magnitude :: u128
  pat_negative :: bool

datatype pattern =
    PatWildcard
  | PatInteger integer_pattern
  | PatBool bool
  | PatBinding chars
  | PatTuple "pattern list"
  | PatConstructor "chars list" pattern_fields
and pattern_fields =
    PatUnitFields
  | PatPositional "pattern list"
  | PatNamed "(chars \<times> pattern) list"

datatype (plugins only: code size) expr =
    Located nat nat nat nat expr
  | UnitExpr
  | TupleExpr "expr list"
  | TypeExpr source_type
  | IntegerExpr u128
  | BoolExpr bool
  | StringExpr chars
  | NameExpr chars
  | UnaryExpr unary_op expr
  | BorrowExpr bool "chars option" expr
  | BinaryExpr expr binary_op expr
  | Coalesce expr expr
  | HandlerCoalesce expr chars expr expr
  | HandlerChainCall expr chars chars chars "call_arg list list" expr expr
  | TryExpr expr
  | DoBlock expr
  | AsyncExpr expr
  | AwaitExpr expr
  | ThrowExpr expr
  | Assign expr expr
  | CompoundAssign expr binary_op expr
  | CallExpr expr "call_arg list"
  | StructLiteral expr "call_arg list"
  | Member expr chars
  | ChainMember expr chars
  | ArrayExpr "expr list"
  | IndexExpr expr expr
  | Block "stmt list" "expr option"
  | UnsafeExpr expr
  | Closure "param list" expr
  | PatternClosure pattern "expr option" expr
  | IfExpr expr expr "expr option"
  | ReturnExpr "expr option"
  | WhileExpr expr expr bool
  | LoopExpr expr
  | BreakExpr "expr option"
  | ContinueExpr
  | MatchExpr expr "match_arm list"
and call_arg = CallArg (arg_label: "chars option") (arg_value: expr)
and match_arm = MatchArm (arm_pattern: pattern) (arm_guard: "expr option") (arm_body: expr)
and stmt = LetStmt binding | ExprStmt expr
and binding =
    Binding (bind_mutable: bool) (bind_name: chars) (bind_annotation: "source_type option") (bind_value: expr)
      (bind_source: "source_span option")

text \<open>\<open>unlocated\<close> and the place \<open>unlocated_mut\<close> borrows, as an update of it.\<close>

fun unlocated :: "expr \<Rightarrow> expr" where
  "unlocated (Located _ _ _ _ e) = unlocated e"
| "unlocated e = e"

fun unlocated_mut :: "(expr \<Rightarrow> expr) \<Rightarrow> expr \<Rightarrow> expr" where
  "unlocated_mut f (Located l c el ec e) = Located l c el ec (unlocated_mut f e)"
| "unlocated_mut f e = f e"

lemma unlocated_idem [simp]: "unlocated (unlocated e) = unlocated e"
  by (induction e rule: unlocated.induct) simp_all

subsection \<open>Items\<close>

record function_def =
  fd_name :: chars
  fd_foreign :: "foreign_function option"
  fd_builtin :: bool
  fd_compile_groups :: "compile_param list list"
  fd_groups :: "param list list"
  fd_return_type :: "source_type option"
  fd_effects :: function_effects
  fd_where_predicates :: "where_predicate list"
  fd_body :: "expr option"

record effect_def =
  effect_name :: chars
  effect_compile_groups :: "compile_param list list"
  effect_operations :: "function_def list"

datatype trait_member =
    TraitFunction function_def
  | AssociatedType (at_name: chars) (at_compile_groups: "compile_param list list") (at_kind: associated_kind)
      (at_default: "source_type option")

record trait_def =
  trait_name :: chars
  trait_self_parameter :: compile_param
  trait_compile_groups :: "compile_param list list"
  trait_where_predicates :: "where_predicate list"
  trait_members :: "trait_member list"

datatype extend_member = ExtendFunction function_def | ExtendConst binding

record extend_def =
  ext_compile_groups :: "compile_param list list"
  ext_target :: source_type
  ext_trait_ref :: "source_type option"
  ext_where_predicates :: "where_predicate list"
  ext_members :: "extend_member list"

datatype item =
    FunctionItem function_def
  | GlobalItem binding
  | StructItem struct_def
  | EnumItem enum_def
  | EffectItem effect_def
  | SortItem sort_def
  | TypeFormItem type_form_def
  | TypeAliasItem type_alias_def
  | TraitItem trait_def
  | ExtendItem extend_def

record program =
  items :: "item list"
  primary_package_identity :: chars
  primary_package :: nat
  package_identities :: "nat \<rightharpoonup> chars"
  item_visibilities :: "visibility list"
  item_origins :: "item_origin list"
  uses :: "use_decl list"

text \<open>The two \<open>assert_eq!\<close> of \<open>with_metadata\<close> panic on lists of different lengths.\<close>

definition program_with_metadata ::
    "item list \<Rightarrow> visibility list \<Rightarrow> item_origin list \<Rightarrow> use_decl list \<Rightarrow> program option" where
  "program_with_metadata its vs origins us =
     (if length its \<noteq> length vs \<or> length its \<noteq> length origins then None
      else Some \<lparr>items = its, primary_package_identity = lit ''source@0.0.0'', primary_package = 0,
        package_identities = [0 \<mapsto> lit ''source@0.0.0''], item_visibilities = vs, item_origins = origins, uses = us\<rparr>)"

definition program_with_uses :: "item list \<Rightarrow> visibility list \<Rightarrow> use_decl list \<Rightarrow> program option" where
  "program_with_uses its vs us = program_with_metadata its vs (replicate (length its) default_origin) us"

definition program_with_visibilities :: "item list \<Rightarrow> visibility list \<Rightarrow> program option" where
  "program_with_visibilities its vs = program_with_uses its vs []"

definition program_new :: "item list \<Rightarrow> program" where
  "program_new its =
     \<lparr>items = its, primary_package_identity = lit ''source@0.0.0'', primary_package = 0,
      package_identities = [0 \<mapsto> lit ''source@0.0.0''],
      item_visibilities = replicate (length its) Private, item_origins = replicate (length its) default_origin, uses = []\<rparr>"

end
