(* ===== verification/Names.thy ===== *)
theory Names
  imports Ast
begin

text \<open>
  Canonical names and linker symbols (\<open>compiler/src/codegen/names.rs\<close>).  Text is a list of code points;
  the length a component is written with is its length in UTF-8.  Of the analyzer the functions here
  read the instance tables, the visibility records of nominal types and the package identities.
\<close>

subsection \<open>Keys\<close>

datatype nominal_kind = StructKindName | EnumKindName

record function_instance_key =
  fi_template :: chars
  fi_arguments :: "ty list"

record nominal_instance_key =
  ni_kind :: nominal_kind
  ni_template :: chars
  ni_arguments :: "ty list"

record trait_ref_key =
  tr_name :: chars
  tr_arguments :: "ty list"

record trait_impl_key =
  ti_self_ty :: ty
  ti_trait_ref :: trait_ref_key

record constructor_target =
  ct_name :: chars
  ct_kind :: nominal_kind
  ct_parameter_count :: nat
  ct_parameter_groups :: "sort list list"

record constructor_trait_impl_key =
  cti_target :: constructor_target
  cti_trait_ref :: trait_ref_key

subsection \<open>Components\<close>

definition show_nat :: "nat \<Rightarrow> chars" where
  "show_nat n = decimal (int n)"

definition canonical_component :: "chars \<Rightarrow> chars" where
  "canonical_component component = show_nat (byte_len component) @ lit '':'' @ component"

definition components :: "chars list \<Rightarrow> chars" where
  "components cs = concat (map canonical_component cs)"

definition mode_letter :: "pass_mode \<Rightarrow> chars" where
  "mode_letter m =
     (case m of InferredMode \<Rightarrow> lit ''i'' | CopyMode \<Rightarrow> lit ''c'' | MoveMode \<Rightarrow> lit ''m'' | BorrowMode \<Rightarrow> lit ''b''
      | MutBorrowMode \<Rightarrow> lit ''u'')"

definition bit_text :: "bool \<Rightarrow> chars" where
  "bit_text b = (if b then lit ''1'' else lit ''0'')"

definition failure_text :: "chars option \<Rightarrow> chars" where
  "failure_text e = (case e of Some e \<Rightarrow> lit ''t:'' @ canonical_component e | None \<Rightarrow> lit ''n:'')"

definition counted :: "chars list \<Rightarrow> chars" where
  "counted cs = show_nat (length cs) @ lit '':'' @ components cs"

definition kind_text :: "callable_kind \<Rightarrow> chars" where
  "kind_text k =
     (case k of
        PartialCall f consumed m once \<Rightarrow>
          lit ''p'' @ canonical_component f @ show_nat consumed @ lit '':'' @ bit_text m @ lit '':'' @ bit_text once @ lit '':''
      | ClosureCall f m once \<Rightarrow>
          lit ''c'' @ canonical_component f @ bit_text m @ lit '':'' @ bit_text once @ lit '':'')"

function canonical_type_encoding :: "ty \<Rightarrow> chars" and function_encoding :: "function_ty \<Rightarrow> chars" where
  "canonical_type_encoding t =
     (case t of
        IntTy i \<Rightarrow> integer_name i
      | BoolTy \<Rightarrow> lit ''bool''
      | UnitTy \<Rightarrow> lit ''unit''
      | TupleTy fs \<Rightarrow> lit ''tuple'' @ counted (map canonical_type_encoding fs)
      | PointerTy p mutable \<Rightarrow>
          (if mutable then lit ''mutptr'' else lit ''ptr'') @ canonical_component (canonical_type_encoding p)
      | ReferenceTy p mutable region \<Rightarrow>
          (if mutable then lit ''mutref'' else lit ''ref'') @
          (case region of Some r \<Rightarrow> canonical_component r | None \<Rightarrow> lit ''0:'') @
          canonical_component (canonical_type_encoding p)
      | ArrayTy e n \<Rightarrow> lit ''array'' @ show_nat (unat n) @ lit '':'' @ canonical_component (canonical_type_encoding e)
      | SliceTy e \<Rightarrow> lit ''slice'' @ canonical_component (canonical_type_encoding e)
      | StrTy \<Rightarrow> lit ''str''
      | StructTy n \<Rightarrow> lit ''struct'' @ canonical_component n
      | EnumTy n \<Rightarrow> lit ''enum'' @ canonical_component n
      | NeverTy \<Rightarrow> lit ''never''
      | FunctionTy f \<Rightarrow> function_encoding f
      | CallableTy f captures kind \<Rightarrow>
          lit ''callable'' @ kind_text kind @
          concat (map (\<lambda>c. mode_letter (capture_mode c) @ canonical_component (canonical_type_encoding (capture_type c))) captures) @
          canonical_component (function_encoding f)
      | ContinuationTy i u \<Rightarrow>
          lit ''continuation'' @ canonical_component (canonical_type_encoding i) @ canonical_component (canonical_type_encoding u)
      | EffectCallableTy i u a \<Rightarrow>
          lit ''effect-callable'' @ canonical_component (canonical_type_encoding i) @
          canonical_component (canonical_type_encoding u) @ canonical_component (canonical_type_encoding a)
      | EffectRowTy unsafety error custom \<Rightarrow>
          (if unsafety then lit ''effect-row-u'' else lit ''effect-row-p'') @
          failure_text (map_option canonical_type_encoding error) @ counted custom
      | ErrorTy \<Rightarrow> lit ''error'')"
| "function_encoding f =
     lit ''function'' @ show_nat (length (fn_groups f)) @ lit '':'' @
     concat (map (\<lambda>g. counted (map canonical_type_encoding g)) (fn_groups f)) @
     (if fn_unsafety f then lit ''u:'' else lit ''p:'') @
     failure_text (map_option canonical_type_encoding (fn_failure_error f)) @
     counted (fn_custom_effects f) @
     canonical_component (canonical_type_encoding (fn_result f))"
  by pat_completeness auto
termination
  by (relation "measure (case_sum size size)")
    (auto intro: size_group_less dest!: size_error_less size_capture_less dest: size_field_less)

declare canonical_type_encoding.simps [simp del] function_encoding.simps [simp del]

subsection \<open>Names of instances and members\<close>

definition function_instance_name :: "function_instance_key \<Rightarrow> chars" where
  "function_instance_name k =
     lit ''$mono$fn$'' @ canonical_component (fi_template k) @ counted (map canonical_type_encoding (fi_arguments k))"

definition nominal_instance_name :: "nominal_instance_key \<Rightarrow> chars" where
  "nominal_instance_name k =
     lit ''$mono$type$'' @
     canonical_component (case ni_kind k of StructKindName \<Rightarrow> lit ''struct'' | EnumKindName \<Rightarrow> lit ''enum'') @
     canonical_component (ni_template k) @ counted (map canonical_type_encoding (ni_arguments k))"

definition generic_validation_name :: "chars \<Rightarrow> chars" where
  "generic_validation_name template = lit ''$generic$check$'' @ canonical_component template"

definition generic_parameter_marker :: "chars \<Rightarrow> nat \<Rightarrow> chars \<Rightarrow> chars" where
  "generic_parameter_marker template index parameter =
     lit ''$generic$param$'' @ canonical_component template @ show_nat index @ lit '':'' @ canonical_component parameter"

definition inherent_method_name :: "chars \<Rightarrow> chars \<Rightarrow> chars" where
  "inherent_method_name target member = target @ lit ''::method::'' @ member"

definition associated_function_name :: "chars \<Rightarrow> chars \<Rightarrow> chars" where
  "associated_function_name target member = target @ lit ''::function::'' @ member"

definition generic_inherent_function_name :: "chars \<Rightarrow> chars \<Rightarrow> chars" where
  "generic_inherent_function_name target member = lit ''$generic$inherent$'' @ target @ lit ''::function::'' @ member"

definition associated_constant_name :: "chars \<Rightarrow> chars \<Rightarrow> chars" where
  "associated_constant_name target member = target @ lit ''::constant::'' @ member"

definition trait_method_name :: "trait_impl_key \<Rightarrow> chars \<Rightarrow> chars" where
  "trait_method_name k member =
     lit ''$trait$impl$'' @ canonical_component (tr_name (ti_trait_ref k)) @
     canonical_component (canonical_type_encoding (ti_self_ty k)) @
     counted (map canonical_type_encoding (tr_arguments (ti_trait_ref k))) @ canonical_component member"

definition constructor_trait_method_name :: "constructor_trait_impl_key \<Rightarrow> chars \<Rightarrow> chars" where
  "constructor_trait_method_name k member =
     lit ''$trait$constructor$impl$'' @ canonical_component (tr_name (cti_trait_ref k)) @
     canonical_component (ct_name (cti_target k)) @ show_nat (ct_parameter_count (cti_target k)) @ lit '':'' @
     counted (map canonical_type_encoding (tr_arguments (cti_trait_ref k))) @ canonical_component member"

definition assumed_trait_method_name :: "chars \<Rightarrow> trait_impl_key \<Rightarrow> chars \<Rightarrow> chars" where
  "assumed_trait_method_name function k member =
     lit ''$generic$bound$'' @ canonical_component function @ canonical_component (trait_method_name k member)"

subsection \<open>Symbols\<close>

definition hex_digit :: "int \<Rightarrow> code_point" where
  "hex_digit n = (if n < 10 then 48 + n else 87 + n)"

definition hex_name :: "chars \<Rightarrow> chars" where
  "hex_name name = concat (map (\<lambda>b. [hex_digit (b div 16), hex_digit (b mod 16)]) (utf8 name))"

definition function_symbol :: "chars \<Rightarrow> chars" where
  "function_symbol name = lit ''sali.fn.'' @ hex_name name"

definition global_symbol :: "chars \<Rightarrow> chars" where
  "global_symbol name = lit ''sali.global.'' @ hex_name name"

definition type_symbol :: "chars \<Rightarrow> chars" where
  "type_symbol name = lit ''sali.type.'' @ hex_name name"

definition drop_glue_symbol :: "ty \<Rightarrow> chars" where
  "drop_glue_symbol t = lit ''sali.drop.'' @ hex_name (canonical_type_encoding t)"

definition llvm_comment :: "chars \<Rightarrow> chars" where
  "llvm_comment name = map (\<lambda>c. if c = 10 \<or> c = 13 then 32 else c) name"

subsection \<open>Stable types of exported items\<close>

text \<open>What \<open>stable_abi_type\<close> reads of the analyzer: the package that owns a nominal type, and identities.\<close>

record abi_context =
  nominal_packages :: "chars \<rightharpoonup> nat"
  abi_primary_package :: nat
  abi_package_identities :: "nat \<rightharpoonup> chars"
  abi_primary_identity :: chars

definition stable_abi_nominal_name :: "abi_context \<Rightarrow> chars \<Rightarrow> chars" where
  "stable_abi_nominal_name c name =
     (let p = (case nominal_packages c name of Some p \<Rightarrow> p | None \<Rightarrow> abi_primary_package c);
          identity = (case abi_package_identities c p of Some i \<Rightarrow> i | None \<Rightarrow> abi_primary_identity c);
          local_name =
            (case strip_prefix (lit ''@'') name of
               None \<Rightarrow> name
             | Some n \<Rightarrow> (case split_once (lit ''::'') n of None \<Rightarrow> name | Some (_, l) \<Rightarrow> l))
      in identity @ lit ''::'' @ local_name)"

function stable_abi_type :: "abi_context \<Rightarrow> ty \<Rightarrow> ty" and stable_abi_function :: "abi_context \<Rightarrow> function_ty \<Rightarrow> function_ty" where
  "stable_abi_type c t =
     (case t of
        TupleTy fs \<Rightarrow> TupleTy (map (stable_abi_type c) fs)
      | PointerTy p m \<Rightarrow> PointerTy (stable_abi_type c p) m
      | ReferenceTy p m _ \<Rightarrow> ReferenceTy (stable_abi_type c p) m None
      | ArrayTy e n \<Rightarrow> ArrayTy (stable_abi_type c e) n
      | SliceTy e \<Rightarrow> SliceTy (stable_abi_type c e)
      | StructTy n \<Rightarrow> StructTy (stable_abi_nominal_name c n)
      | EnumTy n \<Rightarrow> EnumTy (stable_abi_nominal_name c n)
      | FunctionTy f \<Rightarrow> FunctionTy (stable_abi_function c f)
      | CallableTy f captures kind \<Rightarrow>
          CallableTy (stable_abi_function c f)
            (map (\<lambda>x. CaptureTy (stable_abi_type c (capture_type x)) (capture_mode x)) captures) kind
      | ContinuationTy i u \<Rightarrow> ContinuationTy (stable_abi_type c i) (stable_abi_type c u)
      | EffectCallableTy i u a \<Rightarrow> EffectCallableTy (stable_abi_type c i) (stable_abi_type c u) (stable_abi_type c a)
      | EffectRowTy unsafety error custom \<Rightarrow> EffectRowTy unsafety (map_option (stable_abi_type c) error) custom
      | _ \<Rightarrow> t)"
| "stable_abi_function c f =
     FunctionSig (map (map (stable_abi_type c)) (fn_groups f)) (fn_unsafety f)
       (map_option (stable_abi_type c) (fn_failure_error f)) (fn_custom_effects f) (stable_abi_type c (fn_result f))"
  by pat_completeness auto
termination
  by (relation "measure (case_sum (\<lambda>(c, t). size t) (\<lambda>(c, f). size f))")
    (auto intro: size_group_less dest!: size_error_less size_capture_less dest: size_field_less)

declare stable_abi_type.simps [simp del] stable_abi_function.simps [simp del]

fun value_abi_encoding :: "ty \<Rightarrow> chars" where
  "value_abi_encoding (ReferenceTy p mutable _) =
     (if mutable then lit ''mutref'' else lit ''ref'') @ canonical_component (value_abi_encoding p)"
| "value_abi_encoding (TupleTy fs) = lit ''tuple'' @ counted (map value_abi_encoding fs)"
| "value_abi_encoding (PointerTy p mutable) =
     (if mutable then lit ''mutptr'' else lit ''ptr'') @ canonical_component (value_abi_encoding p)"
| "value_abi_encoding (ArrayTy e n) = lit ''array'' @ show_nat (unat n) @ lit '':'' @ canonical_component (value_abi_encoding e)"
| "value_abi_encoding t = canonical_type_encoding t"

text \<open>The parameters and result of a typed function, and what its signature says of its effects.\<close>

record abi_function =
  af_params :: "(pass_mode \<times> ty) list"
  af_result :: ty
  af_signature :: "(bool \<times> ty option \<times> chars list) option"

definition function_abi_encoding :: "abi_context \<Rightarrow> abi_function \<Rightarrow> chars" where
  "function_abi_encoding c f =
     lit ''params'' @ show_nat (length (af_params f)) @ lit '':'' @
     concat (map (\<lambda>(m, t). mode_letter m @ canonical_component (value_abi_encoding (stable_abi_type c t))) (af_params f)) @
     canonical_component (value_abi_encoding (stable_abi_type c (af_result f))) @
     (case af_signature f of
        None \<Rightarrow> []
      | Some (unsafety, error, custom) \<Rightarrow>
          (if unsafety then lit ''unsafe:'' else lit ''pure:'') @
          (case error of
             Some e \<Rightarrow> lit ''failure:'' @ canonical_component (value_abi_encoding (stable_abi_type c e))
           | None \<Rightarrow> lit ''nofailure:'') @
          lit ''effects'' @ counted custom)"

definition exported_function_symbol :: "abi_context \<Rightarrow> chars \<Rightarrow> abi_function \<Rightarrow> chars" where
  "exported_function_symbol c name f =
     lit ''sali.export.'' @ hex_name (abi_primary_identity c) @ lit ''.'' @ hex_name name @ lit ''.'' @
     hex_name (function_abi_encoding c f)"

definition exported_global_symbol :: "abi_context \<Rightarrow> chars \<Rightarrow> ty \<Rightarrow> chars" where
  "exported_global_symbol c name t =
     lit ''sali.export.'' @ hex_name (abi_primary_identity c) @ lit ''.global.'' @ hex_name name @ lit ''.'' @
     hex_name (value_abi_encoding (stable_abi_type c t))"

subsection \<open>Names in diagnostics\<close>

definition effect_operation_display :: "chars \<Rightarrow> chars option" where
  "effect_operation_display operation =
     (let stem = (case rsplit_once (lit ''$'') operation of Some (o', _) \<Rightarrow> o' | None \<Rightarrow> operation) in
      map_option (\<lambda>(effect, member). effect @ lit ''.'' @ member) (rsplit_once (lit ''$'') stem))"

definition generic_inherent_display :: "chars \<Rightarrow> chars option" where
  "generic_inherent_display inherent =
     map_option (\<lambda>(target, member). target @ lit ''.'' @ member)
       (split_once (lit ''::function::'') (split_first (lit ''$overload$'') inherent))"

definition plain_function_display :: "(chars \<rightharpoonup> function_instance_key) \<Rightarrow> chars \<Rightarrow> chars" where
  "plain_function_display instances name =
     (let source = (case instances name of Some k \<Rightarrow> fi_template k | None \<Rightarrow> name) in
      rsplit_last (lit ''::'') (split_first (lit ''$overload$'') source))"

text \<open>The recursion on what stands before the bridge marker reaches the first marker and ends.\<close>

definition diagnostic_function_name :: "(chars \<rightharpoonup> function_instance_key) \<Rightarrow> chars \<Rightarrow> chars" where
  "diagnostic_function_name instances name =
     (let name = (case split_once (lit ''$callable$bridge$'') name of Some (source, _) \<Rightarrow> source | None \<Rightarrow> name) in
      case Option.bind (strip_prefix (lit ''$effect$operation$'') name) effect_operation_display of
        Some d \<Rightarrow> d
      | None \<Rightarrow>
          (case Option.bind (strip_prefix (lit ''$generic$inherent$'') name) generic_inherent_display of
             Some d \<Rightarrow> d
           | None \<Rightarrow> plain_function_display instances name))"

end
