(* ===== verification/Names_Encoding.thy ===== *)
theory Names_Encoding
  imports Names
begin

text \<open>
  The canonical encoding of types can be read back: components and counted lists are delimited by
  their lengths, so different types have different encodings.
\<close>

subsection \<open>Delimited pieces\<close>

text \<open>An encoding that can be read off the front of a text.\<close>

definition parsable :: "('a \<Rightarrow> chars) \<Rightarrow> bool" where
  "parsable e \<longleftrightarrow> (\<forall>x y r s. e x @ r = e y @ s \<longrightarrow> x = y \<and> r = s)"

lemma parsableD: "parsable e \<Longrightarrow> e x @ r = e y @ s \<Longrightarrow> x = y \<and> r = s"
  by (auto simp: parsable_def)

lemma parsable_inject: "parsable e \<Longrightarrow> e x = e y \<Longrightarrow> x = y"
  using parsableD [of e x "[]" y "[]"] by simp

lemma show_nat_digits: "\<forall>c \<in> set (show_nat n). is_ascii_digit c"
  unfolding show_nat_def by (rule decimal_digits) simp

lemma show_nat_inject: "show_nat n = show_nat m \<longleftrightarrow> n = m"
  by (simp add: show_nat_def decimal_inject)

lemma show_nat_hd: "\<exists>c cs. show_nat n = c # cs \<and> is_ascii_digit c"
  unfolding show_nat_def by (rule hd_decimal) simp

lemma number_parsable: "parsable (\<lambda>n. show_nat n @ lit '':'')"
proof -
  have t: "takeWhile is_ascii_digit (show_nat n @ 58 # r) = show_nat n" for n r
    using show_nat_digits [of n] by (simp add: takeWhile_append2 is_ascii_digit_def)
  show ?thesis
    unfolding parsable_def lit_def
  proof (clarsimp)
    fix n m r s
    assume e: "show_nat n @ 58 # r = show_nat m @ 58 # s"
    then have "takeWhile is_ascii_digit (show_nat n @ 58 # r) = takeWhile is_ascii_digit (show_nat m @ 58 # s)"
      by simp
    then have "show_nat n = show_nat m" by (simp only: t)
    with e show "n = m \<and> r = s" by (simp add: show_nat_inject)
  qed
qed

lemma number_append: "show_nat n @ lit '':'' @ r = show_nat m @ lit '':'' @ s \<Longrightarrow> n = m \<and> r = s"
  using parsableD [OF number_parsable, of n r m s] by simp

lemma byte_len_pos: "us \<noteq> [] \<Longrightarrow> 0 < byte_len us"
  by (cases us) (simp_all add: byte_len_def len_utf8_def)

lemma byte_len_append: "byte_len (xs @ ys) = byte_len xs + byte_len ys"
  by (simp add: byte_len_def)

lemma component_parsable: "parsable canonical_component"
  unfolding parsable_def
proof (intro allI impI)
  fix c d r s
  assume "canonical_component c @ r = canonical_component d @ s"
  then have n: "show_nat (byte_len c) @ lit '':'' @ (c @ r) = show_nat (byte_len d) @ lit '':'' @ (d @ s)"
    by (simp add: canonical_component_def)
  then have len: "byte_len c = byte_len d" and e: "c @ r = d @ s" using number_append by blast+
  from e obtain us where "c = d @ us \<and> us @ r = s \<or> c @ us = d \<and> r = us @ s"
    by (auto simp: append_eq_append_conv2)
  moreover have "us = [] \<or> byte_len us \<noteq> 0" using byte_len_pos [of us] by (cases "us = []") auto
  ultimately show "c = d \<and> r = s" using len by (auto simp: byte_len_append)
qed

lemma concat_parsable:
  assumes "parsable e" "length xs = length ys" "concat (map e xs) @ r = concat (map e ys) @ s"
  shows "xs = ys \<and> r = s"
  using assms(2,3)
proof (induction xs ys rule: list_induct2)
  case (Cons x xs y ys)
  then have "x = y \<and> concat (map e xs) @ r = concat (map e ys) @ s"
    using parsableD [OF assms(1), of x "concat (map e xs) @ r" y "concat (map e ys) @ s"] by simp
  then show ?case using Cons.IH by simp
qed simp

lemma counted_parsable: "parsable counted"
  unfolding parsable_def
proof (intro allI impI)
  fix xs ys r s
  assume "counted xs @ r = counted ys @ s"
  then have "show_nat (length xs) @ lit '':'' @ components xs @ r = show_nat (length ys) @ lit '':'' @ components ys @ s"
    by (simp add: counted_def)
  then have "length xs = length ys" "components xs @ r = components ys @ s" using number_append by blast+
  then show "xs = ys \<and> r = s" unfolding components_def by (rule concat_parsable [OF component_parsable])
qed

lemma failure_parsable: "parsable failure_text"
  unfolding parsable_def
proof (intro allI impI)
  fix x y r s
  assume "failure_text x @ r = failure_text y @ s"
  then show "x = y \<and> r = s"
    using parsableD [OF component_parsable, of "the x" r "the y" s]
    by (cases x; cases y) (simp_all add: failure_text_def lit_def)
qed

lemma mode_parsable: "parsable mode_letter"
  unfolding parsable_def
proof (intro allI impI)
  fix x y r s
  assume "mode_letter x @ r = mode_letter y @ s"
  then show "x = y \<and> r = s" by (cases x; cases y) (auto simp: mode_letter_def lit_def)
qed

lemma bit_parsable: "parsable bit_text"
  by (auto simp: parsable_def bit_text_def lit_def)

lemma flags_parsable:
  assumes "bit_text m @ lit '':'' @ bit_text once @ lit '':'' @ r = bit_text m' @ lit '':'' @ bit_text once' @ lit '':'' @ s"
  shows "m = m' \<and> once = once' \<and> r = s"
proof -
  from parsableD [OF bit_parsable, OF assms]
  have "m = m'" "bit_text once @ lit '':'' @ r = bit_text once' @ lit '':'' @ s" by simp_all
  with parsableD [OF bit_parsable, OF this(2)] show ?thesis by simp
qed

lemma kind_parsable: "parsable kind_text"
  unfolding parsable_def
proof (intro allI impI)
  fix x y r s
  assume e: "kind_text x @ r = kind_text y @ s"
  show "x = y \<and> r = s"
  proof (cases x)
    case (PartialCall f n m once)
    then obtain f' n' m' once' where y: "y = PartialCall f' n' m' once'"
      using e by (cases y) (simp_all add: kind_text_def lit_def)
    have "canonical_component f @ (show_nat n @ lit '':'' @ bit_text m @ lit '':'' @ bit_text once @ lit '':'' @ r) =
        canonical_component f' @ (show_nat n' @ lit '':'' @ bit_text m' @ lit '':'' @ bit_text once' @ lit '':'' @ s)"
      using e PartialCall y by (simp add: kind_text_def)
    note c = parsableD [OF component_parsable, OF this]
    note n = number_append [OF conjunct2 [OF c]]
    from flags_parsable [OF conjunct2 [OF n]] conjunct1 [OF c] conjunct1 [OF n] show ?thesis
      by (simp only: PartialCall y simp_thms)
  next
    case (ClosureCall f m once)
    then obtain f' m' once' where y: "y = ClosureCall f' m' once'"
      using e by (cases y) (simp_all add: kind_text_def lit_def)
    have "canonical_component f @ (bit_text m @ lit '':'' @ bit_text once @ lit '':'' @ r) =
        canonical_component f' @ (bit_text m' @ lit '':'' @ bit_text once' @ lit '':'' @ s)"
      using e ClosureCall y by (simp add: kind_text_def)
    note c = parsableD [OF component_parsable, OF this]
    from flags_parsable [OF conjunct2 [OF c]] conjunct1 [OF c] show ?thesis by (simp only: ClosureCall y simp_thms)
  qed
qed

end
