(* ===== verification/Names_Injective.thy ===== *)
theory Names_Injective
  imports Names_Encoding
begin

text \<open>
  Different types have different canonical encodings.  The one exception is a reference whose region
  has the empty name, which is encoded as one without a region; \<open>named_regions\<close> excludes it.
\<close>

function named_regions :: "ty \<Rightarrow> bool" and named_regions_function :: "function_ty \<Rightarrow> bool" where
  "named_regions t =
     (case t of
        TupleTy fs \<Rightarrow> list_all named_regions fs
      | PointerTy p _ \<Rightarrow> named_regions p
      | ReferenceTy p _ r \<Rightarrow> named_regions p \<and> r \<noteq> Some []
      | SliceTy p \<Rightarrow> named_regions p
      | ArrayTy p _ \<Rightarrow> named_regions p
      | FunctionTy f \<Rightarrow> named_regions_function f
      | CallableTy f cs _ \<Rightarrow> named_regions_function f \<and> list_all (\<lambda>c. named_regions (capture_type c)) cs
      | ContinuationTy i u \<Rightarrow> named_regions i \<and> named_regions u
      | EffectCallableTy i u a \<Rightarrow> named_regions i \<and> named_regions u \<and> named_regions a
      | EffectRowTy _ e _ \<Rightarrow> pred_option named_regions e
      | _ \<Rightarrow> True)"
| "named_regions_function f =
     (list_all (list_all named_regions) (fn_groups f) \<and> pred_option named_regions (fn_failure_error f) \<and>
      named_regions (fn_result f))"
  by pat_completeness auto
termination
  by (relation "measure (case_sum size size)")
    (auto intro: size_group_less dest!: size_error_less size_capture_less dest: size_field_less)

declare named_regions.simps [simp del] named_regions_function.simps [simp del]

abbreviation enc :: "ty \<Rightarrow> chars" where
  "enc \<equiv> canonical_type_encoding"

subsection \<open>The tag in front\<close>

definition tag :: "chars \<Rightarrow> chars" where
  "tag s = takeWhile (\<lambda>c. \<not> is_ascii_digit c) s"

definition starts_digit :: "chars \<Rightarrow> bool" where
  "starts_digit s \<longleftrightarrow> (\<exists>c cs. s = c # cs \<and> is_ascii_digit c)"

lemma starts_digit_append: "starts_digit s \<Longrightarrow> starts_digit (s @ t)"
  by (auto simp: starts_digit_def)

lemma starts_digit_simps [simp]:
  "starts_digit (show_nat n)" "starts_digit (canonical_component c)" "starts_digit (counted cs)"
  "starts_digit (show_nat n @ t)" "starts_digit (canonical_component c @ t)" "starts_digit (counted cs @ t)"
proof -
  show n: "starts_digit (show_nat n)" for n using show_nat_hd by (auto simp: starts_digit_def)
  show "starts_digit (show_nat n @ t)" for n t by (rule starts_digit_append [OF n])
  then show "starts_digit (canonical_component c)" "starts_digit (canonical_component c @ t)"
    "starts_digit (counted cs)" "starts_digit (counted cs @ t)" for c t cs
    by (simp_all add: canonical_component_def counted_def)
qed

lemma tag_append: "starts_digit s \<Longrightarrow> \<forall>c \<in> set t. \<not> is_ascii_digit c \<Longrightarrow> tag (t @ s) = t"
  by (induction t) (auto simp: tag_def starts_digit_def)

fun type_tag :: "ty \<Rightarrow> chars" where
  "type_tag (IntTy i) = tag (integer_name i)"
| "type_tag BoolTy = lit ''bool''"
| "type_tag UnitTy = lit ''unit''"
| "type_tag (TupleTy _) = lit ''tuple''"
| "type_tag (PointerTy _ m) = (if m then lit ''mutptr'' else lit ''ptr'')"
| "type_tag (ReferenceTy _ m _) = (if m then lit ''mutref'' else lit ''ref'')"
| "type_tag (ArrayTy _ _) = lit ''array''"
| "type_tag (SliceTy _) = lit ''slice''"
| "type_tag StrTy = lit ''str''"
| "type_tag (StructTy _) = lit ''struct''"
| "type_tag (EnumTy _) = lit ''enum''"
| "type_tag NeverTy = lit ''never''"
| "type_tag (FunctionTy _) = lit ''function''"
| "type_tag (CallableTy _ _ k) = lit ''callable'' @ (case k of PartialCall _ _ _ _ \<Rightarrow> lit ''p'' | ClosureCall _ _ _ \<Rightarrow> lit ''c'')"
| "type_tag (ContinuationTy _ _) = lit ''continuation''"
| "type_tag (EffectCallableTy _ _ _) = lit ''effect-callable''"
| "type_tag (EffectRowTy u e _) =
     (if u then lit ''effect-row-u'' else lit ''effect-row-p'') @ (case e of Some _ \<Rightarrow> lit ''t:'' | None \<Rightarrow> lit ''n:'')"
| "type_tag ErrorTy = lit ''error''"

lemma tag_lit: "\<forall>c \<in> set t. \<not> is_ascii_digit c \<Longrightarrow> tag t = t"
  by (simp add: tag_def takeWhile_eq_all_conv)

lemma no_digits [simp]:
  "\<forall>c \<in> set (lit ''bool''). \<not> is_ascii_digit c" "\<forall>c \<in> set (lit ''unit''). \<not> is_ascii_digit c"
  "\<forall>c \<in> set (lit ''tuple''). \<not> is_ascii_digit c" "\<forall>c \<in> set (lit ''mutptr''). \<not> is_ascii_digit c"
  "\<forall>c \<in> set (lit ''ptr''). \<not> is_ascii_digit c" "\<forall>c \<in> set (lit ''mutref''). \<not> is_ascii_digit c"
  "\<forall>c \<in> set (lit ''ref''). \<not> is_ascii_digit c" "\<forall>c \<in> set (lit ''array''). \<not> is_ascii_digit c"
  "\<forall>c \<in> set (lit ''slice''). \<not> is_ascii_digit c" "\<forall>c \<in> set (lit ''str''). \<not> is_ascii_digit c"
  "\<forall>c \<in> set (lit ''struct''). \<not> is_ascii_digit c" "\<forall>c \<in> set (lit ''enum''). \<not> is_ascii_digit c"
  "\<forall>c \<in> set (lit ''never''). \<not> is_ascii_digit c" "\<forall>c \<in> set (lit ''function''). \<not> is_ascii_digit c"
  "\<forall>c \<in> set (lit ''callable''). \<not> is_ascii_digit c" "\<forall>c \<in> set (lit ''continuation''). \<not> is_ascii_digit c"
  "\<forall>c \<in> set (lit ''effect-callable''). \<not> is_ascii_digit c" "\<forall>c \<in> set (lit ''error''). \<not> is_ascii_digit c"
  "\<forall>c \<in> set (lit ''effect-row-u''). \<not> is_ascii_digit c" "\<forall>c \<in> set (lit ''effect-row-p''). \<not> is_ascii_digit c"
  "\<forall>c \<in> set (lit ''t:''). \<not> is_ascii_digit c" "\<forall>c \<in> set (lit ''n:''). \<not> is_ascii_digit c"
  "\<forall>c \<in> set (lit ''p''). \<not> is_ascii_digit c" "\<forall>c \<in> set (lit ''c''). \<not> is_ascii_digit c"
  by (simp_all add: lit_def is_ascii_digit_def)

lemma tag_append2:
  "starts_digit s \<Longrightarrow> \<forall>c \<in> set t. \<not> is_ascii_digit c \<Longrightarrow> \<forall>c \<in> set u. \<not> is_ascii_digit c \<Longrightarrow> tag (t @ u @ s) = t @ u"
  using tag_append [of s "t @ u"] by auto

lemma tag_enc: "tag (enc t) = type_tag t"
proof (cases t)
  case (CallableTy f cs k)
  show ?thesis
    by (cases k) (simp_all add: CallableTy canonical_type_encoding.simps [of "CallableTy _ _ _"] kind_text_def tag_append2)
next
  case (ReferenceTy p m r)
  have "starts_digit ((case r of Some r \<Rightarrow> canonical_component r | None \<Rightarrow> lit ''0:'') @ canonical_component (enc p))"
    by (cases r) (simp_all add: starts_digit_def [of "_ # _"] lit_def is_ascii_digit_def)
  then show ?thesis by (simp add: ReferenceTy canonical_type_encoding.simps [of "ReferenceTy _ _ _"] tag_append)
next
  case (EffectRowTy u e c)
  show ?thesis
    by (cases e) (simp_all add: EffectRowTy canonical_type_encoding.simps [of "EffectRowTy _ _ _"] failure_text_def tag_append2)
qed (simp_all add: canonical_type_encoding.simps function_encoding.simps tag_append tag_lit)

subsection \<open>Injectivity\<close>

lemma integer_name_inject: "integer_name i = integer_name j \<Longrightarrow> i = j"
  by (cases i; cases j; simp add: lit_def)

lemma map_inject_in:
  assumes "map f xs = map f ys" "\<And>x y. x \<in> set xs \<Longrightarrow> y \<in> set ys \<Longrightarrow> f x = f y \<Longrightarrow> x = y"
  shows "xs = ys"
proof -
  have "length xs = length ys" using assms(1) by (rule map_eq_imp_length_eq)
  then show ?thesis using assms by (induction xs ys rule: list_induct2) auto
qed

definition capture_text :: "pass_mode \<times> chars \<Rightarrow> chars" where
  "capture_text c = mode_letter (fst c) @ canonical_component (snd c)"

lemma capture_text_parsable: "parsable capture_text"
  unfolding parsable_def
proof (intro allI impI)
  fix x y r s
  assume "capture_text x @ r = capture_text y @ s"
  then have "mode_letter (fst x) @ (canonical_component (snd x) @ r) = mode_letter (fst y) @ (canonical_component (snd y) @ s)"
    by (simp add: capture_text_def)
  note m = parsableD [OF mode_parsable, OF this]
  from parsableD [OF component_parsable, OF conjunct2 [OF m]] conjunct1 [OF m] show "x = y \<and> r = s"
    by (simp add: prod_eq_iff)
qed

lemma capture_text_hd: "\<not> starts_digit (capture_text c @ t)"
  by (cases "fst c") (simp_all add: capture_text_def mode_letter_def starts_digit_def lit_def is_ascii_digit_def)

text \<open>The captures need no count: a capture begins with a letter, what follows them with a digit.\<close>

lemma captures_parsable:
  assumes "concat (map capture_text xs) @ r = concat (map capture_text ys) @ s" "starts_digit r" "starts_digit s"
  shows "xs = ys \<and> r = s"
  using assms(1)
proof (induction xs arbitrary: ys)
  case Nil
  then show ?case using assms(2) capture_text_hd by (cases ys) auto
next
  case (Cons x xs)
  note e = Cons.prems
  obtain y zs where ys: "ys = y # zs"
    using e assms(3) capture_text_hd [of x "concat (map capture_text xs) @ r"] by (cases ys) auto
  have "capture_text x @ (concat (map capture_text xs) @ r) = capture_text y @ (concat (map capture_text zs) @ s)"
    using e ys by simp
  note p = parsableD [OF capture_text_parsable, OF this]
  from Cons.IH [OF conjunct2 [OF p]] conjunct1 [OF p] ys show ?case by simp
qed

lemma function_encoding_inject:
  assumes IH: "\<And>x y. size x < size f \<Longrightarrow> named_regions x \<Longrightarrow> named_regions y \<Longrightarrow> enc x = enc y \<Longrightarrow> x = y"
    and named: "named_regions_function f" "named_regions_function g"
    and e: "function_encoding f = function_encoding g"
  shows "f = g"
proof -
  obtain gs u er c r where f: "f = FunctionSig gs u er c r" by (cases f)
  obtain gs' u' er' c' r' where g: "g = FunctionSig gs' u' er' c' r'" by (cases g)
  define rest where "rest u er c r = (if u then lit ''u:'' else lit ''p:'') @ failure_text (map_option enc er) @ counted c @
    canonical_component (enc r)" for u er c r
  have "show_nat (length gs) @ lit '':'' @ (concat (map counted (map (map enc) gs)) @ rest u er c r) =
      show_nat (length gs') @ lit '':'' @ (concat (map counted (map (map enc) gs')) @ rest u' er' c' r')"
    using e by (simp add: f g function_encoding.simps rest_def comp_def)
  note n = number_append [OF this]
  have "length (map (map enc) gs) = length (map (map enc) gs')" using n by simp
  note p = concat_parsable [OF counted_parsable, OF this conjunct2 [OF n]]
  have u: "u = u'" using conjunct2 [OF p] by (auto simp: rest_def lit_def split: if_splits)
  then have "failure_text (map_option enc er) @ (counted c @ canonical_component (enc r)) =
      failure_text (map_option enc er') @ (counted c' @ canonical_component (enc r'))"
    using conjunct2 [OF p] by (simp add: rest_def)
  note q = parsableD [OF failure_parsable, OF this]
  note q2 = parsableD [OF counted_parsable, OF conjunct2 [OF q]]
  have r: "enc r = enc r'" by (rule parsable_inject [OF component_parsable, OF conjunct2 [OF q2]])
  have "r = r'"
    using IH [OF _ _ _ r] size_result_less [of f] named by (simp add: f g named_regions_function.simps)
  moreover have "gs = gs'"
  proof (rule map_inject_in [OF conjunct1 [OF p]])
    fix xs ys
    assume xs: "xs \<in> set gs" and ys: "ys \<in> set gs'" and m: "map enc xs = map enc ys"
    show "xs = ys"
    proof (rule map_inject_in [OF m])
      fix x y
      assume "x \<in> set xs" "y \<in> set ys" "enc x = enc y"
      then show "x = y"
        using IH [of x y] xs ys named size_group_less [of xs f x]
        by (simp add: f g named_regions_function.simps list_all_iff)
    qed
  qed
  moreover have "er = er'"
  proof (cases er)
    case (Some x)
    then obtain y where y: "er' = Some y" "enc x = enc y" using conjunct1 [OF q] by (cases er') auto
    then show ?thesis
      using IH [of x y] Some named size_error_less [of f x] by (simp add: f g named_regions_function.simps)
  qed (use conjunct1 [OF q] in \<open>simp\<close>)
  ultimately show ?thesis using u conjunct1 [OF q2] by (simp add: f g)
qed

lemma zero_component: "lit ''0:'' = canonical_component []"
  by (simp add: canonical_component_def byte_len_def show_nat_def decimal.simps lit_def)

text \<open>The tag fixes the constructor and the flags in front.\<close>

fun shape :: "ty \<Rightarrow> nat" where
  "shape (IntTy _) = 0" | "shape BoolTy = 1" | "shape UnitTy = 2" | "shape (TupleTy _) = 3"
| "shape (PointerTy _ m) = (if m then 4 else 5)" | "shape (ReferenceTy _ m _) = (if m then 6 else 7)"
| "shape StrTy = 8" | "shape (SliceTy _) = 9" | "shape (ArrayTy _ _) = 10" | "shape (StructTy _) = 11"
| "shape (EnumTy _) = 12" | "shape NeverTy = 13" | "shape (FunctionTy _) = 14"
| "shape (CallableTy _ _ k) = 15" | "shape (ContinuationTy _ _) = 16" | "shape (EffectCallableTy _ _ _) = 17"
| "shape (EffectRowTy u _ _) = (if u then 18 else 19)" | "shape ErrorTy = 20"

fun shape_of_tag :: "chars \<Rightarrow> nat" where
  "shape_of_tag t =
     (if t \<in> {lit ''i'', lit ''u'', lit ''isize'', lit ''usize''} then 0
      else if t = lit ''bool'' then 1 else if t = lit ''unit'' then 2 else if t = lit ''tuple'' then 3
      else if t = lit ''mutptr'' then 4 else if t = lit ''ptr'' then 5 else if t = lit ''mutref'' then 6
      else if t = lit ''ref'' then 7 else if t = lit ''str'' then 8 else if t = lit ''slice'' then 9
      else if t = lit ''array'' then 10 else if t = lit ''struct'' then 11 else if t = lit ''enum'' then 12
      else if t = lit ''never'' then 13 else if t = lit ''function'' then 14
      else if t \<in> {lit ''callablep'', lit ''callablec''} then 15 else if t = lit ''continuation'' then 16
      else if t = lit ''effect-callable'' then 17
      else if t \<in> {lit ''effect-row-ut:'', lit ''effect-row-un:''} then 18
      else if t \<in> {lit ''effect-row-pt:'', lit ''effect-row-pn:''} then 19 else 20)"

lemma shape_of_type_tag: "shape_of_tag (type_tag t) = shape t"
proof (cases t)
  case (IntTy i)
  then show ?thesis by (cases i) (simp_all add: lit_def tag_def is_ascii_digit_def)
next
  case (CallableTy f cs k)
  then show ?thesis by (cases k) (simp_all add: lit_def)
next
  case (EffectRowTy u e c)
  then show ?thesis by (cases e) (simp_all add: lit_def)
qed (simp_all add: lit_def)

lemma enc_shape: "enc a = enc b \<Longrightarrow> shape a = shape b"
  by (simp only: shape_of_type_tag [symmetric] tag_enc [symmetric])

lemmas enc_simps = canonical_type_encoding.simps
lemmas component_inject = parsable_inject [OF component_parsable]

lemma enc_callable:
  "enc (CallableTy f cs k) = lit ''callable'' @ kind_text k @
     concat (map capture_text (map (\<lambda>c. (capture_mode c, enc (capture_type c))) cs)) @ canonical_component (function_encoding f)"
  by (simp add: enc_simps capture_text_def comp_def)

lemma enc_inject:
  "named_regions a \<Longrightarrow> named_regions b \<Longrightarrow> enc a = enc b \<Longrightarrow> a = b"
proof (induction "size a" arbitrary: a b rule: less_induct)
  case less
  note named = less.prems(1,2)
  note e = less.prems(3)
  note sh = enc_shape [OF e]
  have IH: "x = y" if "size x < size a" "named_regions x" "named_regions y" "enc x = enc y" for x y
    using that less.hyps by blast
  show ?case
  proof (cases a)
    case (IntTy i)
    then obtain j where "b = IntTy j" using sh by (cases b) (simp_all split: if_splits)
    then show ?thesis using e IntTy integer_name_inject by (simp add: enc_simps)
  next
    case (TupleTy fs)
    then obtain gs where b: "b = TupleTy gs" using sh by (cases b) (simp_all split: if_splits)
    have m: "map enc fs = map enc gs"
      using e parsable_inject [OF counted_parsable] by (simp add: TupleTy b enc_simps)
    have "fs = gs"
      by (rule map_inject_in [OF m], rule IH)
        (use named in \<open>simp_all add: TupleTy b named_regions.simps list_all_iff size_field_less\<close>)
    then show ?thesis by (simp add: TupleTy b)
  next
    case (PointerTy p m)
    then obtain q where b: "b = PointerTy q m" using sh by (cases b) (simp_all split: if_splits)
    have "enc p = enc q" using e component_inject by (simp add: PointerTy b enc_simps)
    then show ?thesis using IH [of p q] named by (simp add: PointerTy b named_regions.simps)
  next
    case (ReferenceTy p m r)
    then obtain q r' where b: "b = ReferenceTy q m r'" using sh by (cases b) (simp_all split: if_splits)
    define region where "region r = (case r of Some n \<Rightarrow> n | None \<Rightarrow> [])" for r :: "chars option"
    have "canonical_component (region r) @ canonical_component (enc p) =
        canonical_component (region r') @ canonical_component (enc q)"
      using e by (cases r; cases r') (simp_all add: ReferenceTy b enc_simps region_def zero_component)
    note c = parsableD [OF component_parsable, OF this]
    have "r = r'" using conjunct1 [OF c] named
      by (cases r; cases r') (simp_all add: region_def ReferenceTy b named_regions.simps)
    moreover have "p = q"
      using IH [OF _ _ _ component_inject [OF conjunct2 [OF c]]] named by (simp add: ReferenceTy b named_regions.simps)
    ultimately show ?thesis by (simp add: ReferenceTy b)
  next
    case (SliceTy p)
    then obtain q where b: "b = SliceTy q" using sh by (cases b) (simp_all split: if_splits)
    have "enc p = enc q" using e component_inject by (simp add: SliceTy b enc_simps)
    then show ?thesis using IH [of p q] named by (simp add: SliceTy b named_regions.simps)
  next
    case (ArrayTy p n)
    then obtain q n' where b: "b = ArrayTy q n'" using sh by (cases b) (simp_all split: if_splits)
    have "show_nat (unat n) @ lit '':'' @ canonical_component (enc p) =
        show_nat (unat n') @ lit '':'' @ canonical_component (enc q)"
      using e by (simp add: ArrayTy b enc_simps)
    note c = number_append [OF this]
    have "p = q"
      using IH [OF _ _ _ component_inject [OF conjunct2 [OF c]]] named by (simp add: ArrayTy b named_regions.simps)
    then show ?thesis using c by (simp add: ArrayTy b word_unat_eq_iff)
  next
    case (StructTy n)
    then obtain n' where b: "b = StructTy n'" using sh by (cases b) (simp_all split: if_splits)
    show ?thesis using e component_inject by (simp add: StructTy b enc_simps)
  next
    case (EnumTy n)
    then obtain n' where b: "b = EnumTy n'" using sh by (cases b) (simp_all split: if_splits)
    show ?thesis using e component_inject by (simp add: EnumTy b enc_simps)
  next
    case (FunctionTy f)
    then obtain g where b: "b = FunctionTy g" using sh by (cases b) (simp_all split: if_splits)
    have "f = g"
      by (rule function_encoding_inject, rule IH)
        (use named e in \<open>simp_all add: FunctionTy b named_regions.simps [of "FunctionTy _"] enc_simps [of "FunctionTy _"]\<close>)
    then show ?thesis by (simp add: FunctionTy b)
  next
    case (CallableTy f cs k)
    then obtain g ds k' where b: "b = CallableTy g ds k'" using sh by (cases b) (simp_all split: if_splits)
    let ?c = "map (\<lambda>c. (capture_mode c, enc (capture_type c)))"
    have "kind_text k @ (concat (map capture_text (?c cs)) @ canonical_component (function_encoding f)) =
        kind_text k' @ (concat (map capture_text (?c ds)) @ canonical_component (function_encoding g))"
      using e unfolding CallableTy b enc_callable by simp
    note p = parsableD [OF kind_parsable, OF this]
    note q = captures_parsable [OF conjunct2 [OF p] starts_digit_simps(2) starts_digit_simps(2)]
    have "f = g"
    proof (rule function_encoding_inject)
      show "x = y" if "size x < size f" "named_regions x" "named_regions y" "enc x = enc y" for x y
        using that by (intro IH) (simp_all add: CallableTy)
      show "function_encoding f = function_encoding g" by (rule component_inject [OF conjunct2 [OF q]])
    qed (use named in \<open>simp_all add: CallableTy b named_regions.simps\<close>)
    moreover have "cs = ds"
    proof (rule map_inject_in [OF conjunct1 [OF q]])
      fix c d
      assume c: "c \<in> set cs" and d: "d \<in> set ds"
        and eq: "(capture_mode c, enc (capture_type c)) = (capture_mode d, enc (capture_type d))"
      have "capture_type c = capture_type d"
        using eq named c d size_capture_less [OF c]
        by (intro IH) (auto simp: CallableTy b named_regions.simps list_all_iff)
      then show "c = d" using eq by (simp add: capture_ty.expand)
    qed
    ultimately show ?thesis using conjunct1 [OF p] by (simp add: CallableTy b)
  next
    case (ContinuationTy i u)
    then obtain i' u' where b: "b = ContinuationTy i' u'" using sh by (cases b) (simp_all split: if_splits)
    have "canonical_component (enc i) @ canonical_component (enc u) = canonical_component (enc i') @ canonical_component (enc u')"
      using e by (simp add: ContinuationTy b enc_simps)
    note c = parsableD [OF component_parsable, OF this]
    show ?thesis
      using IH [OF _ _ _ conjunct1 [OF c]] IH [OF _ _ _ component_inject [OF conjunct2 [OF c]]] named
      by (simp add: ContinuationTy b named_regions.simps)
  next
    case (EffectCallableTy i u v)
    then obtain i' u' v' where b: "b = EffectCallableTy i' u' v'" using sh by (cases b) (simp_all split: if_splits)
    have "canonical_component (enc i) @ (canonical_component (enc u) @ canonical_component (enc v)) =
        canonical_component (enc i') @ (canonical_component (enc u') @ canonical_component (enc v'))"
      using e by (simp add: EffectCallableTy b enc_simps)
    note c = parsableD [OF component_parsable, OF this]
    note d = parsableD [OF component_parsable, OF conjunct2 [OF c]]
    show ?thesis
      using IH [OF _ _ _ conjunct1 [OF c]] IH [OF _ _ _ conjunct1 [OF d]]
        IH [OF _ _ _ component_inject [OF conjunct2 [OF d]]] named
      by (simp add: EffectCallableTy b named_regions.simps)
  next
    case (EffectRowTy u er c)
    then obtain er' c' where b: "b = EffectRowTy u er' c'" using sh by (cases b) (simp_all split: if_splits)
    have "failure_text (map_option enc er) @ counted c = failure_text (map_option enc er') @ counted c'"
      using e by (simp add: EffectRowTy b enc_simps split: if_splits)
    note p = parsableD [OF failure_parsable, OF this]
    have "er = er'"
    proof (cases er)
      case (Some x)
      then obtain y where y: "er' = Some y" "enc x = enc y" using conjunct1 [OF p] by (cases er') auto
      then show ?thesis using IH [of x y] Some named by (simp add: EffectRowTy b named_regions.simps)
    qed (use conjunct1 [OF p] in \<open>simp\<close>)
    then show ?thesis using parsable_inject [OF counted_parsable, OF conjunct2 [OF p]] by (simp add: EffectRowTy b)
  qed (use sh in \<open>cases b; simp split: if_splits\<close>)+
qed

end
