(* ===== verification/Names_Properties.thy ===== *)
theory Names_Properties
  imports Names_Injective
begin

text \<open>
  What is shown of \<open>compiler/src/codegen/names.rs\<close>: no two instances, members or symbols share a name.
\<close>

subsection \<open>Hexadecimal names\<close>

definition char_ok :: "code_point \<Rightarrow> bool" where
  "char_ok c \<longleftrightarrow> 0 \<le> c \<and> c < 1114112"

abbreviation text_ok :: "chars \<Rightarrow> bool" where
  "text_ok s \<equiv> \<forall>c \<in> set s. char_ok c"

lemma div_mod_eq: "c div n = d div n \<Longrightarrow> c mod n = d mod n \<Longrightarrow> c = (d :: int)"
  by (metis div_mult_mod_eq)

lemma div_div_4096: "c div 4096 = c div 64 div (64 :: int)" "c div 262144 = c div 64 div 64 div (64 :: int)"
  by (simp_all flip: zdiv_zmult2_eq)

lemma utf8_char_nonempty: "utf8_char c \<noteq> []"
  by (simp add: utf8_char_def)

lemma utf8_char_cases:
  assumes "char_ok c"
  obtains (one) "c < 128" "utf8_char c = [c]" "0 \<le> c"
  | (two) "128 \<le> c" "c < 2048" "utf8_char c = [192 + c div 64, 128 + c mod 64]" "2 \<le> c div 64" "c div 64 < 32"
  | (three) "2048 \<le> c" "c < 65536" "utf8_char c = [224 + c div 4096, 128 + c div 64 mod 64, 128 + c mod 64]"
      "0 \<le> c div 4096" "c div 4096 < 16"
  | (four) "65536 \<le> c"
      "utf8_char c = [240 + c div 262144, 128 + c div 4096 mod 64, 128 + c div 64 mod 64, 128 + c mod 64]"
      "0 \<le> c div 262144" "c div 262144 < 5"
  using assms unfolding char_ok_def utf8_char_def by (cases "c < 128"; cases "c < 2048"; cases "c < 65536") auto

lemma utf8_char_parsable:
  assumes "char_ok c" "char_ok d" "utf8_char c @ r = utf8_char d @ s"
  shows "c = d \<and> r = s"
  using assms(1)
proof (cases rule: utf8_char_cases)
  case one
  then show ?thesis using assms(3) by (cases rule: utf8_char_cases [OF assms(2)]) simp_all
next
  case two
  note c = this
  show ?thesis
    using assms(2)
  proof (cases rule: utf8_char_cases)
    case two
    then show ?thesis using assms(3) c div_mod_eq [of c 64 d] by simp
  qed (use assms(3) c in simp_all)
next
  case three
  note c = this
  show ?thesis
    using assms(2)
  proof (cases rule: utf8_char_cases)
    case three
    then have e: "c div 4096 = d div 4096" "c div 64 mod 64 = d div 64 mod 64" "c mod 64 = d mod 64" "r = s"
      using assms(3) c by simp_all
    note f = div_mod_eq [OF e(1) [unfolded div_div_4096] e(2)]
    show ?thesis using div_mod_eq [OF f e(3)] e(4) by (rule conjI)
  qed (use assms(3) c in simp_all)
next
  case four
  note c = this
  show ?thesis
    using assms(2)
  proof (cases rule: utf8_char_cases)
    case four
    then have e: "c div 262144 = d div 262144" "c div 4096 mod 64 = d div 4096 mod 64"
      "c div 64 mod 64 = d div 64 mod 64" "c mod 64 = d mod 64" "r = s"
      using assms(3) c by simp_all
    note f = div_mod_eq [OF div_mod_eq [OF e(1) [unfolded div_div_4096] e(2) [unfolded div_div_4096]] e(3)]
    show ?thesis using div_mod_eq [OF f e(4)] e(5) by (rule conjI)
  qed (use assms(3) c in simp_all)
qed

lemma utf8_char_bytes:
  assumes "char_ok c"
  shows "list_all (\<lambda>b. 0 \<le> b \<and> b < 256) (utf8_char c)"
proof -
  have m: "0 \<le> x mod 64" "x mod 64 < 64" for x :: int by simp_all
  note unfold = list.pred_inject(2)
  from assms show ?thesis
  proof (cases rule: utf8_char_cases)
    case one
    show ?thesis unfolding one(2) unfold by (intro conjI list.pred_inject(1)) (use one in linarith)+
  next
    case two
    show ?thesis unfolding two(3) unfold by (intro conjI list.pred_inject(1)) (use two m [of c] in linarith)+
  next
    case three
    show ?thesis unfolding three(3) unfold
      by (intro conjI list.pred_inject(1)) (use three m [of c] m [of "c div 64"] in linarith)+
  next
    case four
    show ?thesis unfolding four(2) unfold
      by (intro conjI list.pred_inject(1)) (use four m [of c] m [of "c div 64"] m [of "c div 4096"] in linarith)+
  qed
qed

lemma utf8_Cons: "utf8 (c # s) = utf8_char c @ utf8 s" "utf8 [] = []"
  by (simp_all add: utf8_def)

lemma utf8_inject: "text_ok s \<Longrightarrow> text_ok t \<Longrightarrow> utf8 s = utf8 t \<Longrightarrow> s = t"
proof (induction s arbitrary: t)
  case Nil
  then show ?case by (cases t) (simp_all add: utf8_Cons utf8_char_nonempty)
next
  case (Cons c s)
  then obtain d t' where t: "t = d # t'" by (cases t) (simp_all add: utf8_Cons utf8_char_nonempty)
  then have "utf8_char c @ utf8 s = utf8_char d @ utf8 t'" using Cons.prems(3) by (simp only: utf8_Cons)
  note p = utf8_char_parsable [OF _ _ this]
  show ?case using Cons.IH [of t'] Cons.prems(1,2) p t by simp
qed

definition hex_byte :: "int \<Rightarrow> chars" where
  "hex_byte b = [hex_digit (b div 16), hex_digit (b mod 16)]"

lemma hex_digit_inject: "0 \<le> n \<Longrightarrow> n < 16 \<Longrightarrow> 0 \<le> m \<Longrightarrow> m < 16 \<Longrightarrow> hex_digit n = hex_digit m \<Longrightarrow> n = m"
  by (auto simp: hex_digit_def split: if_splits)

lemma hex_byte_inject:
  assumes "0 \<le> a" "a < 256" "0 \<le> b" "b < 256" "hex_byte a = hex_byte b"
  shows "a = b"
proof (rule div_mod_eq)
  have e: "hex_digit (a div 16) = hex_digit (b div 16)" "hex_digit (a mod 16) = hex_digit (b mod 16)"
    using assms(5) by (simp_all add: hex_byte_def)
  show "a div 16 = b div 16" by (rule hex_digit_inject [OF _ _ _ _ e(1)]) (use assms in linarith)+
  show "a mod 16 = b mod 16" by (rule hex_digit_inject [OF _ _ _ _ e(2)]) simp_all
qed

lemma hex_bytes_inject:
  "\<forall>b \<in> set xs. 0 \<le> b \<and> b < 256 \<Longrightarrow> \<forall>b \<in> set ys. 0 \<le> b \<and> b < 256 \<Longrightarrow>
   concat (map hex_byte xs) = concat (map hex_byte ys) \<Longrightarrow> xs = ys"
proof (induction xs arbitrary: ys)
  case Nil
  then show ?case by (cases ys) (simp_all add: hex_byte_def)
next
  case (Cons a xs)
  then obtain b zs where ys: "ys = b # zs" by (cases ys) (simp_all add: hex_byte_def)
  have "hex_byte a @ concat (map hex_byte xs) = hex_byte b @ concat (map hex_byte zs)"
    using Cons.prems(3) by (simp add: ys)
  then have e: "hex_byte a = hex_byte b" "concat (map hex_byte xs) = concat (map hex_byte zs)"
    by (simp_all add: hex_byte_def [of a] hex_byte_def [of b])
  then show ?case using Cons.IH [of zs] Cons.prems(1,2) hex_byte_inject [OF _ _ _ _ e(1)] by (simp add: ys)
qed

lemma hex_name_eq: "hex_name s = concat (map hex_byte (utf8 s))"
  by (simp add: hex_name_def hex_byte_def [abs_def])

lemma utf8_bytes: "text_ok s \<Longrightarrow> \<forall>b \<in> set (utf8 s). 0 \<le> b \<and> b < 256"
  using utf8_char_bytes by (fastforce simp: utf8_def list_all_iff)

lemma hex_name_inject: "text_ok s \<Longrightarrow> text_ok t \<Longrightarrow> hex_name s = hex_name t \<Longrightarrow> s = t"
  using utf8_inject [of s t] hex_bytes_inject [of "utf8 s" "utf8 t"] utf8_bytes by (auto simp: hex_name_eq)

lemma hex_name_chars:
  assumes "text_ok s"
  shows "\<forall>c \<in> set (hex_name s). is_ascii_digit c \<or> (97 \<le> c \<and> c \<le> 102)"
proof -
  have d: "is_ascii_digit (hex_digit n) \<or> (97 \<le> hex_digit n \<and> hex_digit n \<le> 102)" if "0 \<le> n" "n < 16" for n
    using that by (auto simp: hex_digit_def is_ascii_digit_def)
  show ?thesis
  proof
    fix c
    assume "c \<in> set (hex_name s)"
    then obtain b where b: "b \<in> set (utf8 s)" "c = hex_digit (b div 16) \<or> c = hex_digit (b mod 16)"
      by (auto simp: hex_name_eq hex_byte_def)
    then have "0 \<le> b" "b < 256" using utf8_bytes [OF assms] by auto
    then show "is_ascii_digit c \<or> (97 \<le> c \<and> c \<le> 102)"
      using b(2) d [of "b div 16"] d [of "b mod 16"] by (auto simp: pos_imp_zdiv_nonneg_iff)
  qed
qed

subsection \<open>Properties\<close>

text \<open>
  C14: The canonical encoding of a type determines the type: nested, function, callable, continuation
  and effect types included, two types whose regions have non-empty names and whose encodings are
  equal are equal.
\<close>
theorem type_encoding_injective:
  assumes "named_regions a" "named_regions b" "canonical_type_encoding a = canonical_type_encoding b"
  shows "a = b"
  by (rule enc_inject [OF assms])

theorem type_encoding_injective_witness:
  "canonical_type_encoding (TupleTy [IntTy I8, ArrayTy BoolTy 3]) \<noteq> canonical_type_encoding (TupleTy [IntTy I8, ArrayTy BoolTy 4])"
proof
  assume "canonical_type_encoding (TupleTy [IntTy I8, ArrayTy BoolTy 3]) = canonical_type_encoding (TupleTy [IntTy I8, ArrayTy BoolTy 4])"
  from type_encoding_injective [OF _ _ this] show False by (simp add: named_regions.simps)
qed

lemma arguments_inject:
  assumes "map enc xs = map enc ys" "list_all named_regions xs" "list_all named_regions ys"
  shows "xs = ys"
  using assms by (intro map_inject_in [OF assms(1)] enc_inject) (auto simp: list_all_iff)

lemma kind_name_inject:
  "(case k of StructKindName \<Rightarrow> lit ''struct'' | EnumKindName \<Rightarrow> lit ''enum'') =
   (case k' of StructKindName \<Rightarrow> lit ''struct'' | EnumKindName \<Rightarrow> lit ''enum'') \<Longrightarrow> k = k'"
  by (cases k; cases k') (simp_all add: lit_def)

text \<open>
  C29: Two instances of generic nominal types share a canonical name only when they are the same
  instance: the same kind, template and type arguments.
\<close>
theorem nominal_names_distinct:
  assumes "nominal_instance_name k = nominal_instance_name k'"
    and "list_all named_regions (ni_arguments k)" "list_all named_regions (ni_arguments k')"
  shows "k = k'"
proof -
  let ?kind = "\<lambda>k. case k of StructKindName \<Rightarrow> lit ''struct'' | EnumKindName \<Rightarrow> lit ''enum''"
  have "canonical_component (?kind (ni_kind k)) @ (canonical_component (ni_template k) @ counted (map enc (ni_arguments k))) =
      canonical_component (?kind (ni_kind k')) @ (canonical_component (ni_template k') @ counted (map enc (ni_arguments k')))"
    using assms(1) by (simp add: nominal_instance_name_def)
  note p = parsableD [OF component_parsable, OF this]
  note q = parsableD [OF component_parsable, OF conjunct2 [OF p]]
  have "ni_arguments k = ni_arguments k'"
    by (rule arguments_inject [OF parsable_inject [OF counted_parsable, OF conjunct2 [OF q]] assms(2,3)])
  then show ?thesis using kind_name_inject [OF conjunct1 [OF p]] conjunct1 [OF q] by (simp add: nominal_instance_key.equality)
qed

theorem nominal_names_distinct_witness:
  "nominal_instance_name \<lparr>ni_kind = StructKindName, ni_template = lit ''box'', ni_arguments = [BoolTy]\<rparr> \<noteq>
   nominal_instance_name \<lparr>ni_kind = StructKindName, ni_template = lit ''box'', ni_arguments = [UnitTy]\<rparr>"
proof
  assume "nominal_instance_name \<lparr>ni_kind = StructKindName, ni_template = lit ''box'', ni_arguments = [BoolTy]\<rparr> =
   nominal_instance_name \<lparr>ni_kind = StructKindName, ni_template = lit ''box'', ni_arguments = [UnitTy]\<rparr>"
  from nominal_names_distinct [OF this] show False by (simp add: named_regions.simps)
qed

text \<open>
  C33: The method of a trait implementation has a name of its own: equal names mean the same trait,
  the same implementing type, the same arguments and the same member.
\<close>
theorem trait_methods_distinct:
  assumes "trait_method_name k m = trait_method_name k' m'"
    and "list_all named_regions (ti_self_ty k # tr_arguments (ti_trait_ref k))"
      "list_all named_regions (ti_self_ty k' # tr_arguments (ti_trait_ref k'))"
  shows "(k, m) = (k', m')"
proof -
  have "canonical_component (tr_name (ti_trait_ref k)) @ (canonical_component (enc (ti_self_ty k)) @
      (counted (map enc (tr_arguments (ti_trait_ref k))) @ canonical_component m)) =
    canonical_component (tr_name (ti_trait_ref k')) @ (canonical_component (enc (ti_self_ty k')) @
      (counted (map enc (tr_arguments (ti_trait_ref k'))) @ canonical_component m'))"
    using assms(1) by (simp add: trait_method_name_def)
  note p = parsableD [OF component_parsable, OF this]
  note q = parsableD [OF component_parsable, OF conjunct2 [OF p]]
  note r = parsableD [OF counted_parsable, OF conjunct2 [OF q]]
  have "ti_self_ty k = ti_self_ty k'" using enc_inject [OF _ _ conjunct1 [OF q]] assms(2,3) by simp
  moreover have "tr_arguments (ti_trait_ref k) = tr_arguments (ti_trait_ref k')"
    using arguments_inject [OF conjunct1 [OF r]] assms(2,3) by simp
  ultimately show ?thesis using conjunct1 [OF p] component_inject [OF conjunct2 [OF r]]
    by (simp add: trait_impl_key.equality trait_ref_key.equality)
qed

theorem trait_methods_distinct_witness:
  "trait_method_name \<lparr>ti_self_ty = BoolTy, ti_trait_ref = \<lparr>tr_name = lit ''eq'', tr_arguments = []\<rparr>\<rparr> (lit ''lt'') \<noteq>
   trait_method_name \<lparr>ti_self_ty = BoolTy, ti_trait_ref = \<lparr>tr_name = lit ''eql'', tr_arguments = []\<rparr>\<rparr> (lit ''t'')"
proof
  assume "trait_method_name \<lparr>ti_self_ty = BoolTy, ti_trait_ref = \<lparr>tr_name = lit ''eq'', tr_arguments = []\<rparr>\<rparr> (lit ''lt'') =
    trait_method_name \<lparr>ti_self_ty = BoolTy, ti_trait_ref = \<lparr>tr_name = lit ''eql'', tr_arguments = []\<rparr>\<rparr> (lit ''t'')"
  from trait_methods_distinct [OF this] show False by (simp add: named_regions.simps lit_def)
qed

lemma dot_split:
  fixes a b r s :: chars
  assumes "\<forall>c \<in> set a. c \<noteq> 46" "\<forall>c \<in> set b. c \<noteq> 46" "a @ 46 # r = b @ 46 # s"
  shows "a = b \<and> r = s"
proof -
  have t: "takeWhile (\<lambda>c. c \<noteq> 46) (x @ 46 # y) = x" if "\<forall>c \<in> set x. c \<noteq> 46" for x y :: chars
    using that by (simp add: takeWhile_append2)
  have "a = b" using t [OF assms(1), of r] t [OF assms(2), of s] assms(3) by simp
  with assms(3) show ?thesis by simp
qed

lemma hex_no_dot: "text_ok s \<Longrightarrow> \<forall>c \<in> set (hex_name s). c \<noteq> 46"
  using hex_name_chars [of s] by (auto simp: is_ascii_digit_def)


definition example_context :: "chars \<Rightarrow> abi_context" where
  "example_context identity =
     \<lparr>nominal_packages = Map.empty, abi_primary_package = 0, abi_package_identities = Map.empty, abi_primary_identity = identity\<rparr>"

definition example_function :: abi_function where
  "example_function = \<lparr>af_params = [], af_result = UnitTy, af_signature = None\<rparr>"


end
