(* ===== verification/Access.thy ===== *)
theory Access
  imports Ast_Expr Names "HOL-Library.List_Lexorder"
begin

text \<open>
  Visibility (\<open>compiler/src/codegen/access.rs\<close>): who may use a declaration, field access checks, and the
  search for types that are less visible than the interface that mentions them.  The record
  \<open>analyzer\<close> holds what these operations and the layouts read and write of the \<open>Analyzer\<close>; the
  hash maps that are iterated over are association lists.
\<close>

record access_boundary =
  ab_visibility :: visibility
  ab_origin :: item_origin

record diagnostic =
  diag_message :: chars
  diag_origin :: "item_origin option"

record analyzer =
  nominal_accesses :: "chars \<rightharpoonup> access_boundary"
  nominal_instances :: "(chars \<times> nominal_instance_key) list"
  abstract_type_parameters :: "chars \<rightharpoonup> chars"
  function_accesses :: "(chars \<times> access_boundary) list"
  global_accesses :: "(chars \<times> access_boundary) list"
  current_origin :: "item_origin option"
  diagnostics :: "diagnostic list"

definition report :: "chars \<Rightarrow> 'm analyzer_scheme \<Rightarrow> 'm analyzer_scheme" where
  "report m a = a\<lparr>diagnostics := diagnostics a @ [\<lparr>diag_message = m, diag_origin = current_origin a\<rparr>]\<rparr>"

subsection \<open>Boundaries\<close>

definition access_boundary_allows :: "item_origin \<Rightarrow> access_boundary \<Rightarrow> bool" where
  "access_boundary_allows origin access =
     (case ab_visibility access of
        Public \<Rightarrow> True
      | Package \<Rightarrow> package origin = package (ab_origin access)
      | Private \<Rightarrow>
          package origin = package (ab_origin access) \<and> prefix (module_path (ab_origin access)) (module_path origin))"

definition visibility_rank :: "visibility \<Rightarrow> nat" where
  "visibility_rank v = (case v of Private \<Rightarrow> 0 | Package \<Rightarrow> 1 | Public \<Rightarrow> 2)"

definition visibility_text :: "visibility \<Rightarrow> chars" where
  "visibility_text v = (case v of Private \<Rightarrow> lit ''private'' | Package \<Rightarrow> lit ''pub(package)'' | Public \<Rightarrow> lit ''public'')"

definition effective_member_access :: "access_boundary \<Rightarrow> visibility \<Rightarrow> access_boundary" where
  "effective_member_access owner member_visibility =
     \<lparr>ab_visibility =
        (if visibility_rank (ab_visibility owner) \<le> visibility_rank member_visibility then ab_visibility owner
         else member_visibility),
      ab_origin = ab_origin owner\<rparr>"

definition api_audience_is_contained :: "access_boundary \<Rightarrow> access_boundary \<Rightarrow> bool" where
  "api_audience_is_contained exposed referenced =
     (let same = (package (ab_origin exposed) = package (ab_origin referenced)) in
      case ab_visibility referenced of
        Public \<Rightarrow> True
      | Package \<Rightarrow> ab_visibility exposed \<noteq> Public \<and> same
      | Private \<Rightarrow>
          (ab_visibility exposed = Private \<and> same \<and>
           prefix (module_path (ab_origin referenced)) (module_path (ab_origin exposed))) \<or>
          (ab_visibility exposed = Package \<and> same \<and> module_path (ab_origin referenced) = []))"

definition intersect_access_boundaries :: "access_boundary \<Rightarrow> access_boundary \<Rightarrow> item_origin \<Rightarrow> access_boundary" where
  "intersect_access_boundaries left right fallback_origin =
     (if api_audience_is_contained left right then left
      else if api_audience_is_contained right left then right
      else \<lparr>ab_visibility = Private, ab_origin = fallback_origin\<rparr>)"

subsection \<open>Field access\<close>

definition nominal_access_or_internal :: "chars \<Rightarrow> 'm analyzer_scheme \<Rightarrow> access_boundary \<times> 'm analyzer_scheme" where
  "nominal_access_or_internal name a =
     (case nominal_accesses a name of
        Some access \<Rightarrow> (access, a)
      | None \<Rightarrow>
          (\<lparr>ab_visibility = Private, ab_origin = default_origin\<rparr>,
           report (lit ''internal error: nominal type `'' @ name @ lit ''` has no visibility metadata'') a))"

definition require_named_field_access ::
    "chars \<Rightarrow> chars \<Rightarrow> access_boundary \<Rightarrow> item_origin \<Rightarrow> 'm analyzer_scheme \<Rightarrow> bool \<times> 'm analyzer_scheme" where
  "require_named_field_access owner field access origin a =
     (if access_boundary_allows origin access then (True, a)
      else
        (False,
         report (lit ''field `'' @ owner @ lit ''.'' @ field @ lit ''` is '' @ visibility_text (ab_visibility access) @
           lit '' and is not accessible from this module'') a))"

text \<open>The name of the template of an instance, also for a variant \<open>instance.variant\<close> of one.\<close>

definition display_owner :: "'m analyzer_scheme \<Rightarrow> chars \<Rightarrow> chars" where
  "display_owner a owner =
     (case map_of (nominal_instances a) owner of
        Some key \<Rightarrow> ni_template key
      | None \<Rightarrow>
          (case find_map
             (\<lambda>(canonical, key).
                Option.bind (strip_prefix canonical owner)
                  (\<lambda>suffix. if strip_prefix (lit ''.'') suffix \<noteq> None then Some (ni_template key @ suffix) else None))
             (nominal_instances a) of
             Some d \<Rightarrow> d
           | None \<Rightarrow> owner))"

definition require_field_access ::
    "chars \<Rightarrow> chars \<Rightarrow> access_boundary \<Rightarrow> item_origin \<Rightarrow> 'm analyzer_scheme \<Rightarrow> bool \<times> 'm analyzer_scheme" where
  "require_field_access owner field access origin a =
     require_named_field_access (display_owner a owner) field access origin a"

text \<open>\<open>accessible &= ..\<close> over named boundaries: every check runs and reports.\<close>

definition require_all ::
    "chars \<Rightarrow> item_origin \<Rightarrow> (chars \<times> access_boundary) list \<Rightarrow> 'm analyzer_scheme \<Rightarrow> bool \<times> 'm analyzer_scheme" where
  "require_all owner origin fs a =
     fold (\<lambda>(field, access) (ok, a).
        case require_named_field_access owner field access origin a of (ok', a) \<Rightarrow> (ok \<and> ok', a)) fs (True, a)"

definition require_source_fields_access ::
    "chars \<Rightarrow> field_def list \<Rightarrow> item_origin \<Rightarrow> 'm analyzer_scheme \<Rightarrow> bool \<times> 'm analyzer_scheme" where
  "require_source_fields_access owner fs origin a =
     (case nominal_access_or_internal owner a of
        (access, a) \<Rightarrow>
          require_all owner origin (map (\<lambda>f. (field_name f, effective_member_access access (field_visibility f))) fs) a)"

definition require_source_variant_fields_access ::
    "chars \<Rightarrow> chars \<Rightarrow> variant_fields \<Rightarrow> item_origin \<Rightarrow> 'm analyzer_scheme \<Rightarrow> bool \<times> 'm analyzer_scheme" where
  "require_source_variant_fields_access owner variant fs origin a =
     (case nominal_access_or_internal owner a of
        (access, a) \<Rightarrow>
          (let shown = owner @ lit ''.'' @ variant in
           case fs of
             UnitFields \<Rightarrow> (True, a)
           | PositionalFields types \<Rightarrow>
               require_all shown origin (map (\<lambda>i. (show_nat i, access)) [0..<length types]) a
           | NamedFields fs \<Rightarrow>
               require_all shown origin (map (\<lambda>f. (field_name f, effective_member_access access (field_visibility f))) fs) a))"

definition source_fields_are_accessible :: "'m analyzer_scheme \<Rightarrow> chars \<Rightarrow> field_def list \<Rightarrow> item_origin \<Rightarrow> bool" where
  "source_fields_are_accessible a owner fs origin =
     (case nominal_accesses a owner of
        None \<Rightarrow> False
      | Some access \<Rightarrow>
          list_all (\<lambda>f. access_boundary_allows origin (effective_member_access access (field_visibility f))) fs)"

definition source_variant_fields_are_accessible ::
    "'m analyzer_scheme \<Rightarrow> source_type \<Rightarrow> variant_fields \<Rightarrow> item_origin \<Rightarrow> bool" where
  "source_variant_fields_are_accessible a source fs origin =
     (case source of
        SrcNamed owner _ \<Rightarrow>
          (case nominal_accesses a owner of
             None \<Rightarrow> False
           | Some access \<Rightarrow>
               (case fs of
                  UnitFields \<Rightarrow> True
                | PositionalFields types \<Rightarrow> types = [] \<or> access_boundary_allows origin access
                | NamedFields fs \<Rightarrow> source_fields_are_accessible a owner fs origin))
      | _ \<Rightarrow> False)"

subsection \<open>Walking the nominal types of a type\<close>

text \<open>
  The recursion that \<open>restrict_access_boundary_to_type\<close> and \<open>collect_type_api_leaks\<close> share: \<open>act\<close>
  handles a nominal type (\<open>None\<close>: return at once), \<open>args\<close> are the arguments of an instance,
  visited once.
\<close>

definition nominal_of :: "ty \<Rightarrow> chars option" where
  "nominal_of t = (case t of StructTy name \<Rightarrow> Some name | EnumTy name \<Rightarrow> Some name | _ \<Rightarrow> None)"

text \<open>The types a type is made of, in the order both functions visit them.\<close>

definition type_components :: "ty \<Rightarrow> ty list" where
  "type_components t =
     (case t of
        TupleTy fs \<Rightarrow> fs
      | ArrayTy e _ \<Rightarrow> [e]
      | SliceTy e \<Rightarrow> [e]
      | PointerTy p _ \<Rightarrow> [p]
      | ReferenceTy p _ _ \<Rightarrow> [p]
      | FunctionTy f \<Rightarrow> concat (fn_groups f) @ [fn_result f]
      | CallableTy f captures _ \<Rightarrow> FunctionTy f # map capture_type captures
      | ContinuationTy i u \<Rightarrow> [i, u]
      | EffectCallableTy i u v \<Rightarrow> [i, u, v]
      | EffectRowTy _ e _ \<Rightarrow> (case e of None \<Rightarrow> [] | Some e \<Rightarrow> [e])
      | _ \<Rightarrow> [])"

partial_function (option) walk_types ::
    "(chars \<Rightarrow> ty list option) \<Rightarrow> (chars \<Rightarrow> 's \<Rightarrow> 's option) \<Rightarrow> ty \<Rightarrow> 's \<times> chars set \<Rightarrow> ('s \<times> chars set) option" where
  [code]: "walk_types args act t s =
     (case nominal_of t of
        Some name \<Rightarrow>
          (case act name (fst s) of
             None \<Rightarrow> Some s
           | Some s' \<Rightarrow>
               if name \<in> snd s then Some (s', snd s)
               else
                 fold_opt (\<lambda>t s. walk_types args act t s) (case args name of None \<Rightarrow> [] | Some ts \<Rightarrow> ts)
                   (s', insert name (snd s)))
      | None \<Rightarrow> fold_opt (\<lambda>t s. walk_types args act t s) (type_components t) s)"

definition instance_args :: "'m analyzer_scheme \<Rightarrow> chars \<Rightarrow> ty list option" where
  "instance_args a name = map_option ni_arguments (map_of (nominal_instances a) name)"

definition restrict_step :: "'m analyzer_scheme \<Rightarrow> item_origin \<Rightarrow> chars \<Rightarrow> access_boundary \<Rightarrow> access_boundary option" where
  "restrict_step a fallback_origin name access =
     Some (case nominal_accesses a name of
             None \<Rightarrow> access
           | Some nominal \<Rightarrow> intersect_access_boundaries access nominal fallback_origin)"

definition restrict_access_boundary_to_type ::
    "'m analyzer_scheme \<Rightarrow> access_boundary \<Rightarrow> ty \<Rightarrow> item_origin \<Rightarrow> access_boundary option" where
  "restrict_access_boundary_to_type a access t fallback_origin =
     map_option fst (walk_types (instance_args a) (restrict_step a fallback_origin) t (access, {}))"

definition leak_step ::
    "'m analyzer_scheme \<Rightarrow> access_boundary \<Rightarrow> chars \<Rightarrow> chars \<Rightarrow> chars list \<Rightarrow> chars list option" where
  "leak_step a exposed description name leaks =
     (if abstract_type_parameters a name \<noteq> None then None
      else
        (let shown = (case map_of (nominal_instances a) name of Some key \<Rightarrow> ni_template key | None \<Rightarrow> name) in
         case nominal_accesses a name of
           None \<Rightarrow> Some leaks
         | Some referenced \<Rightarrow>
             if api_audience_is_contained exposed referenced then Some leaks
             else
               Some (leaks @ [description @ lit '' with '' @ visibility_text (ab_visibility exposed) @
                 lit '' visibility exposes '' @ visibility_text (ab_visibility referenced) @ lit '' type `'' @ shown @
                 lit ''` beyond its access boundary''])))"

definition collect_type_api_leaks ::
    "'m analyzer_scheme \<Rightarrow> ty \<Rightarrow> access_boundary \<Rightarrow> chars \<Rightarrow> chars set \<Rightarrow> chars list \<Rightarrow> (chars list \<times> chars set) option" where
  "collect_type_api_leaks a t exposed description visited leaks =
     walk_types (instance_args a) (leak_step a exposed description) t (leaks, visited)"

subsection \<open>The interfaces of the program\<close>

record hir_signature =
  hs_params :: "(chars \<times> ty) list"
  hs_result :: ty

definition function_leaks :: "'m analyzer_scheme \<Rightarrow> chars \<Rightarrow> access_boundary \<Rightarrow> hir_signature \<Rightarrow> chars list \<Rightarrow> chars list option" where
  "function_leaks a name access f leaks = do {
     leaks \<leftarrow> fold_opt
       (\<lambda>(param, t) leaks.
          map_option fst
            (collect_type_api_leaks a t access (lit ''function `'' @ name @ lit ''` parameter `'' @ param @ lit ''`'') {} leaks))
       (hs_params f) leaks;
     map_option fst (collect_type_api_leaks a (hs_result f) access (lit ''function `'' @ name @ lit ''` return type'') {} leaks) }"

definition inferred_api_leaks ::
    "(chars \<rightharpoonup> hir_signature) \<Rightarrow> (chars \<rightharpoonup> ty) \<Rightarrow> 'm analyzer_scheme \<Rightarrow> chars list option" where
  "inferred_api_leaks functions globals a = do {
     leaks \<leftarrow> fold_opt
       (\<lambda>(name, access) leaks. case functions name of None \<Rightarrow> Some leaks | Some f \<Rightarrow> function_leaks a name access f leaks)
       (function_accesses a) [];
     fold_opt
       (\<lambda>(name, access) leaks.
          case globals name of
            None \<Rightarrow> Some leaks
          | Some t \<Rightarrow>
              map_option fst (collect_type_api_leaks a t access (lit ''global `'' @ name @ lit ''` type'') {} leaks))
       (global_accesses a) leaks }"

definition validate_inferred_api_visibility ::
    "(chars \<rightharpoonup> hir_signature) \<Rightarrow> (chars \<rightharpoonup> ty) \<Rightarrow> 'm analyzer_scheme \<Rightarrow> 'm analyzer_scheme option" where
  "validate_inferred_api_visibility functions globals a =
     map_option (\<lambda>leaks. fold report (remdups_adj (sort leaks)) a) (inferred_api_leaks functions globals a)"

end
