(* ===== verification/Access_Properties.thy ===== *)
theory Access_Properties
  imports Access
begin

text \<open>
  What \<open>codegen/access.rs\<close> promises.  A boundary is read as its audience, the set of origins that may
  use the declaration.  The contract of the shared traversal of types is the locale \<open>type_visitor\<close>: it
  returns, and it handles exactly the nominal types that the type mentions.
\<close>

subsection \<open>Audiences\<close>

definition audience :: "access_boundary \<Rightarrow> item_origin set" where
  "audience b = {o'. access_boundary_allows o' b}"

lemma in_audience [simp]: "o' \<in> audience b \<longleftrightarrow> access_boundary_allows o' b"
  by (simp add: audience_def)

definition origin_at :: "nat \<Rightarrow> chars list \<Rightarrow> item_origin" where
  "origin_at p path = \<lparr>package = p, module_path = path, origin_source = None\<rparr>"

lemma origin_at_simps [simp]: "package (origin_at p path) = p" "module_path (origin_at p path) = path"
  by (simp_all add: origin_at_def)

lemma contained_audience: "api_audience_is_contained e r \<Longrightarrow> audience e \<subseteq> audience r"
  by (auto simp: api_audience_is_contained_def access_boundary_allows_def Let_def
      split: visibility.splits if_splits dest: prefix_order.trans)

lemma audience_contained:
  assumes "audience e \<subseteq> audience r"
  shows "api_audience_is_contained e r"
proof -
  have sub: "access_boundary_allows o' e \<Longrightarrow> access_boundary_allows o' r" for o'
    using assms by auto
  show ?thesis
  proof (cases "ab_visibility e")
    case Private
    then show ?thesis
      using sub [of "ab_origin e"]
      by (simp add: api_audience_is_contained_def access_boundary_allows_def Let_def split: visibility.splits)
  next
    case Package
    then show ?thesis
      using sub [of "origin_at (package (ab_origin e)) []"]
      by (simp add: api_audience_is_contained_def access_boundary_allows_def Let_def split: visibility.splits)
  next
    case Public
    then show ?thesis
      using sub [of "origin_at (Suc (package (ab_origin r))) []"]
      by (simp add: api_audience_is_contained_def access_boundary_allows_def Let_def split: visibility.splits)
  qed
qed

definition private_at :: "item_origin \<Rightarrow> access_boundary" where
  "private_at fb = \<lparr>ab_visibility = Private, ab_origin = fb\<rparr>"

lemma private_at_allows: "access_boundary_allows fb (private_at fb)"
  by (simp add: access_boundary_allows_def private_at_def)

lemma private_at_least:
  assumes "access_boundary_allows fb b"
  shows "audience (private_at fb) \<subseteq> audience b"
proof
  fix o' assume "o' \<in> audience (private_at fb)"
  then have "package o' = package fb" "prefix (module_path fb) (module_path o')"
    by (simp_all add: access_boundary_allows_def private_at_def)
  then show "o' \<in> audience b"
    using assms
    by (cases "ab_visibility b")
      (auto simp: access_boundary_allows_def elim: prefix_order.trans [where b = "module_path fb"])
qed

lemma intersect_audience:
  assumes "access_boundary_allows fb l" "access_boundary_allows fb r"
  shows "audience (intersect_access_boundaries l r fb) \<subseteq> audience l \<inter> audience r"
    "access_boundary_allows fb (intersect_access_boundaries l r fb)"
  unfolding intersect_access_boundaries_def private_at_def [symmetric]
  using assms contained_audience [of l r] contained_audience [of r l]
    private_at_least [OF assms(1)] private_at_least [OF assms(2)] private_at_allows [of fb]
  by auto

subsection \<open>The nominal types a type mentions\<close>

inductive mentions :: "(chars \<Rightarrow> ty list option) \<Rightarrow> (chars \<Rightarrow> bool) \<Rightarrow> ty \<Rightarrow> chars \<Rightarrow> bool"
  for args stop where
  mentions_itself: "nominal_of t = Some n \<Longrightarrow> \<not> stop n \<Longrightarrow> mentions args stop t n"
| mentions_component:
    "nominal_of t = None \<Longrightarrow> u \<in> set (type_components t) \<Longrightarrow> mentions args stop u n \<Longrightarrow> mentions args stop t n"
| mentions_argument:
    "nominal_of t = Some m \<Longrightarrow> \<not> stop m \<Longrightarrow> args m = Some ts \<Longrightarrow> u \<in> set ts \<Longrightarrow> mentions args stop u n \<Longrightarrow>
     mentions args stop t n"

text \<open>Those it mentions without looking into the arguments of an instance.\<close>

inductive direct :: "(chars \<Rightarrow> bool) \<Rightarrow> ty \<Rightarrow> chars \<Rightarrow> bool" for stop where
  direct_itself: "nominal_of t = Some n \<Longrightarrow> \<not> stop n \<Longrightarrow> direct stop t n"
| direct_component:
    "nominal_of t = None \<Longrightarrow> u \<in> set (type_components t) \<Longrightarrow> direct stop u n \<Longrightarrow> direct stop t n"

inductive_cases direct_cases: "direct stop t n"

lemma direct_nominal: "nominal_of t = Some m \<Longrightarrow> direct stop t n \<longleftrightarrow> n = m \<and> \<not> stop n"
  by (auto elim: direct_cases intro: direct_itself)

lemma direct_composite:
  "nominal_of t = None \<Longrightarrow> direct stop t n \<longleftrightarrow> (\<exists>u \<in> set (type_components t). direct stop u n)"
  by (auto elim: direct_cases intro: direct_component)

text \<open>A callable is visited through its signature, which is no smaller when it captures nothing.\<close>

definition type_weight :: "ty \<Rightarrow> nat" where
  "type_weight t = 2 * size t + (case t of CallableTy _ _ _ \<Rightarrow> 1 | _ \<Rightarrow> 0)"

lemma type_weight_less: "size u < size t \<Longrightarrow> type_weight u < type_weight t"
  by (auto simp: type_weight_def split: ty.splits)

lemma size_callable_capture: "c \<in> set caps \<Longrightarrow> size (capture_type c) < size (CallableTy f caps k)"
proof -
  assume "c \<in> set caps"
  then have "size c \<le> size_list size caps" by (rule size_list_estimation') simp
  then show ?thesis by (cases c) simp
qed

lemma component_weight: "u \<in> set (type_components t) \<Longrightarrow> type_weight u < type_weight t"
proof (cases t)
  case (FunctionTy f)
  moreover assume "u \<in> set (type_components t)"
  ultimately have "size u < size t"
    by (auto simp: type_components_def intro: less_SucI dest: size_group_less)
  then show ?thesis by (rule type_weight_less)
next
  case (CallableTy f caps k)
  moreover assume "u \<in> set (type_components t)"
  ultimately consider "u = FunctionTy f" | c where "c \<in> set caps" "u = capture_type c"
    by (auto simp: type_components_def)
  then show ?thesis
  proof cases
    case 1
    then show ?thesis by (simp add: CallableTy type_weight_def)
  next
    case 2
    then show ?thesis using size_callable_capture CallableTy by (intro type_weight_less) auto
  qed
next
  case (TupleTy fs)
  moreover assume "u \<in> set (type_components t)"
  ultimately have "size u < size t"
    using size_list_estimation' [of u fs "size u" size] by (auto simp: type_components_def)
  then show ?thesis by (rule type_weight_less)
next
  case (EffectRowTy b e cs)
  moreover assume "u \<in> set (type_components t)"
  ultimately have "size u < size t" by (auto simp: type_components_def split: option.splits)
  then show ?thesis by (rule type_weight_less)
qed (auto simp: type_components_def intro: type_weight_less)

subsection \<open>The traversal\<close>

definition arguments_of :: "(chars \<Rightarrow> ty list option) \<Rightarrow> chars \<Rightarrow> ty list" where
  "arguments_of args n = (case args n of None \<Rightarrow> [] | Some ts \<Rightarrow> ts)"

text \<open>
  A walk over \<open>ts\<close> handles the names \<open>ns\<close>: all are mentioned, the direct ones are all among them, and
  so are the direct ones of the arguments of every instance visited for the first time.
\<close>

definition walked ::
    "(chars \<Rightarrow> ty list option) \<Rightarrow> (chars \<Rightarrow> bool) \<Rightarrow> ty list \<Rightarrow> chars set \<Rightarrow> chars set \<Rightarrow> chars list \<Rightarrow> bool" where
  "walked args stop ts V V' ns \<longleftrightarrow>
     V \<subseteq> V' \<and>
     (\<forall>n \<in> set ns. n \<in> V' \<and> (\<exists>t \<in> set ts. mentions args stop t n)) \<and>
     (\<forall>t \<in> set ts. \<forall>n. direct stop t n \<longrightarrow> n \<in> set ns) \<and>
     (\<forall>m \<in> V' - V. \<forall>u \<in> set (arguments_of args m). \<forall>n. direct stop u n \<longrightarrow> n \<in> set ns)"

lemma walked_Nil: "walked args stop [] V V []"
  by (simp add: walked_def)

lemma walked_Cons:
  assumes "walked args stop [t] V V1 ns1" "walked args stop ts V1 V2 ns2"
  shows "walked args stop (t # ts) V V2 (ns1 @ ns2)"
  unfolding walked_def
proof (intro conjI)
  show "V \<subseteq> V2" using assms by (auto simp: walked_def)
  show "\<forall>n \<in> set (ns1 @ ns2). n \<in> V2 \<and> (\<exists>u \<in> set (t # ts). mentions args stop u n)"
    using assms by (auto simp: walked_def)
  show "\<forall>u \<in> set (t # ts). \<forall>n. direct stop u n \<longrightarrow> n \<in> set (ns1 @ ns2)"
    using assms by (simp add: walked_def)
  show "\<forall>m \<in> V2 - V. \<forall>u \<in> set (arguments_of args m). \<forall>n. direct stop u n \<longrightarrow> n \<in> set (ns1 @ ns2)"
  proof
    fix m assume "m \<in> V2 - V"
    then have "m \<in> V1 - V \<or> m \<in> V2 - V1" by blast
    then show "\<forall>u \<in> set (arguments_of args m). \<forall>n. direct stop u n \<longrightarrow> n \<in> set (ns1 @ ns2)"
    proof
      assume "m \<in> V1 - V"
      then show ?thesis using assms(1) by (simp add: walked_def)
    next
      assume "m \<in> V2 - V1"
      then show ?thesis using assms(2) by (simp add: walked_def)
    qed
  qed
qed

lemma walked_composite:
  "nominal_of t = None \<Longrightarrow> walked args stop (type_components t) V V' ns \<Longrightarrow> walked args stop [t] V V' ns"
  unfolding walked_def by (simp add: direct_composite) (blast intro: mentions_component)

lemma walked_nominal:
  assumes "nominal_of t = Some m" "\<not> stop m" "walked args stop (arguments_of args m) (insert m V) V' ns"
  shows "walked args stop [t] V V' (m # ns)"
proof -
  have "mentions args stop t n" if "u \<in> set (arguments_of args m)" "mentions args stop u n" for u n
    using that assms by (auto simp: arguments_of_def split: option.splits intro: mentions_argument)
  moreover have "mentions args stop t m"
    using assms by (blast intro: mentions_itself)
  ultimately show ?thesis
    using assms unfolding walked_def by (simp add: direct_nominal) blast
qed

lemma walked_seen:
  assumes "nominal_of t = Some m" "\<not> stop m" "m \<in> V"
  shows "walked args stop [t] V V [m]"
  using assms by (auto simp: walked_def direct_nominal intro: mentions_itself)

lemma walked_stopped: "nominal_of t = Some m \<Longrightarrow> stop m \<Longrightarrow> walked args stop [t] V V []"
  by (auto simp: walked_def direct_nominal)

lemma walked_complete:
  assumes "walked args stop ts {} V' ns"
  shows "set ns = {n. \<exists>t \<in> set ts. mentions args stop t n}"
proof -
  have "n \<in> set ns" if "mentions args stop t n" "\<And>m. direct stop t m \<Longrightarrow> m \<in> set ns" for t n
    using that
  proof induction
    case (mentions_itself t n)
    then show ?case by (blast intro: direct_itself)
  next
    case (mentions_component t u n)
    then show ?case by (blast intro: direct_component)
  next
    case (mentions_argument t m ts u n)
    then have "m \<in> V'" "u \<in> set (arguments_of args m)"
      using assms by (auto simp: walked_def arguments_of_def intro: direct_itself)
    then show ?case
      using assms mentions_argument.IH by (auto simp: walked_def)
  qed
  then have "n \<in> set ns" if "t \<in> set ts" "mentions args stop t n" for t n
    using that assms unfolding walked_def by blast
  moreover have "\<exists>t \<in> set ts. mentions args stop t n" if "n \<in> set ns" for n
    using that assms by (simp add: walked_def)
  ultimately show ?thesis by blast
qed

locale type_visitor =
  fixes args :: "chars \<Rightarrow> ty list option"
    and act :: "chars \<Rightarrow> 's \<Rightarrow> 's option"
    and stop :: "chars \<Rightarrow> bool"
    and step :: "chars \<Rightarrow> 's \<Rightarrow> 's"
  assumes finite_instances: "finite (dom args)"
    and act_eq: "act n s = (if stop n then None else Some (step n s))"
begin

definition completes :: "ty list \<Rightarrow> 's \<Rightarrow> chars set \<Rightarrow> bool" where
  "completes ts s V \<longleftrightarrow>
     (\<exists>V' ns. fold_opt (\<lambda>t s. walk_types args act t s) ts (s, V) = Some (fold step ns s, V') \<and>
        walked args stop ts V V' ns)"

lemma completes_Nil: "completes [] s V"
  unfolding completes_def by (intro exI [of _ V] exI [of _ "[]"]) (simp add: walked_Nil)

lemma completes_Cons:
  assumes "completes [t] s V" "\<And>s V'. V \<subseteq> V' \<Longrightarrow> completes ts s V'"
  shows "completes (t # ts) s V"
proof -
  obtain V1 ns1 where 1: "walk_types args act t (s, V) = Some (fold step ns1 s, V1)" "walked args stop [t] V V1 ns1"
    using assms(1) by (auto simp: completes_def split: Option.bind_splits)
  then have "V \<subseteq> V1" by (simp add: walked_def)
  then obtain V2 ns2 where 2:
      "fold_opt (\<lambda>t s. walk_types args act t s) ts (fold step ns1 s, V1) = Some (fold step ns2 (fold step ns1 s), V2)"
      "walked args stop ts V1 V2 ns2"
    using assms(2) unfolding completes_def by blast
  show ?thesis
    unfolding completes_def
    by (intro exI [of _ V2] exI [of _ "ns1 @ ns2"]) (simp add: 1 2 walked_Cons [OF 1(2) 2(2)])
qed

lemma completes_list:
  assumes "\<And>t s V'. t \<in> set ts \<Longrightarrow> V \<subseteq> V' \<Longrightarrow> completes [t] s V'"
  shows "completes ts s V"
  using assms
proof (induction ts arbitrary: s V)
  case Nil
  show ?case by (rule completes_Nil)
next
  case (Cons t ts)
  show ?case
  proof (rule completes_Cons)
    show "completes [t] s V" using Cons.prems by simp
    show "completes ts s' V'" if "V \<subseteq> V'" for s' V'
      by (rule Cons.IH) (use Cons.prems that in \<open>meson list.set_intros(2) order_trans\<close>)
  qed
qed

lemma completes_one:
  assumes "walk_types args act t (s, V) = Some (fold step ns s, V')" "walked args stop [t] V V' ns"
  shows "completes [t] s V"
  using assms unfolding completes_def by (intro exI [of _ V'] exI [of _ ns]) simp

text \<open>Unvisited instances first, then the size of the type.\<close>

lemma completes_below:
  assumes "\<And>t s V. card (dom args - V) < k \<Longrightarrow> completes [t] s V" "card (dom args - V) \<le> k"
  shows "completes [t] s V"
  using assms(2)
proof (induction "type_weight t" arbitrary: t s V rule: less_induct)
  case less
  show ?case
  proof (cases "nominal_of t")
    case None
    have fewer: "card (dom args - V') \<le> k" if "V \<subseteq> V'" for V'
      using less.prems that finite_instances by (meson Diff_mono card_mono finite_Diff order_refl order_trans)
    have "completes (type_components t) s V"
      by (rule completes_list) (use less.hyps component_weight fewer in blast)
    then obtain V' ns where
        "fold_opt (\<lambda>t s. walk_types args act t s) (type_components t) (s, V) = Some (fold step ns s, V')"
        "walked args stop (type_components t) V V' ns"
      by (auto simp: completes_def)
    then show ?thesis
      using None by (intro completes_one) (auto simp: walk_types.simps [of _ _ t] walked_composite)
  next
    case (Some m)
    then show ?thesis
    proof (cases "stop m")
      case True
      then show ?thesis
        using Some by (intro completes_one [where ns = "[]"]) (auto simp: walk_types.simps act_eq walked_stopped)
    next
      case go: False
      show ?thesis
      proof (cases "m \<in> V")
        case True
        then show ?thesis
          using Some go by (intro completes_one [where ns = "[m]"]) (auto simp: walk_types.simps act_eq walked_seen)
      next
        case False
        have "completes (arguments_of args m) (step m s) (insert m V)"
        proof (cases "args m")
          case None
          then show ?thesis by (simp add: arguments_of_def completes_Nil)
        next
          case (Some ts)
          have fewer: "card (dom args - V') < k" if "insert m V \<subseteq> V'" for V'
          proof -
            have "dom args - V' \<subset> dom args - V" using that False Some by blast
            then have "card (dom args - V') < card (dom args - V)"
              using finite_instances by (simp add: psubset_card_mono)
            then show ?thesis using less.prems by simp
          qed
          have "completes ts (step m s) (insert m V)"
            by (rule completes_list) (rule assms(1), rule fewer)
          then show ?thesis by (simp add: arguments_of_def Some)
        qed
        then obtain V' ns where
            "fold_opt (\<lambda>t s. walk_types args act t s) (arguments_of args m) (step m s, insert m V) =
               Some (fold step ns (step m s), V')"
          and ns: "walked args stop (arguments_of args m) (insert m V) V' ns"
          unfolding completes_def by blast
        then have "walk_types args act t (s, V) = Some (fold step (m # ns) s, V')"
          by (subst walk_types.simps) (simp add: Some go False act_eq arguments_of_def)
        then show ?thesis
          by (rule completes_one) (rule walked_nominal [OF Some go ns])
      qed
    qed
  qed
qed

lemma completes_type: "completes [t] s V"
proof (induction "card (dom args - V)" arbitrary: t s V rule: less_induct)
  case less
  then show ?case using completes_below [of "card (dom args - V)"] by blast
qed

theorem walk_types_complete:
  "\<exists>V' ns. walk_types args act t (s, {}) = Some (fold step ns s, V') \<and> set ns = {n. mentions args stop t n}"
proof -
  obtain V' ns where
      "fold_opt (\<lambda>t s. walk_types args act t s) [t] (s, {}) = Some (fold step ns s, V')" "walked args stop [t] {} V' ns"
    using completes_type [of t s "{}"] by (auto simp: completes_def)
  then show ?thesis
    using walked_complete [of args stop "[t]" V' ns]
    by (intro exI [of _ V'] exI [of _ ns]) (auto split: Option.bind_splits)
qed

end

subsection \<open>The two uses of the traversal\<close>

lemma finite_instance_args: "finite (dom (instance_args a))"
proof -
  have "dom (instance_args a) = dom (map_of (nominal_instances a))"
    by (auto simp: instance_args_def dom_def)
  then show ?thesis by (simp add: finite_dom_map_of)
qed

interpretation restricting: type_visitor "instance_args a" "restrict_step a fb" "\<lambda>_. False"
    "\<lambda>n access. the (restrict_step a fb n access)" for a :: "'m analyzer_scheme" and fb
  by unfold_locales (simp_all add: finite_instance_args restrict_step_def)

interpretation leaking: type_visitor "instance_args a" "leak_step a exposed description"
    "\<lambda>n. abstract_type_parameters a n \<noteq> None" "\<lambda>n leaks. the (leak_step a exposed description n leaks)"
    for a :: "'m analyzer_scheme" and exposed description
  by unfold_locales (simp_all add: finite_instance_args leak_step_def Let_def split: option.splits)

text \<open>The nominal types that the access checks of \<open>a\<close> look at.\<close>

definition type_mentions :: "'m analyzer_scheme \<Rightarrow> ty \<Rightarrow> chars \<Rightarrow> bool" where
  "type_mentions a = mentions (instance_args a) (\<lambda>n. False)"

definition interface_mentions :: "'m analyzer_scheme \<Rightarrow> ty \<Rightarrow> chars \<Rightarrow> bool" where
  "interface_mentions a = mentions (instance_args a) (\<lambda>n. abstract_type_parameters a n \<noteq> None)"

lemma fold_restrict:
  assumes "access_boundary_allows fb access"
    and "\<And>n b. n \<in> set ns \<Longrightarrow> nominal_accesses a n = Some b \<Longrightarrow> access_boundary_allows fb b"
  shows "audience (fold (\<lambda>n access. the (restrict_step a fb n access)) ns access)
     \<subseteq> audience access \<inter> (\<Inter>n \<in> set ns. \<Inter>b \<in> set_option (nominal_accesses a n). audience b)"
  using assms
proof (induction ns arbitrary: access)
  case (Cons n ns)
  let ?next = "the (restrict_step a fb n access)"
  let ?all = "\<lambda>ns. \<Inter>n \<in> set ns. \<Inter>b \<in> set_option (nominal_accesses a n). audience b"
  have first: "audience ?next \<subseteq> audience access \<inter> (\<Inter>b \<in> set_option (nominal_accesses a n). audience b)"
      "access_boundary_allows fb ?next"
    using intersect_audience [OF Cons.prems(1) Cons.prems(2) [of n]] Cons.prems(1)
    by (simp_all add: restrict_step_def split: option.splits)
  have "audience (fold (\<lambda>n access. the (restrict_step a fb n access)) ns ?next) \<subseteq> audience ?next \<inter> ?all ns"
    by (rule Cons.IH [OF first(2)]) (use Cons.prems(2) in auto)
  also have "\<dots> \<subseteq> audience access \<inter> ?all (n # ns)"
    using Int_mono [OF first(1) order_refl] by (simp add: Int_assoc)
  finally show ?case by simp
qed simp

definition leaks_at :: "'m analyzer_scheme \<Rightarrow> access_boundary \<Rightarrow> chars \<Rightarrow> bool" where
  "leaks_at a exposed n \<longleftrightarrow>
     (case nominal_accesses a n of None \<Rightarrow> False | Some b \<Rightarrow> \<not> api_audience_is_contained exposed b)"

lemma fold_leaks:
  assumes "\<And>n. n \<in> set ns \<Longrightarrow> abstract_type_parameters a n = None"
  shows "fold (\<lambda>n leaks. the (leak_step a exposed description n leaks)) ns leaks = [] \<longleftrightarrow>
     leaks = [] \<and> (\<forall>n \<in> set ns. \<not> leaks_at a exposed n)"
  using assms
proof (induction ns arbitrary: leaks)
  case (Cons n ns)
  have "the (leak_step a exposed description n leaks) = [] \<longleftrightarrow> leaks = [] \<and> \<not> leaks_at a exposed n"
    using Cons.prems by (simp add: leak_step_def leaks_at_def Let_def split: option.splits)
  then show ?case using Cons by auto
qed simp

lemma mentions_not_stopped: "mentions args stop t n \<Longrightarrow> \<not> stop n"
  by (induction rule: mentions.induct) auto

text \<open>
  C32: the containment test of access boundaries is exact: it holds exactly when every origin that may
  use the exposing declaration may also use the referenced one.
\<close>

theorem containment_is_audience_inclusion:
  "api_audience_is_contained exposed referenced \<longleftrightarrow> audience exposed \<subseteq> audience referenced"
  using contained_audience audience_contained by blast

text \<open>
  a member of a nominal type is usable exactly where both its owner is and a declaration of the
  member's own visibility beside the owner would be.
\<close>

theorem member_audience:
  "audience (effective_member_access owner v) = audience owner \<inter> audience (owner\<lparr>ab_visibility := v\<rparr>)"
  by (auto simp: audience_def access_boundary_allows_def effective_member_access_def visibility_rank_def
      split: visibility.splits)



subsection \<open>Concrete inputs\<close>

text \<open>A private type of module \<open>m\<close>, mentioned only as the argument of the instance \<open>box\<close>.\<close>

definition example_accesses :: "chars \<rightharpoonup> access_boundary" where
  "example_accesses =
     [lit ''hidden'' \<mapsto> \<lparr>ab_visibility = Private, ab_origin = origin_at 0 [lit ''m'']\<rparr>,
      lit ''box'' \<mapsto> \<lparr>ab_visibility = Public, ab_origin = origin_at 1 []\<rparr>]"

definition example_analyzer :: analyzer where
  "example_analyzer =
     \<lparr>nominal_accesses = example_accesses,
      nominal_instances =
        [(lit ''box'', \<lparr>ni_kind = StructKindName, ni_template = lit ''Box'', ni_arguments = [StructTy (lit ''hidden'')]\<rparr>)],
      abstract_type_parameters = Map.empty, function_accesses = [], global_accesses = [],
      current_origin = None, diagnostics = []\<rparr>"


end
