(* ===== verification/Layouts.thy ===== *)
theory Layouts
  imports Access "HOL-Library.AList"
begin

text \<open>
  Value layouts (\<open>compiler/src/codegen/layouts.rs\<close>, the layouts of \<open>hir.rs\<close> and the names of types in
  messages of \<open>types.rs\<close>): the fields of structs and the variants of enums, the search for types of
  infinite size, and the queries of the code generator on layouts.  The lowering of a source type is
  the argument \<open>lower\<close>.
\<close>

record field_layout =
  fl_name :: chars
  fl_ty :: ty
  fl_access :: access_boundary

record struct_layout =
  sl_name :: chars
  sl_source_name :: chars
  sl_origin :: item_origin
  sl_representation :: struct_representation
  sl_fields :: "field_layout list"

record variant_layout =
  vl_name :: chars
  vl_fields :: "field_layout list"
  payload_offset :: nat
  vl_named :: bool

record enum_layout =
  el_name :: chars
  el_variants :: "variant_layout list"

datatype nominal_instance_state = BuildingInstance | ReadyInstance

record layout_analyzer = analyzer +
  struct_defs :: "chars \<rightharpoonup> struct_def"
  enum_defs :: "chars \<rightharpoonup> enum_def"
  struct_layouts :: "chars \<rightharpoonup> struct_layout"
  enum_layouts :: "chars \<rightharpoonup> enum_layout"
  nominal_instance_states :: "(nominal_instance_key \<times> nominal_instance_state) list"
  struct_order :: "chars list"
  enum_order :: "chars list"

subsection \<open>Types in messages\<close>

text \<open>\<open>str::parse::<u64>\<close>: an optional plus sign and at least one digit.\<close>

definition parse_u64 :: "chars \<Rightarrow> int option" where
  "parse_u64 s =
     (let digits = (case s of c # rest \<Rightarrow> (if c = ch CHR ''+'' then rest else s) | [] \<Rightarrow> s);
          v = foldl (\<lambda>v c. 10 * v + (c - 48)) 0 digits
      in if digits = [] \<or> \<not> list_all is_ascii_digit digits \<or> v \<ge> 2 ^ 64 then None else Some v)"

definition usize_value_from_marker :: "chars \<Rightarrow> int option" where
  "usize_value_from_marker marker = Option.bind (strip_prefix (lit ''$usize$value$'') marker) parse_u64"

text \<open>The name of a nominal type, unless it is an instance whose arguments have to be named.\<close>

definition nominal_display :: "'m analyzer_scheme \<Rightarrow> chars \<Rightarrow> chars + nominal_instance_key" where
  "nominal_display a name =
     (case usize_value_from_marker name of
        Some v \<Rightarrow> Inl (decimal v)
      | None \<Rightarrow>
          (case abstract_type_parameters a name of
             Some parameter \<Rightarrow> Inl parameter
           | None \<Rightarrow>
               (case map_of (nominal_instances a) name of
                  None \<Rightarrow> Inl name
                | Some key \<Rightarrow> if ni_arguments key = [] then Inl (ni_template key) else Inr key)))"

definition applied :: "chars \<Rightarrow> chars list \<Rightarrow> chars" where
  "applied name arguments = name @ lit ''('' @ join_text (lit '', '') arguments @ lit '')''"

definition tuple_display :: "chars list \<Rightarrow> chars" where
  "tuple_display shown =
     lit ''('' @ join_text (lit '', '') shown @ (if length shown = 1 then lit '','' else []) @ lit '')''"

definition reference_display :: "(code_point \<Rightarrow> bool) \<Rightarrow> bool \<Rightarrow> chars option \<Rightarrow> chars \<Rightarrow> chars" where
  "reference_display up mutable region shown =
     (if mutable then lit ''borrow(mut)'' else lit ''borrow'') @
     (case region of None \<Rightarrow> [] | Some r \<Rightarrow> lit ''('' @ display_region_argument up r @ lit '')'') @ lit '' '' @ shown"

definition function_display :: "function_ty \<Rightarrow> chars list list \<Rightarrow> chars \<Rightarrow> chars" where
  "function_display f groups result =
     concat (map (applied []) groups) @ lit '': '' @ result @
     (let effects = shown_effects (fn_unsafety f) (fn_custom_effects f) None in
      if effects = [] then [] else lit '' with('' @ join_text (lit '', '') effects @ lit '')'')"

text \<open>An instance that mentions itself in its arguments has no finite name: \<open>None\<close> is not returning.\<close>

partial_function (option) diagnostic_type_name ::
    "(code_point \<Rightarrow> bool) \<Rightarrow> 'm analyzer_scheme \<Rightarrow> ty \<Rightarrow> chars option" where
  [code]: "diagnostic_type_name up a t =
     (case t of
        StructTy name \<Rightarrow>
          (case nominal_display a name of
             Inl shown \<Rightarrow> Some shown
           | Inr key \<Rightarrow> do {
               shown \<leftarrow> map_opt (\<lambda>t. diagnostic_type_name up a t) (ni_arguments key);
               Some (applied (ni_template key) shown) })
      | EnumTy name \<Rightarrow> diagnostic_type_name up a (StructTy name)
      | TupleTy fs \<Rightarrow> do {
          shown \<leftarrow> map_opt (\<lambda>t. diagnostic_type_name up a t) fs;
          Some (tuple_display shown) }
      | ArrayTy e n \<Rightarrow> do {
          shown \<leftarrow> diagnostic_type_name up a e;
          Some (applied (lit ''array'') [shown] @ lit ''('' @ decimal (uint n) @ lit '')'') }
      | SliceTy e \<Rightarrow> do {
          shown \<leftarrow> diagnostic_type_name up a e;
          Some (applied (lit ''slice'') [shown]) }
      | PointerTy p mutable \<Rightarrow> do {
          shown \<leftarrow> diagnostic_type_name up a p;
          Some (applied (if mutable then lit ''ptr(mut)'' else lit ''ptr'') [shown]) }
      | ReferenceTy p mutable region \<Rightarrow> do {
          shown \<leftarrow> diagnostic_type_name up a p;
          Some (reference_display up mutable region shown) }
      | FunctionTy f \<Rightarrow> do {
          groups \<leftarrow> map_opt (\<lambda>g. map_opt (\<lambda>t. diagnostic_type_name up a t) g) (fn_groups f);
          result \<leftarrow> diagnostic_type_name up a (fn_result f);
          Some (function_display f groups result) }
      | CallableTy f captures kind \<Rightarrow> diagnostic_type_name up a (FunctionTy f)
      | ContinuationTy i u \<Rightarrow> do {
          shown \<leftarrow> map_opt (\<lambda>t. diagnostic_type_name up a t) [i, u];
          Some (applied (lit ''Continuation'') shown) }
      | EffectCallableTy i u v \<Rightarrow> do {
          shown \<leftarrow> map_opt (\<lambda>t. diagnostic_type_name up a t) [i, u, v];
          Some (applied (lit ''EffectCallable'') shown) }
      | _ \<Rightarrow> Some (show_ty up t))"

subsection \<open>Building layouts\<close>

text \<open>
  The loop over the declared fields, shared by structs and variants: a second field of a name is
  reported and left out.  \<open>duplicate\<close> is the message.
\<close>

type_synonym 'm lowering = "source_type \<Rightarrow> 'm layout_analyzer_scheme \<Rightarrow> ty \<times> 'm layout_analyzer_scheme"

definition add_field ::
    "'m lowering \<Rightarrow> access_boundary \<Rightarrow> (chars \<Rightarrow> chars) \<Rightarrow> chars \<times> source_type \<times> visibility \<Rightarrow>
     chars set \<times> field_layout list \<times> 'm layout_analyzer_scheme \<Rightarrow>
     chars set \<times> field_layout list \<times> 'm layout_analyzer_scheme" where
  "add_field lower owner duplicate field acc =
     (case (field, acc) of
        ((name, source, visibility), (seen, fs, a)) \<Rightarrow>
          if name \<in> seen then (seen, fs, report (duplicate name) a)
          else
            (case lower source a of
               (t, a) \<Rightarrow>
                 (insert name seen,
                  fs @ [\<lparr>fl_name = name, fl_ty = t, fl_access = effective_member_access owner visibility\<rparr>], a)))"

definition build_fields ::
    "'m lowering \<Rightarrow> access_boundary \<Rightarrow> (chars \<Rightarrow> chars) \<Rightarrow> (chars \<times> source_type \<times> visibility) list \<Rightarrow>
     'm layout_analyzer_scheme \<Rightarrow> field_layout list \<times> 'm layout_analyzer_scheme" where
  "build_fields lower owner duplicate fs a = snd (fold (add_field lower owner duplicate) fs ({}, [], a))"

definition mark_ready :: "chars \<Rightarrow> 'm layout_analyzer_scheme \<Rightarrow> 'm layout_analyzer_scheme" where
  "mark_ready name a =
     (case map_of (nominal_instances a) name of
        None \<Rightarrow> a
      | Some key \<Rightarrow> a\<lparr>nominal_instance_states := AList.update key ReadyInstance (nominal_instance_states a)\<rparr>)"

definition build_struct_layout ::
    "(code_point \<Rightarrow> bool) \<Rightarrow> 'm lowering \<Rightarrow> chars \<Rightarrow> struct_def \<Rightarrow> 'm layout_analyzer_scheme \<Rightarrow>
     'm layout_analyzer_scheme option" where
  "build_struct_layout up lower name def a =
     (case nominal_access_or_internal name a of
        (owner, a) \<Rightarrow> do {
          source_name \<leftarrow> diagnostic_type_name up a (StructTy name);
          (case build_fields lower owner
               (\<lambda>field. lit ''duplicate field `'' @ field @ lit ''` in struct `'' @ name @ lit ''`'')
               (map (\<lambda>f. (field_name f, field_ty f, field_visibility f)) (struct_fields def)) a of
             (fs, a) \<Rightarrow>
               Some (mark_ready name
                 (a\<lparr>struct_layouts := (struct_layouts a)(name \<mapsto>
                      \<lparr>sl_name = name, sl_source_name = source_name, sl_origin = ab_origin owner,
                       sl_representation = struct_repr def, sl_fields = fs\<rparr>)\<rparr>))) })"

text \<open>The source fields of a variant; positional fields are named by their index.\<close>

definition variant_source_fields :: "access_boundary \<Rightarrow> variant_fields \<Rightarrow> (chars \<times> source_type \<times> visibility) list \<times> bool" where
  "variant_source_fields owner fs =
     (case fs of
        UnitFields \<Rightarrow> ([], False)
      | PositionalFields types \<Rightarrow>
          (map (\<lambda>(i, t). (show_nat i, t, ab_visibility owner)) (enumerate 0 types), False)
      | NamedFields fs \<Rightarrow> (map (\<lambda>f. (field_name f, field_ty f, field_visibility f)) fs, True))"

definition add_variant ::
    "'m lowering \<Rightarrow> access_boundary \<Rightarrow> chars \<Rightarrow> variant_def \<Rightarrow>
     chars set \<times> variant_layout list \<times> nat \<times> 'm layout_analyzer_scheme \<Rightarrow>
     chars set \<times> variant_layout list \<times> nat \<times> 'm layout_analyzer_scheme" where
  "add_variant lower owner name variant acc =
     (case acc of
        (seen, variants, offset, a) \<Rightarrow>
          if variant_name variant \<in> seen then
            (seen, variants, offset,
             report (lit ''duplicate variant `'' @ variant_name variant @ lit ''` in enum `'' @ name @ lit ''`'') a)
          else
            (case variant_source_fields owner (variant_payload variant) of
               (sources, named) \<Rightarrow>
                 (case build_fields lower owner
                      (\<lambda>field. lit ''duplicate field `'' @ field @ lit ''` in variant `'' @ name @ lit ''.'' @
                         variant_name variant @ lit ''`'')
                      sources a of
                    (fs, a) \<Rightarrow>
                      (insert (variant_name variant) seen,
                       variants @ [\<lparr>vl_name = variant_name variant, vl_fields = fs, payload_offset = offset,
                                    vl_named = named\<rparr>],
                       offset + length fs, a))))"

definition build_enum_layout ::
    "'m lowering \<Rightarrow> chars \<Rightarrow> enum_def \<Rightarrow> 'm layout_analyzer_scheme \<Rightarrow> 'm layout_analyzer_scheme" where
  "build_enum_layout lower name def a =
     (case nominal_access_or_internal name a of
        (owner, a) \<Rightarrow>
          (case fold (add_variant lower owner name) (enum_variants def) ({}, [], 0, a) of
             (_, variants, _, a) \<Rightarrow>
               mark_ready name
                 (a\<lparr>enum_layouts := (enum_layouts a)(name \<mapsto> \<lparr>el_name = name, el_variants = variants\<rparr>)\<rparr>)))"

text \<open>Instances are laid out when they are made; the indexing of the definitions panics on an unknown name.\<close>

definition is_ready :: "'m layout_analyzer_scheme \<Rightarrow> chars \<Rightarrow> bool" where
  "is_ready a name \<longleftrightarrow>
     Option.bind (map_of (nominal_instances a) name) (map_of (nominal_instance_states a)) = Some ReadyInstance"

definition collect_nominal_layouts ::
    "(code_point \<Rightarrow> bool) \<Rightarrow> 'm lowering \<Rightarrow> 'm layout_analyzer_scheme \<Rightarrow> 'm layout_analyzer_scheme option" where
  "collect_nominal_layouts up lower a = do {
     a \<leftarrow> fold_opt
       (\<lambda>name a. if is_ready a name then Some a
                 else Option.bind (struct_defs a name) (\<lambda>def. build_struct_layout up lower name def a))
       (struct_order a) a;
     fold_opt
       (\<lambda>name a. if is_ready a name then Some a
                 else map_option (\<lambda>def. build_enum_layout lower name def a) (enum_defs a name))
       (enum_order a) a }"

subsection \<open>Types of infinite size\<close>

definition layout_dependencies :: "'m layout_analyzer_scheme \<Rightarrow> chars \<Rightarrow> chars list" where
  "layout_dependencies a name =
     (case struct_layouts a name of
        Some layout \<Rightarrow> List.map_filter (\<lambda>f. nominal_name (fl_ty f)) (sl_fields layout)
      | None \<Rightarrow>
          (case enum_layouts a name of
             Some layout \<Rightarrow> List.map_filter (\<lambda>f. nominal_name (fl_ty f)) (concat (map vl_fields (el_variants layout)))
           | None \<Rightarrow> []))"

datatype visit_state = Visiting | Visited

definition infinite_size_message :: "chars list \<Rightarrow> chars \<Rightarrow> chars" where
  "infinite_size_message stack name =
     (let start = (if name \<in> set stack then length (takeWhile (\<lambda>item. item \<noteq> name) stack) else 0) in
      lit ''recursive value layout has infinite size: '' @ join_text (lit '' -> '') (List.drop start stack @ [name]))"

partial_function (option) visit_nominal_layout ::
    "chars \<Rightarrow> (chars \<rightharpoonup> visit_state) \<times> chars list \<times> 'm layout_analyzer_scheme \<Rightarrow>
     ((chars \<rightharpoonup> visit_state) \<times> chars list \<times> 'm layout_analyzer_scheme) option" where
  [code]: "visit_nominal_layout name s =
     (case s of
        (states, stack, a) \<Rightarrow>
          (case states name of
             Some Visited \<Rightarrow> Some (states, stack, a)
           | Some Visiting \<Rightarrow> Some (states, stack, report (infinite_size_message stack name) a)
           | None \<Rightarrow> do {
               (states, stack, a) \<leftarrow> fold_opt (\<lambda>d s. visit_nominal_layout d s) (layout_dependencies a name)
                 (states(name \<mapsto> Visiting), stack @ [name], a);
               Some (states(name \<mapsto> Visited), butlast stack, a) }))"

definition validate_nominal_layouts :: "'m layout_analyzer_scheme \<Rightarrow> 'm layout_analyzer_scheme option" where
  "validate_nominal_layouts a =
     map_option (\<lambda>s. snd (snd s))
       (fold_opt (\<lambda>d s. visit_nominal_layout d s) (struct_order a @ enum_order a) (Map.empty, [], a))"

subsection \<open>Lookups\<close>

definition struct_layout_or_diagnostic ::
    "chars \<Rightarrow> 'm layout_analyzer_scheme \<Rightarrow> struct_layout option \<times> 'm layout_analyzer_scheme" where
  "struct_layout_or_diagnostic name a =
     (case struct_layouts a name of
        Some layout \<Rightarrow> (Some layout, a)
      | None \<Rightarrow>
          (case abstract_type_parameters a name of
             Some parameter \<Rightarrow>
               (None, report (lit ''generic parameter `'' @ parameter @ lit ''` has no known fields or struct layout'') a)
           | None \<Rightarrow>
               (None, report (lit ''internal error: struct type `'' @ name @ lit ''` has no registered layout'') a)))"

definition enum_layout_or_diagnostic ::
    "chars \<Rightarrow> 'm layout_analyzer_scheme \<Rightarrow> enum_layout option \<times> 'm layout_analyzer_scheme" where
  "enum_layout_or_diagnostic name a =
     (case enum_layouts a name of
        Some layout \<Rightarrow> (Some layout, a)
      | None \<Rightarrow>
          (case abstract_type_parameters a name of
             Some parameter \<Rightarrow>
               (None, report (lit ''generic parameter `'' @ parameter @ lit ''` has no known variants or enum layout'') a)
           | None \<Rightarrow>
               (None, report (lit ''internal error: enum type `'' @ name @ lit ''` has no registered layout'') a)))"

subsection \<open>Layouts of the typed program\<close>

record hir_foreign_function =
  ff_name :: chars
  ff_link_name :: chars
  ff_params :: "ty list"
  ff_result :: ty

record hir_layouts =
  structs :: "struct_layout list"
  enums :: "enum_layout list"
  exported_globals :: "chars \<rightharpoonup> chars"
  exported_functions :: "chars \<rightharpoonup> chars"
  foreign_functions :: "hir_foreign_function list"
  drop_methods :: "ty \<rightharpoonup> chars"

definition program_function_symbol :: "'m hir_layouts_scheme \<Rightarrow> chars \<Rightarrow> chars" where
  "program_function_symbol p name =
     (case exported_functions p name of Some symbol \<Rightarrow> symbol | None \<Rightarrow> function_symbol name)"

definition program_global_symbol :: "'m hir_layouts_scheme \<Rightarrow> chars \<Rightarrow> chars" where
  "program_global_symbol p name =
     (case exported_globals p name of Some symbol \<Rightarrow> symbol | None \<Rightarrow> global_symbol name)"

definition foreign_link_name :: "'m hir_layouts_scheme \<Rightarrow> chars \<Rightarrow> chars option" where
  "foreign_link_name p name = map_option ff_link_name (List.find (\<lambda>f. ff_name f = name) (foreign_functions p))"

definition program_struct_layout :: "'m hir_layouts_scheme \<Rightarrow> chars \<Rightarrow> struct_layout option" where
  "program_struct_layout p name = List.find (\<lambda>l. sl_name l = name) (structs p)"

definition program_enum_layout :: "'m hir_layouts_scheme \<Rightarrow> chars \<Rightarrow> enum_layout option" where
  "program_enum_layout p name = List.find (\<lambda>l. el_name l = name) (enums p)"

definition is_uninhabited :: "'m hir_layouts_scheme \<Rightarrow> ty \<Rightarrow> bool" where
  "is_uninhabited p t \<longleftrightarrow>
     t = NeverTy \<or>
     (case t of EnumTy name \<Rightarrow> is_some_and (\<lambda>layout. el_variants layout = []) (program_enum_layout p name) | _ \<Rightarrow> False)"

text \<open>The types whose values are dropped with a value of the type.\<close>

definition owned_components :: "'m hir_layouts_scheme \<Rightarrow> ty \<Rightarrow> ty list" where
  "owned_components p t =
     (case t of
        ArrayTy e _ \<Rightarrow> [e]
      | TupleTy fs \<Rightarrow> fs
      | StructTy name \<Rightarrow> (case program_struct_layout p name of None \<Rightarrow> [] | Some l \<Rightarrow> map fl_ty (sl_fields l))
      | EnumTy name \<Rightarrow>
          (case program_enum_layout p name of None \<Rightarrow> [] | Some l \<Rightarrow> map fl_ty (concat (map vl_fields (el_variants l))))
      | CallableTy _ captures _ \<Rightarrow>
          map capture_type (filter (\<lambda>c. capture_mode c \<notin> {BorrowMode, MutBorrowMode}) captures)
      | _ \<Rightarrow> [])"

definition drops_itself :: "'m hir_layouts_scheme \<Rightarrow> ty \<Rightarrow> bool" where
  "drops_itself p t =
     (case t of
        StructTy _ \<Rightarrow> drop_methods p t \<noteq> None
      | EnumTy _ \<Rightarrow> drop_methods p t \<noteq> None
      | ContinuationTy _ _ \<Rightarrow> True
      | EffectCallableTy _ _ _ \<Rightarrow> True
      | _ \<Rightarrow> False)"

partial_function (option) needs_drop :: "'m hir_layouts_scheme \<Rightarrow> ty \<Rightarrow> bool option" where
  [code]: "needs_drop p t =
     (if drops_itself p t then Some True else any_opt (\<lambda>t. needs_drop p t) (owned_components p t))"

end
