(* ===== verification/Layouts_Properties.thy ===== *)
theory Layouts_Properties
  imports Layouts
begin

text \<open>
  What the search for types of infinite size decides.  \<open>sized\<close> is the specification: a type is sized
  when all the types its layout depends on are.  The search is a depth-first traversal with three
  colours; its invariant relates the colours to the stack and to \<open>sized\<close>.
\<close>

subsection \<open>Sized types\<close>

inductive sized :: "('a \<Rightarrow> 'a list) \<Rightarrow> 'a \<Rightarrow> bool" for dependencies where
  sizedI: "(\<And>d. d \<in> set (dependencies n) \<Longrightarrow> sized dependencies d) \<Longrightarrow> sized dependencies n"

inductive_cases sizedE: "sized dependencies n"

definition dependency_edges :: "('a \<Rightarrow> 'a list) \<Rightarrow> ('a \<times> 'a) set" where
  "dependency_edges dependencies = {(n, d). d \<in> set (dependencies n)}"

lemma edge_iff [simp]: "(n, d) \<in> dependency_edges dependencies \<longleftrightarrow> d \<in> set (dependencies n)"
  by (simp add: dependency_edges_def)

lemma sized_not_cyclic: "sized dependencies n \<Longrightarrow> (n, n) \<notin> (dependency_edges dependencies)\<^sup>+"
proof (induction rule: sized.induct)
  case (sizedI n)
  show ?case
  proof
    assume "(n, n) \<in> (dependency_edges dependencies)\<^sup>+"
    then obtain d where d: "(n, d) \<in> dependency_edges dependencies" "(d, n) \<in> (dependency_edges dependencies)\<^sup>*"
      by (blast dest: tranclD)
    then have "(d, d) \<in> (dependency_edges dependencies)\<^sup>+" by (simp add: rtrancl_into_trancl1)
    then show False using sizedI d by simp
  qed
qed

lemma successively_path:
  "successively (\<lambda>x y. y \<in> set (dependencies x)) stack \<Longrightarrow> n \<in> set stack \<Longrightarrow>
   (n, List.last stack) \<in> (dependency_edges dependencies)\<^sup>*"
proof (induction stack arbitrary: n)
  case (Cons x stack)
  show ?case
  proof (cases stack)
    case Nil
    then show ?thesis using Cons.prems by simp
  next
    case (Cons y ys)
    then have path: "successively (\<lambda>x y. y \<in> set (dependencies x)) stack" and "y \<in> set stack"
      and edge: "(x, y) \<in> dependency_edges dependencies" and l: "List.last (x # stack) = List.last stack"
      using Cons.prems by simp_all
    then have "(y, List.last stack) \<in> (dependency_edges dependencies)\<^sup>*" using Cons.IH by simp
    with edge have "(x, List.last stack) \<in> (dependency_edges dependencies)\<^sup>*"
      by (rule converse_rtrancl_into_rtrancl)
    then show ?thesis
      using Cons.prems(2) Cons.IH path l by auto
  qed
qed simp

subsection \<open>One visit\<close>

lemma layout_dependencies_report [simp]: "layout_dependencies (report m a) = layout_dependencies a"
  by (auto simp: layout_dependencies_def report_def fun_eq_iff split: option.split)

lemma layout_dependencies_reports [simp]: "layout_dependencies (fold report ms a) = layout_dependencies a"
  by (induction ms arbitrary: a) simp_all

text \<open>The visited types are sized, as long as nothing has been reported.\<close>

definition visited_sized :: "('a \<Rightarrow> 'a list) \<Rightarrow> ('a \<rightharpoonup> visit_state) \<Rightarrow> bool" where
  "visited_sized dependencies states \<longleftrightarrow> (\<forall>n. states n = Some Visited \<longrightarrow> sized dependencies n)"

definition later :: "('a \<rightharpoonup> visit_state) \<Rightarrow> ('a \<rightharpoonup> visit_state) \<Rightarrow> bool" where
  "later states states' \<longleftrightarrow>
     (\<forall>n. states' n = Some Visiting \<longleftrightarrow> states n = Some Visiting) \<and>
     (\<forall>n. states n = Some Visited \<longrightarrow> states' n = Some Visited)"

lemma later_refl: "later states states"
  by (simp add: later_def)

lemma later_trans: "later s1 s2 \<Longrightarrow> later s2 s3 \<Longrightarrow> later s1 s3"
  by (simp add: later_def)

lemma later_dom: "later states states' \<Longrightarrow> dom states \<subseteq> dom states'"
proof
  fix n assume l: "later states states'" and "n \<in> dom states"
  then obtain c where "states n = Some c" by blast
  then have "states' n = Some c" using l by (cases c) (simp_all add: later_def)
  then show "n \<in> dom states'" by blast
qed

definition on_path :: "(chars \<Rightarrow> chars list) \<Rightarrow> (chars \<rightharpoonup> visit_state) \<Rightarrow> chars list \<Rightarrow> bool" where
  "on_path dependencies states stack \<longleftrightarrow>
     set stack = {n. states n = Some Visiting} \<and> successively (\<lambda>x y. y \<in> set (dependencies x)) stack"

lemma on_path_later: "on_path dependencies states stack \<Longrightarrow> later states states' \<Longrightarrow> on_path dependencies states' stack"
  by (simp add: on_path_def later_def)

definition search :: "chars list \<Rightarrow> (chars \<rightharpoonup> visit_state) \<Rightarrow> chars list \<Rightarrow> 'm layout_analyzer_scheme \<Rightarrow> bool" where
  "search ds states stack a \<longleftrightarrow>
     (\<exists>states' ms.
        fold_opt (\<lambda>d s. visit_nominal_layout d s) ds (states, stack, a) = Some (states', stack, fold report ms a) \<and>
        later states states' \<and>
        ((\<forall>d \<in> set ds. sized (layout_dependencies a) d) \<longrightarrow> ms = []) \<and>
        (ms = [] \<longrightarrow>
           (\<forall>d \<in> set ds. states' d = Some Visited) \<and>
           (visited_sized (layout_dependencies a) states \<longrightarrow> visited_sized (layout_dependencies a) states')))"

lemma search_Nil: "search [] states stack a"
  unfolding search_def by (intro exI [of _ states] exI [of _ "[]"]) (simp add: later_refl)

lemma search_one:
  assumes "visit_nominal_layout n (states, stack, a) = Some (states', stack, fold report ms a)"
    and "later states states'"
    and "sized (layout_dependencies a) n \<Longrightarrow> ms = []"
    and "ms = [] \<Longrightarrow> states' n = Some Visited"
    and "ms = [] \<Longrightarrow> visited_sized (layout_dependencies a) states \<Longrightarrow> visited_sized (layout_dependencies a) states'"
  shows "search [n] states stack a"
  unfolding search_def by (intro exI [of _ states'] exI [of _ ms]) (simp add: assms)

lemma search_Cons:
  fixes a :: "'m layout_analyzer_scheme"
  assumes "search [d] states stack a"
    and "\<And>states' (a' :: 'm layout_analyzer_scheme). later states states' \<Longrightarrow> layout_dependencies a' = layout_dependencies a \<Longrightarrow>
      search ds states' stack a'"
  shows "search (d # ds) states stack a"
proof -
  obtain s1 ms1 where 1: "visit_nominal_layout d (states, stack, a) = Some (s1, stack, fold report ms1 a)"
      "later states s1" "sized (layout_dependencies a) d \<longrightarrow> ms1 = []"
      "ms1 = [] \<longrightarrow> s1 d = Some Visited \<and>
        (visited_sized (layout_dependencies a) states \<longrightarrow> visited_sized (layout_dependencies a) s1)"
    using assms(1) by (auto simp: search_def split: Option.bind_splits)
  have "search ds s1 stack (fold report ms1 a)" by (rule assms(2) [OF 1(2)]) simp
  then obtain s2 ms2 where 2:
      "fold_opt (\<lambda>d s. visit_nominal_layout d s) ds (s1, stack, fold report ms1 a) =
         Some (s2, stack, fold report ms2 (fold report ms1 a))"
      "later s1 s2" "(\<forall>d \<in> set ds. sized (layout_dependencies a) d) \<longrightarrow> ms2 = []"
      "ms2 = [] \<longrightarrow> (\<forall>d \<in> set ds. s2 d = Some Visited) \<and>
        (visited_sized (layout_dependencies a) s1 \<longrightarrow> visited_sized (layout_dependencies a) s2)"
    unfolding search_def layout_dependencies_reports by blast
  show ?thesis
    unfolding search_def
  proof (intro exI [of _ s2] exI [of _ "ms1 @ ms2"] conjI impI)
    show "fold_opt (\<lambda>d s. visit_nominal_layout d s) (d # ds) (states, stack, a) =
        Some (s2, stack, fold report (ms1 @ ms2) a)"
      using 1(1) 2(1) by simp
    show "later states s2" using 1(2) 2(2) by (rule later_trans)
    show "ms1 @ ms2 = []" if "\<forall>x \<in> set (d # ds). sized (layout_dependencies a) x"
      using that 1(3) 2(3) by simp
    show "\<forall>x \<in> set (d # ds). s2 x = Some Visited" if "ms1 @ ms2 = []"
      using that 1(4) 2(2, 4) by (simp add: later_def)
    show "visited_sized (layout_dependencies a) s2"
      if "ms1 @ ms2 = []" "visited_sized (layout_dependencies a) states"
      using that 1(4) 2(4) by simp
  qed
qed

lemma search_list:
  fixes a :: "'m layout_analyzer_scheme"
  assumes "\<And>d states' (a' :: 'm layout_analyzer_scheme). d \<in> set ds \<Longrightarrow> later states states' \<Longrightarrow> layout_dependencies a' = layout_dependencies a \<Longrightarrow>
      search [d] states' stack a'"
  shows "search ds states stack a"
  using assms
proof (induction ds arbitrary: states a)
  case Nil
  show ?case by (rule search_Nil)
next
  case (Cons d ds)
  show ?case
  proof (rule search_Cons)
    show "search [d] states stack a" using Cons.prems by (simp add: later_refl)
    show "search ds states' stack a'"
      if l: "later states states'" and a: "layout_dependencies a' = layout_dependencies a" for states' and a' :: "'m layout_analyzer_scheme"
    proof (rule Cons.IH)
      show "search [x] states'' stack a''"
        if "x \<in> set ds" "later states' states''" "layout_dependencies a'' = layout_dependencies a'" for x states'' and a'' :: "'m layout_analyzer_scheme"
        using that a by (intro Cons.prems) (auto intro: later_trans [OF l])
    qed
  qed
qed

text \<open>The unvisited types with a layout get fewer.\<close>

definition has_layout :: "'m layout_analyzer_scheme \<Rightarrow> chars set" where
  "has_layout a = {n. layout_dependencies a n \<noteq> []}"

lemma search_visit:
  fixes a :: "'m layout_analyzer_scheme"
  assumes "finite (has_layout a)"
    and "on_path (layout_dependencies a) states stack"
    and "stack = [] \<or> n \<in> set (layout_dependencies a (List.last stack))"
  shows "search [n] states stack a"
  using assms
proof (induction "card (has_layout a - dom states)" arbitrary: n states stack a rule: less_induct)
  case less
  show ?case
  proof (cases "states n")
    case None
    let ?states = "states(n \<mapsto> Visiting)" and ?stack = "stack @ [n]"
    have path: "on_path (layout_dependencies a) ?states ?stack"
      using less.prems(2, 3) None by (auto simp: on_path_def successively_append_iff)
    have "search (layout_dependencies a n) ?states ?stack a"
    proof (rule search_list)
      fix d states' and a' :: "'m layout_analyzer_scheme"
      assume d: "d \<in> set (layout_dependencies a n)" and l: "later ?states states'"
        and a': "layout_dependencies a' = layout_dependencies a"
      have n: "n \<in> has_layout a" using d by (auto simp: has_layout_def)
      have same: "has_layout a' = has_layout a" by (simp add: has_layout_def a')
      have "has_layout a' - dom states' \<subset> has_layout a - dom states"
        using later_dom [OF l] n None same by auto
      then have fewer: "card (has_layout a' - dom states') < card (has_layout a - dom states)"
        using less.prems(1) by (simp add: psubset_card_mono)
      show "search [d] states' ?stack a'"
        using less.hyps [OF fewer, of ?stack d] less.prems(1) on_path_later [OF path l] d same a' by simp
    qed
    then obtain states' ms where
        run: "fold_opt (\<lambda>d s. visit_nominal_layout d s) (layout_dependencies a n) (?states, ?stack, a) =
          Some (states', ?stack, fold report ms a)"
      and l: "later ?states states'"
      and sized: "(\<forall>d \<in> set (layout_dependencies a n). sized (layout_dependencies a) d) \<longrightarrow> ms = []"
      and silent: "ms = [] \<longrightarrow> (\<forall>d \<in> set (layout_dependencies a n). states' d = Some Visited) \<and>
        (visited_sized (layout_dependencies a) ?states \<longrightarrow> visited_sized (layout_dependencies a) states')"
      unfolding search_def by blast
    show ?thesis
    proof (rule search_one)
      show "visit_nominal_layout n (states, stack, a) = Some (states'(n \<mapsto> Visited), stack, fold report ms a)"
        by (subst visit_nominal_layout.simps) (simp only: prod.case None option.case run bind.bind_lunit butlast_snoc)
      show "later states (states'(n \<mapsto> Visited))"
        using l None by (auto simp: later_def)
      show "ms = []" if "sized (layout_dependencies a) n"
        using that sized by (blast elim: sizedE)
      show "(states'(n \<mapsto> Visited)) n = Some Visited" by simp
      show "visited_sized (layout_dependencies a) (states'(n \<mapsto> Visited))"
        if "ms = []" "visited_sized (layout_dependencies a) states"
      proof -
        have "visited_sized (layout_dependencies a) ?states" using that(2) by (simp add: visited_sized_def)
        then have all: "visited_sized (layout_dependencies a) states'" using silent that(1) by blast
        then have "sized (layout_dependencies a) n"
          using silent that(1) by - (rule sizedI, simp add: visited_sized_def)
        then show ?thesis using all by (simp add: visited_sized_def)
      qed
    qed
  next
    case (Some c)
    show ?thesis
    proof (cases c)
      case Visited
      show ?thesis
        by (rule search_one [where states' = states and ms = "[]"])
          (simp_all add: visit_nominal_layout.simps Some Visited later_refl)
    next
      case Visiting
      then have n: "n \<in> set stack" using less.prems(2) Some by (simp add: on_path_def)
      have "(n, List.last stack) \<in> (dependency_edges (layout_dependencies a))\<^sup>*"
        by (rule successively_path [OF _ n]) (use less.prems(2) in \<open>simp add: on_path_def\<close>)
      moreover have "stack \<noteq> []" using n by auto
      ultimately have "(n, n) \<in> (dependency_edges (layout_dependencies a))\<^sup>+"
        using less.prems(3) by (auto intro: rtrancl_into_trancl1)
      then have "\<not> sized (layout_dependencies a) n" using sized_not_cyclic [of "layout_dependencies a" n] by blast
      then show ?thesis
        by (intro search_one [where states' = states and ms = "[infinite_size_message stack n]"])
          (simp_all add: visit_nominal_layout.simps Some Visiting later_refl)
    qed
  qed
qed

lemma validation_result:
  fixes a :: "'m layout_analyzer_scheme"
  assumes "finite (has_layout a)"
  shows "\<exists>ms. validate_nominal_layouts a = Some (fold report ms a) \<and>
    (ms = [] \<longleftrightarrow> (\<forall>n \<in> set (struct_order a @ enum_order a). sized (layout_dependencies a) n))"
proof -
  let ?names = "struct_order a @ enum_order a"
  have "search ?names Map.empty [] a"
  proof (rule search_list)
    fix d and states' :: "chars \<rightharpoonup> visit_state" and a' :: "'m layout_analyzer_scheme"
    assume "later Map.empty states'" "layout_dependencies a' = layout_dependencies a"
    then show "search [d] states' [] a'"
      using assms by (intro search_visit) (auto simp: has_layout_def on_path_def later_def)
  qed
  then obtain states' ms where
      run: "fold_opt (\<lambda>d s. visit_nominal_layout d s) ?names (Map.empty, [], a) = Some (states', [], fold report ms a)"
      and sized: "(\<forall>d \<in> set ?names. sized (layout_dependencies a) d) \<longrightarrow> ms = []"
      and silent: "ms = [] \<longrightarrow> (\<forall>d \<in> set ?names. states' d = Some Visited) \<and>
        (visited_sized (layout_dependencies a) Map.empty \<longrightarrow> visited_sized (layout_dependencies a) states')"
    unfolding search_def by blast
  have "sized (layout_dependencies a) d" if "ms = []" "d \<in> set ?names" for d
    using that silent by (simp add: visited_sized_def)
  with sized have "ms = [] \<longleftrightarrow> (\<forall>n \<in> set ?names. sized (layout_dependencies a) n)" by blast
  moreover have "validate_nominal_layouts a = Some (fold report ms a)"
    by (simp add: validate_nominal_layouts_def run)
  ultimately show ?thesis by blast
qed

subsection \<open>Dropping values\<close>

text \<open>Types whose owned components, and theirs, end.\<close>

inductive finitely_owned :: "'m hir_layouts_scheme \<Rightarrow> ty \<Rightarrow> bool" for p where
  finitely_ownedI: "(\<And>u. u \<in> set (owned_components p t) \<Longrightarrow> finitely_owned p u) \<Longrightarrow> finitely_owned p t"

text \<open>A type of which the components, taken transitively, have a drop method.\<close>

inductive owns_dropped :: "'m hir_layouts_scheme \<Rightarrow> ty \<Rightarrow> bool" for p where
  owns_itself: "drops_itself p t \<Longrightarrow> owns_dropped p t"
| owns_component: "u \<in> set (owned_components p t) \<Longrightarrow> owns_dropped p u \<Longrightarrow> owns_dropped p t"

inductive_simps owns_dropped_simps: "owns_dropped p t"

lemma needs_drop_total: "finitely_owned p t \<Longrightarrow> needs_drop p t = Some (owns_dropped p t)"
proof (induction rule: finitely_owned.induct)
  case (finitely_ownedI t)
  then have "any_opt (needs_drop p) (owned_components p t) = Some (\<exists>u \<in> set (owned_components p t). owns_dropped p u)"
    by (intro any_opt_total) blast
  then show ?case
    by (subst needs_drop.simps) (auto simp: owns_dropped_simps [of p t])
qed

text \<open>The nominal types held by value in a value of a type, the captures of a callable included.\<close>

function held_nominals :: "ty \<Rightarrow> chars list" where
  "held_nominals t =
     (case t of
        StructTy name \<Rightarrow> [name]
      | EnumTy name \<Rightarrow> [name]
      | ArrayTy e _ \<Rightarrow> held_nominals e
      | TupleTy fs \<Rightarrow> concat (map held_nominals fs)
      | CallableTy _ captures _ \<Rightarrow> concat (map (\<lambda>c. held_nominals (capture_type c)) captures)
      | _ \<Rightarrow> [])"
  by pat_completeness auto

termination
  by (relation "measure size") (auto dest: size_field_less size_capture_less)

declare held_nominals.simps [simp del]

lemma held_nominals_composite [simp]:
  "held_nominals (TupleTy fs) = concat (map held_nominals fs)"
  "held_nominals (ArrayTy e n) = held_nominals e"
  "held_nominals (CallableTy f captures k) = concat (map (\<lambda>c. held_nominals (capture_type c)) captures)"
  by (simp_all add: held_nominals.simps)

text \<open>
  A layout is plainly held when \<open>nominal_name\<close> sees all the nominal types its fields hold: no field
  is a tuple or an array of tuples that holds two of them, or a callable that captures one.
\<close>

definition plainly_held :: "ty \<Rightarrow> bool" where
  "plainly_held t \<longleftrightarrow> set (held_nominals t) \<subseteq> set_option (nominal_name t)"

definition same_layouts :: "'m layout_analyzer_scheme \<Rightarrow> 'n hir_layouts_scheme \<Rightarrow> bool" where
  "same_layouts a p \<longleftrightarrow>
     (\<forall>name. program_struct_layout p name = struct_layouts a name \<and> program_enum_layout p name = enum_layouts a name)"

definition layout_types :: "'m layout_analyzer_scheme \<Rightarrow> chars \<Rightarrow> ty list" where
  "layout_types a name =
     (case struct_layouts a name of None \<Rightarrow> [] | Some l \<Rightarrow> map fl_ty (sl_fields l)) @
     (case enum_layouts a name of None \<Rightarrow> [] | Some l \<Rightarrow> map fl_ty (concat (map vl_fields (el_variants l))))"

text \<open>No struct and enum share a name, and the order lists name all the layouts.\<close>

definition layouts_ok :: "'m layout_analyzer_scheme \<Rightarrow> bool" where
  "layouts_ok a \<longleftrightarrow>
     dom (struct_layouts a) \<inter> dom (enum_layouts a) = {} \<and>
     dom (struct_layouts a) \<union> dom (enum_layouts a) \<subseteq> set (struct_order a @ enum_order a) \<and>
     (\<forall>name. \<forall>t \<in> set (layout_types a name). plainly_held t)"

lemma dependencies_of_types:
  assumes "layouts_ok a"
  shows "layout_dependencies a name = List.map_filter nominal_name (layout_types a name)"
proof (cases "struct_layouts a name")
  case None
  then show ?thesis
    by (auto simp: layout_dependencies_def layout_types_def map_filter_def filter_map comp_def split: option.split)
next
  case (Some l)
  then have "enum_layouts a name = None" using assms by (auto simp: layouts_ok_def)
  then show ?thesis using Some
    by (simp add: layout_dependencies_def layout_types_def map_filter_def filter_map comp_def)
qed

lemma finite_has_layout: "layouts_ok a \<Longrightarrow> finite (has_layout a)"
proof (rule finite_subset)
  show "has_layout a \<subseteq> dom (struct_layouts a) \<union> dom (enum_layouts a)"
    by (auto simp: has_layout_def layout_dependencies_def split: option.splits)
  show "finite (dom (struct_layouts a) \<union> dom (enum_layouts a))" if "layouts_ok a"
    using that unfolding layouts_ok_def by (meson List.finite_set finite_subset)
qed

lemma owned_of_struct: "same_layouts a p \<Longrightarrow> u \<in> set (owned_components p (StructTy name)) \<Longrightarrow> u \<in> set (layout_types a name)"
  by (auto simp: owned_components_def same_layouts_def layout_types_def split: option.splits)

lemma owned_of_enum: "same_layouts a p \<Longrightarrow> u \<in> set (owned_components p (EnumTy name)) \<Longrightarrow> u \<in> set (layout_types a name)"
  by (auto simp: owned_components_def same_layouts_def layout_types_def split: option.splits)

definition nominals_finite :: "'m hir_layouts_scheme \<Rightarrow> chars \<Rightarrow> bool" where
  "nominals_finite p name \<longleftrightarrow> finitely_owned p (StructTy name) \<and> finitely_owned p (EnumTy name)"

text \<open>A type owns finitely much as soon as the nominal types it holds do.\<close>

lemma held_finitely_owned:
  "(\<And>name. name \<in> set (held_nominals t) \<Longrightarrow> nominals_finite p name) \<Longrightarrow> finitely_owned p t"
proof (induction "size t" arbitrary: t rule: less_induct)
  case less
  show ?case
  proof (cases "nominal_of t")
    case (Some name)
    then have "t = StructTy name \<or> t = EnumTy name" by (auto simp: nominal_of_def split: ty.splits)
    then show ?thesis
      using less.prems [of name] by (auto simp: nominals_finite_def held_nominals.simps)
  next
    case None
    show ?thesis
    proof (rule finitely_ownedI)
      fix u assume u: "u \<in> set (owned_components p t)"
      have "size u < size t \<and> set (held_nominals u) \<subseteq> set (held_nominals t)"
        using u None
        by (cases t)
          (auto simp: owned_components_def nominal_of_def dest: size_field_less size_capture_less)
      then show "finitely_owned p u" using less by blast
    qed
  qed
qed

lemma sized_finite:
  assumes "layouts_ok a" "same_layouts a p"
  shows "sized (layout_dependencies a) name \<Longrightarrow> nominals_finite p name"
proof (induction rule: sized.induct)
  case (sizedI name)
  have "finitely_owned p u" if "u \<in> set (layout_types a name)" for u
  proof (rule held_finitely_owned)
    fix n assume "n \<in> set (held_nominals u)"
    then have "nominal_name u = Some n"
      using that assms(1) unfolding layouts_ok_def plainly_held_def by (metis elem_set subsetD)
    then have "n \<in> set (layout_dependencies a name)"
      using that unfolding dependencies_of_types [OF assms(1)] by (force simp: map_filter_def)
    then show "nominals_finite p n" by (rule sizedI.IH)
  qed
  then show ?case
    unfolding nominals_finite_def
    using owned_of_struct [OF assms(2)] owned_of_enum [OF assms(2)] by (auto intro: finitely_ownedI)
qed

lemma length_reports: "length (diagnostics (fold report ms a)) = length (diagnostics a) + length ms"
  by (induction ms arbitrary: a) (simp_all add: report_def)

text \<open>The validation reports nothing.\<close>

definition validates :: "'m layout_analyzer_scheme \<Rightarrow> bool" where
  "validates a \<longleftrightarrow> map_option diagnostics (validate_nominal_layouts a) = Some (diagnostics a)"

lemma validated_sized:
  assumes "layouts_ok a" "validates a"
  shows "sized (layout_dependencies a) name"
proof (cases "name \<in> dom (struct_layouts a) \<union> dom (enum_layouts a)")
  case True
  obtain ms where ms: "validate_nominal_layouts a = Some (fold report ms a)"
      "ms = [] \<longleftrightarrow> (\<forall>n \<in> set (struct_order a @ enum_order a). sized (layout_dependencies a) n)"
    using validation_result [OF finite_has_layout [OF assms(1)]] by blast
  then have "diagnostics (fold report ms a) = diagnostics a" using assms(2) by (simp add: validates_def)
  then have "ms = []" using length_reports [of ms a] by simp
  moreover have "name \<in> set (struct_order a @ enum_order a)"
    using True assms(1) unfolding layouts_ok_def by blast
  ultimately show ?thesis using ms(2) by blast
next
  case False
  then have "struct_layouts a name = None" "enum_layouts a name = None" by auto
  then have "layout_dependencies a name = []" by (simp add: layout_dependencies_def)
  then show ?thesis by - (rule sizedI, simp)
qed

lemma all_finitely_owned:
  assumes "layouts_ok a" "same_layouts a p" "validates a"
  shows "finitely_owned p t"
  by (rule held_finitely_owned) (rule sized_finite [OF assms(1, 2) validated_sized [OF assms(1, 3)]])

subsection \<open>Well-formed layouts\<close>

definition fields_ok :: "field_layout list \<Rightarrow> bool" where
  "fields_ok fs \<longleftrightarrow> distinct (map fl_name fs)"

lemma build_fields_fold:
  assumes "set (map fl_name fs) = seen" "distinct (map fl_name fs)"
    and "fold (add_field lower owner duplicate) sources (seen, fs, a) = (seen', fs', a')"
  shows "set (map fl_name fs') = seen' \<and> distinct (map fl_name fs') \<and> seen' = seen \<union> set (map fst sources)"
  using assms
proof (induction sources arbitrary: seen fs a)
  case (Cons source sources)
  obtain name t v where source: "source = (name, t, v)" by (cases source)
  obtain seen1 fs1 a1 where step: "add_field lower owner duplicate source (seen, fs, a) = (seen1, fs1, a1)"
    by (cases "add_field lower owner duplicate source (seen, fs, a)")
  then have "set (map fl_name fs1) = seen1 \<and> distinct (map fl_name fs1) \<and> seen1 = insert name seen"
    using Cons.prems(1, 2) by (auto simp: add_field_def source split: if_splits prod.splits)
  then show ?case
    using Cons.IH [of fs1 seen1 a1] Cons.prems(3) step by (auto simp: source)
qed simp

lemma build_fields_ok: "build_fields lower owner duplicate sources a = (fs, a') \<Longrightarrow> fields_ok fs"
  using build_fields_fold [of "[]" "{}" lower owner duplicate sources a]
  by (auto simp: build_fields_def fields_ok_def prod_eq_iff split: prod.splits)

text \<open>Variants of different names, whose payloads follow each other.\<close>

definition variants_ok :: "variant_layout list \<Rightarrow> bool" where
  "variants_ok vs \<longleftrightarrow>
     distinct (map vl_name vs) \<and> (\<forall>v \<in> set vs. fields_ok (vl_fields v)) \<and>
     (\<forall>i < length vs. payload_offset (vs ! i) = sum_list (map (\<lambda>v. length (vl_fields v)) (List.take i vs)))"

lemma variants_ok_snoc:
  assumes "variants_ok vs" "vl_name v \<notin> set (map vl_name vs)" "fields_ok (vl_fields v)"
    and "payload_offset v = sum_list (map (\<lambda>v. length (vl_fields v)) vs)"
  shows "variants_ok (vs @ [v])"
  using assms by (auto simp: variants_ok_def nth_append less_Suc_eq)

lemma build_variants_fold:
  assumes "variants_ok vs" "set (map vl_name vs) = seen" "offset = sum_list (map (\<lambda>v. length (vl_fields v)) vs)"
    and "fold (add_variant lower owner name) variants (seen, vs, offset, a) = (seen', vs', offset', a')"
  shows "variants_ok vs' \<and> set (map vl_name vs') = seen \<union> set (map variant_name variants)"
  using assms
proof (induction variants arbitrary: seen vs offset a)
  case (Cons variant variants)
  obtain seen1 vs1 offset1 a1 where
      step: "add_variant lower owner name variant (seen, vs, offset, a) = (seen1, vs1, offset1, a1)"
    by (cases "add_variant lower owner name variant (seen, vs, offset, a)")
  have "variants_ok vs1 \<and> set (map vl_name vs1) = seen1 \<and> seen1 = insert (variant_name variant) seen \<and>
      offset1 = sum_list (map (\<lambda>v. length (vl_fields v)) vs1)"
  proof (cases "variant_name variant \<in> seen")
    case True
    then show ?thesis using step Cons.prems(1-3) by (auto simp: add_variant_def)
  next
    case False
    then obtain fs named sources where built: "fields_ok fs" "offset1 = offset + length fs"
        "seen1 = insert (variant_name variant) seen"
        "vs1 = vs @ [\<lparr>vl_name = variant_name variant, vl_fields = fs, payload_offset = offset, vl_named = named\<rparr>]"
      using step by (auto simp: add_variant_def dest: build_fields_ok split: prod.splits)
    have "variants_ok vs1"
      unfolding built(4) by (rule variants_ok_snoc) (use Cons.prems(1-3) built(1) False in auto)
    then show ?thesis using Cons.prems(2, 3) built by simp
  qed
  then show ?case
    using Cons.IH [of vs1 seen1 offset1 a1] Cons.prems(4) step by auto
qed simp

subsection \<open>Example layouts\<close>

definition example_struct :: "chars \<Rightarrow> ty list \<Rightarrow> struct_layout" where
  "example_struct name types =
     \<lparr>sl_name = name, sl_source_name = name, sl_origin = default_origin, sl_representation = SalicinRepr,
      sl_fields =
        map (\<lambda>t. \<lparr>fl_name = lit ''x'', fl_ty = t, fl_access = \<lparr>ab_visibility = Public, ab_origin = default_origin\<rparr>\<rparr>)
          types\<rparr>"

definition example_layouts :: "struct_layout list \<Rightarrow> layout_analyzer" where
  "example_layouts layouts =
     \<lparr>nominal_accesses = Map.empty, nominal_instances = [], abstract_type_parameters = Map.empty,
      function_accesses = [], global_accesses = [], current_origin = None, diagnostics = [],
      struct_defs = Map.empty, enum_defs = Map.empty,
      struct_layouts = map_of (map (\<lambda>l. (sl_name l, l)) layouts), enum_layouts = Map.empty,
      nominal_instance_states = [], struct_order = map sl_name layouts, enum_order = []\<rparr>"

definition example_program :: "struct_layout list \<Rightarrow> hir_layouts" where
  "example_program layouts =
     \<lparr>structs = layouts, enums = [], exported_globals = Map.empty, exported_functions = Map.empty,
      foreign_functions = [], drop_methods = Map.empty\<rparr>"

lemma find_map_of: "List.find (\<lambda>l. sl_name l = name) ls = map_of (map (\<lambda>l. (sl_name l, l)) ls) name"
  by (induction ls) auto

lemma example_same_layouts: "same_layouts (example_layouts ls) (example_program ls)"
  by (simp add: same_layouts_def program_struct_layout_def program_enum_layout_def example_layouts_def example_program_def find_map_of)

text \<open>\<open>struct Pair { Leaf, i32 }\<close> and \<open>struct Leaf {}\<close>.\<close>

definition pair_structs :: "struct_layout list" where
  "pair_structs =
     [example_struct (lit ''Pair'') [StructTy (lit ''Leaf''), IntTy I32], example_struct (lit ''Leaf'') []]"

text \<open>\<open>struct A { x: (B, A) }\<close> and \<open>struct B {}\<close>: a value of \<open>A\<close> holds another one.\<close>

definition tuple_structs :: "struct_layout list" where
  "tuple_structs =
     [example_struct (lit ''A'') [TupleTy [StructTy (lit ''B''), StructTy (lit ''A'')]], example_struct (lit ''B'') []]"

lemmas example_defs = example_struct_def example_layouts_def example_program_def pair_structs_def tuple_structs_def

lemma pair_validates: "validates (example_layouts pair_structs)"
  unfolding validates_def by code_simp

lemma tuple_validates: "validates (example_layouts tuple_structs)"
  unfolding validates_def by code_simp

lemma pair_ok: "layouts_ok (example_layouts pair_structs)"
  by (simp add: layouts_ok_def layout_types_def plainly_held_def held_nominals.simps example_defs)

lemma pair_finite: "finite (has_layout (example_layouts pair_structs))"
  by (rule finite_has_layout [OF pair_ok])

definition endless :: "ty set" where
  "endless = {StructTy (lit ''A''), TupleTy [StructTy (lit ''B''), StructTy (lit ''A'')]}"

lemma tuple_needs_drop:
  "needs_drop p t = Some b \<Longrightarrow> p = example_program tuple_structs \<Longrightarrow> t \<notin> endless \<and> (t = StructTy (lit ''B'') \<longrightarrow> \<not> b)"
proof (induction p t b rule: needs_drop.raw_induct [rotated 1, consumes 1, case_names step])
  case (step f p t b)
  let ?A = "StructTy (lit ''A'')" and ?B = "StructTy (lit ''B'')"
  have p: "\<not> drops_itself p ?A" "\<not> drops_itself p ?B" "owned_components p ?A = [TupleTy [?B, ?A]]"
      "owned_components p ?B = []"
    using step(3) by (simp_all add: drops_itself_def owned_components_def program_struct_layout_def example_defs lit_def)
  have t: "\<not> drops_itself p (TupleTy [?B, ?A])" "owned_components p (TupleTy [?B, ?A]) = [?B, ?A]"
    by (simp_all add: drops_itself_def owned_components_def)
  have IH: "u \<notin> endless \<and> (u = ?B \<longrightarrow> \<not> b')" if "f p u = Some b'" for u b'
    using step(1) [OF that] step(3) by blast
  have none: "f p ?A = None" "f p (TupleTy [?B, ?A]) = None" "f p ?B \<noteq> Some True"
    using IH [of ?A] IH [of "TupleTy [?B, ?A]"] IH [of ?B]
    by (cases "f p ?A"; cases "f p (TupleTy [?B, ?A])"; force simp: endless_def)+
  show ?case
    using step(2) p t none by (auto simp: endless_def split: Option.bind_splits if_splits)
qed



text \<open>
  C17: when the layouts validate and no field hides a nominal type from \<open>nominal_name\<close>, \<open>needs_drop\<close>
  returns for every type, and tells whether the type owns, transitively, a type that is dropped.
\<close>

theorem validated_layouts_drop:
  assumes "layouts_ok a" "same_layouts a p" "validates a"
  shows "needs_drop p t = Some (owns_dropped p t)"
  by (rule needs_drop_total [OF all_finitely_owned [OF assms]])

theorem validated_layouts_drop_witness:
  "needs_drop (example_program pair_structs) (StructTy (lit ''Pair'')) =
     Some (owns_dropped (example_program pair_structs) (StructTy (lit ''Pair'')))"
  by (rule validated_layouts_drop [OF pair_ok example_same_layouts pair_validates])

text \<open>
  C36: a tuple hides all but its first nominal type from the search: a struct that holds itself in the
  second component of a tuple validates, and \<open>needs_drop\<close> never returns for it.
\<close>

theorem tuple_hides_infinite_layout:
  "validates (example_layouts tuple_structs) \<and>
   same_layouts (example_layouts tuple_structs) (example_program tuple_structs) \<and>
   needs_drop (example_program tuple_structs) (StructTy (lit ''A'')) = None"
  using tuple_validates example_same_layouts tuple_needs_drop [of "example_program tuple_structs" "StructTy (lit ''A'')"]
  by (cases "needs_drop (example_program tuple_structs) (StructTy (lit ''A''))") (auto simp: endless_def)

text \<open>
  whatever the lowering of types does, the layout built for an enum has the declared variants, each
  once, with fields of different names, and the payloads of the variants follow each other.
\<close>

theorem built_enum_layout_ok:
  "\<exists>layout. enum_layouts (build_enum_layout lower name def a) name = Some layout \<and> el_name layout = name \<and>
     variants_ok (el_variants layout) \<and>
     set (map vl_name (el_variants layout)) = set (map variant_name (enum_variants def))"
proof -
  obtain owner a1 where owner: "nominal_access_or_internal name a = (owner, a1)"
    by (cases "nominal_access_or_internal name a")
  obtain seen vs offset a2 where run: "fold (add_variant lower owner name) (enum_variants def) ({}, [], 0, a1) = (seen, vs, offset, a2)"
    by (cases "fold (add_variant lower owner name) (enum_variants def) ({}, [], 0, a1)")
  have "variants_ok vs \<and> set (map vl_name vs) = {} \<union> set (map variant_name (enum_variants def))"
    by (rule build_variants_fold [OF _ _ _ run]) (simp_all add: variants_ok_def)
  then show ?thesis
    by (simp add: build_enum_layout_def owner run mark_ready_def split: option.split)
qed

end
