(* ===== verification/Hir.thy ===== *)
theory Hir
  imports Ast_Expr
begin

text \<open>
  The typed tree (\<open>compiler/src/codegen/hir.rs\<close>): places, parameters and the descriptions of partial
  applications and closures.  Locals and loans are numbers.
\<close>

type_synonym local_id = nat
type_synonym loan_id = nat

datatype local_capability = Owned | SharedParam | MutParam

record hir_dynamic_index =
  di_local :: local_id
  di_length :: u64
  di_array_ty :: ty

record hir_place =
  hp_local :: local_id
  hp_root_ty :: ty
  hp_projections :: "nat list"
  hp_dynamic_index :: "hir_dynamic_index option"
  hp_ty :: ty
  hp_capability :: local_capability
  hp_root_mutable :: bool
  hp_loan :: "loan_id option"
  hp_indirect :: bool

datatype hir_read_kind = CopyRead | InspectRead | MoveRead

datatype assignment_kind = InitializeAssign | OverwriteAssign | MaybeOverwriteAssign

datatype access_kind = AutoAccess | CopyAccess | MoveAccess | SharedBorrowAccess | MutBorrowAccess

record hir_param =
  param_id :: local_id
  param_name :: chars
  param_ty :: ty
  param_mode :: pass_mode

record hir_pattern_binding =
  pb_id :: local_id
  pb_name :: chars
  pb_ty :: ty
  pb_path :: "nat list"
  pb_moves :: bool

datatype hir_matcher = VariantMatcher nat | AllMatcher

record param_sig =
  ps_name :: chars
  ps_ty :: ty
  ps_mode :: pass_mode

record function_sig =
  fs_groups :: "param_sig list list"
  fs_unsafety :: bool
  fs_failure_error :: "ty option"
  fs_custom_effects :: "chars list"
  fs_result :: "ty option"

definition function_sig_ty :: "function_sig \<Rightarrow> ty option" where
  "function_sig_ty s =
     map_option
       (\<lambda>result. FunctionTy (FunctionSig (map (map ps_ty) (fs_groups s)) (fs_unsafety s) (fs_failure_error s)
          (fs_custom_effects s) result))
       (fs_result s)"

record partial_info =
  pi_function :: chars
  pi_consumed_groups :: nat
  pi_capture_count :: nat
  pi_is_fn_mut :: bool
  pi_is_fn_once :: bool

datatype closure_capture_mode = SharedCapture | MutableCapture | MoveCapture

datatype closure_capture_policy = LexicalPolicy | HandlerOwnedPolicy | AsyncOwnedPolicy

record forwarded_closure_capture =
  fcc_binding :: local_id
  fcc_index :: nat
  fcc_callable_ty :: ty

record closure_capture_use =
  ccu_name :: chars
  ccu_mode :: closure_capture_mode

record closure_effect_context =
  cec_unsafe_depth :: nat
  cec_failure_error :: "ty option"
  cec_custom_effects :: "chars set"
  cec_custom_effect_sources :: "chars \<rightharpoonup> source_type"
  cec_lexical_handler_effects :: "chars set"
  cec_lexical_handler_effect_sources :: "chars \<rightharpoonup> source_type"
  cec_infer_effects :: bool

text \<open>The value captured by a closure is an expression of the typed tree, the type \<open>'e\<close>.\<close>

record 'e closure_capture =
  cc_place :: hir_place
  cc_mode :: closure_capture_mode
  cc_by_value :: bool
  cc_value :: "'e option"
  cc_forwarded :: "forwarded_closure_capture option"

record 'e closure_info =
  ci_function :: chars
  ci_groups :: "param_sig list list"
  ci_unsafety :: bool
  ci_failure_error :: "ty option"
  ci_custom_effects :: "chars list"
  ci_result :: ty
  ci_captures :: "'e closure_capture list"
  ci_capture_names :: "chars list"
  ci_is_fn_mut :: bool
  ci_is_fn_once :: bool

end
