(* ===== verification/Ownership.thy ===== *)
theory Ownership
  imports Layouts Hir
begin

text \<open>
  Which types are copied, moved or dropped (\<open>compiler/src/codegen/ownership.rs\<close>).  The record extends the
  analyzer by the tables these functions read; the names of the language items are fields.
\<close>

record ownership_analyzer = layout_analyzer +
  copy_nominals :: "ty set"
  trait_impl_headers :: "trait_impl_key list"
  trait_impl_keys :: "trait_impl_key list"
  lang_never :: chars
  lang_move :: chars
  lang_drop :: chars

definition is_uninhabited_type :: "'m layout_analyzer_scheme \<Rightarrow> ty \<Rightarrow> bool" where
  "is_uninhabited_type a t \<longleftrightarrow>
     t = NeverTy \<or>
     (case t of EnumTy name \<Rightarrow> is_some_and (\<lambda>layout. el_variants layout = []) (enum_layouts a name) | _ \<Rightarrow> False)"

subsection \<open>Copying\<close>

fun type_is_copy_with_nominals :: "'m ownership_analyzer_scheme \<Rightarrow> ty set \<Rightarrow> ty \<Rightarrow> bool" where
  "type_is_copy_with_nominals a valid UnitTy = True"
| "type_is_copy_with_nominals a valid (PointerTy _ _) = True"
| "type_is_copy_with_nominals a valid (FunctionTy _) = True"
| "type_is_copy_with_nominals a valid (EffectRowTy _ _ _) = True"
| "type_is_copy_with_nominals a valid NeverTy = True"
| "type_is_copy_with_nominals a valid ErrorTy = True"
| "type_is_copy_with_nominals a valid (ReferenceTy _ mutable _) = (\<not> mutable)"
| "type_is_copy_with_nominals a valid StrTy = False"
| "type_is_copy_with_nominals a valid (SliceTy _) = False"
| "type_is_copy_with_nominals a valid (ArrayTy element _) = type_is_copy_with_nominals a valid element"
| "type_is_copy_with_nominals a valid (TupleTy fs) = list_all (type_is_copy_with_nominals a valid) fs"
| "type_is_copy_with_nominals a valid (EnumTy name) = (name = lang_never a \<or> EnumTy name \<in> valid)"
| "type_is_copy_with_nominals a valid (StructTy name) = (StructTy name \<in> valid)"
| "type_is_copy_with_nominals a valid (IntTy i) = (IntTy i \<in> valid)"
| "type_is_copy_with_nominals a valid BoolTy = (BoolTy \<in> valid)"
| "type_is_copy_with_nominals a valid (CallableTy _ _ _) = False"
| "type_is_copy_with_nominals a valid (ContinuationTy _ _) = False"
| "type_is_copy_with_nominals a valid (EffectCallableTy _ _ _) = False"

definition is_copy_type :: "'m ownership_analyzer_scheme \<Rightarrow> ty \<Rightarrow> bool" where
  "is_copy_type a t = type_is_copy_with_nominals a (copy_nominals a) t"

definition copy_layout_is_valid :: "'m ownership_analyzer_scheme \<Rightarrow> ty \<Rightarrow> ty set \<Rightarrow> bool" where
  "copy_layout_is_valid a target valid \<longleftrightarrow>
     is_integer target \<or> target = BoolTy \<or>
     (case target of
        StructTy name \<Rightarrow>
          is_some_and (\<lambda>l. list_all (\<lambda>f. type_is_copy_with_nominals a valid (fl_ty f)) (sl_fields l)) (struct_layouts a name)
      | EnumTy name \<Rightarrow>
          is_some_and
            (\<lambda>l. list_all (\<lambda>v. list_all (\<lambda>f. type_is_copy_with_nominals a valid (fl_ty f)) (vl_fields v)) (el_variants l))
            (enum_layouts a name)
      | _ \<Rightarrow> False)"

text \<open>The first field that cannot be copied; naming the type may not return.\<close>

definition first_non_copy_member ::
    "(code_point \<Rightarrow> bool) \<Rightarrow> 'm ownership_analyzer_scheme \<Rightarrow> ty \<Rightarrow> ty set \<Rightarrow> (chars \<times> ty) option option" where
  "first_non_copy_member up a target valid = do {
     target_name \<leftarrow> diagnostic_type_name up a target;
     Some (case target of
        StructTy name \<Rightarrow>
          Option.bind (struct_layouts a name)
            (\<lambda>l. find_map
               (\<lambda>f. if type_is_copy_with_nominals a valid (fl_ty f) then None
                    else Some (lit ''field `'' @ target_name @ lit ''.'' @ fl_name f @ lit ''`'', fl_ty f))
               (sl_fields l))
      | EnumTy name \<Rightarrow>
          Option.bind (enum_layouts a name)
            (\<lambda>l. find_map
               (\<lambda>v. find_map
                  (\<lambda>f. if type_is_copy_with_nominals a valid (fl_ty f) then None
                       else
                         Some (lit ''field `'' @ target_name @ lit ''.'' @ vl_name v @ lit ''.'' @ fl_name f @ lit ''`'',
                           fl_ty f))
                  (vl_fields v))
               (el_variants l))
      | _ \<Rightarrow> None) }"

subsection \<open>Moving and dropping\<close>

definition has_trait :: "trait_impl_key list \<Rightarrow> chars \<Rightarrow> ty \<Rightarrow> bool" where
  "has_trait keys name t \<longleftrightarrow>
     list_ex (\<lambda>k. ti_self_ty k = t \<and> tr_name (ti_trait_ref k) = name \<and> tr_arguments (ti_trait_ref k) = []) keys"

definition type_has_custom_drop :: "'m ownership_analyzer_scheme \<Rightarrow> ty \<Rightarrow> bool" where
  "type_has_custom_drop a t = has_trait (trait_impl_keys a) (lang_drop a) t"

text \<open>The types held by value in a value of a type, as far as its layout is known.\<close>

definition member_types :: "'m layout_analyzer_scheme \<Rightarrow> ty \<Rightarrow> ty list" where
  "member_types a t =
     (case t of
        ArrayTy e _ \<Rightarrow> [e]
      | TupleTy fs \<Rightarrow> fs
      | StructTy name \<Rightarrow> (case struct_layouts a name of None \<Rightarrow> [] | Some l \<Rightarrow> map fl_ty (sl_fields l))
      | EnumTy name \<Rightarrow>
          (case enum_layouts a name of None \<Rightarrow> [] | Some l \<Rightarrow> map fl_ty (concat (map vl_fields (el_variants l))))
      | CallableTy _ captures _ \<Rightarrow>
          map capture_type (filter (\<lambda>c. capture_mode c \<notin> {BorrowMode, MutBorrowMode}) captures)
      | _ \<Rightarrow> [])"

definition unsized_type :: "ty \<Rightarrow> bool" where
  "unsized_type t \<longleftrightarrow> (case t of StrTy \<Rightarrow> True | SliceTy _ \<Rightarrow> True | _ \<Rightarrow> False)"

definition erased_callable :: "ty \<Rightarrow> bool" where
  "erased_callable t \<longleftrightarrow> (case t of ContinuationTy _ _ \<Rightarrow> True | EffectCallableTy _ _ _ \<Rightarrow> True | _ \<Rightarrow> False)"

text \<open>
  \<open>visiting\<close> holds the types on the path to the current one; each call removes what it inserts, so
  it is an argument.
\<close>

partial_function (option) type_is_move_inner :: "'m ownership_analyzer_scheme \<Rightarrow> ty set \<Rightarrow> ty \<Rightarrow> bool option" where
  [code]: "type_is_move_inner a visiting t =
     (if has_trait (trait_impl_headers a) (lang_move a) t then Some True
      else if t \<in> visiting then Some True
      else if unsized_type t then Some False
      else all_opt (\<lambda>u. type_is_move_inner a (insert t visiting) u) (member_types a t))"

definition is_move_type :: "'m ownership_analyzer_scheme \<Rightarrow> ty \<Rightarrow> bool option" where
  "is_move_type a t = type_is_move_inner a {} t"

partial_function (option) type_needs_drop_inner :: "'m ownership_analyzer_scheme \<Rightarrow> ty set \<Rightarrow> ty \<Rightarrow> bool option" where
  [code]: "type_needs_drop_inner a visiting t =
     (if t \<in> visiting then Some True
      else if type_has_custom_drop a t then Some True
      else if erased_callable t then Some True
      else any_opt (\<lambda>u. type_needs_drop_inner a (insert t visiting) u) (member_types a t))"

definition type_needs_drop :: "'m ownership_analyzer_scheme \<Rightarrow> ty \<Rightarrow> bool option" where
  "type_needs_drop a t = type_needs_drop_inner a {} t"

text \<open>Whether a move of the place takes a part of a value whose destructor needs the whole.\<close>

fun crosses_custom_drop :: "'m ownership_analyzer_scheme \<Rightarrow> ty \<Rightarrow> nat list \<Rightarrow> bool" where
  "crosses_custom_drop a t [] = False"
| "crosses_custom_drop a t (projection # projections) =
     (if type_has_custom_drop a t then True
      else
        (case t of
           StructTy name \<Rightarrow>
             (case Option.bind (struct_layouts a name) (\<lambda>l. nth_opt (sl_fields l) projection) of
                None \<Rightarrow> False
              | Some f \<Rightarrow> crosses_custom_drop a (fl_ty f) projections)
         | ArrayTy element n \<Rightarrow>
             if int projection < uint n then crosses_custom_drop a element projections else False
         | TupleTy fs \<Rightarrow>
             (case nth_opt fs projection of
                None \<Rightarrow> False
              | Some f \<Rightarrow> crosses_custom_drop a f projections)
         | _ \<Rightarrow> False))"

definition projected_place_crosses_custom_drop :: "'m ownership_analyzer_scheme \<Rightarrow> hir_place \<Rightarrow> bool" where
  "projected_place_crosses_custom_drop a place = crosses_custom_drop a (hp_root_ty place) (hp_projections place)"

definition effective_pass_mode :: "'m ownership_analyzer_scheme \<Rightarrow> pass_mode \<Rightarrow> ty \<Rightarrow> pass_mode" where
  "effective_pass_mode a mode t =
     (if mode = InferredMode then (if is_copy_type a t then CopyMode else MoveMode) else mode)"

definition borrow_channel_mode :: "pass_mode \<Rightarrow> ty \<Rightarrow> pass_mode option" where
  "borrow_channel_mode mode t =
     (if mode \<in> {BorrowMode, MutBorrowMode} then Some mode
      else (case t of ReferenceTy _ mutable _ \<Rightarrow> Some (if mutable then MutBorrowMode else BorrowMode) | _ \<Rightarrow> None))"

end
