(* ===== verification/Flow.thy ===== *)
theory Flow
  imports Hir "HOL-Library.AList"
begin

text \<open>
  The facts that lowering tracks along the control flow (\<open>compiler/src/codegen/flow.rs\<close>): which leaf
  move paths may be uninitialised, which loans are active, and the scopes of the function.  A hash set
  of places is a set, the map of names is a partial map, and the map of loans, which is iterated over,
  an association list.
\<close>

record place_key =
  pk_local :: local_id
  pk_projections :: "nat list"

definition place_key_of :: "hir_place \<Rightarrow> place_key" where
  "place_key_of p = \<lparr>pk_local = hp_local p, pk_projections = hp_projections p\<rparr>"

datatype initialization_status = InitializedStatus | UninitializedStatus | MaybeUninitializedStatus

datatype loan_kind = SharedLoan | MutableLoan

record loan =
  loan_place :: place_key
  loan_kind_of :: loan_kind

record flow_state =
  flow_reachable :: bool
  uninitialized :: "place_key set list"
  loans :: "(loan_id \<times> loan) list"

definition default_flow :: flow_state where
  "default_flow = \<lparr>flow_reachable = True, uninitialized = [{}], loans = []\<rparr>"

subsection \<open>Alternatives\<close>

definition max_initialization_alternatives :: nat where
  "max_initialization_alternatives = 64"

text \<open>The loop of the normalisation: the alternatives so far, their union, and whether it has widened.\<close>

definition normalize_step ::
    "place_key set \<Rightarrow> place_key set list \<times> place_key set \<times> bool \<Rightarrow> place_key set list \<times> place_key set \<times> bool" where
  "normalize_step alternative acc =
     (case acc of
        (unique, whole, widened) \<Rightarrow>
          (let whole = whole \<union> alternative in
           if widened \<or> alternative \<in> set unique then (unique, whole, widened)
           else
             (let unique = unique @ [alternative] in
              if length unique > max_initialization_alternatives then ([], whole, True) else (unique, whole, False))))"

definition normalize_uninitialized_alternatives :: "place_key set list \<Rightarrow> place_key set list" where
  "normalize_uninitialized_alternatives alternatives =
     (case fold normalize_step alternatives ([], {}, False) of
        (unique, whole, widened) \<Rightarrow>
          if widened then (if whole = {} then [{}] else [{}, whole]) else unique)"

definition join_flows :: "flow_state list \<Rightarrow> flow_state" where
  "join_flows flows =
     (case filter flow_reachable flows of
        [] \<Rightarrow> \<lparr>flow_reachable = False, uninitialized = [], loans = []\<rparr>
      | [only] \<Rightarrow> only
      | reachable \<Rightarrow>
          \<lparr>flow_reachable = True,
           uninitialized = normalize_uninitialized_alternatives (concat (map uninitialized reachable)),
           loans = fold (\<lambda>(lid, l). AList.update lid l) (concat (map loans reachable)) []\<rparr>)"

definition initialization_status :: "flow_state \<Rightarrow> place_key list \<Rightarrow> initialization_status" where
  "initialization_status flow leaves =
     (if \<not> flow_reachable flow then InitializedStatus
      else
        (let unavailable = length (filter (\<lambda>alternative. list_ex (\<lambda>leaf. leaf \<in> alternative) leaves) (uninitialized flow)) in
         if unavailable = 0 then InitializedStatus
         else if unavailable = length (uninitialized flow) then UninitializedStatus
         else MaybeUninitializedStatus))"

definition normalize_uninitialized :: "flow_state \<Rightarrow> flow_state" where
  "normalize_uninitialized flow =
     flow\<lparr>uninitialized :=
       if flow_reachable flow then normalize_uninitialized_alternatives (uninitialized flow) else []\<rparr>"

definition projected_uninitialized_alternatives :: "flow_state \<Rightarrow> local_id \<Rightarrow> place_key set list" where
  "projected_uninitialized_alternatives flow local =
     normalize_uninitialized_alternatives (map (Set.filter (\<lambda>place. pk_local place = local)) (uninitialized flow))"

definition alternative_sets_equal :: "place_key set list \<Rightarrow> place_key set list \<Rightarrow> bool" where
  "alternative_sets_equal left right \<longleftrightarrow>
     length left = length right \<and> list_all (\<lambda>alternative. alternative \<in> set right) left"

definition projection_paths_overlap :: "'a list \<Rightarrow> 'a list \<Rightarrow> bool" where
  "projection_paths_overlap left right \<longleftrightarrow>
     length left \<le> length right \<and> prefix left right \<or> length right \<le> length left \<and> prefix right left"

definition flow_places_overlap :: "place_key \<Rightarrow> place_key \<Rightarrow> bool" where
  "flow_places_overlap left right \<longleftrightarrow>
     pk_local left = pk_local right \<and> projection_paths_overlap (pk_projections left) (pk_projections right)"

subsection \<open>Contexts\<close>

datatype standard_fallible_kind = FallibleOption | FallibleResult

record return_boundary =
  rb_kind :: "standard_fallible_kind option"
  rb_container :: ty
  rb_success :: ty
  rb_error :: "ty option"

record 'e local_info =
  li_id :: local_id
  li_ty :: ty
  li_mutable :: bool
  li_capability :: local_capability
  li_alias :: "hir_place option"
  li_partial :: "partial_info option"
  li_closure :: "'e closure_info option"

record 'e scope_frame =
  scope_names :: "chars \<rightharpoonup> 'e local_info"
  scope_frame_locals :: "local_id list"
  lexical_loans :: "loan_id list"

definition new_scope_frame :: "'e scope_frame" where
  "new_scope_frame = \<lparr>scope_names = Map.empty, scope_frame_locals = [], lexical_loans = []\<rparr>"

record recursive_frame_call =
  rfc_function :: chars
  rfc_captures :: "param_sig list"
  rfc_parameters :: "param_sig list"
  rfc_result :: ty

record loop_frame =
  lf_result_ty :: "ty option"
  unit_only :: bool
  scope_depth :: nat
  break_flows :: "flow_state list"
  continue_flows :: "flow_state list"

record inspection_binding =
  ib_root :: local_id
  ib_path :: "nat list"
  ib_ty :: ty

record 'e lower_ctx =
  scopes :: "'e scope_frame list"
  ctx_flow :: flow_state
  next_local :: local_id
  next_loan :: loan_id
  declared_result :: "ty option"
  ctx_return_boundary :: "return_boundary option"
  returned_types :: "ty list"
  function_name :: "chars option"
  ctx_origin :: item_origin
  type_substitutions :: "chars \<rightharpoonup> source_type"
  loops :: "loop_frame list"
  guard_move_restricted :: "local_id set"
  inspection_bindings :: "local_id \<rightharpoonup> inspection_binding"
  borrowed_parameter_regions :: "local_id \<rightharpoonup> chars option \<times> bool"
  reference_loans :: "local_id \<rightharpoonup> loan_id list"
  reference_value_depth :: nat
  reference_value_access :: "access_kind option"
  unsafe_depth :: nat
  active_failure_error :: "ty option"
  active_custom_effects :: "chars set"
  active_custom_effect_sources :: "chars \<rightharpoonup> source_type"
  lexical_handler_effects :: "chars set"
  lexical_handler_effect_sources :: "chars \<rightharpoonup> source_type"
  infer_effects :: bool
  inferred_unsafety :: bool
  inferred_custom_effects :: "chars set"
  inferred_custom_effect_sources :: "chars \<rightharpoonup> source_type"
  recursive_frame_calls :: "chars \<rightharpoonup> recursive_frame_call"
  source_closures :: "local_id \<rightharpoonup> binding"

definition context_for :: "chars option \<Rightarrow> ty option \<Rightarrow> item_origin \<Rightarrow> 'e lower_ctx" where
  "context_for name result origin =
     \<lparr>scopes = [new_scope_frame], ctx_flow = default_flow, next_local = 0, next_loan = 0,
      declared_result = result, ctx_return_boundary = None, returned_types = [], function_name = name,
      ctx_origin = origin, type_substitutions = Map.empty, loops = [], guard_move_restricted = {},
      inspection_bindings = Map.empty, borrowed_parameter_regions = Map.empty, reference_loans = Map.empty,
      reference_value_depth = 0, reference_value_access = None, unsafe_depth = 0,
      active_failure_error = None, active_custom_effects = {}, active_custom_effect_sources = Map.empty,
      lexical_handler_effects = {}, lexical_handler_effect_sources = Map.empty, infer_effects = False,
      inferred_unsafety = False, inferred_custom_effects = {}, inferred_custom_effect_sources = Map.empty,
      recursive_frame_calls = Map.empty, source_closures = Map.empty\<rparr>"

definition for_function :: "chars \<Rightarrow> ty option \<Rightarrow> item_origin \<Rightarrow> 'e lower_ctx" where
  "for_function name result origin = context_for (Some name) result origin"

definition for_global :: "item_origin \<Rightarrow> 'e lower_ctx" where
  "for_global origin = context_for None None origin"

definition lookup_local :: "('e, 'm) lower_ctx_scheme \<Rightarrow> chars \<Rightarrow> 'e local_info option" where
  "lookup_local c name = find_map (\<lambda>scope. scope_names scope name) (rev (scopes c))"

definition has_type_parameter :: "('e, 'm) lower_ctx_scheme \<Rightarrow> chars \<Rightarrow> bool" where
  "has_type_parameter c name \<longleftrightarrow> type_substitutions c name \<noteq> None"

definition shadows_top_level_name :: "('e, 'm) lower_ctx_scheme \<Rightarrow> chars \<Rightarrow> bool" where
  "shadows_top_level_name c name \<longleftrightarrow> lookup_local c name \<noteq> None \<or> has_type_parameter c name"

definition fresh_local :: "('e, 'm) lower_ctx_scheme \<Rightarrow> local_id \<times> ('e, 'm) lower_ctx_scheme" where
  "fresh_local c = (next_local c, c\<lparr>next_local := next_local c + 1\<rparr>)"

definition push_scope :: "('e, 'm) lower_ctx_scheme \<Rightarrow> ('e, 'm) lower_ctx_scheme" where
  "push_scope c = c\<lparr>scopes := scopes c @ [new_scope_frame]\<rparr>"

subsection \<open>Leaving scopes\<close>

definition remove_loans :: "loan_id list \<Rightarrow> flow_state \<Rightarrow> flow_state" where
  "remove_loans ids flow = flow\<lparr>loans := filter (\<lambda>(lid, _). lid \<notin> set ids) (loans flow)\<rparr>"

definition forget_locals :: "local_id list \<Rightarrow> flow_state \<Rightarrow> flow_state" where
  "forget_locals ids flow =
     flow\<lparr>uninitialized := map (Set.filter (\<lambda>place. pk_local place \<notin> set ids)) (uninitialized flow)\<rparr>"

definition pop_scope :: "('e, 'm) lower_ctx_scheme \<Rightarrow> ('e, 'm) lower_ctx_scheme option" where
  "pop_scope c =
     (if scopes c = [] then None
      else
        (let scope = List.last (scopes c) in
         Some (c\<lparr>scopes := butlast (scopes c),
           ctx_flow :=
             normalize_uninitialized
               (forget_locals (scope_frame_locals scope) (remove_loans (lexical_loans scope) (ctx_flow c)))\<rparr>)))"

text \<open>The parent scope takes over the loans that leave with the value of the block.\<close>

definition preserve_loan ::
    "loan_id list \<Rightarrow> loan_id \<Rightarrow> ('e, 'm) lower_ctx_scheme \<Rightarrow> ('e, 'm) lower_ctx_scheme option" where
  "preserve_loan preserved loan c =
     (if loan \<in> set preserved then
        (if scopes c = [] then None
         else
           (let parent = List.last (scopes c) in
            if loan \<in> set (lexical_loans parent) then Some c
            else
              Some (c\<lparr>scopes :=
                butlast (scopes c) @ [parent\<lparr>lexical_loans := lexical_loans parent @ [loan]\<rparr>]\<rparr>)))
      else Some (c\<lparr>ctx_flow := remove_loans [loan] (ctx_flow c)\<rparr>))"

definition pop_scope_preserving_loans ::
    "loan_id list \<Rightarrow> ('e, 'm) lower_ctx_scheme \<Rightarrow> ('e, 'm) lower_ctx_scheme option" where
  "pop_scope_preserving_loans preserved c =
     (if scopes c = [] then None
      else
        (let scope = List.last (scopes c) in do {
           c \<leftarrow> fold_opt (preserve_loan preserved) (lexical_loans scope) (c\<lparr>scopes := butlast (scopes c)\<rparr>);
           Some (c\<lparr>ctx_flow := normalize_uninitialized (forget_locals (scope_frame_locals scope) (ctx_flow c))\<rparr>) }))"

definition flow_without_current_scope :: "('e, 'm) lower_ctx_scheme \<Rightarrow> flow_state \<Rightarrow> flow_state option" where
  "flow_without_current_scope c flow =
     (if scopes c = [] then None
      else
        (let scope = List.last (scopes c) in
         Some (normalize_uninitialized
           (forget_locals (scope_frame_locals scope) (remove_loans (lexical_loans scope) flow)))))"

definition flow_without_scopes_from :: "('e, 'm) lower_ctx_scheme \<Rightarrow> nat \<Rightarrow> flow_state \<Rightarrow> flow_state option" where
  "flow_without_scopes_from c depth flow =
     (if depth > length (scopes c) then None
      else
        Some (normalize_uninitialized
          (fold (\<lambda>scope flow. forget_locals (scope_frame_locals scope) (remove_loans (lexical_loans scope) flow))
            (List.drop depth (scopes c)) flow)))"

definition outer_local_ids :: "('e, 'm) lower_ctx_scheme \<Rightarrow> local_id set" where
  "outer_local_ids c = set (concat (map scope_frame_locals (scopes c)))"

definition insert_local ::
    "chars \<Rightarrow> 'e local_info \<Rightarrow> ('e, 'm) lower_ctx_scheme \<Rightarrow> (bool \<times> ('e, 'm) lower_ctx_scheme) option" where
  "insert_local name local c =
     (if scopes c = [] then None
      else
        (let scope = List.last (scopes c) in
         if scope_names scope name \<noteq> None then Some (False, c)
         else
           Some (True, c\<lparr>scopes :=
             butlast (scopes c) @
               [scope\<lparr>scope_frame_locals := scope_frame_locals scope @ [li_id local],
                      scope_names := (scope_names scope)(name \<mapsto> local)\<rparr>]\<rparr>)))"

end
