(* ===== verification/Places.thy ===== *)
theory Places
  imports Ownership Flow
begin

text \<open>
  Places (\<open>compiler/src/codegen/places.rs\<close>): lowering of place expressions, and the checks and state
  changes of reads, moves, borrows and assignments.  \<open>None\<close> stands for a call that does not return,
  which only naming a type in a message or counting the leaves of a type can do.
\<close>

type_synonym ('e, 'm, 'n) lowering_state = "'m ownership_analyzer_scheme \<times> ('e, 'n) lower_ctx_scheme"

subsection \<open>Leaf move paths\<close>

text \<open>\<open>usize\<close> holds every \<open>u64\<close> index on the host.\<close>

definition project :: "place_key \<Rightarrow> nat \<Rightarrow> place_key" where
  "project key i = key\<lparr>pk_projections := pk_projections key @ [i]\<rparr>"

partial_function (option) append_leaf_keys ::
    "'m ownership_analyzer_scheme \<Rightarrow> chars set \<Rightarrow> place_key \<Rightarrow> ty \<Rightarrow> place_key list option" where
  [code]: "append_leaf_keys a visiting key t =
     (case t of
        ArrayTy element n \<Rightarrow>
          if n = 0 then Some [key]
          else do {
            leaves \<leftarrow> map_opt (\<lambda>i. append_leaf_keys a visiting (project key i) element) [0..<unat n];
            Some (concat leaves) }
      | StructTy name \<Rightarrow>
          if name \<in> visiting then Some [key]
          else
            (case struct_layouts a name of
               None \<Rightarrow> Some [key]
             | Some layout \<Rightarrow>
                 if sl_fields layout = [] then Some [key]
                 else do {
                   leaves \<leftarrow> map_opt
                     (\<lambda>f. append_leaf_keys a (insert name visiting) (project key (fst f)) (fl_ty (snd f)))
                     (enumerate 0 (sl_fields layout));
                   Some (concat leaves) })
      | _ \<Rightarrow> Some [key])"

definition place_leaf_keys :: "'m ownership_analyzer_scheme \<Rightarrow> hir_place \<Rightarrow> place_key list option" where
  "place_leaf_keys a place = append_leaf_keys a {} (place_key_of place) (hp_ty place)"

subsection \<open>Checks\<close>

definition ensure_available ::
    "hir_place \<Rightarrow> ('e, 'n) lower_ctx_scheme \<Rightarrow> 'm ownership_analyzer_scheme \<Rightarrow> 'm ownership_analyzer_scheme option" where
  "ensure_available place c a =
     (if \<not> flow_reachable (ctx_flow c) then Some a
      else do {
        leaves \<leftarrow> place_leaf_keys a place;
        Some (case initialization_status (ctx_flow c) leaves of
                InitializedStatus \<Rightarrow> a
              | UninitializedStatus \<Rightarrow> report (lit ''use of moved or uninitialized value'') a
              | MaybeUninitializedStatus \<Rightarrow> report (lit ''use of possibly moved or uninitialized value'') a) })"

text \<open>Whether a loan forbids the access; \<open>AutoAccess\<close> is resolved before.\<close>

definition loan_conflicts :: "place_key \<Rightarrow> loan_id option \<Rightarrow> access_kind \<Rightarrow> loan_id \<times> loan \<Rightarrow> bool" where
  "loan_conflicts requested own access entry \<longleftrightarrow>
     (case entry of
        (lid, l) \<Rightarrow>
          Some lid \<noteq> own \<and> flow_places_overlap requested (loan_place l) \<and>
          (case access of
             CopyAccess \<Rightarrow> loan_kind_of l = MutableLoan
           | SharedBorrowAccess \<Rightarrow> loan_kind_of l = MutableLoan
           | _ \<Rightarrow> True))"

definition conflict_message :: "access_kind \<Rightarrow> chars" where
  "conflict_message access =
     (case access of
        CopyAccess \<Rightarrow> lit ''cannot read value while it is mutably borrowed''
      | MoveAccess \<Rightarrow> lit ''cannot move value because it is borrowed''
      | SharedBorrowAccess \<Rightarrow> lit ''cannot borrow value while it is mutably borrowed''
      | _ \<Rightarrow> lit ''cannot create mutable borrow because the value is already borrowed'')"

definition ensure_no_conflicting_loan ::
    "hir_place \<Rightarrow> access_kind \<Rightarrow> ('e, 'n) lower_ctx_scheme \<Rightarrow> 'm ownership_analyzer_scheme \<Rightarrow> 'm ownership_analyzer_scheme" where
  "ensure_no_conflicting_loan place access c a =
     (if flow_reachable (ctx_flow c) \<and>
         list_ex (loan_conflicts (place_key_of place) (hp_loan place) access) (loans (ctx_flow c))
      then report (conflict_message access) a
      else a)"

definition ensure_writable :: "hir_place \<Rightarrow> 'm ownership_analyzer_scheme \<Rightarrow> 'm ownership_analyzer_scheme" where
  "ensure_writable place a =
     (case hp_capability place of
        MutParam \<Rightarrow> a
      | SharedParam \<Rightarrow> report (lit ''cannot assign through a shared borrow'') a
      | Owned \<Rightarrow> if hp_root_mutable place then a else report (lit ''cannot assign to immutable binding'') a)"

subsection \<open>Moves and assignments\<close>

definition update_flow :: "(flow_state \<Rightarrow> flow_state) \<Rightarrow> ('e, 'n) lower_ctx_scheme \<Rightarrow> ('e, 'n) lower_ctx_scheme" where
  "update_flow f c = c\<lparr>ctx_flow := f (ctx_flow c)\<rparr>"

definition flow_moved :: "place_key list \<Rightarrow> flow_state \<Rightarrow> flow_state" where
  "flow_moved leaves flow =
     normalize_uninitialized (flow\<lparr>uninitialized := map (\<lambda>alternative. alternative \<union> set leaves) (uninitialized flow)\<rparr>)"

definition flow_initialized :: "place_key list \<Rightarrow> flow_state \<Rightarrow> flow_state" where
  "flow_initialized leaves flow =
     normalize_uninitialized (flow\<lparr>uninitialized := map (\<lambda>alternative. alternative - set leaves) (uninitialized flow)\<rparr>)"

definition mark_moved ::
    "'m ownership_analyzer_scheme \<Rightarrow> hir_place \<Rightarrow> ('e, 'n) lower_ctx_scheme \<Rightarrow> ('e, 'n) lower_ctx_scheme option" where
  "mark_moved a place c =
     (if \<not> flow_reachable (ctx_flow c) then Some c
      else do {
        leaves \<leftarrow> place_leaf_keys a place;
        Some (update_flow (flow_moved leaves) c) })"

definition assignment_of :: "place_key list \<Rightarrow> place_key set list \<Rightarrow> assignment_kind" where
  "assignment_of leaves alternatives =
     (let missing = (\<lambda>alternative. length (filter (\<lambda>leaf. leaf \<in> alternative) leaves));
          overwrite = list_ex (\<lambda>alternative. missing alternative = 0) alternatives;
          initialize = list_ex (\<lambda>alternative. missing alternative \<noteq> 0 \<and> missing alternative = length leaves) alternatives;
          partial = list_ex (\<lambda>alternative. missing alternative \<noteq> 0 \<and> missing alternative \<noteq> length leaves) alternatives
      in if overwrite \<and> \<not> initialize \<and> \<not> partial then OverwriteAssign
         else if \<not> overwrite \<and> initialize \<and> \<not> partial then InitializeAssign
         else MaybeOverwriteAssign)"

definition mark_initialized ::
    "'m ownership_analyzer_scheme \<Rightarrow> hir_place \<Rightarrow> ('e, 'n) lower_ctx_scheme \<Rightarrow>
     (assignment_kind \<times> ('e, 'n) lower_ctx_scheme) option" where
  "mark_initialized a place c =
     (if \<not> flow_reachable (ctx_flow c) then Some (OverwriteAssign, c)
      else do {
        leaves \<leftarrow> place_leaf_keys a place;
        Some (assignment_of leaves (uninitialized (ctx_flow c)), update_flow (flow_initialized leaves) c) })"

text \<open>A read or a move of a place; the result is the type, the place and the kind of the read.\<close>

definition resolve_access :: "'m ownership_analyzer_scheme \<Rightarrow> ty \<Rightarrow> access_kind \<Rightarrow> access_kind" where
  "resolve_access a t requested =
     (if requested = AutoAccess then (if is_copy_type a t then CopyAccess else MoveAccess) else requested)"

definition move_error :: "hir_place \<Rightarrow> ('e, 'n) lower_ctx_scheme \<Rightarrow> 'm ownership_analyzer_scheme \<Rightarrow> chars option" where
  "move_error place c a =
     (if hp_capability place \<noteq> Owned then Some (lit ''cannot move out of a borrowed value'')
      else if projected_place_crosses_custom_drop a place then
        Some (lit ''moving a field out through a type with custom droppable is not allowed because its destructor requires a complete value'')
      else if hp_local place \<in> guard_move_restricted c \<and> \<not> is_copy_type a (hp_ty place) then
        Some (lit ''cannot move a non-copyable pattern binding in a match guard'')
      else None)"

definition access_place ::
    "(code_point \<Rightarrow> bool) \<Rightarrow> hir_place \<Rightarrow> access_kind \<Rightarrow> ('e, 'm, 'n) lowering_state \<Rightarrow>
     ((ty \<times> hir_place \<times> hir_read_kind) \<times> ('e, 'm, 'n) lowering_state) option" where
  "access_place up place requested s =
     (case s of
        (a, c) \<Rightarrow>
          (let access = resolve_access a (hp_ty place) requested in do {
             a \<leftarrow> ensure_available place c a;
             (let a = ensure_no_conflicting_loan place access c a in
              case access of
                CopyAccess \<Rightarrow>
                  if is_copy_type a (hp_ty place) then Some ((hp_ty place, place, CopyRead), (a, c))
                  else do {
                    shown \<leftarrow> diagnostic_type_name up a (hp_ty place);
                    Some ((hp_ty place, place, CopyRead),
                      (report (lit ''type `'' @ shown @ lit ''` does not implement copyable and cannot be copied'') a, c)) }
              | MoveAccess \<Rightarrow> do {
                  moves \<leftarrow> is_move_type a (hp_ty place);
                  if \<not> moves then do {
                    shown \<leftarrow> diagnostic_type_name up a (hp_ty place);
                    Some ((hp_ty place, place, MoveRead),
                      (report (lit ''type `'' @ shown @ lit ''` does not implement movable and cannot be relocated'') a, c)) }
                  else
                    (case move_error place c a of
                       Some m \<Rightarrow> Some ((hp_ty place, place, MoveRead), (report m a, c))
                     | None \<Rightarrow> do {
                         c \<leftarrow> mark_moved a place c;
                         Some ((hp_ty place, place, MoveRead), (a, c)) }) }
              | _ \<Rightarrow> None) }))"

subsection \<open>Loans\<close>

definition loan_access :: "loan_kind \<Rightarrow> access_kind" where
  "loan_access kind = (case kind of SharedLoan \<Rightarrow> SharedBorrowAccess | MutableLoan \<Rightarrow> MutBorrowAccess)"

definition push_lexical_loan :: "loan_id \<Rightarrow> ('e, 'n) lower_ctx_scheme \<Rightarrow> ('e, 'n) lower_ctx_scheme option" where
  "push_lexical_loan lid c =
     (if scopes c = [] then None
      else
        (let scope = List.last (scopes c) in
         Some (c\<lparr>scopes := butlast (scopes c) @ [scope\<lparr>lexical_loans := lexical_loans scope @ [lid]\<rparr>]\<rparr>)))"

definition acquire_loan ::
    "hir_place \<Rightarrow> loan_kind \<Rightarrow> bool \<Rightarrow> ('e, 'm, 'n) lowering_state \<Rightarrow>
     (loan_id option \<times> ('e, 'm, 'n) lowering_state) option" where
  "acquire_loan place kind lexical s =
     (case s of
        (a, c) \<Rightarrow> do {
          a' \<leftarrow> ensure_available place c a;
          (let a' = ensure_no_conflicting_loan place (loan_access kind) c a' in
           if length (diagnostics a') \<noteq> length (diagnostics a) \<or> \<not> flow_reachable (ctx_flow c)
           then Some (None, (a', c))
           else
             (let lid = next_loan c;
                  l = \<lparr>loan_place = place_key_of place, loan_kind_of = kind\<rparr>;
                  c = update_flow (\<lambda>flow. flow\<lparr>loans := AList.update lid l (loans flow)\<rparr>) (c\<lparr>next_loan := lid + 1\<rparr>)
              in do {
                c \<leftarrow> (if lexical then push_lexical_loan lid c else Some c);
                Some (Some lid, (a', c)) })) })"

definition release_loans :: "loan_id list \<Rightarrow> ('e, 'n) lower_ctx_scheme \<Rightarrow> ('e, 'n) lower_ctx_scheme" where
  "release_loans ids c = update_flow (remove_loans ids) c"

end
