(* ===== verification/Place_Lowering.thy ===== *)
theory Place_Lowering
  imports Places
begin

text \<open>
  The lowering of place expressions (\<open>lower_place\<close> and \<open>lower_place_without_diagnostic\<close> of
  \<open>compiler/src/codegen/places.rs\<close>) with \<open>integer_literal_value\<close> of \<open>lower.rs\<close>.  The instantiation of
  the array extensions of a type is the argument \<open>extensions\<close>; whether a name is a global is \<open>global\<close>.
\<close>

lemma size_unlocated: "size (unlocated e) \<le> size e"
  by (induction e rule: unlocated.induct) simp_all

lemma unlocated_tail: "unlocated e = Block statements (Some t) \<Longrightarrow> size t < size e"
  using size_unlocated [of e] by simp

lemma unlocated_body: "unlocated e = DoBlock b \<Longrightarrow> size b < size e"
  using size_unlocated [of e] by simp

text \<open>\<open>u128\<close> literals above \<open>i128::MAX\<close> are only accepted as the operand of the negation of \<open>i128::MIN\<close>.\<close>

function integer_literal_value :: "expr \<Rightarrow> int option" where
  "integer_literal_value e =
     (case unlocated e of
        IntegerExpr v \<Rightarrow> if uint v < 2 ^ 127 then Some (uint v) else None
      | UnaryExpr operator operand \<Rightarrow>
          (case (operator, operand) of
             (NegOp, IntegerExpr v) \<Rightarrow> if uint v \<le> 2 ^ 127 then Some (- uint v) else None
           | _ \<Rightarrow> None)
      | Block statements (Some tail) \<Rightarrow> if statements = [] then integer_literal_value tail else None
      | DoBlock body \<Rightarrow> integer_literal_value body
      | _ \<Rightarrow> None)"
  by pat_completeness auto

termination
  by (relation "measure size") (auto dest: unlocated_tail unlocated_body)

declare integer_literal_value.simps [simp del]

definition signed_decimal :: "int \<Rightarrow> chars" where
  "signed_decimal v = (if v < 0 then ch CHR ''-'' # decimal (- v) else decimal v)"

definition dynamic_place_error :: chars where
  "dynamic_place_error =
     lit ''array place index must be a compile-time integer literal; dynamic indexes are read-only for now''"

text \<open>Looking through a pointer or a reference of a local.\<close>

definition reborrowed :: "local_id \<Rightarrow> ty \<Rightarrow> bool \<Rightarrow> hir_place" where
  "reborrowed local pointee mutable =
     \<lparr>hp_local = local, hp_root_ty = pointee, hp_projections = [], hp_dynamic_index = None, hp_ty = pointee,
      hp_capability = (if mutable then MutParam else SharedParam), hp_root_mutable = mutable, hp_loan = None,
      hp_indirect = True\<rparr>"

definition place_of_local :: "'e local_info \<Rightarrow> hir_place" where
  "place_of_local local =
     (case li_alias local of
        Some alias \<Rightarrow>
          (case li_ty local of
             ReferenceTy _ mutable _ \<Rightarrow>
               alias\<lparr>hp_capability := if mutable then MutParam else SharedParam, hp_root_mutable := mutable\<rparr>
           | _ \<Rightarrow> alias)
      | None \<Rightarrow>
          (case li_ty local of
             ReferenceTy pointee mutable _ \<Rightarrow> reborrowed (li_id local) pointee mutable
           | t \<Rightarrow>
               \<lparr>hp_local = li_id local, hp_root_ty = t, hp_projections = [], hp_dynamic_index = None, hp_ty = t,
                hp_capability = li_capability local, hp_root_mutable = li_mutable local, hp_loan = None,
                hp_indirect = False\<rparr>))"

type_synonym 'm lowered_place = "(hir_place option \<times> 'm ownership_analyzer_scheme) option"

definition no_place :: "chars \<Rightarrow> 'm ownership_analyzer_scheme \<Rightarrow> 'm lowered_place" where
  "no_place m a = Some (None, report m a)"

definition extend_place :: "nat \<Rightarrow> ty \<Rightarrow> hir_place \<Rightarrow> hir_place" where
  "extend_place i t place = place\<lparr>hp_projections := hp_projections place @ [i], hp_ty := t\<rparr>"

definition lower_name_place ::
    "(chars \<Rightarrow> bool) \<Rightarrow> ('e, 'n) lower_ctx_scheme \<Rightarrow> chars \<Rightarrow> 'm ownership_analyzer_scheme \<Rightarrow> 'm lowered_place" where
  "lower_name_place global c name a =
     (case lookup_local c name of
        Some local \<Rightarrow> Some (Some (place_of_local local), a)
      | None \<Rightarrow>
          no_place
            (if has_type_parameter c name then lit ''type parameter `'' @ name @ lit ''` is not a data place''
             else if global name then lit ''global constant `'' @ name @ lit ''` is not a borrowable place''
             else lit ''unknown local `'' @ name @ lit ''` in place expression'') a)"

definition lower_deref_place ::
    "(code_point \<Rightarrow> bool) \<Rightarrow> ('e, 'n) lower_ctx_scheme \<Rightarrow> expr \<Rightarrow> 'm ownership_analyzer_scheme \<Rightarrow> 'm lowered_place" where
  "lower_deref_place up c operand a =
     (case operand of
        NameExpr name \<Rightarrow>
          (case lookup_local c name of
             None \<Rightarrow> no_place (lit ''unknown local `'' @ name @ lit ''` in raw pointer place'') a
           | Some local \<Rightarrow>
               if unsafe_depth c = 0 then no_place (lit ''raw pointer dereference requires an `unsafe` block'') a
               else
                 (case li_ty local of
                    PointerTy pointee mutable \<Rightarrow> Some (Some (reborrowed (li_id local) pointee mutable), a)
                  | t \<Rightarrow> no_place (lit ''unary `*` requires a raw pointer, found `'' @ show_ty up t @ lit ''`'') a))
      | _ \<Rightarrow> no_place (lit ''raw pointer place requires a local pointer'') a)"

definition lower_tuple_place :: "hir_place \<Rightarrow> ty list \<Rightarrow> chars \<Rightarrow> 'm ownership_analyzer_scheme \<Rightarrow> 'm lowered_place" where
  "lower_tuple_place place fs member a =
     (case parse_u64 member of
        None \<Rightarrow> no_place (lit ''tuple projection requires a decimal index, found `'' @ member @ lit ''`'') a
      | Some index \<Rightarrow>
          (case nth_opt fs (nat index) of
             None \<Rightarrow>
               no_place (lit ''tuple index '' @ decimal index @ lit '' is out of bounds for tuple of length '' @
                 show_nat (length fs)) a
           | Some t \<Rightarrow>
               if hp_dynamic_index place \<noteq> None then
                 no_place (lit ''tuple projection after a dynamic indexed place is not supported'') a
               else Some (Some (extend_place (nat index) t place), a)))"

definition find_field :: "chars \<Rightarrow> field_layout list \<Rightarrow> (nat \<times> field_layout) option" where
  "find_field name fs = List.find (\<lambda>(_, f). fl_name f = name) (enumerate 0 fs)"

definition lower_field_place ::
    "(code_point \<Rightarrow> bool) \<Rightarrow> ('e, 'n) lower_ctx_scheme \<Rightarrow> hir_place \<Rightarrow> chars \<Rightarrow> 'm ownership_analyzer_scheme \<Rightarrow>
     'm lowered_place" where
  "lower_field_place up c place member a =
     (case hp_ty place of
        StructTy owner \<Rightarrow>
          (case struct_layout_or_diagnostic owner a of
             (None, a) \<Rightarrow> Some (None, a)
           | (Some layout, a) \<Rightarrow>
               (case find_field member (sl_fields layout) of
                  None \<Rightarrow> no_place (lit ''unknown field `'' @ member @ lit ''` on struct `'' @ owner @ lit ''`'') a
                | Some (index, f) \<Rightarrow>
                    (case require_field_access owner (fl_name f) (fl_access f) (ctx_origin c) a of
                       (accessible, a) \<Rightarrow>
                         if \<not> accessible then Some (None, a)
                         else if hp_dynamic_index place \<noteq> None then
                           no_place (lit ''field projection after a dynamic indexed place is not supported'') a
                         else Some (Some (extend_place index (fl_ty f) place), a))))
      | t \<Rightarrow> 
          no_place (lit ''field `'' @ member @ lit ''` cannot be selected on value of type `'' @ show_ty up t @ lit ''`'') a)"

definition require_same_type ::
    "(code_point \<Rightarrow> bool) \<Rightarrow> ty \<Rightarrow> ty \<Rightarrow> chars \<Rightarrow> 'm layout_analyzer_scheme \<Rightarrow> 'm layout_analyzer_scheme option" where
  "require_same_type up actual expected subject a =
     (if type_is_assignable actual expected \<or> is_uninhabited_type a actual \<or> actual = ErrorTy \<or> expected = ErrorTy
      then Some a
      else do {
        shown_expected \<leftarrow> diagnostic_type_name up a expected;
        shown_actual \<leftarrow> diagnostic_type_name up a actual;
        Some (report (lit ''type mismatch for '' @ subject @ lit '': expected `'' @ shown_expected @ lit ''`, found `'' @
          shown_actual @ lit ''`'') a) })"

text \<open>A dynamic index is only accepted for the staged index of a handler.\<close>

definition lower_dynamic_index ::
    "(code_point \<Rightarrow> bool) \<Rightarrow> ('e, 'n) lower_ctx_scheme \<Rightarrow> hir_place \<Rightarrow> ty \<Rightarrow> u64 \<Rightarrow> expr \<Rightarrow>
     'm ownership_analyzer_scheme \<Rightarrow> 'm lowered_place" where
  "lower_dynamic_index up c place element n index a =
     (case index of
        NameExpr index_name \<Rightarrow>
          if strip_prefix (lit ''$handler$index$'') index_name = None then no_place dynamic_place_error a
          else if hp_dynamic_index place \<noteq> None then no_place (lit ''nested dynamic indexed places are not supported'') a
          else
            (case lookup_local c index_name of
               None \<Rightarrow> no_place (lit ''internal staged handler index is unavailable'') a
             | Some local \<Rightarrow> do {
                 a \<leftarrow> require_same_type up (li_ty local) (IntTy USize) (lit ''array index'') a;
                 if \<not> is_copy_type a element then do {
                   shown \<leftarrow> diagnostic_type_name up a element;
                   no_place (lit ''dynamic indexed borrows require copyable elements, found `'' @ shown @ lit ''`'') a }
                 else
                   Some (Some (place\<lparr>hp_dynamic_index :=
                       Some \<lparr>di_local = li_id local, di_length = n, di_array_ty = hp_ty place\<rparr>, hp_ty := element\<rparr>), a) })
      | _ \<Rightarrow> no_place dynamic_place_error a)"

definition lower_static_index ::
    "hir_place \<Rightarrow> ty \<Rightarrow> u64 \<Rightarrow> int \<Rightarrow> 'm ownership_analyzer_scheme \<Rightarrow> 'm lowered_place" where
  "lower_static_index place element n index a =
     (if hp_dynamic_index place \<noteq> None then
        no_place (lit ''constant projection after a dynamic indexed place is not supported'') a
      else if index < 0 \<or> index \<ge> 2 ^ 64 \<or> index \<ge> uint n then
        no_place (lit ''array index '' @ signed_decimal index @ lit '' is out of bounds for length '' @ decimal (uint n)) a
      else Some (Some (extend_place (nat index) element place), a))"

definition lower_index_place ::
    "(code_point \<Rightarrow> bool) \<Rightarrow> (ty \<Rightarrow> 'm ownership_analyzer_scheme \<Rightarrow> 'm ownership_analyzer_scheme) \<Rightarrow>
     ('e, 'n) lower_ctx_scheme \<Rightarrow> hir_place \<Rightarrow> expr \<Rightarrow> 'm ownership_analyzer_scheme \<Rightarrow> 'm lowered_place" where
  "lower_index_place up extensions c place index a =
     (let a = extensions (hp_ty place) a in
      case hp_ty place of
        ArrayTy element n \<Rightarrow>
          (case integer_literal_value index of
             None \<Rightarrow> lower_dynamic_index up c place element n index a
           | Some v \<Rightarrow> lower_static_index place element n v a)
      | t \<Rightarrow> no_place (lit ''array index place requires an array value, found `'' @ show_ty up t @ lit ''`'') a)"

text \<open>\<open>?\<close> on the place of the base.\<close>

definition on_place ::
    "'m lowered_place \<Rightarrow> (hir_place \<Rightarrow> 'm ownership_analyzer_scheme \<Rightarrow> 'm lowered_place) \<Rightarrow> 'm lowered_place" where
  "on_place r k =
     (case r of
        None \<Rightarrow> None
      | Some (None, a) \<Rightarrow> Some (None, a)
      | Some (Some place, a) \<Rightarrow> k place a)"

fun lower_place ::
    "(code_point \<Rightarrow> bool) \<Rightarrow> (ty \<Rightarrow> 'm ownership_analyzer_scheme \<Rightarrow> 'm ownership_analyzer_scheme) \<Rightarrow> (chars \<Rightarrow> bool) \<Rightarrow>
     ('e, 'n) lower_ctx_scheme \<Rightarrow> expr \<Rightarrow> 'm ownership_analyzer_scheme \<Rightarrow> 'm lowered_place" where
  "lower_place up extensions global c (NameExpr name) a = lower_name_place global c name a"
| "lower_place up extensions global c (UnaryExpr DerefOp operand) a = lower_deref_place up c operand a"
| "lower_place up extensions global c (Member base member) a =
     on_place (lower_place up extensions global c base a)
       (\<lambda>place a.
          case hp_ty place of
            TupleTy fs \<Rightarrow> lower_tuple_place place fs member a
          | _ \<Rightarrow> lower_field_place up c place member a)"
| "lower_place up extensions global c (IndexExpr base index) a =
     on_place (lower_place up extensions global c base a) (\<lambda>place a. lower_index_place up extensions c place index a)"
| "lower_place up extensions global c e a = no_place (lit ''expression is not a local place'') a"

text \<open>The same for the expressions that name a place: other expressions are no place, without a message.\<close>

definition names_local :: "('e, 'n) lower_ctx_scheme \<Rightarrow> expr \<Rightarrow> bool" where
  "names_local c e = (case e of NameExpr name \<Rightarrow> lookup_local c name \<noteq> None | _ \<Rightarrow> False)"

definition names_index :: "expr \<Rightarrow> bool" where
  "names_index index =
     (integer_literal_value index \<noteq> None \<or>
      (case index of NameExpr name \<Rightarrow> strip_prefix (lit ''$handler$index$'') name \<noteq> None | _ \<Rightarrow> False))"

fun lower_place_without_diagnostic ::
    "(code_point \<Rightarrow> bool) \<Rightarrow> (ty \<Rightarrow> 'm ownership_analyzer_scheme \<Rightarrow> 'm ownership_analyzer_scheme) \<Rightarrow> (chars \<Rightarrow> bool) \<Rightarrow>
     ('e, 'n) lower_ctx_scheme \<Rightarrow> expr \<Rightarrow> 'm ownership_analyzer_scheme \<Rightarrow> 'm lowered_place" where
  "lower_place_without_diagnostic up extensions global c (NameExpr name) a =
     (if names_local c (NameExpr name) then lower_place up extensions global c (NameExpr name) a else Some (None, a))"
| "lower_place_without_diagnostic up extensions global c (UnaryExpr operator operand) a =
     (if operator = DerefOp \<and> names_local c operand
      then lower_place up extensions global c (UnaryExpr operator operand) a else Some (None, a))"
| "lower_place_without_diagnostic up extensions global c (Member base member) a =
     on_place (lower_place_without_diagnostic up extensions global c base a)
       (\<lambda>_ a. lower_place up extensions global c (Member base member) a)"
| "lower_place_without_diagnostic up extensions global c (IndexExpr base index) a =
     (if names_index index then
        on_place (lower_place_without_diagnostic up extensions global c base a)
          (\<lambda>_ a. lower_place up extensions global c (IndexExpr base index) a)
      else Some (None, a))"
| "lower_place_without_diagnostic up extensions global c e a = Some (None, a)"

end
