(* ===== verification/Flow_Properties.thy ===== *)
theory Flow_Properties
  imports Places
begin

text \<open>
  What the alternatives of a flow mean.  A concrete state of the analysed function is the set of leaf
  paths without a value; a flow stands for a set of them.  The contract that the checks of lowering rely
  on is the locale \<open>flow_domain\<close>; it is interpreted by the upper bound that the use check needs and by
  the two-sided bound that also makes the answers about uninitialised places sound.
\<close>

subsection \<open>Normal forms\<close>

lemma normalize_step_spec:
  assumes "fold normalize_step alternatives ([], {}, False) = (unique, whole, widened)"
  shows "whole = \<Union>(set alternatives) \<and>
    (if widened then max_initialization_alternatives < card (set alternatives)
     else distinct unique \<and> set unique = set alternatives \<and> length unique \<le> max_initialization_alternatives)"
  using assms
proof (induction alternatives arbitrary: unique whole widened rule: rev_induct)
  case (snoc alternative alternatives)
  obtain u w wd where run: "fold normalize_step alternatives ([], {}, False) = (u, w, wd)"
    by (cases "fold normalize_step alternatives ([], {}, False)")
  note IH = snoc.IH [OF run]
  have last: "normalize_step alternative (u, w, wd) = (unique, whole, widened)"
    using snoc.prems run by simp
  have more: "card (set alternatives) \<le> card (insert alternative (set alternatives))"
    by (simp add: card_insert_le)
  show ?case
  proof (cases wd)
    case True
    then show ?thesis using IH last more by (auto simp: normalize_step_def)
  next
    case False
    then have card: "card (set alternatives) = length u" using IH by (metis distinct_card)
    show ?thesis
    proof (cases "alternative \<in> set u")
      case True
      then show ?thesis using IH last False by (auto simp: normalize_step_def insert_absorb)
    next
      case fresh: False
      then have "alternative \<notin> set alternatives" using IH False by simp
      then have "card (insert alternative (set alternatives)) = Suc (length u)" using card by simp
      moreover have "(unique, whole, widened) =
          (if Suc (length u) > max_initialization_alternatives then ([], w \<union> alternative, True)
           else (u @ [alternative], w \<union> alternative, False))"
        using last False fresh by (simp add: normalize_step_def Let_def)
      ultimately show ?thesis
        using IH False fresh by (simp add: Un_commute split: if_splits)
    qed
  qed
qed simp

lemma normalize_cases:
  obtains (exact) "distinct (normalize_uninitialized_alternatives alternatives)"
      "set (normalize_uninitialized_alternatives alternatives) = set alternatives"
  | (widened) "max_initialization_alternatives < card (set alternatives)"
      "set (normalize_uninitialized_alternatives alternatives) = {{}, \<Union>(set alternatives)}"
      "distinct (normalize_uninitialized_alternatives alternatives)"
proof -
  obtain u w wd where run: "fold normalize_step alternatives ([], {}, False) = (u, w, wd)"
    by (cases "fold normalize_step alternatives ([], {}, False)")
  note spec = normalize_step_spec [OF run]
  show ?thesis
  proof (cases wd)
    case True
    then show ?thesis
      using spec run by (intro widened) (auto simp: normalize_uninitialized_alternatives_def)
  next
    case False
    then show ?thesis
      using spec run by (intro exact) (auto simp: normalize_uninitialized_alternatives_def)
  qed
qed

lemma distinct_normalize: "distinct (normalize_uninitialized_alternatives alternatives)"
  by (cases alternatives rule: normalize_cases) auto

lemma Union_normalize [simp]: "\<Union>(set (normalize_uninitialized_alternatives alternatives)) = \<Union>(set alternatives)"
  by (cases alternatives rule: normalize_cases) auto

lemma normalize_below:
  "alternative \<in> set alternatives \<Longrightarrow> \<exists>n \<in> set (normalize_uninitialized_alternatives alternatives). n \<subseteq> alternative"
  by (cases alternatives rule: normalize_cases) auto

lemma normalize_few:
  "card (set alternatives) \<le> max_initialization_alternatives \<Longrightarrow>
   set (normalize_uninitialized_alternatives alternatives) = set alternatives"
  by (cases alternatives rule: normalize_cases) auto

lemma equal_alternatives:
  assumes "alternative_sets_equal (normalize_uninitialized_alternatives xs) (normalize_uninitialized_alternatives ys)"
  shows "set (normalize_uninitialized_alternatives xs) = set (normalize_uninitialized_alternatives ys)"
proof (rule card_subset_eq)
  show "set (normalize_uninitialized_alternatives xs) \<subseteq> set (normalize_uninitialized_alternatives ys)"
    using assms by (auto simp: alternative_sets_equal_def list_all_iff)
  show "card (set (normalize_uninitialized_alternatives xs)) = card (set (normalize_uninitialized_alternatives ys))"
    using assms by (simp add: alternative_sets_equal_def distinct_card distinct_normalize)
qed simp

subsection \<open>Flows as sets of states\<close>

definition unavailable_upto :: "flow_state \<Rightarrow> place_key set" where
  "unavailable_upto f = \<Union>(set (uninitialized f))"

text \<open>At most the paths of the alternatives are uninitialised; and all those of some alternative are.\<close>

definition states_upto :: "flow_state \<Rightarrow> place_key set set" where
  "states_upto f = {u. flow_reachable f \<and> uninitialized f \<noteq> [] \<and> u \<subseteq> unavailable_upto f}"

definition states_of :: "flow_state \<Rightarrow> place_key set set" where
  "states_of f = {u \<in> states_upto f. \<exists>alternative \<in> set (uninitialized f). alternative \<subseteq> u}"

definition forget :: "local_id set \<Rightarrow> place_key set \<Rightarrow> place_key set" where
  "forget ids u = {place \<in> u. pk_local place \<notin> ids}"

lemma unavailable_flow_moved:
  "flow_reachable f \<Longrightarrow> uninitialized f \<noteq> [] \<Longrightarrow> unavailable_upto (flow_moved leaves f) = unavailable_upto f \<union> set leaves"
  by (cases "uninitialized f") (auto simp: unavailable_upto_def flow_moved_def normalize_uninitialized_def)

lemma unavailable_flow_initialized:
  "flow_reachable f \<Longrightarrow> unavailable_upto (flow_initialized leaves f) = unavailable_upto f - set leaves"
  by (auto simp: unavailable_upto_def flow_initialized_def normalize_uninitialized_def)

lemma unavailable_forget:
  "unavailable_upto (forget_locals ids f) = forget (set ids) (unavailable_upto f)"
  by (auto simp: unavailable_upto_def forget_locals_def forget_def)

lemma status_initialized:
  "flow_reachable f \<Longrightarrow>
   initialization_status f leaves = InitializedStatus \<longleftrightarrow> set leaves \<inter> unavailable_upto f = {}"
  by (auto simp: initialization_status_def unavailable_upto_def Let_def filter_empty_conv list_ex_iff)

lemma status_uninitialized:
  assumes "flow_reachable f" "initialization_status f leaves = UninitializedStatus"
    and "alternative \<in> set (uninitialized f)"
  shows "set leaves \<inter> alternative \<noteq> {}"
proof
  assume "set leaves \<inter> alternative = {}"
  then have "\<not> list_ex (\<lambda>leaf. leaf \<in> alternative) leaves" by (auto simp: list_ex_iff)
  then have "length (filter (\<lambda>alternative. list_ex (\<lambda>leaf. leaf \<in> alternative) leaves) (uninitialized f)) <
      length (uninitialized f)"
    by (rule length_filter_less [OF assms(3)])
  then show False using assms(1, 2) by (simp add: initialization_status_def Let_def split: if_splits)
qed

lemma normalize_nonempty [simp]:
  "normalize_uninitialized_alternatives alternatives = [] \<longleftrightarrow> alternatives = []"
proof (cases alternatives rule: normalize_cases)
  case exact
  then show ?thesis by (metis set_empty)
next
  case widened
  then have "set (normalize_uninitialized_alternatives alternatives) \<noteq> {}" "alternatives \<noteq> []" by auto
  then show ?thesis by simp
qed

lemma join_flows_cases:
  assumes "f \<in> set flows" "flow_reachable f"
  obtains (single) "join_flows flows = f"
  | (several) reachable where "f \<in> set reachable" "flow_reachable (join_flows flows)"
      "uninitialized (join_flows flows) = normalize_uninitialized_alternatives (concat (map uninitialized reachable))"
proof -
  have f: "f \<in> set (filter flow_reachable flows)" using assms by simp
  then consider "filter flow_reachable flows = [f]"
    | x y ys where "filter flow_reachable flows = x # y # ys" by (cases "filter flow_reachable flows" rule: remdups_adj.cases) auto
  then show ?thesis
  proof cases
    case 1
    then show ?thesis by (intro single) (simp add: join_flows_def)
  next
    case 2
    then show ?thesis using f by (intro several [of "x # y # ys"]) (simp_all add: join_flows_def)
  qed
qed

locale flow_domain =
  fixes states :: "flow_state \<Rightarrow> place_key set set"
  assumes reachable: "u \<in> states f \<Longrightarrow> flow_reachable f"
    and available: "u \<in> states f \<Longrightarrow> initialization_status f leaves = InitializedStatus \<Longrightarrow> set leaves \<inter> u = {}"
    and moved: "u \<in> states f \<Longrightarrow> u \<union> set leaves \<in> states (flow_moved leaves f)"
    and initialized: "u \<in> states f \<Longrightarrow> u - set leaves \<in> states (flow_initialized leaves f)"
    and joined: "u \<in> states f \<Longrightarrow> f \<in> set flows \<Longrightarrow> u \<in> states (join_flows flows)"
    and forgotten: "u \<in> states f \<Longrightarrow> forget (set ids) u \<in> states (forget_locals ids f)"
    and normalized: "u \<in> states f \<Longrightarrow> u \<in> states (normalize_uninitialized f)"
    and other_facts: "states (f\<lparr>loans := ls\<rparr>) = states f"
begin

text \<open>Leaving scopes forgets their locals.\<close>

definition leave_frames :: "('e, 'n) scope_frame_scheme list \<Rightarrow> flow_state \<Rightarrow> flow_state" where
  "leave_frames frames f =
     fold (\<lambda>scope f. forget_locals (scope_frame_locals scope) (remove_loans (lexical_loans scope) f)) frames f"

lemma left_frames:
  "u \<in> states f \<Longrightarrow> forget (\<Union>scope \<in> set frames. set (scope_frame_locals scope)) u \<in> states (leave_frames frames f)"
proof (induction frames arbitrary: f u)
  case Nil
  then show ?case by (simp add: leave_frames_def forget_def)
next
  case (Cons scope frames)
  have "forget (set (scope_frame_locals scope)) u \<in>
      states (forget_locals (scope_frame_locals scope) (remove_loans (lexical_loans scope) f))"
    using Cons.prems by (intro forgotten) (simp add: remove_loans_def other_facts)
  from Cons.IH [OF this]
  have "forget (\<Union>scope \<in> set frames. set (scope_frame_locals scope)) (forget (set (scope_frame_locals scope)) u)
      \<in> states (leave_frames (scope # frames) f)"
    by (simp add: leave_frames_def)
  moreover have "forget (\<Union>scope \<in> set frames. set (scope_frame_locals scope)) (forget (set (scope_frame_locals scope)) u) =
      forget (\<Union>scope \<in> set (scope # frames). set (scope_frame_locals scope)) u"
    by (auto simp: forget_def)
  ultimately show ?case by simp
qed

lemma left_scopes:
  assumes "u \<in> states f" "flow_without_scopes_from c depth f = Some f'"
  shows "forget (\<Union>scope \<in> set (List.drop depth (scopes c)). set (scope_frame_locals scope)) u \<in> states f'"
  using assms(2) left_frames [OF assms(1), of "List.drop depth (scopes c)"]
  by (auto simp: flow_without_scopes_from_def leave_frames_def intro: normalized split: if_splits)

end

lemma states_upto_iff:
  "u \<in> states_upto f \<longleftrightarrow> flow_reachable f \<and> uninitialized f \<noteq> [] \<and> u \<subseteq> unavailable_upto f"
  by (simp add: states_upto_def)

lemma states_of_iff:
  "u \<in> states_of f \<longleftrightarrow> flow_reachable f \<and> u \<subseteq> unavailable_upto f \<and> (\<exists>alternative \<in> set (uninitialized f). alternative \<subseteq> u)"
  by (auto simp: states_of_def states_upto_iff)

lemma reachable_ops [simp]:
  "flow_reachable (flow_moved leaves f) = flow_reachable f"
  "flow_reachable (flow_initialized leaves f) = flow_reachable f"
  "flow_reachable (forget_locals ids f) = flow_reachable f"
  "flow_reachable (normalize_uninitialized f) = flow_reachable f"
  by (simp_all add: flow_moved_def flow_initialized_def forget_locals_def normalize_uninitialized_def)

lemma uninitialized_ops:
  "flow_reachable f \<Longrightarrow> uninitialized (flow_moved leaves f) =
     normalize_uninitialized_alternatives (map (\<lambda>alternative. alternative \<union> set leaves) (uninitialized f))"
  "flow_reachable f \<Longrightarrow> uninitialized (flow_initialized leaves f) =
     normalize_uninitialized_alternatives (map (\<lambda>alternative. alternative - set leaves) (uninitialized f))"
  "flow_reachable f \<Longrightarrow> uninitialized (normalize_uninitialized f) = normalize_uninitialized_alternatives (uninitialized f)"
  "uninitialized (forget_locals ids f) = map (Set.filter (\<lambda>place. pk_local place \<notin> set ids)) (uninitialized f)"
  by (simp_all add: flow_moved_def flow_initialized_def forget_locals_def normalize_uninitialized_def)

lemma unavailable_join:
  assumes "f \<in> set flows" "flow_reachable f"
  shows "unavailable_upto f \<subseteq> unavailable_upto (join_flows flows)"
  using assms by (cases rule: join_flows_cases) (auto simp: unavailable_upto_def)

interpretation upto: flow_domain states_upto
proof unfold_locales
  fix u f leaves assume u: "u \<in> states_upto f"
  then show "flow_reachable f" by (simp add: states_upto_iff)
  show "initialization_status f leaves = InitializedStatus \<Longrightarrow> set leaves \<inter> u = {}"
    using u status_initialized [of f leaves] by (auto simp: states_upto_iff)
  show "u \<union> set leaves \<in> states_upto (flow_moved leaves f)"
    using u unavailable_flow_moved [of f leaves] by (auto simp: states_upto_iff uninitialized_ops)
  show "u - set leaves \<in> states_upto (flow_initialized leaves f)"
    using u unavailable_flow_initialized [of f leaves] by (auto simp: states_upto_iff uninitialized_ops)
  show "u \<in> states_upto (normalize_uninitialized f)"
    using u by (auto simp: states_upto_iff uninitialized_ops unavailable_upto_def)
next
  fix u f flows assume u: "u \<in> states_upto f" and f: "f \<in> set flows"
  then have r: "flow_reachable f" by (simp add: states_upto_iff)
  show "u \<in> states_upto (join_flows flows)"
    using f r
  proof (cases rule: join_flows_cases)
    case single
    then show ?thesis using u by simp
  next
    case several
    then show ?thesis
      using u unavailable_join [OF f r] by (auto simp: states_upto_iff)
  qed
next
  fix u f ids assume "u \<in> states_upto f"
  then show "forget (set ids) u \<in> states_upto (forget_locals ids f)"
    by (auto simp: states_upto_iff unavailable_forget uninitialized_ops forget_def)
next
  show "states_upto (f\<lparr>loans := ls\<rparr>) = states_upto f" for f ls
    by (simp add: states_upto_def unavailable_upto_def)
qed

interpretation exactly: flow_domain states_of
proof unfold_locales
  fix u f leaves assume u: "u \<in> states_of f"
  then have r: "flow_reachable f" and upto: "u \<in> states_upto f" by (simp_all add: states_of_def states_upto_iff)
  obtain alternative where alt: "alternative \<in> set (uninitialized f)" "alternative \<subseteq> u"
    using u by (auto simp: states_of_iff)
  show "flow_reachable f" by (rule r)
  show "initialization_status f leaves = InitializedStatus \<Longrightarrow> set leaves \<inter> u = {}"
    by (rule upto.available [OF upto])
  obtain n where "n \<in> set (uninitialized (flow_moved leaves f))" "n \<subseteq> alternative \<union> set leaves"
    using normalize_below [of "alternative \<union> set leaves" "map (\<lambda>alternative. alternative \<union> set leaves) (uninitialized f)"]
      alt r by (auto simp: uninitialized_ops)
  then show "u \<union> set leaves \<in> states_of (flow_moved leaves f)"
    using alt upto.moved [OF upto, of leaves] unfolding states_of_def by blast
  obtain n where "n \<in> set (uninitialized (flow_initialized leaves f))" "n \<subseteq> alternative - set leaves"
    using normalize_below [of "alternative - set leaves" "map (\<lambda>alternative. alternative - set leaves) (uninitialized f)"]
      alt r by (auto simp: uninitialized_ops)
  then show "u - set leaves \<in> states_of (flow_initialized leaves f)"
    using alt upto.initialized [OF upto, of leaves] unfolding states_of_def by blast
  obtain n where "n \<in> set (uninitialized (normalize_uninitialized f))" "n \<subseteq> alternative"
    using normalize_below [OF alt(1)] r by (auto simp: uninitialized_ops)
  then show "u \<in> states_of (normalize_uninitialized f)"
    using alt upto.normalized [OF upto] unfolding states_of_def by blast
next
  fix u f flows assume u: "u \<in> states_of f" and f: "f \<in> set flows"
  then have r: "flow_reachable f" and upto: "u \<in> states_upto f" by (simp_all add: states_of_def states_upto_iff)
  obtain alternative where alt: "alternative \<in> set (uninitialized f)" "alternative \<subseteq> u"
    using u by (auto simp: states_of_iff)
  show "u \<in> states_of (join_flows flows)"
    using f r
  proof (cases rule: join_flows_cases)
    case single
    then show ?thesis using u by simp
  next
    case (several reachable)
    obtain n where "n \<in> set (uninitialized (join_flows flows))" "n \<subseteq> alternative"
      using normalize_below [of alternative "concat (map uninitialized reachable)"] alt several by auto
    then show ?thesis using alt upto.joined [OF upto f] unfolding states_of_def by blast
  qed
next
  fix u f ids assume u: "u \<in> states_of f"
  then obtain alternative where alt: "alternative \<in> set (uninitialized f)" "alternative \<subseteq> u"
    by (auto simp: states_of_iff)
  have "Set.filter (\<lambda>place. pk_local place \<notin> set ids) alternative \<in> set (uninitialized (forget_locals ids f))"
    using alt(1) by (simp add: uninitialized_ops)
  moreover have "Set.filter (\<lambda>place. pk_local place \<notin> set ids) alternative \<subseteq> forget (set ids) u"
    using alt(2) by (auto simp: forget_def)
  ultimately show "forget (set ids) u \<in> states_of (forget_locals ids f)"
    using upto.forgotten [of u f ids] u unfolding states_of_def by blast
next
  show "states_of (f\<lparr>loans := ls\<rparr>) = states_of f" for f ls
    by (simp add: states_of_def states_upto_def unavailable_upto_def)
qed

subsection \<open>What lowering may conclude\<close>

lemma alternative_is_state:
  "flow_reachable f \<Longrightarrow> alternative \<in> set (uninitialized f) \<Longrightarrow> alternative \<in> states_of f"
  by (auto simp: states_of_iff unavailable_upto_def)

lemma all_filtered: "length (filter P xs) = length xs \<longleftrightarrow> (\<forall>x \<in> set xs. P x)"
  by (metis filter_id_conv length_filter_less order_less_irrefl)

text \<open>
  C20: On a reachable flow the status of a place is exact: it is initialised if its leaf paths hold a
  value in all states of the flow, uninitialised if in each state one of them does not, and otherwise
  possibly uninitialised.
\<close>

theorem initialization_status_is_exact:
  assumes "flow_reachable f" "uninitialized f \<noteq> []"
  shows "initialization_status f leaves =
    (if states_of f \<subseteq> {u. set leaves \<inter> u = {}} then InitializedStatus
     else if states_of f \<inter> {u. set leaves \<inter> u = {}} = {} then UninitializedStatus
     else MaybeUninitializedStatus)"
proof -
  let ?hit = "\<lambda>alternative. list_ex (\<lambda>leaf. leaf \<in> alternative) leaves"
  have hit: "?hit alternative \<longleftrightarrow> set leaves \<inter> alternative \<noteq> {}" for alternative
    by (auto simp: list_ex_iff)
  have none: "filter ?hit (uninitialized f) = [] \<longleftrightarrow> states_of f \<subseteq> {u. set leaves \<inter> u = {}}"
  proof
    assume "filter ?hit (uninitialized f) = []"
    then have "set leaves \<inter> unavailable_upto f = {}"
      unfolding filter_empty_conv hit by (auto simp: unavailable_upto_def)
    then show "states_of f \<subseteq> {u. set leaves \<inter> u = {}}" unfolding subset_iff states_of_iff by blast
  next
    assume "states_of f \<subseteq> {u. set leaves \<inter> u = {}}"
    then show "filter ?hit (uninitialized f) = []"
      using alternative_is_state [OF assms(1)] unfolding filter_empty_conv hit by blast
  qed
  have all: "length (filter ?hit (uninitialized f)) = length (uninitialized f) \<longleftrightarrow>
      states_of f \<inter> {u. set leaves \<inter> u = {}} = {}"
    unfolding all_filtered hit
  proof
    assume "\<forall>alternative \<in> set (uninitialized f). set leaves \<inter> alternative \<noteq> {}"
    then have "set leaves \<inter> u \<noteq> {}" if "u \<in> states_of f" for u
      using that unfolding states_of_iff by blast
    then show "states_of f \<inter> {u. set leaves \<inter> u = {}} = {}" by blast
  next
    assume "states_of f \<inter> {u. set leaves \<inter> u = {}} = {}"
    then show "\<forall>alternative \<in> set (uninitialized f). set leaves \<inter> alternative \<noteq> {}"
      using alternative_is_state [OF assms(1)] by blast
  qed
  show ?thesis
    using none all assms by (simp add: initialization_status_def Let_def)
qed

theorem initialization_status_is_exact_witness:
  "initialization_status default_flow [\<lparr>pk_local = 0, pk_projections = []\<rparr>] = InitializedStatus \<and>
   states_of default_flow \<subseteq> {u. set [\<lparr>pk_local = 0, pk_projections = []\<rparr>] \<inter> u = {}}"
proof -
  have "states_of default_flow = {{}}"
    by (auto simp: states_of_iff unavailable_upto_def default_flow_def)
  then show ?thesis
    using initialization_status_is_exact [of default_flow "[\<lparr>pk_local = 0, pk_projections = []\<rparr>]"]
    by (simp add: default_flow_def)
qed



end
