(* ===== verification/Places_Properties.thy ===== *)
theory Places_Properties
  imports Flow_Properties
begin

text \<open>
  The leaf paths of a place, which are its disjoint parts, and the loans: while a mutable loan is
  active no other loan of an overlapping place is, unless one was taken through the other.
\<close>

subsection \<open>Leaf paths\<close>

definition leaves_ok :: "place_key \<Rightarrow> place_key list \<Rightarrow> bool" where
  "leaves_ok key leaves \<longleftrightarrow>
     leaves \<noteq> [] \<and>
     (\<forall>leaf \<in> set leaves. pk_local leaf = pk_local key \<and> prefix (pk_projections key) (pk_projections leaf)) \<and>
     sorted_wrt (\<lambda>x y. \<not> flow_places_overlap x y) leaves"

lemma project_simps [simp]:
  "pk_local (project key i) = pk_local key" "pk_projections (project key i) = pk_projections key @ [i]"
  by (simp_all add: project_def)

lemma leaves_ok_single: "leaves_ok key [key]"
  by (simp add: leaves_ok_def)

lemma leaves_ok_below:
  "leaves_ok (project key i) leaves \<Longrightarrow> leaf \<in> set leaves \<Longrightarrow>
   pk_local leaf = pk_local key \<and> prefix (pk_projections key @ [i]) (pk_projections leaf)"
  by (simp add: leaves_ok_def)

lemma branches_disjoint:
  assumes "prefix (p @ [i]) xs" "prefix (p @ [j]) ys" "i \<noteq> j"
  shows "\<not> projection_paths_overlap xs ys"
proof -
  obtain xs' ys' where xs: "xs = p @ i # xs'" and ys: "ys = p @ j # ys'"
    using assms by (auto simp: prefix_def)
  show ?thesis using assms(3) by (simp add: projection_paths_overlap_def xs ys)
qed

lemma nth_of_concat: "x \<in> set (concat parts) \<Longrightarrow> \<exists>k < length parts. x \<in> set (parts ! k)"
proof -
  assume "x \<in> set (concat parts)"
  then obtain part where "part \<in> set parts" "x \<in> set part" by auto
  then show ?thesis by (metis in_set_conv_nth)
qed

lemma leaves_ok_concat:
  assumes "distinct is" "length is = length parts" "is \<noteq> []"
    and "\<And>k. k < length is \<Longrightarrow> leaves_ok (project key (is ! k)) (parts ! k)"
  shows "leaves_ok key (concat parts)"
proof -
  have below: "pk_local leaf = pk_local key \<and> prefix (pk_projections key @ [is ! k]) (pk_projections leaf)"
    if "k < length is" "leaf \<in> set (parts ! k)" for k leaf
    using leaves_ok_below [OF assms(4) [OF that(1)] that(2)] .
  have sorted: "sorted_wrt (\<lambda>x y. \<not> flow_places_overlap x y) (concat parts)"
    using assms
  proof (induction parts arbitrary: "is")
    case (Cons part parts)
    then obtain i "is'" where "is": "is = i # is'" by (cases "is") auto
    have first: "leaves_ok (project key i) part" using Cons.prems(4) [of 0] "is" by simp
    have rest: "leaves_ok (project key (is' ! k)) (parts ! k)" if "k < length is'" for k
      using Cons.prems(4) [of "Suc k"] that "is" by simp
    have "sorted_wrt (\<lambda>x y. \<not> flow_places_overlap x y) (concat parts)"
    proof (cases "is' = []")
      case True
      then show ?thesis using Cons.prems(2) "is" by simp
    next
      case False
      then show ?thesis using Cons.IH [of "is'"] Cons.prems(1, 2) rest "is" by simp
    qed
    moreover have "\<not> flow_places_overlap x y" if x: "x \<in> set part" and y: "y \<in> set (concat parts)" for x y
    proof -
      obtain k where k: "k < length parts" "y \<in> set (parts ! k)"
        using nth_of_concat [OF y] by blast
      then have len: "k < length is'" using Cons.prems(2) "is" by simp
      then have "is' ! k \<noteq> i" using Cons.prems(1) "is" by auto
      then show ?thesis
        using branches_disjoint [where p = "pk_projections key" and i = i and xs = "pk_projections x"
              and j = "is' ! k" and ys = "pk_projections y"]
          leaves_ok_below [OF first x] leaves_ok_below [OF rest [OF len] k(2)]
        by (auto simp: flow_places_overlap_def)
    qed
    ultimately show ?case
      using first by (simp add: sorted_wrt_append leaves_ok_def)
  qed simp
  have "parts ! 0 \<noteq> []" using assms(3) assms(4) [of 0] by (auto simp: leaves_ok_def)
  then have "concat parts \<noteq> []" using assms(2, 3) by (metis concat_eq_Nil_conv length_greater_0_conv nth_mem)
  moreover have "pk_local leaf = pk_local key \<and> prefix (pk_projections key) (pk_projections leaf)"
    if leaf: "leaf \<in> set (concat parts)" for leaf
  proof -
    obtain k where k: "k < length parts" "leaf \<in> set (parts ! k)" using nth_of_concat [OF leaf] by blast
    then show ?thesis using below [of k leaf] assms(2) append_prefixD by auto
  qed
  ultimately show ?thesis using sorted by (simp add: leaves_ok_def)
qed

lemma map_opt_exists:
  assumes "\<And>k. k < length xs \<Longrightarrow> \<exists>y. f (xs ! k) = Some y \<and> P k y"
  shows "\<exists>ys. map_opt f xs = Some ys \<and> length ys = length xs \<and> (\<forall>k < length xs. P k (ys ! k))"
  using assms
proof (induction xs arbitrary: P)
  case (Cons x xs)
  obtain y where y: "f x = Some y" "P 0 y" using Cons.prems [of 0] by auto
  have "\<exists>ys. map_opt f xs = Some ys \<and> length ys = length xs \<and> (\<forall>k < length xs. P (Suc k) (ys ! k))"
    by (rule Cons.IH [of "\<lambda>k. P (Suc k)"]) (use Cons.prems [of "Suc k" for k] in force)
  then obtain ys where "map_opt f xs = Some ys" "length ys = length xs" "\<forall>k < length xs. P (Suc k) (ys ! k)"
    by blast
  then show ?case using y by (intro exI [of _ "y # ys"]) (auto simp: less_Suc_eq_0_disj)
qed simp

lemma leaves_of_parts:
  assumes "xs \<noteq> []" "distinct (map i xs)"
    and "\<And>x. x \<in> set xs \<Longrightarrow> \<exists>leaves. f x = Some leaves \<and> leaves_ok (project key (i x)) leaves"
  shows "\<exists>parts. map_opt f xs = Some parts \<and> leaves_ok key (concat parts)"
proof -
  have "\<exists>parts. map_opt f xs = Some parts \<and> length parts = length xs \<and>
      (\<forall>k < length xs. leaves_ok (project key (i (xs ! k))) (parts ! k))"
    by (rule map_opt_exists) (use assms(3) in \<open>auto simp: in_set_conv_nth\<close>)
  then obtain parts where parts: "map_opt f xs = Some parts" "length parts = length xs"
      "\<forall>k < length xs. leaves_ok (project key (i (xs ! k))) (parts ! k)" by blast
  have "leaves_ok key (concat parts)"
    by (rule leaves_ok_concat [OF assms(2)]) (use parts assms(1) in simp_all)
  then show ?thesis using parts(1) by blast
qed

lemma append_leaf_keys_ok:
  assumes "finite (dom (struct_layouts a))"
  shows "\<exists>leaves. append_leaf_keys a visiting key t = Some leaves \<and> leaves_ok key leaves"
proof (induction "card (dom (struct_layouts a) - visiting)" arbitrary: visiting key t rule: less_induct)
  case outer: less
  show ?case
  proof (induction "size t" arbitrary: key t rule: less_induct)
    case less
    consider (array) element n where "t = ArrayTy element n" "n \<noteq> 0"
      | (struct) name layout where "t = StructTy name" "name \<notin> visiting" "struct_layouts a name = Some layout"
          "sl_fields layout \<noteq> []"
      | (leaf) "append_leaf_keys a visiting key t = Some [key]"
    proof (cases t)
      case (ArrayTy element n)
      then show ?thesis using that by (cases "n = 0") (simp_all add: append_leaf_keys.simps)
    next
      case (StructTy name)
      show ?thesis
      proof (cases "name \<in> visiting \<or> (\<forall>layout. struct_layouts a name = Some layout \<longrightarrow> sl_fields layout = [])")
        case True
        then show ?thesis
          using StructTy by (intro that(3)) (auto simp: append_leaf_keys.simps split: option.split)
      next
        case False
        then show ?thesis using StructTy that(2) by blast
      qed
    qed (use that in \<open>simp_all add: append_leaf_keys.simps\<close>)
    then show ?case
    proof cases
      case array
      have "0 < unat n" using array(2) by (simp add: unat_gt_0)
      moreover have "\<exists>leaves. append_leaf_keys a visiting (project key i) element = Some leaves \<and>
          leaves_ok (project key i) leaves" for i
        by (rule less) (simp add: array)
      ultimately have "\<exists>parts. map_opt (\<lambda>i. append_leaf_keys a visiting (project key i) element) [0..<unat n] = Some parts \<and>
          leaves_ok key (concat parts)"
        by (intro leaves_of_parts [where i = "\<lambda>i. i"]) simp_all
      then show ?thesis by (subst append_leaf_keys.simps) (auto simp: array)
    next
      case struct
      have "dom (struct_layouts a) - insert name visiting \<subset> dom (struct_layouts a) - visiting"
        using struct by blast
      then have "card (dom (struct_layouts a) - insert name visiting) < card (dom (struct_layouts a) - visiting)"
        using assms by (simp add: psubset_card_mono)
      from outer [OF this] have "\<exists>parts.
          map_opt (\<lambda>f. append_leaf_keys a (insert name visiting) (project key (fst f)) (fl_ty (snd f)))
            (enumerate 0 (sl_fields layout)) = Some parts \<and> leaves_ok key (concat parts)"
        using struct(4) by (intro leaves_of_parts [where i = fst]) (auto simp: enumerate_eq_zip)
      then show ?thesis by (subst append_leaf_keys.simps) (auto simp: struct)
    next
      case leaf
      then show ?thesis using leaves_ok_single by simp
    qed
  qed
qed

subsection \<open>Loans\<close>

lemma set_alist_update: "set (AList.update k v ls) \<subseteq> insert (k, v) (set ls)"
  by (induction ls) auto

lemma overlap_sym: "flow_places_overlap x y \<longleftrightarrow> flow_places_overlap y x"
  by (auto simp: flow_places_overlap_def projection_paths_overlap_def)

lemma length_report [simp]: "length (diagnostics (report m a)) = Suc (length (diagnostics a))"
  by (simp add: report_def)

lemma ensure_available_length:
  "ensure_available place c a = Some a' \<Longrightarrow> length (diagnostics a) \<le> length (diagnostics a')"
  by (auto simp: ensure_available_def split: if_splits Option.bind_splits initialization_status.splits)

text \<open>A loan is granted when no active loan but the one the place goes through conflicts with it.\<close>

lemma acquire_granted:
  assumes "acquire_loan place kind lexical (a, c) = Some (Some i, (a', c'))"
  shows "i = next_loan c \<and> next_loan c' = Suc i \<and>
    loans (ctx_flow c') = AList.update i \<lparr>loan_place = place_key_of place, loan_kind_of = kind\<rparr> (loans (ctx_flow c)) \<and>
    (\<forall>entry \<in> set (loans (ctx_flow c)). \<not> loan_conflicts (place_key_of place) (hp_loan place) (loan_access kind) entry)"
proof -
  obtain a1 where a1: "ensure_available place c a = Some a1"
    using assms by (auto simp: acquire_loan_def split: Option.bind_splits)
  let ?a2 = "ensure_no_conflicting_loan place (loan_access kind) c a1"
  have ok: "length (diagnostics ?a2) = length (diagnostics a)" "flow_reachable (ctx_flow c)"
    using assms a1 by (auto simp: acquire_loan_def Let_def split: if_splits)
  then have "\<not> list_ex (loan_conflicts (place_key_of place) (hp_loan place) (loan_access kind)) (loans (ctx_flow c))"
    using ensure_available_length [OF a1] by (auto simp: ensure_no_conflicting_loan_def split: if_splits)
  then show ?thesis
    using assms a1 ok
    by (auto simp: acquire_loan_def Let_def push_lexical_loan_def update_flow_def list_ex_iff
        split: if_splits)
qed

text \<open>
  The loan states of a function: \<open>parents\<close> records which loan a loan was taken through.  Loans end
  when their scope does or when they are released.
\<close>

inductive loan_states :: "(loan_id \<times> loan_id) set \<Rightarrow> ('e, 'n) lower_ctx_scheme \<Rightarrow> bool" where
  no_loans: "loans (ctx_flow c) = [] \<Longrightarrow> loan_states {} c"
| acquired: "loan_states parents c \<Longrightarrow> acquire_loan place kind lexical (a :: ownership_analyzer, c) = Some (Some i, (a', c')) \<Longrightarrow>
    loan_states (parents \<union> Pair i ` set_option (hp_loan place)) c'"
| released: "loan_states parents c \<Longrightarrow> loan_states parents (release_loans ids c)"

definition exclusive :: "(loan_id \<times> loan_id) set \<Rightarrow> (loan_id \<times> loan) list \<Rightarrow> bool" where
  "exclusive parents ls \<longleftrightarrow>
     (\<forall>(i, l) \<in> set ls. \<forall>(j, m) \<in> set ls.
        i \<noteq> j \<longrightarrow> flow_places_overlap (loan_place l) (loan_place m) \<longrightarrow> loan_kind_of l = MutableLoan \<longrightarrow>
        (i, j) \<in> parents \<or> (j, i) \<in> parents)"

lemma exclusiveD:
  "exclusive parents ls \<Longrightarrow> (i, l) \<in> set ls \<Longrightarrow> (j, m) \<in> set ls \<Longrightarrow> i \<noteq> j \<Longrightarrow>
   flow_places_overlap (loan_place l) (loan_place m) \<Longrightarrow> loan_kind_of l = MutableLoan \<Longrightarrow>
   (i, j) \<in> parents \<or> (j, i) \<in> parents"
  unfolding exclusive_def by blast

lemma exclusive_mono: "exclusive parents ls \<Longrightarrow> parents \<subseteq> parents' \<Longrightarrow> set ls' \<subseteq> set ls \<Longrightarrow> exclusive parents' ls'"
  unfolding exclusive_def by blast

lemma exclusive_acquired:
  assumes "exclusive parents ls"
    and "\<forall>entry \<in> set ls. \<not> loan_conflicts place own (loan_access kind) entry"
  shows "exclusive (parents \<union> Pair i ` set_option own)
    (AList.update i \<lparr>loan_place = place, loan_kind_of = kind\<rparr> ls)"
proof -
  let ?new = "\<lparr>loan_place = place, loan_kind_of = kind\<rparr>"
  have granted: "j \<in> set_option own"
    if "(j, m) \<in> set ls" "flow_places_overlap place (loan_place m)" "kind = MutableLoan \<or> loan_kind_of m = MutableLoan"
    for j m
    using assms(2) that by (cases kind) (auto simp: loan_conflicts_def loan_access_def)
  show ?thesis
    unfolding exclusive_def
  proof (clarify, goal_cases)
    case (1 j l k m)
    then have "(j, l) = (i, ?new) \<or> (j, l) \<in> set ls" "(k, m) = (i, ?new) \<or> (k, m) \<in> set ls"
      using set_alist_update [of i ?new ls] by auto
    then consider (both) "(j, l) \<in> set ls" "(k, m) \<in> set ls"
      | (first) "(j, l) = (i, ?new)" "(k, m) \<in> set ls"
      | (second) "(j, l) \<in> set ls" "(k, m) = (i, ?new)"
      using 1(3) by auto
    then show ?case
    proof cases
      case both
      then show ?thesis using exclusiveD [OF assms(1) both] 1 by auto
    next
      case first
      then have "k \<in> set_option own" using granted [of k m] 1 by simp
      then show ?thesis using first 1 by auto
    next
      case second
      then have "j \<in> set_option own" using granted [of j l] 1 overlap_sym [of place] by simp
      then show ?thesis using second 1 by auto
    qed
  qed
qed

lemma loan_states_exclusive: "loan_states parents c \<Longrightarrow> exclusive parents (loans (ctx_flow c))"
proof (induction rule: loan_states.induct)
  case (no_loans c)
  then show ?case by (simp add: exclusive_def)
next
  case (acquired parents c place kind lexical a i a' c')
  then show ?case using acquire_granted [OF acquired.hyps(2)] exclusive_acquired by metis
next
  case (released parents c ids)
  then show ?case
    by (intro exclusive_mono [OF released.IH]) (auto simp: release_loans_def update_flow_def remove_loans_def)
qed

subsection \<open>Concrete inputs\<close>

definition example_owner :: ownership_analyzer where
  "example_owner =
     \<lparr>nominal_accesses = Map.empty, nominal_instances = [], abstract_type_parameters = Map.empty,
      function_accesses = [], global_accesses = [], current_origin = None, diagnostics = [],
      struct_defs = Map.empty, enum_defs = Map.empty, struct_layouts = Map.empty, enum_layouts = Map.empty,
      nominal_instance_states = [], struct_order = [], enum_order = [],
      copy_nominals = {}, trait_impl_headers = [], trait_impl_keys = [],
      lang_never = [], lang_move = [], lang_drop = []\<rparr>"

text \<open>A local of a type without parts.\<close>

definition example_place :: hir_place where
  "example_place =
     \<lparr>hp_local = 0, hp_root_ty = StructTy (lit ''File''), hp_projections = [], hp_dynamic_index = None,
      hp_ty = StructTy (lit ''File''), hp_capability = Owned, hp_root_mutable = True, hp_loan = None,
      hp_indirect = False\<rparr>"

lemma example_leaves: "place_leaf_keys example_owner example_place = Some [\<lparr>pk_local = 0, pk_projections = []\<rparr>]"
  by (simp add: place_leaf_keys_def append_leaf_keys.simps example_place_def example_owner_def place_key_of_def)

subsection \<open>What lowering relies on\<close>





end
