(* ===== verification/Control.thy ===== *)
theory Control
  imports Places
begin

text \<open>
  Loops (\<open>compiler/src/codegen/control.rs\<close>): how lowering a loop, a break or a continue changes the
  flow, and the check for values that a loop moves in one iteration and uses in the next.  The lowering
  of a subexpression with an expected type is an argument; its result is a type and an expression.
\<close>

type_synonym ('e, 'm, 'n) expr_lowering =
  "ty option \<Rightarrow> ('e, 'm, 'n) lowering_state \<Rightarrow> ((ty \<times> 'e) \<times> ('e, 'm, 'n) lowering_state) option"

datatype 'e control_expr =
    ErrorUnit
  | WhileLoop "ty \<times> 'e" "ty \<times> 'e" bool
  | EndlessLoop "ty \<times> 'e"
  | BreakLoop "(ty \<times> 'e) option"
  | ContinueLoop

definition error_expr :: "ty \<times> 'e control_expr" where
  "error_expr = (ErrorTy, ErrorUnit)"

definition unify_types ::
    "(code_point \<Rightarrow> bool) \<Rightarrow> ty \<Rightarrow> ty \<Rightarrow> chars \<Rightarrow> 'm layout_analyzer_scheme \<Rightarrow> ty \<times> 'm layout_analyzer_scheme" where
  "unify_types up left right subject a =
     (if left = right then (left, a)
      else if is_uninhabited_type a left then (right, a)
      else if is_uninhabited_type a right then (left, a)
      else if left = ErrorTy \<or> right = ErrorTy then (ErrorTy, a)
      else
        (ErrorTy,
         report (lit ''type mismatch for '' @ subject @ lit '': `'' @ show_ty up left @ lit ''` and `'' @ show_ty up right @
           lit ''` cannot be unified'') a))"

subsection \<open>Values moved across a backedge\<close>

definition loop_carried :: "flow_state \<Rightarrow> flow_state \<Rightarrow> local_id \<Rightarrow> bool" where
  "loop_carried entry backedge local \<longleftrightarrow>
     (let before = projected_uninitialized_alternatives entry local;
          after = projected_uninitialized_alternatives backedge local
      in \<not> alternative_sets_equal before after \<and> \<not> list_all (\<lambda>alternative. alternative = {}) after)"

definition loop_carried_message :: chars where
  "loop_carried_message =
     lit ''move of an outer value may cross a loop backedge; reinitialize it before the next iteration or move it only on a break/return path''"

definition reject_loop_carried_moves ::
    "flow_state \<Rightarrow> local_id set \<Rightarrow> flow_state \<Rightarrow> 'm ownership_analyzer_scheme \<Rightarrow> 'm ownership_analyzer_scheme" where
  "reject_loop_carried_moves entry outer_locals backedge a =
     fold (\<lambda>local a. if loop_carried entry backedge local then report loop_carried_message a else a)
       (sorted_list_of_set outer_locals) a"

subsection \<open>Loops\<close>

definition push_loop :: "ty option \<Rightarrow> bool \<Rightarrow> ('e, 'n) lower_ctx_scheme \<Rightarrow> ('e, 'n) lower_ctx_scheme" where
  "push_loop result unit c =
     c\<lparr>loops := loops c @
       [\<lparr>lf_result_ty = result, unit_only = unit, scope_depth = length (scopes c), break_flows = [],
         continue_flows = []\<rparr>]\<rparr>"

definition top_frame :: "('e, 'n) lower_ctx_scheme \<Rightarrow> loop_frame option" where
  "top_frame c = (if loops c = [] then None else Some (List.last (loops c)))"

definition map_top_frame ::
    "(loop_frame \<Rightarrow> loop_frame) \<Rightarrow> ('e, 'n) lower_ctx_scheme \<Rightarrow> ('e, 'n) lower_ctx_scheme option" where
  "map_top_frame f c =
     (if loops c = [] then None else Some (c\<lparr>loops := butlast (loops c) @ [f (List.last (loops c))]\<rparr>))"

definition if_reachable :: "flow_state \<Rightarrow> flow_state list" where
  "if_reachable flow = (if flow_reachable flow then [flow] else [])"

text \<open>Leaving a loop: its frame is popped and every edge back to its head is checked.\<close>

definition pop_loop ::
    "flow_state \<Rightarrow> local_id set \<Rightarrow> flow_state \<Rightarrow> ('e, 'm, 'n) lowering_state \<Rightarrow>
     (loop_frame \<times> flow_state list \<times> ('e, 'm, 'n) lowering_state) option" where
  "pop_loop entry outer_locals backedge s =
     (case s of
        (a, c) \<Rightarrow> do {
          frame \<leftarrow> top_frame c;
          (let backedges = continue_flows frame @ if_reachable backedge in
           Some (frame, backedges,
             (fold (reject_loop_carried_moves entry outer_locals) backedges a, c\<lparr>loops := butlast (loops c)\<rparr>))) })"

text \<open>One iteration of a \<open>while\<close>: the flow after the condition and the flow at the end.\<close>

definition while_iteration ::
    "('e, 'm, 'n) expr_lowering \<Rightarrow> ('e, 'm, 'n) expr_lowering \<Rightarrow> bool \<Rightarrow> ('e, 'm, 'n) lowering_state \<Rightarrow>
     (((ty \<times> 'e) \<times> (ty \<times> 'e)) \<times> flow_state \<times> flow_state \<times> ('e, 'm, 'n) lowering_state) option" where
  "while_iteration condition body post_test s =
     (if post_test then do {
        (b, a, c) \<leftarrow> body (Some UnitTy) s;
        frame \<leftarrow> top_frame c;
        (test, a, c) \<leftarrow> condition (Some BoolTy)
          (a, c\<lparr>ctx_flow := join_flows (continue_flows frame @ if_reachable (ctx_flow c))\<rparr>);
        Some ((test, b), ctx_flow c, ctx_flow c, (a, c)) }
      else do {
        (test, a, c) \<leftarrow> condition (Some BoolTy) s;
        (b, a', c') \<leftarrow> body (Some UnitTy) (a, c);
        Some ((test, b), ctx_flow c, ctx_flow c', (a', c')) })"

definition lower_while ::
    "('e, 'm, 'n) expr_lowering \<Rightarrow> ('e, 'm, 'n) expr_lowering \<Rightarrow> bool \<Rightarrow> ('e, 'm, 'n) lowering_state \<Rightarrow>
     ((ty \<times> 'e control_expr) \<times> ('e, 'm, 'n) lowering_state) option" where
  "lower_while condition body post_test s =
     (case s of
        (a, c) \<Rightarrow> do {
          ((test, b), condition_flow, backedge, s) \<leftarrow>
            while_iteration condition body post_test (a, push_loop (Some UnitTy) True c);
          (frame, backedges, a, c) \<leftarrow> pop_loop (ctx_flow c) (outer_local_ids c) backedge s;
          Some ((UnitTy, WhileLoop test b post_test),
            (a, c\<lparr>ctx_flow := join_flows (break_flows frame @ [condition_flow] @ backedges)\<rparr>)) })"

definition lower_loop ::
    "('e, 'm, 'n) expr_lowering \<Rightarrow> ty option \<Rightarrow> ('e, 'm, 'n) lowering_state \<Rightarrow>
     ((ty \<times> 'e control_expr) \<times> ('e, 'm, 'n) lowering_state) option" where
  "lower_loop body expected s =
     (case s of
        (a, c) \<Rightarrow> do {
          (b, a', c') \<leftarrow> body (Some UnitTy) (a, push_loop expected False c);
          (frame, backedges, a, c) \<leftarrow> pop_loop (ctx_flow c) (outer_local_ids c) (ctx_flow c') (a', c');
          Some ((if break_flows frame = [] then NeverTy
                 else (case lf_result_ty frame of None \<Rightarrow> UnitTy | Some t \<Rightarrow> t),
                 EndlessLoop b),
            (a, c\<lparr>ctx_flow := join_flows (break_flows frame)\<rparr>)) })"

definition unreachable :: "('e, 'n) lower_ctx_scheme \<Rightarrow> ('e, 'n) lower_ctx_scheme" where
  "unreachable c = update_flow (\<lambda>flow. flow\<lparr>flow_reachable := False\<rparr>) c"

text \<open>The flow a jump carries to its loop, without the scopes it leaves.\<close>

definition jump ::
    "(flow_state \<Rightarrow> loop_frame \<Rightarrow> loop_frame) \<Rightarrow> nat \<Rightarrow> ('e, 'n) lower_ctx_scheme \<Rightarrow> ('e, 'n) lower_ctx_scheme option" where
  "jump add depth c =
     (if \<not> flow_reachable (ctx_flow c) then Some (unreachable c)
      else do {
        flow \<leftarrow> flow_without_scopes_from c depth (ctx_flow c);
        c \<leftarrow> map_top_frame (add flow) c;
        Some (unreachable c) })"

definition add_break :: "flow_state \<Rightarrow> loop_frame \<Rightarrow> loop_frame" where
  "add_break flow frame = frame\<lparr>break_flows := break_flows frame @ [flow]\<rparr>"

definition add_continue :: "flow_state \<Rightarrow> loop_frame \<Rightarrow> loop_frame" where
  "add_continue flow frame = frame\<lparr>continue_flows := continue_flows frame @ [flow]\<rparr>"

definition lower_break_value ::
    "('e, 'm, 'n) expr_lowering option \<Rightarrow> ty option \<Rightarrow> ('e, 'm, 'n) lowering_state \<Rightarrow>
     ((ty \<times> 'e) option \<times> ('e, 'm, 'n) lowering_state) option" where
  "lower_break_value v expected s =
     (case v of None \<Rightarrow> Some (None, s) | Some lower \<Rightarrow> map_option (\<lambda>(e, s). (Some e, s)) (lower expected s))"

definition set_break_type ::
    "(code_point \<Rightarrow> bool) \<Rightarrow> ty option \<Rightarrow> ty \<Rightarrow> ('e, 'm, 'n) lowering_state \<Rightarrow> ('e, 'm, 'n) lowering_state option" where
  "set_break_type up expected break_ty s =
     (case s of
        (a, c) \<Rightarrow>
          (case (case expected of None \<Rightarrow> (break_ty, a) | Some e \<Rightarrow> unify_types up e break_ty (lit ''break values'') a) of
             (t, a) \<Rightarrow> map_option (Pair a) (map_top_frame (\<lambda>frame. frame\<lparr>lf_result_ty := Some t\<rparr>) c)))"

definition lower_break ::
    "(code_point \<Rightarrow> bool) \<Rightarrow> ('e, 'm, 'n) expr_lowering option \<Rightarrow> ('e, 'm, 'n) lowering_state \<Rightarrow>
     ((ty \<times> 'e control_expr) \<times> ('e, 'm, 'n) lowering_state) option" where
  "lower_break up v s =
     (case s of
        (a, c) \<Rightarrow>
          (case top_frame c of
             None \<Rightarrow> do {
               (_, s) \<leftarrow> lower_break_value v None (report (lit ''`break` cannot be used outside a `while` or `loop`'') a, c);
               Some (error_expr, s) }
           | Some frame \<Rightarrow> do {
               (e, a, c) \<leftarrow> lower_break_value v (if unit_only frame then None else lf_result_ty frame)
                 (if unit_only frame \<and> v \<noteq> None
                  then report (lit ''`break` in a `while` loop cannot carry a value'') a else a, c);
               (a, c) \<leftarrow>
                 (if unit_only frame then Some (a, c)
                  else
                    set_break_type up (lf_result_ty frame) (case e of None \<Rightarrow> UnitTy | Some (t, _) \<Rightarrow> t) (a, c));
               c \<leftarrow> jump add_break (scope_depth frame) c;
               Some ((NeverTy, BreakLoop e), (a, c)) }))"

definition lower_continue ::
    "('e, 'm, 'n) lowering_state \<Rightarrow> ((ty \<times> 'e control_expr) \<times> ('e, 'm, 'n) lowering_state) option" where
  "lower_continue s =
     (case s of
        (a, c) \<Rightarrow>
          (case top_frame c of
             None \<Rightarrow> Some (error_expr, (report (lit ''`continue` cannot be used outside a `while` or `loop`'') a, c))
           | Some frame \<Rightarrow> do {
               c \<leftarrow> jump add_continue (scope_depth frame) c;
               Some ((NeverTy, ContinueLoop), (a, c)) }))"

end
