(* ===== verification/Control_Soundness.thy ===== *)
theory Control_Soundness
  imports Places_Properties Control
begin

text \<open>
  Why a function that lowers without a message never uses a moved value.  A \<open>place_prog\<close> is the
  sequence of calls lowering makes for the uses, moves and assignments of a function and for its
  branches, scopes and loops; \<open>lower_prog\<close> makes these calls, \<open>exec\<close> is what the function does with
  the set of its leaf paths that hold no value.
\<close>

subsection \<open>Programs over places\<close>

datatype place_prog =
    UseP hir_place
  | MoveP hir_place
  | InitP hir_place
  | SeqP place_prog place_prog
  | BranchP place_prog place_prog
  | WhileP place_prog place_prog bool
  | LoopP place_prog
  | BreakP
  | ContinueP
  | ScopeP "(chars \<times> unit local_info) list" place_prog

type_synonym 'm prog_state = "(unit, 'm, unit) lowering_state"

definition as_expr :: "('m prog_state \<Rightarrow> 'm prog_state option) \<Rightarrow> (unit, 'm, unit) expr_lowering" where
  "as_expr lower _ s = map_option (Pair (UnitTy, ())) (lower s)"

definition without_result :: "('r \<times> 'm prog_state) option \<Rightarrow> 'm prog_state option" where
  "without_result r = map_option snd r"

definition with_flow :: "flow_state \<Rightarrow> 'm prog_state \<Rightarrow> 'm prog_state" where
  "with_flow f s = (fst s, (snd s)\<lparr>ctx_flow := f\<rparr>)"

definition declare_locals :: "(chars \<times> unit local_info) list \<Rightarrow> unit lower_ctx \<Rightarrow> unit lower_ctx option" where
  "declare_locals ls c = fold_opt (\<lambda>(name, l) c. map_option snd (insert_local name l c)) ls c"

primrec lower_prog :: "(code_point \<Rightarrow> bool) \<Rightarrow> place_prog \<Rightarrow> 'm prog_state \<Rightarrow> 'm prog_state option" where
  "lower_prog up (UseP place) s = map_option (\<lambda>a. (a, snd s)) (ensure_available place (snd s) (fst s))"
| "lower_prog up (MoveP place) s = do {
     a \<leftarrow> ensure_available place (snd s) (fst s);
     c \<leftarrow> mark_moved a place (snd s);
     Some (a, c) }"
| "lower_prog up (InitP place) s = map_option (\<lambda>(_, c). (fst s, c)) (mark_initialized (fst s) place (snd s))"
| "lower_prog up (SeqP p q) s = Option.bind (lower_prog up p s) (lower_prog up q)"
| "lower_prog up (BranchP p q) s = do {
     s1 \<leftarrow> lower_prog up p s;
     s2 \<leftarrow> lower_prog up q (with_flow (ctx_flow (snd s)) s1);
     Some (with_flow (join_flows [ctx_flow (snd s1), ctx_flow (snd s2)]) s2) }"
| "lower_prog up (WhileP condition body post_test) s =
     without_result (lower_while (as_expr (lower_prog up condition)) (as_expr (lower_prog up body)) post_test s)"
| "lower_prog up (LoopP body) s = without_result (lower_loop (as_expr (lower_prog up body)) None s)"
| "lower_prog up BreakP s = without_result (lower_break up None s)"
| "lower_prog up ContinueP s = without_result (lower_continue s)"
| "lower_prog up (ScopeP ls p) s = do {
     c \<leftarrow> declare_locals ls (push_scope (snd s));
     s \<leftarrow> lower_prog up p (fst s, c);
     c \<leftarrow> pop_scope (snd s);
     Some (fst s, c) }"

subsection \<open>What the programs do\<close>

datatype outcome = Normal "place_key set" | Broke "place_key set" | Continued "place_key set" | UsedMoved

text \<open>A turn of a loop goes around again, leaves the loop, or uses a moved value.\<close>

datatype turn = Again "place_key set" | Leave "place_key set" | Fault

inductive repeats :: "(place_key set \<Rightarrow> turn \<Rightarrow> bool) \<Rightarrow> place_key set \<Rightarrow> outcome \<Rightarrow> bool" for turn where
  repeats_again: "turn u (Again v) \<Longrightarrow> repeats turn v r \<Longrightarrow> repeats turn u r"
| repeats_leave: "turn u (Leave v) \<Longrightarrow> repeats turn u (Normal v)"
| repeats_fault: "turn u Fault \<Longrightarrow> repeats turn u UsedMoved"

inductive while_turn ::
    "(place_key set \<Rightarrow> outcome \<Rightarrow> bool) \<Rightarrow> (place_key set \<Rightarrow> outcome \<Rightarrow> bool) \<Rightarrow> place_key set \<Rightarrow> turn \<Rightarrow> bool"
  for condition body where
  "condition u UsedMoved \<Longrightarrow> while_turn condition body u Fault"
| "condition u (Normal v) \<Longrightarrow> while_turn condition body u (Leave v)"
| "condition u (Normal v) \<Longrightarrow> body v UsedMoved \<Longrightarrow> while_turn condition body u Fault"
| "condition u (Normal v) \<Longrightarrow> body v (Normal w) \<Longrightarrow> while_turn condition body u (Again w)"
| "condition u (Normal v) \<Longrightarrow> body v (Continued w) \<Longrightarrow> while_turn condition body u (Again w)"
| "condition u (Normal v) \<Longrightarrow> body v (Broke w) \<Longrightarrow> while_turn condition body u (Leave w)"

inductive post_turn ::
    "(place_key set \<Rightarrow> outcome \<Rightarrow> bool) \<Rightarrow> (place_key set \<Rightarrow> outcome \<Rightarrow> bool) \<Rightarrow> place_key set \<Rightarrow> turn \<Rightarrow> bool"
  for condition body where
  "body u UsedMoved \<Longrightarrow> post_turn condition body u Fault"
| "body u (Broke v) \<Longrightarrow> post_turn condition body u (Leave v)"
| "r = Normal v \<or> r = Continued v \<Longrightarrow> body u r \<Longrightarrow> condition v UsedMoved \<Longrightarrow> post_turn condition body u Fault"
| "r = Normal v \<or> r = Continued v \<Longrightarrow> body u r \<Longrightarrow> condition v (Normal w) \<Longrightarrow> post_turn condition body u (Again w)"
| "r = Normal v \<or> r = Continued v \<Longrightarrow> body u r \<Longrightarrow> condition v (Normal w) \<Longrightarrow> post_turn condition body u (Leave w)"

inductive loop_turn :: "(place_key set \<Rightarrow> outcome \<Rightarrow> bool) \<Rightarrow> place_key set \<Rightarrow> turn \<Rightarrow> bool" for body where
  "body u UsedMoved \<Longrightarrow> loop_turn body u Fault"
| "body u (Normal v) \<Longrightarrow> loop_turn body u (Again v)"
| "body u (Continued v) \<Longrightarrow> loop_turn body u (Again v)"
| "body u (Broke v) \<Longrightarrow> loop_turn body u (Leave v)"

inductive_cases while_turnE: "while_turn condition body u t"
inductive_cases post_turnE: "post_turn condition body u t"
inductive_cases loop_turnE: "loop_turn body u t"

fun map_outcome :: "(place_key set \<Rightarrow> place_key set) \<Rightarrow> outcome \<Rightarrow> outcome" where
  "map_outcome f (Normal u) = Normal (f u)"
| "map_outcome f (Broke u) = Broke (f u)"
| "map_outcome f (Continued u) = Continued (f u)"
| "map_outcome f UsedMoved = UsedMoved"

definition local_ids_of :: "(chars \<times> unit local_info) list \<Rightarrow> local_id set" where
  "local_ids_of ls = li_id ` snd ` set ls"

primrec exec :: "(hir_place \<Rightarrow> place_key set) \<Rightarrow> place_prog \<Rightarrow> place_key set \<Rightarrow> outcome \<Rightarrow> bool" where
  "exec leaves (UseP place) u r = (r = (if leaves place \<inter> u = {} then Normal u else UsedMoved))"
| "exec leaves (MoveP place) u r = (r = (if leaves place \<inter> u = {} then Normal (u \<union> leaves place) else UsedMoved))"
| "exec leaves (InitP place) u r = (r = Normal (u - leaves place))"
| "exec leaves (SeqP p q) u r =
     ((\<exists>v. exec leaves p u (Normal v) \<and> exec leaves q v r) \<or> (exec leaves p u r \<and> (\<forall>v. r \<noteq> Normal v)))"
| "exec leaves (BranchP p q) u r = (exec leaves p u r \<or> exec leaves q u r)"
| "exec leaves (WhileP condition body post_test) u r =
     repeats ((if post_test then post_turn else while_turn) (exec leaves condition) (exec leaves body)) u r"
| "exec leaves (LoopP body) u r = repeats (loop_turn (exec leaves body)) u r"
| "exec leaves BreakP u r = (r = Broke u)"
| "exec leaves ContinueP u r = (r = Continued u)"
| "exec leaves (ScopeP ls p) u r = (\<exists>r'. exec leaves p u r' \<and> r = map_outcome (forget (local_ids_of ls)) r')"

subsection \<open>Well-formed programs\<close>

text \<open>
  Every place is rooted in a local in scope, jumps are inside loops and not in conditions, and the
  locals of a scope have different names.
\<close>

fun jump_free :: "place_prog \<Rightarrow> bool" where
  "jump_free BreakP = False"
| "jump_free ContinueP = False"
| "jump_free (SeqP p q) = (jump_free p \<and> jump_free q)"
| "jump_free (BranchP p q) = (jump_free p \<and> jump_free q)"
| "jump_free (ScopeP _ p) = jump_free p"
| "jump_free _ = True"

primrec prog_ok :: "bool \<Rightarrow> local_id set \<Rightarrow> place_prog \<Rightarrow> bool" where
  "prog_ok in_loop ids (UseP place) \<longleftrightarrow> hp_local place \<in> ids"
| "prog_ok in_loop ids (MoveP place) \<longleftrightarrow> hp_local place \<in> ids"
| "prog_ok in_loop ids (InitP place) \<longleftrightarrow> hp_local place \<in> ids"
| "prog_ok in_loop ids (SeqP p q) \<longleftrightarrow> prog_ok in_loop ids p \<and> prog_ok in_loop ids q"
| "prog_ok in_loop ids (BranchP p q) \<longleftrightarrow> prog_ok in_loop ids p \<and> prog_ok in_loop ids q"
| "prog_ok in_loop ids (WhileP condition body post_test) \<longleftrightarrow>
     jump_free condition \<and> prog_ok True ids condition \<and> prog_ok True ids body"
| "prog_ok in_loop ids (LoopP body) \<longleftrightarrow> prog_ok True ids body"
| "prog_ok in_loop ids BreakP \<longleftrightarrow> in_loop"
| "prog_ok in_loop ids ContinueP \<longleftrightarrow> in_loop"
| "prog_ok in_loop ids (ScopeP ls p) \<longleftrightarrow> distinct (map fst ls) \<and> prog_ok in_loop (ids \<union> local_ids_of ls) p"

lemma jump_free_outcome:
  "jump_free p \<Longrightarrow> exec leaves p u r \<Longrightarrow> (\<exists>v. r = Normal v) \<or> r = UsedMoved"
proof (induction p arbitrary: u r)
  case (SeqP p q)
  then show ?case by (auto; blast)
next
  case (BranchP p q)
  then show ?case by (simp; blast)
next
  case (WhileP condition body post_test)
  then have "repeats ((if post_test then post_turn else while_turn) (exec leaves condition) (exec leaves body)) u r" by simp
  then show ?case by (induction rule: repeats.induct) auto
next
  case (LoopP body)
  then have "repeats (loop_turn (exec leaves body)) u r" by simp
  then show ?case by (induction rule: repeats.induct) auto
next
  case (ScopeP ls p)
  then obtain r' where "exec leaves p u r'" "r = map_outcome (forget (local_ids_of ls)) r'" by auto
  then show ?case using ScopeP by fastforce
qed (auto split: if_splits)

subsection \<open>What lowering leaves unchanged\<close>

definition reports :: "'m analyzer_scheme \<Rightarrow> 'm analyzer_scheme \<Rightarrow> bool" where
  "reports a a' \<longleftrightarrow> (\<exists>ms. a' = fold report ms a)"

lemma reports_refl [simp]: "reports a a"
  unfolding reports_def by (intro exI [of _ "[]"]) simp

lemma reports_report [simp]: "reports a (report m a)"
  unfolding reports_def by (intro exI [of _ "[m]"]) simp

lemma reports_trans: "reports a b \<Longrightarrow> reports b c \<Longrightarrow> reports a c"
  unfolding reports_def by (metis fold_append comp_apply)

lemma length_fold_report: "length (diagnostics (fold report ms a)) = length (diagnostics a) + length ms"
  by (induction ms arbitrary: a) simp_all

lemma reports_length: "reports a b \<Longrightarrow> length (diagnostics a) \<le> length (diagnostics b)"
  by (auto simp: reports_def length_fold_report)

lemma reports_antisym: "reports a b \<Longrightarrow> reports b a \<Longrightarrow> b = a"
proof -
  assume ab: "reports a b" and ba: "reports b a"
  obtain ms where ms: "b = fold report ms a" using ab by (auto simp: reports_def)
  have "length ms = 0" using reports_length [OF ba] by (simp add: ms length_fold_report)
  then show "b = a" by (simp add: ms)
qed

lemma struct_layouts_report [simp]: "struct_layouts (report m a) = struct_layouts a"
  by (simp add: report_def)

lemma reports_layouts: "reports a b \<Longrightarrow> struct_layouts b = struct_layouts a"
proof -
  have "struct_layouts (fold report ms a) = struct_layouts a" for ms
    by (induction ms arbitrary: a) simp_all
  then show "reports a b \<Longrightarrow> struct_layouts b = struct_layouts a" by (auto simp: reports_def)
qed

definition grows :: "loop_frame \<Rightarrow> loop_frame \<Rightarrow> bool" where
  "grows f g \<longleftrightarrow>
     scope_depth g = scope_depth f \<and> prefix (break_flows f) (break_flows g) \<and> prefix (continue_flows f) (continue_flows g)"

lemma grows_refl [simp]: "grows f f"
  by (simp add: grows_def)

lemma grows_trans: "grows f g \<Longrightarrow> grows g h \<Longrightarrow> grows f h"
  by (auto simp: grows_def)

abbreviation all_grow :: "loop_frame list \<Rightarrow> loop_frame list \<Rightarrow> bool" where
  "all_grow \<equiv> list_all2 grows"

lemma all_grow_refl [simp]: "all_grow fs fs"
  by (simp add: list_all2_refl)

lemma all_grow_trans: "all_grow fs gs \<Longrightarrow> all_grow gs hs \<Longrightarrow> all_grow fs hs"
  by (rule list_all2_trans [OF grows_trans])

lemma all_grow_butlast: "all_grow fs gs \<Longrightarrow> all_grow (butlast fs) (butlast gs)"
  by (auto simp: list_all2_conv_all_nth nth_butlast)

lemma all_grow_last: "all_grow fs gs \<Longrightarrow> fs \<noteq> [] \<Longrightarrow> gs \<noteq> [] \<and> grows (List.last fs) (List.last gs)"
  by (cases "gs = []") (simp_all add: list_all2_conv_all_nth last_conv_nth)

lemma all_grow_map_last:
  "fs \<noteq> [] \<Longrightarrow> grows (List.last fs) f \<Longrightarrow> all_grow fs (butlast fs @ [f])"
  using list_all2_appendI [of grows "butlast fs" "butlast fs" "[List.last fs]" "[f]"] by simp

definition keeps_frame :: "'m prog_state \<Rightarrow> 'm prog_state \<Rightarrow> bool" where
  "keeps_frame s s' \<longleftrightarrow>
     scopes (snd s') = scopes (snd s) \<and> reports (fst s) (fst s') \<and> all_grow (loops (snd s)) (loops (snd s'))"

lemma framedI:
  "scopes c' = scopes c \<Longrightarrow> reports a a' \<Longrightarrow> all_grow (loops c) (loops c') \<Longrightarrow> keeps_frame (a, c) (a', c')"
  by (simp add: keeps_frame_def)

lemma keeps_frame_refl [simp]: "keeps_frame s s"
  by (simp add: keeps_frame_def)

lemma keeps_frame_trans: "keeps_frame s s' \<Longrightarrow> keeps_frame s' s'' \<Longrightarrow> keeps_frame s s''"
  unfolding keeps_frame_def using reports_trans all_grow_trans by metis

lemma keeps_frame_with_flow [simp]: "keeps_frame s (with_flow f s') = keeps_frame s s'" "keeps_frame (with_flow f s) s' = keeps_frame s s'"
  by (simp_all add: keeps_frame_def with_flow_def)

lemma reports_available: "ensure_available place c a = Some a' \<Longrightarrow> reports a a'"
  by (auto simp: ensure_available_def split: if_splits Option.bind_splits initialization_status.splits)

lemma update_flow_simps [simp]:
  "scopes (update_flow f c) = scopes c" "loops (update_flow f c) = loops c" "ctx_flow (update_flow f c) = f (ctx_flow c)"
  by (simp_all add: update_flow_def)

definition reject_local :: "flow_state \<Rightarrow> flow_state \<Rightarrow> local_id \<Rightarrow> 'm analyzer_scheme \<Rightarrow> 'm analyzer_scheme" where
  "reject_local entry backedge local a = (if loop_carried entry backedge local then report loop_carried_message a else a)"

lemma reports_folded: "(\<And>x a. reports a (f x a)) \<Longrightarrow> reports a (fold f xs a)"
proof (induction xs arbitrary: a)
  case (Cons x xs)
  then show ?case using reports_trans [of a "f x a" "fold f xs (f x a)"] by simp
qed simp

lemma folded_silent:
  assumes "\<And>x a. reports a (f x a)" "fold f xs a = a" "x \<in> set xs"
  shows "f x a = a"
  using assms(2, 3)
proof (induction xs)
  case (Cons y ys)
  have "f y a = a"
  proof (rule reports_antisym [OF assms(1)])
    show "reports (f y a) a"
      using reports_folded [of f "f y a" ys] assms(1) Cons.prems(1) by simp
  qed
  then show ?case using Cons by auto
qed simp

lemma reject_fold: "reject_loop_carried_moves entry ids backedge = fold (reject_local entry backedge) (sorted_list_of_set ids)"
  unfolding reject_loop_carried_moves_def reject_local_def by (intro ext) (simp add: fun_eq_iff)

lemma reports_reject_local: "reports a (reject_local entry backedge local a)"
  by (simp add: reject_local_def)

lemma reports_reject: "reports a (reject_loop_carried_moves entry ids backedge a)"
  unfolding reject_fold by (rule reports_folded) (rule reports_reject_local)

lemma reports_rejects: "reports a (fold (reject_loop_carried_moves entry ids) backedges a)"
  by (rule reports_folded) (rule reports_reject)

lemma report_changes: "report m a \<noteq> a"
proof
  assume "report m a = a"
  then have "length (diagnostics (report m a)) = length (diagnostics a)" by simp
  then show False by simp
qed

text \<open>No message means that no edge carries a moved value.\<close>

lemma rejects_silent:
  assumes "finite ids" "fold (reject_loop_carried_moves entry ids) backedges a = a" "backedge \<in> set backedges" "local \<in> ids"
  shows "\<not> loop_carried entry backedge local"
proof -
  have "reject_loop_carried_moves entry ids backedge a = a"
    by (rule folded_silent [OF reports_reject assms(2, 3)])
  then have "reject_local entry backedge local a = a"
    using assms(1, 4) sorted_list_of_set.set_sorted_key_list_of_set [of ids] unfolding reject_fold
    by (intro folded_silent [OF reports_reject_local, where xs = "sorted_list_of_set ids"]) auto
  then show ?thesis using report_changes by (auto simp: reject_local_def split: if_splits)
qed

subsection \<open>The frame of each step\<close>

lemma keeps_frame_jump:
  assumes "jump add depth c = Some c'" "\<And>flow frame. grows frame (add flow frame)"
  shows "scopes c' = scopes c \<and> all_grow (loops c) (loops c')"
  using assms
  by (auto simp: jump_def unreachable_def map_top_frame_def split: if_splits Option.bind_splits
      intro!: all_grow_map_last)

lemma grows_add: "grows frame (add_break flow frame)" "grows frame (add_continue flow frame)"
  by (simp_all add: grows_def add_break_def add_continue_def)

lemma reports_unify: "reports a (snd (unify_types up l r subject a))"
  by (simp add: unify_types_def)

lemma keeps_frame_break_type:
  assumes "set_break_type up expected t (a, c) = Some (a', c')"
  shows "keeps_frame (a, c) (a', c')"
proof -
  obtain u where "map_top_frame (\<lambda>frame. frame\<lparr>lf_result_ty := Some u\<rparr>) c = Some c'" and r: "reports a a'"
    using assms reports_unify [of a up _ t "lit ''break values''"]
    by (cases expected) (auto simp: set_break_type_def split: prod.splits, metis snd_conv)
  then show ?thesis
    by (auto simp: keeps_frame_def map_top_frame_def grows_def split: if_splits intro!: all_grow_map_last)
qed

lemma keeps_frame_break:
  assumes "lower_break up None s = Some (e, s')"
  shows "keeps_frame s s'"
proof (cases "top_frame (snd s)")
  case None
  then show ?thesis using assms by (auto simp: lower_break_def lower_break_value_def keeps_frame_def split: prod.splits)
next
  case (Some frame)
  obtain a c where s: "s = (a, c)" by (cases s)
  obtain a1 c1 where 1: "keeps_frame s (a1, c1)" "jump add_break (scope_depth frame) c1 = Some (snd s')" "a1 = fst s'"
  proof (cases "unit_only frame")
    case True
    then show ?thesis
      using assms Some s by (intro that [of a c])
        (auto simp: lower_break_def lower_break_value_def split: Option.bind_splits)
  next
    case False
    then obtain a1 c1 where "set_break_type up (lf_result_ty frame) UnitTy (a, c) = Some (a1, c1)"
        "jump add_break (scope_depth frame) c1 = Some (snd s')" "a1 = fst s'"
      using assms Some s by (auto simp: lower_break_def lower_break_value_def split: Option.bind_splits)
    then show ?thesis using that keeps_frame_break_type s by blast
  qed
  have "keeps_frame (a1, c1) s'"
    using keeps_frame_jump [OF 1(2) grows_add(1)] 1(3) by (simp add: keeps_frame_def)
  then show ?thesis using keeps_frame_trans 1(1) by blast
qed

lemma keeps_frame_continue:
  assumes "lower_continue s = Some (e, s')"
  shows "keeps_frame s s'"
  using assms
  by (cases s) (auto simp: lower_continue_def keeps_frame_def split: option.splits Option.bind_splits
      dest!: keeps_frame_jump [OF _ grows_add(2)])

lemma keeps_frame_pop_loop:
  assumes "pop_loop entry ids b s1 = Some (frame, backedges, s2)" "keeps_frame (a, push_loop result unit c) s1"
  shows "keeps_frame (a, c) s2" "loops (snd s1) \<noteq> []" "frame = List.last (loops (snd s1))" "scope_depth frame = length (scopes c)"
    "backedges = continue_flows frame @ if_reachable b" "fst s2 = fold (reject_loop_carried_moves entry ids) backedges (fst s1)"
proof -
  have pop: "loops (snd s1) \<noteq> []" "frame = List.last (loops (snd s1))" "backedges = continue_flows frame @ if_reachable b"
    "snd s2 = (snd s1)\<lparr>loops := butlast (loops (snd s1))\<rparr>"
    "fst s2 = fold (reject_loop_carried_moves entry ids) backedges (fst s1)"
    using assms(1) by (auto simp: pop_loop_def top_frame_def split: prod.splits if_splits)
  then show "loops (snd s1) \<noteq> []" "frame = List.last (loops (snd s1))" "backedges = continue_flows frame @ if_reachable b"
    "fst s2 = fold (reject_loop_carried_moves entry ids) backedges (fst s1)" by blast+
  have keeps_frame: "scopes (snd s1) = scopes c" "reports a (fst s1)" "all_grow (loops (push_loop result unit c)) (loops (snd s1))"
    using assms(2) by (simp_all add: keeps_frame_def push_loop_def)
  show "keeps_frame (a, c) s2"
    using keeps_frame(1) pop(4) reports_trans [OF keeps_frame(2) reports_rejects] all_grow_butlast [OF keeps_frame(3)]
    by (simp add: keeps_frame_def push_loop_def pop(5))
  show "scope_depth frame = length (scopes c)"
    using all_grow_last [OF keeps_frame(3)] pop(2) by (simp add: push_loop_def grows_def)
qed

lemma as_expr_some: "as_expr lower expected s = Some (e, s') \<longleftrightarrow> lower s = Some s' \<and> e = (UnitTy, ())"
  by (cases s') (auto simp: as_expr_def)

lemma keeps_frame_flow [simp]:
  "keeps_frame (a, c\<lparr>ctx_flow := f\<rparr>) s = keeps_frame (a, c) s" "keeps_frame s (a, c\<lparr>ctx_flow := f\<rparr>) = keeps_frame s (a, c)"
  by (simp_all add: keeps_frame_def)

lemma declare_locals_frame:
  "declare_locals ls c = Some c' \<Longrightarrow> scopes c \<noteq> [] \<Longrightarrow>
   scopes c' \<noteq> [] \<and> butlast (scopes c') = butlast (scopes c) \<and> loops c' = loops c \<and> ctx_flow c' = ctx_flow c"
proof (induction ls arbitrary: c)
  case (Cons l ls)
  obtain c1 where c1: "map_option snd (insert_local (fst l) (snd l) c) = Some c1" "declare_locals ls c1 = Some c'"
    using Cons.prems(1) by (auto simp: declare_locals_def split: prod.splits Option.bind_splits)
  then have "scopes c1 \<noteq> [] \<and> butlast (scopes c1) = butlast (scopes c) \<and> loops c1 = loops c \<and> ctx_flow c1 = ctx_flow c"
    using Cons.prems(2) by (auto simp: insert_local_def Let_def split: if_splits)
  then show ?case using Cons.IH [OF c1(2)] by simp
qed (simp add: declare_locals_def)

lemma declare_locals_ids:
  "declare_locals ls c = Some c' \<Longrightarrow> scopes c \<noteq> [] \<Longrightarrow> distinct (map fst ls) \<Longrightarrow>
   dom (scope_names (List.last (scopes c))) \<inter> fst ` set ls = {} \<Longrightarrow>
   set (scope_frame_locals (List.last (scopes c'))) = set (scope_frame_locals (List.last (scopes c))) \<union> local_ids_of ls"
proof (induction ls arbitrary: c)
  case (Cons l ls)
  let ?scope = "List.last (scopes c)"
  have "insert_local (fst l) (snd l) c = Some (True, c\<lparr>scopes := butlast (scopes c) @
      [?scope\<lparr>scope_frame_locals := scope_frame_locals ?scope @ [li_id (snd l)],
              scope_names := (scope_names ?scope)(fst l \<mapsto> snd l)\<rparr>]\<rparr>)" (is "_ = Some (True, ?c)")
    using Cons.prems(2, 4) by (auto simp: insert_local_def Let_def)
  then have rest: "declare_locals ls ?c = Some c'"
    using Cons.prems(1) by (simp add: declare_locals_def split: prod.splits)
  have disjoint: "dom (scope_names (List.last (scopes ?c))) \<inter> fst ` set ls = {}"
    using Cons.prems(3, 4) by (auto simp: disjoint_iff dom_def)
  have "set (scope_frame_locals (List.last (scopes c'))) =
      set (scope_frame_locals (List.last (scopes ?c))) \<union> local_ids_of ls"
    using Cons.prems(3) by (intro Cons.IH [OF rest _ _ disjoint]) simp_all
  then show ?case by (auto simp: local_ids_of_def)
qed (simp add: declare_locals_def local_ids_of_def)

lemma pop_scope_simps:
  "pop_scope c = Some c' \<Longrightarrow> scopes c' = butlast (scopes c) \<and> loops c' = loops c"
  by (auto simp: pop_scope_def Let_def split: if_splits)

lemma post_iteration:
  assumes "while_iteration (as_expr condition) (as_expr body) True s = Some (e, f, b, s')"
  shows "\<exists>a c frame. body s = Some (a, c) \<and> top_frame c = Some frame \<and>
    condition (a, c\<lparr>ctx_flow := join_flows (continue_flows frame @ if_reachable (ctx_flow c))\<rparr>) = Some s' \<and>
    f = ctx_flow (snd s') \<and> b = ctx_flow (snd s')"
  using assms by (auto simp: while_iteration_def as_expr_some split: Option.bind_splits)

lemma pre_iteration:
  assumes "while_iteration (as_expr condition) (as_expr body) False s = Some (e, f, b, s')"
  shows "\<exists>s1. condition s = Some s1 \<and> body s1 = Some s' \<and> f = ctx_flow (snd s1) \<and> b = ctx_flow (snd s')"
  using assms by (auto simp: while_iteration_def as_expr_some split: Option.bind_splits)

lemma lowered_while:
  assumes "lower_prog up (WhileP condition body post_test) (a, c) = Some s'"
  shows "\<exists>e f b s1 frame backedges s2.
    while_iteration (as_expr (lower_prog up condition)) (as_expr (lower_prog up body)) post_test
      (a, push_loop (Some UnitTy) True c) = Some (e, f, b, s1) \<and>
    pop_loop (ctx_flow c) (outer_local_ids c) b s1 = Some (frame, backedges, s2) \<and>
    s' = with_flow (join_flows (break_flows frame @ [f] @ backedges)) s2"
proof -
  obtain e' where "lower_while (as_expr (lower_prog up condition)) (as_expr (lower_prog up body)) post_test (a, c) = Some (e', s')"
    using assms by (auto simp: without_result_def)
  then show ?thesis
    by (auto simp: lower_while_def with_flow_def split: Option.bind_splits)
qed

lemma lowered_loop:
  assumes "lower_prog up (LoopP body) (a, c) = Some s'"
  shows "\<exists>s1 frame backedges s2.
    lower_prog up body (a, push_loop None False c) = Some s1 \<and>
    pop_loop (ctx_flow c) (outer_local_ids c) (ctx_flow (snd s1)) s1 = Some (frame, backedges, s2) \<and>
    s' = with_flow (join_flows (break_flows frame)) s2"
proof -
  obtain e' where "lower_loop (as_expr (lower_prog up body)) None (a, c) = Some (e', s')"
    using assms by (auto simp: without_result_def)
  then show ?thesis
    by (auto simp: lower_loop_def with_flow_def as_expr_some split: Option.bind_splits)
qed

lemma keeps_frame_iteration:
  assumes "while_iteration (as_expr condition) (as_expr body) post_test s = Some (e, f, b, s')"
    and "\<And>s s'. condition s = Some s' \<Longrightarrow> keeps_frame s s'" "\<And>s s'. body s = Some s' \<Longrightarrow> keeps_frame s s'"
  shows "keeps_frame s s'"
proof (cases post_test)
  case True
  then have run: "while_iteration (as_expr condition) (as_expr body) True s = Some (e, f, b, s')" using assms(1) by simp
  obtain a c flow where body: "body s = Some (a, c)" and condition: "condition (a, c\<lparr>ctx_flow := flow\<rparr>) = Some s'"
    using post_iteration [OF run] by blast
  show ?thesis
    using keeps_frame_trans [OF assms(3) [OF body]] assms(2) [OF condition] by simp
next
  case False
  then have "while_iteration (as_expr condition) (as_expr body) False s = Some (e, f, b, s')" using assms(1) by simp
  then obtain s1 where "condition s = Some s1" "body s1 = Some s'" using pre_iteration by meson
  then show ?thesis using keeps_frame_trans [OF assms(2) assms(3)] by blast
qed

lemma keeps_frame_prog: "lower_prog up p s = Some s' \<Longrightarrow> keeps_frame s s'"
proof (induction p arbitrary: s s')
  case (UseP place)
  then show ?case by (auto simp: keeps_frame_def dest: reports_available)
next
  case (MoveP place)
  then show ?case
    by (auto simp: keeps_frame_def mark_moved_def split: if_splits Option.bind_splits dest: reports_available)
next
  case (InitP place)
  then show ?case by (auto simp: keeps_frame_def mark_initialized_def split: if_splits Option.bind_splits)
next
  case (SeqP p q)
  then obtain s1 where "lower_prog up p s = Some s1" "lower_prog up q s1 = Some s'" by (auto split: Option.bind_splits)
  then show ?case using keeps_frame_trans [OF SeqP.IH(1) SeqP.IH(2)] by blast
next
  case (BranchP p q)
  then obtain s1 s2 where "lower_prog up p s = Some s1" "lower_prog up q (with_flow (ctx_flow (snd s)) s1) = Some s2"
      and s': "s' = with_flow (join_flows [ctx_flow (snd s1), ctx_flow (snd s2)]) s2"
    by (auto split: Option.bind_splits)
  then have "keeps_frame s s1" "keeps_frame s1 s2" using BranchP.IH(1) BranchP.IH(2) [of "with_flow (ctx_flow (snd s)) s1"] by simp_all
  then show ?case using keeps_frame_trans [of s s1 s2] s' by simp
next
  case (WhileP condition body post_test)
  obtain a c where s: "s = (a, c)" by (cases s)
  have "lower_prog up (WhileP condition body post_test) (a, c) = Some s'" using WhileP.prems s by simp
  then obtain e f b s1 frame backedges s2 where
      iteration: "while_iteration (as_expr (lower_prog up condition)) (as_expr (lower_prog up body)) post_test
        (a, push_loop (Some UnitTy) True c) = Some (e, f, b, s1)"
      and pop: "pop_loop (ctx_flow c) (outer_local_ids c) b s1 = Some (frame, backedges, s2)"
      and s': "s' = with_flow (join_flows (break_flows frame @ [f] @ backedges)) s2"
    using lowered_while by meson
  show ?case using keeps_frame_pop_loop(1) [OF pop keeps_frame_iteration [OF iteration WhileP.IH]] s s' by simp
next
  case (LoopP body)
  obtain a c where s: "s = (a, c)" by (cases s)
  have "lower_prog up (LoopP body) (a, c) = Some s'" using LoopP.prems s by simp
  then obtain s1 frame backedges s2 where
      body: "lower_prog up body (a, push_loop None False c) = Some s1"
      and pop: "pop_loop (ctx_flow c) (outer_local_ids c) (ctx_flow (snd s1)) s1 = Some (frame, backedges, s2)"
      and s': "s' = with_flow (join_flows (break_flows frame)) s2"
    using lowered_loop by meson
  show ?case using keeps_frame_pop_loop(1) [OF pop LoopP.IH [OF body]] s s' by simp
next
  case BreakP
  then show ?case by (auto simp: without_result_def dest: keeps_frame_break)
next
  case ContinueP
  then show ?case by (auto simp: without_result_def dest: keeps_frame_continue)
next
  case (ScopeP ls p)
  then have "\<exists>c1 s1 c2. declare_locals ls (push_scope (snd s)) = Some c1 \<and> lower_prog up p (fst s, c1) = Some s1 \<and>
      pop_scope (snd s1) = Some c2 \<and> s' = (fst s1, c2)"
    by (auto split: Option.bind_splits)
  then obtain c1 s1 c2 where 1: "declare_locals ls (push_scope (snd s)) = Some c1" "keeps_frame (fst s, c1) s1"
      "pop_scope (snd s1) = Some c2" "s' = (fst s1, c2)"
    using ScopeP.IH by blast
  then show ?case
    using declare_locals_frame [OF 1(1)] pop_scope_simps [OF 1(3)]
    by (simp add: keeps_frame_def push_scope_def)
qed

end
