(* ===== verification/Moves_Checked.thy ===== *)
theory Moves_Checked
  imports Control_Soundness
begin

text \<open>
  A program that lowers without a message never uses a moved value.  The loop check is a further law of
  the domain of the flows; \<open>states_upto\<close> has it.
\<close>

subsection \<open>Locals of the states\<close>

definition within :: "local_id set \<Rightarrow> place_key set \<Rightarrow> bool" where
  "within ids u \<longleftrightarrow> pk_local ` u \<subseteq> ids"

fun outcome_within :: "local_id set \<Rightarrow> outcome \<Rightarrow> bool" where
  "outcome_within ids (Normal u) = within ids u"
| "outcome_within ids (Broke u) = within ids u"
| "outcome_within ids (Continued u) = within ids u"
| "outcome_within ids UsedMoved = True"

definition leaves_in :: "'m ownership_analyzer_scheme \<Rightarrow> hir_place \<Rightarrow> place_key set" where
  "leaves_in a place = (case place_leaf_keys a place of None \<Rightarrow> {} | Some leaves \<Rightarrow> set leaves)"

lemma leaves_in_local:
  assumes "finite (dom (struct_layouts a))"
  shows "pk_local ` leaves_in a place \<subseteq> {hp_local place}"
  using append_leaf_keys_ok [OF assms, of "{}" "place_key_of place" "hp_ty place"]
  by (auto simp: leaves_in_def place_leaf_keys_def leaves_ok_def place_key_of_def)

lemma within_forget: "within (ids \<union> gone) u \<Longrightarrow> within ids (forget gone u)"
  by (auto simp: within_def forget_def)

lemma repeats_induct:
  assumes "repeats turn u r" "holds u"
    and "\<And>u v. holds u \<Longrightarrow> turn u (Again v) \<Longrightarrow> holds v"
    and "\<And>u v. holds u \<Longrightarrow> turn u (Leave v) \<Longrightarrow> P (Normal v)"
    and "\<And>u. holds u \<Longrightarrow> turn u Fault \<Longrightarrow> P UsedMoved"
  shows "P r"
  using assms(1, 2) by (induction rule: repeats.induct) (use assms(3-) in blast)+

lemma exec_within:
  assumes leaves: "\<And>place. pk_local ` leaves place \<subseteq> {hp_local place}"
  shows "prog_ok in_loop ids p \<Longrightarrow> within ids u \<Longrightarrow> exec leaves p u r \<Longrightarrow> outcome_within ids r"
proof (induction p arbitrary: in_loop ids u r)
  case (MoveP place)
  then show ?case using leaves [of place] by (auto simp: within_def split: if_splits)
next
  case (InitP place)
  then show ?case by (auto simp: within_def)
next
  case (SeqP p q)
  then consider v where "exec leaves p u (Normal v)" "exec leaves q v r" | "exec leaves p u r" by auto
  then show ?case
  proof cases
    case 1
    then have "outcome_within ids (Normal v)" using SeqP.IH(1) SeqP.prems by fastforce
    then show ?thesis using SeqP.IH(2) SeqP.prems(1) 1(2) by fastforce
  next
    case 2
    then show ?thesis using SeqP.IH(1) SeqP.prems by fastforce
  qed
next
  case (WhileP condition body post_test)
  have condition: "within ids u \<Longrightarrow> exec leaves condition u r \<Longrightarrow> outcome_within ids r" for u r
    using WhileP.IH(1) WhileP.prems(1) unfolding prog_ok.simps by blast
  have body: "within ids u \<Longrightarrow> exec leaves body u r \<Longrightarrow> outcome_within ids r" for u r
    using WhileP.IH(2) WhileP.prems(1) unfolding prog_ok.simps by blast
  let ?turn = "(if post_test then post_turn else while_turn) (exec leaves condition) (exec leaves body)"
  have turn: "within ids v" if "?turn u (Again v) \<or> ?turn u (Leave v)" "within ids u" for u v
    using that condition body by (auto split: if_splits elim!: while_turnE post_turnE; fastforce)
  have "repeats ?turn u r" using WhileP.prems by simp
  then show ?case
    by (rule repeats_induct [where holds = "within ids"]) (use WhileP.prems turn in auto)
next
  case (LoopP body)
  have body: "within ids u \<Longrightarrow> exec leaves body u r \<Longrightarrow> outcome_within ids r" for u r
    using LoopP.IH LoopP.prems(1) unfolding prog_ok.simps by blast
  have turn: "within ids v" if "loop_turn (exec leaves body) u (Again v) \<or> loop_turn (exec leaves body) u (Leave v)"
      "within ids u" for u v
    using that body by (auto elim!: loop_turnE; fastforce)
  have "repeats (loop_turn (exec leaves body)) u r" using LoopP.prems by simp
  then show ?case
    by (rule repeats_induct [where holds = "within ids"]) (use LoopP.prems turn in auto)
next
  case (ScopeP ls p)
  then obtain r' where "exec leaves p u r'" and r: "r = map_outcome (forget (local_ids_of ls)) r'" by auto
  then have "outcome_within (ids \<union> local_ids_of ls) r'"
    using ScopeP.IH [of in_loop "ids \<union> local_ids_of ls" u r'] ScopeP.prems by (auto simp: within_def)
  then show ?case by (cases r') (auto simp: r within_forget)
qed (auto split: if_splits)

subsection \<open>The checks\<close>

locale looping_domain = flow_domain +
  assumes backedge: "w \<in> states entry \<Longrightarrow> u \<in> states edge \<Longrightarrow> within ids u \<Longrightarrow>
      (\<And>local. local \<in> ids \<Longrightarrow> \<not> loop_carried entry edge local) \<Longrightarrow> u \<in> states entry"

lemma not_carried_below:
  assumes "\<not> loop_carried entry edge local" "place \<in> unavailable_upto edge" "pk_local place = local"
  shows "place \<in> unavailable_upto entry"
proof -
  have projected: "\<Union>(set (projected_uninitialized_alternatives f local)) = {p \<in> unavailable_upto f. pk_local p = local}" for f
    by (auto simp: projected_uninitialized_alternatives_def unavailable_upto_def)
  consider "alternative_sets_equal (projected_uninitialized_alternatives entry local) (projected_uninitialized_alternatives edge local)"
    | "list_all (\<lambda>alternative. alternative = {}) (projected_uninitialized_alternatives edge local)"
    using assms(1) by (auto simp: loop_carried_def Let_def)
  then have "place \<in> {p \<in> unavailable_upto entry. pk_local p = local}"
  proof cases
    case 1
    then have "\<Union>(set (projected_uninitialized_alternatives entry local)) = \<Union>(set (projected_uninitialized_alternatives edge local))"
      using equal_alternatives unfolding projected_uninitialized_alternatives_def by metis
    then show ?thesis using assms(2, 3) projected by auto
  next
    case 2
    then have "\<Union>(set (projected_uninitialized_alternatives edge local)) = {}" by (auto simp: list_all_iff)
    then show ?thesis using assms(2, 3) projected [of edge] by blast
  qed
  then show ?thesis by simp
qed

interpretation checked: looping_domain states_upto
proof unfold_locales
  fix w entry u edge ids
  assume "w \<in> states_upto entry" "u \<in> states_upto edge" "within ids u"
    and free: "\<And>local. local \<in> ids \<Longrightarrow> \<not> loop_carried entry edge local"
  moreover have "u \<subseteq> unavailable_upto entry"
  proof
    fix place assume "place \<in> u"
    then have "pk_local place \<in> ids" "place \<in> unavailable_upto edge"
      using calculation(2, 3) by (auto simp: within_def states_upto_iff)
    then show "place \<in> unavailable_upto entry" using not_carried_below [OF free] by blast
  qed
  ultimately show "u \<in> states_upto entry" by (auto simp: states_upto_iff)
qed

definition left :: "('e, 'n) lower_ctx_scheme \<Rightarrow> nat \<Rightarrow> place_key set \<Rightarrow> place_key set" where
  "left c depth u = forget (\<Union>scope \<in> set (List.drop depth (scopes c)). set (scope_frame_locals scope)) u"

lemma left_all: "left c (length (scopes c)) u = u"
  by (simp add: left_def forget_def)

definition frames_ok :: "('e, 'n) lower_ctx_scheme \<Rightarrow> bool" where
  "frames_ok c \<longleftrightarrow> (\<forall>frame \<in> set (loops c). scope_depth frame \<le> length (scopes c))"

lemma frames_ok_push_loop: "frames_ok c \<Longrightarrow> frames_ok (push_loop result unit c)"
  by (auto simp: frames_ok_def push_loop_def)

lemma frames_ok_framed:
  assumes "keeps_frame (a, c) (a', c')" "frames_ok c"
  shows "frames_ok c'"
  unfolding frames_ok_def
proof
  fix frame assume "frame \<in> set (loops c')"
  then obtain g where "g \<in> set (loops c)" "grows g frame"
    using assms(1) unfolding keeps_frame_def by (auto simp: list_all2_conv_all_nth) (metis in_set_conv_nth)
  then show "scope_depth frame \<le> length (scopes c')"
    using assms by (auto simp: grows_def frames_ok_def keeps_frame_def)
qed

lemma outer_ids_framed: "keeps_frame (a, c) (a', c') \<Longrightarrow> outer_local_ids c' = outer_local_ids c"
  by (simp add: keeps_frame_def outer_local_ids_def)

lemma outer_ids_push_loop [simp]: "outer_local_ids (push_loop result unit c) = outer_local_ids c"
  by (simp add: push_loop_def outer_local_ids_def)

lemma flow_push_loop [simp]: "ctx_flow (push_loop result unit c) = ctx_flow c"
  by (simp add: push_loop_def)

lemma finite_outer_ids [simp]: "finite (outer_local_ids c)"
  by (simp add: outer_local_ids_def)

text \<open>A step between two states with the same messages reports nothing on the way.\<close>

lemma silent_between: "keeps_frame (a, c) (a1, c1) \<Longrightarrow> keeps_frame (a1, c1) (a, c2) \<Longrightarrow> a1 = a"
  using reports_antisym [of a a1] by (simp add: keeps_frame_def)

lemma silent_pop_loop:
  assumes "pop_loop entry ids b s1 = Some (frame, backedges, s2)" "keeps_frame (a, push_loop result unit c) s1" "fst s2 = a" "finite ids"
  shows "fst s1 = a" "backedge \<in> set backedges \<Longrightarrow> local \<in> ids \<Longrightarrow> \<not> loop_carried entry backedge local"
proof -
  have fold: "fst s2 = fold (reject_loop_carried_moves entry ids) backedges (fst s1)"
    by (rule keeps_frame_pop_loop(6) [OF assms(1, 2)])
  have "reports a (fst s1)" "reports (fst s1) a"
    using assms(2) reports_rejects [of "fst s1" entry ids backedges] fold assms(3) by (simp_all add: keeps_frame_def)
  then show 1: "fst s1 = a" by (rule reports_antisym)
  show "backedge \<in> set backedges \<Longrightarrow> local \<in> ids \<Longrightarrow> \<not> loop_carried entry backedge local"
    using rejects_silent [OF assms(4), of entry backedges a] fold 1 assms(3) by simp
qed

context flow_domain begin

fun outcome_ok :: "('e, 'n) lower_ctx_scheme \<Rightarrow> outcome \<Rightarrow> bool" where
  "outcome_ok c (Normal u) = (u \<in> states (ctx_flow c))"
| "outcome_ok c (Broke u) =
     (\<exists>frame f. top_frame c = Some frame \<and> f \<in> set (break_flows frame) \<and> left c (scope_depth frame) u \<in> states f)"
| "outcome_ok c (Continued u) =
     (\<exists>frame f. top_frame c = Some frame \<and> f \<in> set (continue_flows frame) \<and> left c (scope_depth frame) u \<in> states f)"
| "outcome_ok c UsedMoved = False"

lemma top_frame_grows:
  assumes "keeps_frame (a, c) (a', c')" "top_frame c = Some frame"
  obtains frame' where "top_frame c' = Some frame'" "grows frame frame'"
  using assms all_grow_last [of "loops c" "loops c'"] by (auto simp: keeps_frame_def top_frame_def split: if_splits)

lemma outcome_ok_grows:
  assumes "keeps_frame (a, c) (a', c')" "outcome_ok c r" "\<And>u. r \<noteq> Normal u"
  shows "outcome_ok c' r"
proof -
  have left: "left c' = left c" using assms(1) by (intro ext) (simp add: left_def keeps_frame_def)
  show ?thesis
  proof (cases r)
    case (Broke u)
    then obtain frame f where 1: "top_frame c = Some frame" "f \<in> set (break_flows frame)" "left c (scope_depth frame) u \<in> states f"
      using assms(2) by auto
    obtain frame' where "top_frame c' = Some frame'" "grows frame frame'" by (rule top_frame_grows [OF assms(1) 1(1)])
    then show ?thesis using 1 Broke left by (auto simp: grows_def dest: set_mono_prefix)
  next
    case (Continued u)
    then obtain frame f where 1: "top_frame c = Some frame" "f \<in> set (continue_flows frame)" "left c (scope_depth frame) u \<in> states f"
      using assms(2) by auto
    obtain frame' where "top_frame c' = Some frame'" "grows frame frame'" by (rule top_frame_grows [OF assms(1) 1(1)])
    then show ?thesis using 1 Continued left by (auto simp: grows_def dest: set_mono_prefix)
  qed (use assms in simp_all)
qed

lemma if_reachable_in: "u \<in> states f \<Longrightarrow> f \<in> set (if_reachable f)"
  using reachable [of u f] by (simp add: if_reachable_def)

text \<open>The jumps out of the body of a loop end at its frame.\<close>

lemma jumps_of_body:
  assumes "keeps_frame (a, push_loop result unit c) (a1, c1)" "top_frame c1 = Some frame"
  shows "outcome_ok c1 (Broke u) = (\<exists>f \<in> set (break_flows frame). u \<in> states f)"
    "outcome_ok c1 (Continued u) = (\<exists>f \<in> set (continue_flows frame). u \<in> states f)"
proof -
  have "top_frame (push_loop result unit c) =
      Some \<lparr>lf_result_ty = result, unit_only = unit, scope_depth = length (scopes c), break_flows = [], continue_flows = []\<rparr>"
    by (simp add: push_loop_def top_frame_def)
  from top_frame_grows [OF assms(1) this] have "scope_depth frame = length (scopes c)"
    using assms(2) by (auto simp: grows_def)
  moreover have "scopes c1 = scopes c" using assms(1) by (simp add: keeps_frame_def push_loop_def)
  ultimately have "left c1 (scope_depth frame) = (\<lambda>u. u)" using left_all [of c1] by (simp add: fun_eq_iff)
  then show "outcome_ok c1 (Broke u) = (\<exists>f \<in> set (break_flows frame). u \<in> states f)"
    "outcome_ok c1 (Continued u) = (\<exists>f \<in> set (continue_flows frame). u \<in> states f)"
    using assms(2) by auto
qed

end

context looping_domain begin

definition starts :: "local_id set \<Rightarrow> ('e, 'n) lower_ctx_scheme \<Rightarrow> place_key set \<Rightarrow> bool" where
  "starts ids c u \<longleftrightarrow> outer_local_ids c = ids \<and> frames_ok c \<and> u \<in> states (ctx_flow c) \<and> within ids u"

lemma starts_push_loop: "starts ids c u \<Longrightarrow> starts ids (push_loop result unit c) u"
  by (simp add: starts_def frames_ok_push_loop)

lemma starts_framed:
  "starts ids c u \<Longrightarrow> keeps_frame (a, c) (a', c') \<Longrightarrow> v \<in> states (ctx_flow c') \<Longrightarrow> within ids v \<Longrightarrow> starts ids c' v"
  unfolding starts_def using frames_ok_framed outer_ids_framed by blast

lemma available_silent:
  assumes "ensure_available place c a = Some a" "u \<in> states (ctx_flow c)"
  shows "leaves_in a place \<inter> u = {}"
proof -
  obtain leaves where "place_leaf_keys a place = Some leaves" "initialization_status (ctx_flow c) leaves = InitializedStatus"
    using assms reachable [OF assms(2)] report_changes
    by (auto simp: ensure_available_def split: Option.bind_splits initialization_status.splits)
  then show ?thesis using available [OF assms(2)] by (simp add: leaves_in_def)
qed

lemma moved_silent:
  assumes "mark_moved a place c = Some c'" "u \<in> states (ctx_flow c)"
  shows "u \<union> leaves_in a place \<in> states (ctx_flow c')"
  using assms moved [OF assms(2)] reachable [OF assms(2)]
  by (auto simp: mark_moved_def leaves_in_def split: Option.bind_splits)

lemma initialized_silent:
  assumes "mark_initialized a place c = Some (kind, c')" "u \<in> states (ctx_flow c)"
  shows "u - leaves_in a place \<in> states (ctx_flow c')"
  using assms initialized [OF assms(2)] reachable [OF assms(2)]
  by (auto simp: mark_initialized_def leaves_in_def split: Option.bind_splits)

text \<open>All turns of a loop start in a state of its entry.\<close>

lemma turns_ok:
  assumes "repeats turn u r" "u \<in> states entry" "within ids u"
    and again: "\<And>u v. u \<in> states entry \<Longrightarrow> within ids u \<Longrightarrow> turn u (Again v) \<Longrightarrow>
      within ids v \<and> (\<exists>f \<in> set backedges. v \<in> states f)"
    and leave: "\<And>u v. u \<in> states entry \<Longrightarrow> within ids u \<Longrightarrow> turn u (Leave v) \<Longrightarrow> \<exists>f \<in> set exits. v \<in> states f"
    and no_fault: "\<And>u. u \<in> states entry \<Longrightarrow> within ids u \<Longrightarrow> \<not> turn u Fault"
    and checked: "\<And>f local. f \<in> set backedges \<Longrightarrow> local \<in> ids \<Longrightarrow> \<not> loop_carried entry f local"
  shows "\<exists>v. r = Normal v \<and> v \<in> states (join_flows exits)"
  using assms(1)
proof (rule repeats_induct [where holds = "\<lambda>u. u \<in> states entry \<and> within ids u"])
  show "u \<in> states entry \<and> within ids u" using assms(2, 3) by blast
next
  fix u v assume u: "u \<in> states entry \<and> within ids u" and "turn u (Again v)"
  then obtain f where "within ids v" "f \<in> set backedges" "v \<in> states f" using again by blast
  then show "v \<in> states entry \<and> within ids v" using backedge [of u entry v f ids] u checked by blast
next
  fix u v assume "u \<in> states entry \<and> within ids u" "turn u (Leave v)"
  then obtain f where "f \<in> set exits" "v \<in> states f" using leave by blast
  then have "v \<in> states (join_flows exits)" by (intro joined)
  then show "\<exists>w. Normal v = Normal w \<and> w \<in> states (join_flows exits)" by simp
next
  fix u assume "u \<in> states entry \<and> within ids u" "turn u Fault"
  then show "\<exists>v. UsedMoved = Normal v \<and> v \<in> states (join_flows exits)" using no_fault by blast
qed

lemma sound_jump:
  assumes "jump add (scope_depth frame) c = Some c'" "top_frame c = Some frame" "u \<in> states (ctx_flow c)"
  shows "\<exists>f. top_frame c' = Some (add f frame) \<and> scopes c' = scopes c \<and> left c (scope_depth frame) u \<in> states f"
proof -
  obtain f where "flow_without_scopes_from c (scope_depth frame) (ctx_flow c) = Some f"
      "scopes c' = scopes c" "top_frame c' = Some (add f frame)"
    using assms reachable [OF assms(3)]
    by (auto simp: jump_def map_top_frame_def top_frame_def unreachable_def split: if_splits Option.bind_splits)
  then show ?thesis using left_scopes [OF assms(3)] by (auto simp: left_def)
qed

lemma sound_break:
  assumes "lower_prog up BreakP (a, c) = Some (a, c')" "u \<in> states (ctx_flow c)"
  shows "outcome_ok c' (Broke u)"
proof -
  obtain e where lowered: "lower_break up None (a, c) = Some (e, (a, c'))"
    using assms(1) by (auto simp: without_result_def)
  have "top_frame c \<noteq> None"
  proof
    assume "top_frame c = None"
    then have "\<exists>m. report m a = a" using lowered by (auto simp: lower_break_def lower_break_value_def)
    then show False using report_changes by blast
  qed
  then obtain frame where frame: "top_frame c = Some frame" by blast
  obtain c1 frame1 where "jump add_break (scope_depth frame) c1 = Some c'" "top_frame c1 = Some frame1"
      "scope_depth frame1 = scope_depth frame" "ctx_flow c1 = ctx_flow c" "scopes c1 = scopes c"
  proof (cases "unit_only frame")
    case True
    then have "jump add_break (scope_depth frame) c = Some c'"
      using lowered frame by (auto simp: lower_break_def lower_break_value_def split: Option.bind_splits)
    then show ?thesis using frame by (rule that) simp_all
  next
    case False
    then obtain a1 c1 where "set_break_type up (lf_result_ty frame) UnitTy (a, c) = Some (a1, c1)"
        "jump add_break (scope_depth frame) c1 = Some c'"
      using lowered frame by (auto simp: lower_break_def lower_break_value_def split: Option.bind_splits)
    moreover obtain t where "map_top_frame (\<lambda>frame. frame\<lparr>lf_result_ty := Some t\<rparr>) c = Some c1"
      using calculation(1) by (auto simp: set_break_type_def split: prod.splits)
    ultimately show ?thesis
      using frame by (intro that [of c1 "frame\<lparr>lf_result_ty := Some t\<rparr>"])
        (auto simp: map_top_frame_def top_frame_def split: if_splits)
  qed
  then show ?thesis using sound_jump [of add_break frame1 c1 c' u] assms(2) by (force simp: left_def add_break_def)
qed

lemma sound_continue:
  assumes "lower_prog up ContinueP (a, c) = Some (a, c')" "u \<in> states (ctx_flow c)"
  shows "outcome_ok c' (Continued u)"
proof -
  obtain e where lowered: "lower_continue (a, c) = Some (e, (a, c'))"
    using assms(1) by (auto simp: without_result_def)
  have "top_frame c \<noteq> None"
  proof
    assume "top_frame c = None"
    then have "\<exists>m. report m a = a" using lowered by (auto simp: lower_continue_def)
    then show False using report_changes by blast
  qed
  then obtain frame where "top_frame c = Some frame" "jump add_continue (scope_depth frame) c = Some c'"
    using lowered by (auto simp: lower_continue_def split: Option.bind_splits)
  then show ?thesis using sound_jump [of add_continue frame c c' u] assms(2) by (force simp: left_def add_continue_def)
qed

definition sound :: "(code_point \<Rightarrow> bool) \<Rightarrow> 'm ownership_analyzer_scheme \<Rightarrow> place_prog \<Rightarrow> bool" where
  "sound up a p \<longleftrightarrow>
     (\<forall>in_loop ids c c' u r. lower_prog up p (a, c) = Some (a, c') \<longrightarrow> prog_ok in_loop ids p \<longrightarrow> starts ids c u \<longrightarrow>
        exec (leaves_in a) p u r \<longrightarrow> outcome_ok c' r)"

lemma soundI:
  "(\<And>in_loop ids c c' u r. lower_prog up p (a, c) = Some (a, c') \<Longrightarrow> prog_ok in_loop ids p \<Longrightarrow> starts ids c u \<Longrightarrow>
     exec (leaves_in a) p u r \<Longrightarrow> outcome_ok c' r) \<Longrightarrow> sound up a p"
  unfolding sound_def by blast

lemma soundD:
  "sound up a p \<Longrightarrow> lower_prog up p (a, c) = Some (a, c') \<Longrightarrow> prog_ok in_loop ids p \<Longrightarrow> starts ids c u \<Longrightarrow>
   exec (leaves_in a) p u r \<Longrightarrow> outcome_ok c' r"
  unfolding sound_def by blast

lemma sound_seq:
  assumes finite: "finite (dom (struct_layouts a))" and p: "sound up a p" and q: "sound up a q"
  shows "sound up a (SeqP p q)"
proof (rule soundI)
  fix in_loop ids c c' u r
  assume lowered: "lower_prog up (SeqP p q) (a, c) = Some (a, c')" and ok: "prog_ok in_loop ids (SeqP p q)"
    and u: "starts ids c u" and run: "exec (leaves_in a) (SeqP p q) u r"
  have ok_p: "prog_ok in_loop ids p" and ok_q: "prog_ok in_loop ids q" using ok by simp_all
  obtain a1 c1 where 1: "lower_prog up p (a, c) = Some (a1, c1)" "lower_prog up q (a1, c1) = Some (a, c')"
    using lowered by (auto split: Option.bind_splits)
  have a1: "a1 = a" by (rule silent_between [OF keeps_frame_prog [OF 1(1)] keeps_frame_prog [OF 1(2)]])
  consider v where "exec (leaves_in a) p u (Normal v)" "exec (leaves_in a) q v r"
    | "exec (leaves_in a) p u r" "\<And>v. r \<noteq> Normal v"
    using run by auto
  then show "outcome_ok c' r"
  proof cases
    case (1 v)
    have "v \<in> states (ctx_flow c1)"
      using soundD [OF p \<open>lower_prog up p (a, c) = Some (a1, c1)\<close> [unfolded a1] ok_p u 1(1)] by simp
    moreover have "within ids v"
      using exec_within [OF leaves_in_local [OF finite] ok_p _ 1(1)] u by (simp add: starts_def)
    ultimately have "starts ids c1 v"
      using starts_framed [OF u keeps_frame_prog [OF \<open>lower_prog up p (a, c) = Some (a1, c1)\<close>]] by blast
    then show ?thesis
      using soundD [OF q \<open>lower_prog up q (a1, c1) = Some (a, c')\<close> [unfolded a1] ok_q _ 1(2)] by blast
  next
    case 2
    have "outcome_ok c1 r"
      using soundD [OF p \<open>lower_prog up p (a, c) = Some (a1, c1)\<close> [unfolded a1] ok_p u 2(1)] .
    then show ?thesis
      using outcome_ok_grows [OF keeps_frame_prog [OF \<open>lower_prog up q (a1, c1) = Some (a, c')\<close>] _ 2(2)] by blast
  qed
qed

lemma outcome_ok_flow:
  "\<forall>u. r \<noteq> Normal u \<Longrightarrow> outcome_ok (c\<lparr>ctx_flow := f\<rparr>) r = outcome_ok c r"
  by (cases r) (simp_all add: top_frame_def left_def)

lemma sound_branch:
  assumes p: "sound up a p" and q: "sound up a q"
  shows "sound up a (BranchP p q)"
proof (rule soundI)
  fix in_loop ids c c' u r
  assume lowered: "lower_prog up (BranchP p q) (a, c) = Some (a, c')" and ok: "prog_ok in_loop ids (BranchP p q)"
    and u: "starts ids c u" and run: "exec (leaves_in a) (BranchP p q) u r"
  have ok_p: "prog_ok in_loop ids p" and ok_q: "prog_ok in_loop ids q" using ok by simp_all
  obtain a1 c1 c2 where 1: "lower_prog up p (a, c) = Some (a1, c1)"
      "lower_prog up q (a1, c1\<lparr>ctx_flow := ctx_flow c\<rparr>) = Some (a, c2)"
      "c' = c2\<lparr>ctx_flow := join_flows [ctx_flow c1, ctx_flow c2]\<rparr>"
    using lowered by (auto simp: with_flow_def split: Option.bind_splits)
  have keeps_frame: "keeps_frame (a, c) (a1, c1)" "keeps_frame (a1, c1) (a, c2)"
    using keeps_frame_prog [OF 1(1)] keeps_frame_prog [OF 1(2)] by simp_all
  have a1: "a1 = a" by (rule silent_between [OF keeps_frame])
  show "outcome_ok c' r"
  proof (cases "exec (leaves_in a) p u r")
    case True
    have end_p: "outcome_ok c1 r"
      using soundD [OF p 1(1) [unfolded a1] ok_p u True] .
    show ?thesis
    proof (cases "\<exists>v. r = Normal v")
      case True
      then show ?thesis using end_p joined 1(3) by auto
    next
      case False
      then show ?thesis
        using outcome_ok_grows [OF keeps_frame(2) end_p] by (simp add: 1(3) outcome_ok_flow)
    qed
  next
    case False
    then have run: "exec (leaves_in a) q u r" using run by simp
    have "starts ids (c1\<lparr>ctx_flow := ctx_flow c\<rparr>) u"
      by (rule starts_framed [OF u, of a a1]) (use keeps_frame u in \<open>simp_all add: starts_def\<close>)
    then have end_q: "outcome_ok c2 r"
      using soundD [OF q 1(2) [unfolded a1] ok_q _ run] by blast
    have "v \<in> states (join_flows [ctx_flow c1, ctx_flow c2])" if "v \<in> states (ctx_flow c2)" for v
      by (rule joined [OF that]) simp
    then show ?thesis
      using end_q by (cases "\<exists>v. r = Normal v") (auto simp: 1(3) outcome_ok_flow)
  qed
qed

lemma sound_loop:
  assumes finite: "finite (dom (struct_layouts a))" and body: "sound up a body"
  shows "sound up a (LoopP body)"
proof (rule soundI)
  fix in_loop ids c c' u r
  assume lowered: "lower_prog up (LoopP body) (a, c) = Some (a, c')" and ok: "prog_ok in_loop ids (LoopP body)"
    and u: "starts ids c u" and run: "exec (leaves_in a) (LoopP body) u r"
  obtain s1 frame backedges s2 where run_body: "lower_prog up body (a, push_loop None False c) = Some s1"
      and pop: "pop_loop (ctx_flow c) (outer_local_ids c) (ctx_flow (snd s1)) s1 = Some (frame, backedges, s2)"
      and end_loop: "(a, c') = with_flow (join_flows (break_flows frame)) s2"
    using lowered_loop [OF lowered] by blast
  note keeps_frame = keeps_frame_prog [OF run_body]
  note frame = keeps_frame_pop_loop [OF pop keeps_frame]
  note quiet = silent_pop_loop [OF pop keeps_frame _ finite_outer_ids]
  have a: "fst s2 = a" using end_loop by (simp add: with_flow_def)
  obtain c1 where s1: "s1 = (a, c1)" using quiet(1) [OF a] by (cases s1) simp
  have top: "top_frame c1 = Some frame" using frame(2, 3) by (simp add: s1 top_frame_def)
  note jumps = jumps_of_body [OF keeps_frame [unfolded s1] top]
  have end_body: "outcome_ok c1 r" if "exec (leaves_in a) body v r" "v \<in> states (ctx_flow c)" "within ids v" for v r
  proof -
    have "starts ids (push_loop None False c) v"
      by (rule starts_push_loop) (use u that in \<open>simp add: starts_def\<close>)
    then show ?thesis using soundD [OF body run_body [unfolded s1] _ _ that(1)] ok by simp
  qed
  have stays: "within ids w" if "exec (leaves_in a) body v (Normal w) \<or> exec (leaves_in a) body v (Continued w)"
      "within ids v" for v w
    using that exec_within [OF leaves_in_local [OF finite], of True ids body v] ok by fastforce
  have "\<exists>v. r = Normal v \<and> v \<in> states (join_flows (break_flows frame))"
  proof (rule turns_ok [where turn = "loop_turn (exec (leaves_in a) body)" and u = u and entry = "ctx_flow c" and ids = ids and
        backedges = backedges])
    show "repeats (loop_turn (exec (leaves_in a) body)) u r" using run by simp
    show "u \<in> states (ctx_flow c)" "within ids u" using u by (simp_all add: starts_def)
  next
    fix v w assume v: "v \<in> states (ctx_flow c)" "within ids v" and turn: "loop_turn (exec (leaves_in a) body) v (Again w)"
    from turn have "\<exists>f \<in> set backedges. w \<in> states f"
      using end_body [OF _ v] jumps(2) if_reachable_in frame(5) s1
      by (elim loop_turnE) fastforce+
    then show "within ids w \<and> (\<exists>f \<in> set backedges. w \<in> states f)"
      using turn stays v(2) by (auto elim!: loop_turnE)
  next
    fix v w assume v: "v \<in> states (ctx_flow c)" "within ids v" and "loop_turn (exec (leaves_in a) body) v (Leave w)"
    then show "\<exists>f \<in> set (break_flows frame). w \<in> states f"
      using end_body [OF _ v, of "Broke w"] jumps(1) by (auto elim!: loop_turnE)
  next
    fix v assume v: "v \<in> states (ctx_flow c)" "within ids v"
    show "\<not> loop_turn (exec (leaves_in a) body) v Fault"
      using end_body [OF _ v, of UsedMoved] by (auto elim!: loop_turnE)
  next
    fix f local assume "f \<in> set backedges" "local \<in> ids"
    then show "\<not> loop_carried (ctx_flow c) f local"
      using quiet(2) [OF a] u by (simp add: starts_def)
  qed
  then show "outcome_ok c' r" using end_loop by (auto simp: with_flow_def)
qed

lemma sound_scope:
  assumes p: "sound up a p"
  shows "sound up a (ScopeP ls p)"
proof (rule soundI)
  fix in_loop ids c c' u r
  assume lowered: "lower_prog up (ScopeP ls p) (a, c) = Some (a, c')" and ok: "prog_ok in_loop ids (ScopeP ls p)"
    and u: "starts ids c u" and run: "exec (leaves_in a) (ScopeP ls p) u r"
  let ?gone = "local_ids_of ls"
  obtain c1 c2 where declared: "declare_locals ls (push_scope c) = Some c1" and run_p: "lower_prog up p (a, c1) = Some (a, c2)"
      and popped: "pop_scope c2 = Some c'"
    using lowered by (auto split: Option.bind_splits)
  have c1: "scopes c1 \<noteq> []" "butlast (scopes c1) = scopes c" "loops c1 = loops c" "ctx_flow c1 = ctx_flow c"
    using declare_locals_frame [OF declared] by (simp_all add: push_scope_def)
  have gone: "set (scope_frame_locals (List.last (scopes c1))) = ?gone"
    using declare_locals_ids [OF declared] ok by (simp add: push_scope_def new_scope_frame_def)
  have scopes1: "scopes c1 = scopes c @ [List.last (scopes c1)]"
    using append_butlast_last_id [OF c1(1)] c1(2) by simp
  have scopes2: "scopes c2 = scopes c1" using keeps_frame_prog [OF run_p] by (simp add: keeps_frame_def)
  have "outer_local_ids c1 = ids \<union> ?gone"
    unfolding outer_local_ids_def by (subst scopes1) (use u gone in \<open>auto simp: starts_def outer_local_ids_def\<close>)
  moreover have "frames_ok c1"
    using u scopes1 c1(3) by (metis frames_ok_def le_SucI length_append_singleton starts_def)
  ultimately have "starts (ids \<union> ?gone) c1 u"
    using u c1(4) by (auto simp: starts_def within_def)
  moreover obtain r' where r': "exec (leaves_in a) p u r'" "r = map_outcome (forget ?gone) r'" using run by auto
  moreover have "prog_ok in_loop (ids \<union> ?gone) p" using ok by simp
  ultimately have end_p: "outcome_ok c2 r'" using soundD [OF p run_p _ _ r'(1)] by blast
  have c': "scopes c' = scopes c" "loops c' = loops c2"
    "ctx_flow c' = normalize_uninitialized (forget_locals (scope_frame_locals (List.last (scopes c1)))
      (remove_loans (lexical_loans (List.last (scopes c1))) (ctx_flow c2)))"
    using popped c1(2) scopes2 by (auto simp: pop_scope_def Let_def split: if_splits)
  have frames: "frames_ok c'" using frames_ok_framed [OF keeps_frame_prog [OF lowered]] u by (simp add: starts_def)
  have left: "left c2 (scope_depth frame) v = left c' (scope_depth frame) (forget ?gone v)"
    if "top_frame c2 = Some frame" for frame v
  proof -
    have "frame \<in> set (loops c')" using that c'(2) by (auto simp: top_frame_def split: if_splits)
    then have "List.drop (scope_depth frame) (scopes c2) = List.drop (scope_depth frame) (scopes c') @ [List.last (scopes c1)]"
      using frames scopes1 scopes2 c'(1) by (metis append_same_eq drop_append diff_is_0_eq drop0 frames_ok_def)
    then show ?thesis using gone by (auto simp: left_def forget_def)
  qed
  have top: "top_frame c' = top_frame c2" using c'(2) by (simp add: top_frame_def)
  show "outcome_ok c' r"
  proof (cases r')
    case (Normal v)
    then have "v \<in> states (remove_loans (lexical_loans (List.last (scopes c1))) (ctx_flow c2))"
      using end_p by (simp add: remove_loans_def other_facts)
    from normalized [OF forgotten [OF this]] show ?thesis
      by (simp add: r' Normal c'(3) gone [symmetric])
  qed (use end_p left in \<open>auto simp: r'(2) top\<close>)
qed

lemma sound_while:
  assumes finite: "finite (dom (struct_layouts a))" and condition: "sound up a condition" and body: "sound up a body"
  shows "sound up a (WhileP condition body post_test)"
proof (rule soundI)
  fix in_loop ids c c' u r
  assume lowered: "lower_prog up (WhileP condition body post_test) (a, c) = Some (a, c')"
    and ok: "prog_ok in_loop ids (WhileP condition body post_test)"
    and u: "starts ids c u" and run: "exec (leaves_in a) (WhileP condition body post_test) u r"
  have ok_condition: "prog_ok True ids condition" and ok_body: "prog_ok True ids body" using ok by simp_all
  obtain e f b s1 frame backedges s2 where
      iteration: "while_iteration (as_expr (lower_prog up condition)) (as_expr (lower_prog up body)) post_test
        (a, push_loop (Some UnitTy) True c) = Some (e, f, b, s1)"
      and pop: "pop_loop (ctx_flow c) (outer_local_ids c) b s1 = Some (frame, backedges, s2)"
      and end_loop: "(a, c') = with_flow (join_flows (break_flows frame @ [f] @ backedges)) s2"
    using lowered_while [OF lowered] by blast
  have keeps_frame: "keeps_frame (a, push_loop (Some UnitTy) True c) s1"
    by (rule keeps_frame_iteration [OF iteration]) (rule keeps_frame_prog; assumption)+
  note frame = keeps_frame_pop_loop [OF pop keeps_frame]
  note quiet = silent_pop_loop [OF pop keeps_frame _ finite_outer_ids]
  have a: "fst s2 = a" using end_loop by (simp add: with_flow_def)
  obtain c1 where s1: "s1 = (a, c1)" using quiet(1) [OF a] by (cases s1) simp
  have top: "top_frame c1 = Some frame" using frame(2, 3) by (simp add: s1 top_frame_def)
  note jumps = jumps_of_body [OF keeps_frame [unfolded s1] top]
  let ?condition = "exec (leaves_in a) condition" and ?body = "exec (leaves_in a) body"
  let ?turn = "(if post_test then post_turn else while_turn) ?condition ?body"
  have in_condition: "within ids w" if "?condition v (Normal w)" "within ids v" for v w
    using that exec_within [OF leaves_in_local [OF finite] ok_condition, of v "Normal w"] by simp
  have in_body: "within ids w" if "?body v (Normal w) \<or> ?body v (Continued w)" "within ids v" for v w
    using that exec_within [OF leaves_in_local [OF finite] ok_body, of v] by fastforce
  have start: "starts ids (push_loop (Some UnitTy) True c) v" if "v \<in> states (ctx_flow c)" "within ids v" for v
    by (rule starts_push_loop) (use u that in \<open>simp add: starts_def\<close>)
  have turns: "(?turn v (Again w) \<longrightarrow> within ids w \<and> (\<exists>g \<in> set backedges. w \<in> states g)) \<and>
      (?turn v (Leave w) \<longrightarrow> (\<exists>g \<in> set (break_flows frame @ [f] @ backedges). w \<in> states g)) \<and> \<not> ?turn v Fault"
    if v: "v \<in> states (ctx_flow c)" "within ids v" for v w
  proof (cases post_test)
    case True
    then have run: "while_iteration (as_expr (lower_prog up condition)) (as_expr (lower_prog up body)) True
        (a, push_loop (Some UnitTy) True c) = Some (e, f, b, (a, c1))"
      using iteration s1 by simp
    obtain a2 c2 frame2 where run_body: "lower_prog up body (a, push_loop (Some UnitTy) True c) = Some (a2, c2)"
        and top2: "top_frame c2 = Some frame2"
        and run_condition: "lower_prog up condition
          (a2, c2\<lparr>ctx_flow := join_flows (continue_flows frame2 @ if_reachable (ctx_flow c2))\<rparr>) = Some (a, c1)"
        and flows: "f = ctx_flow c1" "b = ctx_flow c1"
      using post_iteration [OF run] by auto
    have keeps_frame2: "keeps_frame (a, push_loop (Some UnitTy) True c) (a2, c2)" "keeps_frame (a2, c2) (a, c1)"
      using keeps_frame_prog [OF run_body] keeps_frame_prog [OF run_condition] by simp_all
    have a2: "a2 = a" by (rule silent_between [OF keeps_frame2])
    let ?test = "c2\<lparr>ctx_flow := join_flows (continue_flows frame2 @ if_reachable (ctx_flow c2))\<rparr>"
    have end_body: "outcome_ok c2 r" if "?body v r" for r
      by (rule soundD [OF body run_body [unfolded a2] ok_body start [OF v] that])
    have leave: "\<exists>g \<in> set (break_flows frame). w \<in> states g" if "?body v (Broke w)" for w
      using outcome_ok_grows [OF keeps_frame2(2) end_body [OF that]] jumps(1) by simp
    have at_test: "starts ids ?test x" if "?body v (Normal x) \<or> ?body v (Continued x)" for x
    proof (rule starts_framed [OF start [OF v], of a a2])
      show "keeps_frame (a, push_loop (Some UnitTy) True c) (a2, ?test)" using keeps_frame2(1) by simp
      show "within ids x" by (rule in_body [OF that v(2)])
      have "\<exists>g \<in> set (continue_flows frame2 @ if_reachable (ctx_flow c2)). x \<in> states g"
        using that end_body [of "Normal x"] end_body [of "Continued x"] jumps_of_body(2) [OF keeps_frame2(1) top2]
          if_reachable_in [of x "ctx_flow c2"] by fastforce
      then show "x \<in> states (ctx_flow ?test)" using joined by fastforce
    qed
    have end_test: "outcome_ok c1 r" if "?body v (Normal x) \<or> ?body v (Continued x)" "?condition x r" for x r
      by (rule soundD [OF condition run_condition [unfolded a2] ok_condition at_test [unfolded a2, OF that(1)] that(2)])
    have around: "within ids w \<and> w \<in> states f \<and> f \<in> set backedges"
      if "?body v (Normal x) \<or> ?body v (Continued x)" "?condition x (Normal w)" for x w
      using end_test [OF that] in_condition [OF that(2)] in_body [OF that(1) v(2)] if_reachable_in [of w f] flows frame(5)
      by simp
    have no_fault: "\<not> ?body v UsedMoved" "\<not> ?condition x UsedMoved" if "?body v (Normal x) \<or> ?body v (Continued x)" for x
      using end_body [of UsedMoved] end_test [OF that, of UsedMoved] by auto
    show ?thesis
      using True around leave no_fault end_body [of UsedMoved] by (auto elim!: post_turnE) (metis | blast)+
  next
    case False
    then have run: "while_iteration (as_expr (lower_prog up condition)) (as_expr (lower_prog up body)) False
        (a, push_loop (Some UnitTy) True c) = Some (e, f, b, (a, c1))"
      using iteration s1 by simp
    obtain a2 c2 where run_condition: "lower_prog up condition (a, push_loop (Some UnitTy) True c) = Some (a2, c2)"
        and run_body: "lower_prog up body (a2, c2) = Some (a, c1)" and flows: "f = ctx_flow c2" "b = ctx_flow c1"
      using pre_iteration [OF run] by auto
    have a2: "a2 = a" by (rule silent_between [OF keeps_frame_prog [OF run_condition] keeps_frame_prog [OF run_body]])
    have end_condition: "outcome_ok c2 r" if "?condition v r" for r
      by (rule soundD [OF condition run_condition [unfolded a2] ok_condition start [OF v] that])
    have end_body: "outcome_ok c1 r" if "?condition v (Normal x)" "?body x r" for x r
    proof (rule soundD [OF body run_body [unfolded a2] ok_body _ that(2)])
      show "starts ids c2 x"
        by (rule starts_framed [OF start [OF v] keeps_frame_prog [OF run_condition]])
          (use end_condition [OF that(1)] in_condition [OF that(1) v(2)] in simp_all)
    qed
    have again: "within ids w \<and> (\<exists>g \<in> set backedges. w \<in> states g)"
      if "?condition v (Normal x)" "?body x (Normal w) \<or> ?body x (Continued w)" for x w
    proof
      show "within ids w" by (rule in_body [OF that(2) in_condition [OF that(1) v(2)]])
      show "\<exists>g \<in> set backedges. w \<in> states g"
        using that(2) end_body [OF that(1), of "Normal w"] end_body [OF that(1), of "Continued w"] jumps(2)
          if_reachable_in [of w b] frame(5) flows(2) by fastforce
    qed
    have leave: "\<exists>g \<in> set (break_flows frame). w \<in> states g" if "?condition v (Normal x)" "?body x (Broke w)" for x w
      using end_body [OF that] jumps(1) by simp
    show ?thesis
      using False again leave end_condition [of UsedMoved] end_condition [of "Normal w"] end_body [of _ UsedMoved] flows(1)
      by (auto elim!: while_turnE) (use leave in blast)
  qed
  have "\<exists>v. r = Normal v \<and> v \<in> states (join_flows (break_flows frame @ [f] @ backedges))"
  proof (rule turns_ok [where turn = ?turn and u = u and entry = "ctx_flow c" and ids = ids and backedges = backedges])
    show "repeats ?turn u r" using run by simp
    show "u \<in> states (ctx_flow c)" "within ids u" using u by (simp_all add: starts_def)
  next
    fix f local assume "f \<in> set backedges" "local \<in> ids"
    then show "\<not> loop_carried (ctx_flow c) f local"
      using quiet(2) [OF a] u by (simp add: starts_def)
  qed (use turns in blast)+
  then show "outcome_ok c' r" using end_loop by (auto simp: with_flow_def)
qed

lemma sound_prog:
  assumes "finite (dom (struct_layouts a))"
  shows "sound up a p"
proof (induction p)
  case (UseP place)
  then show ?case
    by (intro soundI) (auto simp: starts_def dest: available_silent split: if_splits)
next
  case (MoveP place)
  show ?case
  proof (rule soundI)
    fix in_loop ids c c' u r
    assume "lower_prog up (MoveP place) (a, c) = Some (a, c')" and u: "starts ids c u"
      and r: "exec (leaves_in a) (MoveP place) u r"
    then have 1: "ensure_available place c a = Some a" "mark_moved a place c = Some c'"
      by (auto split: Option.bind_splits)
    have "u \<in> states (ctx_flow c)" using u by (simp add: starts_def)
    then show "outcome_ok c' r"
      using available_silent [OF 1(1)] moved_silent [OF 1(2)] r by simp
  qed
next
  case (InitP place)
  then show ?case
    by (intro soundI) (auto simp: starts_def dest: initialized_silent)
next
  case (SeqP p q)
  then show ?case using sound_seq [OF assms] by blast
next
  case (BranchP p q)
  then show ?case using sound_branch by blast
next
  case (WhileP condition body post_test)
  then show ?case using sound_while [OF assms] by blast
next
  case (LoopP body)
  then show ?case using sound_loop [OF assms] by blast
next
  case BreakP
  show ?case
    by (intro soundI) (unfold exec.simps starts_def, use sound_break in blast)
next
  case ContinueP
  show ?case
    by (intro soundI) (unfold exec.simps starts_def, use sound_continue in blast)
next
  case (ScopeP ls p)
  then show ?case using sound_scope by blast
qed

end

subsection \<open>Lowering returns\<close>

lemma leaves_return: "finite (dom (struct_layouts a)) \<Longrightarrow> \<exists>leaves. place_leaf_keys a place = Some leaves"
  using append_leaf_keys_ok unfolding place_leaf_keys_def by blast

lemma available_returns: "finite (dom (struct_layouts a)) \<Longrightarrow> \<exists>a'. ensure_available place c a = Some a'"
  using leaves_return [of a place] by (auto simp: ensure_available_def)

lemma declare_returns: "scopes c \<noteq> [] \<Longrightarrow> \<exists>c'. declare_locals ls c = Some c'"
proof (induction ls arbitrary: c)
  case (Cons l ls)
  have "\<exists>r. insert_local (fst l) (snd l) c = Some r \<and> scopes (snd r) \<noteq> []"
    using Cons.prems by (cases "scope_names (List.last (scopes c)) (fst l)") (simp_all add: insert_local_def Let_def)
  then obtain b c1 where "insert_local (fst l) (snd l) c = Some (b, c1)" "scopes c1 \<noteq> []" by auto
  then show ?case using Cons.IH [of c1] by (cases l) (simp add: declare_locals_def)
qed (simp add: declare_locals_def)

lemma jump_returns:
  "loops c \<noteq> [] \<Longrightarrow> depth \<le> length (scopes c) \<Longrightarrow> \<exists>c'. jump add depth c = Some c'"
  by (simp add: jump_def flow_without_scopes_from_def map_top_frame_def)

lemma break_returns:
  assumes "frames_ok c"
  shows "\<exists>s'. lower_prog up BreakP (a, c) = Some s'"
proof (cases "loops c = []")
  case True
  then show ?thesis by (simp add: without_result_def lower_break_def lower_break_value_def top_frame_def)
next
  case False
  let ?frame = "List.last (loops c)"
  have depth: "scope_depth ?frame \<le> length (scopes c)" using assms False by (simp add: frames_ok_def)
  have "\<exists>a1 c1. (if unit_only ?frame then Some (a, c) else set_break_type up (lf_result_ty ?frame) UnitTy (a, c)) = Some (a1, c1) \<and>
      loops c1 \<noteq> [] \<and> scopes c1 = scopes c"
    using False by (simp add: set_break_type_def map_top_frame_def split: prod.split)
  then obtain a1 c1 where
      "(if unit_only ?frame then Some (a, c) else set_break_type up (lf_result_ty ?frame) UnitTy (a, c)) = Some (a1, c1)"
      "loops c1 \<noteq> []" "scopes c1 = scopes c" by blast
  moreover obtain c2 where "jump add_break (scope_depth ?frame) c1 = Some c2"
    using jump_returns calculation(2, 3) depth by metis
  ultimately show ?thesis
    using False by (auto simp: without_result_def lower_break_def lower_break_value_def top_frame_def)
qed

lemma continue_returns:
  assumes "frames_ok c"
  shows "\<exists>s'. lower_prog up ContinueP (a, c) = Some s'"
proof (cases "loops c = []")
  case True
  then show ?thesis by (simp add: without_result_def lower_continue_def top_frame_def)
next
  case False
  then show ?thesis
    using jump_returns [OF False, of "scope_depth (List.last (loops c))" add_continue] assms
    by (auto simp: without_result_def lower_continue_def top_frame_def frames_ok_def)
qed

lemma pushed_top:
  assumes "keeps_frame (a, push_loop result unit c) (a1, c1)"
  shows "\<exists>frame. top_frame c1 = Some frame"
  using assms by (auto simp: keeps_frame_def push_loop_def top_frame_def)

lemma pop_returns:
  "keeps_frame (a, push_loop result unit c) s1 \<Longrightarrow> \<exists>frame backedges s2. pop_loop entry ids b s1 = Some (frame, backedges, s2)"
  using pushed_top by (cases s1) (fastforce simp: pop_loop_def)

lemma iteration_returns:
  assumes condition: "\<And>s'. keeps_frame s s' \<Longrightarrow> \<exists>s''. lower_prog up condition s' = Some s''"
    and body: "\<And>s'. keeps_frame s s' \<Longrightarrow> \<exists>s''. lower_prog up body s' = Some s''"
    and s: "s = (a, push_loop result unit c)"
  shows "\<exists>e f b s'. while_iteration (as_expr (lower_prog up condition)) (as_expr (lower_prog up body)) post_test s = Some (e, f, b, s')"
proof (cases post_test)
  case True
  obtain a1 c1 where run: "lower_prog up body s = Some (a1, c1)" using body [of s] by auto
  obtain frame where top: "top_frame c1 = Some frame" using pushed_top keeps_frame_prog [OF run] s by blast
  obtain a2 c2 where "lower_prog up condition (a1, c1\<lparr>ctx_flow := join_flows (continue_flows frame @ if_reachable (ctx_flow c1))\<rparr>) = Some (a2, c2)"
    using condition keeps_frame_prog [OF run] by fastforce
  then show ?thesis using True run top by (simp add: while_iteration_def as_expr_def)
next
  case False
  obtain a1 c1 where run: "lower_prog up condition s = Some (a1, c1)" using condition [of s] by auto
  obtain a2 c2 where "lower_prog up body (a1, c1) = Some (a2, c2)" using body [OF keeps_frame_prog [OF run]] by auto
  then show ?thesis using False run by (simp add: while_iteration_def as_expr_def)
qed

lemma returns_framed:
  assumes "finite (dom (struct_layouts (fst s)))" "frames_ok (snd s)" "keeps_frame s s'"
  shows "finite (dom (struct_layouts (fst s')))" "frames_ok (snd s')"
  using assms reports_layouts [of "fst s" "fst s'"] frames_ok_framed [of "fst s" "snd s" "fst s'" "snd s'"]
  by (simp_all add: keeps_frame_def)

lemma lower_prog_returns:
  "finite (dom (struct_layouts (fst s))) \<Longrightarrow> frames_ok (snd s) \<Longrightarrow> \<exists>s'. lower_prog up p s = Some s'"
proof (induction p arbitrary: s)
  case (UseP place)
  then show ?case using available_returns [OF UseP(1)] by simp
next
  case (MoveP place)
  obtain a where a: "ensure_available place (snd s) (fst s) = Some a" using available_returns [OF MoveP(1)] by blast
  then have "struct_layouts a = struct_layouts (fst s)" by (rule reports_layouts [OF reports_available])
  then have "finite (dom (struct_layouts a))" using MoveP by simp
  from leaves_return [OF this] obtain leaves where "place_leaf_keys a place = Some leaves" by blast
  then show ?case using a by (simp add: mark_moved_def)
next
  case (InitP place)
  obtain leaves where "place_leaf_keys (fst s) place = Some leaves" using leaves_return [OF InitP(1)] by blast
  then show ?case by (simp add: mark_initialized_def)
next
  case (SeqP p q)
  obtain s1 where s1: "lower_prog up p s = Some s1" using SeqP by blast
  then show ?case using SeqP.IH(2) [of s1] returns_framed [OF SeqP.prems keeps_frame_prog [OF s1]] by simp
next
  case (BranchP p q)
  obtain s1 where s1: "lower_prog up p s = Some s1" using BranchP by blast
  have "keeps_frame s (with_flow (ctx_flow (snd s)) s1)" using keeps_frame_prog [OF s1] by simp
  from BranchP.IH(2) [OF returns_framed [OF BranchP.prems this]] show ?case using s1 by auto
next
  case (WhileP condition body post_test)
  obtain a c where s: "s = (a, c)" by (cases s)
  have prems: "finite (dom (struct_layouts (fst (a, push_loop (Some UnitTy) True c))))" "frames_ok (snd (a, push_loop (Some UnitTy) True c))"
    using WhileP.prems s by (simp_all add: frames_ok_push_loop)
  obtain e f b s1 where 1: "while_iteration (as_expr (lower_prog up condition)) (as_expr (lower_prog up body)) post_test
      (a, push_loop (Some UnitTy) True c) = Some (e, f, b, s1)"
    using iteration_returns [OF WhileP.IH(1) WhileP.IH(2) refl] returns_framed [OF prems] by blast
  have "keeps_frame (a, push_loop (Some UnitTy) True c) s1"
    by (rule keeps_frame_iteration [OF 1]) (rule keeps_frame_prog; assumption)+
  then obtain frame backedges s2 where 2: "pop_loop (ctx_flow c) (outer_local_ids c) b s1 = Some (frame, backedges, s2)"
    using pop_returns by blast
  then show ?case using 1 s
    by (cases e; cases "fst e"; cases "snd e"; cases s2) (simp add: without_result_def lower_while_def)
next
  case (LoopP body)
  obtain a c where s: "s = (a, c)" by (cases s)
  obtain a1 c1 where 1: "lower_prog up body (a, push_loop None False c) = Some (a1, c1)"
    using LoopP.IH [of "(a, push_loop None False c)"] LoopP.prems s by (auto simp: frames_ok_push_loop)
  obtain frame backedges s2 where "pop_loop (ctx_flow c) (outer_local_ids c) (ctx_flow c1) (a1, c1) = Some (frame, backedges, s2)"
    using pop_returns [OF keeps_frame_prog [OF 1]] by blast
  then show ?case using 1 s
    by (cases s2) (simp add: without_result_def lower_loop_def as_expr_def)
next
  case BreakP
  then show ?case using break_returns by (cases s) simp
next
  case ContinueP
  then show ?case using continue_returns by (cases s) simp
next
  case (ScopeP ls p)
  obtain c1 where c1: "declare_locals ls (push_scope (snd s)) = Some c1"
    using declare_returns [of "push_scope (snd s)" ls] by (auto simp: push_scope_def)
  have scopes: "scopes c1 \<noteq> []" "butlast (scopes c1) = scopes (snd s)" "loops c1 = loops (snd s)"
    using declare_locals_frame [OF c1] by (simp_all add: push_scope_def)
  have "length (scopes (snd s)) \<le> length (scopes c1)" using scopes(2) [symmetric] by simp
  then have "frames_ok c1" using ScopeP.prems(2) scopes(3) by (fastforce simp: frames_ok_def)
  then obtain s1 where s1: "lower_prog up p (fst s, c1) = Some s1"
    using ScopeP.IH [of "(fst s, c1)"] ScopeP.prems(1) by auto
  then have "scopes (snd s1) \<noteq> []" using keeps_frame_prog [OF s1] scopes(1) by (simp add: keeps_frame_def)
  then show ?case using c1 s1 by (simp add: pop_scope_def Let_def)
qed

subsection \<open>Concrete inputs\<close>

definition example_local :: "chars \<times> unit local_info" where
  "example_local =
     (lit ''x'', \<lparr>li_id = 0, li_ty = StructTy (lit ''File''), li_mutable = True, li_capability = Owned,
       li_alias = None, li_partial = None, li_closure = None\<rparr>)"

text \<open>\<open>loop { if done { break }; consume(x); x = new() }; x\<close>\<close>

definition example_loop :: place_prog where
  "example_loop =
     ScopeP [example_local]
       (SeqP (LoopP (SeqP (BranchP BreakP (MoveP example_place)) (InitP example_place))) (UseP example_place))"

lemma filter_insert:
  "Set.filter P {} = {}" "Set.filter P (insert x A) = (if P x then insert x (Set.filter P A) else Set.filter P A)"
  by auto

lemma example_loop_lowers: "\<exists>c. lower_prog (\<lambda>_. True) example_loop (example_owner, for_function [] None default_origin) = Some (example_owner, c)"
  by (simp add: example_loop_def for_function_def context_for_def new_scope_frame_def push_scope_def default_flow_def
      declare_locals_def insert_local_def example_local_def Let_def without_result_def lower_loop_def as_expr_def
      lower_break_def lower_break_value_def push_loop_def top_frame_def set_break_type_def map_top_frame_def
      jump_def flow_without_scopes_from_def unreachable_def update_flow_def ensure_available_def mark_moved_def
      mark_initialized_def example_leaves with_flow_def join_flows_def pop_loop_def pop_scope_def if_reachable_def
      outer_local_ids_def reject_loop_carried_moves_def loop_carried_def initialization_status_def
      normalize_uninitialized_def normalize_uninitialized_alternatives_def normalize_step_def add_break_def
      max_initialization_alternatives_def flow_moved_def flow_initialized_def forget_locals_def remove_loans_def
      alternative_sets_equal_def projected_uninitialized_alternatives_def filter_insert)

subsection \<open>Moves of a function\<close>






end
