(* ===== verification/Parser_State.thy ===== *)
theory Parser_State
  imports Lexer Ast_Expr Names "HOL-Library.List_Lexorder"
begin

text \<open>
  The parser's state and its primitives (\<open>compiler/src/parser.rs\<close>).  A method of the parser is a
  function from the state to an error or to its result and the new state.  An error is a syntax error,
  a panic of the code, or the end of the fuel of a loop or of the recursion; \<open>Parser_Total\<close> shows that
  the fuel never ends.

  The state is never left with an index behind the last token: \<open>advance\<close> panics there, which in the code
  the next look at the current token does.
\<close>

subsection \<open>Errors and layouts\<close>

record parse_error =
  pe_message :: chars
  pe_start_byte :: nat
  pe_end_byte :: nat
  pe_line :: nat
  pe_column :: nat

datatype stop = Failed parse_error | OutOfBounds | Unreachable | OutOfFuel

record source_braced_region =
  open_byte :: nat
  close_byte :: nat
  body_start :: nat
  open_line :: nat
  close_line :: nat

record source_trailing_closure =
  trailing_start_byte :: nat
  trailing_close_byte :: nat

record source_layout =
  parameter_groups :: "nat list"
  repeated_parameter_groups :: "nat list"
  layout_where_predicates :: "nat list"
  match_arms :: "source_braced_region list"
  blocks :: "source_braced_region list"
  closures :: "source_braced_region list"
  trailing_closures :: "source_trailing_closure list"

definition default_layout :: source_layout where
  "default_layout =
     \<lparr>parameter_groups = [], repeated_parameter_groups = [], layout_where_predicates = [], match_arms = [],
      blocks = [], closures = [], trailing_closures = []\<rparr>"

record parser =
  tokens :: "token list"
  position :: nat
  effect_parameters_in_scope :: "chars set"
  next_control_binding :: nat
  async_depth :: nat
  layout :: source_layout

type_synonym 'a parse = "parser \<Rightarrow> stop + 'a \<times> parser"

definition parser_new :: "token list \<Rightarrow> parser" where
  "parser_new ts =
     \<lparr>tokens = ts, position = 0, effect_parameters_in_scope = {}, next_control_binding = 0, async_depth = 0,
      layout = default_layout\<rparr>"

subsection \<open>Sequencing\<close>

definition preturn :: "'a \<Rightarrow> 'a parse" where
  "preturn x s = Inr (x, s)"

definition pbind :: "'a parse \<Rightarrow> ('a \<Rightarrow> 'b parse) \<Rightarrow> 'b parse" where
  "pbind p f s = (case p s of Inl e \<Rightarrow> Inl e | Inr (x, s) \<Rightarrow> f x s)"

definition pseq :: "'a parse \<Rightarrow> 'b parse \<Rightarrow> 'b parse" where
  "pseq p q = pbind p (\<lambda>_. q)"

definition pmap :: "('a \<Rightarrow> 'b) \<Rightarrow> 'a parse \<Rightarrow> 'b parse" where
  "pmap f p = pbind p (\<lambda>x. preturn (f x))"

text \<open>Reading and changing the state.\<close>

definition pwith :: "(parser \<Rightarrow> 'a) \<Rightarrow> ('a \<Rightarrow> 'b parse) \<Rightarrow> 'b parse" where
  "pwith f k s = k (f s) s"

definition pif :: "(parser \<Rightarrow> bool) \<Rightarrow> 'a parse \<Rightarrow> 'a parse \<Rightarrow> 'a parse" where
  "pif c p q s = (if c s then p s else q s)"

definition pupdate :: "(parser \<Rightarrow> parser) \<Rightarrow> unit parse" where
  "pupdate f s = Inr ((), f s)"

definition pstop :: "stop \<Rightarrow> 'a parse" where
  "pstop e s = Inl e"

text \<open>
  A loop runs as long as its body asks to go on with \<open>Inl\<close>; it has a turn for each token that is left
  and one more.
\<close>

primrec pgo :: "nat \<Rightarrow> ('a \<Rightarrow> ('a + 'b) parse) \<Rightarrow> 'a \<Rightarrow> 'b parse" where
  "pgo 0 body x = pstop OutOfFuel"
| "pgo (Suc n) body x =
     pbind (body x) (\<lambda>r. case r of Inl x \<Rightarrow> pgo n body x | Inr y \<Rightarrow> preturn y)"

definition tokens_left :: "parser \<Rightarrow> nat" where
  "tokens_left s = length (tokens s) - position s"

definition ploop :: "('a \<Rightarrow> ('a + 'b) parse) \<Rightarrow> 'a \<Rightarrow> 'b parse" where
  "ploop body x = pwith tokens_left (\<lambda>n. pgo (Suc n) body x)"

definition pnext :: "'a parse \<Rightarrow> ('a + 'b) parse" where
  "pnext p = pmap Inl p"

definition pbreak :: "'b \<Rightarrow> ('a + 'b) parse" where
  "pbreak y = preturn (Inr y)"

definition pcontinue :: "'a \<Rightarrow> ('a + 'b) parse" where
  "pcontinue x = preturn (Inl x)"

definition pwhile :: "(parser \<Rightarrow> bool) \<Rightarrow> ('a \<Rightarrow> 'a parse) \<Rightarrow> 'a \<Rightarrow> 'a parse" where
  "pwhile c body = ploop (\<lambda>x. pif c (pnext (body x)) (pbreak x))"

subsection \<open>Tokens\<close>

definition current :: "parser \<Rightarrow> token" where
  "current s = tokens s ! position s"

text \<open>Only asked for behind a token.\<close>

definition previous :: "parser \<Rightarrow> token" where
  "previous s = tokens s ! (position s - 1)"

definition current_kind :: "parser \<Rightarrow> token_kind" where
  "current_kind s = kind (current s)"

definition kind_of :: "parser \<Rightarrow> nat \<Rightarrow> token_kind option" where
  "kind_of s i = map_option kind (nth_opt (tokens s) i)"

definition contextual_spelling :: "contextual \<Rightarrow> chars option" where
  "contextual_spelling c =
     (case c of
        CMut \<Rightarrow> Some (lit ''mut'') | CCopy \<Rightarrow> Some (lit ''copy'') | CMove \<Rightarrow> Some (lit ''move'')
      | CComptime \<Rightarrow> Some (lit ''comptime'') | CBorrow \<Rightarrow> Some (lit ''borrow'') | CType \<Rightarrow> Some (lit ''type'')
      | CRegion \<Rightarrow> Some (lit ''region'') | CUnsafe \<Rightarrow> Some (lit ''unsafe'') | CDo \<Rightarrow> Some (lit ''do'')
      | CThrow \<Rightarrow> Some (lit ''throw'') | CTry \<Rightarrow> Some (lit ''try'') | CIf \<Rightarrow> Some (lit ''if'')
      | CElse \<Rightarrow> Some (lit ''else'') | CReturn \<Rightarrow> Some (lit ''return'') | CWhile \<Rightarrow> Some (lit ''while'')
      | CFor \<Rightarrow> Some (lit ''for'') | CLoop \<Rightarrow> Some (lit ''loop'') | CBreak \<Rightarrow> Some (lit ''break'')
      | CContinue \<Rightarrow> Some (lit ''continue'') | CMatch \<Rightarrow> Some (lit ''match'') | CIn \<Rightarrow> None)"

text \<open>The kind without its payload.\<close>

definition kind_variant :: "token_kind \<Rightarrow> token_kind" where
  "kind_variant k =
     (case k of
        Ident _ \<Rightarrow> Ident []
      | RegionName _ \<Rightarrow> RegionName []
      | StringLit _ \<Rightarrow> StringLit []
      | Integer _ \<Rightarrow> Integer 0
      | _ \<Rightarrow> k)"

definition token_kind_matches :: "token_kind \<Rightarrow> token_kind \<Rightarrow> bool" where
  "token_kind_matches actual expected =
     (case (actual, case expected of Contextual c \<Rightarrow> contextual_spelling c | _ \<Rightarrow> None) of
        (Ident name, Some spelling) \<Rightarrow> name = spelling
      | _ \<Rightarrow> kind_variant actual = kind_variant expected)"

definition kind_at :: "nat \<Rightarrow> token_kind \<Rightarrow> parser \<Rightarrow> bool" where
  "kind_at i k s = (case kind_of s i of Some actual \<Rightarrow> token_kind_matches actual k | None \<Rightarrow> False)"

definition at_offset :: "nat \<Rightarrow> token_kind \<Rightarrow> parser \<Rightarrow> bool" where
  "at_offset n k s = kind_at (position s + n) k s"

definition at_token :: "token_kind \<Rightarrow> parser \<Rightarrow> bool" where
  "at_token k s = token_kind_matches (current_kind s) k"

text \<open>Patterns of \<open>matches!\<close> on a kind.\<close>

definition ident_of :: "token_kind \<Rightarrow> chars option" where
  "ident_of k = (case k of Ident name \<Rightarrow> Some name | _ \<Rightarrow> None)"

definition region_of :: "token_kind \<Rightarrow> chars option" where
  "region_of k = (case k of RegionName name \<Rightarrow> Some name | _ \<Rightarrow> None)"

definition string_of :: "token_kind \<Rightarrow> chars option" where
  "string_of k = (case k of StringLit value \<Rightarrow> Some value | _ \<Rightarrow> None)"

definition integer_of :: "token_kind \<Rightarrow> u128 option" where
  "integer_of k = (case k of Integer v \<Rightarrow> Some v | _ \<Rightarrow> None)"

definition ident_at :: "nat \<Rightarrow> parser \<Rightarrow> chars option" where
  "ident_at n s = Option.bind (kind_of s (position s + n)) ident_of"

definition region_at :: "nat \<Rightarrow> parser \<Rightarrow> chars option" where
  "region_at n s = Option.bind (kind_of s (position s + n)) region_of"

definition is_at :: "nat \<Rightarrow> token_kind list \<Rightarrow> parser \<Rightarrow> bool" where
  "is_at n ks s = (case kind_of s (position s + n) of Some k \<Rightarrow> k \<in> set ks | None \<Rightarrow> False)"

definition at_context_ident :: "chars \<Rightarrow> parser \<Rightarrow> bool" where
  "at_context_ident expected s \<longleftrightarrow> current_kind s = Ident expected"

definition ident_followed_by_colon :: "parser \<Rightarrow> bool" where
  "ident_followed_by_colon s \<longleftrightarrow> ident_of (current_kind s) \<noteq> None \<and> at_offset 1 (Delim Colon) s"

definition at_separator :: "parser \<Rightarrow> bool" where
  "at_separator s \<longleftrightarrow> at_token Newline s \<or> at_token (Delim Semicolon) s"

definition at_control_expression_boundary :: "parser \<Rightarrow> bool" where
  "at_control_expression_boundary s \<longleftrightarrow>
     at_separator s \<or> at_token (Delim RBrace) s \<or> at_token Eof s \<or> at_token (Delim Comma) s"

subsection \<open>Messages\<close>

definition describe_word :: "keyword_token \<Rightarrow> string" where
  "describe_word k =
     (case k of
        KLet \<Rightarrow> ''let'' | KPub \<Rightarrow> ''pub'' | KPackage \<Rightarrow> ''package'' | KRoot \<Rightarrow> ''root'' | KSuper \<Rightarrow> ''super''
      | KExtend \<Rightarrow> ''extend'' | KStruct \<Rightarrow> ''struct'' | KEnum \<Rightarrow> ''enum'' | KTrait \<Rightarrow> ''trait'' | KWhere \<Rightarrow> ''where''
      | KTrue \<Rightarrow> ''true'' | KFalse \<Rightarrow> ''false'')"

definition describe_delimiter :: "delimiter \<Rightarrow> string" where
  "describe_delimiter d =
     (case d of
        LParen \<Rightarrow> ''('' | RParen \<Rightarrow> '')'' | LBracket \<Rightarrow> ''['' | RBracket \<Rightarrow> '']'' | LBrace \<Rightarrow> ''{'' | RBrace \<Rightarrow> ''}''
      | Colon \<Rightarrow> '':'' | Dot \<Rightarrow> ''.'' | Ellipsis \<Rightarrow> ''...'' | Comma \<Rightarrow> '','' | Semicolon \<Rightarrow> '';'')"

definition describe_arith :: "arith_op \<Rightarrow> string" where
  "describe_arith a =
     (case a of
        Arrow \<Rightarrow> ''->'' | FatArrow \<Rightarrow> ''=>'' | Equal \<Rightarrow> ''='' | EqualEqual \<Rightarrow> ''=='' | Bang \<Rightarrow> ''!'' | BangEqual \<Rightarrow> ''!=''
      | Plus \<Rightarrow> ''+'' | PlusEqual \<Rightarrow> ''+='' | Minus \<Rightarrow> ''-'' | MinusEqual \<Rightarrow> ''-='' | Star \<Rightarrow> ''*'' | StarEqual \<Rightarrow> ''*=''
      | Slash \<Rightarrow> ''/'' | SlashEqual \<Rightarrow> ''/='' | Percent \<Rightarrow> ''%'' | PercentEqual \<Rightarrow> ''%='')"

definition describe_bit :: "bit_op \<Rightarrow> string" where
  "describe_bit b =
     (case b of
        Less \<Rightarrow> ''<'' | LessEqual \<Rightarrow> ''<='' | Greater \<Rightarrow> ''>'' | GreaterEqual \<Rightarrow> ''>='' | AndAnd \<Rightarrow> ''&&'' | OrOr \<Rightarrow> ''||''
      | Amp \<Rightarrow> ''&'' | AmpEqual \<Rightarrow> ''&='' | Pipe \<Rightarrow> ''|'' | PipeEqual \<Rightarrow> ''|='' | Caret \<Rightarrow> ''^'' | CaretEqual \<Rightarrow> ''^=''
      | Shl \<Rightarrow> ''<<'' | ShlEqual \<Rightarrow> ''<<='' | Shr \<Rightarrow> ''>>'' | ShrEqual \<Rightarrow> ''>>='' | QuestionQuestion \<Rightarrow> ''??''
      | QuestionDot \<Rightarrow> ''?.'')"

definition quoted :: "chars \<Rightarrow> chars" where
  "quoted t = lit ''`'' @ t @ lit ''`''"

definition describe :: "token_kind \<Rightarrow> chars" where
  "describe k =
     (case k of
        Word w \<Rightarrow> quoted (lit (describe_word w))
      | Contextual c \<Rightarrow> quoted (case contextual_spelling c of Some spelling \<Rightarrow> spelling | None \<Rightarrow> lit ''in'')
      | RegionName _ \<Rightarrow> lit ''a region name''
      | Ident _ \<Rightarrow> lit ''an identifier''
      | StringLit _ \<Rightarrow> lit ''a string''
      | Integer _ \<Rightarrow> lit ''an integer''
      | Delim d \<Rightarrow> quoted (lit (describe_delimiter d))
      | Arith a \<Rightarrow> quoted (lit (describe_arith a))
      | BitOp b \<Rightarrow> quoted (lit (describe_bit b))
      | Newline \<Rightarrow> lit ''a newline''
      | Eof \<Rightarrow> lit ''end of file'')"

definition token_error :: "token \<Rightarrow> chars \<Rightarrow> parse_error" where
  "token_error t m =
     \<lparr>pe_message = m, pe_start_byte = start_byte t, pe_end_byte = end_byte t, pe_line = start_line t,
      pe_column = start_column t\<rparr>"

definition fail_at :: "token \<Rightarrow> chars \<Rightarrow> 'a parse" where
  "fail_at t m = pstop (Failed (token_error t m))"

definition fail_here :: "chars \<Rightarrow> 'a parse" where
  "fail_here m = pwith current (\<lambda>t. fail_at t m)"

definition expected_found :: "chars \<Rightarrow> token_kind \<Rightarrow> chars" where
  "expected_found what k = lit ''expected '' @ what @ lit '', found '' @ describe k"

definition fail_expected :: "chars \<Rightarrow> 'a parse" where
  "fail_expected what = pwith current (\<lambda>t. fail_at t (expected_found what (kind t)))"

subsection \<open>Moving on\<close>

definition advance :: "unit parse" where
  "advance s =
     (if at_token Eof s then Inr ((), s)
      else if position s + 1 < length (tokens s) then Inr ((), s\<lparr>position := position s + 1\<rparr>)
      else Inl OutOfBounds)"

text \<open>\<open>if self.take(k) { p } else { q }\<close>.\<close>

definition if_take :: "token_kind \<Rightarrow> 'a parse \<Rightarrow> 'a parse \<Rightarrow> 'a parse" where
  "if_take k p q = pif (at_token k) (pseq advance p) q"

definition take_token :: "token_kind \<Rightarrow> bool parse" where
  "take_token k = if_take k (preturn True) (preturn False)"

definition expect :: "token_kind \<Rightarrow> chars \<Rightarrow> unit parse" where
  "expect k what = if_take k (preturn ()) (fail_expected what)"

definition skip_separators :: "unit parse" where
  "skip_separators = pwhile at_separator (\<lambda>_. advance) ()"

definition skip_newlines :: "unit parse" where
  "skip_newlines = pwhile (at_token Newline) (\<lambda>_. advance) ()"

text \<open>Going back to a position.\<close>

definition rewind :: "nat \<Rightarrow> unit parse" where
  "rewind i = pupdate (\<lambda>s. s\<lparr>position := i\<rparr>)"

definition take_newlines_if_followed_by :: "token_kind list \<Rightarrow> bool parse" where
  "take_newlines_if_followed_by ks =
     pwith position (\<lambda>checkpoint.
       pseq skip_newlines
         (pif (\<lambda>s. position s \<noteq> checkpoint \<and> list_ex (\<lambda>k. at_token k s) ks)
           (preturn True)
           (pseq (rewind checkpoint) (preturn False))))"

definition expect_ident :: "chars \<Rightarrow> chars parse" where
  "expect_ident what =
     pwith current (\<lambda>t.
       case ident_of (kind t) of
         Some name \<Rightarrow> pseq advance (preturn name)
       | None \<Rightarrow> fail_at t (expected_found what (kind t)))"

definition expect_path_start :: "chars \<Rightarrow> chars parse" where
  "expect_path_start what =
     pwith current_kind (\<lambda>k.
       case k of
         Ident name \<Rightarrow> if name \<noteq> lit ''_'' then pseq advance (preturn name) else fail_expected what
       | Word KRoot \<Rightarrow> pseq advance (preturn (lit ''root''))
       | Word KSuper \<Rightarrow> pseq advance (preturn (lit ''super''))
       | _ \<Rightarrow> fail_expected what)"

definition expect_relative_path_segment :: "chars \<Rightarrow> chars parse" where
  "expect_relative_path_segment what =
     pwith current (\<lambda>t.
       let failed =
         fail_at t (expected_found what (kind t) @
           lit ''; `root` is only valid as the first path segment, and `super` only in a leading chain'') in
       case kind t of
         Ident name \<Rightarrow> if name \<noteq> lit ''_'' then pseq advance (preturn name) else failed
       | Contextual CMut \<Rightarrow> pseq advance (preturn (lit ''mut''))
       | _ \<Rightarrow> failed)"

definition expect_path_continuation :: "chars list \<Rightarrow> chars \<Rightarrow> chars parse" where
  "expect_path_continuation prefix_path what =
     pif (\<lambda>s. at_token (Word KSuper) s \<and> list_all (\<lambda>segment. segment = lit ''super'') prefix_path)
       (pseq advance (preturn (lit ''super'')))
       (expect_relative_path_segment what)"

definition expect_import_alias :: "chars parse" where
  "expect_import_alias =
     pwith current (\<lambda>t.
       case ident_of (kind t) of
         None \<Rightarrow> fail_at t (expected_found (lit ''an import alias after `as`'') (kind t))
       | Some alias \<Rightarrow>
           if alias = lit ''self'' \<or> alias = lit ''_''
           then fail_at t (quoted alias @ lit '' cannot be used as an import alias'')
           else pseq advance (preturn alias))"

text \<open>A path: a start and the segments behind dots.\<close>

definition path_from :: "chars \<Rightarrow> chars list \<Rightarrow> chars list parse" where
  "path_from what =
     pwhile (at_token (Delim Dot)) (\<lambda>path. pseq advance (pmap (\<lambda>segment. path @ [segment]) (expect_path_continuation path what)))"

definition dotted_path :: "chars \<Rightarrow> chars \<Rightarrow> chars list parse" where
  "dotted_path start_what what = pbind (expect_path_start start_what) (\<lambda>first. path_from what [first])"

text \<open>
  The loops over comma-separated elements up to a closing token; \<open>skip\<close> is what the loop skips behind a
  comma and before the closing token.
\<close>

definition comma_fold ::
    "('a \<Rightarrow> 'a parse) \<Rightarrow> unit parse \<Rightarrow> token_kind \<Rightarrow> chars \<Rightarrow> 'a \<Rightarrow> 'a parse" where
  "comma_fold step skip close what =
     ploop (\<lambda>x.
       pbind (step x) (\<lambda>x.
         if_take (Delim Comma)
           (pseq skip (if_take close (pbreak x) (pcontinue x)))
           (pseq skip (pseq (expect close what) (pbreak x)))))"

definition comma_list :: "'a parse \<Rightarrow> unit parse \<Rightarrow> token_kind \<Rightarrow> chars \<Rightarrow> 'a list parse" where
  "comma_list element skip close what = comma_fold (\<lambda>xs. pmap (\<lambda>x. xs @ [x]) element) skip close what []"

definition no_skip :: "unit parse" where
  "no_skip = preturn ()"

subsection \<open>Names\<close>

text \<open>Names that compile-time parameters cannot have.\<close>

definition reserved_type_name :: "chars \<Rightarrow> bool" where
  "reserved_type_name name \<longleftrightarrow>
     name \<in> lit ` {''_'', ''i8'', ''i16'', ''i32'', ''i64'', ''i128'', ''isize'', ''u8'', ''u16'', ''u32'', ''u64'',
       ''u128'', ''usize'', ''bool'', ''never''}"

definition default_effects :: function_effects where
  "default_effects = FunctionEffects False None [] []"

definition apply_failure_effect :: "source_type \<Rightarrow> source_type option \<Rightarrow> source_type" where
  "apply_failure_effect output failure =
     (case failure of None \<Rightarrow> output | Some e \<Rightarrow> SrcNamed (lit ''result'') [e, output])"

end
