(* ===== verification/Parser_Types.thy ===== *)
theory Parser_Types
  imports Parser_State
begin

text \<open>
  Types and function effects (\<open>compiler/src/parser.rs\<close>).  The methods call each other recursively; a call
  that goes around is a call through \<open>grammar\<close>, which \<open>Parser\<close> ties together.
\<close>

record grammar =
  g_type :: "source_type parse"
  g_expression :: "bool \<Rightarrow> expr parse"
  g_coalesce :: "bool \<Rightarrow> expr parse"
  g_unary :: "bool \<Rightarrow> expr parse"
  g_pattern :: "pattern parse"
  g_sort :: "token \<Rightarrow> chars \<Rightarrow> bool \<Rightarrow> sort parse"

subsection \<open>Labelled arguments\<close>

definition label_follows :: "chars list \<Rightarrow> parser \<Rightarrow> bool" where
  "label_follows excluded s \<longleftrightarrow>
     ident_of (current_kind s) \<noteq> None \<and> at_offset 1 (Delim Colon) s \<and> \<not> at_offset 2 (Contextual CType) s \<and>
     \<not> at_offset 2 (Contextual CRegion) s \<and> (case ident_at 2 s of Some k \<Rightarrow> k \<notin> set excluded | None \<Rightarrow> True)"

definition argument_label :: "chars list \<Rightarrow> chars \<Rightarrow> chars \<Rightarrow> chars option parse" where
  "argument_label excluded what colon_what =
     pif (label_follows excluded)
       (pbind (expect_ident what) (\<lambda>label. pseq (expect (Delim Colon) colon_what) (preturn (Some label))))
       (preturn None)"

definition type_arguments ::
    "grammar \<Rightarrow> chars list \<Rightarrow> chars \<Rightarrow> chars \<Rightarrow> chars \<Rightarrow> (chars option \<times> source_type) list parse" where
  "type_arguments g excluded what colon_what close_what =
     comma_list
       (pbind (argument_label excluded what colon_what) (\<lambda>label. pmap (Pair label) (g_type g)))
       no_skip (Delim RParen) close_what"

definition mixed_labels :: "(chars option \<times> 'a) list \<Rightarrow> bool" where
  "mixed_labels arguments \<longleftrightarrow>
     (let labeled = length (filter (\<lambda>(label, _). label \<noteq> None) arguments) in labeled \<noteq> 0 \<and> labeled \<noteq> length arguments)"

definition applied_name :: "chars \<Rightarrow> (chars option \<times> source_type) list \<Rightarrow> source_type" where
  "applied_name name arguments =
     (if list_ex (\<lambda>(label, _). label \<noteq> None) arguments then SrcNamedArgs name arguments
      else SrcNamed name (map snd arguments))"

subsection \<open>Effects\<close>

definition effect_path :: "chars parse" where
  "effect_path =
     pbind (expect_ident (lit ''an effect name'')) (\<lambda>first.
       pmap (join_text (lit ''.''))
         (pwhile (at_token (Delim Dot))
           (\<lambda>path. pseq advance (pmap (\<lambda>segment. path @ [segment]) (expect_ident (lit ''an effect path segment''))))
           [first]))"

definition effect_arguments :: "grammar \<Rightarrow> (chars option \<times> source_type) list parse" where
  "effect_arguments g =
     if_take (Delim LParen)
       (if_take (Delim RParen)
         (preturn [])
         (pbind
           (type_arguments g [lit ''access'', lit ''effect'', lit ''effects''] (lit ''an effect argument label'')
             (lit ''`:` after effect argument label'') (lit ''`)` after effect arguments''))
           (\<lambda>arguments.
             if mixed_labels arguments
             then fail_here (lit ''effect arguments must be either all labeled or all positional'')
             else preturn arguments)))
       (preturn [])"

definition custom_effect :: "grammar \<Rightarrow> source_type list \<Rightarrow> source_type list parse" where
  "custom_effect g custom =
     pbind effect_path (\<lambda>name.
       pbind (effect_arguments g) (\<lambda>arguments.
         if applied_name name arguments \<in> set custom
         then fail_here (lit ''duplicate custom effect '' @ quoted name @ lit '' in `with(...)`'')
         else preturn (custom @ [applied_name name arguments])))"

definition effect_entry :: "grammar \<Rightarrow> chars list \<times> source_type list \<Rightarrow> (chars list \<times> source_type list) parse" where
  "effect_entry g acc =
     (case acc of
        (parameters, custom) \<Rightarrow>
          pwith current_kind (\<lambda>k.
            case ident_of k of
              None \<Rightarrow>
                fail_here (lit ''expected `throwing(Error)`, `Unsafe`, an effect parameter, or a custom effect name in `with(...)`'')
            | Some name \<Rightarrow>
                pif (\<lambda>s. name \<in> effect_parameters_in_scope s \<and> \<not> at_offset 1 (Delim Dot) s)
                  (pseq advance
                    (if name \<in> set parameters
                     then fail_here (lit ''duplicate effect parameter '' @ quoted name @ lit '' in `with(...)`'')
                     else preturn (parameters @ [name], custom)))
                  (pmap (Pair parameters) (custom_effect g custom))))"

text \<open>The effects, the failure among them (there is none), and whether there is a clause.\<close>

definition function_effect_clause :: "grammar \<Rightarrow> (function_effects \<times> source_type option \<times> bool) parse" where
  "function_effect_clause g =
     pif (at_context_ident (lit ''with''))
       (pseq advance
         (pseq (expect (Delim LParen) (lit ''`(` after `with`''))
           (if_take (Delim RParen)
             (preturn (default_effects, None, True))
             (pmap (\<lambda>(parameters, custom). (FunctionEffects False None custom (sort parameters), None, True))
               (comma_fold (effect_entry g) no_skip (Delim RParen) (lit ''`)` after function effects'') ([], []))))))
       (preturn (default_effects, None, False))"

text \<open>Two failures that differ cannot be merged.\<close>

definition merged_effects :: "function_effects \<Rightarrow> function_effects \<Rightarrow> function_effects option" where
  "merged_effects outer inner =
     (let merged = (\<lambda>failure.
            FunctionEffects (fe_unsafety outer \<or> fe_unsafety inner) failure
              (fold (\<lambda>e custom. if e \<in> set custom then custom else custom @ [e]) (fe_custom inner) (fe_custom outer))
              (remdups_adj (sort (fe_parameters outer @ fe_parameters inner))))
      in case (fe_failure outer, fe_failure inner) of
           (None, failure) \<Rightarrow> Some (merged failure)
         | (Some l, Some r) \<Rightarrow> if l \<noteq> r then None else Some (merged (Some l))
         | (Some l, None) \<Rightarrow> Some (merged (Some l)))"

definition merge_function_effects :: "function_effects \<Rightarrow> function_effects \<Rightarrow> function_effects parse" where
  "merge_function_effects outer inner =
     (case merged_effects outer inner of
        None \<Rightarrow> fail_here (lit ''nested `with(...)` constructors declare incompatible failure effects'')
      | Some effects \<Rightarrow> preturn effects)"

subsection \<open>Result types\<close>

definition successor_universe_follows :: "parser \<Rightarrow> bool" where
  "successor_universe_follows s \<longleftrightarrow>
     at_context_ident (lit ''sort'') s \<and> at_offset 1 (Delim LParen) s \<and> ident_at 2 s \<noteq> None \<and>
     at_offset 3 (Arith Plus) s"

definition successor_universe :: "source_type parse" where
  "successor_universe =
     pseq advance
       (pseq advance
         (pbind (expect_ident (lit ''a universe level parameter'')) (\<lambda>level.
           pseq (expect (Arith Plus) (lit ''`+` in successor universe''))
             (pwith current (\<lambda>t.
               if kind t \<noteq> Integer 1
               then fail_at t (lit ''a universe constructor result must be `sort(level + 1)`'')
               else
                 pseq advance
                   (pseq (expect (Delim RParen) (lit ''`)` after successor universe''))
                     (preturn (SrcNamed (lit ''sort'') [SrcNamed (level @ lit ''+1'') []]))))))))"

definition function_result_type :: "grammar \<Rightarrow> source_type parse" where
  "function_result_type g = pif successor_universe_follows successor_universe (g_type g)"

subsection \<open>Borrows\<close>

definition token_can_start_borrow_operand :: "token_kind \<Rightarrow> bool" where
  "token_can_start_borrow_operand k \<longleftrightarrow>
     ident_of k \<noteq> None \<or> k \<in> {Word KRoot, Word KSuper, Contextual CBorrow, Arith Star, Delim LParen}"

definition borrow_qualifier_group_follows :: "parser \<Rightarrow> bool" where
  "borrow_qualifier_group_follows s \<longleftrightarrow>
     at_token (Delim LParen) s \<and>
     (is_at 1 [Contextual CMut] s \<or> region_at 1 s \<noteq> None \<or>
      ident_at 1 s \<noteq> None \<and>
        (at_offset 2 (Delim Comma) s \<or>
         at_offset 2 (Delim RParen) s \<and>
           (case kind_of s (position s + 3) of Some k \<Rightarrow> token_can_start_borrow_operand k | None \<Rightarrow> False)))"

definition borrow_type_region_group_follows :: "parser \<Rightarrow> bool" where
  "borrow_type_region_group_follows s \<longleftrightarrow>
     at_token (Delim LParen) s \<and> (ident_at 1 s \<noteq> None \<or> region_at 1 s \<noteq> None) \<and>
     at_offset 2 (Delim RParen) s \<and> at_offset 3 (Delim LParen) s"

text \<open>An identifier or a region.\<close>

definition region_argument :: "token_kind \<Rightarrow> chars option" where
  "region_argument k = (case k of Ident name \<Rightarrow> Some name | RegionName name \<Rightarrow> Some name | _ \<Rightarrow> None)"

definition optional_region :: "chars option parse" where
  "optional_region =
     pif (\<lambda>s. at_token (Delim LParen) s \<and> (ident_at 1 s \<noteq> None \<or> region_at 1 s \<noteq> None))
       (pseq (expect (Delim LParen) (lit ''`(` before region''))
         (pwith current_kind (\<lambda>k.
           case region_argument k of
             None \<Rightarrow> pstop Unreachable
           | Some name \<Rightarrow>
               pseq advance (pseq (expect (Delim RParen) (lit ''`)` after region'')) (preturn (Some name))))))
       (preturn None)"

definition borrow_access :: "(bool \<times> chars option) parse" where
  "borrow_access =
     if_take (Contextual CMut)
       (preturn (True, None))
       (pmap (\<lambda>name. (False, if name = lit ''shared'' then None else Some name))
         (expect_ident (lit ''an access value or access parameter'')))"

definition borrow_region :: "chars option parse" where
  "borrow_region =
     if_take (Delim Comma)
       (pwith current (\<lambda>t.
         case region_argument (kind t) of
           None \<Rightarrow> fail_at t (lit ''expected a region after access argument'')
         | Some name \<Rightarrow> pseq advance (preturn (Some name))))
       (preturn None)"

definition optional_borrow_arguments :: "(bool \<times> chars option \<times> chars option) parse" where
  "optional_borrow_arguments =
     pif (at_token (Delim LParen))
       (pif (\<lambda>s. region_at 1 s \<noteq> None)
         (pmap (\<lambda>region. (False, None, region)) optional_region)
         (pif (\<lambda>s. is_at 1 [Contextual CMut] s \<or> ident_at 1 s \<noteq> None)
           (pseq (expect (Delim LParen) (lit ''`(` after `borrow`''))
             (pbind borrow_access (\<lambda>(mutable, access).
               pbind borrow_region (\<lambda>region.
                 pseq (expect (Delim RParen) (lit ''`)` after borrow arguments''))
                   (preturn (mutable, access, region))))))
           (preturn (False, None, None))))
       (preturn (False, None, None))"

definition borrow_type_pointee_group :: "grammar \<Rightarrow> source_type parse" where
  "borrow_type_pointee_group g =
     pseq (expect (Delim LParen) (lit ''`(` before borrow pointee type''))
       (pif (at_token (Delim RParen))
         (fail_here (lit ''borrow pointee type cannot be empty''))
         (pbind (g_type g) (\<lambda>pointee.
           pseq (expect (Delim RParen) (lit ''`)` after borrow pointee type'')) (preturn pointee))))"

definition borrow_type :: "grammar \<Rightarrow> source_type parse" where
  "borrow_type g =
     pseq (expect (Contextual CBorrow) (lit ''`borrow`''))
       (pif (at_token (Delim LParen))
         (pif borrow_qualifier_group_follows
           (pbind optional_borrow_arguments (\<lambda>(mutable, access, region).
             pbind
               (pif (\<lambda>s. region = None \<and> borrow_type_region_group_follows s) optional_region (preturn region))
               (\<lambda>region. pmap (SrcBorrow mutable access region) (borrow_type_pointee_group g))))
           (pmap (SrcBorrow False None None) (borrow_type_pointee_group g)))
         (fail_here (lit ''borrow types are written as `borrow(T)`; borrow values are written as `borrow(value)`'')))"

subsection \<open>Function types, tuples and the unit type\<close>

definition function_type_parameter :: "grammar \<Rightarrow> source_type parse" where
  "function_type_parameter g =
     pseq
       (pif ident_followed_by_colon
         (pseq (expect_ident (lit ''a function type parameter name''))
           (expect (Delim Colon) (lit ''`:` after function type parameter name'')))
         no_skip)
       (g_type g)"

text \<open>A group behind its parenthesis, and whether it has a comma.\<close>

definition function_type_group :: "grammar \<Rightarrow> (source_type list \<times> bool) parse" where
  "function_type_group g =
     if_take (Delim RParen)
       (preturn ([], False))
       (ploop (\<lambda>(types, comma).
          pbind (function_type_parameter g) (\<lambda>t.
            if_take (Delim Comma)
              (if_take (Delim RParen) (pbreak (types @ [t], True)) (pcontinue (types @ [t], True)))
              (pseq (expect (Delim RParen) (lit ''`)` after function type parameter group''))
                (pbreak (types @ [t], comma)))))
         ([], False))"

definition parenthesized_type :: "source_type list list \<Rightarrow> bool \<Rightarrow> source_type parse" where
  "parenthesized_type groups comma =
     (case groups of
        [[]] \<Rightarrow> preturn SrcUnit
      | [types] \<Rightarrow> preturn (if comma then SrcTuple types else List.last types)
      | _ \<Rightarrow> fail_here (lit ''function types require `:` before the result type''))"

definition function_type_or_unit :: "grammar \<Rightarrow> source_type parse" where
  "function_type_or_unit g =
     pbind (function_type_group g) (\<lambda>(first, comma).
       pbind
         (pwhile (at_token (Delim LParen))
           (\<lambda>groups.
             pseq (expect (Delim LParen) (lit ''`(` before function type parameter group''))
               (pmap (\<lambda>(group, _). groups @ [group]) (function_type_group g)))
           [first])
         (\<lambda>groups.
           if_take (Delim Colon)
             (pbind (function_result_type g) (\<lambda>result.
               pmap (\<lambda>(effects, failure, _). SrcFunction groups effects (apply_failure_effect result failure))
                 (function_effect_clause g)))
             (parenthesized_type groups comma)))"

subsection \<open>Compile-time array lengths\<close>

text \<open>The root of a curried call and its argument groups in source order.\<close>

lemma size_unlocated_le: "size (unlocated e) \<le> size e"
  by (induction e rule: unlocated.induct) simp_all

function flatten_call :: "expr \<Rightarrow> expr \<times> call_arg list list" where
  "flatten_call e =
     (case unlocated e of
        CallExpr callee arguments \<Rightarrow> (case flatten_call callee of (root, groups) \<Rightarrow> (root, groups @ [arguments]))
      | e \<Rightarrow> (e, []))"
  by pat_completeness auto
termination
proof (relation "measure size")
  fix e callee arguments assume "unlocated e = CallExpr callee arguments"
  then show "(callee, e) \<in> measure size" using size_unlocated_le [of e] by simp
qed simp

declare flatten_call.simps [simp del]

lemma flatten_call_smaller:
  "batch \<in> set (snd (flatten_call e)) \<Longrightarrow> argument \<in> set batch \<Longrightarrow> size (arg_value argument) < size e"
proof (induction e arbitrary: batch rule: flatten_call.induct)
  case (1 e)
  show ?case
  proof (cases "\<exists>callee arguments. unlocated e = CallExpr callee arguments")
    case True
    then obtain callee arguments where call: "unlocated e = CallExpr callee arguments" by blast
    then have "size (CallExpr callee arguments) \<le> size e" using size_unlocated_le [of e] by simp
    moreover have "batch = arguments \<or> batch \<in> set (snd (flatten_call callee))"
      using 1(2) call by (auto simp: flatten_call.simps [of e] split: prod.splits)
    moreover have "argument \<in> set arguments \<Longrightarrow> size (arg_value argument) < size (CallExpr callee arguments)"
      by (cases argument) (auto dest!: size_list_estimation' [of _ _ "size (CallArg _ _)" size] intro: le_imp_less_Suc)
    ultimately show ?thesis using 1(1) [OF call] 1(3) by fastforce
  next
    case False
    then show ?thesis using 1(2) by (auto simp: flatten_call.simps [of e] split: expr.splits)
  qed
qed

primrec map_result :: "('a \<Rightarrow> 'e + 'b) \<Rightarrow> 'a list \<Rightarrow> 'e + 'b list" where
  "map_result f [] = Inr []"
| "map_result f (x # xs) =
     (case f x of
        Inl e \<Rightarrow> Inl e
      | Inr y \<Rightarrow> (case map_result f xs of Inl e \<Rightarrow> Inl e | Inr ys \<Rightarrow> Inr (y # ys)))"

lemma map_result_cong [fundef_cong]:
  "xs = ys \<Longrightarrow> (\<And>x. x \<in> set ys \<Longrightarrow> f x = g x) \<Longrightarrow> map_result f xs = map_result g ys"
  by (induction xs arbitrary: ys) (auto split: sum.splits)

function static_expression :: "expr \<Rightarrow> chars + static_expr" where
  "static_expression e =
     (case unlocated e of
        IntegerExpr v \<Rightarrow>
          if uint v < 2 ^ 64 then Inr (StaticUSize (ucast v)) else Inl (lit ''integer values must fit in `usize`'')
      | BoolExpr b \<Rightarrow> Inr (StaticBool b)
      | NameExpr name \<Rightarrow> Inr (StaticName name)
      | UnaryExpr operator operand \<Rightarrow>
          if operator = DerefOp
          then Inl (lit ''expected a pure expression using literals, names, operators, and top-level calls'')
          else (case static_expression operand of Inl m \<Rightarrow> Inl m | Inr v \<Rightarrow> Inr (StaticUnary operator v))
      | BinaryExpr l operator r \<Rightarrow>
          (case static_expression l of
             Inl m \<Rightarrow> Inl m
           | Inr l \<Rightarrow>
               (case static_expression r of Inl m \<Rightarrow> Inl m | Inr r \<Rightarrow> Inr (StaticBinary l operator r)))
      | CallExpr callee arguments \<Rightarrow>
          (case fst (flatten_call e) of
             NameExpr name \<Rightarrow>
               (case map_result
                   (map_result (\<lambda>argument.
                      case static_expression (arg_value argument) of
                        Inl m \<Rightarrow> Inl m
                      | Inr v \<Rightarrow> Inr (arg_label argument, v)))
                   (snd (flatten_call e)) of
                  Inl m \<Rightarrow> Inl m
                | Inr groups \<Rightarrow> Inr (StaticCall name groups))
           | _ \<Rightarrow> Inl (lit ''static calls must name a top-level pure function''))
      | _ \<Rightarrow> Inl (lit ''expected a pure expression using literals, names, operators, and top-level calls''))"
  by pat_completeness auto
termination
proof (relation "measure size", goal_cases)
  case (2 e operator operand)
  then show ?case using size_unlocated_le [of e] by simp
next
  case (3 e l operator r)
  then show ?case using size_unlocated_le [of e] by simp
next
  case (4 e l operator r)
  then show ?case using size_unlocated_le [of e] by simp
next
  case (5 e callee arguments name group argument)
  then show ?case using flatten_call_smaller [of group e argument] by simp
qed simp

declare static_expression.simps [simp del]

definition array_length :: "static_expr \<Rightarrow> usize_const" where
  "array_length e =
     (case e of StaticUSize n \<Rightarrow> LiteralConst n | StaticName name \<Rightarrow> ParameterConst name | _ \<Rightarrow> ExpressionConst e)"

subsection \<open>Types\<close>

text \<open>The optional label of an argument of \<open>array\<close>, and an optional comma.\<close>

definition skip_label :: "chars \<Rightarrow> unit parse" where
  "skip_label label =
     pif (\<lambda>s. at_context_ident label s \<and> at_offset 1 (Delim Colon) s) (pseq advance advance) no_skip"

definition optional_comma :: "unit parse" where
  "optional_comma = if_take (Delim Comma) no_skip no_skip"

definition array_length_argument :: "grammar \<Rightarrow> usize_const parse" where
  "array_length_argument g =
     pwith current (\<lambda>t.
       if kind t = Ident (lit ''_'')
       then fail_at t (lit ''`_` compile-time argument inference has been removed; provide an explicit array length'')
       else
         pbind (g_expression g False) (\<lambda>e.
           case static_expression e of
             Inl m \<Rightarrow> fail_at t (lit ''invalid compile-time array length: '' @ m)
           | Inr v \<Rightarrow> preturn (array_length v)))"

definition array_application :: "grammar \<Rightarrow> chars \<Rightarrow> source_type parse" where
  "array_application g name =
     pseq (skip_label (lit ''t''))
       (pbind (g_type g) (\<lambda>element.
         pseq optional_comma
           (pseq (expect (Delim RParen) (lit ''`)` after the array element type; write the length in a second group''))
             (pseq (expect (Delim LParen) (lit ''`(` before the array length; write `array(t)(l)`''))
               (pseq (skip_label (lit ''l''))
                 (pbind (array_length_argument g) (\<lambda>n.
                   pseq optional_comma
                     (pseq (expect (Delim RParen) (lit ''`)` after array length''))
                       (preturn (SrcArrayApplication name element n))))))))))"

definition primitive_type :: "chars \<Rightarrow> source_type" where
  "primitive_type name =
     (case map_of (map (\<lambda>i. (integer_name i, i)) [I8, I16, I32, I64, I128, ISize, U8, U16, U32, U64, U128, USize]) name of
        Some i \<Rightarrow> SrcInt i
      | None \<Rightarrow> if name = lit ''bool'' then SrcBool else SrcNamed name [])"

definition mixed_type_arguments :: "'a parse" where
  "mixed_type_arguments = fail_here (lit ''type arguments must be either all labeled or all positional'')"

definition type_argument_groups :: "grammar \<Rightarrow> (chars option \<times> source_type) list parse" where
  "type_argument_groups g =
     ploop (\<lambda>arguments.
       if_take (Delim LParen)
         (if_take (Delim RParen)
           (pbreak arguments)
           (pbind
             (type_arguments g [lit ''access'', lit ''effect''] (lit ''a type argument label'')
               (lit ''`:` after type argument label'') (lit ''`)` after type arguments''))
             (\<lambda>group. if mixed_labels group then mixed_type_arguments else pcontinue (arguments @ group))))
         (pbreak arguments))
       []"

definition named_type :: "grammar \<Rightarrow> source_type parse" where
  "named_type g =
     pbind (dotted_path (lit ''a type'') (lit ''a type path segment after `.`'')) (\<lambda>path.
       let name = join_text (lit ''.'') path in
       pif (\<lambda>s. rsplit_last (lit ''.'') name = lit ''array'' \<and> at_token (Delim LParen) s)
         (pseq advance (array_application g name))
         (pbind (type_argument_groups g) (\<lambda>arguments.
           if mixed_labels arguments then mixed_type_arguments
           else preturn (if arguments = [] then primitive_type name else applied_name name arguments))))"

definition effectful_type :: "grammar \<Rightarrow> source_type parse" where
  "effectful_type g =
     pbind (function_effect_clause g) (\<lambda>(outer, _, _).
       pseq (expect (Delim LParen) (lit ''`(` before the callable operand of `with(...)`''))
         (pbind (g_type g) (\<lambda>operand.
           pseq (expect (Delim RParen) (lit ''`)` after the callable operand of `with(...)`''))
             (case operand of
                SrcFunction groups inner result \<Rightarrow>
                  pmap (\<lambda>effects. SrcFunction groups effects result) (merge_function_effects outer inner)
              | _ \<Rightarrow>
                  fail_here (lit ''`with(E)(F)` accepts only a callable type `F`; it cannot wrap an ordinary result type'')))))"

definition type_expr :: "grammar \<Rightarrow> source_type parse" where
  "type_expr g =
     pif (at_context_ident (lit ''with''))
       (effectful_type g)
       (if_take (Delim LParen)
         (function_type_or_unit g)
         (pif (at_token (Contextual CBorrow))
           (borrow_type g)
           (pif (at_context_ident (lit ''_''))
             (fail_here (lit ''`_` type inference has been removed; omit the compile-time argument group or use named arguments''))
             (named_type g))))"

end
