(* ===== verification/Parser_Params.thy ===== *)
theory Parser_Params
  imports Parser_Types
begin

text \<open>
  Parameter groups and their sorts (\<open>compiler/src/parser.rs\<close>).
\<close>

subsection \<open>Sort levels\<close>

definition level_out_of_range :: "token \<Rightarrow> 'a parse" where
  "level_out_of_range t = fail_at t (lit ''sort level does not fit in `usize`'')"

definition level_zero :: "token \<Rightarrow> 'a parse" where
  "level_zero t = fail_at t (lit ''`sort(0)` is invalid; sort levels start at 1'')"

definition level_value :: "token \<Rightarrow> u128 \<Rightarrow> (u64 \<Rightarrow> 'a parse) \<Rightarrow> 'a parse" where
  "level_value t v k =
     (if 2 ^ 64 \<le> uint v then level_out_of_range t else if v = 0 then level_zero t else k (ucast v))"

definition close_sort_level :: "'a \<Rightarrow> 'a parse" where
  "close_sort_level level =
     pseq advance (pseq (expect (Delim RParen) (lit ''`)` after sort level'')) (preturn level))"

definition sort_level_literal :: "u64 parse" where
  "sort_level_literal =
     pseq (expect (Delim LParen) (lit ''`(` after `sort`''))
       (pwith current (\<lambda>t.
         case integer_of (kind t) of
           None \<Rightarrow> fail_at t (lit ''top-level sort levels must be positive integer literals'')
         | Some v \<Rightarrow> level_value t v close_sort_level))"

definition compile_sort_level :: "sort_level parse" where
  "compile_sort_level =
     pseq (expect (Delim LParen) (lit ''`(` after `sort`''))
       (pwith current (\<lambda>t.
         case kind t of
           Integer v \<Rightarrow> level_value t v (\<lambda>level. close_sort_level (LiteralLevel level))
         | Ident name \<Rightarrow> close_sort_level (ParameterLevel name)
         | _ \<Rightarrow> fail_at t (lit ''sort level must be a positive integer literal or a compile-time parameter'')))"

subsection \<open>Sorts of parameters\<close>

text \<open>The groups of a constructor sort, in a look ahead at the kinds of the tokens.\<close>

fun sort_group_rest :: "token_kind list \<Rightarrow> token_kind list option" where
  "sort_group_rest ks =
     (if 4 \<le> length ks \<and> token_kind_matches (ks ! 0) (Contextual CComptime) \<and> ident_of (ks ! 1) \<noteq> None \<and>
         ks ! 2 = Delim Colon \<and>
         (token_kind_matches (ks ! 3) (Contextual CType) \<or> token_kind_matches (ks ! 3) (Contextual CRegion) \<or>
          ident_of (ks ! 3) \<noteq> None)
      then
        (if nth_opt ks 4 = Some (Delim Comma)
         then if nth_opt ks 5 = Some (Delim RParen) then Some (List.drop 5 ks) else sort_group_rest (List.drop 5 ks)
         else Some (List.drop 4 ks))
      else None)"

declare sort_group_rest.simps [simp del]

lemma sort_group_rest_shorter: "sort_group_rest ks = Some rest \<Longrightarrow> length rest < length ks"
proof (induction ks rule: sort_group_rest.induct)
  case (1 ks)
  show ?case
  proof (cases "nth_opt ks 4 = Some (Delim Comma) \<and> nth_opt ks 5 \<noteq> Some (Delim RParen)")
    case True
    then have "length rest < length (List.drop 5 ks)"
      using 1 by (simp add: sort_group_rest.simps [of ks] split: if_splits)
    then show ?thesis by simp
  next
    case False
    then show ?thesis using 1(2) by (auto simp: sort_group_rest.simps [of ks] split: if_splits)
  qed
qed

text \<open>The number of groups and what is left, or \<open>None\<close> for a group of another form.\<close>

function sort_groups_rest :: "nat \<Rightarrow> token_kind list \<Rightarrow> (nat \<times> token_kind list) option" where
  "sort_groups_rest n ks =
     (if nth_opt ks 0 = Some (Delim LParen)
      then
        (case sort_group_rest (List.drop 1 ks) of
           None \<Rightarrow> None
         | Some rest \<Rightarrow>
             if nth_opt rest 0 = Some (Delim RParen) then sort_groups_rest (Suc n) (List.drop 1 rest) else None)
      else Some (n, ks))"
  by pat_completeness auto
termination
  by (relation "measure (length \<circ> snd)") (auto dest!: sort_group_rest_shorter)

declare sort_groups_rest.simps [simp del]

definition kinds_from :: "nat \<Rightarrow> parser \<Rightarrow> token_kind list" where
  "kinds_from i s = map kind (List.drop i (tokens s))"

definition constructor_compile_parameter_sort_starts_at :: "nat \<Rightarrow> parser \<Rightarrow> bool" where
  "constructor_compile_parameter_sort_starts_at offset s =
     (case sort_groups_rest 0 (kinds_from (position s + offset) s) of
        None \<Rightarrow> False
      | Some (groups, ks) \<Rightarrow>
          groups \<noteq> 0 \<and> nth_opt ks 0 = Some (Delim Colon) \<and>
          (case nth_opt ks 1 of
             Some k \<Rightarrow>
               token_kind_matches k (Contextual CType) \<or> k = Ident (lit ''effect'') \<or> k = Ident (lit ''parameters'')
           | None \<Rightarrow> False))"

definition compile_parameter_sort_starts_at :: "nat \<Rightarrow> parser \<Rightarrow> bool" where
  "compile_parameter_sort_starts_at offset s \<longleftrightarrow>
     at_offset offset (Contextual CType) s \<or> at_offset offset (Contextual CRegion) s \<or>
     constructor_compile_parameter_sort_starts_at offset s \<or> ident_at offset s \<noteq> None"

definition current_starts_compile_parameter :: "parser \<Rightarrow> bool" where
  "current_starts_compile_parameter s \<longleftrightarrow>
     at_token (Contextual CComptime) s \<and> (ident_at 1 s \<noteq> None \<or> region_at 1 s \<noteq> None) \<and>
     at_offset 2 (Delim Colon) s \<and> compile_parameter_sort_starts_at 3 s"

definition group_starts_with_compile_parameter :: "parser \<Rightarrow> bool" where
  "group_starts_with_compile_parameter s \<longleftrightarrow>
     at_token (Delim LParen) s \<and> at_offset 1 (Contextual CComptime) s \<and>
     (if at_offset 2 (Delim Ellipsis) s
      then ident_at 3 s \<noteq> None \<and> at_offset 4 (Delim Colon) s \<and> ident_at 5 s = Some (lit ''parameters'')
      else
        (ident_at 2 s \<noteq> None \<or> region_at 2 s \<noteq> None) \<and> at_offset 3 (Delim Colon) s \<and>
        compile_parameter_sort_starts_at 4 s)"

text \<open>The edition has one static fragment, \<open>constraint\<close>.\<close>

definition edition_fragment_kind :: "chars \<Rightarrow> static_fragment_kind option" where
  "edition_fragment_kind name = (if name = fragment_name fragment_constraint then Some fragment_constraint else None)"

definition sort_named :: "chars \<Rightarrow> sort" where
  "sort_named name =
     (if name = lit ''usize'' then USizeSort
      else if name = lit ''access'' then NamedSort (lit ''access'')
      else if name = lit ''effect'' then EffectSort
      else if name = lit ''effects'' then EffectsSort
      else if name = lit ''parameters'' then ParametersSort
      else (case edition_fragment_kind name of Some fragment \<Rightarrow> FragmentSort fragment | None \<Rightarrow> NamedSort name))"

definition reserved_parameter_name :: "token \<Rightarrow> chars \<Rightarrow> string \<Rightarrow> 'a parse" where
  "reserved_parameter_name t name what =
     fail_at t (lit ''reserved type name '' @ quoted name @ lit '' cannot be used as a '' @ lit what)"

definition static_region_redeclared :: "token \<Rightarrow> 'a parse" where
  "static_region_redeclared t =
     fail_at t (lit ''region entity `'' @ [39] @ lit ''static` is predefined and cannot be redeclared'')"

definition constructor_sort_parameter :: "grammar \<Rightarrow> sort parse" where
  "constructor_sort_parameter g =
     pseq (expect (Contextual CComptime) (lit ''`comptime` before constructor sort parameter''))
       (pwith current (\<lambda>t.
         pbind (expect_ident (lit ''a constructor sort parameter name'')) (\<lambda>name.
           if reserved_type_name name then reserved_parameter_name t name ''constructor sort parameter''
           else
             pseq (expect (Delim Colon) (lit ''`:` after constructor sort parameter name''))
               (g_sort g t name False))))"

definition constructor_sort_parameter_group :: "grammar \<Rightarrow> sort list parse" where
  "constructor_sort_parameter_group g =
     pseq (expect (Delim LParen) (lit ''`(` in constructor sort''))
       (if_take (Delim RParen)
         (fail_here (lit ''constructor sort parameter groups cannot be empty''))
         (comma_list (constructor_sort_parameter g) no_skip (Delim RParen)
           (lit ''`)` after constructor sort parameters'')))"

definition constructor_result_sort :: "sort list list \<Rightarrow> sort parse" where
  "constructor_result_sort groups =
     if_take (Contextual CType)
       (preturn (TypeConstructorSort groups))
       (pif (at_context_ident (lit ''effect''))
         (pseq advance (preturn (EffectConstructorSort groups)))
         (pif (at_context_ident (lit ''parameters''))
           (pseq advance
             (if groups = [[ParametersSort]] then preturn ParameterModifierSort
              else fail_here (lit ''parameter modifier sorts must have the exact shape `(P: parameters): parameters`'')))
           (fail_here (lit ''expected constructor result sort `type`, `effect`, or `parameters`''))))"

definition constructor_compile_parameter_sort :: "grammar \<Rightarrow> sort parse" where
  "constructor_compile_parameter_sort g =
     pbind
       (pwhile (at_token (Delim LParen))
         (\<lambda>groups. pmap (\<lambda>group. groups @ [group]) (constructor_sort_parameter_group g)) [])
       (\<lambda>groups.
         pseq (expect (Delim Colon) (lit ''`:` before constructor result sort'')) (constructor_result_sort groups))"

definition region_sort :: "token \<Rightarrow> chars \<Rightarrow> sort parse" where
  "region_sort t name = (if name = lit ''static'' then static_region_redeclared t else preturn RegionSort)"

definition compile_parameter_sort :: "grammar \<Rightarrow> token \<Rightarrow> chars \<Rightarrow> bool \<Rightarrow> sort parse" where
  "compile_parameter_sort g t name is_region =
     (if is_region
      then fail_at t (lit ''region literals cannot be compile-time parameter names; write `comptime r: region` for a region parameter'')
      else
        if_take (Contextual CType)
          (if reserved_type_name name then reserved_parameter_name t name ''compile-time parameter'' else preturn TypeSort)
          (pwith current_kind (\<lambda>k.
            case ident_of k of
              Some word \<Rightarrow>
                if word = lit ''sort'' then pseq advance (pmap UniverseSort compile_sort_level)
                else if word = lit ''region''
                then if name = lit ''static'' then static_region_redeclared t else pseq advance (preturn RegionSort)
                else pseq advance (preturn (sort_named word))
            | None \<Rightarrow>
                pif (at_token (Delim LParen))
                  (if reserved_type_name name then reserved_parameter_name t name ''compile-time parameter''
                   else constructor_compile_parameter_sort g)
                  (pseq
                    (expect (Contextual CRegion)
                      (lit ''`type`, `usize`, `access`, `effect`, `effects`, `parameters`, `constraint`, a constructor sort, or `region`''))
                    (region_sort t name)))))"

subsection \<open>Groups of compile-time parameters\<close>

definition static_name :: "token_kind \<Rightarrow> chars option" where
  "static_name k =
     (case k of
        Ident name \<Rightarrow> Some name
      | Contextual CMut \<Rightarrow> Some (lit ''mut'')
      | Contextual CCopy \<Rightarrow> Some (lit ''copy'')
      | Contextual CMove \<Rightarrow> Some (lit ''move'')
      | Word KTrue \<Rightarrow> Some (lit ''true'')
      | Word KFalse \<Rightarrow> Some (lit ''false'')
      | _ \<Rightarrow> None)"

definition compile_parameter_default_name :: "chars \<Rightarrow> chars parse" where
  "compile_parameter_default_name what =
     pwith current (\<lambda>t.
       case static_name (kind t) of
         Some name \<Rightarrow> pseq advance (preturn name)
       | None \<Rightarrow> fail_at t (expected_found what (kind t)))"

definition parameter_default :: "sort \<Rightarrow> compile_param_default parse" where
  "parameter_default k =
     (case k of
        UniverseSort _ \<Rightarrow> fail_here (lit ''defaults for universe parameters are not supported'')
      | EffectSort \<Rightarrow> pmap DefaultName (compile_parameter_default_name (lit ''an effect default''))
      | EffectsSort \<Rightarrow> pmap DefaultName (compile_parameter_default_name (lit ''an effect default''))
      | ParametersSort \<Rightarrow> fail_here (lit ''defaults for parameter-schema parameters are not supported yet'')
      | FragmentSort fragment \<Rightarrow>
          fail_here (lit ''defaults for '' @ fragment_name fragment @ lit '' fragments are not supported'')
      | ParameterPackSort \<Rightarrow> fail_here (lit ''parameter packs cannot have defaults'')
      | ParameterModifierSort \<Rightarrow> fail_here (lit ''defaults for parameter modifier functions are not supported yet'')
      | RegionSort \<Rightarrow>
          pwith current (\<lambda>t.
            case region_of (kind t) of
              None \<Rightarrow> fail_at t (expected_found (lit ''a region default'') (kind t))
            | Some name \<Rightarrow> pseq advance (preturn (DefaultRegion name)))
      | NamedSort _ \<Rightarrow> pmap DefaultName (compile_parameter_default_name (lit ''a compile-time value default''))
      | _ \<Rightarrow> fail_here (lit ''defaults for type and constructor parameters are not supported yet''))"

definition compile_parameter_default :: "sort \<Rightarrow> compile_param_default option parse" where
  "compile_parameter_default k = if_take (Arith Equal) (pmap Some (parameter_default k)) (preturn None)"

definition push_parameter_group :: "unit parse" where
  "push_parameter_group =
     pupdate (\<lambda>s. s\<lparr>layout := (layout s)\<lparr>parameter_groups := parameter_groups (layout s) @ [start_byte (current s)]\<rparr>\<rparr>)"

definition parameter_pack :: "compile_param parse" where
  "parameter_pack =
     pbind (expect_ident (lit ''a parameter-pack name'')) (\<lambda>name.
       pseq (expect (Delim Colon) (lit ''`:` after parameter-pack name''))
         (pif (at_context_ident (lit ''parameters''))
           (pseq advance
             (pseq optional_comma
               (pseq (expect (Delim RParen) (lit ''`)` after parameter pack''))
                 (preturn \<lparr>cp_name = name, cp_kind = ParameterPackSort, cp_default = None\<rparr>))))
           (fail_here (lit ''`...` compile-time packs currently require sort `parameters`''))))"

definition compile_parameter_follows :: "parser \<Rightarrow> bool" where
  "compile_parameter_follows s \<longleftrightarrow>
     (ident_of (current_kind s) \<noteq> None \<or> region_of (current_kind s) \<noteq> None) \<and>
     at_offset 1 (Delim Colon) s \<and> compile_parameter_sort_starts_at 2 s"

definition mixed_parameters :: "'a parse" where
  "mixed_parameters = fail_here (lit ''compile-time and runtime parameters cannot be mixed in one group'')"

definition compile_parameter :: "grammar \<Rightarrow> compile_param parse" where
  "compile_parameter g =
     pif compile_parameter_follows
       (pwith current (\<lambda>t.
         case region_argument (kind t) of
           None \<Rightarrow> pstop Unreachable
         | Some name \<Rightarrow>
             pseq advance
               (pseq (expect (Delim Colon) (lit ''`:` after compile-time parameter name''))
                 (pbind (compile_parameter_sort g t name (region_of (kind t) \<noteq> None)) (\<lambda>k.
                   pmap (\<lambda>default. \<lparr>cp_name = name, cp_kind = k, cp_default = default\<rparr>)
                     (compile_parameter_default k))))))
       mixed_parameters"

definition compile_parameter_group :: "grammar \<Rightarrow> compile_param list parse" where
  "compile_parameter_group g =
     pseq push_parameter_group
       (pseq (expect (Delim LParen) (lit ''`(`''))
         (ploop
           (\<lambda>parameters.
             pseq (expect (Contextual CComptime) (lit ''`comptime` before compile-time parameter''))
               (if_take (Delim Ellipsis)
                 (pbind parameter_pack (\<lambda>p. pbreak (parameters @ [p])))
                 (pbind (compile_parameter g) (\<lambda>p.
                   if_take (Delim Comma)
                     (if_take (Delim RParen) (pbreak (parameters @ [p])) (pcontinue (parameters @ [p])))
                     (pseq (expect (Delim RParen) (lit ''`)`'')) (pbreak (parameters @ [p])))))))
           []))"

subsection \<open>Groups of runtime parameters\<close>

definition modifier_at :: "chars set \<Rightarrow> parser \<Rightarrow> chars option" where
  "modifier_at allowed s =
     (case kind_of s (position s + 1) of
        Some following \<Rightarrow>
          if ident_of following \<noteq> None \<or> following = Contextual CCopy \<or> following = Contextual CMove
          then
            (case current_kind s of
               Ident name \<Rightarrow> if name \<in> allowed \<or> name = lit ''copy'' \<or> name = lit ''move'' then Some name else None
             | Contextual CCopy \<Rightarrow> Some (lit ''copy'')
             | Contextual CMove \<Rightarrow> Some (lit ''move'')
             | _ \<Rightarrow> None)
          else None
      | None \<Rightarrow> None)"

definition parameter_modifiers :: "chars set \<Rightarrow> chars list parse" where
  "parameter_modifiers allowed =
     ploop
       (\<lambda>modifiers.
         pwith (modifier_at allowed) (\<lambda>m.
           case m of
             None \<Rightarrow> pbreak modifiers
           | Some name \<Rightarrow> pseq advance (pcontinue (modifiers @ [name]))))
       []"

text \<open>The last \<open>copy\<close> or \<open>move\<close> decides.\<close>

definition mode_of_modifiers :: "chars list \<Rightarrow> pass_mode" where
  "mode_of_modifiers modifiers =
     fold (\<lambda>m mode. if m = lit ''copy'' then CopyMode else if m = lit ''move'' then MoveMode else mode) modifiers InferredMode"

definition is_mode :: "chars \<Rightarrow> bool" where
  "is_mode m \<longleftrightarrow> m = lit ''copy'' \<or> m = lit ''move''"

definition inferred_param :: "chars \<Rightarrow> source_type \<Rightarrow> param" where
  "inferred_param name t =
     \<lparr>param_mode = InferredMode, param_access = None, param_modifiers = [], param_region = None, param_name = name,
      param_ty = t\<rparr>"

definition parameter_expansion :: "grammar \<Rightarrow> param list parse" where
  "parameter_expansion g =
     pbind
       (if_take (Contextual CMove) (preturn MoveMode) (if_take (Contextual CCopy) (preturn CopyMode) (preturn InferredMode)))
       (\<lambda>mode.
         pbind (expect_ident (lit ''a parameter-pack binding name'')) (\<lambda>name.
           pseq (expect (Delim Colon) (lit ''`:` after parameter-pack binding name''))
             (pbind (g_type g) (\<lambda>schema.
               pseq
                 (expect (Delim RParen)
                   (lit ''`)` after parameter-pack expansion; an expansion must occupy its complete parameter group''))
                 (preturn [(inferred_param name (SrcNamed (lit ''$parameters$expand'') [schema]))\<lparr>param_mode := mode\<rparr>])))))"

definition runtime_parameter_type :: "grammar \<Rightarrow> bool \<Rightarrow> chars \<Rightarrow> source_type parse" where
  "runtime_parameter_type g allow_receiver name =
     (if name = lit ''self''
      then
        if \<not> allow_receiver
        then fail_here (lit ''contextual `self` receivers are only allowed in extend or trait methods'')
        else if_take (Delim Colon) (g_type g) (preturn (SrcNamed (lit ''self'') []))
      else pseq (expect (Delim Colon) (lit ''`:` after parameter name'')) (g_type g))"

definition runtime_parameter :: "grammar \<Rightarrow> bool \<Rightarrow> chars set \<Rightarrow> param parse" where
  "runtime_parameter g allow_receiver allowed =
     pbind (parameter_modifiers allowed) (\<lambda>modifiers.
       pif (at_token (Contextual CBorrow))
         (fail_here (lit ''borrow parameter mode was removed; write `name: borrow(T)` and pass `borrow(value)` at the call site''))
         (pif current_starts_compile_parameter
           mixed_parameters
           (pbind
             (expect_ident (if allow_receiver then lit ''a parameter name or `self`'' else lit ''a parameter name''))
             (\<lambda>name.
               pmap
                 (\<lambda>t. (inferred_param name t)
                   \<lparr>param_mode := mode_of_modifiers modifiers, param_modifiers := filter (\<lambda>m. \<not> is_mode m) modifiers\<rparr>)
                 (runtime_parameter_type g allow_receiver name)))))"

definition runtime_parameter_group :: "grammar \<Rightarrow> bool \<Rightarrow> chars set \<Rightarrow> bool \<Rightarrow> param list parse" where
  "runtime_parameter_group g allow_receiver allowed record_layout =
     pseq (if record_layout then push_parameter_group else no_skip)
       (pseq (expect (Delim LParen) (lit ''`(`''))
         (if_take (Delim RParen)
           (preturn [])
           (if_take (Delim Ellipsis)
             (parameter_expansion g)
             (comma_list (runtime_parameter g allow_receiver allowed) no_skip (Delim RParen) (lit ''`)`'')))))"

definition untyped_closure_parameter_group_follows :: "parser \<Rightarrow> bool" where
  "untyped_closure_parameter_group_follows s \<longleftrightarrow>
     at_token (Delim LParen) s \<and> ident_at 1 s \<noteq> None \<and> is_at 2 [Delim Comma, Delim RParen] s"

definition parameter_group :: "grammar \<Rightarrow> param list parse" where
  "parameter_group g =
     pif untyped_closure_parameter_group_follows
       (pseq (expect (Delim LParen) (lit ''`(`''))
         (comma_list
           (pmap (\<lambda>name. inferred_param name (SrcNamed (lit ''$context$infer'') []))
             (expect_ident (lit ''a contextual closure parameter name'')))
           no_skip (Delim RParen) (lit ''`)`'')))
       (runtime_parameter_group g False {} False)"

definition validate_receiver_groups :: "chars \<Rightarrow> param list list \<Rightarrow> unit parse" where
  "validate_receiver_groups name groups =
     (let receivers =
        concat (map (\<lambda>(i, group). map (\<lambda>_. i) (filter (\<lambda>p. param_name p = lit ''self'') group)) (enumerate 0 groups)) in
      if 1 < length receivers then fail_here (lit ''a method can have at most one `self` receiver'')
      else if receivers = [] then preturn ()
      else if hd receivers \<noteq> 0 then fail_here (lit ''`self` must appear in the first parameter group'')
      else if length (groups ! 0) \<noteq> 1 then fail_here (lit ''`self` must be the only parameter in its group'')
      else if length groups < 2 \<and> name \<noteq> lit ''unwrap'' \<and> name \<noteq> lit ''raise''
      then fail_here (lit ''an instance method requires an explicit parameter group after `self`'')
      else preturn ())"

subsection \<open>The groups of a declaration\<close>

definition repeated_parameter_group_schema :: "grammar \<Rightarrow> source_type parse" where
  "repeated_parameter_group_schema g =
     pbind (dotted_path (lit ''a parameter schema'') (lit ''a parameter schema path segment after `.`'')) (\<lambda>path.
       pmap (SrcNamed (join_text (lit ''.'') path))
         (if_take (Delim LParen)
           (if_take (Delim RParen)
             (preturn [])
             (comma_list (g_type g) no_skip (Delim RParen) (lit ''`)` after parameter schema arguments'')))
           (preturn [])))"

definition parameter_names :: "(compile_param \<Rightarrow> bool) \<Rightarrow> compile_param list list \<Rightarrow> chars set" where
  "parameter_names wanted groups = set (map cp_name (filter wanted (concat groups)))"

definition compile_parameter_groups :: "grammar \<Rightarrow> compile_param list list parse" where
  "compile_parameter_groups g =
     pwhile group_starts_with_compile_parameter
       (\<lambda>groups.
         pbind (compile_parameter_group g) (\<lambda>group.
           pseq
             (pupdate (\<lambda>s. s\<lparr>effect_parameters_in_scope := effect_parameters_in_scope s \<union>
                parameter_names (\<lambda>p. is_effect_classifier (cp_kind p)) [group]\<rparr>))
             (pseq (take_newlines_if_followed_by [Delim LParen, Delim Colon, Arith Equal])
               (preturn (groups @ [group])))))
       []"

text \<open>Runtime groups; behind a boundary no group of compile-time parameters may follow.\<close>

definition runtime_parameter_groups ::
    "grammar \<Rightarrow> bool \<Rightarrow> chars set \<Rightarrow> chars option \<Rightarrow> token_kind list \<Rightarrow> param list list \<Rightarrow> param list list parse" where
  "runtime_parameter_groups g allow_receiver allowed boundary ks =
     pwhile (at_token (Delim LParen))
       (\<lambda>groups.
         pseq
           (case boundary of
              None \<Rightarrow> no_skip
            | Some m \<Rightarrow> pif group_starts_with_compile_parameter (fail_here m) no_skip)
           (pbind (runtime_parameter_group g allow_receiver allowed True) (\<lambda>group.
             pseq (take_newlines_if_followed_by ks) (preturn (groups @ [group])))))"

definition push_repeated_group :: "unit parse" where
  "push_repeated_group =
     pupdate (\<lambda>s. s\<lparr>layout := (layout s)
       \<lparr>repeated_parameter_groups := repeated_parameter_groups (layout s) @ [start_byte (previous s)]\<rparr>\<rparr>)"

definition repeated_parameter_group ::
    "grammar \<Rightarrow> compile_param list list \<Rightarrow> param list list \<Rightarrow> param list list parse" where
  "repeated_parameter_group g compile_groups groups =
     pseq push_repeated_group
       (pbind (repeated_parameter_group_schema g) (\<lambda>schema.
         case schema of
           SrcNamed pack arguments \<Rightarrow>
             if arguments = [] \<and> \<not> list_ex (\<lambda>p. cp_name p = pack \<and> cp_kind p = ParameterPackSort) (concat compile_groups)
             then fail_here (lit ''repeated runtime group '' @ quoted pack @ lit '' requires a preceding `...'' @ pack @
               lit '': parameters` declaration'')
             else preturn (groups @ [[inferred_param pack (SrcNamed (lit ''$parameter$groups$expand'') [schema])]])
         | _ \<Rightarrow> fail_here (lit ''a repeated runtime parameter group requires a parameter schema'')))"

definition trailing_parameter_groups ::
    "grammar \<Rightarrow> bool \<Rightarrow> compile_param list list \<Rightarrow> param list list \<Rightarrow> param list list parse" where
  "trailing_parameter_groups g allow_receiver compile_groups groups =
     if_take (Delim Ellipsis)
       (pbind (repeated_parameter_group g compile_groups groups) (\<lambda>groups.
         pseq (take_newlines_if_followed_by [Delim LParen, Delim Colon, Arith Equal])
           (runtime_parameter_groups g allow_receiver
             (parameter_names (\<lambda>p. is_parameter_modifier (cp_kind p)) compile_groups)
             (Some (lit ''compile-time parameter groups must precede repeated runtime parameter groups''))
             [Delim LParen, Delim Colon, Arith Equal] groups)))
       (preturn groups)"

type_synonym declaration_groups = "compile_param list list \<times> param list list \<times> function_effects \<times> bool \<times> bool"

definition callable_boundary :: "parser \<Rightarrow> bool" where
  "callable_boundary s \<longleftrightarrow> at_token (Delim Colon) s \<and> ident_at 1 s = Some (lit ''with'')"

definition boundary_groups :: "grammar \<Rightarrow> bool \<Rightarrow> compile_param list list \<Rightarrow> declaration_groups parse" where
  "boundary_groups g allow_receiver compile_groups =
     pseq (expect (Delim Colon) (lit ''callable-type/body boundary `:` before runtime callable type''))
       (pseq (take_newlines_if_followed_by [Delim LParen, Delim Ellipsis, Ident (lit ''with'')])
         (pbind (function_effect_clause g) (\<lambda>(effects, _, clause).
           pseq (take_newlines_if_followed_by [Delim LParen, Delim Ellipsis])
             (pbind
               (runtime_parameter_groups g allow_receiver (parameter_names (\<lambda>_. True) compile_groups)
                 (Some (lit ''compile-time parameter groups must precede the callable-type/body boundary''))
                 [Delim LParen, Delim Ellipsis, Delim Colon, Arith Equal] [])
               (\<lambda>groups.
                 pmap (\<lambda>groups. (compile_groups, groups, effects, True, clause))
                   (trailing_parameter_groups g allow_receiver compile_groups groups))))))"

definition declaration_groups :: "grammar \<Rightarrow> bool \<Rightarrow> chars list \<Rightarrow> declaration_groups parse" where
  "declaration_groups g allow_receiver outer =
     pseq (pupdate (\<lambda>s. s\<lparr>effect_parameters_in_scope := set outer\<rparr>))
       (pbind (compile_parameter_groups g) (\<lambda>compile_groups.
         pbind
           (runtime_parameter_groups g allow_receiver (parameter_names (\<lambda>_. True) compile_groups) None
             [Delim LParen, Delim Ellipsis, Delim Colon, Arith Equal] [])
           (\<lambda>groups.
             if groups \<noteq> [] then preturn (compile_groups, groups, default_effects, False, False)
             else
               pif callable_boundary
                 (boundary_groups g allow_receiver compile_groups)
                 (preturn (compile_groups, groups, default_effects, False, False)))))"

end
