(* ===== verification/Parser_Pattern.thy ===== *)
theory Parser_Pattern
  imports Parser_Params
begin

text \<open>
  Patterns and the operators with their precedence (\<open>compiler/src/parser.rs\<close>).  The upper-case letters
  of \<open>char::is_uppercase\<close>, a Unicode table, are an argument.
\<close>

subsection \<open>Patterns\<close>

definition literal_pattern :: "u128 \<Rightarrow> bool \<Rightarrow> pattern" where
  "literal_pattern v negative = PatInteger \<lparr>pat_magnitude = v, pat_negative = negative\<rparr>"

definition tuple_or_grouped_pattern :: "grammar \<Rightarrow> pattern parse" where
  "tuple_or_grouped_pattern g =
     pseq (expect (Delim LParen) (lit ''`(` before tuple pattern''))
       (if_take (Delim RParen)
         (fail_here (lit ''empty tuple patterns are written as `_`''))
         (pbind (g_pattern g) (\<lambda>first.
           if_take (Delim Comma)
             (ploop
               (\<lambda>patterns.
                 if_take (Delim RParen)
                   (pbreak (PatTuple patterns))
                   (pbind (g_pattern g) (\<lambda>p.
                     if_take (Delim Comma)
                       (pcontinue (patterns @ [p]))
                       (pseq (expect (Delim RParen) (lit ''`)` after tuple pattern''))
                         (pbreak (PatTuple (patterns @ [p])))))))
               [first])
             (pseq (expect (Delim RParen) (lit ''`)` after parenthesized pattern'')) (preturn first)))))"

definition named_pattern_field :: "grammar \<Rightarrow> (chars \<times> pattern) parse" where
  "named_pattern_field g =
     pbind (expect_ident (lit ''a pattern field name'')) (\<lambda>name.
       pseq (expect (Delim Colon) (lit ''`:` after pattern field name'')) (pmap (Pair name) (g_pattern g)))"

definition pattern_payload :: "grammar \<Rightarrow> pattern_fields parse" where
  "pattern_payload g =
     if_take (Delim LParen)
       (if_take (Delim RParen)
         (preturn (PatPositional []))
         (pif ident_followed_by_colon
           (pmap PatNamed
             (comma_list (named_pattern_field g) no_skip (Delim RParen) (lit ''`)` after pattern fields'')))
           (pmap PatPositional (comma_list (g_pattern g) no_skip (Delim RParen) (lit ''`)` after patterns'')))))
       (preturn PatUnitFields)"

definition looks_like_constructor :: "(code_point \<Rightarrow> bool) \<Rightarrow> bool \<Rightarrow> chars list \<Rightarrow> parser \<Rightarrow> bool" where
  "looks_like_constructor upper anchored path s \<longleftrightarrow>
     anchored \<or> 1 < length path \<or> at_token (Delim LParen) s \<or> (hd path \<noteq> [] \<and> upper (hd (hd path)))"

definition named_pattern :: "(code_point \<Rightarrow> bool) \<Rightarrow> grammar \<Rightarrow> pattern parse" where
  "named_pattern upper g =
     pwith (\<lambda>s. at_token (Word KRoot) s \<or> at_token (Word KSuper) s) (\<lambda>anchored.
       pbind (dotted_path (lit ''a pattern name'') (lit ''a name after `.`'')) (\<lambda>path.
         pif (looks_like_constructor upper anchored path)
           (pmap (PatConstructor path) (pattern_payload g))
           (preturn (PatBinding (List.last path)))))"

definition negative_pattern :: "pattern parse" where
  "negative_pattern =
     pwith current (\<lambda>t.
       case integer_of (kind t) of
         None \<Rightarrow> fail_at t (lit ''expected integer literal after `-`'')
       | Some v \<Rightarrow> pseq advance (preturn (literal_pattern v True)))"

definition pattern_parser :: "(code_point \<Rightarrow> bool) \<Rightarrow> grammar \<Rightarrow> pattern parse" where
  "pattern_parser upper g =
     pwith current (\<lambda>t.
       case kind t of
         Integer v \<Rightarrow> pseq advance (preturn (literal_pattern v False))
       | Arith Minus \<Rightarrow> pseq advance negative_pattern
       | Word KTrue \<Rightarrow> pseq advance (preturn (PatBool True))
       | Word KFalse \<Rightarrow> pseq advance (preturn (PatBool False))
       | Ident name \<Rightarrow>
           if name = lit ''_'' then pseq advance (preturn PatWildcard) else named_pattern upper g
       | Delim LParen \<Rightarrow> tuple_or_grouped_pattern g
       | Word KRoot \<Rightarrow> named_pattern upper g
       | Word KSuper \<Rightarrow> named_pattern upper g
       | _ \<Rightarrow> fail_at t (expected_found (lit ''a pattern'') (kind t)))"

subsection \<open>Places and calls\<close>

fun is_assignable_place :: "expr \<Rightarrow> bool" where
  "is_assignable_place (NameExpr _) = True"
| "is_assignable_place (Member base _) = is_assignable_place base"
| "is_assignable_place (IndexExpr base _) = is_assignable_place base"
| "is_assignable_place (UnaryExpr operator _) = (operator = DerefOp)"
| "is_assignable_place _ = False"

definition call_one :: "expr \<Rightarrow> expr \<Rightarrow> expr" where
  "call_one f x = CallExpr f [CallArg None x]"

definition call_labeled :: "expr \<Rightarrow> chars \<Rightarrow> expr \<Rightarrow> expr" where
  "call_labeled f label x = CallExpr f [CallArg (Some label) x]"

subsection \<open>Operators\<close>

text \<open>The first of the tokens that is there.\<close>

definition operator_at :: "(token_kind \<times> 'a) list \<Rightarrow> parser \<Rightarrow> 'a option" where
  "operator_at table s = map_option snd (find (\<lambda>(k, _). at_token k s) table)"

text \<open>Operands with operators between them, from the left.\<close>

definition binary_chain :: "(token_kind \<times> binary_op) list \<Rightarrow> expr parse \<Rightarrow> expr parse" where
  "binary_chain table operand =
     pbind operand
       (ploop (\<lambda>l.
         pwith (operator_at table) (\<lambda>operator.
           case operator of
             None \<Rightarrow> pbreak l
           | Some operator \<Rightarrow> pseq advance (pbind operand (\<lambda>r. pcontinue (BinaryExpr l operator r))))))"

text \<open>At most one operator, which none of them may follow.\<close>

definition binary_pair :: "(token_kind \<times> binary_op) list \<Rightarrow> chars \<Rightarrow> expr parse \<Rightarrow> expr parse" where
  "binary_pair table chained operand =
     pbind operand (\<lambda>l.
       pwith (operator_at table) (\<lambda>operator.
         case operator of
           None \<Rightarrow> preturn l
         | Some operator \<Rightarrow>
             pseq advance
               (pbind operand (\<lambda>r.
                 pif (\<lambda>s. operator_at table s \<noteq> None) (fail_here chained) (preturn (BinaryExpr l operator r))))))"

definition multiplicative :: "expr parse \<Rightarrow> expr parse" where
  "multiplicative unary = binary_chain [(Arith Star, Mul), (Arith Slash, Div), (Arith Percent, Rem)] unary"

definition additive :: "expr parse \<Rightarrow> expr parse" where
  "additive unary = binary_chain [(Arith Plus, Add), (Arith Minus, Sub)] (multiplicative unary)"

definition shift_parser :: "expr parse \<Rightarrow> expr parse" where
  "shift_parser unary = binary_chain [(BitOp Shl, ShiftL), (BitOp Shr, ShiftR)] (additive unary)"

definition relation :: "expr parse \<Rightarrow> expr parse" where
  "relation unary =
     binary_pair [(BitOp Less, CmpLt), (BitOp LessEqual, CmpLe), (BitOp Greater, CmpGt), (BitOp GreaterEqual, CmpGe)]
       (lit ''comparison operators cannot be chained'') (shift_parser unary)"

definition equality :: "expr parse \<Rightarrow> expr parse" where
  "equality unary =
     binary_pair [(Arith EqualEqual, CmpEq), (Arith BangEqual, CmpNe)]
       (lit ''equality operators cannot be chained'') (relation unary)"

definition bitwise_and :: "expr parse \<Rightarrow> expr parse" where
  "bitwise_and unary = binary_chain [(BitOp Amp, BitAnd)] (equality unary)"

definition bitwise_xor :: "expr parse \<Rightarrow> expr parse" where
  "bitwise_xor unary = binary_chain [(BitOp Caret, BitXor)] (bitwise_and unary)"

definition bitwise_or :: "expr parse \<Rightarrow> expr parse" where
  "bitwise_or unary = binary_chain [(BitOp Pipe, BitOr)] (bitwise_xor unary)"

definition logical_and :: "expr parse \<Rightarrow> expr parse" where
  "logical_and unary = binary_chain [(BitOp AndAnd, LogAnd)] (bitwise_or unary)"

definition logical_or :: "expr parse \<Rightarrow> expr parse" where
  "logical_or unary = binary_chain [(BitOp OrOr, LogOr)] (logical_and unary)"

definition coalesce :: "grammar \<Rightarrow> bool \<Rightarrow> expr parse \<Rightarrow> expr parse" where
  "coalesce g allow unary =
     pbind (logical_or unary) (\<lambda>l.
       if_take (BitOp QuestionQuestion) (pmap (Coalesce l) (g_coalesce g allow)) (preturn l))"

subsection \<open>Assignment\<close>

definition compound_operators :: "(token_kind \<times> binary_op) list" where
  "compound_operators =
     [(Arith PlusEqual, Add), (Arith MinusEqual, Sub), (Arith StarEqual, Mul), (Arith SlashEqual, Div),
      (Arith PercentEqual, Rem), (BitOp AmpEqual, BitAnd), (BitOp PipeEqual, BitOr), (BitOp CaretEqual, BitXor),
      (BitOp ShlEqual, ShiftL), (BitOp ShrEqual, ShiftR)]"

definition compound_operator :: "binary_op option parse" where
  "compound_operator =
     pwith (operator_at compound_operators) (\<lambda>operator.
       if operator = None then preturn None else pseq advance (preturn operator))"

definition assigned :: "grammar \<Rightarrow> bool \<Rightarrow> expr \<Rightarrow> binary_op option \<Rightarrow> expr parse" where
  "assigned g allow l operator =
     pwith previous (\<lambda>equals.
       pbind (g_expression g allow) (\<lambda>r.
         if is_assignable_place l
         then preturn (case operator of Some operator \<Rightarrow> CompoundAssign l operator r | None \<Rightarrow> Assign l r)
         else fail_at equals (lit ''left side of assignment must be a name or member chain'')))"

text \<open>An \<open>=\<close> behind a compound operator is taken too.\<close>

definition assignment :: "grammar \<Rightarrow> bool \<Rightarrow> expr parse \<Rightarrow> expr parse" where
  "assignment g allow operand =
     pbind operand (\<lambda>l.
       pbind compound_operator (\<lambda>operator.
         if_take (Arith Equal)
           (assigned g allow l operator)
           (if operator \<noteq> None then assigned g allow l operator else preturn l)))"

end
