(* ===== verification/Parser_Expr.thy ===== *)
theory Parser_Expr
  imports Parser_Pattern
begin

text \<open>
  Expressions: blocks, closures, control flow, primary and postfix expressions
  (\<open>compiler/src/parser.rs\<close>).  The layout that the formatter uses is recorded as the code does it, and is
  kept when the parser goes back.
\<close>

subsection \<open>Records of the layout\<close>

definition braced_region :: "token \<Rightarrow> token \<Rightarrow> nat \<Rightarrow> source_braced_region" where
  "braced_region opening closing body =
     \<lparr>open_byte = start_byte opening, close_byte = start_byte closing, body_start = body,
      open_line = start_line opening, close_line = start_line closing\<rparr>"

definition push_match_arm :: "source_braced_region \<Rightarrow> unit parse" where
  "push_match_arm r = pupdate (\<lambda>s. s\<lparr>layout := (layout s)\<lparr>match_arms := match_arms (layout s) @ [r]\<rparr>\<rparr>)"

definition push_block :: "source_braced_region \<Rightarrow> unit parse" where
  "push_block r = pupdate (\<lambda>s. s\<lparr>layout := (layout s)\<lparr>blocks := blocks (layout s) @ [r]\<rparr>\<rparr>)"

definition push_closure :: "source_braced_region \<Rightarrow> unit parse" where
  "push_closure r = pupdate (\<lambda>s. s\<lparr>layout := (layout s)\<lparr>closures := closures (layout s) @ [r]\<rparr>\<rparr>)"

definition push_trailing_closure :: "source_trailing_closure \<Rightarrow> unit parse" where
  "push_trailing_closure r =
     pupdate (\<lambda>s. s\<lparr>layout := (layout s)\<lparr>trailing_closures := trailing_closures (layout s) @ [r]\<rparr>\<rparr>)"

definition body_start_byte :: "nat \<Rightarrow> parser \<Rightarrow> nat" where
  "body_start_byte i s =
     (case dropWhile (\<lambda>t. kind t = Newline \<or> kind t = Delim Semicolon) (List.drop i (tokens s)) of
        [] \<Rightarrow> end_byte (current s)
      | t # _ \<Rightarrow> start_byte t)"

subsection \<open>Names of the core functions\<close>

definition core_control_function :: "chars \<Rightarrow> expr" where
  "core_control_function name =
     Member (Member (NameExpr (lit ''core'')) (if name = lit ''throw'' then lit ''error'' else lit ''control'')) name"

definition core_match_function :: expr where
  "core_match_function = NameExpr (lit ''$lang$match'')"

definition core_if_function :: expr where
  "core_if_function = NameExpr (lit ''$lang$if'')"

definition match_call :: "expr \<Rightarrow> expr list \<Rightarrow> expr" where
  "match_call scrutinee cases = foldl call_one (call_one core_match_function scrutinee) cases"

definition located_expression :: "token \<Rightarrow> token \<Rightarrow> expr \<Rightarrow> expr" where
  "located_expression start final e =
     Located (start_line start) (start_column start) (end_line final) (end_column final) e"

subsection \<open>Blocks\<close>

definition local_binding :: "grammar \<Rightarrow> binding parse" where
  "local_binding g =
     pseq (expect (Word KLet) (lit ''`let`''))
       (pbind (take_token (Contextual CMut)) (\<lambda>mutable.
         pbind (expect_ident (lit ''a binding name'')) (\<lambda>name.
           pif (at_token (Delim LParen))
             (fail_here (lit ''local named functions are not part of the M0 grammar; bind a closure instead''))
             (pbind (if_take (Delim Colon) (pmap Some (g_type g)) (preturn None)) (\<lambda>annotation.
               pseq (expect (Arith Equal) (lit ''`=`''))
                 (pwith current (\<lambda>start.
                   pbind (g_expression g True) (\<lambda>v.
                     pwith previous (\<lambda>final.
                       preturn (Binding mutable name annotation v
                         (Some \<lparr>span_line = start_line start, span_column = start_column start,
                            span_end_line = end_line final, span_end_column = end_column final\<rparr>)))))))))))"

text \<open>The separators behind an expression, and whether there is a semicolon among them.\<close>

definition statement_separators :: "bool parse" where
  "statement_separators =
     ploop
       (\<lambda>semicolon.
         if_take (Delim Semicolon)
           (if_take Newline (pcontinue True) (pcontinue True))
           (if_take Newline (pcontinue semicolon) (pbreak semicolon)))
       False"

definition let_statement :: "grammar \<Rightarrow> stmt list \<Rightarrow> (stmt list + expr) parse" where
  "let_statement g statements =
     pbind (local_binding g) (\<lambda>b.
       pif at_separator
         (pseq skip_separators (pcontinue (statements @ [LetStmt b])))
         (fail_here (lit ''expected a newline or `;` after local binding'')))"

definition expression_statement :: "grammar \<Rightarrow> stmt list \<Rightarrow> (stmt list + expr) parse" where
  "expression_statement g statements =
     pwith current (\<lambda>start.
       pbind (g_expression g True) (\<lambda>e.
         pwith previous (\<lambda>final.
           let e = located_expression start final e in
           if_take (Delim RBrace)
             (pbreak (Block statements (Some e)))
             (pif at_separator
               (pbind statement_separators (\<lambda>semicolon.
                 if_take (Delim RBrace)
                   (pbreak (if semicolon then Block (statements @ [ExprStmt e]) None else Block statements (Some e)))
                   (pcontinue (statements @ [ExprStmt e]))))
               (fail_here (lit ''expected a newline, `;`, or `}` after expression''))))))"

definition block_contents :: "grammar \<Rightarrow> expr parse" where
  "block_contents g =
     pseq skip_separators
       (ploop
         (\<lambda>statements.
           if_take (Delim RBrace)
             (pbreak (Block statements None))
             (pif (at_token Eof)
               (fail_here (lit ''expected `}` before end of file''))
               (pif (at_token (Word KLet)) (let_statement g statements) (expression_statement g statements))))
         [])"

definition block :: "grammar \<Rightarrow> expr parse" where
  "block g =
     pwith current (\<lambda>opening.
       pwith (\<lambda>s. body_start_byte (position s + 1) s) (\<lambda>body.
         pseq (expect (Delim LBrace) (lit ''`{`''))
           (pbind (block_contents g) (\<lambda>e.
             pwith previous (\<lambda>closing. pseq (push_block (braced_region opening closing body)) (preturn e))))))"

subsection \<open>Closures\<close>

text \<open>The kinds behind a balanced group; nothing when the group does not end.\<close>

fun balanced_rest :: "nat \<Rightarrow> token_kind list \<Rightarrow> token_kind list option" where
  "balanced_rest depth [] = None"
| "balanced_rest depth (k # ks) =
     (if k = Delim LParen then balanced_rest (Suc depth) ks
      else if k = Delim RParen then if depth = 1 then Some ks else balanced_rest (depth - 1) ks
      else if k = Eof then None
      else balanced_rest depth ks)"

lemma balanced_rest_shorter: "balanced_rest depth ks = Some rest \<Longrightarrow> length rest < length ks"
  by (induction depth ks rule: balanced_rest.induct) (auto split: if_splits)

function groups_rest :: "token_kind list \<Rightarrow> token_kind list option" where
  "groups_rest ks =
     (if nth_opt ks 0 = Some (Delim LParen)
      then
        (case balanced_rest 0 ks of
           None \<Rightarrow> None
         | Some rest \<Rightarrow> groups_rest (dropWhile (\<lambda>k. k = Newline) rest))
      else Some ks)"
  by pat_completeness auto
termination
  by (relation "measure length") (auto dest!: balanced_rest_shorter intro: le_less_trans [OF length_dropWhile_le])

declare groups_rest.simps [simp del]

definition closure_parameter_arrow_follows :: "parser \<Rightarrow> bool" where
  "closure_parameter_arrow_follows s \<longleftrightarrow>
     nth_opt (kinds_from (position s) s) 0 = Some (Delim LParen) \<and>
     (case groups_rest (kinds_from (position s) s) of
        Some ks \<Rightarrow> nth_opt ks 0 = Some (Arith Arrow)
      | None \<Rightarrow> False)"

text \<open>
  \<open>if let Ok(x) = p\<close>.  The only such \<open>p\<close> is the parser of patterns, which changes nothing of the state but the
  position, and the code goes back to where it started.
\<close>

definition ptry :: "'a parse \<Rightarrow> 'a option parse" where
  "ptry p s =
     (case p s of
        Inl (Failed _) \<Rightarrow> Inr (None, s)
      | Inl e \<Rightarrow> Inl e
      | Inr (x, s) \<Rightarrow> Inr (Some x, s))"

definition pattern_guard :: "grammar \<Rightarrow> bool \<Rightarrow> expr option parse" where
  "pattern_guard g allow = if_take (Contextual CIf) (pmap Some (g_expression g allow)) (preturn None)"

text \<open>A closure that starts with a pattern and an arrow; otherwise back to the start.\<close>

definition pattern_closure :: "grammar \<Rightarrow> expr option parse" where
  "pattern_closure g =
     pwith position (\<lambda>start.
       pbind (ptry (g_pattern g)) (\<lambda>r.
         case r of
           None \<Rightarrow> pseq (rewind start) (preturn None)
         | Some p \<Rightarrow>
             pbind (pattern_guard g False) (\<lambda>guard.
               if_take (Arith Arrow)
                 (pmap (\<lambda>e. Some (PatternClosure p guard e)) (block_contents g))
                 (pseq (rewind start) (preturn None)))))"

definition closure_groups :: "grammar \<Rightarrow> param list list parse" where
  "closure_groups g =
     pif closure_parameter_arrow_follows
       (pbind
         (pwhile (at_token (Delim LParen)) (\<lambda>groups. pmap (\<lambda>group. groups @ [group]) (parameter_group g)) [])
         (\<lambda>groups. pseq (expect (Arith Arrow) (lit ''`->` after closure parameters'')) (preturn groups)))
       (preturn [[]])"

definition parameter_closure :: "grammar \<Rightarrow> expr parse" where
  "parameter_closure g =
     pbind (closure_groups g) (\<lambda>groups. pmap (\<lambda>e. foldr Closure groups e) (block_contents g))"

definition closure_inner_untracked :: "grammar \<Rightarrow> expr parse" where
  "closure_inner_untracked g =
     pseq (expect (Delim LBrace) (lit ''`{`''))
       (pseq skip_separators
         (if_take (Delim RBrace)
           (preturn (Closure [] (Block [] None)))
           (pif (at_token (Arith Arrow))
             (fail_here (lit ''zero-parameter closures do not use `->`; write `{ expression }`''))
             (pif (at_token (Delim LParen))
               (parameter_closure g)
               (pbind (pattern_closure g) (\<lambda>r.
                 case r of Some e \<Rightarrow> preturn e | None \<Rightarrow> parameter_closure g))))))"

definition closure_inner :: "grammar \<Rightarrow> expr parse" where
  "closure_inner g =
     pwith current (\<lambda>opening.
       pwith (\<lambda>s. body_start_byte (position s + 1) s) (\<lambda>body.
         pbind (closure_inner_untracked g) (\<lambda>e.
           pwith previous (\<lambda>closing. pseq (push_closure (braced_region opening closing body)) (preturn e)))))"

definition closure_expression :: "grammar \<Rightarrow> expr parse" where
  "closure_expression g =
     pwith async_depth (\<lambda>depth.
       pseq (pupdate (\<lambda>s. s\<lparr>async_depth := 0\<rparr>))
         (pbind (closure_inner g) (\<lambda>e. pseq (pupdate (\<lambda>s. s\<lparr>async_depth := depth\<rparr>)) (preturn e))))"

definition trailing_closure :: "grammar \<Rightarrow> nat \<Rightarrow> expr parse" where
  "trailing_closure g start =
     pbind (closure_expression g) (\<lambda>e.
       pwith previous (\<lambda>closing.
         pseq (push_trailing_closure \<lparr>trailing_start_byte = start, trailing_close_byte = start_byte closing\<rparr>)
           (preturn e)))"

text \<open>The code panics for every expression but a closure without a pattern.\<close>

definition zero_parameter_trailing_closure :: "grammar \<Rightarrow> chars \<Rightarrow> expr parse" where
  "zero_parameter_trailing_closure g what =
     pbind (closure_inner g) (\<lambda>e.
       case e of
         Closure parameters body \<Rightarrow>
           if parameters \<noteq> [] then fail_here (what @ lit '' must be a zero-parameter closure'') else preturn body
       | _ \<Rightarrow> pstop Unreachable)"

definition async_expression :: "grammar \<Rightarrow> expr parse" where
  "async_expression g =
     pseq (pupdate (\<lambda>s. s\<lparr>async_depth := async_depth s + 1\<rparr>))
       (pbind (block g) (\<lambda>e.
         pseq (pupdate (\<lambda>s. s\<lparr>async_depth := async_depth s - 1\<rparr>)) (preturn (AsyncExpr e))))"

subsection \<open>What may follow\<close>

definition trailing_label :: "token_kind \<Rightarrow> chars option" where
  "trailing_label k =
     (case k of
        Ident label \<Rightarrow> Some label
      | Contextual CDo \<Rightarrow> Some (lit ''do'')
      | Contextual CElse \<Rightarrow> Some (lit ''else'')
      | Contextual CWhile \<Rightarrow> Some (lit ''while'')
      | _ \<Rightarrow> None)"

definition trailing_label_follows :: "parser \<Rightarrow> bool" where
  "trailing_label_follows s \<longleftrightarrow>
     (case trailing_label (current_kind s) of Some label \<Rightarrow> label \<noteq> lit ''match'' | None \<Rightarrow> False)"

definition token_can_start_bare_call_argument :: "token_kind \<Rightarrow> bool" where
  "token_can_start_bare_call_argument k =
     (case k of
        Ident name \<Rightarrow> name \<noteq> lit ''match''
      | Integer _ \<Rightarrow> True
      | _ \<Rightarrow>
          k \<in> {Word KTrue, Word KFalse, Contextual CCopy, Contextual CMove, Word KRoot, Word KSuper, Delim LParen,
            Delim LBracket})"

definition token_can_start_expression :: "token_kind \<Rightarrow> bool" where
  "token_can_start_expression k =
     (case k of
        Ident _ \<Rightarrow> True
      | Integer _ \<Rightarrow> True
      | _ \<Rightarrow>
          k \<in> {Word KTrue, Word KFalse, Word KRoot, Word KSuper, Delim LParen, Delim LBracket, Delim LBrace,
            Arith Minus, Arith Bang, Contextual CBorrow, Contextual CIf, Contextual CLoop, Contextual CWhile,
            Contextual CFor})"

definition named_trailing_closure_follows :: "parser \<Rightarrow> bool" where
  "named_trailing_closure_follows s \<longleftrightarrow>
     trailing_label_follows s \<and> at_offset 1 (Delim Colon) s \<and> at_offset 2 (Delim LBrace) s"

definition colonless_named_trailing_closure_follows :: "parser \<Rightarrow> bool" where
  "colonless_named_trailing_closure_follows s \<longleftrightarrow> trailing_label_follows s \<and> is_at 1 [Delim LBrace] s"

definition some_named_trailing_closure_follows :: "parser \<Rightarrow> bool" where
  "some_named_trailing_closure_follows s \<longleftrightarrow>
     named_trailing_closure_follows s \<or> colonless_named_trailing_closure_follows s"

definition named_nested_trailing_call_follows :: "parser \<Rightarrow> bool" where
  "named_nested_trailing_call_follows s \<longleftrightarrow>
     trailing_label_follows s \<and>
     (case kind_of s (position s + 1) of Some k \<Rightarrow> token_can_start_expression k | None \<Rightarrow> False)"

definition take_trailing_label :: "chars parse" where
  "take_trailing_label =
     pwith current_kind (\<lambda>k.
       case trailing_label k of
         None \<Rightarrow> fail_here (lit ''expected a trailing argument label'')
       | Some label \<Rightarrow> pseq advance (preturn label))"

definition optional_colon :: "unit parse" where
  "optional_colon = if_take (Delim Colon) no_skip no_skip"

fun struct_literal_root :: "expr \<Rightarrow> chars" where
  "struct_literal_root (NameExpr name) = name"
| "struct_literal_root (CallExpr callee _) = struct_literal_root callee"
| "struct_literal_root (Member _ member) = member"
| "struct_literal_root _ = []"

definition struct_literal_follows :: "expr \<Rightarrow> parser \<Rightarrow> bool" where
  "struct_literal_follows e s \<longleftrightarrow>
     at_token (Delim LBrace) s \<and> struct_literal_root e \<noteq> [] \<and> ident_at 1 s \<noteq> None \<and> is_at 2 [Delim Colon] s"

definition struct_literal_fields :: "grammar \<Rightarrow> call_arg list parse" where
  "struct_literal_fields g =
     pseq (expect (Delim LBrace) (lit ''`{` before struct fields''))
       (if_take (Delim RBrace)
         (preturn [])
         (comma_list
           (pbind (expect_ident (lit ''a struct literal field name'')) (\<lambda>label.
             pseq (expect (Delim Colon) (lit ''`:` after struct literal field name''))
               (pmap (CallArg (Some label)) (g_expression g True))))
           no_skip (Delim RBrace) (lit ''`}` after struct literal fields'')))"

end
