(* ===== verification/Parser_Primary.thy ===== *)
theory Parser_Primary
  imports Parser_Expr
begin

text \<open>
  Control flow, matches, primary, postfix and unary expressions (\<open>compiler/src/parser.rs\<close>).
\<close>

subsection \<open>Matches\<close>

definition postfix_match_arm :: "grammar \<Rightarrow> expr parse" where
  "postfix_match_arm g =
     pbind (g_pattern g) (\<lambda>p.
       pbind (pattern_guard g True) (\<lambda>guard.
         pseq (expect (Arith FatArrow) (lit ''`=>` after match pattern''))
           (pmap (PatternClosure p guard) (g_expression g True))))"

definition postfix_match_arms :: "grammar \<Rightarrow> expr list parse" where
  "postfix_match_arms g =
     ploop
       (\<lambda>cases.
         if_take (Delim RBrace)
           (pbreak cases)
           (pif (at_token Eof)
             (fail_here (lit ''expected `}` before end of match expression''))
             (pbind (postfix_match_arm g) (\<lambda>arm.
               if_take (Delim Comma)
                 (pseq skip_separators (pcontinue (cases @ [arm])))
                 (pseq skip_separators
                   (pif (at_token (Delim RBrace))
                     (pcontinue (cases @ [arm]))
                     (fail_here (lit ''expected `,` between match arms''))))))))
       []"

definition match_expression :: "grammar \<Rightarrow> expr parse \<Rightarrow> expr parse" where
  "match_expression g operand =
     pbind operand (\<lambda>scrutinee.
       if_take (Contextual CMatch)
         (pseq (expect (Delim LBrace) (lit ''`{` after `match`''))
           (pseq skip_separators (pmap (match_call scrutinee) (postfix_match_arms g))))
         (preturn scrutinee))"

definition match_case :: "grammar \<Rightarrow> expr parse" where
  "match_case g =
     pwith current (\<lambda>opening.
       pseq (expect (Delim LBrace) (lit ''`{` before a match case''))
         (pseq skip_separators
           (pbind (g_pattern g) (\<lambda>p.
             pbind (pattern_guard g False) (\<lambda>guard.
               pseq (expect (Arith Arrow) (lit ''`->` after match case pattern''))
                 (pwith (\<lambda>s. start_byte (current s)) (\<lambda>body.
                   pbind (block_contents g) (\<lambda>e.
                     pwith previous (\<lambda>closing.
                       pseq (push_match_arm (braced_region opening closing body))
                         (pseq (take_newlines_if_followed_by [Delim LBrace])
                           (preturn (PatternClosure p guard e))))))))))))"

definition prefix_match_expression :: "grammar \<Rightarrow> expr parse" where
  "prefix_match_expression g =
     pseq (expect (Contextual CMatch) (lit ''`match`''))
       (pbind (g_expression g False) (\<lambda>scrutinee.
         pseq (take_newlines_if_followed_by [Delim LBrace])
           (pif (at_token (Delim LBrace))
             (pmap (match_call scrutinee)
               (pwhile (at_token (Delim LBrace)) (\<lambda>cases. pmap (\<lambda>arm. cases @ [arm]) (match_case g)) []))
             (fail_here (lit ''`match` requires at least one trailing pattern case'')))))"

subsection \<open>Conditions\<close>

definition optional_else_branch :: "grammar \<Rightarrow> expr option parse" where
  "optional_else_branch g =
     pwith position (\<lambda>before.
       pseq skip_newlines
         (pif (at_token (Delim LBrace))
           (pmap Some (block g))
           (pif (\<lambda>s. trailing_label (current_kind s) = Some (lit ''else''))
             (pseq advance
               (pseq optional_colon
                 (pif (at_token (Delim LBrace))
                   (pmap Some (block g))
                   (pif (\<lambda>s. token_can_start_expression (current_kind s))
                     (pmap Some (g_expression g True))
                     (fail_here (lit ''expected a closure or nested trailing call after `else`''))))))
             (pseq (rewind before) (preturn None)))))"

text \<open>A label of a trailing closure, which is the named one when it is there.\<close>

definition closure_label :: "chars \<Rightarrow> chars \<Rightarrow> unit parse" where
  "closure_label expected m =
     pif some_named_trailing_closure_follows
       (pbind take_trailing_label (\<lambda>label. if label \<noteq> expected then fail_here m else optional_colon))
       no_skip"

definition if_call :: "expr \<Rightarrow> expr \<Rightarrow> expr \<Rightarrow> expr" where
  "if_call c t e = call_one (call_one (call_one core_if_function c) (Closure [] t)) (Closure [] e)"

definition if_expression :: "grammar \<Rightarrow> expr parse" where
  "if_expression g =
     pseq (expect (Contextual CIf) (lit ''`if`''))
       (pbind (g_expression g False) (\<lambda>c.
         pseq (closure_label (lit ''then'') (lit ''the first named `if` trailing closure must be `then`''))
           (pif (at_token (Delim LBrace))
             (pbind (block g) (\<lambda>t.
               pmap (\<lambda>e. if_call c t (case e of Some e \<Rightarrow> e | None \<Rightarrow> UnitExpr)) (optional_else_branch g)))
             (fail_here (lit ''expected `{` after `if` condition'')))))"

subsection \<open>Loops\<close>

definition while_closures_follow :: "parser \<Rightarrow> bool" where
  "while_closures_follow s \<longleftrightarrow>
     at_token (Delim LBrace) s \<or>
     current_kind s = Ident (lit ''condition'') \<and> some_named_trailing_closure_follows s"

definition while_expression :: "grammar \<Rightarrow> expr parse" where
  "while_expression g =
     pseq (expect (Contextual CWhile) (lit ''`while`''))
       (pseq skip_newlines
         (pif while_closures_follow
           (pseq (closure_label (lit ''condition'') (lit ''the first named `while` trailing closure must be `condition`''))
             (pbind (zero_parameter_trailing_closure g (lit ''while condition'')) (\<lambda>c.
               pseq skip_newlines
                 (pseq (closure_label (lit ''do'') (lit ''the second named `while` trailing closure must be `do`''))
                   (pif (at_token (Delim LBrace))
                     (pmap (\<lambda>body. WhileExpr c body False) (zero_parameter_trailing_closure g (lit ''while body'')))
                     (fail_here (lit ''expected a second trailing closure for `while`'')))))))
           (fail_here
             (lit ''`while` requires condition and `do` closures; write `while { condition } do { body }`''))))"

definition do_expression :: "grammar \<Rightarrow> expr parse" where
  "do_expression g =
     pbind (block g) (\<lambda>body.
       pwith position (\<lambda>before.
         pseq skip_newlines
           (pif (\<lambda>s. trailing_label (current_kind s) = Some (lit ''while'') \<and> some_named_trailing_closure_follows s)
             (pseq advance
               (pseq optional_colon
                 (pmap (\<lambda>c. WhileExpr c body True) (zero_parameter_trailing_closure g (lit ''do-while condition'')))))
             (pseq (rewind before) (preturn (DoBlock body))))))"

definition fresh_control_binding :: "nat parse" where
  "fresh_control_binding =
     pwith next_control_binding (\<lambda>n.
       pseq (pupdate (\<lambda>s. s\<lparr>next_control_binding := next_control_binding s + 1\<rparr>)) (preturn n))"

definition iterator_name :: "nat \<Rightarrow> chars" where
  "iterator_name n = lit ''$for$iterator$'' @ decimal (int n)"

definition loop_result_name :: "nat \<Rightarrow> chars" where
  "loop_result_name n = lit ''$for$result$'' @ decimal (int n)"

definition for_loop :: "nat \<Rightarrow> expr \<Rightarrow> pattern \<Rightarrow> expr \<Rightarrow> expr" where
  "for_loop n iterable p body =
     Block
       [LetStmt (Binding True (iterator_name n) None (CallExpr (Member iterable (lit ''$lang$into_iter'')) []) None),
        LetStmt (Binding False (loop_result_name n) (Some SrcUnit)
          (LoopExpr
            (MatchExpr (CallExpr (Member (NameExpr (iterator_name n)) (lit ''$lang$next'')) [])
              [MatchArm (PatConstructor [lit ''some''] (PatPositional [p])) None body,
               MatchArm (PatConstructor [lit ''none''] PatUnitFields) None (BreakExpr None)])) None)]
       None"

definition for_expression :: "grammar \<Rightarrow> expr parse" where
  "for_expression g =
     pseq (expect (Contextual CFor) (lit ''`for`''))
       (pbind (g_expression g False) (\<lambda>iterable.
         pif (at_token (Delim LBrace))
           (pseq (expect (Delim LBrace) (lit ''`{` before the `for` body pattern''))
             (pseq skip_separators
               (pbind (g_pattern g) (\<lambda>p.
                 pseq (expect (Arith Arrow) (lit ''`->` after the `for` body pattern''))
                   (pbind (block_contents g) (\<lambda>body.
                     pmap (\<lambda>n. for_loop n iterable p body) fresh_control_binding))))))
           (fail_here
             (lit ''`for` requires a trailing pattern closure; write `for iterable { pattern -> body }`''))))"

definition loop_expression :: "grammar \<Rightarrow> expr parse" where
  "loop_expression g =
     pseq (expect (Contextual CLoop) (lit ''`loop`''))
       (pif (at_token (Delim LBrace)) (pmap LoopExpr (block g)) (fail_here (lit ''expected `{` after `loop`'')))"

subsection \<open>Jumps\<close>

text \<open>The value behind \<open>return\<close> and \<open>break\<close>.\<close>

definition jump_value :: "grammar \<Rightarrow> bool \<Rightarrow> string \<Rightarrow> expr option parse" where
  "jump_value g allow word =
     if_take (Delim LParen)
       (if_take (Delim RParen)
         (preturn None)
         (pbind (g_expression g allow) (\<lambda>e.
           pseq (expect (Delim RParen) (lit ''`)` after `'' @ lit word @ lit ''` argument'')) (preturn (Some e)))))
       (pif at_control_expression_boundary
         (fail_here
           (lit ''`'' @ lit word @ lit ''` requires one value or an explicit empty group `'' @ lit word @ lit ''()`''))
         (pmap Some (g_expression g allow)))"

definition return_expression :: "grammar \<Rightarrow> bool \<Rightarrow> expr parse" where
  "return_expression g allow =
     pseq (expect (Contextual CReturn) (lit ''`return`'')) (pmap ReturnExpr (jump_value g allow ''return''))"

definition break_expression :: "grammar \<Rightarrow> bool \<Rightarrow> expr parse" where
  "break_expression g allow =
     pseq (expect (Contextual CBreak) (lit ''`break`'')) (pmap BreakExpr (jump_value g allow ''break''))"

definition continue_expression :: "expr parse" where
  "continue_expression =
     pseq (expect (Contextual CContinue) (lit ''`continue`''))
       (pseq (expect (Delim LParen) (lit ''`(` after `continue`''))
         (pseq (expect (Delim RParen) (lit ''`)` after `continue`'')) (preturn ContinueExpr)))"

subsection \<open>Primary expressions\<close>

definition array_literal :: "grammar \<Rightarrow> expr parse" where
  "array_literal g =
     pseq (expect (Delim LBracket) (lit ''`[`''))
       (if_take (Delim RBracket)
         (preturn (ArrayExpr []))
         (pmap ArrayExpr
           (comma_list (g_expression g True) no_skip (Delim RBracket) (lit ''`]` after array elements''))))"

definition try_expression :: "grammar \<Rightarrow> token \<Rightarrow> expr parse" where
  "try_expression g t =
     pseq advance
       (pif (at_token (Delim LBrace)) (pmap TryExpr (block g)) (fail_at t (lit ''expected a block after `try`'')))"

definition unsafe_expression :: "grammar \<Rightarrow> expr parse" where
  "unsafe_expression g =
     pseq advance
       (pif (at_token (Delim LBrace))
         (pmap (\<lambda>e. UnsafeExpr (DoBlock e)) (block g))
         (pif (\<lambda>s. at_token (Delim Comma) s \<or> at_token (Delim RParen) s)
           (preturn (NameExpr (lit ''unsafe'')))
           (fail_here (lit ''expected a trailing closure after `unsafe`; write `unsafe { ... }`''))))"

definition parenthesized_expression :: "grammar \<Rightarrow> expr parse" where
  "parenthesized_expression g =
     pseq advance
       (if_take (Delim RParen)
         (preturn UnitExpr)
         (pbind (g_expression g True) (\<lambda>first.
           if_take (Delim Comma)
             (ploop
               (\<lambda>elements.
                 if_take (Delim RParen)
                   (pbreak (TupleExpr elements))
                   (pbind (g_expression g True) (\<lambda>e.
                     if_take (Delim Comma)
                       (pcontinue (elements @ [e]))
                       (pseq (expect (Delim RParen) (lit ''`)` after tuple literal''))
                         (pbreak (TupleExpr (elements @ [e])))))))
               [first])
             (pseq (expect (Delim RParen) (lit ''`)` after parenthesized expression'')) (preturn first)))))"

definition throw_function :: "expr parse" where
  "throw_function = pseq advance (preturn (core_control_function (lit ''throw'')))"

text \<open>
  The words that start a control expression.  Whether \<open>throw\<close> is a function here depends on the next token,
  which the code takes without a check.
\<close>

definition throw_follows :: "parser \<Rightarrow> bool" where
  "throw_follows s \<longleftrightarrow>
     at_offset 1 (Delim LParen) s \<or>
     (case kind_of s (position s + 1) of Some k \<Rightarrow> token_can_start_bare_call_argument k | None \<Rightarrow> False)"

definition no_token_follows :: "parser \<Rightarrow> bool" where
  "no_token_follows s \<longleftrightarrow> kind_of s (position s + 1) = None"

definition name_expression :: "token \<Rightarrow> chars \<Rightarrow> expr parse" where
  "name_expression t name =
     (if name = lit ''_''
      then fail_at t (lit ''`_` is not an expression; omit an inferred compile-time argument group or use a named argument'')
      else pseq advance (preturn (NameExpr name)))"

definition word_expression :: "grammar \<Rightarrow> bool \<Rightarrow> token \<Rightarrow> chars \<Rightarrow> expr parse" where
  "word_expression g allow t name =
     (let braced = at_offset 1 (Delim LBrace) in
      if name = lit ''do'' then pif braced (pseq advance (do_expression g)) (name_expression t name)
      else if name = lit ''async'' then pif braced (pseq advance (async_expression g)) (name_expression t name)
      else if name = lit ''try'' then pif braced (try_expression g t) (name_expression t name)
      else if name = lit ''unsafe'' then pif braced (unsafe_expression g) (name_expression t name)
      else if name = lit ''throw''
      then pif no_token_follows (pstop OutOfBounds) (pif throw_follows throw_function (name_expression t name))
      else if name = lit ''return'' then return_expression g allow
      else if name = lit ''if'' then if_expression g
      else if name = lit ''while''
      then pif (at_offset 1 (Delim LParen)) (pseq advance (preturn (NameExpr (lit ''while'')))) (while_expression g)
      else if name = lit ''for'' then for_expression g
      else if name = lit ''match'' then prefix_match_expression g
      else if name = lit ''loop'' then pif braced (loop_expression g) (name_expression t name)
      else if name = lit ''break'' then break_expression g allow
      else if name = lit ''continue'' then continue_expression
      else name_expression t name)"

definition contextual_expression :: "grammar \<Rightarrow> bool \<Rightarrow> token \<Rightarrow> contextual \<Rightarrow> expr parse" where
  "contextual_expression g allow t c =
     (case c of
        CCopy \<Rightarrow> pseq advance (preturn (NameExpr (lit ''copy'')))
      | CMove \<Rightarrow> pseq advance (preturn (NameExpr (lit ''move'')))
      | CDo \<Rightarrow> pseq advance (do_expression g)
      | CTry \<Rightarrow> try_expression g t
      | CUnsafe \<Rightarrow> unsafe_expression g
      | CIf \<Rightarrow> if_expression g
      | CMatch \<Rightarrow> prefix_match_expression g
      | CReturn \<Rightarrow> return_expression g allow
      | CThrow \<Rightarrow>
          pseq advance
            (pif (\<lambda>s. \<not> at_token (Delim LParen) s \<and> \<not> at_control_expression_boundary s)
              (fail_at t (lit ''`throw` is a function; write `throw(error)`''))
              (preturn (core_control_function (lit ''throw''))))
      | CWhile \<Rightarrow>
          pif (at_offset 1 (Delim LParen)) (pseq advance (preturn (NameExpr (lit ''while'')))) (while_expression g)
      | CFor \<Rightarrow> for_expression g
      | CLoop \<Rightarrow> loop_expression g
      | CBreak \<Rightarrow> break_expression g allow
      | CContinue \<Rightarrow> continue_expression
      | _ \<Rightarrow> fail_at t (expected_found (lit ''an expression'') (Contextual c)))"

definition primary :: "grammar \<Rightarrow> bool \<Rightarrow> expr parse" where
  "primary g allow =
     pwith current (\<lambda>t.
       case kind t of
         Integer v \<Rightarrow> pseq advance (preturn (IntegerExpr v))
       | Word KTrue \<Rightarrow> pseq advance (preturn (BoolExpr True))
       | Word KFalse \<Rightarrow> pseq advance (preturn (BoolExpr False))
       | StringLit v \<Rightarrow> pseq advance (preturn (StringExpr v))
       | Ident name \<Rightarrow> word_expression g allow t name
       | Contextual c \<Rightarrow> contextual_expression g allow t c
       | Word KRoot \<Rightarrow> pseq advance (preturn (NameExpr (lit ''root'')))
       | Word KSuper \<Rightarrow> pseq advance (preturn (NameExpr (lit ''super'')))
       | Delim LParen \<Rightarrow> parenthesized_expression g
       | Delim LBracket \<Rightarrow> array_literal g
       | Delim LBrace \<Rightarrow> closure_expression g
       | _ \<Rightarrow> fail_at t (expected_found (lit ''an expression'') (kind t)))"

end
