(* ===== verification/Parser_Postfix.thy ===== *)
theory Parser_Postfix
  imports Parser_Primary
begin

text \<open>
  Postfix and unary expressions, and expressions as a whole (\<open>compiler/src/parser.rs\<close>).
\<close>

subsection \<open>Calls and members\<close>

fun starts_implicit_handler_groups :: "expr \<Rightarrow> bool" where
  "starts_implicit_handler_groups (Member _ member) = (member = lit ''handle'')"
| "starts_implicit_handler_groups (CallExpr callee _) = starts_implicit_handler_groups callee"
| "starts_implicit_handler_groups _ = False"

fun is_super_path_expression :: "expr \<Rightarrow> bool" where
  "is_super_path_expression (NameExpr name) = (name = lit ''super'')"
| "is_super_path_expression (Member base member) = (member = lit ''super'' \<and> is_super_path_expression base)"
| "is_super_path_expression _ = False"

definition call_argument_label :: "chars option parse" where
  "call_argument_label =
     pif ident_followed_by_colon
       (pbind (expect_ident (lit ''an argument label'')) (\<lambda>label.
         pseq (expect (Delim Colon) (lit ''`:` after argument label'')) (preturn (Some label))))
       (preturn None)"

text \<open>The first argument decides whether the arguments are labelled.\<close>

definition call_argument :: "grammar \<Rightarrow> call_arg list \<times> bool option \<Rightarrow> (call_arg list \<times> bool option) parse" where
  "call_argument g acc =
     (case acc of
        (arguments, labeled) \<Rightarrow>
          pwith current (\<lambda>start.
            pbind call_argument_label (\<lambda>label.
              let is_labeled = label \<noteq> None in
              if labeled = Some (\<not> is_labeled)
              then fail_at start (lit ''labeled and positional arguments cannot be mixed'')
              else pmap (\<lambda>e. (arguments @ [CallArg label e], Some is_labeled)) (g_expression g True))))"

definition call_arguments :: "grammar \<Rightarrow> call_arg list parse" where
  "call_arguments g =
     if_take (Delim RParen)
       (preturn [])
       (pmap fst (comma_fold (call_argument g) no_skip (Delim RParen) (lit ''`)` after arguments'') ([], None)))"

definition member_name :: "expr \<Rightarrow> chars parse" where
  "member_name e =
     pif (\<lambda>s. at_token (Word KSuper) s \<and> is_super_path_expression e)
       (pseq advance (preturn (lit ''super'')))
       (pwith current_kind (\<lambda>k.
         case integer_of k of
           Some index \<Rightarrow> pseq advance (preturn (decimal (uint index)))
         | None \<Rightarrow> expect_relative_path_segment (lit ''a member name after `.`'')))"

definition postfix_bang :: "expr \<Rightarrow> expr parse" where
  "postfix_bang e =
     pmap (\<lambda>method. CallExpr (Member e method) [])
       (if_take (Arith Bang)
         (pif (at_token (Arith Bang))
           (fail_here (lit ''postfix operators accept at most two consecutive `!` tokens''))
           (preturn (lit ''$lang$unwrap'')))
         (preturn (lit ''$lang$raise'')))"

subsection \<open>Postfix expressions\<close>

text \<open>A turn of the loop: the expression so far and whether a trailing closure may follow.\<close>

type_synonym postfix_outcome = "((expr \<times> bool) + expr) parse"

definition completes_handler :: "chars \<Rightarrow> expr \<Rightarrow> bool" where
  "completes_handler label e \<longleftrightarrow> label = lit ''action'' \<and> starts_implicit_handler_groups e"

definition labeled_closure :: "grammar \<Rightarrow> expr \<Rightarrow> nat \<Rightarrow> chars \<Rightarrow> postfix_outcome" where
  "labeled_closure g e start label =
     pbind (trailing_closure g start) (\<lambda>c.
       let call = call_labeled e label c in
       if completes_handler label e then pbreak call else pcontinue (call, True))"

definition colon_trailing_closure :: "grammar \<Rightarrow> expr \<Rightarrow> postfix_outcome" where
  "colon_trailing_closure g e =
     pwith (\<lambda>s. start_byte (current s)) (\<lambda>start.
       pbind (expect_ident (lit ''a trailing closure label'')) (\<lambda>label.
         pseq (expect (Delim Colon) (lit ''`:` after trailing closure label'')) (labeled_closure g e start label)))"

definition colonless_trailing_closure :: "grammar \<Rightarrow> expr \<Rightarrow> postfix_outcome" where
  "colonless_trailing_closure g e =
     pwith (\<lambda>s. start_byte (current s)) (\<lambda>start.
       pbind take_trailing_label (\<lambda>label. labeled_closure g e start label))"

definition nested_trailing_call :: "grammar \<Rightarrow> expr \<Rightarrow> postfix_outcome" where
  "nested_trailing_call g e =
     pbind take_trailing_label (\<lambda>label.
       pbind (g_expression g True) (\<lambda>nested. pcontinue (call_labeled e label (Closure [] nested), True)))"

definition unlabeled_trailing_closure :: "grammar \<Rightarrow> expr \<Rightarrow> postfix_outcome" where
  "unlabeled_trailing_closure g e =
     (if starts_implicit_handler_groups e
      then fail_here (lit ''a handler action must use the named trailing group `action { ... }`'')
      else
        pwith (\<lambda>s. start_byte (current s)) (\<lambda>start.
          pbind (trailing_closure g start) (\<lambda>c. pcontinue (call_one e c, True))))"

definition continues_behind_newlines :: "expr \<Rightarrow> bool \<Rightarrow> parser \<Rightarrow> bool" where
  "continues_behind_newlines e can_take s \<longleftrightarrow>
     can_take \<and> (at_token (Delim LBrace) s \<or> named_trailing_closure_follows s) \<or>
     starts_implicit_handler_groups e \<and>
       (colonless_named_trailing_closure_follows s \<or> named_nested_trailing_call_follows s)"

definition behind_newlines :: "expr \<Rightarrow> bool \<Rightarrow> postfix_outcome" where
  "behind_newlines e can_take =
     pwith position (\<lambda>before.
       pseq skip_newlines
         (pif (continues_behind_newlines e can_take)
           (pcontinue (e, can_take))
           (pseq (rewind before) (pbreak e))))"

text \<open>The turns that take a trailing closure or an argument without parentheses.\<close>

definition trailing_turn :: "grammar \<Rightarrow> expr \<Rightarrow> bool \<Rightarrow> postfix_outcome" where
  "trailing_turn g e can_take =
     (let named = can_take \<or> starts_implicit_handler_groups e in
      pif (at_token (Delim LBrace))
        (unlabeled_trailing_closure g e)
        (pif (\<lambda>s. named \<and> named_trailing_closure_follows s)
          (colon_trailing_closure g e)
          (pif (\<lambda>s. named \<and> colonless_named_trailing_closure_follows s)
            (colonless_trailing_closure g e)
            (pif (\<lambda>s. named \<and> named_nested_trailing_call_follows s)
              (nested_trailing_call g e)
              (pif (\<lambda>s. token_can_start_bare_call_argument (current_kind s))
                (pbind (g_unary g False) (\<lambda>x. pcontinue (call_one e x, True)))
                (pif (at_token Newline) (behind_newlines e can_take) (pbreak e)))))))"

definition postfix_turn :: "grammar \<Rightarrow> bool \<Rightarrow> expr \<times> bool \<Rightarrow> postfix_outcome" where
  "postfix_turn g allow acc =
     (case acc of
        (e, can_take) \<Rightarrow>
          pif (\<lambda>s. at_token (Delim LParen) s \<and> starts_implicit_handler_groups e)
            (fail_here (lit ''`handle` clauses use named trailing groups; omit the parenthesized argument group''))
            (if_take (Delim LParen)
              (pbind (call_arguments g) (\<lambda>arguments. pcontinue (CallExpr e arguments, True)))
              (if_take (Delim LBracket)
                (pbind (g_expression g True) (\<lambda>index.
                  pseq (expect (Delim RBracket) (lit ''`]` after index'')) (pcontinue (IndexExpr e index, can_take))))
                (if_take (Delim Dot)
                  (pbind (member_name e) (\<lambda>member. pcontinue (Member e member, can_take)))
                  (if_take (BitOp QuestionDot)
                    (pbind (expect_ident (lit ''a member name after `?.`''))
                      (\<lambda>member. pcontinue (ChainMember e member, can_take)))
                    (if_take (Arith Bang)
                      (pbind (postfix_bang e) (\<lambda>e. pcontinue (e, can_take)))
                      (pif (struct_literal_follows e)
                        (pbind (struct_literal_fields g) (\<lambda>arguments. pcontinue (StructLiteral e arguments, can_take)))
                        (if allow then trailing_turn g e can_take else pbreak e))))))))"

definition postfix :: "grammar \<Rightarrow> bool \<Rightarrow> expr parse" where
  "postfix g allow = pbind (primary g allow) (\<lambda>e. ploop (postfix_turn g allow) (e, False))"

subsection \<open>Unary expressions\<close>

definition borrow_group_expression :: "grammar \<Rightarrow> bool \<Rightarrow> chars option \<Rightarrow> token \<Rightarrow> expr parse" where
  "borrow_group_expression g mutable access operator =
     pseq (expect (Delim LParen) (lit ''`(` before borrow operand''))
       (pif (at_token (Delim RParen))
         (fail_here (lit ''borrow operand cannot be empty''))
         (pbind (g_expression g True) (\<lambda>e.
           pseq (expect (Delim RParen) (lit ''`)` after borrow operand''))
             (if is_assignable_place e then preturn (BorrowExpr mutable access e)
              else fail_at operator (lit ''borrow operand must be a name or member chain'')))))"

definition borrow_expression :: "grammar \<Rightarrow> token \<Rightarrow> expr parse" where
  "borrow_expression g operator =
     pbind
       (pif borrow_qualifier_group_follows
         (pmap (\<lambda>(mutable, access, _). (mutable, access)) optional_borrow_arguments)
         (preturn (False, None)))
       (\<lambda>(mutable, access).
         pif (at_token (Delim LParen))
           (borrow_group_expression g mutable access operator)
           (fail_at operator (lit ''borrow expressions are written as `borrow(value)`'')))"

definition unary_parser :: "grammar \<Rightarrow> bool \<Rightarrow> expr parse" where
  "unary_parser g allow =
     pif (\<lambda>s. 0 < async_depth s \<and> at_context_ident (lit ''await'') s)
       (pseq advance (pmap AwaitExpr (g_unary g allow)))
       (if_take (Arith Minus)
         (pmap (UnaryExpr NegOp) (g_unary g allow))
         (if_take (Arith Bang)
           (pmap (UnaryExpr NotOp) (g_unary g allow))
           (if_take (Arith Star)
             (pmap (UnaryExpr DerefOp) (g_unary g allow))
             (if_take (Contextual CBorrow)
               (pwith previous (\<lambda>operator. borrow_expression g operator))
               (if_take (Contextual CMut)
                 (preturn (NameExpr (lit ''mut'')))
                 (postfix g allow))))))"

subsection \<open>Expressions\<close>

definition coalesce_parser :: "grammar \<Rightarrow> bool \<Rightarrow> expr parse" where
  "coalesce_parser g allow = coalesce g allow (unary_parser g allow)"

definition expression :: "grammar \<Rightarrow> bool \<Rightarrow> expr parse" where
  "expression g allow = assignment g allow (match_expression g (coalesce_parser g allow))"

text \<open>The recursion of the methods, with fuel; \<open>Parser_Total\<close> shows that the number of tokens is enough.\<close>

primrec grammar_of :: "(code_point \<Rightarrow> bool) \<Rightarrow> nat \<Rightarrow> grammar" where
  "grammar_of upper 0 =
     \<lparr>g_type = pstop OutOfFuel, g_expression = \<lambda>_. pstop OutOfFuel, g_coalesce = \<lambda>_. pstop OutOfFuel,
      g_unary = \<lambda>_. pstop OutOfFuel, g_pattern = pstop OutOfFuel, g_sort = \<lambda>_ _ _. pstop OutOfFuel\<rparr>"
| "grammar_of upper (Suc n) =
     (let g = grammar_of upper n in
      \<lparr>g_type = type_expr g, g_expression = expression g, g_coalesce = coalesce_parser g,
       g_unary = unary_parser g, g_pattern = pattern_parser upper g, g_sort = compile_parameter_sort g\<rparr>)"

end
