(* ===== verification/Parser_Items.thy ===== *)
theory Parser_Items
  imports Parser_Postfix
begin

text \<open>
  Constraints and the members of declarations: structs, enums, effects, traits and extensions
  (\<open>compiler/src/parser.rs\<close>).
\<close>

subsection \<open>Constraints\<close>

definition push_where_predicate :: "unit parse" where
  "push_where_predicate =
     pupdate (\<lambda>s. s\<lparr>layout := (layout s)
       \<lparr>layout_where_predicates := layout_where_predicates (layout s) @ [start_byte (current s)]\<rparr>\<rparr>)"

definition associated_binding_follows :: "parser \<Rightarrow> bool" where
  "associated_binding_follows s \<longleftrightarrow>
     ident_of (current_kind s) \<noteq> None \<and>
     (at_offset 1 (Arith Equal) s \<or>
      at_offset 1 (Delim LParen) s \<and> at_offset 2 (Contextual CComptime) s \<and>
        (ident_at 3 s \<noteq> None \<or> region_at 3 s \<noteq> None) \<and> at_offset 4 (Delim Colon) s)"

definition associated_binding :: "grammar \<Rightarrow> associated_type_binding parse" where
  "associated_binding g =
     pbind (expect_ident (lit ''an associated type name'')) (\<lambda>name.
       pbind
         (pwhile (at_token (Delim LParen))
           (\<lambda>groups. pmap (\<lambda>group. groups @ [group]) (compile_parameter_group g)) [])
         (\<lambda>groups.
           pseq (expect (Arith Equal) (lit ''`=` in associated type equality''))
             (pmap (\<lambda>t. \<lparr>atb_name = name, atb_compile_groups = groups, atb_ty = t\<rparr>) (g_type g))))"

type_synonym trait_arguments = "(chars option \<times> source_type) list \<times> associated_type_binding list"

text \<open>The associated types come last.\<close>

definition trait_argument :: "grammar \<Rightarrow> trait_arguments \<Rightarrow> trait_arguments parse" where
  "trait_argument g acc =
     (case acc of
        (arguments, associated) \<Rightarrow>
          pif associated_binding_follows
            (pmap (\<lambda>b. (arguments, associated @ [b])) (associated_binding g))
            (if associated \<noteq> []
             then fail_here (lit ''positional trait arguments must precede associated type equalities'')
             else
               pbind
                 (argument_label [lit ''access'', lit ''effect''] (lit ''a trait argument label'')
                   (lit ''`:` after trait argument label''))
                 (\<lambda>label. pmap (\<lambda>t. (arguments @ [(label, t)], associated)) (g_type g))))"

definition where_trait_arguments :: "grammar \<Rightarrow> trait_arguments parse" where
  "where_trait_arguments g =
     if_take (Delim LParen)
       (if_take (Delim RParen)
         (preturn ([], []))
         (pbind (comma_fold (trait_argument g) no_skip (Delim RParen) (lit ''`)` after trait arguments'') ([], []))
           (\<lambda>(arguments, associated).
             if mixed_labels arguments
             then fail_here (lit ''trait arguments must be either all labeled or all positional'')
             else preturn (arguments, associated))))
       (preturn ([], []))"

definition where_trait_ref :: "grammar \<Rightarrow> (source_type \<times> associated_type_binding list) parse" where
  "where_trait_ref g =
     pbind (dotted_path (lit ''a trait'') (lit ''a trait path segment after `.`'')) (\<lambda>path.
       pmap (\<lambda>(arguments, associated). (applied_name (join_text (lit ''.'') path) arguments, associated))
         (where_trait_arguments g))"

text \<open>An equality belongs to the last constraint on its subject.\<close>

primrec bind_first ::
    "source_type \<Rightarrow> associated_type_binding \<Rightarrow> where_predicate list \<Rightarrow> where_predicate list option" where
  "bind_first subject b [] = None"
| "bind_first subject b (p # ps) =
     (if wp_subject p = subject then Some (p\<lparr>wp_associated_types := wp_associated_types p @ [b]\<rparr> # ps)
      else map_option (Cons p) (bind_first subject b ps))"

definition bind_last ::
    "source_type \<Rightarrow> associated_type_binding \<Rightarrow> where_predicate list \<Rightarrow> where_predicate list option" where
  "bind_last subject b ps = map_option rev (bind_first subject b (rev ps))"

definition is_constraint ::
    "grammar \<Rightarrow> chars list \<Rightarrow> where_predicate list \<Rightarrow> where_predicate list parse" where
  "is_constraint g path predicates =
     pseq advance
       (pbind (where_trait_ref g) (\<lambda>(t, associated).
         if associated \<noteq> []
         then fail_here (lit ''associated type constraints are separate projection equalities; write `t is trait && t.item == type`'')
         else
           preturn (predicates @
             [\<lparr>wp_subject = SrcNamed (join_text (lit ''.'') path) [], wp_trait_ref = t, wp_associated_types = []\<rparr>])))"

definition projection_equality ::
    "grammar \<Rightarrow> chars list \<Rightarrow> where_predicate list \<Rightarrow> where_predicate list parse" where
  "projection_equality g path predicates =
     pbind
       (pwhile group_starts_with_compile_parameter
         (\<lambda>groups. pmap (\<lambda>group. groups @ [group]) (compile_parameter_group g)) [])
       (\<lambda>groups.
         pseq (expect (Arith EqualEqual) (lit ''`==` in associated type projection equality''))
           (pbind (g_type g) (\<lambda>t.
             case bind_last (SrcNamed (join_text (lit ''.'') (butlast path)) [])
                 \<lparr>atb_name = List.last path, atb_compile_groups = groups, atb_ty = t\<rparr> predicates of
               None \<Rightarrow>
                 fail_here
                   (lit ''an associated type projection equality must follow an `is` constraint for the same subject'')
             | Some predicates \<Rightarrow> preturn predicates)))"

definition constraint_expression :: "grammar \<Rightarrow> where_predicate list \<Rightarrow> where_predicate list parse" where
  "constraint_expression g predicates =
     pseq push_where_predicate
       (pbind (dotted_path (lit ''a constraint subject type'') (lit ''a constraint subject path segment after `.`''))
         (\<lambda>path.
           pif (at_context_ident (lit ''is''))
             (is_constraint g path predicates)
             (if length path < 2
              then fail_here (lit ''expected compile-time `is` or an associated type projection equality'')
              else projection_equality g path predicates)))"

definition constraint_expressions_until_rparen :: "grammar \<Rightarrow> where_predicate list parse" where
  "constraint_expressions_until_rparen g =
     pbind
       (ploop
         (\<lambda>predicates.
           pbind (constraint_expression g predicates) (\<lambda>predicates.
             pif (\<lambda>s. at_token (BitOp AndAnd) s \<or> at_token (Delim Comma) s)
               (pseq advance (pif (at_token (Delim RParen)) (pbreak predicates) (pcontinue predicates)))
               (pbreak predicates)))
         [])
       (\<lambda>predicates.
         pseq (expect (Delim RParen) (lit ''`)` after compile-time constraints'')) (preturn predicates))"

definition constraint_arguments :: "grammar \<Rightarrow> chars \<Rightarrow> where_predicate list parse" where
  "constraint_arguments g opening =
     pseq (expect (Delim LParen) opening) (constraint_expressions_until_rparen g)"

definition requires_parameter_group :: "grammar \<Rightarrow> where_predicate list parse" where
  "requires_parameter_group g =
     pseq (expect (Delim LParen) (lit ''`(` before `requires:`''))
       (pbind (expect_ident (lit ''`requires` boolean requirement header label'')) (\<lambda>label.
         if label \<noteq> lit ''requires''
         then fail_here (lit ''expected boolean requirement header label `requires`, found '' @ quoted label)
         else
           pseq (expect (Delim Colon) (lit ''`:` after `requires`'')) (constraint_expressions_until_rparen g)))"

subsection \<open>Fields, structs and sorts\<close>

definition visibility_parser :: "visibility parse" where
  "visibility_parser =
     if_take (Word KPub)
       (if_take (Delim LParen)
         (pseq (expect (Word KPackage) (lit ''`package` in visibility''))
           (pseq (expect (Delim RParen) (lit ''`)` after package visibility'')) (preturn Package)))
         (preturn Public))
       (preturn Private)"

definition field_parser :: "grammar \<Rightarrow> field_def parse" where
  "field_parser g =
     pbind visibility_parser (\<lambda>v.
       pbind (expect_ident (lit ''a field name'')) (\<lambda>name.
         pseq (expect (Delim Colon) (lit ''`:` after field name''))
           (pmap (\<lambda>t. \<lparr>field_visibility = v, field_name = name, field_ty = t\<rparr>) (g_type g))))"

definition braced_type_fields :: "grammar \<Rightarrow> field_def list parse" where
  "braced_type_fields g =
     pseq skip_separators
       (if_take (Delim RBrace)
         (preturn [])
         (comma_list (field_parser g) skip_separators (Delim RBrace) (lit ''`}` after fields'')))"

definition named_type_fields_after_open :: "grammar \<Rightarrow> field_def list parse" where
  "named_type_fields_after_open g =
     pseq skip_separators (comma_list (field_parser g) skip_separators (Delim RParen) (lit ''`)` after fields''))"

type_synonym options = "struct_representation \<times> chars list"

definition derive_option :: "options \<Rightarrow> options parse" where
  "derive_option acc =
     (case acc of
        (representation, derives) \<Rightarrow>
          pbind (expect_ident (lit ''a derive name'')) (\<lambda>derive.
            if derive \<noteq> lit ''copyable''
            then fail_here (lit ''unsupported struct derive '' @ quoted derive @ lit ''; only `copyable` is supported'')
            else if derive \<in> set derives then fail_here (lit ''duplicate struct derive '' @ quoted derive)
            else preturn (representation, derives @ [derive])))"

definition struct_option :: "options \<Rightarrow> options parse" where
  "struct_option acc =
     pbind (expect_ident (lit ''a struct option name'')) (\<lambda>option.
       if_take (Delim Colon)
         (if option = lit ''derive'' then derive_option acc
          else fail_here (lit ''unknown struct option '' @ quoted option @ lit ''; expected `derive`''))
         (if option = lit ''c''
          then
            if fst acc = CRepr then fail_here (lit ''duplicate struct representation `c`'')
            else preturn (CRepr, snd acc)
          else
            fail_here
              (lit ''unsupported struct representation '' @ quoted option @ lit ''; only `c` is available'')))"

definition struct_options :: "options parse" where
  "struct_options =
     if_take (Delim LParen)
       (if_take (Delim RParen)
         (preturn (SalicinRepr, []))
         (comma_fold struct_option no_skip (Delim RParen) (lit ''`)` after struct options'') (SalicinRepr, [])))
       (preturn (SalicinRepr, []))"

definition struct_definition :: "grammar \<Rightarrow> chars \<Rightarrow> compile_param list list \<Rightarrow> struct_def parse" where
  "struct_definition g name compile_groups =
     pseq (expect (Word KStruct) (lit ''`struct`''))
       (pbind struct_options (\<lambda>(representation, derives).
         pseq (expect (Delim LBrace) (lit ''`{` after `struct`''))
           (pmap
             (\<lambda>members.
               \<lparr>struct_name = name, struct_compile_groups = compile_groups, struct_repr = representation,
                struct_derives = derives, struct_fields = members\<rparr>)
             (braced_type_fields g))))"

definition sort_member_word :: "token_kind \<Rightarrow> chars option" where
  "sort_member_word k =
     (case k of
        Ident name \<Rightarrow> if name \<noteq> lit ''_'' then Some name else None
      | Contextual CType \<Rightarrow> Some (lit ''type'')
      | Contextual CRegion \<Rightarrow> Some (lit ''region'')
      | k \<Rightarrow> static_name k)"

definition sort_member_name :: "chars parse" where
  "sort_member_name =
     pwith current (\<lambda>t.
       case sort_member_word (kind t) of
         Some name \<Rightarrow> pseq advance (preturn name)
       | None \<Rightarrow> fail_at t (expected_found (lit ''a sort member name'') (kind t)))"

definition sort_member_list :: "chars list parse" where
  "sort_member_list =
     ploop
       (\<lambda>members.
         if_take (Delim RBrace)
           (pbreak members)
           (pbind sort_member_name (\<lambda>member.
             if member \<in> set members then fail_here (lit ''duplicate sort member '' @ quoted member)
             else pseq optional_comma (pseq skip_separators (pcontinue (members @ [member]))))))
       []"

definition sort_definition :: "chars \<Rightarrow> u64 \<Rightarrow> sort_def parse" where
  "sort_definition name level =
     pmap (\<lambda>members. \<lparr>sort_name = name, sort_def_level = level, sort_members = members\<rparr>)
       (if_take (Delim LBrace) (pseq skip_separators (pmap Some sort_member_list)) (preturn None))"

subsection \<open>Enums\<close>

definition variant_word :: "token_kind \<Rightarrow> chars option" where
  "variant_word k =
     (case k of
        Ident name \<Rightarrow> Some name
      | Word KTrue \<Rightarrow> Some (lit ''true'')
      | Word KFalse \<Rightarrow> Some (lit ''false'')
      | Contextual CMut \<Rightarrow> Some (lit ''mut'')
      | _ \<Rightarrow> None)"

definition enum_variant_name :: "chars parse" where
  "enum_variant_name =
     pwith current (\<lambda>t.
       case variant_word (kind t) of
         Some name \<Rightarrow> pseq advance (preturn name)
       | None \<Rightarrow> fail_at t (expected_found (lit ''an enum variant name'') (kind t)))"

definition variant_payload_parser :: "grammar \<Rightarrow> variant_fields parse" where
  "variant_payload_parser g =
     if_take (Delim LParen)
       (pseq skip_separators
         (if_take (Delim RParen)
           (preturn (PositionalFields []))
           (pif (\<lambda>s. ident_followed_by_colon s \<or> at_token (Word KPub) s)
             (pmap NamedFields (named_type_fields_after_open g))
             (pmap PositionalFields
               (comma_list (g_type g) skip_separators (Delim RParen) (lit ''`)` after variant fields''))))))
       (preturn UnitFields)"

definition enum_variant :: "grammar \<Rightarrow> variant_def list \<Rightarrow> variant_def list parse" where
  "enum_variant g variants =
     pbind enum_variant_name (\<lambda>name.
       if name \<in> set (map variant_name variants) then fail_here (lit ''duplicate enum variant '' @ quoted name)
       else
         pmap (\<lambda>payload. variants @ [\<lparr>variant_name = name, variant_payload = payload\<rparr>]) (variant_payload_parser g))"

definition enum_variant_list :: "grammar \<Rightarrow> variant_def list parse" where
  "enum_variant_list g =
     ploop
       (\<lambda>variants.
         if_take (Delim RBrace)
           (pbreak variants)
           (pif (at_token Eof)
             (fail_here (lit ''expected `}` before end of enum declaration''))
             (pbind (enum_variant g variants) (\<lambda>variants.
               if_take (Delim Comma)
                 (pseq skip_separators (pcontinue variants))
                 (pseq skip_separators
                   (pif (at_token (Delim RBrace))
                     (pcontinue variants)
                     (fail_here (lit ''expected `,` between enum variants''))))))))
       []"

definition enum_definition :: "grammar \<Rightarrow> chars \<Rightarrow> compile_param list list \<Rightarrow> enum_def parse" where
  "enum_definition g name compile_groups =
     pseq (expect (Word KEnum) (lit ''`enum`''))
       (pseq (expect (Delim LBrace) (lit ''`{` after `enum`''))
         (pseq skip_separators
           (pmap (\<lambda>variants. \<lparr>enum_name = name, enum_compile_groups = compile_groups, enum_variants = variants\<rparr>)
             (enum_variant_list g))))"

subsection \<open>Results and effects of callables\<close>

text \<open>What a declaration has in front of its value.\<close>

record declared =
  d_mutable :: bool
  d_name :: chars
  d_compile_groups :: "compile_param list list"
  d_groups :: "param list list"
  d_effects :: function_effects
  d_boundary :: bool
  d_effect_clause :: bool
  d_annotation :: "source_type option"
  d_where :: "where_predicate list"

definition declaration_of :: "bool \<Rightarrow> chars \<Rightarrow> declaration_groups \<Rightarrow> declared" where
  "declaration_of mutable name gs =
     (case gs of
        (compile_groups, groups, effects, boundary, clause) \<Rightarrow>
          \<lparr>d_mutable = mutable, d_name = name, d_compile_groups = compile_groups, d_groups = groups,
           d_effects = effects, d_boundary = boundary, d_effect_clause = clause, d_annotation = None, d_where = []\<rparr>)"

definition no_groups :: "declared \<Rightarrow> bool" where
  "no_groups d \<longleftrightarrow> d_compile_groups d = [] \<and> d_groups d = []"

definition function_of :: "declared \<Rightarrow> expr option \<Rightarrow> function_def" where
  "function_of d body =
     \<lparr>fd_name = d_name d, fd_foreign = None, fd_builtin = False, fd_compile_groups = d_compile_groups d,
      fd_groups = d_groups d, fd_return_type = d_annotation d, fd_effects = d_effects d,
      fd_where_predicates = d_where d, fd_body = body\<rparr>"

definition clear_effect_parameters :: "unit parse" where
  "clear_effect_parameters = pupdate (\<lambda>s. s\<lparr>effect_parameters_in_scope := {}\<rparr>)"

text \<open>Behind the result type: the effects, unless a boundary had them, and the annotation.\<close>

definition annotate :: "grammar \<Rightarrow> declared \<Rightarrow> source_type option \<Rightarrow> declared parse" where
  "annotate g d result =
     pbind
       (if d_boundary d then preturn (d_effects d, d_effect_clause d)
        else pmap (\<lambda>(effects, _, clause). (effects, clause)) (function_effect_clause g))
       (\<lambda>(effects, clause).
         pseq clear_effect_parameters
           (preturn (d\<lparr>d_effects := effects, d_effect_clause := clause,
              d_annotation := map_option (\<lambda>r. apply_failure_effect r (fe_failure effects)) result\<rparr>)))"

definition optional_result :: "grammar \<Rightarrow> source_type option parse" where
  "optional_result g = if_take (Delim Colon) (pmap Some (function_result_type g)) (preturn None)"

text \<open>The constraints in front of a body; \<open>done\<close> says where there is no body.\<close>

definition body_constraints :: "grammar \<Rightarrow> declared \<Rightarrow> declared parse" where
  "body_constraints g d =
     pseq advance
       (pmap (\<lambda>predicates. d\<lparr>d_where := d_where d @ predicates\<rparr>)
         (constraint_arguments g (lit ''`(` after `requires`'')))"

definition builtin_initializer_follows :: "nat \<Rightarrow> parser \<Rightarrow> bool" where
  "builtin_initializer_follows offset s \<longleftrightarrow>
     ident_at offset s = Some (lit ''builtin'') \<and> is_at (offset + 1) [Delim LParen] s \<and>
     is_at (offset + 2) [Delim RParen] s"

definition consume_builtin_initializer :: "unit parse" where
  "consume_builtin_initializer =
     pseq advance
       (pseq (expect (Delim LParen) (lit ''`(` after `builtin`''))
         (expect (Delim RParen) (lit ''`)` after compiler definition marker `builtin(`'')))"

definition data_declaration_follows :: "parser \<Rightarrow> bool" where
  "data_declaration_follows s \<longleftrightarrow>
     at_token (Word KStruct) s \<or> at_token (Word KEnum) s \<or> at_token (Word KTrait) s"

text \<open>Members between braces with separators between them.\<close>

definition member_end :: "chars \<Rightarrow> unit parse" where
  "member_end m =
     pseq (pif (\<lambda>s. \<not> at_token (Delim RBrace) s \<and> \<not> at_separator s) (fail_here m) no_skip) skip_separators"

definition member_list :: "'a parse \<Rightarrow> chars \<Rightarrow> chars \<Rightarrow> 'a list parse" where
  "member_list member at_end behind =
     ploop
       (\<lambda>members.
         if_take (Delim RBrace)
           (pbreak members)
           (pif (at_token Eof)
             (fail_here at_end)
             (pbind member (\<lambda>m. pseq (member_end behind) (pcontinue (members @ [m]))))))
       []"

subsection \<open>Effects\<close>

definition parameter_labels :: "param list list \<Rightarrow> chars list" where
  "parameter_labels groups = map param_name (concat groups)"

definition effect_operation_head :: "grammar \<Rightarrow> declared parse" where
  "effect_operation_head g =
     pseq (expect (Word KLet) (lit ''`let` in effect body''))
       (if_take (Contextual CMut)
         (fail_here (lit ''effect operations cannot use `let mut`''))
         (pbind (expect_ident (lit ''an effect operation name'')) (\<lambda>name.
           if name = lit ''handle'' \<or> name = lit ''done''
           then fail_here (lit ''effect operation name '' @ quoted name @ lit '' is reserved by handler lowering'')
           else pmap (declaration_of False name) (declaration_groups g False []))))"

definition effect_operation_end ::
    "chars \<Rightarrow> function_def list \<Rightarrow> declared \<Rightarrow> function_def list parse" where
  "effect_operation_end name operations d =
     pif (at_token (Word KWhere))
       (fail_here (lit ''where clauses on effect operations are not supported yet''))
       (pif (at_token (Arith Equal))
         (fail_here (lit ''effect operations are requirements and cannot have bodies''))
         (if list_ex (\<lambda>f. fd_name f = d_name d \<and> parameter_labels (fd_groups f) = parameter_labels (d_groups d))
               operations
          then
            fail_here (lit ''duplicate effect operation '' @ quoted (name @ lit ''.'' @ d_name d) @
              lit '' with the same parameter names'')
          else
            pseq (member_end (lit ''expected a newline or `;` after effect operation''))
              (preturn (operations @ [function_of d None]))))"

definition effect_operation :: "grammar \<Rightarrow> chars \<Rightarrow> function_def list \<Rightarrow> function_def list parse" where
  "effect_operation g name operations =
     pbind (effect_operation_head g) (\<lambda>d.
       if d_compile_groups d \<noteq> []
       then fail_here (lit ''compile-time parameters on effect operations are not supported yet'')
       else if d_groups d = []
       then fail_here
         (lit ''effect operations require an explicit runtime parameter group; use `()` for no arguments'')
       else
         pseq (expect (Delim Colon) (lit ''`:` before effect operation result type''))
           (pbind (function_result_type g) (\<lambda>result.
             pbind (annotate g d (Some result)) (\<lambda>d. effect_operation_end name operations d))))"

definition effect_definition :: "grammar \<Rightarrow> chars \<Rightarrow> compile_param list list \<Rightarrow> effect_def parse" where
  "effect_definition g name compile_groups =
     pmap
       (\<lambda>operations. \<lparr>effect_name = name, effect_compile_groups = compile_groups, effect_operations = operations\<rparr>)
       (if_take (Delim LBrace)
         (pseq skip_separators
           (ploop
             (\<lambda>operations. if_take (Delim RBrace) (pbreak operations) (pnext (effect_operation g name operations))) []))
         (preturn []))"

subsection \<open>Traits\<close>

definition trait_self_parameter_parser :: "grammar \<Rightarrow> compile_param parse" where
  "trait_self_parameter_parser g =
     pif (\<lambda>s. at_token (Delim LParen) s \<and> at_offset 1 (Contextual CComptime) s)
       (pbind (compile_parameter_group g) (\<lambda>group.
         case group of
           [p] \<Rightarrow>
             if cp_name p \<noteq> lit ''self''
             then fail_here (lit ''trait self sort parameter must be named `self`'') else preturn p
         | _ \<Rightarrow> fail_here (lit ''trait self sort must declare exactly one `self` parameter'')))
       (preturn default_trait_self_parameter)"

definition associated_kind_parser :: "associated_kind option parse" where
  "associated_kind_parser =
     if_take (Contextual CType)
       (preturn (Some AssociatedTypeKind))
       (pif (at_context_ident (lit ''parameters''))
         (pseq advance (preturn (Some AssociatedParameters)))
         (preturn None))"

definition associated_declaration :: "grammar \<Rightarrow> declared \<Rightarrow> associated_kind \<Rightarrow> trait_member parse" where
  "associated_declaration g d k =
     (if d_groups d \<noteq> []
      then fail_here (lit ''associated declarations cannot have runtime parameter groups'')
      else
        pif (\<lambda>s. k = AssociatedParameters \<and> at_token (Arith Equal) s)
          (fail_here (lit ''default associated parameter schemas are not supported yet''))
          (pseq (take_newlines_if_followed_by [Arith Equal])
            (pmap (AssociatedType (d_name d) (d_compile_groups d) k)
              (if_take (Arith Equal) (pmap Some (g_type g)) (preturn None)))))"

definition trait_body :: "grammar \<Rightarrow> chars \<Rightarrow> expr option parse" where
  "trait_body g m =
     pif (at_context_ident (lit ''builtin''))
       (fail_here (lit ''trait requirements are abstract and cannot use `builtin()`''))
       (pif (at_token (Delim LBrace)) (pmap Some (block g)) (fail_here m))"

definition trait_function_body :: "grammar \<Rightarrow> declared \<Rightarrow> trait_member parse" where
  "trait_function_body g d =
     if_take (Arith Equal)
       (pif (at_context_ident (lit ''requires''))
         (pbind (body_constraints g d) (\<lambda>d.
           pmap (\<lambda>body. TraitFunction (function_of d body))
             (pif (\<lambda>s. at_separator s \<or> at_token (Delim RBrace) s)
               (preturn None)
               (trait_body g
                 (lit ''trait default closure declarations require a braced body after `requires(...)`'')))))
         (pmap (\<lambda>body. TraitFunction (function_of d body))
           (trait_body g
             (lit ''trait default closure declarations require a braced body; write `= { expression }`''))))
       (preturn (TraitFunction (function_of d None)))"

definition trait_function :: "grammar \<Rightarrow> declared \<Rightarrow> source_type option \<Rightarrow> trait_member parse" where
  "trait_function g d result =
     pbind (annotate g d result) (\<lambda>d.
       if no_groups d then fail_here (lit ''trait function members require at least one parameter group'')
       else
         pseq (take_newlines_if_followed_by [Word KWhere, Arith Equal])
           (pif (at_token (Word KWhere))
             (fail_here
               (lit ''colon-style trait-member predicates were removed; write `= requires(t is trait)`''))
             (pseq (take_newlines_if_followed_by [Arith Equal]) (trait_function_body g d))))"

definition trait_member_result :: "grammar \<Rightarrow> declared \<Rightarrow> trait_member parse" where
  "trait_member_result g d =
     if_take (Delim Colon)
       (pbind associated_kind_parser (\<lambda>k.
         case k of
           Some k \<Rightarrow> associated_declaration g d k
         | None \<Rightarrow> pbind (function_result_type g) (\<lambda>result. trait_function g d (Some result))))
       (trait_function g d None)"

text \<open>The name and the groups of a member of a trait or of an extension.\<close>

definition member_head :: "grammar \<Rightarrow> chars list \<Rightarrow> string \<Rightarrow> string \<Rightarrow> declared parse" where
  "member_head g outer container article =
     pif (at_token (Word KPub))
       (fail_here (lit ''visibility on '' @ lit container @ lit '' members is not supported yet''))
       (pseq (expect (Word KLet) (lit ''`let` in '' @ lit container @ lit '' body''))
         (if_take (Contextual CMut)
           (pwith previous (\<lambda>t. fail_at t (lit container @ lit '' members cannot be declared with `let mut`'')))
           (pbind (expect_ident (lit article @ lit '' '' @ lit container @ lit '' member name'')) (\<lambda>name.
             pbind (declaration_groups g True outer) (\<lambda>groups.
               let d = declaration_of False name groups in
               pseq (validate_receiver_groups name (d_groups d)) (preturn d))))))"

definition trait_member_parser :: "grammar \<Rightarrow> chars list \<Rightarrow> trait_member parse" where
  "trait_member_parser g outer = pbind (member_head g outer ''trait'' ''a'') (trait_member_result g)"

definition member_effect_parameters :: "compile_param list list \<Rightarrow> compile_param \<Rightarrow> chars list" where
  "member_effect_parameters compile_groups self_parameter =
     map cp_name (filter (\<lambda>p. is_effect_classifier (cp_kind p)) (concat compile_groups)) @
     (if is_effect_classifier (cp_kind self_parameter) then [cp_name self_parameter] else [])"

definition trait_definition :: "grammar \<Rightarrow> chars \<Rightarrow> compile_param list list \<Rightarrow> trait_def parse" where
  "trait_definition g name compile_groups =
     pseq (expect (Word KTrait) (lit ''`trait`''))
       (pbind (trait_self_parameter_parser g) (\<lambda>self_parameter.
         pbind (pif (at_token (Delim LParen)) (requires_parameter_group g) (preturn [])) (\<lambda>predicates.
           pseq (take_newlines_if_followed_by [Delim LBrace])
             (pseq (expect (Delim LBrace) (lit ''`{` after `trait`''))
               (pseq skip_separators
                 (pmap
                   (\<lambda>members.
                     \<lparr>trait_name = name, trait_self_parameter = self_parameter, trait_compile_groups = compile_groups,
                      trait_where_predicates = predicates, trait_members = members\<rparr>)
                   (member_list (trait_member_parser g (member_effect_parameters compile_groups self_parameter))
                     (lit ''expected `}` before end of trait declaration'')
                     (lit ''expected a newline or `;` after trait member''))))))))"

end
