(* ===== verification/Parser_Program.thy ===== *)
theory Parser_Program
  imports Parser_Items
begin

text \<open>
  Declarations, imports, tests and whole programs (\<open>compiler/src/parser.rs\<close>).  The passes of
  \<open>parser/post_parse.rs\<close> over the parsed items are an argument.
\<close>

subsection \<open>Extensions\<close>

definition skip_to :: "token_kind list \<Rightarrow> unit parse" where
  "skip_to ks = pseq (take_newlines_if_followed_by ks) no_skip"

text \<open>From the annotation to the value; \<open>removed\<close> is the message for a \<open>where\<close>.\<close>

definition before_value :: "declared \<Rightarrow> chars \<Rightarrow> unit parse" where
  "before_value d removed =
     pseq (if no_groups d then no_skip else skip_to [Word KWhere, Arith Equal])
       (pif (at_token (Word KWhere)) (fail_here removed) (skip_to [Arith Equal]))"

text \<open>A requirement has no value.\<close>

definition has_no_value :: "declared \<Rightarrow> parser \<Rightarrow> bool" where
  "has_no_value d s \<longleftrightarrow> \<not> at_token (Arith Equal) s \<and> \<not> no_groups d"

definition braced_body_required :: "'a parse" where
  "braced_body_required =
     fail_here (lit ''named closure declarations require a braced body; write `= { expression }`'')"

definition extend_builtin :: "declared \<Rightarrow> extend_member parse" where
  "extend_builtin d =
     (if no_groups d then fail_here (lit ''`builtin()` cannot define an associated constant'')
      else if d_annotation d = None
      then fail_here (lit ''builtin methods require an explicit result type before `= builtin()`'')
      else
        pseq consume_builtin_initializer (preturn (ExtendFunction ((function_of d None)\<lparr>fd_builtin := True\<rparr>))))"

definition extend_constant :: "grammar \<Rightarrow> declared \<Rightarrow> extend_member parse" where
  "extend_constant g d =
     (if d_boundary d then fail_here (lit ''effect annotations require a function member'')
      else pmap (\<lambda>e. ExtendConst (Binding False (d_name d) (d_annotation d) e None)) (g_expression g True))"

definition extend_value :: "grammar \<Rightarrow> declared \<Rightarrow> extend_member parse" where
  "extend_value g d =
     pif (at_context_ident (lit ''builtin''))
       (extend_builtin d)
       (pif data_declaration_follows
         (fail_here (lit ''data declarations are not allowed in extend bodies''))
         (if no_groups d then extend_constant g d
          else
            pif (at_token (Delim LBrace))
              (pmap (\<lambda>e. ExtendFunction (function_of d (Some e))) (block g))
              braced_body_required))"

definition extend_initializer :: "grammar \<Rightarrow> declared \<Rightarrow> extend_member parse" where
  "extend_initializer g d =
     pseq (expect (Arith Equal) (lit ''`=` in extend member''))
       (pif (at_context_ident (lit ''requires''))
         (pbind (body_constraints g d) (\<lambda>d.
           pif (\<lambda>s. at_separator s \<or> at_token (Delim RBrace) s)
             (preturn (ExtendFunction (function_of d None)))
             (extend_value g d)))
         (extend_value g d))"

definition extend_member_parser :: "grammar \<Rightarrow> extend_member parse" where
  "extend_member_parser g =
     pbind (member_head g [] ''extend'' ''an'') (\<lambda>d.
       pbind (optional_result g) (\<lambda>result.
         pbind (annotate g d result) (\<lambda>d.
           pseq
             (before_value d
               (lit ''colon-style extension-member predicates were removed; write `= requires(t is trait) ...`''))
             (pif (has_no_value d)
               (preturn (ExtendFunction (function_of d None)))
               (extend_initializer g d)))))"

definition extend_requirements :: "grammar \<Rightarrow> where_predicate list parse" where
  "extend_requirements g =
     pif (at_token (Delim LParen))
       (requires_parameter_group g)
       (pif (at_token (Word KWhere))
         (fail_here (lit ''`where` extension predicates were removed; write `(requires: t is trait)`''))
         (preturn []))"

definition extend_definition :: "grammar \<Rightarrow> extend_def parse" where
  "extend_definition g =
     pseq (expect (Word KExtend) (lit ''`extend`''))
       (pseq (expect (Delim LParen) (lit ''`(` after `extend`''))
         (pbind (g_type g) (\<lambda>target.
           pbind (if_take (Delim Comma) (pmap Some (g_type g)) (preturn None)) (\<lambda>trait_ref.
             pseq (expect (Delim RParen) (lit ''`)` after extend arguments''))
               (pseq (take_newlines_if_followed_by [Delim LParen, Delim LBrace])
                 (pbind (extend_requirements g) (\<lambda>predicates.
                   pseq (take_newlines_if_followed_by [Delim LBrace])
                     (pseq (expect (Delim LBrace) (lit ''trailing implementation block after `extend(...)`''))
                       (pseq skip_separators
                         (pmap
                           (\<lambda>members.
                             \<lparr>ext_compile_groups = [], ext_target = target, ext_trait_ref = trait_ref,
                              ext_where_predicates = predicates, ext_members = members\<rparr>)
                           (member_list (extend_member_parser g)
                             (lit ''expected `}` before end of extend declaration'')
                             (lit ''expected a newline or `;` after extend member''))))))))))))"

subsection \<open>Type declarations\<close>

definition declaration_word :: "token_kind \<Rightarrow> chars option" where
  "declaration_word k =
     (case k of
        Ident name \<Rightarrow> Some name
      | Contextual c \<Rightarrow>
          if c \<in> {CType, CRegion, CBorrow, CDo, CTry, CThrow, CUnsafe, CLoop} then contextual_spelling c else None
      | _ \<Rightarrow> None)"

definition declaration_name :: "chars parse" where
  "declaration_name =
     pwith current_kind (\<lambda>k.
       case declaration_word k of
         Some name \<Rightarrow> pseq advance (preturn name)
       | None \<Rightarrow> fail_expected (lit ''a declaration name''))"

definition type_constructor_signature_follows :: "parser \<Rightarrow> bool" where
  "type_constructor_signature_follows s \<longleftrightarrow>
     at_token (Delim Colon) s \<and> at_offset 1 (Delim LParen) s \<and> at_offset 2 (Contextual CComptime) s \<and>
     ident_at 3 s \<noteq> None \<and> at_offset 4 (Delim Colon) s \<and> at_offset 5 (Contextual CType) s"

definition alias_sort :: "sort \<Rightarrow> bool" where
  "alias_sort k = (case k of TypeSort \<Rightarrow> True | RegionSort \<Rightarrow> True | USizeSort \<Rightarrow> True | NamedSort _ \<Rightarrow> True | _ \<Rightarrow> False)"

definition type_alias_item :: "grammar \<Rightarrow> declared \<Rightarrow> item parse" where
  "type_alias_item g d =
     (if d_mutable d then fail_here (lit ''type aliases cannot be declared with `let mut`'')
      else if list_ex (\<lambda>p. \<not> alias_sort (cp_kind p)) (concat (d_compile_groups d))
      then fail_here
        (lit ''type aliases accept only `type`, `region`, `usize`, or closed-value compile-time parameters'')
      else
        pseq (take_newlines_if_followed_by [Arith Equal])
          (pseq (expect (Arith Equal) (lit ''`=` in type alias''))
            (pmap
              (\<lambda>t. TypeAliasItem
                \<lparr>alias_name = d_name d, alias_compile_groups = d_compile_groups d, alias_target = t\<rparr>)
              (g_type g))))"

definition type_form_definition :: "declared \<Rightarrow> bool \<Rightarrow> item parse" where
  "type_form_definition d builtin =
     (if d_mutable d then fail_here (lit ''type forms cannot be declared with `let mut`'')
      else
        preturn (TypeFormItem
          \<lparr>form_name = d_name d, form_compile_groups = d_compile_groups d, form_values = [], form_builtin = builtin\<rparr>))"

definition type_constructor_alias :: "grammar \<Rightarrow> declared \<Rightarrow> item parse" where
  "type_constructor_alias g d =
     (if d_mutable d then fail_here (lit ''type-constructor aliases cannot be declared with `let mut`'')
      else
        pseq (take_newlines_if_followed_by [Arith Equal])
          (pseq (expect (Arith Equal) (lit ''`=` in type-constructor alias''))
            (pbind (g_type g) (\<lambda>target.
              case target of
                SrcNamed name arguments \<Rightarrow>
                  if arguments \<noteq> []
                  then fail_here
                    (lit ''a type-constructor alias target must be unapplied; use a parameterized type alias for an applied result'')
                  else
                    preturn (TypeAliasItem
                      \<lparr>alias_name = d_name d, alias_compile_groups = d_compile_groups d,
                       alias_target =
                         SrcNamed name (map (\<lambda>p. SrcNamed (cp_name p) []) (concat (d_compile_groups d)))\<rparr>)
              | _ \<Rightarrow> fail_here (lit ''a type-constructor alias must name another type constructor'')))))"

definition builtin_follows :: "parser \<Rightarrow> bool" where
  "builtin_follows s \<longleftrightarrow> at_token (Arith Equal) s \<and> builtin_initializer_follows 1 s"

definition builtin_type_form :: "declared \<Rightarrow> item parse" where
  "builtin_type_form d = pseq advance (pseq consume_builtin_initializer (type_form_definition d True))"

definition abstract_sort :: "declared \<Rightarrow> item parse" where
  "abstract_sort d =
     (if d_mutable d then fail_here (lit ''abstract sort declarations cannot be mutable'')
      else
        pseq advance
          (pseq advance
            (pmap (\<lambda>level. SortItem \<lparr>sort_name = d_name d, sort_def_level = level, sort_members = None\<rparr>)
              sort_level_literal)))"

definition type_declaration :: "grammar \<Rightarrow> declared \<Rightarrow> item parse" where
  "type_declaration g d =
     pseq advance
       (pseq advance
         (pseq (take_newlines_if_followed_by [Arith Equal])
           (pif builtin_follows
             (builtin_type_form d)
             (pif (at_token (Arith Equal)) (type_alias_item g d) (type_form_definition d False)))))"

definition type_constructor_declaration :: "grammar \<Rightarrow> declared \<Rightarrow> item parse" where
  "type_constructor_declaration g d =
     pseq advance
       (pbind
         (pwhile group_starts_with_compile_parameter
           (\<lambda>groups. pmap (\<lambda>group. groups @ [group]) (compile_parameter_group g)) [])
         (\<lambda>groups.
           pseq (expect (Delim Colon) (lit ''`:` before type-constructor result sort''))
             (pseq (expect (Contextual CType) (lit ''`type` as type-constructor result sort''))
               (pseq (take_newlines_if_followed_by [Arith Equal])
                 (pif builtin_follows
                   (builtin_type_form (d\<lparr>d_compile_groups := groups\<rparr>))
                   (type_constructor_alias g (d\<lparr>d_compile_groups := groups\<rparr>)))))))"

subsection \<open>Values of declarations\<close>

definition builtin_function :: "declared \<Rightarrow> item parse" where
  "builtin_function d =
     (let bootstrap = d_name d = lit ''builtin'' \<and> d_compile_groups d = [] \<and> d_groups d = [[]] in
      if d_mutable d then fail_here (lit ''builtin definitions cannot be mutable'')
      else if no_groups d
      then fail_here (lit ''`builtin()` defines a function or type declaration, not a global value'')
      else if bootstrap \<and> d_annotation d \<noteq> None
      then fail_here (lit ''the compiler-definition bootstrap has exact shape `let builtin() = builtin()`'')
      else if d_annotation d = None \<and> \<not> bootstrap
      then fail_here (lit ''builtin functions require an explicit result type before `= builtin()`'')
      else
        pseq consume_builtin_initializer
          (preturn (FunctionItem ((function_of d None)
            \<lparr>fd_builtin := True,
             fd_return_type :=
               (if d_annotation d = None \<and> bootstrap then Some (SrcNamed (lit ''never'') []) else d_annotation d)\<rparr>))))"

definition is_ascii_letter :: "code_point \<Rightarrow> bool" where
  "is_ascii_letter c \<longleftrightarrow> 65 \<le> c \<and> c \<le> 90 \<or> 97 \<le> c \<and> c \<le> 122"

definition link_name_start :: "code_point \<Rightarrow> bool" where
  "link_name_start c \<longleftrightarrow> is_ascii_letter c \<or> c \<in> set (lit ''_.$'')"

definition foreign_link_name_is_valid :: "chars \<Rightarrow> bool" where
  "foreign_link_name_is_valid name \<longleftrightarrow>
     (case name of
        [] \<Rightarrow> False
      | c # cs \<Rightarrow> link_name_start c \<and> list_all (\<lambda>c. link_name_start c \<or> is_ascii_digit c) cs)"

definition foreign_symbol :: "chars \<Rightarrow> chars parse" where
  "foreign_symbol name =
     if_take (Delim Comma)
       (pwith current_kind (\<lambda>k.
         case string_of k of
           None \<Rightarrow> fail_here (lit ''the optional second `foreign` argument must be a linker symbol string'')
         | Some symbol \<Rightarrow> pseq advance (preturn symbol)))
       (preturn name)"

definition foreign_initializer :: "chars \<Rightarrow> foreign_function parse" where
  "foreign_initializer name =
     pseq advance
       (pseq (expect (Delim LParen) (lit ''`(` after `foreign`''))
         (pbind (expect_ident (lit ''a foreign ABI name'')) (\<lambda>convention.
           if convention \<noteq> lit ''c''
           then fail_here (lit ''unsupported foreign ABI '' @ quoted convention @ lit ''; only `foreign(c)` is available'')
           else
             pbind (foreign_symbol name) (\<lambda>symbol.
               pseq (expect (Delim RParen) (lit ''`)` after `foreign` initializer''))
                 (if foreign_link_name_is_valid symbol then preturn \<lparr>abi = AbiC, link_name = symbol\<rparr>
                  else
                    fail_here (lit ''foreign link name '' @ quoted symbol @
                      lit '' must be a non-empty ASCII linker symbol''))))))"

definition foreign_error :: "declared \<Rightarrow> string option" where
  "foreign_error d =
     (if d_mutable d then Some ''foreign declarations cannot be mutable''
      else if no_groups d
      then Some ''`foreign(...)` defines a function declaration and requires one runtime parameter group''
      else if d_compile_groups d \<noteq> [] then Some ''foreign functions cannot be generic''
      else if length (d_groups d) \<noteq> 1 then Some ''C ABI functions require exactly one runtime parameter group''
      else if d_annotation d = None
      then Some ''foreign functions require an explicit result type before `= foreign(...)`''
      else if d_effect_clause d
      then Some ''foreign declarations acquire `Unsafe` implicitly and cannot declare effects''
      else if d_where d \<noteq> [] then Some ''foreign functions cannot use `where` clauses''
      else None)"

definition foreign_function_item :: "declared \<Rightarrow> item parse" where
  "foreign_function_item d =
     (case foreign_error d of
        Some m \<Rightarrow> fail_here (lit m)
      | None \<Rightarrow>
          pmap
            (\<lambda>f. FunctionItem ((function_of d None)
              \<lparr>fd_foreign := Some f, fd_effects := FunctionEffects True None [] []\<rparr>))
            (foreign_initializer (d_name d)))"

definition effect_item :: "grammar \<Rightarrow> declared \<Rightarrow> item parse" where
  "effect_item g d =
     (if d_mutable d \<or> d_annotation d \<noteq> None \<or> d_boundary d \<or> d_groups d \<noteq> [] \<or> d_where d \<noteq> []
      then fail_here
        (lit ''effect declarations cannot be mutable, annotated, have runtime parameters, or use where clauses'')
      else pseq advance (pmap EffectItem (effect_definition g (d_name d) (d_compile_groups d))))"

definition sort_item :: "declared \<Rightarrow> item parse" where
  "sort_item d =
     (if d_mutable d \<or> d_annotation d \<noteq> None \<or> d_boundary d \<or> \<not> no_groups d \<or> d_where d \<noteq> []
      then fail_here (lit ''sort declarations cannot be mutable, generic, annotated, or have parameters'')
      else
        pseq advance
          (pbind sort_level_literal (\<lambda>level.
            pif (at_token (Delim LBrace))
              (pmap SortItem (sort_definition (d_name d) level))
              (fail_here
                (lit ''abstract sorts use `let name: sort(n)`; an empty defined sort uses `let name = sort(n) {}`'')))))"

definition without_constraints :: "declared \<Rightarrow> string \<Rightarrow> 'a parse \<Rightarrow> 'a parse" where
  "without_constraints d m p = (if d_where d \<noteq> [] then fail_here (lit m) else p)"

definition data_item :: "grammar \<Rightarrow> declared \<Rightarrow> item parse" where
  "data_item g d =
     (if d_mutable d \<or> d_annotation d \<noteq> None \<or> d_boundary d \<or> d_groups d \<noteq> []
      then fail_here (lit ''data declarations cannot be mutable, annotated, or have runtime parameters'')
      else
        pif (at_token (Word KStruct))
          (without_constraints d ''struct declarations cannot use `where` clauses''
            (pmap StructItem (struct_definition g (d_name d) (d_compile_groups d))))
          (pif (at_token (Word KEnum))
            (without_constraints d ''enum declarations cannot use `where` clauses''
              (pmap EnumItem (enum_definition g (d_name d) (d_compile_groups d))))
            (without_constraints d ''trait inheritance constraints are written after `trait`, before `{`''
              (pmap TraitItem (trait_definition g (d_name d) (d_compile_groups d))))))"

definition global_item :: "grammar \<Rightarrow> declared \<Rightarrow> item parse" where
  "global_item g d =
     (if d_boundary d then fail_here (lit ''effect annotations require a function declaration'')
      else pmap (\<lambda>e. GlobalItem (Binding (d_mutable d) (d_name d) (d_annotation d) e None)) (g_expression g True))"

definition transparent_modifier :: "declared \<Rightarrow> bool" where
  "transparent_modifier d \<longleftrightarrow>
     d_groups d = [] \<and> d_annotation d = None \<and>
     (case d_compile_groups d of [[p]] \<Rightarrow> cp_kind p = ParameterModifierSort | _ \<Rightarrow> False)"

definition function_item :: "grammar \<Rightarrow> declared \<Rightarrow> item parse" where
  "function_item g d =
     pif (at_token (Delim LBrace))
       (pmap (\<lambda>e. FunctionItem (function_of d (Some e))) (block g))
       (if transparent_modifier d
        then pmap (\<lambda>e. FunctionItem ((function_of d (Some e))\<lparr>fd_return_type := None\<rparr>)) (g_expression g True)
        else braced_body_required)"

definition item_value :: "grammar \<Rightarrow> declared \<Rightarrow> item parse" where
  "item_value g d =
     pif (at_context_ident (lit ''builtin''))
       (builtin_function d)
       (pif (at_context_ident (lit ''foreign''))
         (foreign_function_item d)
         (pif (at_context_ident (lit ''type''))
           (fail_here
             (lit ''`type` is an abstract sort and cannot appear as a declaration value; write `let name: type`''))
           (pif (at_context_ident (lit ''effect''))
             (effect_item g d)
             (pif (at_context_ident (lit ''domain''))
               (fail_here (lit ''`domain` was removed; declare a finite sort with `let name = sort(1) { ... }`''))
               (pif (at_context_ident (lit ''sort''))
                 (sort_item d)
                 (pif data_declaration_follows
                   (data_item g d)
                   (if no_groups d then global_item g d else function_item g d)))))))"

definition item_initializer :: "grammar \<Rightarrow> declared \<Rightarrow> item parse" where
  "item_initializer g d =
     pseq (expect (Arith Equal) (lit ''`=`''))
       (pif (at_context_ident (lit ''requires''))
         (pbind (body_constraints g d) (\<lambda>d.
           pif (\<lambda>s. at_separator s \<or> at_token Eof s)
             (preturn (FunctionItem (function_of d None)))
             (item_value g d)))
         (item_value g d))"

definition value_declaration :: "grammar \<Rightarrow> declared \<Rightarrow> item parse" where
  "value_declaration g d =
     pbind (optional_result g) (\<lambda>result.
       pbind (annotate g d result) (\<lambda>d.
         pseq
           (before_value d (lit ''colon-style `where` predicates were removed; write `= requires(t is trait) ...`''))
           (pif (has_no_value d)
             (preturn (FunctionItem (function_of d None)))
             (item_initializer g d))))"

definition colon_declaration :: "grammar \<Rightarrow> declared \<Rightarrow> item parse" where
  "colon_declaration g d =
     pif (\<lambda>s. ident_at 1 s = Some (lit ''domain''))
       (fail_here (lit ''`domain` was removed; user code must declare a finite sort with `let name = sort(1) { ... }` because abstract sorts are compiler-owned''))
       (pif (\<lambda>s. ident_at 1 s = Some (lit ''sort'') \<and> d_compile_groups d = [])
         (abstract_sort d)
         (pif (at_offset 1 (Contextual CType))
           (type_declaration g d)
           (pif type_constructor_signature_follows
             (type_constructor_declaration g d)
             (value_declaration g d))))"

definition let_item :: "grammar \<Rightarrow> item parse" where
  "let_item g =
     pseq (expect (Word KLet) (lit ''`let`''))
       (pbind (take_token (Contextual CMut)) (\<lambda>mutable.
         pbind declaration_name (\<lambda>name.
           pbind (declaration_groups g False []) (\<lambda>groups.
             let d = declaration_of mutable name groups in
             if mutable \<and> \<not> no_groups d then fail_here (lit ''`let mut` cannot declare a function'')
             else
               pif (\<lambda>s. d_groups d = [] \<and> at_token (Delim Colon) s)
                 (colon_declaration g d)
                 (value_declaration g d)))))"

definition item_parser :: "grammar \<Rightarrow> item parse" where
  "item_parser g =
     pif (at_token (Word KLet))
       (let_item g)
       (pif (at_token (Word KExtend))
         (pmap ExtendItem (extend_definition g))
         (fail_expected (lit ''`let` or `extend`'')))"

subsection \<open>Imports and aliases\<close>

text \<open>The segments behind dots, counted, in a look ahead at the kinds of the tokens.\<close>

definition dotted_segment :: "token_kind \<Rightarrow> bool" where
  "dotted_segment k \<longleftrightarrow> ident_of k \<noteq> None \<or> k = Contextual CMut \<or> k = Word KSuper"

fun dotted_rest :: "nat \<Rightarrow> token_kind list \<Rightarrow> (nat \<times> token_kind list) option" where
  "dotted_rest n [] = Some (n, [])"
| "dotted_rest n [k] = (if k = Delim Dot then None else Some (n, [k]))"
| "dotted_rest n (k # segment # ks) =
     (if k \<noteq> Delim Dot then Some (n, k # segment # ks)
      else if dotted_segment segment then dotted_rest (Suc n) ks else None)"

definition path_start_kind :: "token_kind \<Rightarrow> bool" where
  "path_start_kind k \<longleftrightarrow> ident_of k \<noteq> None \<or> k = Word KRoot \<or> k = Word KSuper"

definition qualified_start_kind :: "token_kind \<Rightarrow> bool" where
  "qualified_start_kind k \<longleftrightarrow> k = Word KRoot \<or> k = Word KSuper \<or> k = Ident (lit ''self'')"

definition qualified_alias_declaration_follows :: "parser \<Rightarrow> bool" where
  "qualified_alias_declaration_follows s \<longleftrightarrow>
     at_token (Word KLet) s \<and> (ident_at 1 s \<noteq> None \<or> is_at 1 [Contextual CMut] s) \<and>
     at_offset 2 (Arith Equal) s \<and>
     (case kinds_from (position s + 3) s of
        [] \<Rightarrow> False
      | k # ks \<Rightarrow>
          path_start_kind k \<and>
          (case dotted_rest 1 ks of
             None \<Rightarrow> False
           | Some (segments, ks) \<Rightarrow>
               (1 < segments \<or> qualified_start_kind k) \<and>
               (case nth_opt ks 0 of
                  Some k \<Rightarrow> k = Newline \<or> k = Delim Semicolon \<or> k = Eof
                | None \<Rightarrow> False)))"

definition span_between :: "token \<Rightarrow> token \<Rightarrow> source_span" where
  "span_between start final =
     \<lparr>span_line = start_line start, span_column = start_column start, span_end_line = end_line final,
      span_end_column = end_column final\<rparr>"

definition use_between :: "visibility \<Rightarrow> token \<Rightarrow> chars list \<Rightarrow> chars option \<Rightarrow> use_decl parse" where
  "use_between v start path alias =
     pwith previous (\<lambda>final.
       preturn \<lparr>use_visibility = v, use_path = path, use_alias = alias, use_source = Some (span_between start final)\<rparr>)"

definition qualified_alias_declaration :: "visibility \<Rightarrow> use_decl parse" where
  "qualified_alias_declaration v =
     pwith current (\<lambda>start.
       pseq (expect (Word KLet) (lit ''`let`''))
         (pbind (if_take (Contextual CMut) (preturn (lit ''mut'')) (expect_ident (lit ''an alias name''))) (\<lambda>alias.
           pseq (expect (Arith Equal) (lit ''`=` in alias declaration''))
             (pbind (dotted_path (lit ''an alias target path'') (lit ''an alias target path segment after `.`''))
               (\<lambda>path. use_between v start path (Some alias))))))"

definition import_alias :: "chars option parse" where
  "import_alias = pif (at_context_ident (lit ''as'')) (pseq advance (pmap Some expect_import_alias)) (preturn None)"

type_synonym import_group = "use_decl list \<times> chars list"

definition use_member :: "visibility \<Rightarrow> chars list \<Rightarrow> import_group \<Rightarrow> import_group parse" where
  "use_member v prefix_path acc =
     (case acc of
        (declarations, bindings) \<Rightarrow>
          pwith current (\<lambda>start.
            pbind (expect_relative_path_segment (lit ''an import name'')) (\<lambda>member.
              pbind import_alias (\<lambda>alias.
                let binding = (case alias of Some a \<Rightarrow> a | None \<Rightarrow> member) in
                if alias = None \<and> member = lit ''self''
                then fail_here (lit ''import name `self` requires an explicit usable alias'')
                else if binding \<in> set bindings
                then fail_here (lit ''duplicate import binding '' @ quoted binding @ lit '' in import group'')
                else
                  pmap (\<lambda>u. (declarations @ [u], bindings @ [binding]))
                    (use_between v start (prefix_path @ [member]) alias)))))"

definition use_group :: "visibility \<Rightarrow> chars list \<Rightarrow> use_decl list parse" where
  "use_group v prefix_path =
     pseq skip_newlines
       (pif (at_token (Delim RBrace))
         (fail_here (lit ''import groups cannot be empty''))
         (pmap fst
           (comma_fold (use_member v prefix_path) skip_newlines (Delim RBrace) (lit ''`}` after import group'')
             ([], []))))"

text \<open>The path of an import, or the imports of the group that ends it.\<close>

definition use_path_or_group :: "visibility \<Rightarrow> chars \<Rightarrow> (use_decl list + chars list) parse" where
  "use_path_or_group v start =
     ploop
       (\<lambda>path.
         if_take (Delim Dot)
           (if_take (Delim LBrace)
             (pbind (use_group v path) (\<lambda>us. pbreak (Inl us)))
             (pbind (expect_path_continuation path (lit ''an import path segment after `.`''))
               (\<lambda>segment. pcontinue (path @ [segment]))))
           (pbreak (Inr path)))
       [start]"

definition single_use :: "visibility \<Rightarrow> token \<Rightarrow> chars list \<Rightarrow> use_decl list parse" where
  "single_use v start path =
     pbind import_alias (\<lambda>alias.
       if alias = None \<and> List.last path \<in> lit ` {''self'', ''root'', ''super'', ''_''}
       then fail_here (lit ''import path '' @ quoted (join_text (lit ''.'') path) @ lit '' requires an explicit usable alias'')
       else pmap (\<lambda>u. [u]) (use_between v start path alias))"

definition use_declaration :: "visibility \<Rightarrow> use_decl list parse" where
  "use_declaration v =
     pwith current (\<lambda>start.
       pif (at_context_ident (lit ''use''))
         (pseq advance
           (pbind (expect_path_start (lit ''an import path'')) (\<lambda>first.
             pbind (use_path_or_group v first) (\<lambda>r.
               case r of Inl us \<Rightarrow> preturn us | Inr path \<Rightarrow> single_use v start path))))
         (fail_here (lit ''expected `use`'')))"

subsection \<open>Programs\<close>

definition test_function :: "chars \<Rightarrow> expr \<Rightarrow> function_def" where
  "test_function name body =
     \<lparr>fd_name = lit ''$test$'' @ hex_name name, fd_foreign = None, fd_builtin = False, fd_compile_groups = [],
      fd_groups = [[]], fd_return_type = Some SrcUnit,
      fd_effects =
        FunctionEffects False None [SrcNamed (lit ''core.error.throwing'') [SrcNamed (lit ''core.string.string'') []]] [],
      fd_where_predicates = [], fd_body = Some body\<rparr>"

definition test_declaration :: "grammar \<Rightarrow> function_def parse" where
  "test_declaration g =
     pseq advance
       (pseq (expect (Delim LParen) (lit ''`(` after `test`''))
         (pwith current_kind (\<lambda>k.
           case string_of k of
             None \<Rightarrow> fail_here (lit ''test name must be a string literal'')
           | Some name \<Rightarrow>
               if name = [] then fail_here (lit ''test name cannot be empty'')
               else
                 pseq advance
                   (pseq (expect (Delim RParen) (lit ''`)` after test name''))
                     (pif (at_token (Delim LBrace))
                       (pmap (test_function name) (block g))
                       (fail_here (lit ''expected a trailing braced test body'')))))))"

record parsed =
  parsed_items :: "item list"
  parsed_visibilities :: "visibility list"
  parsed_origins :: "item_origin list"
  parsed_uses :: "use_decl list"

definition token_origin :: "token \<Rightarrow> item_origin" where
  "token_origin t =
     default_origin\<lparr>origin_source := Some \<lparr>loc_path = None, loc_line = start_line t, loc_column = start_column t,
       loc_end_line = end_line t, loc_end_column = end_column t\<rparr>\<rparr>"

definition add_item :: "parsed \<Rightarrow> visibility \<Rightarrow> token \<Rightarrow> item \<Rightarrow> parsed" where
  "add_item p v start i =
     p\<lparr>parsed_items := parsed_items p @ [i], parsed_visibilities := parsed_visibilities p @ [v],
       parsed_origins := parsed_origins p @ [token_origin start]\<rparr>"

definition add_uses :: "parsed \<Rightarrow> use_decl list \<Rightarrow> parsed" where
  "add_uses p us = p\<lparr>parsed_uses := parsed_uses p @ us\<rparr>"

definition visible_item :: "grammar \<Rightarrow> parsed \<Rightarrow> visibility \<Rightarrow> parsed parse" where
  "visible_item g p v =
     pif (\<lambda>s. v \<noteq> Private \<and> at_token (Word KExtend) s)
       (fail_here (lit ''`extend` declarations cannot have visibility''))
       (pwith current (\<lambda>start. pmap (add_item p v start) (item_parser g)))"

definition test_item :: "grammar \<Rightarrow> parsed \<Rightarrow> visibility \<Rightarrow> parsed parse" where
  "test_item g p v =
     (if v \<noteq> Private then fail_here (lit ''test declarations cannot have visibility'')
      else pwith current (\<lambda>start. pmap (\<lambda>f. add_item p Private start (FunctionItem f)) (test_declaration g)))"

definition program_item :: "grammar \<Rightarrow> parsed \<Rightarrow> parsed parse" where
  "program_item g p =
     pbind visibility_parser (\<lambda>v.
       pif qualified_alias_declaration_follows
         (pmap (\<lambda>u. add_uses p [u]) (qualified_alias_declaration v))
         (pif (at_context_ident (lit ''use''))
           (pmap (add_uses p) (use_declaration v))
           (pif (at_context_ident (lit ''extern''))
             (fail_here (lit ''grouped `extern` declarations have been removed; use `let name(...): result = foreign(c, \"symbol\")`''))
             (pif (at_context_ident (lit ''test'')) (test_item g p v) (visible_item g p v)))))"

definition program_step :: "grammar \<Rightarrow> parsed \<Rightarrow> parsed parse" where
  "program_step g p =
     pbind (program_item g p) (\<lambda>p.
       pseq
         (pif (\<lambda>s. \<not> at_token Eof s \<and> \<not> at_separator s)
           (fail_here (lit ''expected a newline or `;` after declaration'')) no_skip)
         (pseq skip_separators (preturn p)))"

definition program_items :: "grammar \<Rightarrow> parsed parse" where
  "program_items g =
     pseq skip_separators
       (pwhile (\<lambda>s. \<not> at_token Eof s) (program_step g)
         \<lparr>parsed_items = [], parsed_visibilities = [], parsed_origins = [], parsed_uses = []\<rparr>)"

text \<open>The later passes fail with a message, reported at the end, or change the items.\<close>

definition program_parser :: "grammar \<Rightarrow> (item list \<Rightarrow> chars + item list) \<Rightarrow> program parse" where
  "program_parser g post =
     pbind (program_items g) (\<lambda>p.
       case post (parsed_items p) of
         Inl m \<Rightarrow> fail_here m
       | Inr its \<Rightarrow>
           (case program_with_metadata its (parsed_visibilities p) (parsed_origins p) (parsed_uses p) of
              None \<Rightarrow> pstop Unreachable
            | Some p \<Rightarrow> preturn p))"

definition parse_tokens ::
    "(code_point \<Rightarrow> bool) \<Rightarrow> (item list \<Rightarrow> chars + item list) \<Rightarrow> token list \<Rightarrow> stop + program" where
  "parse_tokens upper post ts =
     (case program_parser (grammar_of upper (length ts)) post (parser_new ts) of
        Inl e \<Rightarrow> Inl e
      | Inr (p, _) \<Rightarrow> Inr p)"

subsection \<open>Source files\<close>

text \<open>The position of an error of the lexer as a byte offset.\<close>

fun source_byte_offset_from :: "nat \<Rightarrow> nat \<Rightarrow> nat \<Rightarrow> nat \<Rightarrow> nat \<Rightarrow> chars \<Rightarrow> nat" where
  "source_byte_offset_from line column l c offset [] = offset"
| "source_byte_offset_from line column l c offset (x # xs) =
     (if l = line \<and> c = column then offset
      else if x = 10 then source_byte_offset_from line column (Suc l) 1 (offset + len_utf8 x) xs
      else source_byte_offset_from line column l (Suc c) (offset + len_utf8 x) xs)"

definition source_byte_offset :: "chars \<Rightarrow> nat \<Rightarrow> nat \<Rightarrow> nat" where
  "source_byte_offset source line column = source_byte_offset_from line column 1 1 0 source"

text \<open>The character at a byte offset that is at the start of one.\<close>

fun char_at_byte :: "nat \<Rightarrow> chars \<Rightarrow> code_point option" where
  "char_at_byte n [] = None"
| "char_at_byte n (x # xs) = (if n = 0 then Some x else char_at_byte (n - len_utf8 x) xs)"

definition lex_message_text :: "lex_message \<Rightarrow> chars" where
  "lex_message_text m =
     (case m of
        ThirdDot \<Rightarrow> lit ''expected a third `.` in parameter expansion''
      | AtSyntax \<Rightarrow>
          lit ''`@` syntax is not supported; use declaration initializers such as `foreign(c, \"symbol\")`''
      | UnexpectedCharacter c \<Rightarrow> lit ''unexpected character '' @ quoted [c]
      | UnterminatedComment \<Rightarrow> lit ''unterminated block comment''
      | IntegerTooLarge \<Rightarrow> lit ''integer literal is too large''
      | ExpectedRegionName \<Rightarrow> lit ''expected a region name after `'' @ [39] @ lit ''`''
      | UnterminatedString \<Rightarrow> lit ''unterminated string literal''
      | UnsupportedEscape c \<Rightarrow> lit ''unsupported string escape '' @ quoted [92, c])"

definition from_lex :: "chars \<Rightarrow> lex_error \<Rightarrow> parse_error" where
  "from_lex source e =
     (let start = source_byte_offset source (error_line e) (error_column e) in
      \<lparr>pe_message = lex_message_text (message e), pe_start_byte = start,
       pe_end_byte = (case char_at_byte start source of Some c \<Rightarrow> start + len_utf8 c | None \<Rightarrow> start),
       pe_line = error_line e, pe_column = error_column e\<rparr>)"

text \<open>Nothing where the lexer would not return; it always does.\<close>

definition parse_source ::
    "unicode \<Rightarrow> (code_point \<Rightarrow> bool) \<Rightarrow> (item list \<Rightarrow> chars + item list) \<Rightarrow> chars \<Rightarrow> (stop + program) option" where
  "parse_source u upper post source =
     (case lex u source of
        None \<Rightarrow> None
      | Some (Inl e) \<Rightarrow> Some (Inl (Failed (from_lex source e)))
      | Some (Inr ts) \<Rightarrow> Some (parse_tokens upper post ts))"

end
