(* ===== verification/Parser_Bounds.thy ===== *)
theory Parser_Bounds
  imports Parser_Program
begin

text \<open>
  A calculus for the methods of the parser on a list of tokens that ends with the end of the file.
  \<open>bounded b ts k M p\<close>: from every position with at most \<open>k\<close> tokens left (and, for \<open>b\<close>, with a token
  that is not the end) the method \<open>p\<close> neither runs out of fuel nor behind the list; an error it reports is at
  a token of the list, and a result \<open>x\<close> leaves at most \<open>M x\<close> tokens.  There is a rule for each
  combinator; they compute \<open>M\<close>.
\<close>

named_theorems bounds

definition closed_tokens :: "token list \<Rightarrow> bool" where
  "closed_tokens ts \<longleftrightarrow> ts \<noteq> [] \<and> kind (List.last ts) = Eof"

definition at_state :: "token list \<Rightarrow> bool \<Rightarrow> nat \<Rightarrow> parser \<Rightarrow> bool" where
  "at_state ts b k s \<longleftrightarrow>
     tokens s = ts \<and> position s < length ts \<and> tokens_left s \<le> k \<and> (b \<longrightarrow> current_kind s \<noteq> Eof)"

definition error_at_token :: "token list \<Rightarrow> parse_error \<Rightarrow> bool" where
  "error_at_token ts e \<longleftrightarrow> (\<exists>t \<in> set ts. e = token_error t (pe_message e))"

definition outcome :: "token list \<Rightarrow> ('a \<Rightarrow> nat) \<Rightarrow> stop + 'a \<times> parser \<Rightarrow> bool" where
  "outcome ts M r \<longleftrightarrow>
     (case r of
        Inl (Failed e) \<Rightarrow> error_at_token ts e
      | Inl Unreachable \<Rightarrow> True
      | Inl _ \<Rightarrow> False
      | Inr (x, s) \<Rightarrow> at_state ts False (M x) s)"

definition bounded :: "bool \<Rightarrow> token list \<Rightarrow> nat \<Rightarrow> ('a \<Rightarrow> nat) \<Rightarrow> 'a parse \<Rightarrow> bool" where
  "bounded b ts k M p \<longleftrightarrow> (closed_tokens ts \<longrightarrow> (\<forall>s. at_state ts b k s \<longrightarrow> outcome ts M (p s)))"

text \<open>The bound of a turn of a loop, that goes on or ends.\<close>

definition turns :: "nat \<Rightarrow> nat \<Rightarrow> 'a + 'b \<Rightarrow> nat" where
  "turns m n r = (case r of Inl _ \<Rightarrow> m | Inr _ \<Rightarrow> n)"

subsection \<open>Facts about bounds\<close>

lemma max_minus [simp]: "max a b - c = max (a - c) (b - (c :: nat))"
  by (simp add: max_def)

lemma turns_simps [simp]: "turns m n (Inl x) = m" "turns m n (Inr y) = n"
  by (simp_all add: turns_def)

lemma turns_le [simp]:
  "m \<le> m' \<Longrightarrow> n \<le> n' \<Longrightarrow> turns m n r \<le> turns m' n' r"
  "0 \<le> turns m n r"
  by (auto simp: turns_def split: sum.splits)

lemma kind_of_matches [simp]:
  "ident_of k = Some n \<longleftrightarrow> k = Ident n"
  "region_of k = Some n \<longleftrightarrow> k = RegionName n"
  "string_of k = Some v \<longleftrightarrow> k = StringLit v"
  "integer_of k = Some w \<longleftrightarrow> k = Integer w"
  by (cases k; auto simp: ident_of_def region_of_def string_of_def integer_of_def)+

lemma region_argument_not_eof [simp]: "region_argument k = Some n \<Longrightarrow> k \<noteq> Eof"
  by (auto simp: region_argument_def)

lemma static_name_not_eof [simp]: "static_name k = Some n \<Longrightarrow> k \<noteq> Eof"
  by (auto simp: static_name_def)

lemma trailing_label_not_eof [simp]: "trailing_label k = Some n \<Longrightarrow> k \<noteq> Eof"
  by (auto simp: trailing_label_def)

lemma declaration_word_not_eof [simp]: "declaration_word k = Some n \<Longrightarrow> k \<noteq> Eof"
  by (auto simp: declaration_word_def)

lemma sort_member_word_not_eof [simp]: "sort_member_word k = Some n \<Longrightarrow> k \<noteq> Eof"
  by (auto simp: sort_member_word_def static_name_def)

lemma variant_word_not_eof [simp]: "variant_word k = Some n \<Longrightarrow> k \<noteq> Eof"
  by (auto simp: variant_word_def)

lemma compound_operators_tokens [simp]: "list_all (\<lambda>(k, _). k \<noteq> Eof) compound_operators"
  by (simp add: compound_operators_def)

lemma matches_eof [simp]: "token_kind_matches Eof k \<longleftrightarrow> k = Eof"
  by (cases k) (auto simp: token_kind_matches_def kind_variant_def)

lemma matches_eof_right: "token_kind_matches k Eof \<longleftrightarrow> k = Eof"
  by (cases k) (auto simp: token_kind_matches_def kind_variant_def)

lemma at_token_eof: "at_token Eof s \<longleftrightarrow> current_kind s = Eof"
  by (simp add: at_token_def matches_eof_right)

text \<open>Conditions that hold only in front of the end.\<close>

definition before_end :: "(parser \<Rightarrow> bool) \<Rightarrow> bool" where
  "before_end c \<longleftrightarrow> (\<forall>s. c s \<longrightarrow> current_kind s \<noteq> Eof)"

lemma before_end_at_token [simp]: "before_end (at_token k) \<longleftrightarrow> k \<noteq> Eof"
proof (cases "k = Eof")
  case True
  have "at_token Eof \<lparr>tokens = [\<lparr>kind = Eof, start_byte = 0, end_byte = 0, start_line = 0, start_column = 0,
      end_line = 0, end_column = 0\<rparr>], position = 0, effect_parameters_in_scope = {}, next_control_binding = 0,
      async_depth = 0, layout = default_layout\<rparr>"
    by (simp add: at_token_def current_kind_def current_def)
  then show ?thesis using True by (auto simp: before_end_def at_token_eof)
next
  case False
  then show ?thesis by (auto simp: before_end_def at_token_def)
qed

lemma before_end_or [simp]: "before_end (\<lambda>s. c s \<or> d s) \<longleftrightarrow> before_end c \<and> before_end d"
  by (auto simp: before_end_def)

lemma before_end_and [simp]:
  "before_end c \<Longrightarrow> before_end (\<lambda>s. c s \<and> d s)"
  "before_end d \<Longrightarrow> before_end (\<lambda>s. c s \<and> d s)"
  by (auto simp: before_end_def)

lemma before_end_conditions [simp]:
  "before_end (at_context_ident name)"
  "before_end (\<lambda>s. trailing_label (current_kind s) = Some label)"
  "before_end (\<lambda>s. token_can_start_bare_call_argument (current_kind s))"
  "before_end at_separator"
  "before_end (\<lambda>s. \<not> at_token Eof s)"
  "before_end group_starts_with_compile_parameter"
  "before_end ident_followed_by_colon"
  "before_end compile_parameter_follows"
  by (auto simp: before_end_def at_context_ident_def trailing_label_def token_can_start_bare_call_argument_def
    at_separator_def at_token_def group_starts_with_compile_parameter_def ident_followed_by_colon_def ident_of_def
    compile_parameter_follows_def region_of_def)

lemma before_end_follows [simp]:
  "before_end successor_universe_follows" "before_end associated_binding_follows"
  "before_end some_named_trailing_closure_follows" "before_end named_trailing_closure_follows"
  "before_end (label_follows excluded)" "before_end callable_boundary"
  "before_end type_constructor_signature_follows" "before_end builtin_follows"
  "before_end qualified_alias_declaration_follows"
  by (auto simp: before_end_def successor_universe_follows_def at_context_ident_def associated_binding_follows_def
    some_named_trailing_closure_follows_def named_trailing_closure_follows_def trailing_label_follows_def
    trailing_label_def colonless_named_trailing_closure_follows_def label_follows_def ident_of_def at_token_def
    callable_boundary_def type_constructor_signature_follows_def builtin_follows_def
    qualified_alias_declaration_follows_def)

subsection \<open>The rules\<close>

lemma at_state_le: "at_state ts b j s \<Longrightarrow> j \<le> k \<Longrightarrow> at_state ts False k s"
  by (auto simp: at_state_def)

lemma outcome_simps [simp]:
  "outcome ts M (Inl (Failed e)) \<longleftrightarrow> error_at_token ts e"
  "outcome ts M (Inl Unreachable)" "\<not> outcome ts M (Inl OutOfBounds)" "\<not> outcome ts M (Inl OutOfFuel)"
  "outcome ts M (Inr (x, s)) \<longleftrightarrow> at_state ts False (M x) s"
  by (simp_all add: outcome_def)

lemma outcome_error: "outcome ts M (Inl e) \<longleftrightarrow> outcome ts N (Inl e)"
  by (cases e) simp_all

lemma outcome_weaken: "outcome ts M r \<Longrightarrow> (\<And>x. M x \<le> N x) \<Longrightarrow> outcome ts N r"
  using outcome_error [of ts M _ N] at_state_le by (cases r) fastforce+

lemma outcome_pbind:
  assumes "outcome ts M (p s)" "\<And>x s. at_state ts False (M x) s \<Longrightarrow> outcome ts N (f x s)"
  shows "outcome ts N (pbind p f s)"
  using assms outcome_error [of ts M _ N] by (cases "p s") (auto simp: pbind_def)

lemma bounded_weaken:
  "bounded b ts k M p \<Longrightarrow> (\<And>x. M x \<le> N x) \<Longrightarrow> bounded b ts k N p"
  using outcome_weaken [of ts M _ N] by (simp add: bounded_def)

lemma bounded_known: "bounded True ts k M p \<Longrightarrow> b \<Longrightarrow> bounded b ts k M p"
  by simp

lemma bounded_any: "bounded False ts k M p \<Longrightarrow> bounded b ts k M p"
  by (auto simp: bounded_def at_state_def)

lemma bounded_less: "bounded b ts k M p \<Longrightarrow> j \<le> k \<Longrightarrow> bounded b ts j M p"
  by (auto simp: bounded_def at_state_def)

lemma bounded_preturn [bounds]: "bounded b ts k (\<lambda>_. k) (preturn x)"
  by (auto simp: bounded_def at_state_def outcome_def preturn_def)

lemma bounded_pcontinue [bounds]: "bounded b ts k (turns k 0) (pcontinue x)"
  by (auto simp: bounded_def at_state_def outcome_def pcontinue_def preturn_def)

lemma bounded_pbreak [bounds]: "bounded b ts k (turns 0 k) (pbreak x)"
  by (auto simp: bounded_def at_state_def outcome_def pbreak_def preturn_def)

lemma bounded_pbind [bounds]:
  assumes "bounded b ts k M p" "\<And>x. bounded False ts (M x) N (f x)"
  shows "bounded b ts k N (pbind p f)"
  using assms outcome_pbind [of ts M p _ N f] by (simp add: bounded_def)

lemma bounded_pseq [bounds]:
  assumes "bounded b ts k (\<lambda>_. m) p" "bounded False ts m N q"
  shows "bounded b ts k N (pseq p q)"
  unfolding pseq_def by (rule bounded_pbind [OF assms(1)]) (rule assms(2))

lemma bounded_pmap [bounds]: "bounded b ts k (\<lambda>_. m) p \<Longrightarrow> bounded b ts k (\<lambda>_. m) (pmap f p)"
  unfolding pmap_def by (rule bounded_pbind [OF _ bounded_preturn])

lemma bounded_pnext [bounds]: "bounded b ts k (\<lambda>_. m) p \<Longrightarrow> bounded b ts k (turns m 0) (pnext p)"
  unfolding pnext_def pmap_def by (rule bounded_pbind [OF _ bounded_pcontinue [unfolded pcontinue_def]])

lemma bounded_pif:
  assumes "bounded (b \<or> before_end c) ts k M p" "bounded b ts k N q"
  shows "bounded b ts k (\<lambda>x. max (M x) (N x)) (pif c p q)"
proof -
  have "bounded (b \<or> before_end c) ts k (\<lambda>x. max (M x) (N x)) p" by (rule bounded_weaken [OF assms(1)]) simp
  moreover have "bounded b ts k (\<lambda>x. max (M x) (N x)) q" by (rule bounded_weaken [OF assms(2)]) simp
  ultimately show ?thesis by (auto simp: bounded_def pif_def at_state_def before_end_def)
qed

lemma bounded_no_token_follows:
  assumes "b" "bounded b ts k M q"
  shows "bounded b ts k M (pif no_token_follows p q)"
proof -
  have "\<not> no_token_follows s" if "closed_tokens ts" "at_state ts b k s" for s
  proof
    assume "no_token_follows s"
    then have "position s = length ts - 1"
      using that(2) by (auto simp: no_token_follows_def kind_of_def nth_opt_def at_state_def split: if_splits)
    then have "current s = List.last ts"
      using that by (simp add: current_def at_state_def last_conv_nth closed_tokens_def)
    then show False using that assms(1) by (simp add: closed_tokens_def at_state_def current_kind_def)
  qed
  then show ?thesis using assms(2) by (auto simp: bounded_def pif_def)
qed

lemmas [bounds] = bounded_no_token_follows bounded_pif

lemma current_in: "at_state ts b k s \<Longrightarrow> current s \<in> set ts"
  by (auto simp: at_state_def current_def)

lemma bounded_pwith_any: "(\<And>x. bounded b ts k M (f x)) \<Longrightarrow> bounded b ts k M (pwith h f)"
  by (auto simp: bounded_def pwith_def)

lemma bounded_pwith_current:
  assumes "\<And>t. t \<in> set ts \<Longrightarrow> bounded (b \<or> kind t \<noteq> Eof) ts k M (f t)"
  shows "bounded b ts k M (pwith current f)"
  using assms current_in by (fastforce simp: bounded_def pwith_def at_state_def current_kind_def)

lemma bounded_pwith_current_kind:
  assumes "\<And>t. bounded (b \<or> t \<noteq> Eof) ts k M (f t)"
  shows "bounded b ts k M (pwith current_kind f)"
  using assms by (fastforce simp: bounded_def pwith_def at_state_def)

lemma bounded_pwith_previous:
  assumes "\<And>t. t \<in> set ts \<Longrightarrow> bounded b ts k M (f t)"
  shows "bounded b ts k M (pwith previous f)"
proof -
  have "previous s \<in> set ts" if "at_state ts b k s" for s
    using that by (auto simp: at_state_def previous_def)
  then show ?thesis using assms by (fastforce simp: bounded_def pwith_def)
qed

lemma bounded_pwith_modifier:
  assumes "\<And>m. bounded (b \<or> m \<noteq> None) ts k M (f m)"
  shows "bounded b ts k M (pwith (modifier_at allowed) f)"
proof -
  have "at_state ts (b \<or> modifier_at allowed s \<noteq> None) k s" if "at_state ts b k s" for s
    using that by (auto simp: at_state_def modifier_at_def split: option.splits if_splits)
  then show ?thesis using assms by (fastforce simp: bounded_def pwith_def)
qed

lemma operator_not_eof:
  assumes "operator_at table s = Some x" "list_all (\<lambda>(k, _). k \<noteq> Eof) table"
  shows "current_kind s \<noteq> Eof"
  using assms by (auto simp: operator_at_def at_token_def find_Some_iff list_all_length)

lemma bounded_pwith_operator:
  assumes "list_all (\<lambda>(k, _). k \<noteq> Eof) table" "\<And>x. bounded (b \<or> x \<noteq> None) ts k M (f x)"
  shows "bounded b ts k M (pwith (operator_at table) f)"
proof -
  have "at_state ts (b \<or> operator_at table s \<noteq> None) k s" if "at_state ts b k s" for s
    using that operator_not_eof [OF _ assms(1), of s] by (auto simp: at_state_def)
  then show ?thesis using assms(2) by (fastforce simp: bounded_def pwith_def)
qed

text \<open>Behind a position the parser may go back to it.\<close>

lemma bounded_pwith_position:
  assumes "\<And>i. i < length ts \<Longrightarrow> length ts - i \<le> k \<Longrightarrow> bounded b ts k (M i) (f i)"
    and "\<And>i x. i < length ts \<Longrightarrow> length ts - i \<le> k \<Longrightarrow> M i x \<le> N x"
  shows "bounded b ts k N (pwith position f)"
proof -
  have "bounded b ts k N (f i)" if "i < length ts" "length ts - i \<le> k" for i
    by (rule bounded_weaken [OF assms(1) [OF that] assms(2) [OF that]])
  then show ?thesis by (auto simp: bounded_def pwith_def at_state_def tokens_left_def)
qed

lemma bounded_rewind [bounds]: "i < length ts \<Longrightarrow> bounded b ts k (\<lambda>_. length ts - i) (rewind i)"
  by (auto simp: bounded_def rewind_def pupdate_def outcome_def at_state_def tokens_left_def)

lemmas [bounds] = bounded_pwith_modifier bounded_pwith_operator bounded_pwith_previous bounded_pwith_current_kind
  bounded_pwith_current

lemma bounded_pupdate [bounds]:
  "(\<And>s. tokens (f s) = tokens s \<and> position (f s) = position s) \<Longrightarrow> bounded b ts k (\<lambda>_. k) (pupdate f)"
  by (auto simp: bounded_def pupdate_def outcome_def at_state_def tokens_left_def)

lemma bounded_fail_at [bounds]: "t \<in> set ts \<Longrightarrow> bounded b ts k (\<lambda>_. 0) (fail_at t m)"
  by (auto simp: bounded_def fail_at_def pstop_def outcome_def error_at_token_def token_error_def)

lemma bounded_fail_here [bounds]: "bounded b ts k (\<lambda>_. 0) (fail_here m)"
  unfolding fail_here_def by (rule bounded_pwith_current) (rule bounded_fail_at)

lemma bounded_fail_expected [bounds]: "bounded b ts k (\<lambda>_. 0) (fail_expected what)"
  unfolding fail_expected_def by (rule bounded_pwith_current) (rule bounded_fail_at)

lemma bounded_unreachable [bounds]: "bounded b ts k (\<lambda>_. 0) (pstop Unreachable)"
  by (simp add: bounded_def pstop_def outcome_def)

lemma advance_outcome:
  assumes "closed_tokens ts" "at_state ts b k s"
  shows "outcome ts (\<lambda>_. if b then k - 1 else k) (advance s)"
proof (cases "current_kind s = Eof")
  case True
  then show ?thesis using assms(2) by (auto simp: advance_def at_token_eof outcome_def at_state_def)
next
  case False
  have "position s + 1 < length ts"
  proof (rule ccontr)
    assume "\<not> ?thesis"
    then have "position s = length ts - 1" using assms(2) by (auto simp: at_state_def)
    then show False
      using False assms by (auto simp: current_kind_def current_def at_state_def closed_tokens_def last_conv_nth)
  qed
  then show ?thesis
    using False assms(2) by (auto simp: advance_def at_token_eof outcome_def at_state_def tokens_left_def)
qed

lemma bounded_advance: "b \<Longrightarrow> bounded b ts k (\<lambda>_. k - 1) advance"
  using advance_outcome [of ts b k] by (auto simp: bounded_def)

lemma bounded_advance_any: "bounded b ts k (\<lambda>_. k) advance"
  by (rule bounded_any) (use advance_outcome [of ts False k] in \<open>auto simp: bounded_def\<close>)

subsection \<open>Cases\<close>

lemma bounded_If [bounds]:
  "(c \<Longrightarrow> bounded b ts k M p) \<Longrightarrow> (\<not> c \<Longrightarrow> bounded b ts k N q) \<Longrightarrow>
   bounded b ts k (\<lambda>x. max (M x) (N x)) (if c then p else q)"
  by (cases c) (auto elim: bounded_weaken)

lemma bounded_Let [bounds]: "bounded b ts k M (f x) \<Longrightarrow> bounded b ts k M (Let x f)"
  by simp

lemma bounded_option [bounds]:
  "(x = None \<Longrightarrow> bounded b ts k M p) \<Longrightarrow> (\<And>y. x = Some y \<Longrightarrow> bounded b ts k N (f y)) \<Longrightarrow>
   bounded b ts k (\<lambda>x. max (M x) (N x)) (case x of None \<Rightarrow> p | Some y \<Rightarrow> f y)"
  by (cases x) (auto elim: bounded_weaken)

lemma bounded_prod [bounds]:
  "(\<And>y z. x = (y, z) \<Longrightarrow> bounded b ts k M (f y z)) \<Longrightarrow> bounded b ts k M (case x of (y, z) \<Rightarrow> f y z)"
  by (cases x) simp

lemma bounded_sum [bounds]:
  "(\<And>y. x = Inl y \<Longrightarrow> bounded b ts k M (p y)) \<Longrightarrow> (\<And>y. x = Inr y \<Longrightarrow> bounded b ts k N (f y)) \<Longrightarrow>
   bounded b ts k (\<lambda>x. max (M x) (N x)) (case x of Inl y \<Rightarrow> p y | Inr y \<Rightarrow> f y)"
  by (cases x) (auto elim: bounded_weaken)

lemma bounded_list [bounds]:
  "(x = [] \<Longrightarrow> bounded b ts k M p) \<Longrightarrow> (\<And>y ys. x = y # ys \<Longrightarrow> bounded b ts k N (f y ys)) \<Longrightarrow>
   bounded b ts k (\<lambda>x. max (M x) (N x)) (case x of [] \<Rightarrow> p | y # ys \<Rightarrow> f y ys)"
  by (cases x) (auto elim: bounded_weaken)

subsection \<open>Loops\<close>

lemma pgo_outcome:
  fixes body :: "'a \<Rightarrow> ('a + 'b) parse"
  assumes body: "\<And>x j. j \<le> k \<Longrightarrow> bounded False ts j (turns (j - 1) (j - c)) (body x)"
    and "closed_tokens ts" "at_state ts False n s" "tokens_left s \<le> k"
  shows "outcome ts (\<lambda>_. tokens_left s - c) (pgo n body x s)"
  using assms(3,4)
proof (induction n arbitrary: x s)
  case 0
  then show ?case by (auto simp: at_state_def tokens_left_def)
next
  case (Suc n x s)
  let ?j = "tokens_left s"
  have "at_state ts False ?j s" using Suc.prems by (simp add: at_state_def)
  then have turn: "outcome ts (turns (?j - 1) (?j - c)) (body x s)"
    using body [OF Suc.prems(2)] assms(2) by (simp add: bounded_def)
  show ?case unfolding pgo.simps
  proof (rule outcome_pbind [where p = "body x" and s = s, OF turn])
    fix r :: "'a + 'b" and s' assume s': "at_state ts False (turns (?j - 1) (?j - c) r) s'"
    show "outcome ts (\<lambda>_. ?j - c) ((case r of Inl x \<Rightarrow> pgo n body x | Inr y \<Rightarrow> preturn y) s')"
    proof (cases r)
      case (Inl x')
      have left: "tokens_left s' \<le> ?j - 1" using s' Inl by (simp add: at_state_def)
      have "at_state ts False n s'"
        using s' Inl Suc.prems(1) left by (auto simp: at_state_def)
      then have "outcome ts (\<lambda>_. tokens_left s' - c) (pgo n body x' s')"
        by (rule Suc.IH) (use left Suc.prems(2) in linarith)
      then show ?thesis unfolding Inl sum.case by (rule outcome_weaken) (use left in linarith)
    next
      case (Inr y)
      then show ?thesis using s' by (simp add: preturn_def)
    qed
  qed
qed

lemma bounded_ploop:
  assumes body: "\<And>x j. j \<le> k \<Longrightarrow> bounded False ts j (M x j) (body x)"
    and turn: "\<And>x j r. j \<le> k \<Longrightarrow> M x j r \<le> turns (j - 1) (j - c) r"
  shows "bounded b ts k (\<lambda>_. k - c) (ploop body x)"
proof -
  have "outcome ts (\<lambda>_. k - c) (ploop body x s)" if "closed_tokens ts" "at_state ts False k s" for s
  proof -
    have "outcome ts (\<lambda>_. tokens_left s - c) (pgo (Suc (tokens_left s)) body x s)"
    proof (rule pgo_outcome [of k, OF _ that(1)])
      fix x j assume "j \<le> k"
      show "bounded False ts j (turns (j - 1) (j - c)) (body x)"
        by (rule bounded_weaken [OF body [OF \<open>j \<le> k\<close>] turn [OF \<open>j \<le> k\<close>]])
    qed (use that(2) in \<open>simp_all add: at_state_def\<close>)
    moreover have "tokens_left s - c \<le> k - c" using that(2) by (simp add: at_state_def diff_le_mono)
    ultimately show ?thesis unfolding ploop_def pwith_def by (rule outcome_weaken)
  qed
  then have "bounded False ts k (\<lambda>_. k - c) (ploop body x)" unfolding bounded_def by blast
  then show ?thesis by (rule bounded_any)
qed

text \<open>A loop that may end at once, and one that does not end without a token.\<close>

lemmas bounded_ploop_any = bounded_ploop [where c = 0, unfolded diff_zero]
lemmas bounded_ploop_some = bounded_ploop [where c = 1]

lemma bounded_pwhile [bounds]:
  assumes "\<And>x j. j \<le> k \<Longrightarrow> bounded (before_end c) ts j (\<lambda>_. m j) (body x)" "\<And>j. j \<le> k \<Longrightarrow> m j \<le> j - 1"
  shows "bounded b ts k (\<lambda>_. k) (pwhile c body x)"
  unfolding pwhile_def
proof (rule bounded_ploop_any)
  fix x j assume "j \<le> k"
  have "bounded (False \<or> before_end c) ts j (turns (m j) 0) (pnext (body x))"
    using bounded_pnext [OF assms(1) [OF \<open>j \<le> k\<close>]] by simp
  then show "bounded False ts j (\<lambda>r. max (turns (m j) 0 r) (turns 0 j r)) (pif c (pnext (body x)) (pbreak x))"
    by (rule bounded_pif [OF _ bounded_pbreak])
next
  fix j and r :: "'b + 'b" assume "j \<le> k"
  then show "max (turns (m j) 0 r) (turns 0 j r) \<le> turns (j - 1) j r"
    using assms(2) [of j] by (cases r) auto
qed

end
