(* ===== verification/Parser_Total.thy ===== *)
theory Parser_Total
  imports Parser_Bounds
begin

text \<open>
  Every method of the parser is bounded.  The recursion of the methods is a contract, the locale
  \<open>grammar_contract\<close>: with at most \<open>K\<close> tokens left each entry of the grammar is bounded and takes a token.  The
  methods are shown bounded inside it, and \<open>grammar_of\<close> keeps the contract for one token more with each unit of fuel.
\<close>

declare bounded_advance [bounds] bounded_pwith_any [bounds]

subsection \<open>Cases of the data\<close>

lemma bounded_function_type [bounds]:
  assumes "\<And>gs e r. x = SrcFunction gs e r \<Longrightarrow> bounded b ts k M (f gs e r)" "bounded b ts k N q"
  shows "bounded b ts k (\<lambda>y. max (M y) (N y)) (case x of SrcFunction gs e r \<Rightarrow> f gs e r | _ \<Rightarrow> q)"
  using assms by (cases x) (auto elim: bounded_weaken)

lemma bounded_named_source [bounds]:
  assumes "\<And>name ts'. x = SrcNamed name ts' \<Longrightarrow> bounded b ts k M (f name ts')" "bounded b ts k N q"
  shows "bounded b ts k (\<lambda>y. max (M y) (N y)) (case x of SrcNamed name ts' \<Rightarrow> f name ts' | _ \<Rightarrow> q)"
  using assms by (cases x) (auto elim: bounded_weaken)

lemma bounded_closure_case [bounds]:
  assumes "\<And>ps e. x = Closure ps e \<Longrightarrow> bounded b ts k M (f ps e)" "bounded b ts k N q"
  shows "bounded b ts k (\<lambda>y. max (M y) (N y)) (case x of Closure ps e \<Rightarrow> f ps e | _ \<Rightarrow> q)"
  using assms by (cases x) (auto elim: bounded_weaken)

subsection \<open>The primitives\<close>

lemma bounded_advance_twice:
  assumes "b" "bounded False ts (k - 1) M p"
  shows "bounded b ts k M (pseq advance (pseq advance p))"
  by (intro bounded_pseq [OF bounded_advance] bounded_pseq [OF bounded_advance_any] assms)


lemma bounded_if_take [bounds]:
  assumes "c \<noteq> Eof" "bounded False ts (k - 1) M p" "bounded b ts k N q"
  shows "bounded b ts k (\<lambda>x. max (M x) (N x)) (if_take c p q)"
  unfolding if_take_def
proof (rule bounded_pif)
  show "bounded (b \<or> before_end (at_token c)) ts k M (pseq advance p)"
    by (intro bounded_pseq [OF bounded_advance] assms(2)) (use assms(1) in simp)
qed (rule assms(3))

lemma bounded_take_token [bounds]:
  "c \<noteq> Eof \<Longrightarrow> bounded b ts k (\<lambda>_. k) (take_token c)"
  unfolding take_token_def by (rule bounded_weaken, (rule bounds | simp)+)

lemma bounded_expect [bounds]:
  "c \<noteq> Eof \<Longrightarrow> bounded b ts k (\<lambda>_. k - 1) (expect c what)"
  unfolding expect_def by (rule bounded_weaken, (rule bounds | simp)+)

lemma bounded_no_skip [bounds]:
  "bounded b ts k (\<lambda>_. k) no_skip"
  unfolding no_skip_def by (rule bounded_weaken, (rule bounds | simp)+)

lemma bounded_skip_separators [bounds]:
  "bounded b ts k (\<lambda>_. k) skip_separators"
  unfolding skip_separators_def by (rule bounded_weaken, (rule bounds | simp)+)

lemma bounded_skip_newlines [bounds]:
  "bounded b ts k (\<lambda>_. k) skip_newlines"
  unfolding skip_newlines_def by (rule bounded_weaken, (rule bounds | simp)+)

lemma bounded_take_newlines_if_followed_by [bounds]:
  "bounded b ts k (\<lambda>_. k) (take_newlines_if_followed_by ks)"
  unfolding take_newlines_if_followed_by_def
  by (rule bounded_pwith_position, (rule bounds | simp)+)

lemma bounded_comma_fold [bounds]:
  assumes "close \<noteq> Eof" "\<And>x j. j \<le> k \<Longrightarrow> bounded False ts j (\<lambda>_. m j) (step x)"
    and "\<And>j. j \<le> k \<Longrightarrow> m j \<le> j - 1" "\<And>j. j \<le> k \<Longrightarrow> bounded False ts j (\<lambda>_. j) skip"
  shows "bounded b ts k (\<lambda>_. k - 1) (comma_fold step skip close what x)"
  unfolding comma_fold_def
proof (rule bounded_ploop_some)
  fix x j assume j: "j \<le> k"
  have step: "bounded False ts j (\<lambda>_. j - 1) (step x)"
    by (rule bounded_weaken [OF assms(2) [OF j] assms(3) [OF j]])
  have skip: "bounded False ts (j - 1) (\<lambda>_. j - 1) skip" "bounded False ts (j - 1 - 1) (\<lambda>_. j - 1 - 1) skip"
    using j by (auto intro!: assms(4))
  show "bounded False ts j (turns (j - 1) (j - 1))
      (pbind (step x) (\<lambda>x. if_take (Delim Comma)
        (pseq skip (if_take close (pbreak x) (pcontinue x)))
        (pseq skip (pseq (expect close what) (pbreak x)))))"
    using assms(1) by - (rule bounded_weaken, (rule bounds step skip | simp)+)
qed simp

lemma bounded_comma_list [bounds]:
  assumes "close \<noteq> Eof" "\<And>j. j \<le> k \<Longrightarrow> bounded False ts j (\<lambda>_. m j) element"
    and "\<And>j. j \<le> k \<Longrightarrow> m j \<le> j - 1" "\<And>j. j \<le> k \<Longrightarrow> bounded False ts j (\<lambda>_. j) skip"
  shows "bounded b ts k (\<lambda>_. k - 1) (comma_list element skip close what)"
  unfolding comma_list_def
  by (rule bounded_comma_fold [OF assms(1) bounded_pmap [OF assms(2)] assms(3,4)])

lemma bounded_expect_ident [bounds]:
  "bounded b ts k (\<lambda>_. k - 1) (expect_ident what)"
  unfolding expect_ident_def by (rule bounded_weaken, (rule bounds | simp)+)

lemma bounded_expect_path_start [bounds]:
  "bounded b ts k (\<lambda>_. k - 1) (expect_path_start what)"
  unfolding expect_path_start_def by (rule bounded_pwith_current_kind, simp split: token_kind.split keyword_token.split, intro conjI allI impI; (rule bounded_weaken, (rule bounds | simp)+))

lemma bounded_expect_relative_path_segment [bounds]:
  "bounded b ts k (\<lambda>_. k - 1) (expect_relative_path_segment what)"
  unfolding expect_relative_path_segment_def by (rule bounded_pwith_current, simp add: Let_def split: token_kind.split contextual.split, intro conjI allI impI; (rule bounded_weaken, (rule bounds | simp)+))

lemma bounded_expect_path_continuation [bounds]:
  "bounded b ts k (\<lambda>_. k - 1) (expect_path_continuation path what)"
  unfolding expect_path_continuation_def by (rule bounded_weaken, (rule bounds | simp)+)

lemma bounded_expect_import_alias [bounds]:
  "bounded b ts k (\<lambda>_. k - 1) expect_import_alias"
  unfolding expect_import_alias_def by (rule bounded_weaken, (rule bounds | simp)+)

lemma bounded_path_from [bounds]:
  "bounded b ts k (\<lambda>_. k) (path_from what path)"
  unfolding path_from_def by (rule bounded_weaken, (rule bounds | simp)+)

lemma bounded_dotted_path [bounds]:
  "bounded b ts k (\<lambda>_. k - 1) (dotted_path start what)"
  unfolding dotted_path_def by (rule bounded_weaken, (rule bounds | simp)+)

subsection \<open>Types\<close>

lemma bounded_argument_label [bounds]:
  "bounded b ts k (\<lambda>_. k) (argument_label excluded what colon)"
  unfolding argument_label_def by (rule bounded_weaken, (rule bounds | simp)+)

lemma bounded_effect_path [bounds]:
  "bounded b ts k (\<lambda>_. k - 1) effect_path"
  unfolding effect_path_def by (rule bounded_weaken, (rule bounds | simp)+)

lemma bounded_merge_function_effects [bounds]:
  "bounded b ts k (\<lambda>_. k) (merge_function_effects outer inner)"
  unfolding merge_function_effects_def by (rule bounded_weaken, (rule bounds | simp)+)

lemma bounded_successor_universe [bounds]:
  "b \<Longrightarrow> bounded b ts k (\<lambda>_. k - 1) successor_universe"
  unfolding successor_universe_def by (rule bounded_weaken, (rule bounded_advance_twice bounds | simp)+)

lemma bounded_optional_region [bounds]:
  "bounded b ts k (\<lambda>_. k) optional_region"
  unfolding optional_region_def by (rule bounded_weaken, (rule bounds | simp)+)

lemma bounded_borrow_access [bounds]:
  "bounded b ts k (\<lambda>_. k - 1) borrow_access"
  unfolding borrow_access_def by (rule bounded_weaken, (rule bounds | simp)+)

lemma bounded_borrow_region [bounds]:
  "bounded b ts k (\<lambda>_. k) borrow_region"
  unfolding borrow_region_def by (rule bounded_weaken, (rule bounds | simp)+)

lemma bounded_optional_borrow_arguments [bounds]:
  "bounded b ts k (\<lambda>_. k) optional_borrow_arguments"
  unfolding optional_borrow_arguments_def by (rule bounded_weaken, (rule bounds | simp)+)

lemma bounded_parenthesized_type [bounds]:
  "bounded b ts k (\<lambda>_. k) (parenthesized_type groups comma)"
  unfolding parenthesized_type_def by (rule bounded_weaken, (rule bounds | simp)+)

lemma bounded_mixed_type_arguments [bounds]:
  "bounded b ts k (\<lambda>_. 0) mixed_type_arguments"
  unfolding mixed_type_arguments_def by (rule bounded_weaken, (rule bounds | simp)+)

lemma bounded_skip_label [bounds]:
  "bounded b ts k (\<lambda>_. k) (skip_label l)"
  unfolding skip_label_def by (rule bounded_weaken, rule bounded_pif, rule bounded_pseq, rule bounded_advance_any, rule bounded_advance_any, (rule bounds | simp)+)

lemma bounded_optional_comma [bounds]:
  "bounded b ts k (\<lambda>_. k) optional_comma"
  unfolding optional_comma_def by (rule bounded_weaken, (rule bounds | simp)+)

subsection \<open>Parameters\<close>

lemma bounded_level_out_of_range [bounds]:
  "t \<in> set ts \<Longrightarrow> bounded b ts k (\<lambda>_. 0) (level_out_of_range t)"
  unfolding level_out_of_range_def by (rule bounded_weaken, (rule bounds | simp)+)

lemma bounded_level_zero [bounds]:
  "t \<in> set ts \<Longrightarrow> bounded b ts k (\<lambda>_. 0) (level_zero t)"
  unfolding level_zero_def by (rule bounded_weaken, (rule bounds | simp)+)

lemma bounded_level_value [bounds]:
  assumes "t \<in> set ts" "\<And>l. bounded b ts k M (f l)"
  shows "bounded b ts k M (level_value t v f)"
  unfolding level_value_def by (rule bounded_weaken, (rule bounds assms | simp)+)

lemma bounded_close_sort_level [bounds]:
  "b \<Longrightarrow> bounded b ts k (\<lambda>_. k - 1) (close_sort_level l)"
  unfolding close_sort_level_def by (rule bounded_weaken, (rule bounds | simp)+)

lemma bounded_sort_level_literal [bounds]:
  "bounded b ts k (\<lambda>_. k - 1) sort_level_literal"
  unfolding sort_level_literal_def by (rule bounded_weaken, (rule bounds | simp)+)

lemma bounded_compile_sort_level [bounds]:
  "bounded b ts k (\<lambda>_. k - 1) compile_sort_level"
  unfolding compile_sort_level_def
proof (rule bounded_pseq [OF bounded_expect bounded_pwith_current])
  fix t assume t: "t \<in> set ts"
  show "bounded (False \<or> kind t \<noteq> Eof) ts (k - 1) (\<lambda>_. k - 1)
      (case kind t of
         Integer v \<Rightarrow> level_value t v (\<lambda>level. close_sort_level (LiteralLevel level))
       | Ident name \<Rightarrow> close_sort_level (ParameterLevel name)
       | _ \<Rightarrow> fail_at t (lit ''sort level must be a positive integer literal or a compile-time parameter''))"
    by (cases "kind t"; simp only: token_kind.case; (rule bounded_weaken, (rule bounds | simp add: t)+))
qed simp

lemma bounded_reserved_parameter_name [bounds]:
  "t \<in> set ts \<Longrightarrow> bounded b ts k (\<lambda>_. 0) (reserved_parameter_name t name what)"
  unfolding reserved_parameter_name_def by (rule bounded_weaken, (rule bounds | simp)+)

lemma bounded_static_region_redeclared [bounds]:
  "t \<in> set ts \<Longrightarrow> bounded b ts k (\<lambda>_. 0) (static_region_redeclared t)"
  unfolding static_region_redeclared_def by (rule bounded_weaken, (rule bounds | simp)+)

lemma bounded_constructor_result_sort [bounds]:
  "bounded b ts k (\<lambda>_. k - 1) (constructor_result_sort groups)"
  unfolding constructor_result_sort_def by (rule bounded_weaken, (rule bounds | simp)+)

lemma bounded_region_sort [bounds]:
  "t \<in> set ts \<Longrightarrow> bounded b ts k (\<lambda>_. k) (region_sort t name)"
  unfolding region_sort_def by (rule bounded_weaken, (rule bounds | simp)+)

lemma bounded_compile_parameter_default_name [bounds]:
  "bounded b ts k (\<lambda>_. k - 1) (compile_parameter_default_name what)"
  unfolding compile_parameter_default_name_def by (rule bounded_weaken, (rule bounds | simp)+)

lemma bounded_parameter_default [bounds]:
  "bounded b ts k (\<lambda>_. k) (parameter_default s)"
  unfolding parameter_default_def by (cases s; simp; (rule bounded_weaken, (rule bounds | simp)+))

lemma bounded_compile_parameter_default [bounds]:
  "bounded b ts k (\<lambda>_. k) (compile_parameter_default s)"
  unfolding compile_parameter_default_def by (rule bounded_weaken, (rule bounds | simp)+)

lemma bounded_push_parameter_group [bounds]:
  "bounded b ts k (\<lambda>_. k) push_parameter_group"
  unfolding push_parameter_group_def by (rule bounded_weaken, (rule bounds | simp)+)

lemma bounded_parameter_pack [bounds]:
  "bounded b ts k (\<lambda>_. k - 1) parameter_pack"
  unfolding parameter_pack_def by (rule bounded_weaken, (rule bounds | simp)+)

lemma bounded_mixed_parameters [bounds]:
  "bounded b ts k (\<lambda>_. 0) mixed_parameters"
  unfolding mixed_parameters_def by (rule bounded_weaken, (rule bounds | simp)+)

lemma bounded_parameter_modifiers [bounds]:
  "bounded b ts k (\<lambda>_. k) (parameter_modifiers allowed)"
  unfolding parameter_modifiers_def by (rule bounded_ploop_any, (rule bounds | simp)+)

lemma bounded_validate_receiver_groups [bounds]:
  "bounded b ts k (\<lambda>_. k) (validate_receiver_groups name groups)"
  unfolding validate_receiver_groups_def by (rule bounded_weaken, (rule bounds | simp)+)

lemma bounded_push_repeated_group [bounds]:
  "bounded b ts k (\<lambda>_. k) push_repeated_group"
  unfolding push_repeated_group_def by (rule bounded_weaken, (rule bounds | simp)+)

subsection \<open>Records of the layout, labels and counters\<close>

lemma bounded_push_match_arm [bounds]:
  "bounded b ts k (\<lambda>_. k) (push_match_arm r)"
  unfolding push_match_arm_def by (rule bounded_weaken, (rule bounds | simp)+)

lemma bounded_push_block [bounds]:
  "bounded b ts k (\<lambda>_. k) (push_block r)"
  unfolding push_block_def by (rule bounded_weaken, (rule bounds | simp)+)

lemma bounded_push_closure [bounds]:
  "bounded b ts k (\<lambda>_. k) (push_closure r)"
  unfolding push_closure_def by (rule bounded_weaken, (rule bounds | simp)+)

lemma bounded_push_trailing_closure [bounds]:
  "bounded b ts k (\<lambda>_. k) (push_trailing_closure r)"
  unfolding push_trailing_closure_def by (rule bounded_weaken, (rule bounds | simp)+)

lemma bounded_take_trailing_label [bounds]:
  "bounded b ts k (\<lambda>_. k - 1) take_trailing_label"
  unfolding take_trailing_label_def by (rule bounded_weaken, (rule bounds | simp)+)

lemma bounded_optional_colon [bounds]:
  "bounded b ts k (\<lambda>_. k) optional_colon"
  unfolding optional_colon_def by (rule bounded_weaken, (rule bounds | simp)+)

lemma bounded_closure_label [bounds]:
  "bounded b ts k (\<lambda>_. k) (closure_label expected m)"
  unfolding closure_label_def by (rule bounded_weaken, (rule bounds | simp)+)

lemma bounded_fresh_control_binding [bounds]:
  "bounded b ts k (\<lambda>_. k) fresh_control_binding"
  unfolding fresh_control_binding_def by (rule bounded_weaken, (rule bounds | simp)+)

lemma bounded_statement_separators [bounds]:
  "bounded b ts k (\<lambda>_. k) statement_separators"
  unfolding statement_separators_def by (rule bounded_ploop_any, (rule bounds | simp)+)

lemma bounded_continue_expression [bounds]:
  "bounded b ts k (\<lambda>_. k - 1) continue_expression"
  unfolding continue_expression_def by (rule bounded_weaken, (rule bounds | simp)+)

lemma bounded_throw_function [bounds]:
  "b \<Longrightarrow> bounded b ts k (\<lambda>_. k - 1) throw_function"
  unfolding throw_function_def by (rule bounded_weaken, (rule bounds | simp)+)

lemma bounded_name_expression [bounds]:
  "t \<in> set ts \<Longrightarrow> b \<Longrightarrow> bounded b ts k (\<lambda>_. k - 1) (name_expression t name)"
  unfolding name_expression_def by (rule bounded_weaken, (rule bounds | simp)+)

lemma bounded_call_argument_label [bounds]:
  "bounded b ts k (\<lambda>_. k) call_argument_label"
  unfolding call_argument_label_def by (rule bounded_weaken, (rule bounds | simp)+)

lemma bounded_member_name [bounds]:
  "bounded b ts k (\<lambda>_. k - 1) (member_name e)"
  unfolding member_name_def by (rule bounded_weaken, (rule bounds | simp)+)

lemma bounded_postfix_bang [bounds]:
  "bounded b ts k (\<lambda>_. k) (postfix_bang e)"
  unfolding postfix_bang_def by (rule bounded_weaken, (rule bounds | simp)+)

lemma bounded_negative_pattern [bounds]:
  "bounded b ts k (\<lambda>_. k - 1) negative_pattern"
  unfolding negative_pattern_def by (rule bounded_weaken, (rule bounds | simp)+)

lemma bounded_compound_operator [bounds]:
  "bounded b ts k (\<lambda>_. k) compound_operator"
  unfolding compound_operator_def by (rule bounded_weaken, (rule bounds | simp)+)

lemma bounded_binary_chain [bounds]:
  assumes "list_all (\<lambda>(c, _). c \<noteq> Eof) table" "\<And>b j. j \<le> k \<Longrightarrow> bounded b ts j (\<lambda>_. m j) operand"
    and "\<And>j. j \<le> k \<Longrightarrow> m j \<le> j - 1"
  shows "bounded b ts k (\<lambda>_. k - 1) (binary_chain table operand)"
proof -
  have operand: "bounded b ts j (\<lambda>_. j - 1) operand" if "j \<le> k" for b j
    by (rule bounded_weaken [OF assms(2) [OF that] assms(3) [OF that]])
  show ?thesis unfolding binary_chain_def
    using assms(1) by (intro bounded_pbind [OF operand [OF order_refl]]) (rule bounded_ploop_any, (rule bounds operand | simp)+)
qed

lemma bounded_binary_pair [bounds]:
  assumes "list_all (\<lambda>(c, _). c \<noteq> Eof) table" "\<And>b j. j \<le> k \<Longrightarrow> bounded b ts j (\<lambda>_. m j) operand"
    and "\<And>j. j \<le> k \<Longrightarrow> m j \<le> j - 1"
  shows "bounded b ts k (\<lambda>_. k - 1) (binary_pair table chained operand)"
proof -
  have operand: "bounded b ts j (\<lambda>_. j - 1) operand" if "j \<le> k" for b j
    by (rule bounded_weaken [OF assms(2) [OF that] assms(3) [OF that]])
  show ?thesis unfolding binary_pair_def
    using assms(1) by - (rule bounded_weaken, (rule bounds operand | simp)+)
qed

subsection \<open>Members of declarations without types\<close>

lemma bounded_push_where_predicate [bounds]:
  "bounded b ts k (\<lambda>_. k) push_where_predicate"
  unfolding push_where_predicate_def by (rule bounded_weaken, (rule bounds | simp)+)

lemma bounded_visibility_parser [bounds]:
  "bounded b ts k (\<lambda>_. k) visibility_parser"
  unfolding visibility_parser_def by (rule bounded_weaken, (rule bounds | simp)+)

lemma bounded_derive_option [bounds]:
  "bounded b ts k (\<lambda>_. k - 1) (derive_option acc)"
  unfolding derive_option_def by (rule bounded_weaken, (rule bounds | simp)+)

lemma bounded_struct_option [bounds]:
  "bounded b ts k (\<lambda>_. k - 1) (struct_option acc)"
  unfolding struct_option_def by (rule bounded_weaken, (rule bounds | simp)+)

lemma bounded_struct_options [bounds]:
  "bounded b ts k (\<lambda>_. k) struct_options"
  unfolding struct_options_def by (rule bounded_weaken, (rule bounds | simp)+)

lemma bounded_sort_member_name [bounds]:
  "bounded b ts k (\<lambda>_. k - 1) sort_member_name"
  unfolding sort_member_name_def by (rule bounded_weaken, (rule bounds | simp)+)

lemma bounded_sort_member_list [bounds]:
  "bounded b ts k (\<lambda>_. k - 1) sort_member_list"
  unfolding sort_member_list_def by (rule bounded_ploop_some, (rule bounds | simp)+)

lemma bounded_sort_definition [bounds]:
  "bounded b ts k (\<lambda>_. k) (sort_definition name level)"
  unfolding sort_definition_def by (rule bounded_weaken, (rule bounds | simp)+)

lemma bounded_enum_variant_name [bounds]:
  "bounded b ts k (\<lambda>_. k - 1) enum_variant_name"
  unfolding enum_variant_name_def by (rule bounded_weaken, (rule bounds | simp)+)

lemma bounded_clear_effect_parameters [bounds]:
  "bounded b ts k (\<lambda>_. k) clear_effect_parameters"
  unfolding clear_effect_parameters_def by (rule bounded_weaken, (rule bounds | simp)+)

lemma bounded_consume_builtin_initializer [bounds]:
  "bounded b ts k (\<lambda>_. k - 1) consume_builtin_initializer"
  unfolding consume_builtin_initializer_def by (rule bounded_weaken, rule bounded_pseq, rule bounded_advance_any, (rule bounds | simp)+)

lemma bounded_member_end [bounds]:
  "bounded b ts k (\<lambda>_. k) (member_end m)"
  unfolding member_end_def by (rule bounded_weaken, (rule bounds | simp)+)

lemma bounded_effect_operation_end [bounds]:
  "bounded b ts k (\<lambda>_. k) (effect_operation_end name ops d)"
  unfolding effect_operation_end_def by (rule bounded_weaken, (rule bounds | simp)+)

lemma bounded_associated_kind_parser [bounds]:
  "bounded b ts k (\<lambda>_. k) associated_kind_parser"
  unfolding associated_kind_parser_def by (rule bounded_weaken, (rule bounds | simp)+)

lemma bounded_skip_to [bounds]:
  "bounded b ts k (\<lambda>_. k) (skip_to ks)"
  unfolding skip_to_def by (rule bounded_weaken, (rule bounds | simp)+)

lemma bounded_before_value [bounds]:
  "bounded b ts k (\<lambda>_. k) (before_value d removed)"
  unfolding before_value_def by (rule bounded_weaken, (rule bounds | simp)+)

lemma bounded_braced_body_required [bounds]:
  "bounded b ts k (\<lambda>_. 0) braced_body_required"
  unfolding braced_body_required_def by (rule bounded_weaken, (rule bounds | simp)+)

lemma bounded_extend_builtin [bounds]:
  "b \<Longrightarrow> bounded b ts k (\<lambda>_. k) (extend_builtin d)"
  unfolding extend_builtin_def by (rule bounded_weaken, (rule bounds | simp)+)

lemma bounded_declaration_name [bounds]:
  "bounded b ts k (\<lambda>_. k - 1) declaration_name"
  unfolding declaration_name_def by (rule bounded_weaken, (rule bounds | simp)+)

lemma bounded_type_form_definition [bounds]:
  "bounded b ts k (\<lambda>_. k) (type_form_definition d builtin)"
  unfolding type_form_definition_def by (rule bounded_weaken, (rule bounds | simp)+)

lemma bounded_builtin_type_form [bounds]:
  "b \<Longrightarrow> bounded b ts k (\<lambda>_. k) (builtin_type_form d)"
  unfolding builtin_type_form_def by (rule bounded_weaken, (rule bounds | simp)+)

lemma bounded_abstract_sort [bounds]:
  "b \<Longrightarrow> bounded b ts k (\<lambda>_. k) (abstract_sort d)"
  unfolding abstract_sort_def by (rule bounded_weaken, (rule bounded_advance_twice bounds | simp)+)

lemma bounded_builtin_function [bounds]:
  "b \<Longrightarrow> bounded b ts k (\<lambda>_. k) (builtin_function d)"
  unfolding builtin_function_def by (rule bounded_weaken, (rule bounds | simp)+)

lemma bounded_foreign_symbol [bounds]:
  "bounded b ts k (\<lambda>_. k) (foreign_symbol name)"
  unfolding foreign_symbol_def by (rule bounded_weaken, (rule bounds | simp)+)

lemma bounded_foreign_initializer [bounds]:
  "b \<Longrightarrow> bounded b ts k (\<lambda>_. k) (foreign_initializer name)"
  unfolding foreign_initializer_def by (rule bounded_weaken, (rule bounds | simp)+)

lemma bounded_foreign_function_item [bounds]:
  "b \<Longrightarrow> bounded b ts k (\<lambda>_. k) (foreign_function_item d)"
  unfolding foreign_function_item_def by (rule bounded_weaken, (rule bounds | simp)+)

lemma bounded_sort_item [bounds]:
  "b \<Longrightarrow> bounded b ts k (\<lambda>_. k) (sort_item d)"
  unfolding sort_item_def by (rule bounded_weaken, (rule bounds | simp)+)

lemma bounded_without_constraints [bounds]:
  "bounded b ts k M p \<Longrightarrow> bounded b ts k (\<lambda>x. max 0 (M x)) (without_constraints d m p)"
  unfolding without_constraints_def by (rule bounds bounded_fail_here | assumption)+

lemma bounded_use_between [bounds]:
  "bounded b ts k (\<lambda>_. k) (use_between v start path alias)"
  unfolding use_between_def by (rule bounded_weaken, (rule bounds | simp)+)

lemma bounded_qualified_alias_declaration [bounds]:
  "bounded b ts k (\<lambda>_. k - 1) (qualified_alias_declaration v)"
  unfolding qualified_alias_declaration_def by (rule bounded_weaken, (rule bounds | simp)+)

lemma bounded_import_alias [bounds]:
  "bounded b ts k (\<lambda>_. k) import_alias"
  unfolding import_alias_def by (rule bounded_weaken, (rule bounds | simp)+)

lemma bounded_use_member [bounds]:
  "bounded b ts k (\<lambda>_. k - 1) (use_member v path acc)"
  unfolding use_member_def by (rule bounded_weaken, (rule bounds | simp)+)

lemma bounded_use_group [bounds]:
  "bounded b ts k (\<lambda>_. k - 1) (use_group v path)"
  unfolding use_group_def by (rule bounded_weaken, (rule bounds | simp)+)

lemma bounded_use_path_or_group [bounds]:
  "bounded b ts k (\<lambda>_. k) (use_path_or_group v start)"
  unfolding use_path_or_group_def by (rule bounded_ploop_any, (rule bounds | simp)+)

lemma bounded_single_use [bounds]:
  "bounded b ts k (\<lambda>_. k) (single_use v start path)"
  unfolding single_use_def by (rule bounded_weaken, (rule bounds | simp)+)

lemma bounded_use_declaration [bounds]:
  "bounded b ts k (\<lambda>_. k - 1) (use_declaration v)"
  unfolding use_declaration_def by (rule bounded_weaken, (rule bounds | simp)+)

subsection \<open>Operands\<close>

definition operand_bounded :: "token list \<Rightarrow> nat \<Rightarrow> 'a parse \<Rightarrow> bool" where
  "operand_bounded ts k p \<longleftrightarrow> (\<forall>b j. j \<le> k \<longrightarrow> bounded b ts j (\<lambda>_. j - 1) p)"

lemma operand_bounded_chain [simp]:
  "operand_bounded ts k p \<Longrightarrow> list_all (\<lambda>(c, _). c \<noteq> Eof) table \<Longrightarrow> operand_bounded ts k (binary_chain table p)"
  unfolding operand_bounded_def by (intro allI impI bounded_binary_chain [where m = "\<lambda>j. j - 1"]) simp_all

lemma operand_bounded_pair [simp]:
  "operand_bounded ts k p \<Longrightarrow> list_all (\<lambda>(c, _). c \<noteq> Eof) table \<Longrightarrow> operand_bounded ts k (binary_pair table m p)"
  unfolding operand_bounded_def by (intro allI impI bounded_binary_pair [where m = "\<lambda>j. j - 1"]) simp_all

lemma operand_bounded_logical_or: "operand_bounded ts k p \<Longrightarrow> operand_bounded ts k (logical_or p)"
  by (simp add: logical_or_def logical_and_def bitwise_or_def bitwise_xor_def bitwise_and_def equality_def relation_def
    shift_parser_def additive_def multiplicative_def)

lemma bounded_operand: "operand_bounded ts j p \<Longrightarrow> k \<le> j \<Longrightarrow> bounded b ts k (\<lambda>_. k - 1) p"
  by (simp add: operand_bounded_def)

lemma bounded_ptry [bounds]:
  assumes "bounded b ts k (\<lambda>_. m) p"
  shows "bounded b ts k (\<lambda>_. max k m) (ptry p)"
proof -
  have "outcome ts (\<lambda>_. max k m) (ptry p s)" if "closed_tokens ts" "at_state ts b k s" for s
  proof -
    have "outcome ts (\<lambda>_. m) (p s)" using assms that by (simp add: bounded_def)
    then show ?thesis using that(2)
      by (auto simp: ptry_def at_state_def split: sum.splits stop.splits)
  qed
  then show ?thesis by (simp add: bounded_def)
qed

lemma bounded_member_list [bounds]:
  assumes "\<And>j. j \<le> k \<Longrightarrow> bounded False ts j (\<lambda>_. m j) member" "\<And>j. j \<le> k \<Longrightarrow> m j \<le> j - 1"
  shows "bounded b ts k (\<lambda>_. k - 1) (member_list member at_end behind)"
  unfolding member_list_def
proof (rule bounded_ploop_some)
  fix x and j :: nat assume j: "j \<le> k"
  have "bounded b ts j (\<lambda>_. j - 1) member" for b
    by (rule bounded_any [OF bounded_weaken [OF assms(1) [OF j] assms(2) [OF j]]])
  note member = this
  show "bounded False ts j (turns (j - 1) (j - 1))
     (if_take (Delim RBrace) (pbreak x)
       (pif (at_token Eof) (fail_here at_end)
         (pbind member (\<lambda>m. pseq (member_end behind) (pcontinue (x @ [m]))))))"
    by (rule bounded_weaken, (rule bounds member | simp)+)
qed simp

text \<open>Newlines that are there are taken.\<close>

lemma newline_not_eof: "at_token Newline s \<Longrightarrow> current_kind s \<noteq> Eof"
  by (auto simp: at_token_def token_kind_matches_def kind_variant_def)

lemma skip_newlines_unfold:
  assumes "at_state ts b k s" "at_token Newline s" "closed_tokens ts"
  shows "skip_newlines s = pseq advance skip_newlines s"
proof -
  have "outcome ts (\<lambda>_. if True then tokens_left s - 1 else tokens_left s) (advance s)"
    by (rule advance_outcome [OF assms(3)])
      (use assms(1) newline_not_eof [OF assms(2)] in \<open>simp add: at_state_def\<close>)
  moreover have "\<not> at_token Eof s" using assms(2) newline_not_eof by (simp add: at_token_eof)
  ultimately have adv: "advance s = Inr ((), s\<lparr>position := position s + 1\<rparr>)"
    by (auto simp: advance_def split: if_splits)
  have "position s < length (tokens s)" using assms(1) by (auto simp: at_state_def)
  then have "tokens_left s = Suc (tokens_left (s\<lparr>position := position s + 1\<rparr>))" by (simp add: tokens_left_def)
  then show ?thesis
    using adv assms(2)
    by (simp add: skip_newlines_def pwhile_def ploop_def pwith_def pseq_def pbind_def pif_def pnext_def pmap_def preturn_def)
qed

lemma bounded_behind_newlines:
  assumes "closed_tokens ts" "at_state ts b k s" "at_token Newline s"
  shows "outcome ts (turns (k - 1) k) (behind_newlines e c s)"
proof -
  let ?p = "pseq (pseq advance skip_newlines) (pif (continues_behind_newlines e c)
    (pcontinue (e, c)) (pseq (rewind (position s)) (pbreak e)))"
  have s: "position s < length ts" "length ts - position s \<le> k" "at_state ts True k s"
    using assms(2) newline_not_eof [OF assms(3)] by (auto simp: at_state_def tokens_left_def)
  have "bounded True ts k (turns (k - 1) k) ?p"
    by (rule bounded_weaken, (rule bounds | simp add: s)+)
  then have "outcome ts (turns (k - 1) k) (?p s)" using assms(1) s(3) by (simp add: bounded_def)
  moreover have "behind_newlines e c s = ?p s"
    using skip_newlines_unfold [OF assms(2,3,1)] by (simp add: behind_newlines_def pwith_def pseq_def pbind_def)
  ultimately show ?thesis by simp
qed

lemma bounded_newlines_then [bounds]:
  assumes "bounded b ts k M q"
  shows "bounded b ts k (\<lambda>r. max (turns (k - 1) k r) (M r)) (pif (at_token Newline) (behind_newlines e c) q)"
proof -
  have "outcome ts (\<lambda>r. max (turns (k - 1) k r) (M r)) (pif (at_token Newline) (behind_newlines e c) q s)"
    if s: "closed_tokens ts" "at_state ts b k s" for s
  proof (cases "at_token Newline s")
    case True
    then show ?thesis
      using outcome_weaken [OF bounded_behind_newlines [OF s True]] by (simp add: pif_def)
  next
    case False
    have "outcome ts M (q s)" using assms s by (simp add: bounded_def)
    then show ?thesis using False outcome_weaken by (fastforce simp: pif_def)
  qed
  then show ?thesis by (simp add: bounded_def)
qed

subsection \<open>The contract of the recursion\<close>

locale grammar_contract =
  fixes ts :: "token list" and K :: nat and g :: grammar
  assumes bounded_g_type: "k \<le> K \<Longrightarrow> bounded b ts k (\<lambda>_. k - 1) (g_type g)"
    and bounded_g_expression: "k \<le> K \<Longrightarrow> bounded b ts k (\<lambda>_. k - 1) (g_expression g allow)"
    and bounded_g_coalesce: "k \<le> K \<Longrightarrow> bounded b ts k (\<lambda>_. k - 1) (g_coalesce g allow)"
    and bounded_g_unary: "k \<le> K \<Longrightarrow> bounded b ts k (\<lambda>_. k - 1) (g_unary g allow)"
    and bounded_g_pattern: "k \<le> K \<Longrightarrow> bounded b ts k (\<lambda>_. k - 1) (g_pattern g)"
    and bounded_g_sort: "k \<le> K \<Longrightarrow> t \<in> set ts \<Longrightarrow> bounded b ts k (\<lambda>_. k - 1) (g_sort g t name is_region)"
begin

lemmas [bounds] = bounded_g_type bounded_g_expression bounded_g_coalesce bounded_g_unary bounded_g_pattern bounded_g_sort

lemma bounded_type_arguments [bounds]:
  "k \<le> K \<Longrightarrow> bounded b ts k (\<lambda>_. k - 1) (type_arguments g excluded what colon close)"
  unfolding type_arguments_def by (rule bounded_weaken, (rule bounds | simp)+)

lemma bounded_effect_arguments [bounds]:
  "k \<le> Suc K \<Longrightarrow> bounded b ts k (\<lambda>_. k) (effect_arguments g)"
  unfolding effect_arguments_def by (rule bounded_weaken, (rule bounds | simp)+)

lemma bounded_custom_effect [bounds]:
  "k \<le> Suc K \<Longrightarrow> bounded b ts k (\<lambda>_. k - 1) (custom_effect g custom)"
  unfolding custom_effect_def by (rule bounded_weaken, (rule bounds | simp)+)

lemma bounded_effect_entry [bounds]:
  "k \<le> Suc K \<Longrightarrow> bounded b ts k (\<lambda>_. k - 1) (effect_entry g acc)"
  unfolding effect_entry_def by (rule bounded_weaken, (rule bounds | simp)+)

lemma bounded_function_effect_clause [bounds]:
  "k \<le> Suc K \<Longrightarrow> bounded b ts k (\<lambda>_. k) (function_effect_clause g)"
  unfolding function_effect_clause_def by (rule bounded_weaken, (rule bounds | simp)+)

lemma bounded_function_result_type [bounds]:
  "k \<le> K \<Longrightarrow> bounded b ts k (\<lambda>_. k - 1) (function_result_type g)"
  unfolding function_result_type_def by (rule bounded_weaken, (rule bounds | simp)+)

lemma bounded_borrow_type_pointee_group [bounds]:
  "k \<le> Suc K \<Longrightarrow> bounded b ts k (\<lambda>_. k - 1) (borrow_type_pointee_group g)"
  unfolding borrow_type_pointee_group_def by (rule bounded_weaken, (rule bounds | simp)+)

lemma bounded_borrow_type [bounds]:
  "k \<le> Suc K \<Longrightarrow> bounded b ts k (\<lambda>_. k - 1) (borrow_type g)"
  unfolding borrow_type_def by (rule bounded_weaken, (rule bounds | simp)+)

lemma bounded_function_type_parameter [bounds]:
  "k \<le> K \<Longrightarrow> bounded b ts k (\<lambda>_. k - 1) (function_type_parameter g)"
  unfolding function_type_parameter_def by (rule bounded_weaken, (rule bounds | simp)+)

lemma bounded_function_type_group [bounds]:
  "k \<le> K \<Longrightarrow> bounded b ts k (\<lambda>_. k - 1) (function_type_group g)"
  unfolding function_type_group_def by (rule bounded_weaken, (rule bounds bounded_ploop_some | simp)+)

lemma bounded_function_type_or_unit [bounds]:
  "k \<le> K \<Longrightarrow> bounded b ts k (\<lambda>_. k - 1) (function_type_or_unit g)"
  unfolding function_type_or_unit_def by (rule bounded_weaken, (rule bounds | simp)+)

lemma bounded_array_length_argument [bounds]:
  "k \<le> K \<Longrightarrow> bounded b ts k (\<lambda>_. k - 1) (array_length_argument g)"
  unfolding array_length_argument_def by (rule bounded_weaken, (rule bounds | simp)+)

lemma bounded_array_application [bounds]:
  "k \<le> K \<Longrightarrow> bounded b ts k (\<lambda>_. k - 1) (array_application g name)"
  unfolding array_application_def by (rule bounded_weaken, (rule bounds | simp)+)

lemma bounded_type_argument_groups [bounds]:
  "k \<le> Suc K \<Longrightarrow> bounded b ts k (\<lambda>_. k) (type_argument_groups g)"
  unfolding type_argument_groups_def by (rule bounded_weaken, (rule bounds bounded_ploop_any | simp)+)

lemma bounded_named_type [bounds]:
  "k \<le> Suc K \<Longrightarrow> bounded b ts k (\<lambda>_. k - 1) (named_type g)"
  unfolding named_type_def by (rule bounded_weaken, (rule bounds | simp)+)

lemma bounded_effectful_type [bounds]:
  "k \<le> Suc K \<Longrightarrow> bounded b ts k (\<lambda>_. k - 1) (effectful_type g)"
  unfolding effectful_type_def by (rule bounded_weaken, (rule bounds | simp)+)

lemma bounded_type_expr [bounds]:
  "k \<le> Suc K \<Longrightarrow> bounded b ts k (\<lambda>_. k - 1) (type_expr g)"
  unfolding type_expr_def by (rule bounded_weaken, (rule bounds | simp)+)

subsection \<open>Sorts and parameters\<close>

lemma bounded_constructor_sort_parameter [bounds]:
  "k \<le> Suc K \<Longrightarrow> bounded b ts k (\<lambda>_. k - 1) (constructor_sort_parameter g)"
  unfolding constructor_sort_parameter_def by (rule bounded_weaken, (rule bounds | simp)+)

lemma bounded_constructor_sort_parameter_group [bounds]:
  "k \<le> Suc K \<Longrightarrow> bounded b ts k (\<lambda>_. k - 1) (constructor_sort_parameter_group g)"
  unfolding constructor_sort_parameter_group_def by (rule bounded_weaken, (rule bounds | simp)+)

lemma bounded_constructor_compile_parameter_sort [bounds]:
  "k \<le> Suc K \<Longrightarrow> bounded b ts k (\<lambda>_. k - 1) (constructor_compile_parameter_sort g)"
  unfolding constructor_compile_parameter_sort_def by (rule bounded_weaken, (rule bounds | simp)+)

lemma bounded_compile_parameter_sort [bounds]:
  "k \<le> Suc K \<Longrightarrow> t \<in> set ts \<Longrightarrow> bounded b ts k (\<lambda>_. k - 1) (compile_parameter_sort g t name is_region)"
  unfolding compile_parameter_sort_def by (rule bounded_weaken, (rule bounds | simp)+)

lemma bounded_compile_parameter [bounds]:
  "k \<le> Suc K \<Longrightarrow> bounded b ts k (\<lambda>_. k - 1) (compile_parameter g)"
  unfolding compile_parameter_def by (rule bounded_weaken, (rule bounds | simp)+)

lemma bounded_compile_parameter_group [bounds]:
  "k \<le> Suc K \<Longrightarrow> bounded b ts k (\<lambda>_. k - 1) (compile_parameter_group g)"
  unfolding compile_parameter_group_def by (rule bounded_weaken, (rule bounds bounded_ploop_any | simp)+)

lemma bounded_parameter_expansion [bounds]:
  "k \<le> Suc K \<Longrightarrow> bounded b ts k (\<lambda>_. k - 1) (parameter_expansion g)"
  unfolding parameter_expansion_def by (rule bounded_weaken, (rule bounds | simp)+)

lemma bounded_runtime_parameter_type [bounds]:
  "k \<le> Suc K \<Longrightarrow> bounded b ts k (\<lambda>_. k) (runtime_parameter_type g allow name)"
  unfolding runtime_parameter_type_def by (rule bounded_weaken, (rule bounds | simp)+)

lemma bounded_runtime_parameter [bounds]:
  "k \<le> Suc K \<Longrightarrow> bounded b ts k (\<lambda>_. k - 1) (runtime_parameter g allow allowed)"
  unfolding runtime_parameter_def by (rule bounded_weaken, (rule bounds | simp)+)

lemma bounded_runtime_parameter_group [bounds]:
  "k \<le> Suc K \<Longrightarrow> bounded b ts k (\<lambda>_. k - 1) (runtime_parameter_group g allow allowed record)"
  unfolding runtime_parameter_group_def by (rule bounded_weaken, (rule bounds | simp)+)

lemma bounded_parameter_group [bounds]:
  "k \<le> Suc K \<Longrightarrow> bounded b ts k (\<lambda>_. k - 1) (parameter_group g)"
  unfolding parameter_group_def by (rule bounded_weaken, (rule bounds | simp)+)

lemma bounded_repeated_parameter_group_schema [bounds]:
  "k \<le> Suc K \<Longrightarrow> bounded b ts k (\<lambda>_. k - 1) (repeated_parameter_group_schema g)"
  unfolding repeated_parameter_group_schema_def by (rule bounded_weaken, (rule bounds | simp)+)

lemma bounded_compile_parameter_groups [bounds]:
  "k \<le> Suc K \<Longrightarrow> bounded b ts k (\<lambda>_. k) (compile_parameter_groups g)"
  unfolding compile_parameter_groups_def by (rule bounded_weaken, (rule bounds | simp)+)

lemma bounded_runtime_parameter_groups [bounds]:
  "k \<le> Suc K \<Longrightarrow> bounded b ts k (\<lambda>_. k) (runtime_parameter_groups g allow allowed boundary ks groups)"
  unfolding runtime_parameter_groups_def by (rule bounded_weaken, (rule bounds | simp)+)

lemma bounded_repeated_parameter_group [bounds]:
  "k \<le> Suc K \<Longrightarrow> bounded b ts k (\<lambda>_. k - 1) (repeated_parameter_group g compile_groups groups)"
  unfolding repeated_parameter_group_def by (rule bounded_weaken, (rule bounds | simp)+)

lemma bounded_trailing_parameter_groups [bounds]:
  "k \<le> Suc K \<Longrightarrow> bounded b ts k (\<lambda>_. k) (trailing_parameter_groups g allow compile_groups groups)"
  unfolding trailing_parameter_groups_def by (rule bounded_weaken, (rule bounds | simp)+)

lemma bounded_boundary_groups [bounds]:
  "k \<le> Suc K \<Longrightarrow> bounded b ts k (\<lambda>_. k - 1) (boundary_groups g allow compile_groups)"
  unfolding boundary_groups_def by (rule bounded_weaken, (rule bounds | simp)+)

lemma bounded_declaration_groups [bounds]:
  "k \<le> Suc K \<Longrightarrow> bounded b ts k (\<lambda>_. k) (declaration_groups g allow outer)"
  unfolding declaration_groups_def by (rule bounded_weaken, (rule bounds | simp)+)

subsection \<open>Patterns\<close>

lemma bounded_tuple_or_grouped_pattern [bounds]:
  "k \<le> Suc K \<Longrightarrow> bounded b ts k (\<lambda>_. k - 1) (tuple_or_grouped_pattern g)"
  unfolding tuple_or_grouped_pattern_def by (rule bounded_weaken, (rule bounds bounded_ploop_any | simp)+)

lemma bounded_named_pattern_field [bounds]:
  "k \<le> Suc K \<Longrightarrow> bounded b ts k (\<lambda>_. k - 1) (named_pattern_field g)"
  unfolding named_pattern_field_def by (rule bounded_weaken, (rule bounds | simp)+)

lemma bounded_pattern_payload [bounds]:
  "k \<le> Suc K \<Longrightarrow> bounded b ts k (\<lambda>_. k) (pattern_payload g)"
  unfolding pattern_payload_def by (rule bounded_weaken, (rule bounds | simp)+)

lemma bounded_named_pattern [bounds]:
  "k \<le> Suc K \<Longrightarrow> bounded b ts k (\<lambda>_. k - 1) (named_pattern upper g)"
  unfolding named_pattern_def by (rule bounded_weaken, (rule bounds | simp)+)

subsection \<open>Blocks and closures\<close>

lemma bounded_local_binding [bounds]:
  "k \<le> Suc K \<Longrightarrow> bounded b ts k (\<lambda>_. k - 1) (local_binding g)"
  unfolding local_binding_def by (rule bounded_weaken, (rule bounds | simp)+)

lemma bounded_let_statement [bounds]:
  "k \<le> Suc K \<Longrightarrow> bounded b ts k (turns (k - 1) 0) (let_statement g statements)"
  unfolding let_statement_def by (rule bounded_weaken, (rule bounds | simp)+)

lemma bounded_expression_statement [bounds]:
  "k \<le> K \<Longrightarrow> bounded b ts k (turns (k - 1) (k - 1)) (expression_statement g statements)"
  unfolding expression_statement_def by (rule bounded_weaken, (rule bounds | simp)+)

lemma bounded_block_contents [bounds]:
  "k \<le> K \<Longrightarrow> bounded b ts k (\<lambda>_. k - 1) (block_contents g)"
  unfolding block_contents_def by (rule bounded_weaken, (rule bounds bounded_ploop_some | simp)+)

lemma bounded_block [bounds]:
  "k \<le> Suc K \<Longrightarrow> bounded b ts k (\<lambda>_. k - 1) (block g)"
  unfolding block_def by (rule bounded_weaken, (rule bounds | simp)+)

lemma bounded_pattern_guard [bounds]:
  "k \<le> Suc K \<Longrightarrow> bounded b ts k (\<lambda>_. k) (pattern_guard g allow)"
  unfolding pattern_guard_def by (rule bounded_weaken, (rule bounds | simp)+)

lemma bounded_pattern_closure [bounds]:
  "k \<le> K \<Longrightarrow> bounded b ts k (\<lambda>_. k) (pattern_closure g)"
  unfolding pattern_closure_def by (rule bounded_pwith_position, (rule bounds | simp)+)

lemma bounded_closure_groups [bounds]:
  "k \<le> Suc K \<Longrightarrow> bounded b ts k (\<lambda>_. k) (closure_groups g)"
  unfolding closure_groups_def by (rule bounded_weaken, (rule bounds | simp)+)

lemma bounded_parameter_closure [bounds]:
  "k \<le> K \<Longrightarrow> bounded b ts k (\<lambda>_. k - 1) (parameter_closure g)"
  unfolding parameter_closure_def by (rule bounded_weaken, (rule bounds | simp)+)

lemma bounded_closure_inner_untracked [bounds]:
  "k \<le> Suc K \<Longrightarrow> bounded b ts k (\<lambda>_. k - 1) (closure_inner_untracked g)"
  unfolding closure_inner_untracked_def by (rule bounded_weaken, (rule bounds | simp)+)

lemma bounded_closure_inner [bounds]:
  "k \<le> Suc K \<Longrightarrow> bounded b ts k (\<lambda>_. k - 1) (closure_inner g)"
  unfolding closure_inner_def by (rule bounded_weaken, (rule bounds | simp)+)

lemma bounded_closure_expression [bounds]:
  "k \<le> Suc K \<Longrightarrow> bounded b ts k (\<lambda>_. k - 1) (closure_expression g)"
  unfolding closure_expression_def by (rule bounded_weaken, (rule bounds | simp)+)

lemma bounded_trailing_closure [bounds]:
  "k \<le> Suc K \<Longrightarrow> bounded b ts k (\<lambda>_. k - 1) (trailing_closure g start)"
  unfolding trailing_closure_def by (rule bounded_weaken, (rule bounds | simp)+)

lemma bounded_zero_parameter_trailing_closure [bounds]:
  "k \<le> Suc K \<Longrightarrow> bounded b ts k (\<lambda>_. k - 1) (zero_parameter_trailing_closure g what)"
  unfolding zero_parameter_trailing_closure_def by (rule bounded_weaken, (rule bounds | simp)+)

lemma bounded_async_expression [bounds]:
  "k \<le> Suc K \<Longrightarrow> bounded b ts k (\<lambda>_. k - 1) (async_expression g)"
  unfolding async_expression_def by (rule bounded_weaken, (rule bounds | simp)+)

lemma bounded_struct_literal_fields [bounds]:
  "k \<le> Suc K \<Longrightarrow> bounded b ts k (\<lambda>_. k - 1) (struct_literal_fields g)"
  unfolding struct_literal_fields_def by (rule bounded_weaken, (rule bounds | simp)+)

subsection \<open>Control flow\<close>

lemma bounded_postfix_match_arm [bounds]:
  "k \<le> K \<Longrightarrow> bounded b ts k (\<lambda>_. k - 1) (postfix_match_arm g)"
  unfolding postfix_match_arm_def by (rule bounded_weaken, (rule bounds | simp)+)

lemma bounded_postfix_match_arms [bounds]:
  "k \<le> K \<Longrightarrow> bounded b ts k (\<lambda>_. k - 1) (postfix_match_arms g)"
  unfolding postfix_match_arms_def by (rule bounded_weaken, (rule bounds bounded_ploop_some | simp)+)

lemma bounded_match_case [bounds]:
  "k \<le> Suc K \<Longrightarrow> bounded b ts k (\<lambda>_. k - 1) (match_case g)"
  unfolding match_case_def by (rule bounded_weaken, (rule bounds | simp)+)

lemma bounded_prefix_match_expression [bounds]:
  "k \<le> Suc K \<Longrightarrow> bounded b ts k (\<lambda>_. k - 1) (prefix_match_expression g)"
  unfolding prefix_match_expression_def by (rule bounded_weaken, (rule bounds | simp)+)

lemma bounded_optional_else_branch [bounds]:
  "k \<le> Suc K \<Longrightarrow> bounded b ts k (\<lambda>_. k) (optional_else_branch g)"
  unfolding optional_else_branch_def by (rule bounded_pwith_position, (rule bounds | simp)+)

lemma bounded_if_expression [bounds]:
  "k \<le> Suc K \<Longrightarrow> bounded b ts k (\<lambda>_. k - 1) (if_expression g)"
  unfolding if_expression_def by (rule bounded_weaken, (rule bounds | simp)+)

lemma bounded_while_expression [bounds]:
  "k \<le> Suc K \<Longrightarrow> bounded b ts k (\<lambda>_. k - 1) (while_expression g)"
  unfolding while_expression_def by (rule bounded_weaken, (rule bounds | simp)+)

lemma bounded_do_expression [bounds]:
  assumes "k \<le> Suc K"
  shows "bounded b ts k (\<lambda>_. k - 1) (do_expression g)"
  unfolding do_expression_def
proof (rule bounded_pbind [OF bounded_block [OF assms] bounded_pwith_position])
  fix i and body :: expr assume i: "i < length ts" "length ts - i \<le> k - 1"
  have "k - 1 \<le> Suc K" using assms by simp
  then show "bounded False ts (k - 1) (\<lambda>_. k - 1)
      (pseq skip_newlines
        (pif (\<lambda>s. trailing_label (current_kind s) = Some (lit ''while'') \<and> some_named_trailing_closure_follows s)
          (pseq advance
            (pseq optional_colon
              (pmap (\<lambda>c. WhileExpr c body True) (zero_parameter_trailing_closure g (lit ''do-while condition'')))))
          (pseq (rewind i) (preturn (DoBlock body)))))"
    using i by - (rule bounded_weaken, (rule bounds | simp)+)
qed simp

lemma bounded_for_expression [bounds]:
  "k \<le> Suc K \<Longrightarrow> bounded b ts k (\<lambda>_. k - 1) (for_expression g)"
  unfolding for_expression_def by (rule bounded_weaken, (rule bounds | simp)+)

lemma bounded_loop_expression [bounds]:
  "k \<le> Suc K \<Longrightarrow> bounded b ts k (\<lambda>_. k - 1) (loop_expression g)"
  unfolding loop_expression_def by (rule bounded_weaken, (rule bounds | simp)+)

lemma bounded_jump_value [bounds]:
  "k \<le> K \<Longrightarrow> bounded b ts k (\<lambda>_. k) (jump_value g allow word)"
  unfolding jump_value_def by (rule bounded_weaken, (rule bounds | simp)+)

lemma bounded_return_expression [bounds]:
  "k \<le> Suc K \<Longrightarrow> bounded b ts k (\<lambda>_. k - 1) (return_expression g allow)"
  unfolding return_expression_def by (rule bounded_weaken, (rule bounds | simp)+)

lemma bounded_break_expression [bounds]:
  "k \<le> Suc K \<Longrightarrow> bounded b ts k (\<lambda>_. k - 1) (break_expression g allow)"
  unfolding break_expression_def by (rule bounded_weaken, (rule bounds | simp)+)

lemma bounded_array_literal [bounds]:
  "k \<le> Suc K \<Longrightarrow> bounded b ts k (\<lambda>_. k - 1) (array_literal g)"
  unfolding array_literal_def by (rule bounded_weaken, (rule bounds | simp)+)

lemma bounded_try_expression [bounds]:
  "k \<le> Suc K \<Longrightarrow> b \<Longrightarrow> t \<in> set ts \<Longrightarrow> bounded b ts k (\<lambda>_. k - 1) (try_expression g t)"
  unfolding try_expression_def by (rule bounded_weaken, (rule bounds | simp)+)

lemma bounded_unsafe_expression [bounds]:
  "k \<le> Suc K \<Longrightarrow> b \<Longrightarrow> bounded b ts k (\<lambda>_. k - 1) (unsafe_expression g)"
  unfolding unsafe_expression_def by (rule bounded_weaken, (rule bounds | simp)+)

lemma bounded_parenthesized_expression [bounds]:
  "k \<le> Suc K \<Longrightarrow> b \<Longrightarrow> bounded b ts k (\<lambda>_. k - 1) (parenthesized_expression g)"
  unfolding parenthesized_expression_def by (rule bounded_weaken, (rule bounds bounded_ploop_any | simp)+)

lemma bounded_word_expression [bounds]:
  "k \<le> Suc K \<Longrightarrow> b \<Longrightarrow> t \<in> set ts \<Longrightarrow> bounded b ts k (\<lambda>_. k - 1) (word_expression g allow t name)"
  unfolding word_expression_def by (rule bounded_weaken, (rule bounds | simp)+)

lemma bounded_contextual_expression [bounds]:
  "k \<le> Suc K \<Longrightarrow> b \<Longrightarrow> t \<in> set ts \<Longrightarrow> bounded b ts k (\<lambda>_. k - 1) (contextual_expression g allow t c)"
  unfolding contextual_expression_def by (cases c; simp only: contextual.case; (rule bounded_weaken, (rule bounds | simp)+))

lemma bounded_primary [bounds]:
  assumes "k \<le> Suc K"
  shows "bounded b ts k (\<lambda>_. k - 1) (primary g allow)"
  unfolding primary_def
proof (rule bounded_pwith_current)
  fix t assume t: "t \<in> set ts"
  show "bounded (b \<or> kind t \<noteq> Eof) ts k (\<lambda>_. k - 1)
      (case kind t of
         Integer v \<Rightarrow> pseq advance (preturn (IntegerExpr v))
       | Word KTrue \<Rightarrow> pseq advance (preturn (BoolExpr True))
       | Word KFalse \<Rightarrow> pseq advance (preturn (BoolExpr False))
       | StringLit v \<Rightarrow> pseq advance (preturn (StringExpr v))
       | Ident name \<Rightarrow> word_expression g allow t name
       | Contextual c \<Rightarrow> contextual_expression g allow t c
       | Word KRoot \<Rightarrow> pseq advance (preturn (NameExpr (lit ''root'')))
       | Word KSuper \<Rightarrow> pseq advance (preturn (NameExpr (lit ''super'')))
       | Delim LParen \<Rightarrow> parenthesized_expression g
       | Delim LBracket \<Rightarrow> array_literal g
       | Delim LBrace \<Rightarrow> closure_expression g
       | _ \<Rightarrow> fail_at t (expected_found (lit ''an expression'') (kind t)))"
    using assms
    by - (cases "kind t"; simp only: token_kind.case; (split keyword_token.split delimiter.split, intro conjI impI)?;
      (rule bounded_weaken, (rule bounds | simp add: t)+))
qed

lemma bounded_pattern_parser [bounds]:
  assumes "k \<le> Suc K"
  shows "bounded b ts k (\<lambda>_. k - 1) (pattern_parser upper g)"
  unfolding pattern_parser_def
proof (rule bounded_pwith_current)
  fix t assume t: "t \<in> set ts"
  show "bounded (b \<or> kind t \<noteq> Eof) ts k (\<lambda>_. k - 1)
      (case kind t of
         Integer v \<Rightarrow> pseq advance (preturn (literal_pattern v False))
       | Arith Minus \<Rightarrow> pseq advance negative_pattern
       | Word KTrue \<Rightarrow> pseq advance (preturn (PatBool True))
       | Word KFalse \<Rightarrow> pseq advance (preturn (PatBool False))
       | Ident name \<Rightarrow>
           if name = lit ''_'' then pseq advance (preturn PatWildcard) else named_pattern upper g
       | Delim LParen \<Rightarrow> tuple_or_grouped_pattern g
       | Word KRoot \<Rightarrow> named_pattern upper g
       | Word KSuper \<Rightarrow> named_pattern upper g
       | _ \<Rightarrow> fail_at t (expected_found (lit ''a pattern'') (kind t)))"
    using assms
    by - (cases "kind t"; simp only: token_kind.case; (split keyword_token.split delimiter.split arith_op.split, intro conjI impI)?;
      (rule bounded_weaken, (rule bounds | simp add: t)+))
qed

subsection \<open>Postfix expressions\<close>

lemma bounded_call_argument [bounds]:
  "k \<le> K \<Longrightarrow> bounded b ts k (\<lambda>_. k - 1) (call_argument g acc)"
  unfolding call_argument_def by (rule bounded_weaken, (rule bounds | simp)+)

lemma bounded_call_arguments [bounds]:
  "k \<le> K \<Longrightarrow> bounded b ts k (\<lambda>_. k - 1) (call_arguments g)"
  unfolding call_arguments_def by (rule bounded_weaken, (rule bounds | simp)+)

lemma bounded_labeled_closure [bounds]:
  "k \<le> Suc K \<Longrightarrow> bounded b ts k (turns (k - 1) (k - 1)) (labeled_closure g e start label)"
  unfolding labeled_closure_def by (rule bounded_weaken, (rule bounds | simp)+)

lemma bounded_colon_trailing_closure [bounds]:
  "k \<le> Suc K \<Longrightarrow> bounded b ts k (turns (k - 1) (k - 1)) (colon_trailing_closure g e)"
  unfolding colon_trailing_closure_def by (rule bounded_weaken, (rule bounds | simp)+)

lemma bounded_colonless_trailing_closure [bounds]:
  "k \<le> Suc K \<Longrightarrow> bounded b ts k (turns (k - 1) (k - 1)) (colonless_trailing_closure g e)"
  unfolding colonless_trailing_closure_def by (rule bounded_weaken, (rule bounds | simp)+)

lemma bounded_nested_trailing_call [bounds]:
  "k \<le> Suc K \<Longrightarrow> bounded b ts k (turns (k - 1) (k - 1)) (nested_trailing_call g e)"
  unfolding nested_trailing_call_def by (rule bounded_weaken, (rule bounds | simp)+)

lemma bounded_unlabeled_trailing_closure [bounds]:
  "k \<le> Suc K \<Longrightarrow> bounded b ts k (turns (k - 1) 0) (unlabeled_trailing_closure g e)"
  unfolding unlabeled_trailing_closure_def by (rule bounded_weaken, (rule bounds | simp)+)

lemma bounded_trailing_turn [bounds]:
  "k \<le> K \<Longrightarrow> bounded b ts k (turns (k - 1) k) (trailing_turn g e can_take)"
  unfolding trailing_turn_def by (rule bounded_weaken, (rule bounds | simp)+)

lemma bounded_postfix_turn [bounds]:
  "k \<le> K \<Longrightarrow> bounded b ts k (turns (k - 1) k) (postfix_turn g allow acc)"
  unfolding postfix_turn_def by (rule bounded_weaken, (rule bounds | simp)+)

lemma bounded_postfix [bounds]:
  "k \<le> Suc K \<Longrightarrow> bounded b ts k (\<lambda>_. k - 1) (postfix g allow)"
  unfolding postfix_def by (rule bounded_weaken, (rule bounds bounded_ploop_any | simp)+)

lemma bounded_borrow_group_expression [bounds]:
  "k \<le> Suc K \<Longrightarrow> t \<in> set ts \<Longrightarrow> bounded b ts k (\<lambda>_. k - 1) (borrow_group_expression g mutable access t)"
  unfolding borrow_group_expression_def by (rule bounded_weaken, (rule bounds | simp)+)

lemma bounded_borrow_expression [bounds]:
  "k \<le> Suc K \<Longrightarrow> t \<in> set ts \<Longrightarrow> bounded b ts k (\<lambda>_. k - 1) (borrow_expression g t)"
  unfolding borrow_expression_def by (rule bounded_weaken, (rule bounds | simp)+)

lemma bounded_unary_parser [bounds]:
  "k \<le> Suc K \<Longrightarrow> bounded b ts k (\<lambda>_. k - 1) (unary_parser g allow)"
  unfolding unary_parser_def by (rule bounded_weaken, (rule bounds | simp)+)

lemma bounded_coalesce_parser [bounds]:
  assumes "k \<le> Suc K"
  shows "bounded b ts k (\<lambda>_. k - 1) (coalesce_parser g allow)"
proof -
  have "operand_bounded ts k (unary_parser g allow)" 
    unfolding operand_bounded_def by (intro allI impI bounded_unary_parser) (use assms in simp)
  note or = bounded_operand [OF operand_bounded_logical_or [OF this]]
  show ?thesis unfolding coalesce_parser_def coalesce_def using assms by - (rule bounded_weaken, (rule or bounds | simp)+)
qed

lemma bounded_assigned [bounds]:
  "k \<le> K \<Longrightarrow> bounded b ts k (\<lambda>_. k - 1) (assigned g allow l operator)"
  unfolding assigned_def by (rule bounded_weaken, (rule bounds | simp)+)

lemma bounded_match_expression [bounds]:
  assumes "k \<le> Suc K" "bounded b ts k (\<lambda>_. k - 1) p"
  shows "bounded b ts k (\<lambda>_. k - 1) (match_expression g p)"
  unfolding match_expression_def using assms by - (rule bounded_weaken, (rule assms(2) bounds | simp)+)

lemma bounded_expression [bounds]:
  "k \<le> Suc K \<Longrightarrow> bounded b ts k (\<lambda>_. k - 1) (expression g allow)"
  unfolding expression_def assignment_def by (rule bounded_weaken, (rule bounds | simp)+)

subsection \<open>Constraints\<close>

lemma bounded_associated_binding [bounds]:
  "k \<le> Suc K \<Longrightarrow> bounded b ts k (\<lambda>_. k - 1) (associated_binding g)"
  unfolding associated_binding_def by (rule bounded_weaken, (rule bounds | simp)+)

lemma bounded_trait_argument [bounds]:
  "k \<le> K \<Longrightarrow> bounded b ts k (\<lambda>_. k - 1) (trait_argument g acc)"
  unfolding trait_argument_def by (rule bounded_weaken, (rule bounds | simp)+)

lemma bounded_where_trait_arguments [bounds]:
  "k \<le> Suc K \<Longrightarrow> bounded b ts k (\<lambda>_. k) (where_trait_arguments g)"
  unfolding where_trait_arguments_def by (rule bounded_weaken, (rule bounds | simp)+)

lemma bounded_where_trait_ref [bounds]:
  "k \<le> Suc K \<Longrightarrow> bounded b ts k (\<lambda>_. k - 1) (where_trait_ref g)"
  unfolding where_trait_ref_def by (rule bounded_weaken, (rule bounds | simp)+)

lemma bounded_is_constraint [bounds]:
  "k \<le> Suc K \<Longrightarrow> b \<Longrightarrow> bounded b ts k (\<lambda>_. k - 1) (is_constraint g path predicates)"
  unfolding is_constraint_def by (rule bounded_weaken, (rule bounds | simp)+)

lemma bounded_projection_equality [bounds]:
  "k \<le> Suc K \<Longrightarrow> bounded b ts k (\<lambda>_. k - 1) (projection_equality g path predicates)"
  unfolding projection_equality_def by (rule bounded_weaken, (rule bounds | simp)+)

lemma bounded_constraint_expression [bounds]:
  "k \<le> Suc K \<Longrightarrow> bounded b ts k (\<lambda>_. k - 1) (constraint_expression g predicates)"
  unfolding constraint_expression_def by (rule bounded_weaken, (rule bounds | simp)+)

lemma bounded_constraint_expressions_until_rparen [bounds]:
  "k \<le> Suc K \<Longrightarrow> bounded b ts k (\<lambda>_. k - 1) (constraint_expressions_until_rparen g)"
  unfolding constraint_expressions_until_rparen_def by (rule bounded_weaken, (rule bounds bounded_ploop_any | simp)+)

lemma bounded_constraint_arguments [bounds]:
  "k \<le> Suc K \<Longrightarrow> bounded b ts k (\<lambda>_. k - 1) (constraint_arguments g opening)"
  unfolding constraint_arguments_def by (rule bounded_weaken, (rule bounds | simp)+)

lemma bounded_requires_parameter_group [bounds]:
  "k \<le> Suc K \<Longrightarrow> bounded b ts k (\<lambda>_. k - 1) (requires_parameter_group g)"
  unfolding requires_parameter_group_def by (rule bounded_weaken, (rule bounds | simp)+)

subsection \<open>Structs, enums, effects and traits\<close>

lemma bounded_field_parser [bounds]:
  "k \<le> Suc K \<Longrightarrow> bounded b ts k (\<lambda>_. k - 1) (field_parser g)"
  unfolding field_parser_def by (rule bounded_weaken, (rule bounds | simp)+)

lemma bounded_braced_type_fields [bounds]:
  "k \<le> Suc K \<Longrightarrow> bounded b ts k (\<lambda>_. k - 1) (braced_type_fields g)"
  unfolding braced_type_fields_def by (rule bounded_weaken, (rule bounds | simp)+)

lemma bounded_named_type_fields_after_open [bounds]:
  "k \<le> Suc K \<Longrightarrow> bounded b ts k (\<lambda>_. k - 1) (named_type_fields_after_open g)"
  unfolding named_type_fields_after_open_def by (rule bounded_weaken, (rule bounds | simp)+)

lemma bounded_struct_definition [bounds]:
  "k \<le> Suc K \<Longrightarrow> bounded b ts k (\<lambda>_. k - 1) (struct_definition g name cs)"
  unfolding struct_definition_def by (rule bounded_weaken, (rule bounds | simp)+)

lemma bounded_variant_payload_parser [bounds]:
  "k \<le> Suc K \<Longrightarrow> bounded b ts k (\<lambda>_. k) (variant_payload_parser g)"
  unfolding variant_payload_parser_def by (rule bounded_weaken, (rule bounds | simp)+)

lemma bounded_enum_variant [bounds]:
  "k \<le> Suc K \<Longrightarrow> bounded b ts k (\<lambda>_. k - 1) (enum_variant g variants)"
  unfolding enum_variant_def by (rule bounded_weaken, (rule bounds | simp)+)

lemma bounded_enum_variant_list [bounds]:
  "k \<le> Suc K \<Longrightarrow> bounded b ts k (\<lambda>_. k - 1) (enum_variant_list g)"
  unfolding enum_variant_list_def by (rule bounded_weaken, (rule bounds bounded_ploop_some | simp)+)

lemma bounded_enum_definition [bounds]:
  "k \<le> Suc K \<Longrightarrow> bounded b ts k (\<lambda>_. k - 1) (enum_definition g name cs)"
  unfolding enum_definition_def by (rule bounded_weaken, (rule bounds | simp)+)

lemma bounded_annotate [bounds]:
  "k \<le> Suc K \<Longrightarrow> bounded b ts k (\<lambda>_. k) (annotate g d result)"
  unfolding annotate_def by (rule bounded_weaken, (rule bounds | simp)+)

lemma bounded_optional_result [bounds]:
  "k \<le> Suc K \<Longrightarrow> bounded b ts k (\<lambda>_. k) (optional_result g)"
  unfolding optional_result_def by (rule bounded_weaken, (rule bounds | simp)+)

lemma bounded_body_constraints [bounds]:
  "k \<le> Suc K \<Longrightarrow> b \<Longrightarrow> bounded b ts k (\<lambda>_. k - 1) (body_constraints g d)"
  unfolding body_constraints_def by (rule bounded_weaken, (rule bounds | simp)+)

lemma bounded_effect_operation_head [bounds]:
  "k \<le> Suc K \<Longrightarrow> bounded b ts k (\<lambda>_. k - 1) (effect_operation_head g)"
  unfolding effect_operation_head_def by (rule bounded_weaken, (rule bounds | simp)+)

lemma bounded_effect_operation [bounds]:
  "k \<le> Suc K \<Longrightarrow> bounded b ts k (\<lambda>_. k - 1) (effect_operation g name ops)"
  unfolding effect_operation_def by (rule bounded_weaken, (rule bounds | simp)+)

lemma bounded_effect_definition [bounds]:
  "k \<le> Suc K \<Longrightarrow> bounded b ts k (\<lambda>_. k) (effect_definition g name cs)"
  unfolding effect_definition_def by (rule bounded_weaken, (rule bounds bounded_ploop_any | simp)+)

lemma bounded_trait_self_parameter_parser [bounds]:
  "k \<le> Suc K \<Longrightarrow> bounded b ts k (\<lambda>_. k) (trait_self_parameter_parser g)"
  unfolding trait_self_parameter_parser_def by (rule bounded_weaken, (rule bounds | simp)+)

lemma bounded_associated_declaration [bounds]:
  "k \<le> Suc K \<Longrightarrow> bounded b ts k (\<lambda>_. k) (associated_declaration g d m)"
  unfolding associated_declaration_def by (rule bounded_weaken, (rule bounds | simp)+)

lemma bounded_trait_body [bounds]:
  "k \<le> Suc K \<Longrightarrow> bounded b ts k (\<lambda>_. k) (trait_body g m)"
  unfolding trait_body_def by (rule bounded_weaken, (rule bounds | simp)+)

lemma bounded_trait_function_body [bounds]:
  "k \<le> Suc K \<Longrightarrow> bounded b ts k (\<lambda>_. k) (trait_function_body g d)"
  unfolding trait_function_body_def by (rule bounded_weaken, (rule bounds | simp)+)

lemma bounded_trait_function [bounds]:
  "k \<le> Suc K \<Longrightarrow> bounded b ts k (\<lambda>_. k) (trait_function g d r)"
  unfolding trait_function_def by (rule bounded_weaken, (rule bounds | simp)+)

lemma bounded_trait_member_result [bounds]:
  "k \<le> Suc K \<Longrightarrow> bounded b ts k (\<lambda>_. k) (trait_member_result g d)"
  unfolding trait_member_result_def by (rule bounded_weaken, (rule bounds | simp)+)

lemma bounded_member_head [bounds]:
  "k \<le> Suc K \<Longrightarrow> bounded b ts k (\<lambda>_. k - 1) (member_head g outer container article)"
  unfolding member_head_def by (rule bounded_weaken, (rule bounds | simp)+)

lemma bounded_trait_member_parser [bounds]:
  "k \<le> Suc K \<Longrightarrow> bounded b ts k (\<lambda>_. k - 1) (trait_member_parser g outer)"
  unfolding trait_member_parser_def by (rule bounded_weaken, (rule bounds | simp)+)

lemma bounded_trait_definition [bounds]:
  "k \<le> Suc K \<Longrightarrow> bounded b ts k (\<lambda>_. k - 1) (trait_definition g name cs)"
  unfolding trait_definition_def by (rule bounded_weaken, (rule bounds | simp)+)

subsection \<open>Declarations and programs\<close>

lemma bounded_extend_constant [bounds]:
  "k \<le> K \<Longrightarrow> bounded b ts k (\<lambda>_. k - 1) (extend_constant g d)"
  unfolding extend_constant_def by (rule bounded_weaken, (rule bounds | simp)+)

lemma bounded_extend_value [bounds]:
  "k \<le> K \<Longrightarrow> bounded b ts k (\<lambda>_. k) (extend_value g d)"
  unfolding extend_value_def by (rule bounded_weaken, (rule bounds | simp)+)

lemma bounded_extend_initializer [bounds]:
  "k \<le> Suc K \<Longrightarrow> bounded b ts k (\<lambda>_. k - 1) (extend_initializer g d)"
  unfolding extend_initializer_def by (rule bounded_weaken, (rule bounds | simp)+)

lemma bounded_extend_member_parser [bounds]:
  "k \<le> Suc K \<Longrightarrow> bounded b ts k (\<lambda>_. k - 1) (extend_member_parser g)"
  unfolding extend_member_parser_def by (rule bounded_weaken, (rule bounds | simp)+)

lemma bounded_extend_requirements [bounds]:
  "k \<le> Suc K \<Longrightarrow> bounded b ts k (\<lambda>_. k) (extend_requirements g)"
  unfolding extend_requirements_def by (rule bounded_weaken, (rule bounds | simp)+)

lemma bounded_extend_definition [bounds]:
  "k \<le> Suc K \<Longrightarrow> bounded b ts k (\<lambda>_. k - 1) (extend_definition g)"
  unfolding extend_definition_def by (rule bounded_weaken, (rule bounds | simp)+)

lemma bounded_type_alias_item [bounds]:
  "k \<le> Suc K \<Longrightarrow> bounded b ts k (\<lambda>_. k - 1) (type_alias_item g d)"
  unfolding type_alias_item_def by (rule bounded_weaken, (rule bounds | simp)+)

lemma bounded_type_constructor_alias [bounds]:
  "k \<le> Suc K \<Longrightarrow> bounded b ts k (\<lambda>_. k - 1) (type_constructor_alias g d)"
  unfolding type_constructor_alias_def by (rule bounded_weaken, (rule bounds | simp)+)

lemma bounded_type_declaration [bounds]:
  "k \<le> Suc K \<Longrightarrow> b \<Longrightarrow> bounded b ts k (\<lambda>_. k) (type_declaration g d)"
  unfolding type_declaration_def by (rule bounded_weaken, (rule bounded_advance_twice bounds | simp)+)

lemma bounded_type_constructor_declaration [bounds]:
  "k \<le> Suc K \<Longrightarrow> b \<Longrightarrow> bounded b ts k (\<lambda>_. k) (type_constructor_declaration g d)"
  unfolding type_constructor_declaration_def by (rule bounded_weaken, (rule bounded_advance_twice bounds | simp)+)

lemma bounded_effect_item [bounds]:
  "k \<le> Suc K \<Longrightarrow> b \<Longrightarrow> bounded b ts k (\<lambda>_. k) (effect_item g d)"
  unfolding effect_item_def by (rule bounded_weaken, (rule bounded_advance_twice bounds | simp)+)

lemma bounded_data_item [bounds]:
  "k \<le> Suc K \<Longrightarrow> bounded b ts k (\<lambda>_. k - 1) (data_item g d)"
  unfolding data_item_def by (rule bounded_weaken, (rule bounds | simp)+)

lemma bounded_global_item [bounds]:
  "k \<le> K \<Longrightarrow> bounded b ts k (\<lambda>_. k - 1) (global_item g d)"
  unfolding global_item_def by (rule bounded_weaken, (rule bounds | simp)+)

lemma bounded_function_item [bounds]:
  "k \<le> K \<Longrightarrow> bounded b ts k (\<lambda>_. k - 1) (function_item g d)"
  unfolding function_item_def by (rule bounded_weaken, (rule bounds | simp)+)

lemma bounded_item_value [bounds]:
  "k \<le> K \<Longrightarrow> bounded b ts k (\<lambda>_. k) (item_value g d)"
  unfolding item_value_def by (rule bounded_weaken, (rule bounds | simp)+)

lemma bounded_item_initializer [bounds]:
  "k \<le> Suc K \<Longrightarrow> bounded b ts k (\<lambda>_. k) (item_initializer g d)"
  unfolding item_initializer_def by (rule bounded_weaken, (rule bounds | simp)+)

lemma bounded_value_declaration [bounds]:
  "k \<le> Suc K \<Longrightarrow> bounded b ts k (\<lambda>_. k) (value_declaration g d)"
  unfolding value_declaration_def by (rule bounded_weaken, (rule bounds | simp)+)

lemma bounded_colon_declaration [bounds]:
  "k \<le> Suc K \<Longrightarrow> b \<Longrightarrow> bounded b ts k (\<lambda>_. k) (colon_declaration g d)"
  unfolding colon_declaration_def by (rule bounded_weaken, (rule bounds | simp)+)

lemma bounded_let_item [bounds]:
  "k \<le> Suc K \<Longrightarrow> bounded b ts k (\<lambda>_. k - 1) (let_item g)"
  unfolding let_item_def by (rule bounded_weaken, (rule bounds | simp)+)

lemma bounded_item_parser [bounds]:
  "k \<le> Suc K \<Longrightarrow> bounded b ts k (\<lambda>_. k - 1) (item_parser g)"
  unfolding item_parser_def by (rule bounded_weaken, (rule bounds | simp)+)

lemma bounded_test_declaration [bounds]:
  "k \<le> Suc K \<Longrightarrow> b \<Longrightarrow> bounded b ts k (\<lambda>_. k - 1) (test_declaration g)"
  unfolding test_declaration_def by (rule bounded_weaken, (rule bounds | simp)+)

lemma bounded_visible_item [bounds]:
  "k \<le> Suc K \<Longrightarrow> bounded b ts k (\<lambda>_. k - 1) (visible_item g p v)"
  unfolding visible_item_def by (rule bounded_weaken, (rule bounds | simp)+)

lemma bounded_test_item [bounds]:
  "k \<le> Suc K \<Longrightarrow> b \<Longrightarrow> bounded b ts k (\<lambda>_. k - 1) (test_item g p v)"
  unfolding test_item_def by (rule bounded_weaken, (rule bounds | simp)+)

lemma bounded_program_item [bounds]:
  "k \<le> Suc K \<Longrightarrow> bounded b ts k (\<lambda>_. k - 1) (program_item g p)"
  unfolding program_item_def by (rule bounded_weaken, (rule bounds | simp)+)

lemma bounded_program_step [bounds]:
  "k \<le> Suc K \<Longrightarrow> bounded b ts k (\<lambda>_. k - 1) (program_step g p)"
  unfolding program_step_def by (rule bounded_weaken, (rule bounds | simp)+)

lemma bounded_program_items [bounds]:
  "k \<le> Suc K \<Longrightarrow> bounded b ts k (\<lambda>_. k) (program_items g)"
  unfolding program_items_def by (rule bounded_weaken, (rule bounds | simp)+)

lemma bounded_program_parser [bounds]:
  "k \<le> Suc K \<Longrightarrow> bounded b ts k (\<lambda>_. k) (program_parser g post)"
  unfolding program_parser_def by (rule bounded_weaken, (rule bounds | simp)+)

end

subsection \<open>The recursion\<close>

lemma bounded_no_tokens: "bounded b ts 0 M p"
  by (auto simp: bounded_def at_state_def tokens_left_def)

lemma grammar_contract_zero: "grammar_contract ts 0 g"
  by unfold_locales (simp_all add: bounded_no_tokens)

lemma grammar_contract_Suc:
  assumes "grammar_contract ts K (grammar_of upper K)"
  shows "grammar_contract ts (Suc K) (grammar_of upper (Suc K))"
  by (unfold_locales; simp only: grammar_of.simps Let_def grammar.select_convs)
    (assumption | rule assms grammar_contract.bounded_type_expr grammar_contract.bounded_expression
      grammar_contract.bounded_coalesce_parser grammar_contract.bounded_unary_parser
      grammar_contract.bounded_pattern_parser grammar_contract.bounded_compile_parameter_sort)+

interpretation grammar: grammar_contract ts n "grammar_of upper n" for ts n upper
  by (induction n) (rule grammar_contract_zero, rule grammar_contract_Suc)

subsection \<open>The parser\<close>

definition reported_at_token :: "token list \<Rightarrow> stop + 'a \<Rightarrow> bool" where
  "reported_at_token ts r \<longleftrightarrow>
     (case r of
        Inr _ \<Rightarrow> True
      | Inl (Failed e) \<Rightarrow> error_at_token ts e
      | Inl e \<Rightarrow> e = Unreachable)"

lemma parse_tokens_reported:
  assumes "closed_tokens ts"
  shows "reported_at_token ts (parse_tokens upper post ts)"
proof -
  have "bounded False ts (length ts) (\<lambda>_. length ts) (program_parser (grammar_of upper (length ts)) post)"
    by (rule grammar.bounded_program_parser) simp
  moreover have "at_state ts False (length ts) (parser_new ts)"
    using assms by (auto simp: at_state_def parser_new_def tokens_left_def closed_tokens_def)
  ultimately have "outcome ts (\<lambda>_. length ts) (program_parser (grammar_of upper (length ts)) post (parser_new ts))"
    using assms by (simp add: bounded_def)
  then show ?thesis
    by (auto simp: parse_tokens_def reported_at_token_def outcome_def split: sum.splits stop.splits)
qed

end
