(* ===== verification/Parser_Errors.thy ===== *)
theory Parser_Errors
  imports Parser_Total Lexer_Positions
begin

text \<open>
  The errors of \<open>parse\<close> (\<open>compiler/src/parser.rs\<close>): an error of the lexer comes with a line and a column and gets its bytes by a
  search in the source, an error of the parser has the positions of a token.  Both are the positions of a
  piece of the source.
\<close>

definition error_span :: "chars \<Rightarrow> parse_error \<Rightarrow> bool" where
  "error_span src e \<longleftrightarrow>
     (\<exists>i j. i \<le> j \<and> j \<le> length src \<and>
       pe_start_byte e = utf8_length (take i src) \<and> pe_end_byte e = utf8_length (take j src) \<and>
       pe_line e = line_after (take i src) \<and> pe_column e = column_after (take i src))"

definition reported_in_source :: "chars \<Rightarrow> stop + 'a \<Rightarrow> bool" where
  "reported_in_source src r \<longleftrightarrow>
     (case r of
        Inr _ \<Rightarrow> True
      | Inl (Failed e) \<Rightarrow> error_span src e
      | Inl e \<Rightarrow> e = Unreachable)"

subsection \<open>The bytes of a line and a column\<close>

lemma take_next: "i < length src \<Longrightarrow> take (Suc i) src = take i src @ [src ! i]"
  by (rule take_Suc_conv_app_nth)

text \<open>The line and the column determine the place in the source.\<close>

lemma place_after:
  assumes "i \<le> j" "j \<le> length src"
  shows "line_after (take i src) < line_after (take j src) \<or>
    line_after (take i src) = line_after (take j src) \<and>
    column_after (take j src) = column_after (take i src) + (j - i)"
  using assms(1) assms(2)
proof (induction j rule: dec_induct)
  case (step n)
  then show ?case by (auto simp: take_next line_after_snoc column_after_snoc)
qed simp

lemma place_unique:
  assumes "i \<le> j" "j \<le> length src" "line_after (take i src) = line_after (take j src)"
    "column_after (take i src) = column_after (take j src)"
  shows "i = j"
  using place_after [OF assms(1,2)] assms(1,3,4) by auto

lemma source_byte_offset_behind:
  assumes "i \<le> j" "j \<le> length src"
  shows "source_byte_offset_from (line_after (take j src)) (column_after (take j src))
      (line_after (take i src)) (column_after (take i src)) (utf8_length (take i src)) (drop i src) =
    utf8_length (take j src)"
  using assms
proof (induction "j - i" arbitrary: i)
  case 0
  then show ?case by (cases "drop i src") auto
next
  case (Suc n)
  then have i: "i < j" "i < length src" by auto
  then have d: "drop i src = src ! i # drop (Suc i) src" by (simp add: Cons_nth_drop_Suc)
  have "\<not> (line_after (take i src) = line_after (take j src) \<and> column_after (take i src) = column_after (take j src))"
    using place_unique [OF Suc.prems] i(1) by auto
  moreover have "source_byte_offset_from (line_after (take j src)) (column_after (take j src))
      (line_after (take (Suc i) src)) (column_after (take (Suc i) src)) (utf8_length (take (Suc i) src))
      (drop (Suc i) src) = utf8_length (take j src)"
    using Suc.hyps(2) i Suc.prems(2) by (intro Suc.hyps(1)) auto
  ultimately show ?case
    unfolding d using i(2)
    by (auto simp: take_next line_after_snoc column_after_snoc utf8_length_snoc split: if_splits)
qed

lemma source_byte_offset_of_place:
  assumes "i \<le> length src"
  shows "source_byte_offset src (line_after (take i src)) (column_after (take i src)) = utf8_length (take i src)"
  using source_byte_offset_behind [of 0 i src] assms
  by (simp add: source_byte_offset_def line_after_def column_after_def utf8_length_def)

lemma char_at_byte_of_place:
  assumes "i \<le> length src"
  shows "char_at_byte (utf8_length (take i src)) src = (if i < length src then Some (src ! i) else None)"
  using assms
proof (induction src arbitrary: i)
  case (Cons c cs)
  show ?case
  proof (cases i)
    case (Suc k)
    then have "char_at_byte (utf8_length (take i (c # cs))) (c # cs) = char_at_byte (utf8_length (take k cs)) cs"
      using len_utf8_pos [of c] by (simp add: utf8_length_def)
    then show ?thesis using Cons Suc by simp
  qed (simp add: utf8_length_def)
qed (simp add: utf8_length_def)

lemma from_lex_span:
  assumes "positions_ok src (Inl e)"
  shows "error_span src (from_lex src e)"
proof -
  obtain i where i: "i \<le> length src" "error_line e = line_after (take i src)" "error_column e = column_after (take i src)"
    using assms by (auto simp: positions_ok_def)
  have start: "source_byte_offset src (error_line e) (error_column e) = utf8_length (take i src)"
    unfolding i(2,3) by (rule source_byte_offset_of_place [OF i(1)])
  let ?j = "if i < length src then Suc i else i"
  have "pe_end_byte (from_lex src e) = utf8_length (take ?j src)"
    using i(1) by (simp add: from_lex_def Let_def start char_at_byte_of_place take_next utf8_length_snoc)
  moreover have "pe_start_byte (from_lex src e) = utf8_length (take i src)"
    "pe_line (from_lex src e) = line_after (take i src)" "pe_column (from_lex src e) = column_after (take i src)"
    using i(2,3) start by (simp_all add: from_lex_def Let_def)
  moreover have "i \<le> ?j" "?j \<le> length src" using i(1) by simp_all
  ultimately show ?thesis unfolding error_span_def by blast
qed

subsection \<open>The bytes of a token\<close>

lemma tokens_upto_at: "tokens_upto src n ts \<Longrightarrow> t \<in> set ts \<Longrightarrow> \<exists>i j. token_at src i j t"
  by (induction rule: tokens_upto.induct) auto

lemma token_error_span: "token_at src i j t \<Longrightarrow> error_span src (token_error t m)"
  unfolding error_span_def token_at_def token_error_def by auto

lemma lexed_tokens:
  assumes "positions_ok src (Inr ts)"
  shows "closed_tokens ts" "t \<in> set ts \<Longrightarrow> error_span src (token_error t m)"
  using assms tokens_upto_at token_error_span by (fastforce simp: positions_ok_def closed_tokens_def)+

lemma parse_source_reported:
  assumes "xid_ok u"
  shows "\<exists>r. parse_source u upper post src = Some r \<and> reported_in_source src r"
proof -
  obtain r where r: "lex u src = Some r" "positions_ok src r" using lex_ok [OF assms] by blast
  show ?thesis
  proof (cases r)
    case (Inl e)
    then show ?thesis using r from_lex_span [of src e] by (simp add: parse_source_def reported_in_source_def)
  next
    case (Inr ts)
    note ts = lexed_tokens [OF r(2) [unfolded Inr]]
    have "reported_at_token ts (parse_tokens upper post ts)" by (rule parse_tokens_reported [OF ts(1)])
    then have "reported_in_source src (parse_tokens upper post ts)"
      by (auto simp: reported_at_token_def reported_in_source_def error_at_token_def split: sum.splits stop.splits)
        (metis ts(2))
    then show ?thesis using r Inr by (simp add: parse_source_def)
  qed
qed

end
