(* ===== verification/Spec2Isabelle.thy ===== *)
theory Spec2Isabelle
  imports Cleanup_Properties Lexer_Properties Ctfe_Properties Types_Properties Ast_Expr Names_Properties
    Access_Properties Layouts_Properties Place_Lowering Moves_Checked Parser_Errors
begin

text \<open>
  A verification of \<open>salic\<close>, the compiler of the Salicin language (\<open>compiler/src\<close>).

  \<^bold>\<open>The program.\<close>  The compiler reads a package (manifest, lockfile, registry index), lexes and
  parses its modules, checks and lowers them to a typed tree, builds a cleanup plan for every
  function body (which storage lives where, what is initialised, what is dropped), verifies that
  plan, and emits code.
\<close>

end
